(* ===== verification/Kernel_Prelude.thy ===== *)
theory Kernel_Prelude
  imports Main "HOL-Library.Word"
begin

text \<open>
  What every component of the development shares: the type of results of kernel
  code (\<open>outcome\<close>: a value and the new state, or a stop that carries the state it
  was reached in), its sequencing operator \<open>kbind\<close> with the two correctness
  predicates \<open>returns\<close> and \<open>ensures\<close>, the machine integers of the 32-bit target,
  the error numbers of \<^verbatim>\<open>include/errno.h\<close>, and generic facts about words that are
  used as page addresses and bit sets.
\<close>

unbundle bit_operations_syntax

named_theorems outcome_simps
named_theorems addr_simps


subsection \<open>Machine integers\<close>

text \<open>
  \<open>unsigned long\<close>, \<open>unsigned short\<close> and \<open>unsigned char\<close> are words. \<open>int\<close> and
  \<open>long\<close> are mathematical integers, with \<open>wrap32\<close> written out where the source
  relies on two's complement wrap-around.
\<close>

type_synonym u8 = "8 word"
type_synonym u16 = "16 word"
type_synonym u32 = "32 word"

definition wrap32 :: "int \<Rightarrow> int" where
  "wrap32 i = (i + 2 ^ 31) mod 2 ^ 32 - 2 ^ 31"

lemma wrap32_range: "- (2 ^ 31) \<le> wrap32 i \<and> wrap32 i < 2 ^ 31"
  by (simp add: wrap32_def)

lemma wrap32_id: "- (2 ^ 31) \<le> i \<Longrightarrow> i < 2 ^ 31 \<Longrightarrow> wrap32 i = i"
  by (simp add: wrap32_def)


subsection \<open>Results of kernel code\<close>

text \<open>
  \<^verbatim>\<open>panic()\<close> never returns; \<^verbatim>\<open>do_exit()\<close> never returns to its caller; a task that
  sleeps more often than its bound allows is left asleep; a loop whose iteration
  bound is used up is still running; an access through a null pointer or outside an
  array, where the C program has no defined behaviour, is \<open>Undefined\<close>. In all five cases the caller's remaining code
  is not executed, and the state that was reached is kept.
\<close>

datatype stop = Panic string | Do_Exit int | Asleep | Looping | Undefined

datatype ('a, 's) outcome = Done 'a 's | Stop stop 's

fun kbind :: "('a, 's) outcome \<Rightarrow> ('a \<Rightarrow> 's \<Rightarrow> ('b, 's) outcome) \<Rightarrow> ('b, 's) outcome" where
  "kbind (Done a s) f = f a s"
| "kbind (Stop r s) f = Stop r s"

lemma kbind_eq_Done [outcome_simps]:
  "kbind m f = Done b t \<longleftrightarrow> (\<exists>a s. m = Done a s \<and> f a s = Done b t)"
  by (cases m) auto

lemma kbind_eq_Stop [outcome_simps]:
  "kbind m f = Stop r t \<longleftrightarrow> m = Stop r t \<or> (\<exists>a s. m = Done a s \<and> f a s = Stop r t)"
  by (cases m) auto

lemma kbind_cong [fundef_cong]:
  "m = m' \<Longrightarrow> (\<And>a s. m' = Done a s \<Longrightarrow> f a s = f' a s) \<Longrightarrow> kbind m f = kbind m' f'"
  by (cases m') auto

lemma kbind_assoc: "kbind (kbind m f) g = kbind m (\<lambda>a s. kbind (f a s) g)"
  by (cases m) auto

text \<open>
  \<open>returns m Q\<close>: the code returns and its result satisfies \<open>Q\<close>.
  \<open>ensures m Q\<close>: if it returns, the result satisfies \<open>Q\<close>.
\<close>

definition returns :: "('a, 's) outcome \<Rightarrow> ('a \<Rightarrow> 's \<Rightarrow> bool) \<Rightarrow> bool" where
  "returns m Q \<longleftrightarrow> (case m of Done a s \<Rightarrow> Q a s | Stop _ _ \<Rightarrow> False)"

definition ensures :: "('a, 's) outcome \<Rightarrow> ('a \<Rightarrow> 's \<Rightarrow> bool) \<Rightarrow> bool" where
  "ensures m Q \<longleftrightarrow> (case m of Done a s \<Rightarrow> Q a s | Stop _ _ \<Rightarrow> True)"

lemma returns_simps [simp]:
  "returns (Done a s) Q = Q a s" "\<not> returns (Stop r s) Q"
  by (simp_all add: returns_def)

lemma ensures_simps [simp]:
  "ensures (Done a s) Q = Q a s" "ensures (Stop r s) Q"
  by (simp_all add: ensures_def)

lemma returns_kbind [outcome_simps]:
  "returns (kbind m f) Q = returns m (\<lambda>a s. returns (f a s) Q)"
  by (cases m) auto

lemma ensures_kbind [outcome_simps]:
  "ensures (kbind m f) Q = ensures m (\<lambda>a s. ensures (f a s) Q)"
  by (cases m) auto

lemma ensures_mono: "ensures m P \<Longrightarrow> (\<And>a s. P a s \<Longrightarrow> Q a s) \<Longrightarrow> ensures m Q"
  by (cases m) auto

lemma returns_mono: "returns m P \<Longrightarrow> (\<And>a s. P a s \<Longrightarrow> Q a s) \<Longrightarrow> returns m Q"
  by (cases m) auto

lemma returns_iff: "returns m Q \<longleftrightarrow> (\<exists>a s. m = Done a s \<and> Q a s)"
  by (cases m) auto

lemma ensures_iff: "ensures m Q \<longleftrightarrow> (\<forall>a s. m = Done a s \<longrightarrow> Q a s)"
  by (cases m) auto

text \<open>A \<^verbatim>\<open>for\<close> loop over the elements of a list.\<close>

fun kfold :: "('i \<Rightarrow> 's \<Rightarrow> (unit, 's) outcome) \<Rightarrow> 'i list \<Rightarrow> 's \<Rightarrow> (unit, 's) outcome" where
  "kfold f [] s = Done () s"
| "kfold f (x # xs) s = kbind (f x s) (\<lambda>_ s. kfold f xs s)"

lemma ensures_kfold:
  assumes "\<And>x s. x \<in> set xs \<Longrightarrow> I s \<Longrightarrow> ensures (f x s) (\<lambda>_ t. I t)" "I s"
  shows "ensures (kfold f xs s) (\<lambda>_ t. I t)"
  using assms
proof (induction xs arbitrary: s)
  case (Cons x xs)
  have ih: "ensures (kfold f xs t) (\<lambda>_ t. I t)" if "I t" for t
    using Cons.IH [OF Cons.prems(1) that] by simp
  have "ensures (f x s) (\<lambda>_ t. I t)" using Cons.prems by simp
  then show ?case by (auto simp: ensures_kbind elim: ensures_mono intro: ih)
qed simp


subsection \<open>Error numbers\<close>

definition ERROR :: int where "ERROR = 99"
definition EPERM :: int where "EPERM = 1"
definition ENOENT :: int where "ENOENT = 2"
definition ESRCH :: int where "ESRCH = 3"
definition EINTR :: int where "EINTR = 4"
definition EIO :: int where "EIO = 5"
definition ENXIO :: int where "ENXIO = 6"
definition E2BIG :: int where "E2BIG = 7"
definition ENOEXEC :: int where "ENOEXEC = 8"
definition EBADF :: int where "EBADF = 9"
definition ECHILD :: int where "ECHILD = 10"
definition EAGAIN :: int where "EAGAIN = 11"
definition ENOMEM :: int where "ENOMEM = 12"
definition EACCES :: int where "EACCES = 13"
definition EFAULT :: int where "EFAULT = 14"
definition ENOTBLK :: int where "ENOTBLK = 15"
definition EBUSY :: int where "EBUSY = 16"
definition EEXIST :: int where "EEXIST = 17"
definition EXDEV :: int where "EXDEV = 18"
definition ENODEV :: int where "ENODEV = 19"
definition ENOTDIR :: int where "ENOTDIR = 20"
definition EISDIR :: int where "EISDIR = 21"
definition EINVAL :: int where "EINVAL = 22"
definition ENFILE :: int where "ENFILE = 23"
definition EMFILE :: int where "EMFILE = 24"
definition ENOTTY :: int where "ENOTTY = 25"
definition ETXTBSY :: int where "ETXTBSY = 26"
definition EFBIG :: int where "EFBIG = 27"
definition ENOSPC :: int where "ENOSPC = 28"
definition ESPIPE :: int where "ESPIPE = 29"
definition EROFS :: int where "EROFS = 30"
definition EMLINK :: int where "EMLINK = 31"
definition EPIPE :: int where "EPIPE = 32"
definition EDOM :: int where "EDOM = 33"
definition ERANGE :: int where "ERANGE = 34"
definition EDEADLK :: int where "EDEADLK = 35"
definition ENAMETOOLONG :: int where "ENAMETOOLONG = 36"
definition ENOLCK :: int where "ENOLCK = 37"
definition ENOSYS :: int where "ENOSYS = 38"
definition ENOTEMPTY :: int where "ENOTEMPTY = 39"

lemmas errno_defs = ERROR_def EPERM_def ENOENT_def ESRCH_def EINTR_def EIO_def ENXIO_def
  E2BIG_def ENOEXEC_def EBADF_def ECHILD_def EAGAIN_def ENOMEM_def EACCES_def EFAULT_def
  ENOTBLK_def EBUSY_def EEXIST_def EXDEV_def ENODEV_def ENOTDIR_def EISDIR_def EINVAL_def
  ENFILE_def EMFILE_def ENOTTY_def ETXTBSY_def EFBIG_def ENOSPC_def ESPIPE_def EROFS_def
  EMLINK_def EPIPE_def EDOM_def ERANGE_def EDEADLK_def ENAMETOOLONG_def ENOLCK_def
  ENOSYS_def ENOTEMPTY_def


subsection \<open>Bits of words\<close>

lemma unat_and_mask: "unat ((x :: 'a::len word) AND mask n) = unat x mod 2 ^ n"
  by (metis take_bit_eq_mask take_bit_eq_mod unsigned_take_bit_eq)

lemma unat_drop_bit_div: "unat (drop_bit n (x :: 'a::len word)) = unat x div 2 ^ n"
  by (metis drop_bit_eq_div unat_drop_bit_eq)

lemma word_and_not_plus: "((x :: 'a::len word) AND NOT m) + (x AND m) = x"
proof -
  have "((x AND NOT m) AND (x AND m)) + ((x AND NOT m) OR (x AND m)) = (x AND NOT m) + (x AND m)"
    by (rule word_plus_and_or)
  moreover have "(x AND NOT m) AND (x AND m) = 0"
    by (rule bit_word_eqI) (auto simp: bit_simps)
  moreover have "(x AND NOT m) OR (x AND m) = x"
    by (rule bit_word_eqI) (auto simp: bit_simps)
  ultimately show ?thesis by simp
qed

lemma unat_and_not_mask: "unat ((x :: 'a::len word) AND NOT (mask n)) = 2 ^ n * (unat x div 2 ^ n)"
proof -
  have le: "x AND mask n \<le> x" by (simp add: word_and_le2)
  have "x AND NOT (mask n) = x - (x AND mask n)"
    using word_and_not_plus [of x "mask n"] by (simp add: eq_diff_eq)
  then have "unat (x AND NOT (mask n)) = unat x - unat x mod 2 ^ n"
    using le by (simp add: unat_sub unat_and_mask)
  then show ?thesis by (simp add: minus_mod_eq_mult_div)
qed

lemma mask_consts:
  "(0xFFFFF000 :: u32) = NOT (mask 12)" "(0xFFF :: u32) = mask 12"
  "(0xFFC :: u32) = mask 12 AND NOT (mask 2)" "(0x3FF :: u32) = mask 10"
  "(0x3FFFFF :: u32) = mask 22"
  by (simp_all add: mask_eq_exp_minus_1)

lemma unat_and_FFF [addr_simps]: "unat ((x :: u32) AND 0xFFF) = unat x mod 4096"
  unfolding mask_consts unat_and_mask by simp

lemma unat_and_3FF [addr_simps]: "unat ((x :: u32) AND 0x3FF) = unat x mod 1024"
  unfolding mask_consts unat_and_mask by simp

lemma unat_and_3FFFFF [addr_simps]: "unat ((x :: u32) AND 0x3FFFFF) = unat x mod 0x400000"
  unfolding mask_consts unat_and_mask by simp

lemma unat_and_page [addr_simps]: "unat ((x :: u32) AND 0xFFFFF000) = 4096 * (unat x div 4096)"
  unfolding mask_consts unat_and_not_mask by simp

lemma unat_and_FFC [addr_simps]: "unat ((x :: u32) AND 0xFFC) = 4 * ((unat x div 4) mod 1024)"
proof -
  have "x AND 0xFFC = (x AND mask 12) AND NOT (mask 2)"
    by (simp only: mask_consts(3) and.assoc)
  then have "unat (x AND 0xFFC) = 2 ^ 2 * ((unat x mod 2 ^ 12) div 2 ^ 2)"
    by (simp only: unat_and_not_mask unat_and_mask)
  moreover have "(unat x mod 4096) div 4 = (unat x div 4) mod 1024"
    using mod_mult2_eq [of "unat x" 4 1024] by simp
  ultimately show ?thesis by simp
qed


subsection \<open>Page addresses\<close>

text \<open>
  A page address is a multiple of 4096; a longword of the page at \<open>p\<close> has an address
  \<open>p + 4 * i\<close> with \<open>i < 1024\<close>.
\<close>

definition page_aligned :: "u32 \<Rightarrow> bool" where
  "page_aligned p \<longleftrightarrow> unat p mod 4096 = 0"

definition in_page :: "u32 \<Rightarrow> u32 \<Rightarrow> bool" where
  "in_page p a \<longleftrightarrow> a - p < 4096"

definition slot :: "u32 \<Rightarrow> nat \<Rightarrow> u32" where
  "slot p i = p + of_nat (4 * i)"

lemma page_aligned_0 [simp]: "page_aligned 0"
  by (simp add: page_aligned_def)

lemma page_aligned_and [simp]: "page_aligned (x AND 0xFFFFF000)"
  by (simp add: page_aligned_def unat_and_page)

lemma page_alignedE:
  assumes "page_aligned p" obtains k where "unat p = 4096 * k" and "k < 2 ^ 20"
proof -
  obtain k where k: "unat p = 4096 * k" using assms by (auto simp: page_aligned_def)
  have "unat p < 2 ^ 32" using unsigned_less [of p] by simp
  with k have "k < 2 ^ 20" by simp
  with k show thesis by (rule that)
qed

lemma unat_slot: "page_aligned p \<Longrightarrow> i < 1024 \<Longrightarrow> unat (slot p i) = unat p + 4 * i"
proof -
  assume a: "page_aligned p" "i < 1024"
  then obtain k where k: "unat p = 4096 * k" "k < 2 ^ 20" by (auto elim: page_alignedE)
  have b: "unat p + 4 * i < 2 ^ 32" using k a(2) by simp
  have "unat (of_nat (4 * i) :: u32) = 4 * i"
    using a(2) by (simp only: unat_of_nat) (simp add: take_bit_nat_eq_self)
  then show ?thesis using b by (simp only: slot_def unat_word_ariths) simp
qed

lemma in_page_iff: "page_aligned p \<Longrightarrow> in_page p a \<longleftrightarrow> unat a div 4096 = unat p div 4096"
proof -
  assume "page_aligned p"
  then obtain k where k: "unat p = 4096 * k" "k < 2 ^ 20" by (auto elim: page_alignedE)
  have in_page: "in_page p a \<longleftrightarrow> unat (a - p) < 4096"
    by (simp add: in_page_def word_less_nat_alt)
  show ?thesis
  proof (cases "p \<le> a")
    case True
    then have "unat (a - p) = unat a - 4096 * k" "4096 * k \<le> unat a"
      using k by (simp_all add: unat_sub word_le_nat_alt)
    then show ?thesis unfolding in_page using k by auto
  next
    case False
    then have lt: "unat a < 4096 * k" using k by (simp add: word_le_nat_alt)
    then have "unat (a - p) = 2 ^ 32 + unat a - 4096 * k"
      using k by (simp add: unat_sub_if_size word_size)
    then have "\<not> in_page p a" unfolding in_page using k by simp
    moreover have "unat a div 4096 < k" using lt by (simp add: less_mult_imp_div_less mult.commute)
    ultimately show ?thesis using k by simp
  qed
qed

lemma in_page_slot [simp]:
  "page_aligned p \<Longrightarrow> page_aligned q \<Longrightarrow> i < 1024 \<Longrightarrow> in_page p (slot q i) \<longleftrightarrow> p = q"
proof -
  assume a: "page_aligned p" "page_aligned q" "i < 1024"
  then obtain k l where kl: "unat p = 4096 * k" "unat q = 4096 * l" by (auto elim!: page_alignedE)
  have "unat (slot q i) div 4096 = l" using a(3) kl(2) unfolding unat_slot [OF a(2,3)] by simp
  then show ?thesis unfolding in_page_iff [OF a(1)] using kl by (auto simp: word_unat_eq_iff)
qed

lemma slot_eq_iff [simp]:
  "page_aligned p \<Longrightarrow> page_aligned q \<Longrightarrow> i < 1024 \<Longrightarrow> j < 1024 \<Longrightarrow>
     slot p i = slot q j \<longleftrightarrow> p = q \<and> i = j"
proof -
  assume a: "page_aligned p" "page_aligned q" "i < 1024" "j < 1024"
  then obtain k l where kl: "unat p = 4096 * k" "unat q = 4096 * l" by (auto elim!: page_alignedE)
  have "slot p i = slot q j \<longleftrightarrow> 4096 * k + 4 * i = 4096 * l + 4 * j"
    by (simp only: word_unat_eq_iff unat_slot [OF a(1,3)] unat_slot [OF a(2,4)] kl)
  also have "\<dots> \<longleftrightarrow> k = l \<and> i = j"
  proof
    assume e: "4096 * k + 4 * i = 4096 * l + 4 * j"
    then have "(4096 * k + 4 * i) div 4096 = (4096 * l + 4 * j) div 4096" by simp
    then have "k = l" using a(3,4) by simp
    with e show "k = l \<and> i = j" by simp
  qed simp
  also have "\<dots> \<longleftrightarrow> p = q \<and> i = j" using kl by (simp add: word_unat_eq_iff)
  finally show ?thesis .
qed

lemma slot_0 [simp]: "slot p 0 = p"
  by (simp add: slot_def)

lemma slot_Suc: "slot p (Suc i) = slot p i + 4"
  by (simp add: slot_def algebra_simps)

end
