(* ===== verification/Mm_Memory.thy ===== *)
theory Mm_Memory
  imports Kernel_Prelude
begin

text \<open>
  The memory manager, \<^verbatim>\<open>mm/memory.c\<close>: the page allocator over \<^verbatim>\<open>mem_map\<close>, the
  operations on the two-level page tables (\<^verbatim>\<open>free_page_tables\<close>, \<^verbatim>\<open>copy_page_tables\<close>,
  \<^verbatim>\<open>put_page\<close>), copy on write (\<^verbatim>\<open>un_wp_page\<close>, \<^verbatim>\<open>do_wp_page\<close>, \<^verbatim>\<open>write_verify\<close>),
  demand-zero pages (\<^verbatim>\<open>get_empty_page\<close>), page sharing (\<^verbatim>\<open>try_to_share\<close>) and the
  initialisation of the map. Page tables live in physical memory, as in the code: a
  pointer to a table entry is its physical address, and the page directory is at 0.
  The lemmas show that the allocator hands out only free pages and frees what it
  handed out, what a page walk sees after each operation, and that the page tables
  stay well formed.
\<close>


subsection \<open>State and constants\<close>

text \<open>
  \<open>phys\<close> is physical memory, one longword per address that is a multiple of 4;
  \<open>klog\<close> collects the format strings given to \<^verbatim>\<open>printk\<close>. The TLB is not part of the
  state: \<^verbatim>\<open>invalidate()\<close> has no counterpart, a page walk always reads memory.
\<close>

record mm_state =
  mem_map :: "nat \<Rightarrow> u8"
  HIGH_MEMORY :: u32
  phys :: "u32 \<Rightarrow> u32"
  klog :: "string list"

definition LOW_MEM :: u32 where
  "LOW_MEM = 0x100000"

definition PAGING_PAGES :: nat where
  "PAGING_PAGES = 15 * 1024 * 1024 div 4096"

definition MAP_NR :: "u32 \<Rightarrow> nat" where
  "MAP_NR addr = unat (drop_bit 12 (addr - LOW_MEM))"

definition USED :: u8 where
  "USED = 100"

definition SIGSEGV :: int where
  "SIGSEGV = 11"

definition printk :: "string \<Rightarrow> 'a mm_state_scheme \<Rightarrow> 'a mm_state_scheme" where
  "printk fmt s = s\<lparr>klog := fmt # klog s\<rparr>"

definition poke :: "u32 \<Rightarrow> u32 \<Rightarrow> 'a mm_state_scheme \<Rightarrow> 'a mm_state_scheme" where
  "poke a v s = s\<lparr>phys := (phys s)(a := v)\<rparr>"

definition set_map :: "nat \<Rightarrow> u8 \<Rightarrow> 'a mm_state_scheme \<Rightarrow> 'a mm_state_scheme" where
  "set_map k v s = s\<lparr>mem_map := (mem_map s)(k := v)\<rparr>"

text \<open>\<^verbatim>\<open>oom()\<close>: report and leave through \<^verbatim>\<open>do_exit(SIGSEGV)\<close>, which does not return.\<close>

definition oom :: "'a mm_state_scheme \<Rightarrow> ('b, 'a mm_state_scheme) outcome" where
  "oom s = Stop (Do_Exit SIGSEGV) (printk ''out of memory'' s)"

text \<open>
  \<^verbatim>\<open>copy_page(from,to)\<close> moves 1024 longwords; \<open>zero_page\<close> is the \<^verbatim>\<open>rep stosl\<close> that
  clears a page.
\<close>

definition copy_page :: "u32 \<Rightarrow> u32 \<Rightarrow> 'a mm_state_scheme \<Rightarrow> 'a mm_state_scheme" where
  "copy_page from to s =
     s\<lparr>phys := (\<lambda>a. if in_page to a then phys s (from + (a - to)) else phys s a)\<rparr>"

definition zero_page :: "u32 \<Rightarrow> 'a mm_state_scheme \<Rightarrow> 'a mm_state_scheme" where
  "zero_page p s = s\<lparr>phys := (\<lambda>a. if in_page p a then 0 else phys s a)\<rparr>"


subsection \<open>The page allocator\<close>

text \<open>
  \<^verbatim>\<open>std ; repne ; scasb\<close> looks at \<^verbatim>\<open>mem_map\<close> from its last byte downwards; the count
  register holds the index of the byte that stopped the scan.
\<close>

fun scan_free :: "(nat \<Rightarrow> u8) \<Rightarrow> nat \<Rightarrow> nat option" where
  "scan_free m 0 = None"
| "scan_free m (Suc k) = (if m k = 0 then Some k else scan_free m k)"

definition get_free_page :: "'a mm_state_scheme \<Rightarrow> u32 \<times> 'a mm_state_scheme" where
  "get_free_page s =
     (case scan_free (mem_map s) PAGING_PAGES of
        None \<Rightarrow> (0, s)
      | Some k \<Rightarrow>
          (let page = push_bit 12 (of_nat k) + LOW_MEM
           in (page, zero_page page (set_map k 1 s))))"

definition free_page :: "u32 \<Rightarrow> 'a mm_state_scheme \<Rightarrow> (unit, 'a mm_state_scheme) outcome" where
  "free_page addr s =
     (if addr < LOW_MEM then Done () s
      else if HIGH_MEMORY s \<le> addr then Stop (Panic ''trying to free nonexistent page'') s
      else let nr = MAP_NR addr
           in if mem_map s nr \<noteq> 0 then Done () (set_map nr (mem_map s nr - 1) s)
              else Stop (Panic ''trying to free free page'') (set_map nr 0 s))"


subsection \<open>Page tables\<close>

text \<open>Address of the directory entry and offset of the table entry for a linear address.\<close>

definition dir_entry_addr :: "u32 \<Rightarrow> u32" where
  "dir_entry_addr address = drop_bit 20 address AND 0xFFC"

definition table_offset :: "u32 \<Rightarrow> u32" where
  "table_offset address = drop_bit 10 address AND 0xFFC"

text \<open>The inner loop of \<^verbatim>\<open>free_page_tables\<close>: \<open>n\<close> entries from \<open>pg_table\<close> on.\<close>

fun free_table_entries ::
  "nat \<Rightarrow> u32 \<Rightarrow> 'a mm_state_scheme \<Rightarrow> (unit, 'a mm_state_scheme) outcome" where
  "free_table_entries 0 pg_table s = Done () s"
| "free_table_entries (Suc n) pg_table s =
     kbind (if 1 AND phys s pg_table \<noteq> 0 then free_page (0xFFFFF000 AND phys s pg_table) s
            else Done () s)
       (\<lambda>_ s. free_table_entries n (pg_table + 4) (poke pg_table 0 s))"

text \<open>Its outer loop: \<open>n\<close> directory entries from \<open>dir\<close> on.\<close>

fun free_dir_entries ::
  "nat \<Rightarrow> u32 \<Rightarrow> 'a mm_state_scheme \<Rightarrow> (unit, 'a mm_state_scheme) outcome" where
  "free_dir_entries 0 dir s = Done () s"
| "free_dir_entries (Suc n) dir s =
     (if 1 AND phys s dir = 0 then free_dir_entries n (dir + 4) s
      else kbind (free_table_entries 1024 (0xFFFFF000 AND phys s dir) s) (\<lambda>_ s.
           kbind (free_page (0xFFFFF000 AND phys s dir) s) (\<lambda>_ s.
           free_dir_entries n (dir + 4) (poke dir 0 s))))"

definition free_page_tables ::
  "u32 \<Rightarrow> u32 \<Rightarrow> 'a mm_state_scheme \<Rightarrow> (int, 'a mm_state_scheme) outcome" where
  "free_page_tables from sz s =
     (if from AND 0x3FFFFF \<noteq> 0 then
        Stop (Panic ''free_page_tables called with wrong alignment'') s
      else if from = 0 then Stop (Panic ''Trying to free up swapper memory space'') s
      else kbind (free_dir_entries (unat (drop_bit 22 (sz + 0x3FFFFF))) (dir_entry_addr from) s)
             (\<lambda>_ s. Done 0 s))"

text \<open>The body of the inner loop of \<^verbatim>\<open>copy_page_tables\<close>, and the loop.\<close>

definition copy_table_entry ::
  "u32 \<Rightarrow> u32 \<Rightarrow> 'a mm_state_scheme \<Rightarrow> 'a mm_state_scheme" where
  "copy_table_entry from_page_table to_page_table s =
     (let this_page = phys s from_page_table
      in if 1 AND this_page = 0 then s
         else let this_page = this_page AND NOT 2;
                  s = poke to_page_table this_page s
              in if LOW_MEM < this_page
                 then let s = poke from_page_table this_page s;
                          k = unat (drop_bit 12 (this_page - LOW_MEM))
                      in set_map k (mem_map s k + 1) s
                 else s)"

fun copy_table_entries ::
  "nat \<Rightarrow> u32 \<Rightarrow> u32 \<Rightarrow> 'a mm_state_scheme \<Rightarrow> 'a mm_state_scheme" where
  "copy_table_entries 0 from_page_table to_page_table s = s"
| "copy_table_entries (Suc nr) from_page_table to_page_table s =
     copy_table_entries nr (from_page_table + 4) (to_page_table + 4)
       (copy_table_entry from_page_table to_page_table s)"

text \<open>Its outer loop; \<open>from = 0\<close> selects the 160-page case of the first fork.\<close>

fun copy_dir_entries ::
  "u32 \<Rightarrow> nat \<Rightarrow> u32 \<Rightarrow> u32 \<Rightarrow> 'a mm_state_scheme \<Rightarrow> (int, 'a mm_state_scheme) outcome" where
  "copy_dir_entries from 0 from_dir to_dir s = Done 0 s"
| "copy_dir_entries from (Suc n) from_dir to_dir s =
     (if 1 AND phys s to_dir \<noteq> 0 then Stop (Panic ''copy_page_tables: already exist'') s
      else if 1 AND phys s from_dir = 0
      then copy_dir_entries from n (from_dir + 4) (to_dir + 4) s
      else let from_page_table = 0xFFFFF000 AND phys s from_dir;
               (to_page_table, s) = get_free_page s
           in if to_page_table = 0 then Done (- 1) s
              else let s = poke to_dir (to_page_table OR 7) s;
                       nr = (if from = 0 then 0xA0 else 1024);
                       s = copy_table_entries nr from_page_table to_page_table s
                   in copy_dir_entries from n (from_dir + 4) (to_dir + 4) s)"

definition copy_page_tables ::
  "u32 \<Rightarrow> u32 \<Rightarrow> u32 \<Rightarrow> 'a mm_state_scheme \<Rightarrow> (int, 'a mm_state_scheme) outcome" where
  "copy_page_tables from to sz s =
     (if from AND 0x3FFFFF \<noteq> 0 \<or> to AND 0x3FFFFF \<noteq> 0
      then Stop (Panic ''copy_page_tables called with wrong alignment'') s
      else copy_dir_entries from (unat (drop_bit 22 (sz + 0x3FFFFF)))
             (dir_entry_addr from) (dir_entry_addr to) s)"

text \<open>The two warnings of \<^verbatim>\<open>put_page\<close>, then the function.\<close>

definition put_page_checks :: "u32 \<Rightarrow> 'a mm_state_scheme \<Rightarrow> 'a mm_state_scheme" where
  "put_page_checks page s =
     (let s = (if page < LOW_MEM \<or> HIGH_MEMORY s \<le> page
               then printk ''Trying to put page %p at %p'' s else s)
      in if mem_map s (unat (drop_bit 12 (page - LOW_MEM))) \<noteq> 1
         then printk ''mem_map disagrees with %p at %p'' s else s)"

definition put_page :: "u32 \<Rightarrow> u32 \<Rightarrow> 'a mm_state_scheme \<Rightarrow> u32 \<times> 'a mm_state_scheme" where
  "put_page page address s =
     (let s = put_page_checks page s;
          dir = dir_entry_addr address;
          entry = drop_bit 12 address AND 0x3FF
      in if phys s dir AND 1 \<noteq> 0
         then let page_table = 0xFFFFF000 AND phys s dir
              in (page, poke (page_table + 4 * entry) (page OR 7) s)
         else let (tmp, s) = get_free_page s
              in if tmp = 0 then (0, s)
                 else let s = poke dir (tmp OR 7) s
                      in (page, poke (tmp + 4 * entry) (page OR 7) s))"


subsection \<open>Copy on write and demand-zero pages\<close>

definition un_wp_page :: "u32 \<Rightarrow> 'a mm_state_scheme \<Rightarrow> (unit, 'a mm_state_scheme) outcome" where
  "un_wp_page table_entry s =
     (let old_page = 0xFFFFF000 AND phys s table_entry
      in if LOW_MEM \<le> old_page \<and> mem_map s (MAP_NR old_page) = 1
         then Done () (poke table_entry (phys s table_entry OR 2) s)
         else let (new_page, s) = get_free_page s
              in if new_page = 0 then oom s
                 else let s = (if LOW_MEM \<le> old_page
                               then set_map (MAP_NR old_page) (mem_map s (MAP_NR old_page) - 1) s
                               else s);
                          s = poke table_entry (new_page OR 7) s
                      in Done () (copy_page old_page new_page s))"

definition do_wp_page :: "u32 \<Rightarrow> u32 \<Rightarrow> 'a mm_state_scheme \<Rightarrow> (unit, 'a mm_state_scheme) outcome" where
  "do_wp_page error_code address s =
     un_wp_page (table_offset address + (0xFFFFF000 AND phys s (dir_entry_addr address))) s"

definition write_verify :: "u32 \<Rightarrow> 'a mm_state_scheme \<Rightarrow> (unit, 'a mm_state_scheme) outcome" where
  "write_verify address s =
     (let page = phys s (dir_entry_addr address)
      in if page AND 1 = 0 then Done () s
         else let page = (page AND 0xFFFFF000) + table_offset address
              in if 3 AND phys s page = 1 then un_wp_page page s else Done () s)"

definition get_empty_page :: "u32 \<Rightarrow> 'a mm_state_scheme \<Rightarrow> (unit, 'a mm_state_scheme) outcome" where
  "get_empty_page address s =
     (let (tmp, s) = get_free_page s;
          (ok, s) = (if tmp = 0 then (0, s) else put_page tmp address s)
      in if tmp = 0 \<or> ok = 0 then kbind (free_page tmp s) (\<lambda>_ s. oom s) else Done () s)"


subsection \<open>Sharing and initialisation\<close>

text \<open>
  \<^verbatim>\<open>try_to_share(address, p)\<close>; \<open>p_start\<close> and \<open>current_start\<close> are \<^verbatim>\<open>p->start_code\<close> and
  \<^verbatim>\<open>current->start_code\<close>.
\<close>

definition try_to_share ::
  "u32 \<Rightarrow> u32 \<Rightarrow> u32 \<Rightarrow> 'a mm_state_scheme \<Rightarrow> (int, 'a mm_state_scheme) outcome" where
  "try_to_share address p_start current_start s =
     (let from_page = dir_entry_addr address + dir_entry_addr p_start;
          to_page = dir_entry_addr address + dir_entry_addr current_start;
          from = phys s from_page
      in if from AND 1 = 0 then Done 0 s
         else let from = from AND 0xFFFFF000;
                  from_page = from + table_offset address;
                  phys_addr = phys s from_page
              in if phys_addr AND 0x41 \<noteq> 0x01 then Done 0 s
                 else let phys_addr = phys_addr AND 0xFFFFF000
                      in if HIGH_MEMORY s \<le> phys_addr \<or> phys_addr < LOW_MEM then Done 0 s
                         else kbind (let to = phys s to_page
                                     in if to AND 1 = 0
                                        then let (to, s) = get_free_page s
                                             in if to \<noteq> 0 then Done to (poke to_page (to OR 7) s)
                                                else oom s
                                        else Done to s)
                            (\<lambda>to s.
                              let to = to AND 0xFFFFF000;
                                  to_page = to + table_offset address
                              in if 1 AND phys s to_page \<noteq> 0
                                 then Stop (Panic ''try_to_share: to_page already exists'') s
                                 else let s = poke from_page (phys s from_page AND NOT 2) s;
                                          s = poke to_page (phys s from_page) s;
                                          k = unat (drop_bit 12 (phys_addr - LOW_MEM))
                                      in Done 1 (set_map k (mem_map s k + 1) s)))"

fun clear_map :: "nat \<Rightarrow> nat \<Rightarrow> (nat \<Rightarrow> u8) \<Rightarrow> (nat \<Rightarrow> u8)" where
  "clear_map 0 i m = m"
| "clear_map (Suc n) i m = clear_map n (Suc i) (m(i := 0))"

definition mem_init :: "u32 \<Rightarrow> u32 \<Rightarrow> 'a mm_state_scheme \<Rightarrow> 'a mm_state_scheme" where
  "mem_init start_mem end_mem s =
     (let s = s\<lparr>HIGH_MEMORY := end_mem,
                mem_map := (\<lambda>i. if i < PAGING_PAGES then USED else mem_map s i)\<rparr>;
          i = MAP_NR start_mem;
          n = sint (signed_drop_bit 12 (end_mem - start_mem))
      in s\<lparr>mem_map := clear_map (nat n) i (mem_map s)\<rparr>)"

text \<open>\<^verbatim>\<open>calc_mem()\<close> prints these numbers: free pages, and for each directory entry in use
  the number of present table entries.\<close>

definition calc_mem :: "'a mm_state_scheme \<Rightarrow> nat \<times> (nat \<times> nat) list" where
  "calc_mem s =
     (length (filter (\<lambda>i. mem_map s i = 0) [0..<PAGING_PAGES]),
      map (\<lambda>i. (i, length (filter (\<lambda>j. phys s (slot (0xFFFFF000 AND phys s (slot 0 i)) j) AND 1 \<noteq> 0)
                              [0..<1024])))
        (filter (\<lambda>i. 1 AND phys s (slot 0 i) \<noteq> 0) [2..<1024]))"


subsection \<open>Frame facts\<close>

lemma poke_simps [simp]:
  "phys (poke a v s) = (phys s)(a := v)" "mem_map (poke a v s) = mem_map s"
  "HIGH_MEMORY (poke a v s) = HIGH_MEMORY s" "klog (poke a v s) = klog s"
  by (simp_all add: poke_def)

lemma set_map_simps [simp]:
  "phys (set_map k v s) = phys s" "mem_map (set_map k v s) = (mem_map s)(k := v)"
  "HIGH_MEMORY (set_map k v s) = HIGH_MEMORY s" "klog (set_map k v s) = klog s"
  by (simp_all add: set_map_def)

lemma printk_simps [simp]:
  "phys (printk f s) = phys s" "mem_map (printk f s) = mem_map s"
  "HIGH_MEMORY (printk f s) = HIGH_MEMORY s" "klog (printk f s) = f # klog s"
  by (simp_all add: printk_def)

lemma zero_page_simps [simp]:
  "phys (zero_page p s) = (\<lambda>a. if in_page p a then 0 else phys s a)"
  "mem_map (zero_page p s) = mem_map s"
  "HIGH_MEMORY (zero_page p s) = HIGH_MEMORY s" "klog (zero_page p s) = klog s"
  by (simp_all add: zero_page_def)

lemma copy_page_simps [simp]:
  "phys (copy_page f p s) = (\<lambda>a. if in_page p a then phys s (f + (a - p)) else phys s a)"
  "mem_map (copy_page f p s) = mem_map s"
  "HIGH_MEMORY (copy_page f p s) = HIGH_MEMORY s" "klog (copy_page f p s) = klog s"
  by (simp_all add: copy_page_def)


subsection \<open>Page numbers and the allocator\<close>

definition page_of :: "nat \<Rightarrow> u32" where
  "page_of k = push_bit 12 (of_nat k) + LOW_MEM"

lemma PAGING_PAGES_eq: "PAGING_PAGES = 3840"
  by (simp add: PAGING_PAGES_def)

lemma unat_LOW_MEM: "unat LOW_MEM = 0x100000"
  by (simp add: LOW_MEM_def)

lemma unat_page_of: "k < PAGING_PAGES \<Longrightarrow> unat (page_of k) = 4096 * k + 0x100000"
proof -
  assume k: "k < PAGING_PAGES"
  have "unat (push_bit 12 (of_nat k) :: u32) = 4096 * k"
    using k by (simp add: push_bit_eq_mult PAGING_PAGES_eq unat_word_ariths unat_of_nat take_bit_nat_eq_self)
  then show ?thesis
    using k by (simp add: page_of_def unat_word_ariths unat_LOW_MEM PAGING_PAGES_eq)
qed

lemma page_of_props:
  assumes "k < PAGING_PAGES"
  shows "page_aligned (page_of k)" and "LOW_MEM \<le> page_of k" and "page_of k \<noteq> 0"
    and "MAP_NR (page_of k) = k"
proof -
  note u = unat_page_of [OF assms]
  show "page_aligned (page_of k)" by (simp add: page_aligned_def u)
  show le: "LOW_MEM \<le> page_of k" by (simp add: word_le_nat_alt u unat_LOW_MEM)
  show "page_of k \<noteq> 0" using u by (metis add_is_0 unat_0 zero_neq_numeral)
  have "unat (page_of k - LOW_MEM) = 4096 * k" using le by (simp add: unat_sub u unat_LOW_MEM)
  then show "MAP_NR (page_of k) = k" by (simp only: MAP_NR_def unat_drop_bit_div) simp
qed

lemma MAP_NR_inj:
  "LOW_MEM \<le> p \<Longrightarrow> LOW_MEM \<le> q \<Longrightarrow> page_aligned p \<Longrightarrow> page_aligned q \<Longrightarrow> MAP_NR p = MAP_NR q \<Longrightarrow> p = q"
proof -
  assume le: "LOW_MEM \<le> p" "LOW_MEM \<le> q" and al: "page_aligned p" "page_aligned q"
    and eq: "MAP_NR p = MAP_NR q"
  obtain k l where kl: "unat p = 4096 * k" "unat q = 4096 * l" using al by (auto elim!: page_alignedE)
  have "unat (p - LOW_MEM) = 4096 * (k - 256)" "unat (q - LOW_MEM) = 4096 * (l - 256)"
    using le kl by (simp_all add: unat_sub unat_LOW_MEM)
  moreover have "256 \<le> k" "256 \<le> l" using le kl by (simp_all add: word_le_nat_alt unat_LOW_MEM)
  ultimately have "k = l" using eq by (simp add: MAP_NR_def unat_drop_bit_div)
  with kl show ?thesis by (simp add: word_unat_eq_iff)
qed

lemma scan_free_Some:
  "scan_free m n = Some k \<longleftrightarrow> k < n \<and> m k = 0 \<and> (\<forall>j. k < j \<and> j < n \<longrightarrow> m j \<noteq> 0)"
  by (induction n) (auto simp: less_Suc_eq)

lemma scan_free_None: "scan_free m n = None \<longleftrightarrow> (\<forall>j<n. m j \<noteq> 0)"
  by (induction n) (auto simp: less_Suc_eq)

lemma get_free_page_cases:
  obtains (none) "get_free_page s = (0, s)" "\<forall>k<PAGING_PAGES. mem_map s k \<noteq> 0"
  | (some) k where "k < PAGING_PAGES" "mem_map s k = 0"
      "\<forall>j. k < j \<and> j < PAGING_PAGES \<longrightarrow> mem_map s j \<noteq> 0"
      "get_free_page s = (page_of k, zero_page (page_of k) (set_map k 1 s))"
proof (cases "scan_free (mem_map s) PAGING_PAGES")
  case None
  then have "get_free_page s = (0, s)" by (simp add: get_free_page_def)
  with None show thesis using none by (simp add: scan_free_None)
next
  case (Some k)
  then have "get_free_page s = (page_of k, zero_page (page_of k) (set_map k 1 s))"
    by (simp add: get_free_page_def page_of_def Let_def)
  with Some show thesis using some [of k] by (simp add: scan_free_Some)
qed

lemma get_free_page_HIGH: "HIGH_MEMORY (snd (get_free_page s)) = HIGH_MEMORY s"
  by (cases s rule: get_free_page_cases) simp_all

lemma get_free_page_fails:
  assumes "get_free_page s = (0, t)"
  shows "t = s" and "\<forall>k<PAGING_PAGES. mem_map s k \<noteq> 0"
  using assms by (cases s rule: get_free_page_cases; simp add: page_of_props)+

lemma get_free_page_succeeds:
  assumes "get_free_page s = (p, t)" "p \<noteq> 0"
  obtains k where "k < PAGING_PAGES" "mem_map s k = 0" "p = page_of k"
    "t = zero_page p (set_map k 1 s)" "\<forall>j. k < j \<and> j < PAGING_PAGES \<longrightarrow> mem_map s j \<noteq> 0"
  using assms by (cases s rule: get_free_page_cases) auto

lemma get_free_page_0_iff:
  "fst (get_free_page s) = 0 \<longleftrightarrow> (\<forall>k<PAGING_PAGES. mem_map s k \<noteq> 0)"
  by (cases s rule: get_free_page_cases) (auto simp: page_of_props)


subsection \<open>The allocator as an interface\<close>

text \<open>
  What the users of the allocator (the page tables, the pipes, the kernel's own
  \<^verbatim>\<open>malloc\<close>) rely on: a page that is handed out was not in use, is in use afterwards,
  and freeing it at once gives back the set of pages in use.
\<close>

locale allocator =
  fixes alloc :: "'s \<Rightarrow> 'p \<times> 's"
    and release :: "'p \<Rightarrow> 's \<Rightarrow> (unit, 's) outcome"
    and null :: 'p
    and in_use :: "'s \<Rightarrow> 'p set"
    and ok :: "'s \<Rightarrow> bool"
  assumes alloc_fresh:
      "ok s \<Longrightarrow> alloc s = (p, t) \<Longrightarrow> p \<noteq> null \<Longrightarrow> p \<notin> in_use s \<and> in_use t = insert p (in_use s) \<and> ok t"
    and alloc_fails: "ok s \<Longrightarrow> alloc s = (null, t) \<Longrightarrow> t = s"
    and release_alloc:
      "ok s \<Longrightarrow> alloc s = (p, t) \<Longrightarrow> p \<noteq> null \<Longrightarrow>
         returns (release p t) (\<lambda>_ u. in_use u = in_use s \<and> ok u)"
begin

lemma two_allocs_differ:
  assumes "ok s" "alloc s = (p, t)" "alloc t = (q, u)" "p \<noteq> null" "q \<noteq> null"
  shows "p \<noteq> q \<and> in_use u = in_use s \<union> {p, q} \<and> ok u"
proof -
  have t: "in_use t = insert p (in_use s)" "ok t" using alloc_fresh [OF assms(1,2,4)] by auto
  then show ?thesis using alloc_fresh [OF t(2) assms(3,5)] by auto
qed

lemma alloc_in_use:
  assumes "ok s" "alloc s = (p, t)"
  shows "in_use s \<subseteq> in_use t \<and> ok t"
proof (cases "p = null")
  case True
  with assms have "t = s" using alloc_fails by simp
  with assms show ?thesis by simp
next
  case False
  with assms show ?thesis using alloc_fresh [of s p t] by auto
qed

lemma release_second_alloc:
  assumes "ok s" "alloc s = (p, t)" "alloc t = (q, u)" "q \<noteq> null"
  shows "returns (release q u) (\<lambda>_ v. in_use v = in_use t \<and> ok v)"
  using assms alloc_in_use release_alloc by blast

end

text \<open>
  A free page always lies below \<^verbatim>\<open>HIGH_MEMORY\<close> (established by \<^verbatim>\<open>mem_init\<close>), so that
  \<^verbatim>\<open>free_page\<close> accepts every page that was handed out.
\<close>

definition map_ok :: "'a mm_state_scheme \<Rightarrow> bool" where
  "map_ok s \<longleftrightarrow> (\<forall>k<PAGING_PAGES. mem_map s k = 0 \<longrightarrow> page_of k < HIGH_MEMORY s)"

definition pages_in_use :: "'a mm_state_scheme \<Rightarrow> u32 set" where
  "pages_in_use s = page_of ` {k. k < PAGING_PAGES \<and> mem_map s k \<noteq> 0}"

lemma page_of_eq_iff: "k < PAGING_PAGES \<Longrightarrow> l < PAGING_PAGES \<Longrightarrow> page_of k = page_of l \<longleftrightarrow> k = l"
  using page_of_props(4) by metis

lemma pages_in_use_iff: "k < PAGING_PAGES \<Longrightarrow> page_of k \<in> pages_in_use s \<longleftrightarrow> mem_map s k \<noteq> 0"
  by (auto simp: pages_in_use_def page_of_eq_iff)

lemma pages_in_use_set:
  "k < PAGING_PAGES \<Longrightarrow> mem_map t = (mem_map s)(k := v) \<Longrightarrow>
     pages_in_use t = (if v = 0 then pages_in_use s - {page_of k} else insert (page_of k) (pages_in_use s))"
  by (auto simp: pages_in_use_def page_of_eq_iff image_iff)

lemma free_page_of:
  assumes "k < PAGING_PAGES" "page_of k < HIGH_MEMORY s" "mem_map s k \<noteq> 0"
  shows "free_page (page_of k) s = Done () (set_map k (mem_map s k - 1) s)"
  using assms page_of_props [OF assms(1)]
  by (auto simp: free_page_def Let_def not_le not_less)

interpretation mm: allocator get_free_page free_page 0 pages_in_use map_ok
proof unfold_locales
  fix s t :: "'a mm_state_scheme" and p
  assume ok: "map_ok s" and al: "get_free_page s = (p, t)"
  { assume "p \<noteq> 0"
    then obtain k where k: "k < PAGING_PAGES" "mem_map s k = 0" "p = page_of k"
        "t = zero_page p (set_map k 1 s)"
      using al by (cases s rule: get_free_page_cases) auto
    have "map_ok t" using ok k by (simp add: map_ok_def)
    moreover have "pages_in_use t = insert p (pages_in_use s)"
      using k pages_in_use_set [of k t s 1] by simp
    ultimately show "p \<notin> pages_in_use s \<and> pages_in_use t = insert p (pages_in_use s) \<and> map_ok t"
      using k by (simp add: pages_in_use_iff)
    have "free_page p t = Done () (set_map k 0 t)"
      using free_page_of [of k t] k ok by (simp add: map_ok_def)
    moreover have "map_ok (set_map k 0 t)" using ok k by (simp add: map_ok_def)
    moreover have "pages_in_use (set_map k 0 t) = pages_in_use s"
      using k by (subst pages_in_use_set [of k _ s 0]) (auto simp: pages_in_use_iff)
    ultimately show "returns (free_page p t) (\<lambda>_ u. pages_in_use u = pages_in_use s \<and> map_ok u)"
      by simp }
next
  fix s t :: "'a mm_state_scheme"
  assume "map_ok s" and "get_free_page s = (0, t)"
  then show "t = s" by (cases s rule: get_free_page_cases) (auto simp: page_of_props)
qed


subsection \<open>The page walk\<close>

text \<open>
  What the processor reads for a linear address: the directory entry, then the table
  entry; 0 stands for "no table". \<open>pde s i\<close> is the \<open>i\<close>-th directory entry.
\<close>

definition pde :: "'a mm_state_scheme \<Rightarrow> nat \<Rightarrow> u32" where
  "pde s i = phys s (slot 0 i)"

definition pte_at :: "'a mm_state_scheme \<Rightarrow> u32 \<Rightarrow> u32" where
  "pte_at s va =
     (let d = phys s (dir_entry_addr va)
      in if d AND 1 = 0 then 0 else phys s ((d AND 0xFFFFF000) + table_offset va))"

abbreviation present :: "u32 \<Rightarrow> bool" where
  "present e \<equiv> e AND 1 \<noteq> 0"

abbreviation frame :: "u32 \<Rightarrow> u32" where
  "frame e \<equiv> e AND 0xFFFFF000"

definition pd_index :: "u32 \<Rightarrow> nat" where
  "pd_index va = unat va div 0x400000"

definition pt_index :: "u32 \<Rightarrow> nat" where
  "pt_index va = unat va div 4096 mod 1024"

lemma pd_index_less [simp]: "pd_index va < 1024"
proof -
  have "unat va < 2 ^ 32" using unsigned_less [of va] by simp
  then show ?thesis by (simp add: pd_index_def less_mult_imp_div_less)
qed

lemma pt_index_less [simp]: "pt_index va < 1024"
  by (simp add: pt_index_def)

lemma unat_of_nat_slot: "i < 1024 \<Longrightarrow> unat (of_nat (4 * i) :: u32) = 4 * i"
  using unat_slot [of 0 i] by (simp only: slot_def add_0 page_aligned_0 unat_0)

lemma unat_of_nat_less: "n < 2 ^ 32 \<Longrightarrow> unat (of_nat n :: u32) = n"
  by (simp add: unat_of_nat take_bit_nat_eq_self)

lemma pt_index_less_32 [simp]: "pt_index va < 2 ^ 32"
  using pt_index_less [of va] by (rule less_trans) simp

lemma dir_entry_addr_slot [addr_simps]: "dir_entry_addr va = slot 0 (pd_index va)"
proof -
  have "unat va < 2 ^ 32" using unsigned_less [of va] by simp
  then have "unat va div 2 ^ 20 div 4 mod 1024 = pd_index va"
    by (simp add: pd_index_def div_mult2_eq [symmetric] less_mult_imp_div_less)
  then have "unat (dir_entry_addr va) = 4 * pd_index va"
    by (simp add: dir_entry_addr_def unat_and_FFC unat_drop_bit_div)
  then show ?thesis by (simp only: slot_def word_unat_eq_iff add_0 unat_of_nat_slot pd_index_less)
qed

lemma table_offset_slot [addr_simps]: "p + table_offset va = slot p (pt_index va)"
proof -
  have "unat (table_offset va) = 4 * pt_index va"
    by (simp add: table_offset_def unat_and_FFC unat_drop_bit_div pt_index_def
        div_mult2_eq [symmetric])
  then have "table_offset va = of_nat (4 * pt_index va)"
    by (simp only: word_unat_eq_iff unat_of_nat_slot pt_index_less)
  then show ?thesis by (simp only: slot_def)
qed

lemma entry_slot [addr_simps]: "p + 4 * (drop_bit 12 va AND 0x3FF) = slot p (pt_index va)"
proof -
  have "unat (drop_bit 12 va AND 0x3FF) = pt_index va"
    by (simp only: unat_and_3FF unat_drop_bit_div pt_index_def) simp
  moreover have "unat (of_nat (pt_index va) :: u32) = pt_index va"
    by (rule unat_of_nat_less) (rule pt_index_less_32)
  ultimately have "drop_bit 12 va AND 0x3FF = (of_nat (pt_index va) :: u32)"
    by (simp only: word_unat_eq_iff)
  then show ?thesis by (simp only: slot_def of_nat_mult of_nat_numeral)
qed

lemma pte_at_eq:
  "pte_at s va = (if present (pde s (pd_index va))
                  then phys s (slot (frame (pde s (pd_index va))) (pt_index va)) else 0)"
  by (simp only: pte_at_def Let_def pde_def dir_entry_addr_slot table_offset_slot) simp

lemma pte_at_cong: "phys t = phys s \<Longrightarrow> pte_at t va = pte_at s va"
  by (simp add: pte_at_def Let_def)

lemma same_page_iff: "frame va = frame vb \<longleftrightarrow> pd_index va = pd_index vb \<and> pt_index va = pt_index vb"
proof -
  have "frame va = frame vb \<longleftrightarrow> unat va div 4096 = unat vb div 4096"
    by (simp add: word_unat_eq_iff unat_and_page)
  also have "\<dots> \<longleftrightarrow> pd_index va = pd_index vb \<and> pt_index va = pt_index vb"
  proof -
    have "unat v div 4096 = 1024 * pd_index v + pt_index v" for v :: u32
    proof -
      have "pd_index v = unat v div 4096 div 1024"
        by (simp add: pd_index_def div_mult2_eq [symmetric])
      then show ?thesis by (simp add: pt_index_def)
    qed
    moreover have "1024 * a + b = 1024 * c + d \<longleftrightarrow> a = c \<and> b = d"
      if "b < 1024" "d < 1024" for a b c d :: nat
    proof
      assume e: "1024 * a + b = 1024 * c + d"
      then have "(1024 * a + b) div 1024 = (1024 * c + d) div 1024" by simp
      with that have "a = c" by simp
      with e show "a = c \<and> b = d" by simp
    qed simp
    ultimately show ?thesis by simp
  qed
  finally show ?thesis .
qed

lemma page_aligned_frame: "page_aligned p \<Longrightarrow> frame p = p"
  by (simp add: word_unat_eq_iff unat_and_page page_aligned_def) (metis add_0_right mult_div_mod_eq)

lemma frame_or_7: "page_aligned p \<Longrightarrow> frame (p OR 7) = p"
proof -
  assume "page_aligned p"
  then have "frame p = p" by (rule page_aligned_frame)
  moreover have "(7 :: u32) AND 0xFFFFF000 = 0" by simp
  ultimately show ?thesis by (simp only: bit.conj_disj_distrib2 or.right_neutral)
qed

lemma present_or_7: "present (p OR 7)"
proof -
  have "(7 :: u32) AND 1 = 1" by simp
  then have "bit ((p OR 7) AND 1) 0" by (simp add: bit_simps)
  then show ?thesis by auto
qed


subsection \<open>Well-formed page tables\<close>

text \<open>
  The present directory entries point to page tables that are not the directory page
  itself, are not free pages, and are pairwise different.
\<close>

definition pt_wf :: "'a mm_state_scheme \<Rightarrow> bool" where
  "pt_wf s \<longleftrightarrow>
     (\<forall>i<1024. present (pde s i) \<longrightarrow> frame (pde s i) \<noteq> 0 \<and>
        (LOW_MEM \<le> frame (pde s i) \<longrightarrow> mem_map s (MAP_NR (frame (pde s i))) \<noteq> 0)) \<and>
     (\<forall>i<1024. \<forall>j<1024. present (pde s i) \<longrightarrow> present (pde s j) \<longrightarrow>
        frame (pde s i) = frame (pde s j) \<longrightarrow> i = j)"

lemma pt_wf_frame:
  assumes "pt_wf s" "i < 1024" "present (pde s i)"
  shows "frame (pde s i) \<noteq> 0"
    and "LOW_MEM \<le> frame (pde s i) \<Longrightarrow> mem_map s (MAP_NR (frame (pde s i))) \<noteq> 0"
  using assms by (auto simp: pt_wf_def)

lemma pt_wf_inj:
  "pt_wf s \<Longrightarrow> i < 1024 \<Longrightarrow> j < 1024 \<Longrightarrow> present (pde s i) \<Longrightarrow> present (pde s j) \<Longrightarrow>
     frame (pde s i) = frame (pde s j) \<Longrightarrow> i = j"
  by (auto simp: pt_wf_def)

lemma pt_wf_not_free:
  assumes "pt_wf s" "i < 1024" "present (pde s i)" "k < PAGING_PAGES" "mem_map s k = 0"
  shows "frame (pde s i) \<noteq> page_of k"
proof
  assume e: "frame (pde s i) = page_of k"
  have "mem_map s (MAP_NR (frame (pde s i))) \<noteq> 0"
    using pt_wf_frame(2) [OF assms(1-3)] page_of_props(2) [OF assms(4)] by (simp only: e simp_thms)
  then show False using assms(5) page_of_props(4) [OF assms(4)] by (simp only: e simp_thms)
qed

lemma pt_wf_cong:
  assumes "\<And>i. i < 1024 \<Longrightarrow> pde t i = pde s i" "\<And>k. mem_map s k \<noteq> 0 \<Longrightarrow> mem_map t k \<noteq> 0" "pt_wf s"
  shows "pt_wf t"
  using assms by (auto simp: pt_wf_def)

text \<open>Taking a free page changes neither a page walk nor well-formedness.\<close>

lemma get_free_page_pde:
  assumes "get_free_page s = (p, t)" "i < 1024"
  shows "pde t i = pde s i"
proof (cases s rule: get_free_page_cases)
  case none
  with assms show ?thesis by simp
next
  case (some k)
  have "\<not> in_page (page_of k) (slot 0 i)"
    using in_page_slot [of "page_of k" 0 i] page_of_props [OF some(1)] assms(2) by simp
  with assms some show ?thesis by (auto simp: pde_def)
qed

lemma get_free_page_pte_at:
  assumes "pt_wf s" "get_free_page s = (p, t)"
  shows "pte_at t va = pte_at s va"
proof (cases s rule: get_free_page_cases)
  case none
  with assms show ?thesis by simp
next
  case (some k)
  have e: "pde t (pd_index va) = pde s (pd_index va)" using get_free_page_pde [OF assms(2)] by simp
  show ?thesis
  proof (cases "present (pde s (pd_index va))")
    case True
    have "frame (pde s (pd_index va)) \<noteq> page_of k"
      using pt_wf_not_free [OF assms(1) pd_index_less True some(1,2)] .
    then have "\<not> in_page (page_of k) (slot (frame (pde s (pd_index va))) (pt_index va))"
      using page_of_props(1) [OF some(1)] by (subst in_page_slot) auto
    then show ?thesis using assms(2) some(4) e by (auto simp: pte_at_eq)
  next
    case False
    then show ?thesis using e by (simp add: pte_at_eq)
  qed
qed

lemma get_free_page_pt_wf:
  assumes "pt_wf s" "get_free_page s = (p, t)"
  shows "pt_wf t"
proof (rule pt_wf_cong [OF _ _ assms(1)])
  show "pde t i = pde s i" if "i < 1024" for i using get_free_page_pde [OF assms(2) that] .
  show "mem_map t k \<noteq> 0" if "mem_map s k \<noteq> 0" for k
    using assms(2) that by (cases s rule: get_free_page_cases) (auto split: if_splits)
qed

text \<open>Writing a table entry changes the walk of exactly the addresses it serves.\<close>

lemma poke_table_entry:
  assumes "pt_wf s" "present (pde s i)" "i < 1024" "j < 1024"
  shows "pte_at (poke (slot (frame (pde s i)) j) v s) va =
           (if pd_index va = i \<and> pt_index va = j then v else pte_at s va)"
    and "pt_wf (poke (slot (frame (pde s i)) j) v s)"
proof -
  let ?t = "poke (slot (frame (pde s i)) j) v s"
  have nz: "frame (pde s i) \<noteq> 0" using pt_wf_frame(1) [OF assms(1,3,2)] .
  have d: "pde ?t m = pde s m" if "m < 1024" for m
    using slot_eq_iff [of 0 "frame (pde s i)" m j] nz that assms(4) by (simp add: pde_def)
  show "pt_wf ?t" by (rule pt_wf_cong [OF _ _ assms(1)]) (simp_all add: d)
  show "pte_at ?t va = (if pd_index va = i \<and> pt_index va = j then v else pte_at s va)"
  proof (cases "present (pde s (pd_index va))")
    case True
    have "slot (frame (pde s (pd_index va))) (pt_index va) = slot (frame (pde s i)) j \<longleftrightarrow>
            pd_index va = i \<and> pt_index va = j"
      using slot_eq_iff [of "frame (pde s (pd_index va))" "frame (pde s i)" "pt_index va" j]
        pt_wf_inj [OF assms(1) pd_index_less assms(3) True assms(2)] assms(4) by auto
    then show ?thesis using True by (simp add: pte_at_eq d)
  next
    case False
    then show ?thesis using assms(2) by (auto simp: pte_at_eq d)
  qed
qed


text \<open>A fresh page table: every walk still sees what it saw before.\<close>

lemma install_table:
  assumes "pt_wf s" "\<not> present (pde s i)" "i < 1024" "get_free_page s = (p, t)" "p \<noteq> 0"
  defines "u \<equiv> poke (slot 0 i) (p OR 7) t"
  shows "\<And>m. m < 1024 \<Longrightarrow> pde u m = (if m = i then p OR 7 else pde s m)"
    and "page_aligned p" and "pt_wf u" and "pte_at u va = pte_at s va"
proof -
  obtain k where k: "k < PAGING_PAGES" "mem_map s k = 0" "p = page_of k"
      "t = zero_page p (set_map k 1 s)"
    using assms(4,5) by (cases s rule: get_free_page_cases) auto
  note pk = page_of_props [OF k(1)]
  show al: "page_aligned p" using k pk by simp
  show d: "pde u m = (if m = i then p OR 7 else pde s m)" if "m < 1024" for m
    using that assms(3) get_free_page_pde [OF assms(4) that] slot_eq_iff [of 0 0 m i]
    by (simp add: u_def pde_def)
  have fr: "frame (pde s m) \<noteq> p" if "m < 1024" "present (pde s m)" for m
    using pt_wf_not_free [OF assms(1) that k(1,2)] k(3) by simp
  have wft: "pt_wf t" using get_free_page_pt_wf [OF assms(1,4)] .
  have mt: "mem_map u = (mem_map s)(k := 1)" using k by (simp add: u_def)
  show "pt_wf u" unfolding pt_wf_def
  proof (intro conjI allI impI)
    fix m assume m: "m < 1024" "present (pde u m)"
    show "frame (pde u m) \<noteq> 0"
      using m d [OF m(1)] frame_or_7 [OF al] assms(5) pt_wf_frame(1) [OF assms(1) m(1)]
      by (auto split: if_splits)
    assume "LOW_MEM \<le> frame (pde u m)"
    then show "mem_map u (MAP_NR (frame (pde u m))) \<noteq> 0"
      using m d [OF m(1)] frame_or_7 [OF al] pk k pt_wf_frame(2) [OF assms(1) m(1)]
      by (auto simp: mt split: if_splits)
  next
    fix m l assume "m < 1024" "l < 1024" "present (pde u m)" "present (pde u l)"
      "frame (pde u m) = frame (pde u l)"
    then show "m = l"
      using d [of m] d [of l] fr [of m] fr [of l] frame_or_7 [OF al] pt_wf_inj [OF assms(1)]
      by (auto split: if_splits)
  qed
  show "pte_at u va = pte_at s va"
  proof (cases "pd_index va = i")
    case True
    have "phys u (slot p (pt_index va)) = 0"
      using k al in_page_slot [OF al al pt_index_less] slot_eq_iff [OF al page_aligned_0 pt_index_less assms(3)]
        assms(5) by (simp add: u_def)
    then show ?thesis
      using True d [OF assms(3)] frame_or_7 [OF al] present_or_7 [of p] assms(2)
      by (simp add: pte_at_eq)
  next
    case False
    have "pte_at u va = pte_at t va"
    proof (cases "present (pde s (pd_index va))")
      case True
      have "frame (pde s (pd_index va)) \<noteq> 0" using pt_wf_frame(1) [OF assms(1) _ True] by simp
      then show ?thesis
        using False True d [OF pd_index_less [of va]] get_free_page_pde [OF assms(4) pd_index_less [of va]]
          slot_eq_iff [of "frame (pde s (pd_index va))" 0 "pt_index va" i] assms(3)
        by (simp add: pte_at_eq) (simp add: u_def)
    next
      case nF: False
      then show ?thesis
        using False d [OF pd_index_less [of va]] get_free_page_pde [OF assms(4) pd_index_less [of va]]
        by (simp add: pte_at_eq)
    qed
    then show ?thesis using get_free_page_pte_at [OF assms(1,4)] by simp
  qed
qed


lemma pt_wf_printk [simp]: "pt_wf (printk f s) = pt_wf s" "pde (printk f s) = pde s"
    "pte_at (printk f s) va = pte_at s va"
  by (simp_all add: pt_wf_def pde_def pte_at_def Let_def fun_eq_iff)

lemma put_page_checks_simps [simp]:
  "phys (put_page_checks page s) = phys s" "mem_map (put_page_checks page s) = mem_map s"
  "HIGH_MEMORY (put_page_checks page s) = HIGH_MEMORY s"
  "pt_wf (put_page_checks page s) = pt_wf s" "pde (put_page_checks page s) = pde s"
  "pte_at (put_page_checks page s) va = pte_at s va"
  by (simp_all add: put_page_checks_def Let_def)

lemma put_page_eq:
  "put_page page address s =
     (let u = put_page_checks page s; d = pde s (pd_index address)
      in if present d then (page, poke (slot (frame d) (pt_index address)) (page OR 7) u)
         else case get_free_page u of (tmp, t) \<Rightarrow>
           if tmp = 0 then (0, t)
           else (page, poke (slot tmp (pt_index address)) (page OR 7)
                         (poke (slot 0 (pd_index address)) (tmp OR 7) t)))"
  by (simp only: put_page_def Let_def entry_slot dir_entry_addr_slot pde_def and.commute
      put_page_checks_simps)

text \<open>
  C4: When \<^verbatim>\<open>put_page\<close> returns a page, the page walk of the given linear address yields
  that page, present, writable and user accessible; the walks of all other pages are
  what they were, and the page tables stay well formed. It returns 0 for a page other
  than 0 only when the address has no page table and no page is free, and then changes
  neither memory nor the page map.
\<close>

theorem put_page_walk:
  assumes "pt_wf s" and "put_page page address s = (r, t)" and "page \<noteq> 0"
  shows "if r = 0
         then \<not> present (pde s (pd_index address)) \<and> (\<forall>k<PAGING_PAGES. mem_map s k \<noteq> 0) \<and>
              phys t = phys s \<and> mem_map t = mem_map s
         else r = page \<and> pt_wf t \<and>
              (\<forall>va. pte_at t va = (if frame va = frame address then page OR 7 else pte_at s va))"
proof -
  let ?u = "put_page_checks page s"
  have wf: "pt_wf ?u" using assms(1) by simp
  show ?thesis
  proof (cases "present (pde ?u (pd_index address))")
    case True
    then show ?thesis
      using assms(2,3) poke_table_entry [OF wf True pd_index_less pt_index_less, of address]
      by (auto simp: put_page_eq Let_def same_page_iff)
  next
    case False
    obtain tmp t1 where al: "get_free_page ?u = (tmp, t1)" by fastforce
    show ?thesis
    proof (cases "tmp = 0")
      case True
      then have "t1 = ?u" "\<forall>k<PAGING_PAGES. mem_map s k \<noteq> 0"
        using get_free_page_fails [of ?u t1] al by simp_all
      then show ?thesis using True assms(2) False al by (auto simp: put_page_eq)
    next
      case nz: False
      let ?v = "poke (slot 0 (pd_index address)) (tmp OR 7) t1"
      note inst = install_table [OF wf False pd_index_less al nz]
      have f: "frame (pde ?v (pd_index address)) = tmp" "present (pde ?v (pd_index address))"
        using inst(1) [OF pd_index_less] frame_or_7 [OF inst(2)] present_or_7 by simp_all
      have "r = page" "t = poke (slot tmp (pt_index address)) (page OR 7) ?v"
        using assms(2) False al nz by (auto simp: put_page_eq)
      then show ?thesis
        using assms(3) poke_table_entry [OF inst(3) f(2) pd_index_less pt_index_less, of address]
        by (auto simp: f(1) inst(4) same_page_iff)
    qed
  qed
qed


text \<open>A concrete state: 16 MB of memory, all pages free, no page tables.\<close>

definition empty_mm :: mm_state where
  "empty_mm = \<lparr>mem_map = (\<lambda>_. 0), HIGH_MEMORY = 0x1000000, phys = (\<lambda>_. 0), klog = []\<rparr>"

lemma empty_mm_simps [simp]:
  "mem_map empty_mm k = 0" "HIGH_MEMORY empty_mm = 0x1000000" "phys empty_mm a = 0"
  "pde empty_mm i = 0" "pt_wf empty_mm" "pte_at empty_mm va = 0"
  by (simp_all add: empty_mm_def pde_def pt_wf_def pte_at_def)

theorem put_page_walk_witness:
  "pt_wf empty_mm \<and>
   (\<exists>t. put_page 0x200000 0x4000000 empty_mm = (0x200000, t) \<and> pt_wf t \<and>
        pte_at t 0x4000123 = 0x200007 \<and> pte_at t 0x4001000 = 0)"
proof -
  obtain r t where e: "put_page 0x200000 0x4000000 empty_mm = (r, t)" by fastforce
  have "0 < PAGING_PAGES" by (simp add: PAGING_PAGES_eq)
  then show ?thesis using put_page_walk [OF _ e] e by (auto split: if_splits)
qed


subsection \<open>Copy on write\<close>

lemma frame_or_2: "frame (e OR 2) = frame e"
proof -
  have "(2 :: u32) AND 0xFFFFF000 = 0" by simp
  then show ?thesis by (simp only: bit.conj_disj_distrib2 or.right_neutral)
qed

lemma write_bit: "(e OR 2) AND 2 = (2 :: u32)" "(e OR 7) AND 2 = (2 :: u32)"
proof -
  have "(7 :: u32) AND 2 = 2" by simp
  then show "(e OR 2) AND 2 = (2 :: u32)" "(e OR 7) AND 2 = (2 :: u32)"
    by (simp_all only: bit.conj_disj_distrib2 and.idem) (rule bit_word_eqI, auto simp: bit_simps)+
qed

lemma slot_diff: "p + (slot q i - q) = slot p i"
  by (simp add: slot_def)

lemma do_wp_page_eq:
  "do_wp_page code va s = un_wp_page (slot (frame (pde s (pd_index va))) (pt_index va)) s"
proof -
  have "table_offset va + q = slot q (pt_index va)" for q
    using table_offset_slot [of q va] by (simp only: add.commute)
  then show ?thesis by (simp only: do_wp_page_def dir_entry_addr_slot pde_def and.commute)
qed

text \<open>
  The page behind entry \<open>j\<close> of table \<open>i\<close>: it is not its own page table, and it is not
  a free page.
\<close>

definition mapped_ok :: "'a mm_state_scheme \<Rightarrow> nat \<Rightarrow> nat \<Rightarrow> bool" where
  "mapped_ok s i j \<longleftrightarrow>
     (let tab = frame (pde s i); old = frame (phys s (slot tab j))
      in old \<noteq> tab \<and> (LOW_MEM \<le> old \<longrightarrow> mem_map s (MAP_NR old) \<noteq> 0))"

lemma un_wp_page_sole:
  assumes "e = phys s te" "LOW_MEM \<le> frame e" "mem_map s (MAP_NR (frame e)) = 1"
  shows "un_wp_page te s = Done () (poke te (e OR 2) s)"
  using assms by (simp add: un_wp_page_def Let_def and.commute)

lemma un_wp_page_shared:
  assumes "e = phys s te" "\<not> (LOW_MEM \<le> frame e \<and> mem_map s (MAP_NR (frame e)) = 1)"
    "get_free_page s = (new, s1)"
  shows "un_wp_page te s =
           (if new = 0 then oom s1
            else let s2 = (if LOW_MEM \<le> frame e
                           then set_map (MAP_NR (frame e)) (mem_map s1 (MAP_NR (frame e)) - 1) s1
                           else s1)
                 in Done () (copy_page (frame e) new (poke te (new OR 7) s2)))"
  using assms by (simp add: un_wp_page_def Let_def and.commute)


text \<open>Memory changes inside a page that is no page table leave all walks alone.\<close>

lemma walk_outside_page:
  assumes "page_aligned p" "p \<noteq> 0" "\<And>a. \<not> in_page p a \<Longrightarrow> phys t a = phys s a"
    "\<And>m. m < 1024 \<Longrightarrow> present (pde s m) \<Longrightarrow> frame (pde s m) \<noteq> p"
  shows "\<And>m. m < 1024 \<Longrightarrow> pde t m = pde s m" and "pte_at t va = pte_at s va"
proof -
  show d: "pde t m = pde s m" if "m < 1024" for m
    using assms(1,2) that by (simp add: pde_def assms(3))
  show "pte_at t va = pte_at s va"
    using assms(1) d [OF pd_index_less [of va]] assms(4) [OF pd_index_less [of va]]
    by (auto simp: pte_at_eq intro!: assms(3))
qed

lemma un_wp_page_copies:
  assumes wf: "pt_wf s" and pr: "present (pde s i)" and ij: "i < 1024" "j < 1024"
    and ok: "mapped_ok s i j" and al: "get_free_page s = (new, s1)" "new \<noteq> 0"
    and te: "te = slot (frame (pde s i)) j" and e: "e = phys s te"
    and sh: "\<not> (LOW_MEM \<le> frame e \<and> mem_map s (MAP_NR (frame e)) = 1)"
  obtains t where "un_wp_page te s = Done () t"
    "mem_map t = (if LOW_MEM \<le> frame e
       then (mem_map s)(MAP_NR new := 1, MAP_NR (frame e) := mem_map s (MAP_NR (frame e)) - 1)
       else (mem_map s)(MAP_NR new := 1))"
    "mem_map s (MAP_NR new) = 0" "page_aligned new" "new \<noteq> frame e"
    "\<forall>n<1024. phys t (slot new n) = phys s (slot (frame e) n)"
    "\<forall>n<1024. phys t (slot (frame e) n) = phys s (slot (frame e) n)"
    "pt_wf t" "\<forall>va. pte_at t va = (if pd_index va = i \<and> pt_index va = j then new OR 7 else pte_at s va)"
proof -
  obtain k where k: "k < PAGING_PAGES" "mem_map s k = 0" "new = page_of k"
      "s1 = zero_page new (set_map k 1 s)"
    using al by (rule get_free_page_succeeds)
  note pk = page_of_props [OF k(1)]
  have aln: "page_aligned new" and mn: "MAP_NR new = k" using k(3) pk by simp_all
  have tab: "frame (pde s i) \<noteq> new" using pt_wf_not_free [OF wf ij(1) pr k(1,2)] k(3) by simp
  have old: "frame e \<noteq> frame (pde s i)" "LOW_MEM \<le> frame e \<Longrightarrow> mem_map s (MAP_NR (frame e)) \<noteq> 0"
    using ok te e by (simp_all add: mapped_ok_def Let_def)
  have old_new: "frame e \<noteq> new" using old(2) k pk by auto
  have old_k: "LOW_MEM \<le> frame e \<Longrightarrow> MAP_NR (frame e) \<noteq> k" using old(2) k(2) by auto
  define s2 where "s2 = (if LOW_MEM \<le> frame e
      then set_map (MAP_NR (frame e)) (mem_map s1 (MAP_NR (frame e)) - 1) s1 else s1)"
  define s3 where "s3 = poke te (new OR 7) s2"
  define t where "t = copy_page (frame e) new s3"
  have run: "un_wp_page te s = Done () t"
    using un_wp_page_shared [OF e sh al(1)] al(2) by (simp add: t_def s3_def s2_def Let_def)
  have ph: "phys s2 = phys s1" by (simp add: s2_def)
  have p3: "phys s3 (slot (frame e) n) = phys s (slot (frame e) n)" if "n < 1024" for n
    using that old_new old(1) aln ij by (auto simp: s3_def ph k(4) te)
  have m2: "mem_map s2 = (if LOW_MEM \<le> frame e
       then (mem_map s)(MAP_NR new := 1, MAP_NR (frame e) := mem_map s (MAP_NR (frame e)) - 1)
       else (mem_map s)(MAP_NR new := 1))"
    using old_k mn by (simp add: s2_def k(4))
  have nz: "mem_map s2 m \<noteq> 0" if "mem_map s m \<noteq> 0" for m
    using that sh k(2) by (auto simp: m2 mn)
  have wf1: "pt_wf s1" using get_free_page_pt_wf [OF wf al(1)] .
  have d12: "pde s2 m = pde s m" if "m < 1024" for m
    using get_free_page_pde [OF al(1) that] by (simp add: pde_def ph)
  have wf2: "pt_wf s2" by (rule pt_wf_cong [OF d12 nz wf])
  have w2: "pte_at s2 va = pte_at s va" for va
    using get_free_page_pte_at [OF wf al(1), of va] pte_at_cong [OF ph, of va] by simp
  have pr2: "present (pde s2 i)" "frame (pde s2 i) = frame (pde s i)" using pr d12 ij by simp_all
  note w3 = poke_table_entry [OF wf2 pr2(1) ij, of "new OR 7"]
  have s3: "s3 = poke (slot (frame (pde s2 i)) j) (new OR 7) s2" by (simp add: s3_def te pr2(2))
  have d3: "pde s3 m = pde s m" if "m < 1024" for m
    using slot_eq_iff [of 0 "frame (pde s2 i)" m j] pt_wf_frame(1) [OF wf2 ij(1) pr2(1)] that ij d12 [OF that]
    by (simp add: s3 pde_def)
  have nt: "frame (pde s3 m) \<noteq> new" if "m < 1024" "present (pde s3 m)" for m
    using pt_wf_not_free [OF wf that(1) _ k(1,2)] that d3 k(3) by simp
  note out = walk_outside_page [OF aln al(2), of t s3, OF _ nt]
  have dt: "pde t m = pde s3 m" if "m < 1024" for m using out(1) [OF _ _ _ that] by (simp add: t_def)
  have wt: "pte_at t va = pte_at s3 va" for va using out(2) by (simp add: t_def)
  have wft: "pt_wf t" using pt_wf_cong [OF dt _ w3(2) [folded s3]] by (simp add: t_def)
  show thesis
  proof (rule that [OF run])
    show "mem_map t = (if LOW_MEM \<le> frame e
       then (mem_map s)(MAP_NR new := 1, MAP_NR (frame e) := mem_map s (MAP_NR (frame e)) - 1)
       else (mem_map s)(MAP_NR new := 1))" by (simp add: t_def s3_def m2)
    show "\<forall>n<1024. phys t (slot new n) = phys s (slot (frame e) n)"
      using aln p3 by (simp add: t_def slot_diff)
    show "\<forall>n<1024. phys t (slot (frame e) n) = phys s (slot (frame e) n)"
      using aln old_new p3 by (simp add: t_def)
    show "\<forall>va. pte_at t va = (if pd_index va = i \<and> pt_index va = j then new OR 7 else pte_at s va)"
      using w3(1) by (simp add: wt s3 w2)
  qed (use k mn aln old_new wft in auto)
qed


text \<open>
  C5: A write to a write-protected page. When \<^verbatim>\<open>do_wp_page\<close> returns, the entry is
  writable, the page behind it has the contents the page had before, and no other
  page of any address space is mapped differently. Either the page had a single user
  and only its protection changed, or a free page was taken, the old page kept its
  contents and, above 1 MB, lost exactly one user. The only other outcome is the exit
  of the task when memory is exhausted.
\<close>

theorem do_wp_page_cow:
  assumes "pt_wf s" and "present (pde s (pd_index va))"
    and "mapped_ok s (pd_index va) (pt_index va)"
  shows "case do_wp_page code va s of
      Stop r t \<Rightarrow> r = Do_Exit SIGSEGV \<and> (\<forall>k<PAGING_PAGES. mem_map s k \<noteq> 0)
    | Done _ t \<Rightarrow>
        (let old = frame (pte_at s va); new = frame (pte_at t va)
         in pte_at t va AND 2 = 2 \<and> pt_wf t \<and>
            (\<forall>n<1024. phys t (slot new n) = phys s (slot old n)) \<and>
            (\<forall>vb. frame vb \<noteq> frame va \<longrightarrow> pte_at t vb = pte_at s vb) \<and>
            (if new = old then mem_map s (MAP_NR old) = 1 \<and> mem_map t = mem_map s
             else mem_map s (MAP_NR new) = 0 \<and>
                  (\<forall>n<1024. phys t (slot old n) = phys s (slot old n)) \<and>
                  mem_map t = (if LOW_MEM \<le> old
                     then (mem_map s)(MAP_NR new := 1, MAP_NR old := mem_map s (MAP_NR old) - 1)
                     else (mem_map s)(MAP_NR new := 1))))"
proof -
  let ?i = "pd_index va" and ?j = "pt_index va"
  define te where "te = slot (frame (pde s ?i)) ?j"
  define e where "e = phys s te"
  have e_at: "pte_at s va = e" using assms(2) by (simp add: pte_at_eq e_def te_def)
  have run: "do_wp_page code va s = un_wp_page te s" by (simp add: do_wp_page_eq te_def)
  have sp: "pd_index vb = ?i \<and> pt_index vb = ?j \<longleftrightarrow> frame vb = frame va" for vb
    by (simp add: same_page_iff)
  show ?thesis
  proof (cases "LOW_MEM \<le> frame e \<and> mem_map s (MAP_NR (frame e)) = 1")
    case True
    note w = poke_table_entry [OF assms(1,2) pd_index_less pt_index_less [of va], folded te_def]
    have ne: "slot (frame e) n \<noteq> te" if "n < 1024" for n
      using assms(3) that by (simp add: mapped_ok_def Let_def e_def te_def)
    have "un_wp_page te s = Done () (poke te (e OR 2) s)"
      using True by (intro un_wp_page_sole) (simp_all add: e_def)
    then show ?thesis
      using True by (simp add: run e_at w Let_def frame_or_2 write_bit ne sp)
  next
    case False
    obtain new s1 where al: "get_free_page s = (new, s1)" by fastforce
    show ?thesis
    proof (cases "new = 0")
      case True
      then show ?thesis
        using un_wp_page_shared [OF e_def False al] al get_free_page_0_iff [of s]
        by (simp add: run oom_def)
    next
      case nz: False
      obtain t where t: "un_wp_page te s = Done () t"
        "mem_map t = (if LOW_MEM \<le> frame e
           then (mem_map s)(MAP_NR new := 1, MAP_NR (frame e) := mem_map s (MAP_NR (frame e)) - 1)
           else (mem_map s)(MAP_NR new := 1))"
        "mem_map s (MAP_NR new) = 0" "page_aligned new" "new \<noteq> frame e"
        "\<forall>n<1024. phys t (slot new n) = phys s (slot (frame e) n)"
        "\<forall>n<1024. phys t (slot (frame e) n) = phys s (slot (frame e) n)"
        "pt_wf t" "\<forall>vb. pte_at t vb = (if pd_index vb = ?i \<and> pt_index vb = ?j then new OR 7 else pte_at s vb)"
        by (rule un_wp_page_copies [OF assms(1,2) pd_index_less pt_index_less assms(3) al nz te_def e_def False])
      show ?thesis
        using t(2-8) by (simp add: run t(1) t(9) [rule_format] e_at Let_def frame_or_7 write_bit sp)
    qed
  qed
qed


text \<open>
  A concrete state with one page table (page 0 of main memory, directory entry 16) that
  maps, read-only, page 1, which has two users; all other pages are free.
\<close>

definition cow_mm :: mm_state where
  "cow_mm = \<lparr>mem_map = (\<lambda>_. 0)(0 := 1, 1 := 2), HIGH_MEMORY = 0x1000000,
     phys = (\<lambda>_. 0)(64 := 0x100007, 0x100000 := 0x101005, 0x101000 := 42), klog = []\<rparr>"

lemma slot_consts: "slot 0 16 = 64" "slot 0x100000 0 = 0x100000" "slot 0x101000 0 = 0x101000"
  by (simp_all add: slot_def)

lemma index_consts: "pd_index 0x4000000 = 16" "pt_index 0x4000000 = 0" "MAP_NR 0x100000 = 0" "MAP_NR 0x101000 = 1"
  by (simp_all add: pd_index_def pt_index_def MAP_NR_def LOW_MEM_def)

lemma pde_cow_mm: "i < 1024 \<Longrightarrow> pde cow_mm i = (if i = 16 then 0x100007 else 0)"
proof -
  assume i: "i < 1024"
  have al: "page_aligned 0x100000" "page_aligned 0x101000" by (simp_all add: page_aligned_def)
  have "slot 0 i = 64 \<longleftrightarrow> i = 16"
    using slot_eq_iff [of 0 0 i 16] i by (simp add: slot_consts)
  moreover have "slot 0 i \<noteq> 0x100000" "slot 0 i \<noteq> 0x101000"
    using slot_eq_iff [of 0 "0x100000" i 0] slot_eq_iff [of 0 "0x101000" i 0] i al by simp_all
  ultimately show ?thesis by (simp add: pde_def cow_mm_def)
qed

lemma mem_map_cow_mm: "mem_map cow_mm = (\<lambda>_. 0)(0 := 1, 1 := 2)"
  by (simp add: cow_mm_def)

lemma cow_mm_hyps:
  "pt_wf cow_mm" "present (pde cow_mm (pd_index 0x4000000))"
  "mapped_ok cow_mm (pd_index 0x4000000) (pt_index 0x4000000)" "pte_at cow_mm 0x4000000 = 0x101005"
proof -
  show "pt_wf cow_mm"
    by (auto simp: pt_wf_def pde_cow_mm index_consts mem_map_cow_mm split: if_splits)
  show "present (pde cow_mm (pd_index 0x4000000))" by (simp add: index_consts pde_cow_mm)
  show "mapped_ok cow_mm (pd_index 0x4000000) (pt_index 0x4000000)"
    by (simp add: mapped_ok_def index_consts pde_cow_mm slot_consts) (simp add: cow_mm_def index_consts)
  show "pte_at cow_mm 0x4000000 = 0x101005"
    by (simp add: pte_at_eq index_consts pde_cow_mm slot_consts) (simp add: cow_mm_def)
qed

theorem do_wp_page_cow_witness:
  "\<exists>t. do_wp_page 0 0x4000000 cow_mm = Done () t \<and> pte_at t 0x4000000 AND 2 = 2 \<and>
       phys t (slot (frame (pte_at t 0x4000000)) 0) = 42 \<and> mem_map t 1 = 1"
proof -
  have m: "mem_map cow_mm 1 = 2" "mem_map cow_mm 2 = 0" "phys cow_mm 0x101000 = 42"
    by (simp_all add: cow_mm_def)
  have free: "2 < PAGING_PAGES" by (simp add: PAGING_PAGES_eq)
  show ?thesis
  proof (cases "do_wp_page 0 0x4000000 cow_mm")
    case (Done u t)
    then show ?thesis
      using do_wp_page_cow [OF cow_mm_hyps(1-3), of 0] m
      by (auto simp: cow_mm_hyps(4) index_consts Let_def LOW_MEM_def dest: spec [of _ "0 :: nat"]
          split: if_splits)
  next
    case (Stop r t)
    then show ?thesis using do_wp_page_cow [OF cow_mm_hyps(1-3), of 0] free m by auto
  qed
qed


subsection \<open>Properties of the allocator\<close>

text \<open>
  C2: \<^verbatim>\<open>get_free_page\<close> returns the highest free page, marked as used once and filled with
  zeros, and changes nothing else; it returns 0, and changes nothing at all, exactly
  when no page is free.
\<close>

theorem get_free_page_spec:
  "case get_free_page s of (page, t) \<Rightarrow>
     if \<exists>k<PAGING_PAGES. mem_map s k = 0
     then let k = MAP_NR page
          in LOW_MEM \<le> page \<and> page_aligned page \<and> k < PAGING_PAGES \<and> mem_map s k = 0 \<and>
             (\<forall>j. k < j \<and> j < PAGING_PAGES \<longrightarrow> mem_map s j \<noteq> 0) \<and>
             mem_map t = (mem_map s)(k := 1) \<and> HIGH_MEMORY t = HIGH_MEMORY s \<and>
             (\<forall>n<1024. phys t (slot page n) = 0) \<and>
             (\<forall>a. \<not> in_page page a \<longrightarrow> phys t a = phys s a)
     else page = 0 \<and> t = s"
proof (cases s rule: get_free_page_cases)
  case none
  then show ?thesis by auto
next
  case (some k)
  then show ?thesis using page_of_props [OF some(1)] by (auto simp: Let_def)
qed

theorem get_free_page_spec_witness:
  "(\<exists>k<PAGING_PAGES. mem_map cow_mm k = 0) \<and> mem_map (snd (get_free_page cow_mm)) 1 = 2 \<and>
   LOW_MEM \<le> fst (get_free_page cow_mm)"
proof -
  have "\<exists>k<PAGING_PAGES. mem_map cow_mm k = 0"
    by (rule exI [of _ 2]) (simp add: PAGING_PAGES_eq mem_map_cow_mm)
  then show ?thesis
    using get_free_page_spec [of cow_mm]
    by (cases "get_free_page cow_mm") (auto simp: Let_def mem_map_cow_mm split: if_splits)
qed

lemma free_page_last_use:
  assumes "k < PAGING_PAGES" "page_of k < HIGH_MEMORY s" "mem_map s k = 1" "map_ok s"
  shows "free_page (page_of k) s = Done () (set_map k 0 s)" "map_ok (set_map k 0 s)"
    "pages_in_use (set_map k 0 s) = pages_in_use s - {page_of k}"
proof -
  show "free_page (page_of k) s = Done () (set_map k 0 s)" using free_page_of [OF assms(1,2)] assms(3) by simp
  show "map_ok (set_map k 0 s)" using assms(2,4) by (simp add: map_ok_def)
  show "pages_in_use (set_map k 0 s) = pages_in_use s - {page_of k}"
    using assms(1) by (subst pages_in_use_set [of k _ s 0]) simp_all
qed

text \<open>
  C3: Two pages that are taken one after the other are different and were both free; freeing
  them, in either order, gives back exactly the set of pages in use before, one page at a time.
\<close>

theorem alloc_twice_release:
  assumes "map_ok s" and "get_free_page s = (p, t)" and "get_free_page t = (q, u)"
    and "p \<noteq> 0" and "q \<noteq> 0"
  shows "p \<noteq> q \<and> p \<notin> pages_in_use s \<and> q \<notin> pages_in_use s \<and> pages_in_use u = pages_in_use s \<union> {p, q} \<and>
    returns (free_page q u) (\<lambda>_ v. pages_in_use v = insert p (pages_in_use s) \<and> map_ok v \<and>
      returns (free_page p v) (\<lambda>_ w. pages_in_use w = pages_in_use s \<and> map_ok w)) \<and>
    returns (free_page p u) (\<lambda>_ v. pages_in_use v = insert q (pages_in_use s) \<and> map_ok v \<and>
      returns (free_page q v) (\<lambda>_ w. pages_in_use w = pages_in_use s \<and> map_ok w))"
proof -
  have p: "p \<notin> pages_in_use s" "pages_in_use t = insert p (pages_in_use s)" "map_ok t"
    using mm.alloc_fresh [OF assms(1,2,4)] by auto
  have q: "q \<notin> pages_in_use t" using mm.alloc_fresh [OF p(3) assms(3,5)] by auto
  have u: "p \<noteq> q" "pages_in_use u = pages_in_use s \<union> {p, q}" "map_ok u" using mm.two_allocs_differ [OF assms] by auto
  obtain k where k: "k < PAGING_PAGES" "mem_map s k = 0" "p = page_of k" "t = zero_page p (set_map k 1 s)"
    by (rule get_free_page_succeeds [OF assms(2,4)])
  obtain l where l: "l < PAGING_PAGES" "mem_map t l = 0" "q = page_of l" "u = zero_page q (set_map l 1 t)"
    by (rule get_free_page_succeeds [OF assms(3,5)])
  have kl: "k \<noteq> l" "mem_map u k = 1" "mem_map u l = 1" "HIGH_MEMORY u = HIGH_MEMORY s" "mem_map s l = 0" using k l u(1) by (auto split: if_splits)
  then have high: "page_of k < HIGH_MEMORY u" "page_of l < HIGH_MEMORY u" using assms(1) k(1,2) l(1) by (simp_all add: map_ok_def)
  note fp = free_page_last_use [OF k(1) high(1) kl(2) u(3)] and fq = free_page_last_use [OF l(1) high(2) kl(3) u(3)]
  have "page_of k < HIGH_MEMORY (set_map l 0 u)" "mem_map (set_map l 0 u) k = 1" "page_of l < HIGH_MEMORY (set_map k 0 u)" "mem_map (set_map k 0 u) l = 1"
    using high kl by simp_all
  note gp = free_page_last_use [OF k(1) this(1,2) fq(2)] and gq = free_page_last_use [OF l(1) this(3,4) fp(2)]
  have "q \<notin> pages_in_use s" using q p(2) by simp
  moreover have "insert p (insert q (pages_in_use s)) - {q} = insert p (pages_in_use s)" "insert p (pages_in_use s) - {p} = pages_in_use s"
    "insert p (insert q (pages_in_use s)) - {p} = insert q (pages_in_use s)" "insert q (pages_in_use s) - {q} = pages_in_use s"
    using p(1) q p(2) u(1) by auto
  ultimately show ?thesis using p(1) u fp(1-3) fq gp gq by (simp add: k(3) l(3) insert_commute)
qed

theorem alloc_twice_release_witness:
  "\<exists>p t q u. get_free_page empty_mm = (p, t) \<and> get_free_page t = (q, u) \<and> p \<noteq> q \<and>
     returns (free_page q u) (\<lambda>_ v. pages_in_use v = {p} \<and> returns (free_page p v) (\<lambda>_ w. pages_in_use w = {}))"
proof -
  obtain p t where p: "get_free_page empty_mm = (p, t)" by fastforce
  obtain q u where q: "get_free_page t = (q, u)" by fastforce
  have pg: "0 < PAGING_PAGES" "1 < PAGING_PAGES" by (simp_all add: PAGING_PAGES_eq)
  have p0: "p \<noteq> 0" using p pg get_free_page_0_iff [of empty_mm] by auto
  obtain k where k: "mem_map t = (mem_map empty_mm)(k := 1)"
    using p p0 by (auto elim: get_free_page_succeeds)
  have "mem_map t 0 = 0 \<or> mem_map t 1 = 0" using k by auto
  then have q0: "q \<noteq> 0" using q pg get_free_page_0_iff [of t] by auto
  have "page_of k < 0x1000000" if "k < PAGING_PAGES" for k
    using unat_page_of [OF that] that by (simp add: word_less_nat_alt PAGING_PAGES_eq)
  then have ok: "map_ok empty_mm" by (simp add: map_ok_def)
  have iu: "pages_in_use empty_mm = {}" by (simp add: pages_in_use_def)
  have "p \<noteq> q" "returns (free_page q u) (\<lambda>_ v. pages_in_use v = {p} \<and> returns (free_page p v) (\<lambda>_ w. pages_in_use w = {}))"
    using alloc_twice_release [OF ok p q p0 q0] by (auto simp: iu elim!: returns_mono)
  with p q show ?thesis by blast
qed

end
