(* ===== verification/Mm_Fork.thy ===== *)
theory Mm_Fork
  imports Mm_Memory
begin

text \<open>
  What \<^verbatim>\<open>fork\<close> needs from the memory manager: the copy of a range of page tables
  (\<^verbatim>\<open>copy_page_tables\<close> of \<^verbatim>\<open>mm/memory.c\<close>) shares every page read-only between the
  two address spaces and counts the new users, and \<^verbatim>\<open>try_to_share\<close> does the same for
  one page of an executable.
\<close>


subsection \<open>One page table\<close>

text \<open>A present entry for a page above 1 MB: its page is counted in \<^verbatim>\<open>mem_map\<close>.\<close>

definition shared :: "u32 \<Rightarrow> bool" where
  "shared e \<longleftrightarrow> present e \<and> LOW_MEM < e AND NOT 2"

definition shared_nr :: "u32 \<Rightarrow> nat" where
  "shared_nr e = MAP_NR (e AND NOT 2)"

lemma copy_table_entry_phys:
  "f \<noteq> t \<Longrightarrow> phys (copy_table_entry f t s) a =
     (if a = t \<and> present (phys s f) then phys s f AND NOT 2
      else if a = f \<and> shared (phys s f) then phys s f AND NOT 2 else phys s a)"
  by (auto simp: copy_table_entry_def shared_def Let_def and.commute)

lemma copy_table_entry_map:
  "mem_map (copy_table_entry f t s) m =
     mem_map s m + (if shared (phys s f) \<and> shared_nr (phys s f) = m then 1 else 0)"
  by (auto simp: copy_table_entry_def shared_def shared_nr_def MAP_NR_def Let_def and.commute)

lemma copy_table_entries_phys:
  assumes "page_aligned fp" "page_aligned tp" "fp \<noteq> tp" "k + n \<le> 1024" "j < 1024"
  shows "phys (copy_table_entries n (slot fp k) (slot tp k) s) (slot tp j) =
           (if k \<le> j \<and> j < k + n \<and> present (phys s (slot fp j))
            then phys s (slot fp j) AND NOT 2 else phys s (slot tp j))" (is ?to)
    and "phys (copy_table_entries n (slot fp k) (slot tp k) s) (slot fp j) =
           (if k \<le> j \<and> j < k + n \<and> shared (phys s (slot fp j))
            then phys s (slot fp j) AND NOT 2 else phys s (slot fp j))" (is ?from)
proof -
  have "?to \<and> ?from" using assms
  proof (induction n arbitrary: k s)
    case 0
    then show ?case by auto
  next
    case (Suc n)
    let ?s = "copy_table_entry (slot fp k) (slot tp k) s"
    have k: "k < 1024" "Suc k + n \<le> 1024" using Suc.prems by simp_all
    have ne: "slot fp k \<noteq> slot tp k" using Suc.prems k by simp
    have run: "copy_table_entries (Suc n) (slot fp k) (slot tp k) s =
            copy_table_entries n (slot fp (Suc k)) (slot tp (Suc k)) ?s"
      by (simp add: slot_Suc)
    have one: "phys ?s (slot tp j) =
        (if j = k \<and> present (phys s (slot fp k)) then phys s (slot fp k) AND NOT 2 else phys s (slot tp j))"
      "phys ?s (slot fp j) =
        (if j = k \<and> shared (phys s (slot fp k)) then phys s (slot fp k) AND NOT 2 else phys s (slot fp j))"
      using Suc.prems k by (auto simp: copy_table_entry_phys [OF ne])
    have split: "k \<le> j \<and> j < k + Suc n \<longleftrightarrow> j = k \<or> (Suc k \<le> j \<and> j < Suc k + n)" by auto
    show ?case
      unfolding run split using Suc.IH [of "Suc k" ?s] Suc.prems k one
      by (cases "j = k") simp_all
  qed
  then show ?to ?from by auto
qed

lemma copy_table_entries_outside:
  assumes "page_aligned fp" "page_aligned tp" "fp \<noteq> tp" "k + n \<le> 1024"
    "\<not> in_page fp a" "\<not> in_page tp a"
  shows "phys (copy_table_entries n (slot fp k) (slot tp k) s) a = phys s a"
  using assms(4)
proof (induction n arbitrary: k s)
  case 0
  then show ?case by simp
next
  case (Suc n)
  have k: "k < 1024" "Suc k + n \<le> 1024" using Suc.prems by simp_all
  have ne: "slot fp k \<noteq> slot tp k" "a \<noteq> slot fp k" "a \<noteq> slot tp k"
    using assms k by auto
  show ?case
    using Suc.IH [OF k(2)] ne by (simp add: slot_Suc [symmetric] copy_table_entry_phys)
qed

text \<open>How often a table maps page number \<open>m\<close>.\<close>

definition table_refs :: "(nat \<Rightarrow> u32) \<Rightarrow> nat \<Rightarrow> nat \<Rightarrow> nat \<Rightarrow> nat" where
  "table_refs es k n m = (\<Sum>j = k..<k + n. if shared (es j) \<and> shared_nr (es j) = m then 1 else 0)"

lemma table_refs_Suc:
  "table_refs es k (Suc n) m =
     (if shared (es k) \<and> shared_nr (es k) = m then 1 else 0) + table_refs es (Suc k) n m"
  by (simp add: table_refs_def sum.atLeast_Suc_lessThan)

lemma copy_table_entries_map:
  assumes "page_aligned fp" "page_aligned tp" "fp \<noteq> tp" "k + n \<le> 1024"
  shows "mem_map (copy_table_entries n (slot fp k) (slot tp k) s) m =
           mem_map s m + of_nat (table_refs (\<lambda>j. phys s (slot fp j)) k n m)"
  using assms(4)
proof (induction n arbitrary: k s)
  case 0
  then show ?case by (simp add: table_refs_def)
next
  case (Suc n)
  let ?s = "copy_table_entry (slot fp k) (slot tp k) s"
  have k: "k < 1024" "Suc k + n \<le> 1024" using Suc.prems by simp_all
  have ne: "slot fp k \<noteq> slot tp k" using assms k by simp
  have "phys ?s (slot fp j) = phys s (slot fp j)" if "j \<in> {Suc k..<Suc k + n}" for j
    using that assms k by (auto simp: copy_table_entry_phys [OF ne])
  then have "table_refs (\<lambda>j. phys ?s (slot fp j)) (Suc k) n m =
             table_refs (\<lambda>j. phys s (slot fp j)) (Suc k) n m"
    unfolding table_refs_def by (intro sum.cong) simp_all
  then show ?case
    using Suc.IH [OF k(2), of ?s]
    by (simp add: slot_Suc [symmetric] table_refs_Suc copy_table_entry_map)
qed


subsection \<open>One directory entry\<close>

text \<open>Entry \<open>j\<close> of the table of directory entry \<open>i\<close>; 0 when there is no table.\<close>

definition pte :: "'a mm_state_scheme \<Rightarrow> nat \<Rightarrow> nat \<Rightarrow> u32" where
  "pte s i j = (if present (pde s i) then phys s (slot (frame (pde s i)) j) else 0)"

definition va_of :: "nat \<Rightarrow> nat \<Rightarrow> u32" where
  "va_of i j = of_nat (0x400000 * i + 4096 * j)"

lemma va_of_index:
  assumes "i < 1024" "j < 1024"
  shows "pd_index (va_of i j) = i" and "pt_index (va_of i j) = j"
proof -
  have "0x400000 * i + 4096 * j < 2 ^ 32" using assms by simp
  then have u: "unat (va_of i j) = 0x400000 * i + 4096 * j"
    unfolding va_of_def by (rule unat_of_nat_less)
  have "0x400000 * i + 4096 * j = 4096 * (1024 * i + j)" by (simp add: algebra_simps)
  then have v: "unat (va_of i j) div 4096 = 1024 * i + j" using u by simp
  then show "pt_index (va_of i j) = j" using assms(2) by (simp add: pt_index_def)
  have "pd_index (va_of i j) = unat (va_of i j) div 4096 div 1024"
    by (simp add: pd_index_def div_mult2_eq [symmetric])
  then show "pd_index (va_of i j) = i" using v assms(2) by simp
qed

lemma pte_eq_pte_at: "i < 1024 \<Longrightarrow> j < 1024 \<Longrightarrow> pte s i j = pte_at s (va_of i j)"
  by (simp add: pte_def pte_at_eq va_of_index)

lemma table_refs_0:
  "(\<And>j. j < n \<Longrightarrow> shared (es j) \<Longrightarrow> shared_nr (es j) \<noteq> m) \<Longrightarrow> table_refs es 0 n m = 0"
  by (auto simp: table_refs_def intro!: sum.neutral)

lemma unat_plus_of_nat:
  assumes "unat (x :: u8) + n < 256"
  shows "unat (x + of_nat n) = unat x + n"
proof -
  have "unat (of_nat n :: u8) = n" using assms by (simp add: unat_of_nat take_bit_nat_eq_self)
  then show ?thesis using assms by (simp only: unat_word_ariths) simp
qed

lemma copy_table:
  assumes wf: "pt_wf s" and f: "present (pde s f)" "f < 1024" and g: "present (pde s g)" "g < 1024"
    and ne: "f \<noteq> g" and zero: "\<forall>j<1024. pte s g j = 0"
    and bound: "\<forall>m. unat (mem_map s m) + table_refs (pte s f) 0 1024 m < 256"
  defines "t \<equiv> copy_table_entries 1024 (frame (pde s f)) (frame (pde s g)) s"
  shows "\<And>i. i < 1024 \<Longrightarrow> pde t i = pde s i"
    and "\<And>m. unat (mem_map t m) = unat (mem_map s m) + table_refs (pte s f) 0 1024 m"
    and "\<And>i j. i < 1024 \<Longrightarrow> j < 1024 \<Longrightarrow> pte t i j =
           (if i = g then (if present (pte s f j) then pte s f j AND NOT 2 else 0)
            else if i = f then (if shared (pte s f j) then pte s f j AND NOT 2 else pte s f j)
            else pte s i j)"
    and "pt_wf t"
proof -
  let ?fp = "frame (pde s f)" and ?tp = "frame (pde s g)"
  have al: "page_aligned ?fp" "page_aligned ?tp" by simp_all
  have d: "?fp \<noteq> ?tp" using pt_wf_inj [OF wf f(2) g(2) f(1) g(1)] ne by blast
  have nz: "?fp \<noteq> 0" "?tp \<noteq> 0" using pt_wf_frame(1) [OF wf] f g by auto
  have t: "t = copy_table_entries 1024 (slot ?fp 0) (slot ?tp 0) s" by (simp add: t_def)
  have ptes: "pte s f = (\<lambda>j. phys s (slot ?fp j))" using f by (simp add: pte_def fun_eq_iff)
  show pd: "pde t i = pde s i" if "i < 1024" for i
  proof -
    have "phys t (slot 0 i) = phys s (slot 0 i)"
      unfolding t using that nz al by (intro copy_table_entries_outside [OF al d]) auto
    then show ?thesis by (simp add: pde_def)
  qed
  show map: "unat (mem_map t m) = unat (mem_map s m) + table_refs (pte s f) 0 1024 m" for m
    using copy_table_entries_map [OF al d, of 0 1024 s m] unat_plus_of_nat [OF bound [rule_format, of m]]
    by (simp add: t ptes)
  show "pt_wf t"
    using map by (intro pt_wf_cong [OF pd _ wf]) (simp_all add: word_unat_eq_iff)
  fix i j :: nat assume ij: "i < 1024" "j < 1024"
  consider "i = g" | "i = f" | "i \<noteq> f" "i \<noteq> g" by blast
  then show "pte t i j =
           (if i = g then (if present (pte s f j) then pte s f j AND NOT 2 else 0)
            else if i = f then (if shared (pte s f j) then pte s f j AND NOT 2 else pte s f j)
            else pte s i j)"
  proof cases
    case 1
    have "phys s (slot ?tp j) = 0" using zero g ij by (simp add: pte_def)
    then show ?thesis
      using 1 g ij f copy_table_entries_phys(1) [OF al d, of 0 1024 j s, folded t]
      by (simp add: pte_def pd)
  next
    case 2
    then show ?thesis
      using ne f ij copy_table_entries_phys(2) [OF al d, of 0 1024 j s, folded t]
      by (simp add: pte_def pd)
  next
    case 3
    show ?thesis
    proof (cases "present (pde s i)")
      case True
      then have "frame (pde s i) \<noteq> ?fp" "frame (pde s i) \<noteq> ?tp"
        using pt_wf_inj [OF wf ij(1)] f g 3 by blast+
      then have "phys t (slot (frame (pde s i)) j) = phys s (slot (frame (pde s i)) j)"
        unfolding t using al ij by (intro copy_table_entries_outside [OF al d]) auto
      then show ?thesis using 3 ij True by (simp add: pte_def pd)
    next
      case False
      then show ?thesis using 3 ij by (simp add: pte_def pd)
    qed
  qed
qed


lemma table_refs_cong:
  "(\<And>j. k \<le> j \<Longrightarrow> j < k + n \<Longrightarrow> es j = es' j) \<Longrightarrow> table_refs es k n m = table_refs es' k n m"
  unfolding table_refs_def by (rule sum.cong) auto

text \<open>The pages behind the entries of a table are in use.\<close>

definition table_in_use :: "'a mm_state_scheme \<Rightarrow> nat \<Rightarrow> bool" where
  "table_in_use s i \<longleftrightarrow> (\<forall>j<1024. shared (pte s i j) \<longrightarrow> mem_map s (shared_nr (pte s i j)) \<noteq> 0)"

lemma table_refs_unused:
  "table_in_use s i \<Longrightarrow> mem_map s m = 0 \<Longrightarrow> table_refs (pte s i) 0 1024 m = 0"
  by (rule table_refs_0) (auto simp: table_in_use_def)

text \<open>A new table for entry \<open>g\<close>, filled from the table of entry \<open>f\<close>.\<close>

lemma copy_dir_entry:
  assumes wf: "pt_wf s" and f: "present (pde s f)" "f < 1024" and g: "\<not> present (pde s g)" "g < 1024"
    and al: "get_free_page s = (p, s1)" "p \<noteq> 0" and use: "table_in_use s f"
    and bound: "\<forall>m. unat (mem_map s m) + table_refs (pte s f) 0 1024 m < 256"
  defines "t \<equiv> copy_table_entries 1024 (frame (pde s f)) p (poke (slot 0 g) (p OR 7) s1)"
  shows "pt_wf t"
    and "\<And>i. i < 1024 \<Longrightarrow> i \<noteq> g \<Longrightarrow> pde t i = pde s i"
    and "\<And>i j. i < 1024 \<Longrightarrow> j < 1024 \<Longrightarrow> pte t i j =
           (if i = g then (if present (pte s f j) then pte s f j AND NOT 2 else 0)
            else if i = f then (if shared (pte s f j) then pte s f j AND NOT 2 else pte s f j)
            else pte s i j)"
    and "\<exists>k<PAGING_PAGES. mem_map s k = 0 \<and> (\<forall>m. unat (mem_map t m) =
           (if m = k then 1 else unat (mem_map s m) + table_refs (pte s f) 0 1024 m))"
proof -
  define u where "u = poke (slot 0 g) (p OR 7) s1"
  note inst = install_table [OF wf g al, folded u_def]
  have ne: "f \<noteq> g" using f g by blast
  have fr: "frame (pde u f) = frame (pde s f)" "present (pde u f)" using inst(1) [OF f(2)] f ne by simp_all
  have gr: "frame (pde u g) = p" "present (pde u g)"
    using inst(1) [OF g(2)] frame_or_7 [OF inst(2)] present_or_7 [of p] by simp_all
  have pu: "pte u i j = pte s i j" if "i < 1024" "j < 1024" for i j
    using that inst(4) by (simp add: pte_eq_pte_at)
  have refs: "table_refs (pte u f) 0 1024 m = table_refs (pte s f) 0 1024 m" for m
    using pu f(2) by (intro table_refs_cong) simp
  have t: "t = copy_table_entries 1024 (frame (pde u f)) (frame (pde u g)) u"
    by (simp add: t_def u_def [symmetric] fr gr)
  obtain k where k: "k < PAGING_PAGES" "mem_map s k = 0" "s1 = zero_page p (set_map k 1 s)"
    using al by (rule get_free_page_succeeds)
  have mu: "mem_map u m = (if m = k then 1 else mem_map s m)" for m by (simp add: u_def k(3))
  have zero: "\<forall>j<1024. pte u g j = 0" using pu g by (simp add: pte_def)
  have bnd: "\<forall>m. unat (mem_map u m) + table_refs (pte u f) 0 1024 m < 256"
    using bound table_refs_unused [OF use k(2)] by (simp add: mu refs)
  note c = copy_table [OF inst(3) fr(2) f(2) gr(2) g(2) ne zero bnd, folded t]
  show "pt_wf t" by (rule c(4))
  show "pde t i = pde s i" if "i < 1024" "i \<noteq> g" for i
    using c(1) [OF that(1)] inst(1) [OF that(1)] that by simp
  show "pte t i j = (if i = g then (if present (pte s f j) then pte s f j AND NOT 2 else 0)
            else if i = f then (if shared (pte s f j) then pte s f j AND NOT 2 else pte s f j)
            else pte s i j)" if "i < 1024" "j < 1024" for i j
    unfolding c(3) [OF that] pu [OF that] pu [OF f(2) that(2)] by simp
  show "\<exists>k<PAGING_PAGES. mem_map s k = 0 \<and> (\<forall>m. unat (mem_map t m) =
           (if m = k then 1 else unat (mem_map s m) + table_refs (pte s f) 0 1024 m))"
    using k c(2) table_refs_unused [OF use k(2)] by (intro exI [of _ k]) (simp add: mu refs)
qed



subsection \<open>A range of directory entries\<close>

text \<open>How often the tables of \<open>n\<close> directory entries from \<open>f\<close> on map page number \<open>m\<close>.\<close>

definition range_refs :: "'a mm_state_scheme \<Rightarrow> nat \<Rightarrow> nat \<Rightarrow> nat \<Rightarrow> nat" where
  "range_refs s f n m = (\<Sum>i = f..<f + n. table_refs (pte s i) 0 1024 m)"

lemma range_refs_Suc:
  "range_refs s f (Suc n) m = table_refs (pte s f) 0 1024 m + range_refs s (Suc f) n m"
  by (simp add: range_refs_def sum.atLeast_Suc_lessThan)

lemma range_refs_cong:
  assumes "\<And>i j. f \<le> i \<Longrightarrow> i < f + n \<Longrightarrow> j < 1024 \<Longrightarrow> pte t i j = pte s i j"
  shows "range_refs t f n m = range_refs s f n m"
  unfolding range_refs_def by (intro sum.cong table_refs_cong) (auto intro: assms)

text \<open>
  The state \<^verbatim>\<open>fork\<close> calls \<^verbatim>\<open>copy_page_tables\<close> in: the two ranges are disjoint, the new one
  is empty, the pages of the old one are in use, and no use count is about to wrap.
\<close>

definition can_copy :: "'a mm_state_scheme \<Rightarrow> nat \<Rightarrow> nat \<Rightarrow> nat \<Rightarrow> bool" where
  "can_copy s f g n \<longleftrightarrow> pt_wf s \<and> f + n \<le> 1024 \<and> g + n \<le> 1024 \<and> (f + n \<le> g \<or> g + n \<le> f) \<and>
     (\<forall>i. g \<le> i \<and> i < g + n \<longrightarrow> \<not> present (pde s i)) \<and>
     (\<forall>i. f \<le> i \<and> i < f + n \<longrightarrow> table_in_use s i) \<and>
     (\<forall>m. unat (mem_map s m) + range_refs s f n m < 256)"

definition cow_entry :: "u32 \<Rightarrow> u32" where
  "cow_entry e = (if present e then e AND NOT 2 else 0)"

definition protected_entry :: "u32 \<Rightarrow> u32" where
  "protected_entry e = (if shared e then e AND NOT 2 else e)"

definition range_copied ::
  "'a mm_state_scheme \<Rightarrow> nat \<Rightarrow> nat \<Rightarrow> nat \<Rightarrow> 'a mm_state_scheme \<Rightarrow> bool" where
  "range_copied s f g n t \<longleftrightarrow>
     (\<forall>i<1024. \<forall>j<1024. pte t i j =
        (if g \<le> i \<and> i < g + n then cow_entry (pte s (f + (i - g)) j)
         else if f \<le> i \<and> i < f + n then protected_entry (pte s i j) else pte s i j)) \<and>
     (\<forall>m. mem_map s m \<noteq> 0 \<longrightarrow> unat (mem_map t m) = unat (mem_map s m) + range_refs s f n m) \<and>
     (\<forall>m. mem_map s m = 0 \<longrightarrow> unat (mem_map t m) \<le> 1)"

lemma can_copy_absent:
  assumes "can_copy s f g (Suc n)" "\<not> present (pde s f)"
  shows "can_copy s (Suc f) (Suc g) n"
proof -
  have "table_refs (pte s f) 0 1024 m = 0" for m
    using assms(2) by (intro table_refs_0) (simp add: pte_def shared_def)
  then show ?thesis using assms by (auto simp: can_copy_def range_refs_Suc)
qed

lemma can_copy_present:
  assumes cc: "can_copy s f g (Suc n)" and "present (pde s f)"
    and al: "get_free_page s = (p, s1)" "p \<noteq> 0"
  defines "t \<equiv> copy_table_entries 1024 (frame (pde s f)) p (poke (slot 0 g) (p OR 7) s1)"
  shows "can_copy t (Suc f) (Suc g) n"
    and "\<forall>i<1024. \<forall>j<1024. pte t i j = (if i = g then cow_entry (pte s f j)
           else if i = f then protected_entry (pte s f j) else pte s i j)"
    and "\<forall>m. mem_map s m \<noteq> 0 \<longrightarrow> unat (mem_map t m) = unat (mem_map s m) + table_refs (pte s f) 0 1024 m"
    and "\<forall>m. mem_map s m = 0 \<longrightarrow> unat (mem_map t m) \<le> 1"
    and "range_refs t (Suc f) n m = range_refs s (Suc f) n m"
proof -
  have wf: "pt_wf s" and fg: "f < 1024" "g < 1024" and g: "\<not> present (pde s g)" and use: "table_in_use s f"
    and dis: "f + Suc n \<le> g \<or> g + Suc n \<le> f"
    using cc by (auto simp: can_copy_def)
  have bnd: "unat (mem_map s m) + (table_refs (pte s f) 0 1024 m + range_refs s (Suc f) n m) < 256" for m
    using cc by (simp add: can_copy_def range_refs_Suc)
  have "\<forall>m. unat (mem_map s m) + table_refs (pte s f) 0 1024 m < 256"
  proof
    show "unat (mem_map s m) + table_refs (pte s f) 0 1024 m < 256" for m using bnd [of m] by linarith
  qed
  note c = copy_dir_entry [OF wf assms(2) fg(1) g fg(2) al use this, folded t_def]
  show pt: "\<forall>i<1024. \<forall>j<1024. pte t i j = (if i = g then cow_entry (pte s f j)
           else if i = f then protected_entry (pte s f j) else pte s i j)"
    using c(3) by (simp add: cow_entry_def protected_entry_def)
  obtain k where k: "mem_map s k = 0"
      "\<And>m. unat (mem_map t m) = (if m = k then 1 else unat (mem_map s m) + table_refs (pte s f) 0 1024 m)"
    using c(4) by blast
  show "\<forall>m. mem_map s m \<noteq> 0 \<longrightarrow> unat (mem_map t m) = unat (mem_map s m) + table_refs (pte s f) 0 1024 m"
    using k by auto
  show "\<forall>m. mem_map s m = 0 \<longrightarrow> unat (mem_map t m) \<le> 1"
    using k(2) table_refs_unused [OF use] by simp
  show rr: "range_refs t (Suc f) n m = range_refs s (Suc f) n m" for m
    using pt dis cc by (intro range_refs_cong) (auto simp: can_copy_def)
  have use': "table_in_use s i" if "Suc f \<le> i" "i < Suc f + n" for i
    using cc that by (simp add: can_copy_def)
  have unused: "range_refs s (Suc f) n k = 0"
    using table_refs_unused [OF use' k(1)] by (simp add: range_refs_def)
  have nz: "mem_map t m \<noteq> 0" if "mem_map s m \<noteq> 0" for m
    using k(2) [of m] that by (auto simp: word_unat_eq_iff split: if_splits)
  have "table_in_use t i" if i: "Suc f \<le> i" "i < Suc f + n" for i
  proof -
    have "pte t i j = pte s i j" if "j < 1024" for j
      using pt that i dis cc by (auto simp: can_copy_def)
    then show ?thesis using use' [OF i] nz by (simp add: table_in_use_def)
  qed
  moreover have "\<not> present (pde t i)" if "Suc g \<le> i" "i < Suc g + n" for i
    using that cc c(2) [of i] by (simp add: can_copy_def)
  moreover have "unat (mem_map t m) + range_refs t (Suc f) n m < 256" for m
    using bnd [of m] unused by (simp add: rr k(2))
  ultimately show "can_copy t (Suc f) (Suc g) n"
    using c(1) dis cc by (auto simp: can_copy_def)
qed


lemma range_copied_step:
  assumes step: "\<forall>i<1024. \<forall>j<1024. pte u i j = (if i = g then cow_entry (pte s f j)
           else if i = f then protected_entry (pte s f j) else pte s i j)"
    "\<forall>m. mem_map s m \<noteq> 0 \<longrightarrow> unat (mem_map u m) = unat (mem_map s m) + table_refs (pte s f) 0 1024 m"
    "\<forall>m. mem_map s m = 0 \<longrightarrow> unat (mem_map u m) \<le> 1"
    and rr: "\<And>m. range_refs u (Suc f) n m = range_refs s (Suc f) n m"
    and unused: "\<And>m. mem_map s m = 0 \<Longrightarrow> range_refs s (Suc f) n m = 0"
    and dis: "f + Suc n \<le> g \<or> g + Suc n \<le> f" and lim: "f + Suc n \<le> 1024" "g + Suc n \<le> 1024"
    and rest: "range_copied u (Suc f) (Suc g) n t"
  shows "range_copied s f g (Suc n) t"
  unfolding range_copied_def
proof (intro conjI allI impI)
  fix i j :: nat assume ij: "i < 1024" "j < 1024"
  have t: "pte t i j = (if Suc g \<le> i \<and> i < Suc g + n then cow_entry (pte u (Suc f + (i - Suc g)) j)
         else if Suc f \<le> i \<and> i < Suc f + n then protected_entry (pte u i j) else pte u i j)"
    using rest ij by (simp add: range_copied_def)
  consider "i = g" | "i = f" | "Suc g \<le> i" "i < Suc g + n" | "Suc f \<le> i" "i < Suc f + n"
    | "\<not> (g \<le> i \<and> i < g + Suc n)" "\<not> (f \<le> i \<and> i < f + Suc n)" by linarith
  then show "pte t i j = (if g \<le> i \<and> i < g + Suc n then cow_entry (pte s (f + (i - g)) j)
         else if f \<le> i \<and> i < f + Suc n then protected_entry (pte s i j) else pte s i j)"
  proof cases
    case 3
    define l where "l = f + (i - g)"
    have l: "Suc f + (i - Suc g) = l" "l < 1024" "l \<noteq> f" "l \<noteq> g" using 3 lim dis by (auto simp: l_def)
    then have "pte u l j = pte s l j" using step(1) ij by simp
    then show ?thesis using t 3 l(1) by (simp add: l_def [symmetric])
  qed (use t step(1) ij dis in auto)
next
  fix m assume m: "mem_map s m \<noteq> 0"
  have "unat (mem_map u m) = unat (mem_map s m) + table_refs (pte s f) 0 1024 m" using step(2) m by blast
  moreover have "mem_map u m \<noteq> 0" using calculation m by (auto simp: word_unat_eq_iff)
  ultimately show "unat (mem_map t m) = unat (mem_map s m) + range_refs s f (Suc n) m"
    using rest by (simp add: range_copied_def rr range_refs_Suc)
next
  fix m assume m: "mem_map s m = 0"
  show "unat (mem_map t m) \<le> 1"
    using rest step(3) m unused [OF m] by (cases "mem_map u m = 0") (auto simp: range_copied_def rr)
qed

lemma range_copied_absent:
  assumes "\<not> present (pde s f)" "\<not> present (pde s g)" "f + Suc n \<le> g \<or> g + Suc n \<le> f"
    "f + Suc n \<le> 1024" "g + Suc n \<le> 1024" "\<And>m. mem_map s m = 0 \<Longrightarrow> range_refs s (Suc f) n m = 0"
    "range_copied s (Suc f) (Suc g) n t"
  shows "range_copied s f g (Suc n) t"
proof (rule range_copied_step [of s g s f n t])
  have z: "pte s f j = 0" "pte s g j = 0" for j using assms(1,2) by (simp_all add: pte_def)
  then show "\<forall>i<1024. \<forall>j<1024. pte s i j = (if i = g then cow_entry (pte s f j)
           else if i = f then protected_entry (pte s f j) else pte s i j)"
    by (simp add: cow_entry_def protected_entry_def shared_def)
  have "table_refs (pte s f) 0 1024 m = 0" for m by (rule table_refs_0) (simp add: z shared_def)
  then show "\<forall>m. mem_map s m \<noteq> 0 \<longrightarrow> unat (mem_map s m) = unat (mem_map s m) + table_refs (pte s f) 0 1024 m"
    by simp
qed (use assms in auto)

lemma copy_dir_entries_copies:
  assumes "can_copy s f g n" "from \<noteq> 0"
  shows "case copy_dir_entries from n (slot 0 f) (slot 0 g) s of
           Stop r t \<Rightarrow> False
         | Done r t \<Rightarrow> pt_wf t \<and> (if r = 0 then range_copied s f g n t
             else r = - 1 \<and> (\<forall>k<PAGING_PAGES. mem_map t k \<noteq> 0))"
  using assms(1)
proof (induction n arbitrary: s f g)
  case 0
  then show ?case by (simp add: range_copied_def can_copy_def range_refs_def) (simp add: word_unat_eq_iff)
next
  case (Suc n)
  have cc: "pt_wf s" "\<not> present (pde s g)" "f + Suc n \<le> g \<or> g + Suc n \<le> f" "f + Suc n \<le> 1024"
    "g + Suc n \<le> 1024" "table_in_use s f" using Suc.prems by (auto simp: can_copy_def)
  have unused: "range_refs s (Suc f) n m = 0" if "mem_map s m = 0" for m
    using Suc.prems that by (auto simp: can_copy_def range_refs_def intro!: sum.neutral table_refs_unused)
  show ?case
  proof (cases "present (pde s f)")
    case False
    then show ?thesis
      using Suc.IH [OF can_copy_absent [OF Suc.prems False]] cc range_copied_absent [OF False cc(2-5) unused]
      by (auto simp: pde_def slot_Suc and.commute split: outcome.splits if_splits)
  next
    case True
    obtain p s1 where al: "get_free_page s = (p, s1)" by fastforce
    show ?thesis
    proof (cases "p = 0")
      case p: True
      then have "s1 = s" "\<forall>k<PAGING_PAGES. mem_map s k \<noteq> 0" using get_free_page_fails [of s s1] al p by simp_all
      then show ?thesis using True cc(1,2) p al by (simp add: pde_def and.commute Let_def)
    next
      case p: False
      define u where "u = copy_table_entries 1024 (frame (pde s f)) p (poke (slot 0 g) (p OR 7) s1)"
      note c = can_copy_present [OF Suc.prems True al p, folded u_def]
      have "copy_dir_entries from (Suc n) (slot 0 f) (slot 0 g) s =
              copy_dir_entries from n (slot 0 (Suc f)) (slot 0 (Suc g)) u"
        using True cc(2) al p assms(2) by (simp add: pde_def and.commute u_def slot_Suc Let_def)
      then show ?thesis
        using Suc.IH [OF c(1)] range_copied_step [OF c(2-5) unused cc(3-5)]
        by (auto split: outcome.splits if_splits)
    qed
  qed
qed



subsection \<open>Properties\<close>

text \<open>
  C6: \<^verbatim>\<open>copy_page_tables\<close> for a forked task. It never panics; it returns 0 or, when
  memory is exhausted, -1. With 0, every entry of the new range is the old entry with
  its write bit cleared, every old entry for a page above 1 MB is write-protected as
  well, all other entries are as before, and the use count of every page has grown by
  the number of entries of the old range that refer to it.
\<close>

theorem copy_page_tables_shares:
  assumes "from AND 0x3FFFFF = 0" "to AND 0x3FFFFF = 0" "from \<noteq> 0"
    and "can_copy s (pd_index from) (pd_index to) (unat (drop_bit 22 (sz + 0x3FFFFF)))"
  shows "case copy_page_tables from to sz s of
           Stop r t \<Rightarrow> False
         | Done r t \<Rightarrow> pt_wf t \<and>
             (if r = 0
              then range_copied s (pd_index from) (pd_index to) (unat (drop_bit 22 (sz + 0x3FFFFF))) t
              else r = - 1 \<and> (\<forall>k<PAGING_PAGES. mem_map t k \<noteq> 0))"
  using copy_dir_entries_copies [OF assms(4,3)] assms(1,2)
  by (simp add: copy_page_tables_def dir_entry_addr_slot)

lemma pte_cow_mm: "i < 1024 \<Longrightarrow> j < 1024 \<Longrightarrow> pte cow_mm i j = (if i = 16 \<and> j = 0 then 0x101005 else 0)"
proof -
  assume ij: "i < 1024" "j < 1024"
  have al: "page_aligned 0x100000" "page_aligned 0x101000" by (simp_all add: page_aligned_def)
  have "slot 0x100000 j = 0x100000 \<longleftrightarrow> j = 0" "slot 0x100000 j \<noteq> 64" "slot 0x100000 j \<noteq> 0x101000"
    using slot_eq_iff [of "0x100000" "0x100000" j 0] slot_eq_iff [of "0x100000" 0 j 16]
      slot_eq_iff [of "0x100000" "0x101000" j 0] ij al by (simp_all add: slot_consts)
  then have "phys cow_mm (slot 0x100000 j) = (if j = 0 then 0x101005 else 0)"
    by (simp add: cow_mm_def)
  then show ?thesis using ij by (cases "j = 0") (simp_all add: pte_def pde_cow_mm)
qed

lemma cow_mm_refs: "range_refs cow_mm 16 1 m = (if m = 1 then 1 else 0)"
proof -
  have "table_refs (pte cow_mm 16) 0 1024 m = (\<Sum>j = 0..<(1024::nat). if j = 0 then (if m = 1 then 1 else 0) else 0)"
    unfolding table_refs_def
    by (rule sum.cong) (auto simp: pte_cow_mm shared_def shared_nr_def MAP_NR_def LOW_MEM_def)
  moreover have "{16..<16 + 1} = {16 :: nat}" by auto
  ultimately show ?thesis by (simp add: range_refs_def)
qed

lemma can_copy_cow_mm: "can_copy cow_mm 16 32 1"
  unfolding can_copy_def cow_mm_refs
  by (auto simp: cow_mm_hyps(1) pde_cow_mm table_in_use_def pte_cow_mm shared_def shared_nr_def
      MAP_NR_def LOW_MEM_def mem_map_cow_mm)

theorem copy_page_tables_shares_witness:
  "\<exists>t. copy_page_tables 0x4000000 0x8000000 4096 cow_mm = Done 0 t \<and>
       pte t 32 0 = 0x101005 \<and> pte t 16 0 = 0x101005 \<and> unat (mem_map t 1) = 3"
proof -
  have ix: "pd_index 0x4000000 = 16" "pd_index 0x8000000 = 32" "unat (drop_bit 22 (0x400FFF :: u32)) = 1"
    by (simp_all add: pd_index_def)
  have m: "mem_map cow_mm 1 = 2" "mem_map cow_mm 2 = 0" by (simp_all add: cow_mm_def)
  have "2 < PAGING_PAGES" by (simp add: PAGING_PAGES_eq)
  then have nz: "fst (get_free_page cow_mm) \<noteq> 0" using get_free_page_0_iff [of cow_mm] m by auto
  have fr: "phys cow_mm 128 = 0" "phys cow_mm 64 = 0x100007" by (simp_all add: cow_mm_def)
  have slots: "slot 0 16 = 64" "slot 0 32 = 128" by (simp_all add: slot_def)
  obtain t where t: "copy_page_tables 0x4000000 0x8000000 4096 cow_mm = Done 0 t"
    using nz fr
    by (cases "get_free_page cow_mm")
      (simp add: copy_page_tables_def dir_entry_addr_slot ix slots Let_def One_nat_def)
  have "range_copied cow_mm 16 32 1 t"
    using copy_page_tables_shares [of "0x4000000" "0x8000000" cow_mm 4096] can_copy_cow_mm t
    by (simp add: ix)
  then have "pte t 32 0 = 0x101005 \<and> pte t 16 0 = 0x101005 \<and> unat (mem_map t 1) = 3"
    using cow_mm_refs [of 1] m
    by (simp add: range_copied_def pte_cow_mm cow_entry_def protected_entry_def)
  with t show ?thesis by blast
qed

end
