(* ===== verification/Sched_State.thy ===== *)
theory Sched_State
  imports Mm_Fork
begin

text \<open>
  The data the process side of the kernel works on: \<^verbatim>\<open>struct task_struct\<close> with its TSS,
  LDT descriptors and signal actions (\<^verbatim>\<open>include/linux/sched.h\<close>, \<^verbatim>\<open>include/signal.h\<close>),
  the task table and the variables of \<^verbatim>\<open>kernel/sched.c\<close> and \<^verbatim>\<open>kernel/fork.c\<close>. A pointer
  to a task is its address, 0 is \<^verbatim>\<open>NULL\<close>, and \<open>tasks\<close> is the store behind the addresses.
  A pointer to the head of a wait queue is a value of \<open>wait_queue\<close>. The bytes of the
  user segment of the running task, which the kernel reaches through the \<^verbatim>\<open>fs\<close>
  register, are \<open>fs_mem\<close>.
\<close>


subsection \<open>Tasks\<close>

record sigaction =
  sa_handler :: u32
  sa_mask :: u32
  sa_flags :: u32
  sa_restorer :: u32

record desc_struct =
  desc_a :: u32
  desc_b :: u32

record tss_struct =
  tss_back_link :: u32
  tss_esp0 :: u32
  tss_ss0 :: u32
  tss_esp1 :: u32
  tss_ss1 :: u32
  tss_esp2 :: u32
  tss_ss2 :: u32
  tss_cr3 :: u32
  tss_eip :: u32
  tss_eflags :: u32
  tss_eax :: u32
  tss_ecx :: u32
  tss_edx :: u32
  tss_ebx :: u32
  tss_esp :: u32
  tss_ebp :: u32
  tss_esi :: u32
  tss_edi :: u32
  tss_es :: u32
  tss_cs :: u32
  tss_ss :: u32
  tss_ds :: u32
  tss_fs :: u32
  tss_gs :: u32
  tss_ldt :: u32
  tss_trace_bitmap :: u32
  tss_i387 :: "nat \<Rightarrow> u32"

text \<open>
  Signed fields are integers, bit sets and addresses are words. An inode or file
  pointer is an index into \<^verbatim>\<open>inode_table\<close> or \<^verbatim>\<open>file_table\<close>.
\<close>

record task_struct =
  t_state :: int
  t_counter :: int
  t_priority :: int
  t_signal :: u32
  t_sigaction :: "nat \<Rightarrow> sigaction"
  t_blocked :: u32
  t_exit_code :: int
  t_start_code :: u32
  t_end_code :: u32
  t_end_data :: u32
  t_brk :: u32
  t_start_stack :: u32
  t_pid :: int
  t_father :: int
  t_pgrp :: int
  t_session :: int
  t_leader :: int
  t_uid :: u16
  t_euid :: u16
  t_suid :: u16
  t_gid :: u16
  t_egid :: u16
  t_sgid :: u16
  t_alarm :: int
  t_utime :: int
  t_stime :: int
  t_cutime :: int
  t_cstime :: int
  t_start_time :: int
  t_used_math :: u16
  t_tty :: int
  t_umask :: u16
  t_pwd :: "nat option"
  t_root :: "nat option"
  t_executable :: "nat option"
  t_close_on_exec :: u32
  t_filp :: "nat \<Rightarrow> nat option"
  t_ldt :: "nat \<Rightarrow> desc_struct"
  t_tss :: tss_struct

definition NR_TASKS :: nat where "NR_TASKS = 64"
definition HZ :: int where "HZ = 100"
definition NR_OPEN :: nat where "NR_OPEN = 20"

definition TASK_RUNNING :: int where "TASK_RUNNING = 0"
definition TASK_INTERRUPTIBLE :: int where "TASK_INTERRUPTIBLE = 1"
definition TASK_UNINTERRUPTIBLE :: int where "TASK_UNINTERRUPTIBLE = 2"
definition TASK_ZOMBIE :: int where "TASK_ZOMBIE = 3"
definition TASK_STOPPED :: int where "TASK_STOPPED = 4"

lemmas task_state_defs = TASK_RUNNING_def TASK_INTERRUPTIBLE_def TASK_UNINTERRUPTIBLE_def
  TASK_ZOMBIE_def TASK_STOPPED_def

text \<open>The signal numbers the kernel itself uses, and \<open>_S(nr)\<close>, the bit of a signal.\<close>

definition SIGHUP :: int where "SIGHUP = 1"
definition SIGKILL :: int where "SIGKILL = 9"
definition SIGPIPE :: int where "SIGPIPE = 13"
definition SIGALRM :: int where "SIGALRM = 14"
definition SIGCHLD :: int where "SIGCHLD = 17"
definition SIGSTOP :: int where "SIGSTOP = 19"
definition SA_NOMASK :: u32 where "SA_NOMASK = 0x40000000"
definition SA_ONESHOT :: u32 where "SA_ONESHOT = 0x80000000"

lemmas signal_defs = SIGHUP_def SIGKILL_def SIGPIPE_def SIGALRM_def SIGCHLD_def SIGSTOP_def

definition sig_bit :: "int \<Rightarrow> u32" where
  "sig_bit sig = push_bit (nat (sig - 1)) 1"

text \<open>Task 0 as the macro \<^verbatim>\<open>INIT_TASK\<close> sets it up; \<open>addr\<close> is the address of \<^verbatim>\<open>init_task\<close>.\<close>

definition no_action :: sigaction where
  "no_action = \<lparr>sa_handler = 0, sa_mask = 0, sa_flags = 0, sa_restorer = 0\<rparr>"

definition INIT_TASK :: "u32 \<Rightarrow> task_struct" where
  "INIT_TASK addr =
     \<lparr>t_state = 0, t_counter = 15, t_priority = 15, t_signal = 0, t_sigaction = (\<lambda>_. no_action),
      t_blocked = 0, t_exit_code = 0, t_start_code = 0, t_end_code = 0, t_end_data = 0, t_brk = 0,
      t_start_stack = 0, t_pid = 0, t_father = - 1, t_pgrp = 0, t_session = 0, t_leader = 0,
      t_uid = 0, t_euid = 0, t_suid = 0, t_gid = 0, t_egid = 0, t_sgid = 0, t_alarm = 0,
      t_utime = 0, t_stime = 0, t_cutime = 0, t_cstime = 0, t_start_time = 0, t_used_math = 0,
      t_tty = - 1, t_umask = 18, t_pwd = None, t_root = None, t_executable = None,
      t_close_on_exec = 0, t_filp = (\<lambda>_. None),
      t_ldt = (\<lambda>_. \<lparr>desc_a = 0, desc_b = 0\<rparr>)
        (1 := \<lparr>desc_a = 0x9F, desc_b = 0xC0FA00\<rparr>, 2 := \<lparr>desc_a = 0x9F, desc_b = 0xC0F200\<rparr>),
      t_tss =
        \<lparr>tss_back_link = 0, tss_esp0 = 4096 + addr, tss_ss0 = 0x10, tss_esp1 = 0, tss_ss1 = 0,
         tss_esp2 = 0, tss_ss2 = 0, tss_cr3 = 0, tss_eip = 0, tss_eflags = 0, tss_eax = 0,
         tss_ecx = 0, tss_edx = 0, tss_ebx = 0, tss_esp = 0, tss_ebp = 0, tss_esi = 0, tss_edi = 0,
         tss_es = 0x17, tss_cs = 0x17, tss_ss = 0x17, tss_ds = 0x17, tss_fs = 0x17, tss_gs = 0x17,
         tss_ldt = 0x28, tss_trace_bitmap = 0x80000000, tss_i387 = (\<lambda>_. 0)\<rparr>\<rparr>"


subsection \<open>The state\<close>

datatype wait_queue =
    Wait_Motor nat | Wait_Buffer_Free | Wait_Request | Wait_Buffer nat | Wait_Inode nat
  | Wait_Super nat | Wait_Tty nat | Wait_Floppy_Select

text \<open>
  One slot of \<^verbatim>\<open>timer_list\<close>: ticks after the timer before it, the function (0 when the
  slot is free), the next slot.
\<close>

record timer_entry =
  tm_jiffies :: int
  tm_fn :: u32
  tm_next :: "nat option"

text \<open>
  \<open>out_ports\<close> collects the bytes written with \<^verbatim>\<open>outb\<close>, latest first; \<open>in_ports\<close> is what
  \<^verbatim>\<open>inb\<close> reads.
\<close>

record sched_state = mm_state +
  task :: "nat \<Rightarrow> u32"
  tasks :: "u32 \<Rightarrow> task_struct"
  init_task :: u32
  current :: u32
  last_task_used_math :: u32
  fpu :: "nat \<Rightarrow> u32"
  jiffies :: int
  startup_time :: int
  last_pid :: int
  wait_head :: "wait_queue \<Rightarrow> u32"
  timer_list :: "nat \<Rightarrow> timer_entry"
  next_timer :: "nat option"
  mon_timer :: "nat \<Rightarrow> int"
  moff_timer :: "nat \<Rightarrow> int"
  current_DOR :: u8
  selected :: u8
  beepcount :: int
  out_ports :: "(nat \<times> u8) list"
  in_ports :: "nat \<Rightarrow> u8"
  gdt :: "nat \<Rightarrow> desc_struct"
  fs_mem :: "u32 \<Rightarrow> u8"

text \<open>The task behind an address, and \<open>current->field = ...\<close>.\<close>

definition upd_task ::
  "u32 \<Rightarrow> (task_struct \<Rightarrow> task_struct) \<Rightarrow> 'a sched_state_scheme \<Rightarrow> 'a sched_state_scheme" where
  "upd_task p f s = s\<lparr>tasks := (tasks s)(p := f (tasks s p))\<rparr>"

abbreviation cur :: "'a sched_state_scheme \<Rightarrow> task_struct" where
  "cur s \<equiv> tasks s (current s)"

abbreviation upd_cur ::
  "(task_struct \<Rightarrow> task_struct) \<Rightarrow> 'a sched_state_scheme \<Rightarrow> 'a sched_state_scheme" where
  "upd_cur f s \<equiv> upd_task (current s) f s"

text \<open>\<^verbatim>\<open>suser()\<close> of \<^verbatim>\<open>include/linux/kernel.h\<close>.\<close>

definition suser :: "'a sched_state_scheme \<Rightarrow> bool" where
  "suser s \<longleftrightarrow> t_euid (cur s) = 0"

definition CURRENT_TIME :: "'a sched_state_scheme \<Rightarrow> int" where
  "CURRENT_TIME s = startup_time s + (if jiffies s < 0 then - (- jiffies s div HZ) else jiffies s div HZ)"


subsection \<open>Segment descriptors\<close>

text \<open>
  Bytes 2, 3, 4 and 7 of a descriptor hold its base; bytes 0, 1 and the low half of
  byte 6 its limit, in pages when the granularity bit is set.
\<close>

definition get_base :: "desc_struct \<Rightarrow> u32" where
  "get_base d = (desc_b d AND 0xFF000000) OR push_bit 16 (desc_b d AND 0xFF) OR drop_bit 16 (desc_a d)"

definition set_base :: "u32 \<Rightarrow> desc_struct \<Rightarrow> desc_struct" where
  "set_base base d =
     \<lparr>desc_a = (desc_a d AND 0xFFFF) OR push_bit 16 base,
      desc_b = (desc_b d AND 0x00FFFF00) OR (base AND 0xFF000000) OR (drop_bit 16 base AND 0xFF)\<rparr>"

definition set_limit :: "u32 \<Rightarrow> desc_struct \<Rightarrow> desc_struct" where
  "set_limit limit d =
     (let l = drop_bit 12 (limit - 1)
      in \<lparr>desc_a = (desc_a d AND 0xFFFF0000) OR (l AND 0xFFFF),
          desc_b = (desc_b d AND 0xFFF0FFFF) OR (l AND 0x000F0000)\<rparr>)"

text \<open>\<^verbatim>\<open>lsl\<close> on a selector into the LDT of the running task, plus 1.\<close>

definition desc_limit :: "desc_struct \<Rightarrow> u32" where
  "desc_limit d =
     (let l = (desc_a d AND 0xFFFF) OR (desc_b d AND 0x000F0000)
      in (if desc_b d AND 0x00800000 \<noteq> 0 then push_bit 12 l OR 0xFFF else l) + 1)"

definition get_limit :: "u32 \<Rightarrow> 'a sched_state_scheme \<Rightarrow> u32" where
  "get_limit segment s = desc_limit (t_ldt (cur s) (unat (drop_bit 3 segment)))"


subsection \<open>User memory\<close>

text \<open>The accesses to the memory that \<^verbatim>\<open>fs\<close> selects are single steps: the page fault that one may cause is not modelled.\<close>

definition get_fs_byte :: "u32 \<Rightarrow> 'a sched_state_scheme \<Rightarrow> u8" where
  "get_fs_byte addr s = fs_mem s addr"

definition put_fs_byte :: "u8 \<Rightarrow> u32 \<Rightarrow> 'a sched_state_scheme \<Rightarrow> 'a sched_state_scheme" where
  "put_fs_byte val addr s = s\<lparr>fs_mem := (fs_mem s)(addr := val)\<rparr>"

definition get_fs_long :: "u32 \<Rightarrow> 'a sched_state_scheme \<Rightarrow> u32" where
  "get_fs_long addr s =
     ucast (fs_mem s addr) OR push_bit 8 (ucast (fs_mem s (addr + 1))) OR
     push_bit 16 (ucast (fs_mem s (addr + 2))) OR push_bit 24 (ucast (fs_mem s (addr + 3)))"

definition put_fs_long :: "u32 \<Rightarrow> u32 \<Rightarrow> 'a sched_state_scheme \<Rightarrow> 'a sched_state_scheme" where
  "put_fs_long val addr s =
     put_fs_byte (ucast (drop_bit 24 val)) (addr + 3)
       (put_fs_byte (ucast (drop_bit 16 val)) (addr + 2)
         (put_fs_byte (ucast (drop_bit 8 val)) (addr + 1) (put_fs_byte (ucast val) addr s)))"

end
