(* ===== verification/Sched.thy ===== *)
theory Sched
  imports Sched_State
begin

text \<open>
  The scheduler, \<^verbatim>\<open>kernel/sched.c\<close>: choosing the next task, sleeping and waking on wait
  queues, the timer list, the floppy motor timers, the timer interrupt and the small
  system calls at the end of the file. A call of \<open>schedule\<close> by a task that is to sleep
  gives the processor away; what the rest of the system does until the task runs
  again is the function \<open>others\<close> of an \<open>env\<close>, an argument of every operation that may
  sleep, and \<open>patience\<close> bounds how often one waiting loop goes to sleep.
\<close>


subsection \<open>Choosing a task\<close>

definition BLOCKABLE :: u32 where
  "BLOCKABLE = NOT (sig_bit SIGKILL OR sig_bit SIGSTOP)"

text \<open>The slots in the order of \<^verbatim>\<open>for(p = &LAST_TASK ; p > &FIRST_TASK ; --p)\<close>.\<close>

definition slots_down :: "nat list" where
  "slots_down = rev [1..<NR_TASKS]"

definition check_alarm :: "nat \<Rightarrow> 'a sched_state_scheme \<Rightarrow> 'a sched_state_scheme" where
  "check_alarm i s =
     (let p = task s i
      in if p = 0 then s
         else let s = (if t_alarm (tasks s p) \<noteq> 0 \<and> t_alarm (tasks s p) < jiffies s
                       then upd_task p (\<lambda>t. t\<lparr>t_signal := t_signal t OR sig_bit SIGALRM, t_alarm := 0\<rparr>) s
                       else s);
                  t = tasks s p
              in if t_signal t AND NOT (BLOCKABLE AND t_blocked t) \<noteq> 0 \<and> t_state t = TASK_INTERRUPTIBLE
                 then upd_task p (\<lambda>t. t\<lparr>t_state := TASK_RUNNING\<rparr>) s else s)"

text \<open>One pass of the inner loop: \<open>(c, next)\<close> after looking at slot \<open>i\<close>.\<close>

definition pick_slot :: "'a sched_state_scheme \<Rightarrow> nat \<Rightarrow> int \<times> nat \<Rightarrow> int \<times> nat" where
  "pick_slot s i cn =
     (let p = task s i
      in if p \<noteq> 0 \<and> t_state (tasks s p) = TASK_RUNNING \<and> fst cn < t_counter (tasks s p)
         then (t_counter (tasks s p), i) else cn)"

definition pick :: "'a sched_state_scheme \<Rightarrow> int \<times> nat" where
  "pick s = fold (pick_slot s) slots_down (- 1, 0)"

definition refill_slot :: "nat \<Rightarrow> 'a sched_state_scheme \<Rightarrow> 'a sched_state_scheme" where
  "refill_slot i s =
     (let p = task s i
      in if p = 0 then s
         else upd_task p (\<lambda>t. t\<lparr>t_counter := wrap32 (t_counter t div 2 + t_priority t)\<rparr>) s)"

text \<open>The \<^verbatim>\<open>while (1)\<close> loop; \<open>n\<close> bounds its iterations.\<close>

fun schedule_loop :: "nat \<Rightarrow> 'a sched_state_scheme \<Rightarrow> (nat, 'a sched_state_scheme) outcome" where
  "schedule_loop 0 s = Stop Looping s"
| "schedule_loop (Suc n) s =
     (let (c, next_nr) = pick s
      in if c \<noteq> 0 then Done next_nr s else schedule_loop n (fold refill_slot slots_down s))"

definition SCHED_FUEL :: nat where
  "SCHED_FUEL = 64"

definition switch_to :: "nat \<Rightarrow> 'a sched_state_scheme \<Rightarrow> 'a sched_state_scheme" where
  "switch_to n s = s\<lparr>current := task s n\<rparr>"

definition schedule :: "'a sched_state_scheme \<Rightarrow> (unit, 'a sched_state_scheme) outcome" where
  "schedule s =
     kbind (schedule_loop SCHED_FUEL (fold check_alarm slots_down s)) (\<lambda>next_nr s.
     Done () (switch_to next_nr s))"


subsection \<open>Sleeping and waking\<close>

text \<open>
  \<open>driver\<close> is the request function of the disk drivers that work by interrupts, and
  \<open>sync_ino\<close> the \<^verbatim>\<open>sync_inodes()\<close> the buffer cache calls: the cache and the inode table
  call each other, and the knot is tied where the inode table is defined.
\<close>

record 's env =
  patience :: nat
  others :: "'s \<Rightarrow> 's"
  driver :: "nat \<Rightarrow> 's \<Rightarrow> (unit, 's) outcome"
  sync_ino :: "'s \<Rightarrow> (unit, 's) outcome"

text \<open>
  \<open>schedule()\<close> as the sleeping task sees it: another task is chosen, the others run, and
  the next thing that happens to this task is that it is \<^verbatim>\<open>current\<close> again.
\<close>

definition reschedule ::
  "('a sched_state_scheme) env \<Rightarrow> 'a sched_state_scheme \<Rightarrow> (unit, 'a sched_state_scheme) outcome" where
  "reschedule e s =
     kbind (schedule s) (\<lambda>_ s'. Done () ((others e s')\<lparr>current := current s\<rparr>))"

definition set_state :: "int \<Rightarrow> task_struct \<Rightarrow> task_struct" where
  "set_state st t = t\<lparr>t_state := st\<rparr>"

definition sys_pause ::
  "('a sched_state_scheme) env \<Rightarrow> 'a sched_state_scheme \<Rightarrow> (int, 'a sched_state_scheme) outcome" where
  "sys_pause e s =
     kbind (reschedule e (upd_cur (set_state TASK_INTERRUPTIBLE) s)) (\<lambda>_ s. Done 0 s)"

definition sleep_on ::
  "('a sched_state_scheme) env \<Rightarrow> wait_queue \<Rightarrow> 'a sched_state_scheme \<Rightarrow>
   (unit, 'a sched_state_scheme) outcome" where
  "sleep_on e q s =
     (if current s = init_task s then Stop (Panic ''task[0] trying to sleep'') s
      else let tmp = wait_head s q;
               s = s\<lparr>wait_head := (wait_head s)(q := current s)\<rparr>;
               s = upd_cur (set_state TASK_UNINTERRUPTIBLE) s
           in kbind (reschedule e s) (\<lambda>_ s.
              Done () (if tmp \<noteq> 0 then upd_task tmp (set_state 0) s else s)))"

text \<open>The \<^verbatim>\<open>repeat\<close> loop of \<^verbatim>\<open>interruptible_sleep_on\<close>.\<close>

fun interruptible_wait ::
  "nat \<Rightarrow> ('a sched_state_scheme) env \<Rightarrow> wait_queue \<Rightarrow> 'a sched_state_scheme \<Rightarrow>
   (unit, 'a sched_state_scheme) outcome" where
  "interruptible_wait 0 e q s = Stop Asleep s"
| "interruptible_wait (Suc n) e q s =
     kbind (reschedule e (upd_cur (set_state TASK_INTERRUPTIBLE) s)) (\<lambda>_ s.
     if wait_head s q \<noteq> 0 \<and> wait_head s q \<noteq> current s
     then interruptible_wait n e q (upd_task (wait_head s q) (set_state 0) s)
     else Done () s)"

definition interruptible_sleep_on ::
  "('a sched_state_scheme) env \<Rightarrow> wait_queue \<Rightarrow> 'a sched_state_scheme \<Rightarrow>
   (unit, 'a sched_state_scheme) outcome" where
  "interruptible_sleep_on e q s =
     (if current s = init_task s then Stop (Panic ''task[0] trying to sleep'') s
      else let tmp = wait_head s q;
               s = s\<lparr>wait_head := (wait_head s)(q := current s)\<rparr>
           in kbind (interruptible_wait (patience e) e q s) (\<lambda>_ s.
              let s = s\<lparr>wait_head := (wait_head s)(q := 0)\<rparr>
              in Done () (if tmp \<noteq> 0 then upd_task tmp (set_state 0) s else s)))"

definition wake_up :: "wait_queue \<Rightarrow> 'a sched_state_scheme \<Rightarrow> 'a sched_state_scheme" where
  "wake_up q s =
     (if wait_head s q \<noteq> 0
      then (upd_task (wait_head s q) (set_state 0) s)\<lparr>wait_head := (wait_head s)(q := 0)\<rparr>
      else s)"


subsection \<open>Floppy motors\<close>

definition FD_DOR :: nat where
  "FD_DOR = 0x3F2"

definition outb :: "u8 \<Rightarrow> nat \<Rightarrow> 'a sched_state_scheme \<Rightarrow> 'a sched_state_scheme" where
  "outb val port s = s\<lparr>out_ports := (port, val) # out_ports s\<rparr>"

definition ticks_to_floppy_on ::
  "nat \<Rightarrow> 'a sched_state_scheme \<Rightarrow> (int, 'a sched_state_scheme) outcome" where
  "ticks_to_floppy_on nr s =
     (let mask = push_bit nr 0x10 :: u8
      in if 3 < nr then Stop (Panic ''floppy_on: nr>3'') s
         else let s = s\<lparr>moff_timer := (moff_timer s)(nr := 10000)\<rparr>;
                  mask = mask OR current_DOR s;
                  mask = (if selected s = 0 then (mask AND 0xFC) OR of_nat nr else mask);
                  s = (if mask \<noteq> current_DOR s
                       then let s = outb mask FD_DOR s;
                                s = (if (mask XOR current_DOR s) AND 0xF0 \<noteq> 0
                                     then s\<lparr>mon_timer := (mon_timer s)(nr := HZ div 2)\<rparr>
                                     else if mon_timer s nr < 2
                                     then s\<lparr>mon_timer := (mon_timer s)(nr := 2)\<rparr> else s)
                            in s\<lparr>current_DOR := mask\<rparr>
                       else s)
              in Done (mon_timer s nr) s)"

fun floppy_on_loop ::
  "nat \<Rightarrow> ('a sched_state_scheme) env \<Rightarrow> nat \<Rightarrow> 'a sched_state_scheme \<Rightarrow>
   (unit, 'a sched_state_scheme) outcome" where
  "floppy_on_loop 0 e nr s = Stop Asleep s"
| "floppy_on_loop (Suc n) e nr s =
     kbind (ticks_to_floppy_on nr s) (\<lambda>ticks s.
     if ticks = 0 then Done () s
     else kbind (sleep_on e (Wait_Motor nr) s) (\<lambda>_ s. floppy_on_loop n e nr s))"

definition floppy_on ::
  "('a sched_state_scheme) env \<Rightarrow> nat \<Rightarrow> 'a sched_state_scheme \<Rightarrow>
   (unit, 'a sched_state_scheme) outcome" where
  "floppy_on e nr s = floppy_on_loop (patience e) e nr s"

definition floppy_off :: "nat \<Rightarrow> 'a sched_state_scheme \<Rightarrow> 'a sched_state_scheme" where
  "floppy_off nr s = s\<lparr>moff_timer := (moff_timer s)(nr := 3 * HZ)\<rparr>"

definition floppy_timer_step :: "nat \<Rightarrow> 'a sched_state_scheme \<Rightarrow> 'a sched_state_scheme" where
  "floppy_timer_step i s =
     (let mask = push_bit i 0x10 :: u8
      in if mask AND current_DOR s = 0 then s
         else if mon_timer s i \<noteq> 0
         then let s = s\<lparr>mon_timer := (mon_timer s)(i := mon_timer s i - 1)\<rparr>
              in if mon_timer s i = 0 then wake_up (Wait_Motor i) s else s
         else if moff_timer s i = 0
         then let s = s\<lparr>current_DOR := current_DOR s AND NOT mask\<rparr>
              in outb (current_DOR s) FD_DOR s
         else s\<lparr>moff_timer := (moff_timer s)(i := moff_timer s i - 1)\<rparr>)"

definition do_floppy_timer :: "'a sched_state_scheme \<Rightarrow> 'a sched_state_scheme" where
  "do_floppy_timer s = fold floppy_timer_step [0..<4] s"


subsection \<open>Timers\<close>

text \<open>
  A timer function is an address; \<open>run\<close> gives its effect. \<open>timer_sink\<close> is the loop of
  \<^verbatim>\<open>add_timer\<close> that moves the new request down the list by swapping contents.
\<close>

definition TIME_REQUESTS :: nat where
  "TIME_REQUESTS = 64"

fun timer_sink :: "nat \<Rightarrow> nat \<Rightarrow> (nat \<Rightarrow> timer_entry) \<Rightarrow> (nat \<Rightarrow> timer_entry) option" where
  "timer_sink 0 p tab = None"
| "timer_sink (Suc n) p tab =
     (case tm_next (tab p) of
        None \<Rightarrow> Some tab
      | Some q \<Rightarrow>
          if tm_jiffies (tab q) < tm_jiffies (tab p)
          then let d = tm_jiffies (tab p) - tm_jiffies (tab q);
                   fn = tm_fn (tab p);
                   tab = tab(p := (tab p)\<lparr>tm_fn := tm_fn (tab q), tm_jiffies := tm_jiffies (tab q)\<rparr>);
                   tab = tab(q := (tab q)\<lparr>tm_fn := fn, tm_jiffies := d\<rparr>)
               in timer_sink n q tab
          else Some tab)"

definition add_timer ::
  "(u32 \<Rightarrow> 'a sched_state_scheme \<Rightarrow> 'a sched_state_scheme) \<Rightarrow> int \<Rightarrow> u32 \<Rightarrow>
   'a sched_state_scheme \<Rightarrow> (unit, 'a sched_state_scheme) outcome" where
  "add_timer run jf fn s =
     (if fn = 0 then Done () s
      else if jf \<le> 0 then Done () (run fn s)
      else case find (\<lambda>p. tm_fn (timer_list s p) = 0) [0..<TIME_REQUESTS] of
             None \<Rightarrow> Stop (Panic ''No more time requests free'') s
           | Some p \<Rightarrow>
               let s = s\<lparr>timer_list := (timer_list s)(p := \<lparr>tm_jiffies = jf, tm_fn = fn, tm_next = next_timer s\<rparr>),
                         next_timer := Some p\<rparr>
               in case timer_sink (Suc TIME_REQUESTS) p (timer_list s) of
                    None \<Rightarrow> Stop Looping s
                  | Some tab \<Rightarrow> Done () (s\<lparr>timer_list := tab\<rparr>))"

text \<open>The \<^verbatim>\<open>while\<close> loop of \<^verbatim>\<open>do_timer\<close>.\<close>

fun run_timers ::
  "nat \<Rightarrow> (u32 \<Rightarrow> 'a sched_state_scheme \<Rightarrow> 'a sched_state_scheme) \<Rightarrow> 'a sched_state_scheme \<Rightarrow>
   (unit, 'a sched_state_scheme) outcome" where
  "run_timers 0 run s = Stop Looping s"
| "run_timers (Suc n) run s =
     (case next_timer s of
        None \<Rightarrow> Done () s
      | Some p \<Rightarrow>
          if tm_jiffies (timer_list s p) \<le> 0
          then let fn = tm_fn (timer_list s p);
                   s = s\<lparr>timer_list := (timer_list s)(p := (timer_list s p)\<lparr>tm_fn := 0\<rparr>),
                         next_timer := tm_next (timer_list s p)\<rparr>
               in run_timers n run (run fn s)
          else Done () s)"

definition timer_tick ::
  "(u32 \<Rightarrow> 'a sched_state_scheme \<Rightarrow> 'a sched_state_scheme) \<Rightarrow>
   'a sched_state_scheme \<Rightarrow> (unit, 'a sched_state_scheme) outcome" where
  "timer_tick run s =
     (case next_timer s of
        None \<Rightarrow> Done () s
      | Some p \<Rightarrow>
          run_timers (Suc TIME_REQUESTS) run
            (s\<lparr>timer_list := (timer_list s)
                (p := (timer_list s p)\<lparr>tm_jiffies := tm_jiffies (timer_list s p) - 1\<rparr>)\<rparr>))"

text \<open>
  \<^verbatim>\<open>sysbeepstop\<close> is declared but not defined in the sources; it is an argument.
\<close>

definition do_timer ::
  "(u32 \<Rightarrow> 'a sched_state_scheme \<Rightarrow> 'a sched_state_scheme) \<Rightarrow>
   ('a sched_state_scheme \<Rightarrow> 'a sched_state_scheme) \<Rightarrow> ('a sched_state_scheme) env \<Rightarrow> int \<Rightarrow>
   'a sched_state_scheme \<Rightarrow> (unit, 'a sched_state_scheme) outcome" where
  "do_timer run sysbeepstop e cpl s =
     (let s = (if beepcount s \<noteq> 0
               then let s = s\<lparr>beepcount := beepcount s - 1\<rparr>
                    in if beepcount s = 0 then sysbeepstop s else s
               else s);
          s = (if cpl \<noteq> 0 then upd_cur (\<lambda>t. t\<lparr>t_utime := t_utime t + 1\<rparr>) s
               else upd_cur (\<lambda>t. t\<lparr>t_stime := t_stime t + 1\<rparr>) s)
      in kbind (timer_tick run s) (\<lambda>_ s.
           let s = (if current_DOR s AND 0xF0 \<noteq> 0 then do_floppy_timer s else s);
               s = upd_cur (\<lambda>t. t\<lparr>t_counter := t_counter t - 1\<rparr>) s
           in if 0 < t_counter (cur s) then Done () s
              else let s = upd_cur (\<lambda>t. t\<lparr>t_counter := 0\<rparr>) s
                   in if cpl = 0 then Done () s else reschedule e s))"


subsection \<open>Small system calls\<close>

text \<open>C division, which truncates towards 0.\<close>

definition cdiv :: "int \<Rightarrow> int \<Rightarrow> int" where
  "cdiv a b = (if (a < 0) = (b < 0) then \<bar>a\<bar> div \<bar>b\<bar> else - (\<bar>a\<bar> div \<bar>b\<bar>))"

definition sys_alarm :: "int \<Rightarrow> 'a sched_state_scheme \<Rightarrow> int \<times> 'a sched_state_scheme" where
  "sys_alarm seconds s =
     (let old = t_alarm (cur s);
          old = (if old \<noteq> 0 then cdiv (wrap32 (old - jiffies s)) HZ else old)
      in (old, upd_cur (\<lambda>t. t\<lparr>t_alarm :=
                 (if 0 < seconds then wrap32 (jiffies s + wrap32 (HZ * seconds)) else 0)\<rparr>) s))"

definition sys_getpid :: "'a sched_state_scheme \<Rightarrow> int" where
  "sys_getpid s = t_pid (cur s)"

definition sys_getppid :: "'a sched_state_scheme \<Rightarrow> int" where
  "sys_getppid s = t_father (cur s)"

definition sys_getuid :: "'a sched_state_scheme \<Rightarrow> int" where
  "sys_getuid s = uint (t_uid (cur s))"

definition sys_geteuid :: "'a sched_state_scheme \<Rightarrow> int" where
  "sys_geteuid s = uint (t_euid (cur s))"

definition sys_getgid :: "'a sched_state_scheme \<Rightarrow> int" where
  "sys_getgid s = uint (t_gid (cur s))"

definition sys_getegid :: "'a sched_state_scheme \<Rightarrow> int" where
  "sys_getegid s = uint (t_egid (cur s))"

definition sys_nice :: "int \<Rightarrow> 'a sched_state_scheme \<Rightarrow> int \<times> 'a sched_state_scheme" where
  "sys_nice increment s =
     (0, if 0 < wrap32 (t_priority (cur s) - increment)
         then upd_cur (\<lambda>t. t\<lparr>t_priority := wrap32 (t_priority t - increment)\<rparr>) s else s)"

text \<open>
  \<^verbatim>\<open>set_tss_desc\<close> and \<^verbatim>\<open>set_ldt_desc\<close> fill entry \<open>n\<close> of the GDT; \<open>tss_addr\<close> and \<open>ldt_addr\<close>
  are the addresses of the two members of a task structure. \<^verbatim>\<open>sched_init\<close> sets up the
  descriptors of task 0, clears every other slot with its two descriptors, and
  programs the timer chip for \<^verbatim>\<open>HZ\<close> interrupts per second; its two interrupt gates are
  set in \<open>Main_Init\<close>.
\<close>

definition set_tssldt_desc :: "nat \<Rightarrow> u32 \<Rightarrow> u32 \<Rightarrow> 'a sched_state_scheme \<Rightarrow> 'a sched_state_scheme" where
  "set_tssldt_desc n addr type s =
     s\<lparr>gdt := (gdt s)(n :=
         \<lparr>desc_a = 104 OR push_bit 16 addr,
          desc_b = (drop_bit 16 addr AND 0xFF) OR push_bit 8 type OR (addr AND 0xFF000000)\<rparr>)\<rparr>"

definition FIRST_TSS_ENTRY :: nat where "FIRST_TSS_ENTRY = 4"
definition FIRST_LDT_ENTRY :: nat where "FIRST_LDT_ENTRY = 5"

definition tss_addr :: "u32 \<Rightarrow> u32" where
  "tss_addr p = p + 744"

definition ldt_addr :: "u32 \<Rightarrow> u32" where
  "ldt_addr p = p + 720"

definition clear_slot :: "nat \<Rightarrow> 'a sched_state_scheme \<Rightarrow> 'a sched_state_scheme" where
  "clear_slot i s =
     s\<lparr>task := (task s)(i := 0),
       gdt := (gdt s)(FIRST_TSS_ENTRY + 2 * i := \<lparr>desc_a = 0, desc_b = 0\<rparr>,
                      FIRST_LDT_ENTRY + 2 * i := \<lparr>desc_a = 0, desc_b = 0\<rparr>)\<rparr>"

definition LATCH :: nat where
  "LATCH = 1193180 div nat HZ"

definition sched_init :: "'a sched_state_scheme \<Rightarrow> 'a sched_state_scheme" where
  "sched_init s =
     (let s = set_tssldt_desc FIRST_TSS_ENTRY (tss_addr (init_task s)) 0x89 s;
          s = set_tssldt_desc FIRST_LDT_ENTRY (ldt_addr (init_task s)) 0x82 s;
          s = fold clear_slot [1..<NR_TASKS] s;
          s = outb 0x36 0x43 s;
          s = outb (of_nat (LATCH mod 256)) 0x40 s;
          s = outb (of_nat (LATCH div 256)) 0x40 s
      in outb (in_ports s 0x21 AND NOT 1) 0x21 s)"



subsection \<open>Loops over the task table\<close>

text \<open>
  Both loops of \<^verbatim>\<open>schedule\<close> that write to the tasks apply one function to every task of
  the table. As no task occurs in two slots, the loop is a simultaneous update.
\<close>

definition each_slot ::
  "(task_struct \<Rightarrow> task_struct) \<Rightarrow> nat \<Rightarrow> 'a sched_state_scheme \<Rightarrow> 'a sched_state_scheme" where
  "each_slot f i s = (if task s i = 0 then s else upd_task (task s i) f s)"

definition slots_distinct :: "'a sched_state_scheme \<Rightarrow> bool" where
  "slots_distinct s \<longleftrightarrow> inj_on (task s) {i. i < NR_TASKS \<and> task s i \<noteq> 0}"

definition live :: "'a sched_state_scheme \<Rightarrow> nat \<Rightarrow> bool" where
  "live s i \<longleftrightarrow> 0 < i \<and> i < NR_TASKS \<and> task s i \<noteq> 0"

lemma upd_task_simps [simp]:
  "task (upd_task p f s) = task s" "current (upd_task p f s) = current s"
  "jiffies (upd_task p f s) = jiffies s" "init_task (upd_task p f s) = init_task s"
  "tasks (upd_task p f s) = (tasks s)(p := f (tasks s p))"
  "wait_head (upd_task p f s) = wait_head s" "timer_list (upd_task p f s) = timer_list s"
  "next_timer (upd_task p f s) = next_timer s" "mem_map (upd_task p f s) = mem_map s"
  "phys (upd_task p f s) = phys s" "HIGH_MEMORY (upd_task p f s) = HIGH_MEMORY s"
  "last_pid (upd_task p f s) = last_pid s" "fs_mem (upd_task p f s) = fs_mem s"
  by (simp_all add: upd_task_def)

lemma fold_each_slot:
  assumes "distinct is" "inj_on (task s) {i \<in> set is. task s i \<noteq> 0}"
  shows "fold (each_slot f) is s =
    s\<lparr>tasks := \<lambda>p. if p \<noteq> 0 \<and> p \<in> task s ` set is then f (tasks s p) else tasks s p\<rparr>"
  using assms
proof (induction "is" arbitrary: s)
  case Nil
  then show ?case by simp
next
  case (Cons i xs)
  let ?s = "each_slot f i s"
  have tk: "task ?s = task s" by (simp add: each_slot_def)
  have "inj_on (task ?s) {i \<in> set xs. task ?s i \<noteq> 0}"
    unfolding tk by (rule inj_on_subset [OF Cons.prems(2)]) auto
  then have ih: "fold (each_slot f) xs ?s =
    ?s\<lparr>tasks := \<lambda>p. if p \<noteq> 0 \<and> p \<in> task s ` set xs then f (tasks ?s p) else tasks ?s p\<rparr>"
    using Cons.IH [of ?s] Cons.prems(1) tk by simp
  have "task s i \<notin> task s ` set xs" if "task s i \<noteq> 0"
  proof
    assume "task s i \<in> task s ` set xs"
    then obtain x where x: "x \<in> set xs" "task s i = task s x" by blast
    then have "i = x" using Cons.prems(2) that by (intro inj_onD [OF Cons.prems(2)]) auto
    then show False using Cons.prems(1) x by simp
  qed
  then show ?case
    unfolding fold_simps ih by (cases "task s i = 0") (auto simp: each_slot_def upd_task_def fun_eq_iff)
qed

lemma slots_down_props: "distinct slots_down" "set slots_down = {i. 0 < i \<and> i < NR_TASKS}"
  by (auto simp: slots_down_def)

lemma fold_slots_down:
  assumes "slots_distinct s"
  shows "fold (each_slot f) slots_down s =
    s\<lparr>tasks := \<lambda>p. if \<exists>i. live s i \<and> p = task s i then f (tasks s p) else tasks s p\<rparr>"
proof -
  have "inj_on (task s) {i \<in> set slots_down. task s i \<noteq> 0}"
    using assms unfolding slots_distinct_def by (rule inj_on_subset) (auto simp: slots_down_props)
  from fold_each_slot [OF slots_down_props(1) this, of f] show ?thesis
    by (simp add: slots_down_props live_def image_iff) (metis (no_types, lifting))
qed

text \<open>What the first loop does to a task at time \<open>j\<close>, and the second one.\<close>

definition alarm_due :: "int \<Rightarrow> task_struct \<Rightarrow> task_struct" where
  "alarm_due j t = (if t_alarm t \<noteq> 0 \<and> t_alarm t < j
     then t\<lparr>t_signal := t_signal t OR sig_bit SIGALRM, t_alarm := 0\<rparr> else t)"

definition pending :: "task_struct \<Rightarrow> bool" where
  "pending t \<longleftrightarrow> t_signal t AND NOT (BLOCKABLE AND t_blocked t) \<noteq> 0"

definition signal_wake :: "int \<Rightarrow> task_struct \<Rightarrow> task_struct" where
  "signal_wake j t = (let t = alarm_due j t
     in if pending t \<and> t_state t = TASK_INTERRUPTIBLE then t\<lparr>t_state := TASK_RUNNING\<rparr> else t)"

definition refill :: "task_struct \<Rightarrow> task_struct" where
  "refill t = t\<lparr>t_counter := wrap32 (t_counter t div 2 + t_priority t)\<rparr>"

lemma upd_task_twice: "upd_task p g (upd_task p f s) = upd_task p (g \<circ> f) s"
  by (simp add: upd_task_def)

lemma check_alarm_each: "check_alarm i s = each_slot (signal_wake (jiffies s)) i s"
  by (auto simp: check_alarm_def each_slot_def signal_wake_def alarm_due_def pending_def Let_def
      upd_task_def fun_eq_iff)

lemma fold_check_alarm: "fold check_alarm is s = fold (each_slot (signal_wake (jiffies s))) is s"
proof (induction "is" arbitrary: s)
  case (Cons i xs)
  have "jiffies (each_slot f i s) = jiffies s" for f by (simp add: each_slot_def)
  then show ?case using Cons by (simp add: check_alarm_each)
qed simp

lemma refill_slot_each: "refill_slot = each_slot refill"
  by (auto simp: refill_slot_def each_slot_def refill_def upd_task_def Let_def fun_eq_iff)



subsection \<open>The choice\<close>

definition runnable :: "'a sched_state_scheme \<Rightarrow> nat \<Rightarrow> bool" where
  "runnable s i \<longleftrightarrow> live s i \<and> t_state (tasks s (task s i)) = TASK_RUNNING"

abbreviation counter_of :: "'a sched_state_scheme \<Rightarrow> nat \<Rightarrow> int" where
  "counter_of s i \<equiv> t_counter (tasks s (task s i))"

lemma pick_slot_eq:
  "0 < i \<Longrightarrow> i < NR_TASKS \<Longrightarrow>
     pick_slot s i cn = (if runnable s i \<and> fst cn < counter_of s i then (counter_of s i, i) else cn)"
  by (simp add: pick_slot_def runnable_def live_def Let_def)

lemma fold_pick_slot:
  assumes "\<forall>i\<in>set is. 0 < i \<and> i < NR_TASKS" "fold (pick_slot s) is (c, n) = (c', n')"
  shows "(\<forall>i\<in>set is. runnable s i \<longrightarrow> counter_of s i \<le> c') \<and>
         ((c', n') = (c, n) \<or> c < c' \<and> n' \<in> set is \<and> runnable s n' \<and> c' = counter_of s n')"
  using assms
proof (induction "is" arbitrary: c n)
  case (Cons i xs)
  show ?case
  proof (cases "runnable s i \<and> c < counter_of s i")
    case True
    then show ?thesis using Cons.IH [of "counter_of s i" i] Cons.prems by (auto simp: pick_slot_eq)
  next
    case False
    then show ?thesis using Cons.IH [of c n] Cons.prems by (auto simp: pick_slot_eq)
  qed
qed simp

text \<open>A runnable task with the largest time slice, or task 0 when nothing is runnable.\<close>

definition chosen :: "'a sched_state_scheme \<Rightarrow> nat \<Rightarrow> bool" where
  "chosen s n \<longleftrightarrow>
     (if \<exists>i. runnable s i
      then runnable s n \<and> (\<forall>i. runnable s i \<longrightarrow> counter_of s i \<le> counter_of s n)
      else n = 0)"

definition slices_ok :: "'a sched_state_scheme \<Rightarrow> bool" where
  "slices_ok s \<longleftrightarrow> (\<forall>i. live s i \<longrightarrow>
     (let t = tasks s (task s i)
      in 0 < t_priority t \<and> t_priority t < 2 ^ 29 \<and> 0 \<le> t_counter t \<and> t_counter t \<le> 2 * t_priority t))"

lemma pick_chosen:
  assumes "slices_ok s" "pick s = (c, n)"
  shows "chosen s n" and "c = 0 \<Longrightarrow> \<exists>i. runnable s i"
    and "c \<noteq> 0 \<Longrightarrow> runnable s n \<Longrightarrow> 0 < counter_of s n"
proof -
  have p: "(\<forall>i\<in>set slots_down. runnable s i \<longrightarrow> counter_of s i \<le> c) \<and>
           ((c, n) = (- 1, 0) \<or> - 1 < c \<and> n \<in> set slots_down \<and> runnable s n \<and> c = counter_of s n)"
    using assms(2) by (intro fold_pick_slot) (auto simp: pick_def slots_down_props)
  have nn: "0 \<le> counter_of s i" if "runnable s i" for i
    using assms(1) that by (simp add: slices_ok_def runnable_def Let_def)
  have rs: "i \<in> set slots_down" if "runnable s i" for i
    using that by (simp add: runnable_def live_def slots_down_props)
  show "chosen s n" using p nn rs by (fastforce simp: chosen_def)
  show "\<exists>i. runnable s i" if "c = 0" using p that by auto
  show "0 < counter_of s n" if "c \<noteq> 0" "runnable s n"
    using p that nn rs by (fastforce simp: runnable_def live_def)
qed

lemma refill_all:
  assumes "slots_distinct s" "slices_ok s"
  defines "t \<equiv> fold refill_slot slots_down s"
  shows "task t = task s" "current t = current s" "jiffies t = jiffies s"
    "runnable t i = runnable s i" "live t i = live s i"
    "slots_distinct t" "slices_ok t" "live s i \<Longrightarrow> 0 < counter_of t i"
    "t_state (tasks t p) = t_state (tasks s p)"
proof -
  have t: "t = s\<lparr>tasks := \<lambda>p. if \<exists>i. live s i \<and> p = task s i then refill (tasks s p) else tasks s p\<rparr>"
    unfolding t_def refill_slot_each by (rule fold_slots_down [OF assms(1)])
  show tk: "task t = task s" "current t = current s" "jiffies t = jiffies s" by (simp_all add: t)
  show lv: "live t i = live s i" for i by (simp add: live_def tk)
  show "t_state (tasks t p) = t_state (tasks s p)" for p by (simp add: t refill_def)
  then show "runnable t i = runnable s i" by (simp add: runnable_def lv tk)
  show "slots_distinct t" using assms(1) by (simp add: slots_distinct_def tk)
  have at: "tasks t (task s i) = refill (tasks s (task s i))" if "live s i" for i
    using that by (auto simp: t)
  have ctr: "counter_of t i = counter_of s i div 2 + t_priority (tasks s (task s i))"
    if "live s i" for i
  proof -
    have "0 < t_priority (tasks s (task s i)) \<and> t_priority (tasks s (task s i)) < 2 ^ 29 \<and>
        0 \<le> counter_of s i \<and> counter_of s i \<le> 2 * t_priority (tasks s (task s i))"
      using assms(2) that by (simp add: slices_ok_def Let_def)
    then have "wrap32 (counter_of s i div 2 + t_priority (tasks s (task s i))) =
        counter_of s i div 2 + t_priority (tasks s (task s i))" by (intro wrap32_id) auto
    then show ?thesis using at [OF that] tk by (simp add: refill_def)
  qed
  show "slices_ok t" unfolding slices_ok_def Let_def
  proof (intro allI impI)
    fix i assume "live t i"
    then have l: "live s i" by (simp add: lv)
    then have "t_priority (tasks t (task s i)) = t_priority (tasks s (task s i))"
      by (simp add: at refill_def)
    then show "0 < t_priority (tasks t (task t i)) \<and> t_priority (tasks t (task t i)) < 2 ^ 29 \<and>
        0 \<le> counter_of t i \<and> counter_of t i \<le> 2 * t_priority (tasks t (task t i))"
      using assms(2) l ctr [OF l] tk by (auto simp: slices_ok_def Let_def)
  qed
  show "0 < counter_of t i" if "live s i"
    using assms(2) that ctr [OF that] by (auto simp: slices_ok_def Let_def)
qed

lemma schedule_loop_2:
  assumes "slots_distinct s" "slices_ok s"
  shows "returns (schedule_loop (Suc (Suc n)) s) (\<lambda>m t.
     chosen t m \<and> (runnable t m \<longrightarrow> 0 < counter_of t m) \<and> task t = task s \<and> slots_distinct t \<and> slices_ok t \<and>
     (\<forall>p. t_state (tasks t p) = t_state (tasks s p)))"
proof -
  obtain c m where p: "pick s = (c, m)" by fastforce
  note ps = pick_chosen [OF assms(2) p]
  show ?thesis
  proof (cases "c = 0")
    case False
    then show ?thesis using ps p assms by simp
  next
    case True
    let ?t = "fold refill_slot slots_down s"
    note r = refill_all [OF assms]
    obtain i where "runnable s i" using ps(2) True by blast
    then have i: "runnable ?t i" "0 < counter_of ?t i" using r(4,8) by (auto simp: runnable_def)
    obtain c' m' where p': "pick ?t = (c', m')" by fastforce
    note ps' = pick_chosen [OF r(7) p']
    have "c' \<noteq> 0"
    proof
      assume "c' = 0"
      have "\<forall>i\<in>set slots_down. runnable ?t i \<longrightarrow> counter_of ?t i \<le> c'"
        using fold_pick_slot [of slots_down ?t "- 1" 0 c' m'] p' by (simp add: pick_def slots_down_props)
      then show False using i \<open>c' = 0\<close> by (fastforce simp: runnable_def live_def slots_down_props)
    qed
    then show ?thesis using ps' p p' True r by simp
  qed
qed


lemma check_alarm_all:
  assumes "slots_distinct s" "slices_ok s"
  defines "t \<equiv> fold check_alarm slots_down s"
  shows "task t = task s" "slots_distinct t" "slices_ok t" "live t i = live s i"
    "live s i \<Longrightarrow> tasks t (task s i) = signal_wake (jiffies s) (tasks s (task s i))"
proof -
  have t: "t = s\<lparr>tasks := \<lambda>p. if \<exists>i. live s i \<and> p = task s i
             then signal_wake (jiffies s) (tasks s p) else tasks s p\<rparr>"
    unfolding t_def fold_check_alarm by (rule fold_slots_down [OF assms(1)])
  show tk: "task t = task s" by (simp add: t)
  show lv: "live t i = live s i" for i by (simp add: live_def tk)
  show "slots_distinct t" using assms(1) by (simp add: slots_distinct_def tk)
  show at: "tasks t (task s i) = signal_wake (jiffies s) (tasks s (task s i))" if "live s i" for i
    using that by (auto simp: t)
  have "t_counter (signal_wake j u) = t_counter u" "t_priority (signal_wake j u) = t_priority u" for j u
    by (simp_all add: signal_wake_def alarm_due_def Let_def)
  then show "slices_ok t" using assms(2) by (simp add: slices_ok_def lv tk at Let_def)
qed

text \<open>
  C10: \<^verbatim>\<open>schedule\<close> always finds a task: its loop ends, every task that was interruptible and
  has a signal it does not block (an alarm that is due included) is runnable, and the
  processor goes to a runnable task with the largest remaining time slice, which is
  positive, or to task 0 when no task is runnable. Time slices stay between 0 and twice the priority.
\<close>

theorem schedule_picks:
  assumes "slots_distinct s" and "slices_ok s"
  shows "returns (schedule s) (\<lambda>_ t.
     \<exists>n. current t = task s n \<and> chosen t n \<and> (runnable t n \<longrightarrow> 0 < counter_of t n) \<and>
       task t = task s \<and> slices_ok t \<and>
       (\<forall>i. live s i \<longrightarrow> t_state (tasks t (task s i)) =
          (let u = tasks s (task s i)
           in if t_state u = TASK_INTERRUPTIBLE \<and> pending (alarm_due (jiffies s) u)
              then TASK_RUNNING else t_state u)))"
proof -
  let ?w = "fold check_alarm slots_down s"
  note c = check_alarm_all [OF assms]
  have st: "t_state (signal_wake j u) = (if t_state u = TASK_INTERRUPTIBLE \<and> pending (alarm_due j u)
      then TASK_RUNNING else t_state u)" for j u
    by (auto simp: signal_wake_def alarm_due_def Let_def)
  have fuel: "SCHED_FUEL = Suc (Suc 62)" by (simp add: SCHED_FUEL_def)
  have "returns (schedule_loop SCHED_FUEL ?w) (\<lambda>m t.
     chosen t m \<and> (runnable t m \<longrightarrow> 0 < counter_of t m) \<and> task t = task ?w \<and> slots_distinct t \<and> slices_ok t \<and>
     (\<forall>p. t_state (tasks t p) = t_state (tasks ?w p)))"
    unfolding fuel by (rule schedule_loop_2 [OF c(2,3)])
  then obtain m t where t: "schedule_loop SCHED_FUEL ?w = Done m t" "chosen t m" "slices_ok t"
      "runnable t m \<longrightarrow> 0 < counter_of t m" "task t = task s"
      "\<forall>p. t_state (tasks t p) = t_state (tasks ?w p)"
    by (auto simp: returns_iff c(1))
  have run: "runnable (switch_to m t) = runnable t" "live (switch_to m t) = live t"
    "tasks (switch_to m t) = tasks t" "task (switch_to m t) = task t"
    by (simp_all add: fun_eq_iff switch_to_def runnable_def live_def)
  have sw: "chosen (switch_to m t) m = chosen t m" "slices_ok (switch_to m t) = slices_ok t"
    by (simp_all add: chosen_def slices_ok_def run)
  have wk: "\<forall>i. live s i \<longrightarrow> t_state (tasks t (task s i)) =
      (let u = tasks s (task s i)
       in if t_state u = TASK_INTERRUPTIBLE \<and> pending (alarm_due (jiffies s) u)
          then TASK_RUNNING else t_state u)"
    using t(6) c(5) by (simp add: st Let_def)
  have "schedule s = Done () (switch_to m t)" by (simp add: schedule_def t(1))
  moreover have "current (switch_to m t) = task s m" by (simp add: switch_to_def t(5))
  ultimately show ?thesis using t(2-5) wk by (auto simp: sw run)
qed

text \<open>A table with task 0 and two more, the second one waiting with a pending signal.\<close>

definition demo_task :: "int \<Rightarrow> int \<Rightarrow> int \<Rightarrow> u32 \<Rightarrow> task_struct" where
  "demo_task p st ctr sg = (INIT_TASK 0x1000)\<lparr>t_pid := p, t_state := st, t_counter := ctr, t_signal := sg\<rparr>"

definition demo_sched :: sched_state where
  "demo_sched =
     \<lparr>mem_map = (\<lambda>_. 0), HIGH_MEMORY = 0x1000000, phys = (\<lambda>_. 0), klog = [],
      task = (\<lambda>_. 0)(0 := 0x1000, 1 := 0x200000, 2 := 0x300000),
      tasks = (\<lambda>_. INIT_TASK 0x1000)
        (0x200000 := demo_task 1 0 3 0, 0x300000 := demo_task 2 1 7 (sig_bit SIGHUP)),
      init_task = 0x1000, current = 0x200000, last_task_used_math = 0, fpu = (\<lambda>_. 0), jiffies = 50,
      startup_time = 0, last_pid = 2, wait_head = (\<lambda>_. 0),
      timer_list = (\<lambda>_. \<lparr>tm_jiffies = 0, tm_fn = 0, tm_next = None\<rparr>), next_timer = None,
      mon_timer = (\<lambda>_. 0), moff_timer = (\<lambda>_. 0), current_DOR = 0x0C, selected = 0, beepcount = 0,
      out_ports = [], in_ports = (\<lambda>_. 0), gdt = (\<lambda>_. \<lparr>desc_a = 0, desc_b = 0\<rparr>), fs_mem = (\<lambda>_. 0)\<rparr>"

lemma demo_sched_live: "live demo_sched i \<longleftrightarrow> i = 1 \<or> i = 2"
  by (auto simp: live_def demo_sched_def NR_TASKS_def)

lemma demo_sched_ok: "slots_distinct demo_sched" "slices_ok demo_sched"
proof -
  show "slots_distinct demo_sched"
    by (auto simp: slots_distinct_def inj_on_def demo_sched_def split: if_splits)
  show "slices_ok demo_sched"
    by (auto simp: slices_ok_def demo_sched_live Let_def)
      (simp_all add: demo_sched_def demo_task_def INIT_TASK_def)
qed

theorem schedule_picks_witness:
  "slots_distinct demo_sched \<and> slices_ok demo_sched \<and>
   returns (schedule demo_sched) (\<lambda>_ t. t_state (tasks t 0x300000) = TASK_RUNNING \<and> current t \<noteq> 0x1000)"
proof -
  have tk: "task demo_sched 1 = 0x200000" "task demo_sched 2 = 0x300000" by (simp_all add: demo_sched_def)
  have l: "live demo_sched 2" "live demo_sched 1" by (simp_all add: demo_sched_live)
  have st: "t_state (tasks demo_sched 0x300000) = TASK_INTERRUPTIBLE"
    "pending (alarm_due (jiffies demo_sched) (tasks demo_sched 0x300000))"
    by (simp_all add: demo_sched_def demo_task_def INIT_TASK_def TASK_INTERRUPTIBLE_def alarm_due_def
        pending_def sig_bit_def SIGHUP_def BLOCKABLE_def SIGKILL_def SIGSTOP_def)
  show ?thesis
    using demo_sched_ok schedule_picks [OF demo_sched_ok]
  proof (clarsimp elim!: returns_mono simp: Let_def)
    fix t :: sched_state and n
    assume a: "\<forall>i. live demo_sched i \<longrightarrow> t_state (tasks t (task demo_sched i)) =
        (if t_state (tasks demo_sched (task demo_sched i)) = TASK_INTERRUPTIBLE \<and>
            pending (alarm_due (jiffies demo_sched) (tasks demo_sched (task demo_sched i)))
         then TASK_RUNNING else t_state (tasks demo_sched (task demo_sched i)))"
      "chosen t n" "task t = task demo_sched" "current t = task demo_sched n"
    have r: "t_state (tasks t 0x300000) = TASK_RUNNING" using a(1) [rule_format, OF l(1)] st by (simp add: tk)
    have "runnable t 2" using r a(3) l(1) by (simp add: runnable_def live_def tk)
    then have "runnable t n" using a(2) by (auto simp: chosen_def split: if_splits)
    then have "live demo_sched n" using a(3) by (simp add: runnable_def live_def)
    then show "t_state (tasks t 0x300000) = TASK_RUNNING \<and> task demo_sched n \<noteq> 0x1000"
      using r tk by (auto simp: demo_sched_live)
  qed
qed



subsection \<open>The timer list as a sequence\<close>

text \<open>
  \<open>timer_chain tab h ps\<close>: following the links from \<open>h\<close> visits the slots \<open>ps\<close>. The contents
  of these slots, in order, are what the list means: a request expires when the ticks
  of all requests up to it have passed.
\<close>

fun timer_chain :: "(nat \<Rightarrow> timer_entry) \<Rightarrow> nat option \<Rightarrow> nat list \<Rightarrow> bool" where
  "timer_chain tab h [] \<longleftrightarrow> h = None"
| "timer_chain tab h (p # ps) \<longleftrightarrow> h = Some p \<and> timer_chain tab (tm_next (tab p)) ps"

definition requests :: "(nat \<Rightarrow> timer_entry) \<Rightarrow> nat list \<Rightarrow> (int \<times> u32) list" where
  "requests tab ps = map (\<lambda>p. (tm_jiffies (tab p), tm_fn (tab p))) ps"

definition timers_ok :: "'a sched_state_scheme \<Rightarrow> nat list \<Rightarrow> bool" where
  "timers_ok s ps \<longleftrightarrow> timer_chain (timer_list s) (next_timer s) ps \<and> distinct ps \<and>
     set ps = {p. p < TIME_REQUESTS \<and> tm_fn (timer_list s p) \<noteq> 0}"

text \<open>The insertion on the sequence.\<close>

fun insert_request :: "int \<times> u32 \<Rightarrow> (int \<times> u32) list \<Rightarrow> (int \<times> u32) list" where
  "insert_request r [] = [r]"
| "insert_request r (q # rs) =
     (if fst q < fst r then q # insert_request (fst r - fst q, snd r) rs else r # q # rs)"

lemma requests_simps [simp]:
  "requests tab [] = []"
  "requests tab (p # ps) = (tm_jiffies (tab p), tm_fn (tab p)) # requests tab ps"
  by (simp_all add: requests_def)

lemma requests_cong: "(\<And>p. p \<in> set ps \<Longrightarrow> tab' p = tab p) \<Longrightarrow> requests tab' ps = requests tab ps"
  by (simp add: requests_def)

lemma timer_chain_cong:
  "(\<And>p. p \<in> set ps \<Longrightarrow> tm_next (tab' p) = tm_next (tab p)) \<Longrightarrow>
     timer_chain tab' h ps = timer_chain tab h ps"
  by (induction ps arbitrary: h) auto

lemma timer_sink_insert:
  assumes "timer_chain tab (tm_next (tab p)) ps" "distinct (p # ps)" "length ps < n"
  shows "\<exists>tab'. timer_sink n p tab = Some tab' \<and>
     requests tab' (p # ps) = insert_request (tm_jiffies (tab p), tm_fn (tab p)) (requests tab ps) \<and>
     (\<forall>q. tm_next (tab' q) = tm_next (tab q)) \<and> (\<forall>q. q \<notin> set (p # ps) \<longrightarrow> tab' q = tab q)"
  using assms
proof (induction ps arbitrary: n p tab)
  case Nil
  then obtain m where "n = Suc m" by (cases n) auto
  then show ?case using Nil by simp
next
  case (Cons q ps)
  obtain m where n: "n = Suc m" using Cons.prems by (cases n) auto
  show ?case
  proof (cases "tm_jiffies (tab q) < tm_jiffies (tab p)")
    case False
    then show ?thesis using Cons.prems by (simp add: n)
  next
    case True
    define tb where "tb = tab(p := (tab p)\<lparr>tm_fn := tm_fn (tab q), tm_jiffies := tm_jiffies (tab q)\<rparr>,
      q := (tab q)\<lparr>tm_fn := tm_fn (tab p), tm_jiffies := tm_jiffies (tab p) - tm_jiffies (tab q)\<rparr>)"
    have nx: "tm_next (tb r) = tm_next (tab r)" for r by (simp add: tb_def)
    have run: "timer_sink n p tab = timer_sink m q tb"
      using True Cons.prems by (auto simp: n tb_def Let_def fun_upd_twist)
    have ps: "requests tb ps = requests tab ps" using Cons.prems(2) by (intro requests_cong) (auto simp: tb_def)
    have "timer_chain tb (tm_next (tb q)) ps"
      using Cons.prems(1) nx timer_chain_cong [of ps tb tab] by simp
    then obtain tab' where t: "timer_sink m q tb = Some tab'"
        "requests tab' (q # ps) = insert_request (tm_jiffies (tb q), tm_fn (tb q)) (requests tb ps)"
        "\<forall>r. tm_next (tab' r) = tm_next (tb r)" "\<forall>r. r \<notin> set (q # ps) \<longrightarrow> tab' r = tb r"
      using Cons.IH [of tb q m] Cons.prems(2,3) n by auto
    have pq: "p \<noteq> q" "p \<notin> set ps" "q \<notin> set ps" using Cons.prems(2) by auto
    have tb: "tm_jiffies (tb p) = tm_jiffies (tab q)" "tm_fn (tb p) = tm_fn (tab q)"
      "tm_jiffies (tb q) = tm_jiffies (tab p) - tm_jiffies (tab q)" "tm_fn (tb q) = tm_fn (tab p)"
      using pq by (simp_all add: tb_def)
    have "tab' p = tb p" using t(4) pq by simp
    then have "requests tab' (p # q # ps) = (tm_jiffies (tab q), tm_fn (tab q)) #
        insert_request (tm_jiffies (tab p) - tm_jiffies (tab q), tm_fn (tab p)) (requests tab ps)"
      using t(2) ps by (simp only: requests_simps tb)
    moreover have "tab' r = tab r" if "r \<notin> set (p # q # ps)" for r using that t(4) by (simp add: tb_def)
    ultimately show ?thesis using run t(1,3) nx True by (intro exI [of _ tab']) auto
  qed
qed


lemma find_free_slot:
  assumes "set ps = {p. p < TIME_REQUESTS \<and> tm_fn (tab p) \<noteq> 0}" "distinct ps" "length ps < TIME_REQUESTS"
  obtains p where "find (\<lambda>p. tm_fn (tab p) = 0) [0..<TIME_REQUESTS] = Some p" "p < TIME_REQUESTS" "p \<notin> set ps"
proof -
  have "card (set ps) < card {..<TIME_REQUESTS}" using assms(2,3) by (simp add: distinct_card)
  then have "\<not> {..<TIME_REQUESTS} \<subseteq> set ps" by (metis card_mono finite_set not_less)
  then obtain q where "q < TIME_REQUESTS" "tm_fn (tab q) = 0" using assms(1) by auto
  then have "find (\<lambda>p. tm_fn (tab p) = 0) [0..<TIME_REQUESTS] \<noteq> None" by (auto simp: find_None_iff)
  then obtain p where p: "find (\<lambda>p. tm_fn (tab p) = 0) [0..<TIME_REQUESTS] = Some p" by blast
  then have "p < TIME_REQUESTS" "tm_fn (tab p) = 0" by (auto simp: find_Some_iff)
  then show thesis using that [OF p] assms(1) by simp
qed

lemma insert_request_fns: "set (map snd (insert_request r rs)) = insert (snd r) (set (map snd rs))"
  by (induction rs arbitrary: r) auto

lemma requests_fns: "set (map snd (requests tab ps)) = (\<lambda>p. tm_fn (tab p)) ` set ps"
  by (auto simp: requests_def)

lemma add_timer_inserts:
  assumes ok: "timers_ok s ps" and "length ps < TIME_REQUESTS" and fn: "fn \<noteq> 0" "0 < jf"
  shows "\<exists>t ps'. add_timer run jf fn s = Done () t \<and> timers_ok t ps' \<and>
     requests (timer_list t) ps' = insert_request (jf, fn) (requests (timer_list s) ps)"
proof -
  have ps: "timer_chain (timer_list s) (next_timer s) ps" "distinct ps"
    "set ps = {p. p < TIME_REQUESTS \<and> tm_fn (timer_list s p) \<noteq> 0}" using ok by (simp_all add: timers_ok_def)
  obtain p where p: "find (\<lambda>p. tm_fn (timer_list s p) = 0) [0..<TIME_REQUESTS] = Some p"
      "p < TIME_REQUESTS" "p \<notin> set ps"
    by (rule find_free_slot [OF ps(3,2) assms(2)])
  define tb where "tb = (timer_list s)(p := \<lparr>tm_jiffies = jf, tm_fn = fn, tm_next = next_timer s\<rparr>)"
  have rq: "requests tb ps = requests (timer_list s) ps"
    using p by (intro requests_cong) (auto simp: tb_def)
  have "timer_chain tb (next_timer s) ps"
  proof (subst timer_chain_cong [of ps tb "timer_list s"])
    show "tm_next (tb q) = tm_next (timer_list s q)" if "q \<in> set ps" for q
      using that p(3) by (auto simp: tb_def)
  qed (rule ps(1))
  then have ch: "timer_chain tb (tm_next (tb p)) ps" by (simp add: tb_def)
  obtain tab' where t: "timer_sink (Suc TIME_REQUESTS) p tb = Some tab'"
      "requests tab' (p # ps) = insert_request (jf, fn) (requests (timer_list s) ps)"
      "\<forall>q. tm_next (tab' q) = tm_next (tb q)" "\<forall>q. q \<notin> set (p # ps) \<longrightarrow> tab' q = tb q"
    using timer_sink_insert [OF ch, of "Suc TIME_REQUESTS"] ps(2) p assms(2) rq by (auto simp: tb_def)
  define t' where "t' = s\<lparr>timer_list := tab', next_timer := Some p\<rparr>"
  have run: "add_timer run jf fn s = Done () t'"
    using fn p(1) t(1) by (simp add: add_timer_def Let_def tb_def t'_def del: timer_sink.simps)
  have "0 \<notin> (\<lambda>p. tm_fn (tab' p)) ` set (p # ps)"
    using fn(1) ps(3) insert_request_fns [of "(jf, fn)" "requests (timer_list s) ps"]
    by (simp only: requests_fns [symmetric] t(2)) (auto simp: requests_fns simp del: set_map)
  then have nz: "tm_fn (tab' q) \<noteq> 0" if "q \<in> set (p # ps)" for q using that by (auto simp: image_iff)
  have "timer_chain tab' (Some p) (p # ps)"
    using ch t(3) timer_chain_cong [of ps tab' tb] by simp
  moreover have "q \<in> set (p # ps) \<longleftrightarrow> q < TIME_REQUESTS \<and> tm_fn (tab' q) \<noteq> 0" for q
    using nz [of q] t(4) ps(3) p by (cases "q \<in> set (p # ps)") (auto simp: tb_def)
  ultimately have "timers_ok t' (p # ps)" using ps(2) p(3) by (auto simp: timers_ok_def t'_def)
  then show ?thesis using run t(2) by (intro exI [of _ t'] exI [of _ "p # ps"]) (simp add: t'_def)
qed

text \<open>Ticks from now until each request expires.\<close>

fun expiry :: "int \<Rightarrow> (int \<times> u32) list \<Rightarrow> (int \<times> u32) list" where
  "expiry a [] = []"
| "expiry a (r # rs) = (a + fst r, snd r) # expiry (a + fst r) rs"

lemma expiry_shift: "expiry (a + d) rs = map (\<lambda>(x, f). (x + d, f)) (expiry a rs)"
proof (induction rs arbitrary: a)
  case (Cons r rs)
  have "expiry (a + fst r + d) rs = map (\<lambda>(x, f). (x + d, f)) (expiry (a + fst r) rs)" by (rule Cons)
  then show ?case by (simp add: algebra_simps)
qed simp

lemma expiry_dec: "expiry (d - 1) rs = map (\<lambda>(x, f). (x - 1, f)) (expiry d rs)"
  using expiry_shift [of d "- 1" rs] by (simp only: diff_conv_add_uminus [symmetric])

lemma expiry_above: "\<forall>r\<in>set rs. 0 < fst r \<Longrightarrow> \<forall>x\<in>set (expiry a rs). a < fst x"
proof (induction rs arbitrary: a)
  case (Cons r rs)
  then have "\<forall>x\<in>set (expiry (a + fst r) rs). a + fst r < fst x" by simp
  then show ?case using Cons.prems by fastforce
qed simp

lemma expiry_insert:
  assumes "0 < j" "\<forall>r\<in>set rs. 0 < fst r"
  shows "expiry a (insert_request (j, f) rs) =
    (let early = filter (\<lambda>x. fst x < a + j) (expiry a rs);
         late = a + j - (if early = [] then a else fst (last early))
     in early @ (a + j, f) # map (\<lambda>(x, g). (x + late, g)) (filter (\<lambda>x. a + j \<le> fst x) (expiry a rs)))"
  using assms
proof (induction rs arbitrary: a j)
  case (Cons r rs)
  show ?case
  proof (cases "fst r < j")
    case True
    then show ?thesis using Cons.IH [of "j - fst r" "a + fst r"] Cons.prems by (simp add: Let_def)
  next
    case False
    have "\<forall>x\<in>set (expiry a (r # rs)). a + j \<le> fst x"
      using False expiry_above [of rs "a + fst r"] Cons.prems(2) by fastforce
    then have "filter (\<lambda>x. fst x < a + j) (expiry a (r # rs)) = []" "filter (\<lambda>x. a + j \<le> fst x) (expiry a (r # rs)) = expiry a (r # rs)"
      by (fastforce simp: filter_empty_conv filter_id_conv)+
    then show ?thesis
      using False expiry_shift [of "a + fst r" j rs] by (simp add: Let_def algebra_simps)
  qed
qed simp

text \<open>
  C12: \<^verbatim>\<open>add_timer\<close> with a positive delay and a free slot returns and keeps the list well
  formed. The new request comes behind exactly those that expire before it, and expires after exactly the
  requested number of ticks; those before it are not disturbed, but every request that was to
  expire at the same time or later is put off, by the ticks between the last request before the new one and the new one:
  the routine never subtracts the new request's share from its successor.
\<close>

theorem add_timer_expiry:
  assumes "timers_ok s ps" and "length ps < TIME_REQUESTS" and "fn \<noteq> 0" and "0 < jf"
    and "\<forall>r\<in>set (requests (timer_list s) ps). 0 < fst r"
  shows "\<exists>t ps'. add_timer run jf fn s = Done () t \<and> timers_ok t ps' \<and>
     expiry 0 (requests (timer_list t) ps') =
       (let old = expiry 0 (requests (timer_list s) ps);
            early = filter (\<lambda>r. fst r < jf) old;
            late = jf - (if early = [] then 0 else fst (last early))
        in early @ (jf, fn) # map (\<lambda>(x, g). (x + late, g)) (filter (\<lambda>r. jf \<le> fst r) old)) \<and>
     (\<forall>r\<in>set (requests (timer_list t) ps'). 0 < fst r)"
proof -
  obtain t ps' where t: "add_timer run jf fn s = Done () t" "timers_ok t ps'"
      "requests (timer_list t) ps' = insert_request (jf, fn) (requests (timer_list s) ps)"
    using add_timer_inserts [OF assms(1-4)] by blast
  have "0 < j \<Longrightarrow> \<forall>r\<in>set rs. 0 < fst r \<Longrightarrow> \<forall>r\<in>set (insert_request (j, f) rs). 0 < fst r" for j f and rs :: "(int \<times> u32) list"
  proof (induction rs arbitrary: j)
    case (Cons r rs)
    then show ?case using Cons.IH [of "j - fst r"] by simp
  qed simp
  then show ?thesis
    using t expiry_insert [OF assms(4,5), of 0 fn] assms(4,5) by (intro exI [of _ t] exI [of _ ps']) (simp add: Let_def)
qed

text \<open>Slot 3 is the only request, due in 10 ticks.\<close>

definition demo_timers :: sched_state where
  "demo_timers = demo_sched\<lparr>timer_list := (\<lambda>_. \<lparr>tm_jiffies = 0, tm_fn = 0, tm_next = None\<rparr>)
      (3 := \<lparr>tm_jiffies = 10, tm_fn = 7, tm_next = None\<rparr>), next_timer := Some 3\<rparr>"

lemma demo_timers_3 [simp]: "tm_jiffies (timer_list demo_timers 3) = 10" "tm_fn (timer_list demo_timers 3) = 7"
  by (simp_all add: demo_timers_def)

lemma demo_timers_ok: "timers_ok demo_timers [3]"
  by (auto simp: timers_ok_def demo_timers_def TIME_REQUESTS_def split: if_splits)

theorem add_timer_expiry_witness:
  "\<exists>t ps'. add_timer (\<lambda>_ u. u) 4 9 demo_timers = Done () t \<and> timers_ok t ps' \<and>
     expiry 0 (requests (timer_list t) ps') = [(4, 9), (14, 7)]"
proof -
  have h: "length [3::nat] < TIME_REQUESTS" "(9::u32) \<noteq> 0" "(0::int) < 4"
    "\<forall>r\<in>set (requests (timer_list demo_timers) [3]). 0 < fst r"
    by (simp_all add: TIME_REQUESTS_def)
  show ?thesis using add_timer_expiry [OF demo_timers_ok h(1-3) h(4), of "\<lambda>_ u. u"] by auto
qed


subsection \<open>One tick\<close>

lemma run_timers_stop:
  assumes "timers_ok s ps" "\<forall>r\<in>set (requests (timer_list s) ps). 0 < fst r"
  shows "run_timers (Suc n) run s = Done () s"
  using assms by (cases ps) (auto simp: timers_ok_def)

lemma expiry_head:
  assumes "\<forall>r\<in>set rs. 0 < fst r" "1 \<le> d"
  shows "filter (\<lambda>r. 1 < fst r) (expiry d rs) = expiry d rs" "filter (\<lambda>r. fst r \<le> 1) (expiry d rs) = []"
proof -
  have "\<forall>r\<in>set (expiry d rs). 1 < fst r" using assms
  proof (induction rs arbitrary: d)
    case (Cons r rs)
    then show ?case using Cons.IH [of "d + fst r"] by auto
  qed simp
  then show "filter (\<lambda>r. 1 < fst r) (expiry d rs) = expiry d rs" "filter (\<lambda>r. fst r \<le> 1) (expiry d rs) = []"
    by (auto simp: filter_id_conv filter_empty_conv)
qed

lemma timers_ok_tail:
  assumes "timers_ok s (p # ps)"
  shows "timers_ok (s\<lparr>timer_list := (timer_list s)(p := (timer_list s p)\<lparr>tm_jiffies := d, tm_fn := 0\<rparr>),
                     next_timer := tm_next (timer_list s p)\<rparr>) ps"
proof -
  let ?tab = "(timer_list s)(p := (timer_list s p)\<lparr>tm_jiffies := d, tm_fn := 0\<rparr>)"
  have a: "timer_chain (timer_list s) (tm_next (timer_list s p)) ps" "distinct (p # ps)"
    "set (p # ps) = {q. q < TIME_REQUESTS \<and> tm_fn (timer_list s q) \<noteq> 0}"
    using assms by (auto simp: timers_ok_def)
  have "timer_chain ?tab (tm_next (timer_list s p)) ps"
    using a(1) by (subst timer_chain_cong [of ps ?tab "timer_list s"]) auto
  moreover have "q \<in> set ps \<longleftrightarrow> q < TIME_REQUESTS \<and> tm_fn (?tab q) \<noteq> 0" for q
    using a(2) arg_cong [OF a(3), of "\<lambda>S. q \<in> S"] by (cases "q = p") simp_all
  then have "set ps = {q. q < TIME_REQUESTS \<and> tm_fn (?tab q) \<noteq> 0}" by blast
  ultimately show ?thesis using a(2) by (simp add: timers_ok_def)
qed

text \<open>
  One timer tick, for timer functions that do not touch the timer list: it returns,
  the functions that are due at this tick are run, in order, and no others, and every
  remaining request is one tick nearer.
\<close>

theorem timer_tick_fires:
  assumes ok: "timers_ok s ps" and pos: "\<forall>r\<in>set (requests (timer_list s) ps). 0 < fst r"
    and run: "\<forall>f u. timer_list (run f u) = timer_list u \<and> next_timer (run f u) = next_timer u"
  shows "\<exists>u t ps'. timer_tick run s = Done () t \<and> timers_ok t ps' \<and>
     (\<forall>r\<in>set (requests (timer_list t) ps'). 0 < fst r) \<and>
     t = fold run (map snd (filter (\<lambda>r. fst r \<le> 1) (expiry 0 (requests (timer_list s) ps)))) u \<and>
     tasks u = tasks s \<and>
     expiry 0 (requests (timer_list t) ps') =
       map (\<lambda>(x, f). (x - 1, f)) (filter (\<lambda>r. 1 < fst r) (expiry 0 (requests (timer_list s) ps)))"
proof (cases ps)
  case Nil
  then show ?thesis
    using ok by (intro exI [of _ s] exI [of _ "[]"]) (simp add: timers_ok_def timer_tick_def)
next
  case (Cons p qs)
  define d where "d = tm_jiffies (timer_list s p)"
  define fn where "fn = tm_fn (timer_list s p)"
  let ?dec = "s\<lparr>timer_list := (timer_list s)(p := (timer_list s p)\<lparr>tm_jiffies := d - 1\<rparr>)\<rparr>"
  have h: "next_timer s = Some p" "distinct (p # qs)" using ok Cons by (simp_all add: timers_ok_def)
  have tick: "timer_tick run s = run_timers (Suc TIME_REQUESTS) run ?dec"
    by (simp add: timer_tick_def h(1) d_def del: run_timers.simps)
  have d: "0 < d" and qpos: "\<forall>r\<in>set (requests (timer_list s) qs). 0 < fst r"
    using pos Cons by (auto simp: d_def)
  have rq: "requests tab qs = requests (timer_list s) qs" if "\<forall>q. q \<noteq> p \<longrightarrow> tab q = timer_list s q" for tab
    using h(2) that by (intro requests_cong) auto
  have ex: "expiry 0 (requests (timer_list s) ps) = (d, fn) # expiry d (requests (timer_list s) qs)"
    using Cons by (simp add: d_def fn_def)
  note hd = expiry_head [OF qpos, of d]
  show ?thesis
  proof (cases "d = 1")
    case False
    have ok': "timers_ok ?dec ps" using ok timer_chain_cong [of ps "timer_list ?dec" "timer_list s"]
      by (simp add: timers_ok_def Collect_conj_eq) (auto simp: Cons)
    have rq': "requests (timer_list ?dec) ps = (d - 1, fn) # requests (timer_list s) qs"
      using Cons rq [of "timer_list ?dec"] by (simp add: fn_def)
    then have "\<forall>r\<in>set (requests (timer_list ?dec) ps). 0 < fst r" using False d qpos by auto
    moreover have "timer_tick run s = Done () ?dec"
      unfolding tick by (rule run_timers_stop [OF ok' calculation])
    moreover have "expiry 0 (requests (timer_list ?dec) ps) =
        map (\<lambda>(x, f). (x - 1, f)) (expiry 0 (requests (timer_list s) ps))"
      unfolding rq' ex by (simp add: expiry_dec)
    ultimately show ?thesis
      using ok' False d hd by (intro exI [of _ ?dec] exI [of _ ps]) (auto simp: ex)
  next
    case True
    let ?u = "s\<lparr>timer_list := (timer_list s)(p := (timer_list s p)\<lparr>tm_jiffies := d - 1, tm_fn := 0\<rparr>),
               next_timer := tm_next (timer_list s p)\<rparr>"
    have "timers_ok ?u qs" using timers_ok_tail [of s p qs "d - 1"] ok Cons by simp
    then have ok': "timers_ok (run fn ?u) qs" using run by (simp add: timers_ok_def)
    have rq': "requests (timer_list (run fn ?u)) qs = requests (timer_list s) qs"
      using run by (intro rq) simp
    have "timer_tick run s = run_timers TIME_REQUESTS run (run fn ?u)"
      unfolding tick using True by (simp add: h(1) fn_def)
    moreover have "TIME_REQUESTS = Suc 63" by (simp add: TIME_REQUESTS_def)
    ultimately have "timer_tick run s = Done () (run fn ?u)"
      using run_timers_stop [OF ok', of 63 run] rq' qpos by simp
    moreover have "expiry 0 (requests (timer_list s) qs) =
        map (\<lambda>(x, f). (x - 1, f)) (expiry d (requests (timer_list s) qs))"
      using expiry_dec [of d "requests (timer_list s) qs"] True by simp
    ultimately show ?thesis
      using ok' rq' qpos hd True
      by (intro exI [of _ ?u] exI [of _ "run fn ?u"] exI [of _ qs]) (simp add: ex)
  qed
qed

theorem timer_tick_fires_witness:
  "\<exists>t ps'. timer_tick (\<lambda>f. outb (ucast f) 0) demo_timers = Done () t \<and>
     expiry 0 (requests (timer_list t) ps') = [(9, 7)]"
proof -
  have h: "\<forall>r\<in>set (requests (timer_list demo_timers) [3]). 0 < fst r"
    "\<forall>f u. timer_list (outb (ucast f) 0 u) = timer_list (u :: sched_state) \<and>
       next_timer (outb (ucast f) 0 u) = next_timer u" for f :: u32 and u
    by (simp_all add: outb_def)
  show ?thesis
    using timer_tick_fires [OF demo_timers_ok h] by auto
qed

end
