(* ===== verification/Sched_Fair.thy ===== *)
theory Sched_Fair
  imports Sched
begin

text \<open>
  The scheduler over time: calls of \<open>schedule\<close> with what the tasks do in between as a step relation, and the
  theorem that no runnable task waits for ever.
\<close>


subsection \<open>One choice and the time slices\<close>

lemma schedule_loop_counters:
  assumes "slots_distinct s" "slices_ok s" "runnable s i"
  shows "returns (schedule_loop (Suc (Suc n)) s) (\<lambda>m t.
     (\<forall>j. runnable t j = runnable s j) \<and> ((\<forall>j. counter_of t j = counter_of s j) \<or> counter_of s i = 0 \<and> 0 < counter_of t i))"
proof -
  obtain c m where p: "pick s = (c, m)" by fastforce
  show ?thesis
  proof (cases "c = 0")
    case False
    then show ?thesis by (simp add: p)
  next
    case True
    let ?t = "fold refill_slot slots_down s"
    note r = refill_all [OF assms(1,2)]
    have l: "live s i" using assms(3) by (simp add: runnable_def)
    have "\<forall>i\<in>set slots_down. runnable s i \<longrightarrow> counter_of s i \<le> c"
      using fold_pick_slot [of slots_down s "- 1" 0 c m] p by (simp add: pick_def slots_down_props)
    then have "counter_of s i \<le> 0" using assms(3) l True by (simp add: slots_down_props live_def)
    moreover have "0 \<le> counter_of s i" using assms(2) l by (simp add: slices_ok_def Let_def)
    ultimately have "counter_of s i = 0 \<and> 0 < counter_of ?t i" using r(8) [OF l] by simp
    moreover obtain c' m' where p': "pick ?t = (c', m')" by fastforce
    moreover have "c' \<noteq> 0"
    proof
      assume "c' = 0"
      have "\<forall>i\<in>set slots_down. runnable ?t i \<longrightarrow> counter_of ?t i \<le> c'"
        using fold_pick_slot [of slots_down ?t "- 1" 0 c' m'] p' by (simp add: pick_def slots_down_props)
      then show False using \<open>c' = 0\<close> r(4) r(8) [OF l] assms(3) l by (fastforce simp: slots_down_props live_def)
    qed
    ultimately show ?thesis using r(4) p True by simp
  qed
qed

text \<open>What a call of \<open>schedule\<close> does while task \<open>i\<close> is runnable.\<close>

definition next_task :: "'a sched_state_scheme \<Rightarrow> nat \<Rightarrow> 'a sched_state_scheme \<Rightarrow> nat \<Rightarrow> bool" where
  "next_task s i t n \<longleftrightarrow> current t = task s n \<and> runnable t n \<and> 0 < counter_of t n \<and> task t = task s \<and> slices_ok t \<and> runnable t i \<and>
     ((\<forall>j. live s j \<longrightarrow> counter_of t j = counter_of s j) \<or> counter_of s i = 0 \<and> 0 < counter_of t i)"

lemma schedule_counters:
  assumes "slots_distinct s" "slices_ok s" "runnable s i"
  shows "\<exists>t n. schedule s = Done () t \<and> next_task s i t n"
proof -
  let ?w = "fold check_alarm slots_down s"
  note c = check_alarm_all [OF assms(1,2)]
  have wake: "t_counter (signal_wake j u) = t_counter u" "t_state u = TASK_RUNNING \<Longrightarrow> t_state (signal_wake j u) = TASK_RUNNING" for j u
    by (simp_all add: signal_wake_def alarm_due_def Let_def)
  have ctr: "counter_of ?w j = counter_of s j" if "live s j" for j using c(5) [OF that] by (simp add: c(1) wake)
  have l: "live s i" using assms(3) by (simp add: runnable_def)
  have run: "runnable ?w i" using assms(3) c(1,4) c(5) [OF l] wake(2) by (simp add: runnable_def)
  have fuel: "SCHED_FUEL = Suc (Suc 62)" by (simp add: SCHED_FUEL_def)
  obtain m t where t: "schedule_loop SCHED_FUEL ?w = Done m t" "chosen t m" "slices_ok t" "runnable t m \<longrightarrow> 0 < counter_of t m" "task t = task s"
    using schedule_loop_2 [OF c(2,3), of 62] unfolding fuel by (auto simp: returns_iff c(1))
  have t2: "runnable t i" "(\<forall>j. counter_of t j = counter_of ?w j) \<or> counter_of ?w i = 0 \<and> 0 < counter_of t i"
    using schedule_loop_counters [OF c(2,3) run, of 62] t(1) run unfolding fuel by (auto simp: returns_iff)
  have "runnable t m" using t(2) t2(1) by (auto simp: chosen_def split: if_splits)
  moreover have "schedule s = Done () (switch_to m t)" by (simp add: schedule_def t(1))
  moreover have "runnable (switch_to m t) j = runnable t j" "slices_ok (switch_to m t) = slices_ok t" for j
    by (simp_all add: switch_to_def runnable_def live_def slices_ok_def)
  ultimately show ?thesis using t t2 ctr ctr [OF l]
    by (intro exI [of _ "switch_to m t"] exI [of _ m]) (auto simp: next_task_def switch_to_def t(5))
qed


subsection \<open>Turns\<close>

text \<open>
  Between two calls of \<open>schedule\<close> the task that has the processor may use up a part of its time slice, and the slices of the others
  stay; slots may be emptied; states, signals and alarms may change. No slot is filled: a new task starts with a time slice of
  its own, and a chain of tasks that each make the next one keeps the processor for ever.
\<close>

definition slice_used :: "'a sched_state_scheme \<Rightarrow> 'a sched_state_scheme \<Rightarrow> bool" where
  "slice_used t u \<longleftrightarrow> (\<forall>j. task u j = task t j \<or> task u j = 0) \<and> slices_ok u \<and>
     (\<forall>j. live u j \<longrightarrow> (if task t j = current t then counter_of u j \<le> counter_of t j else counter_of u j = counter_of t j))"

inductive turn :: "'a sched_state_scheme \<Rightarrow> 'a sched_state_scheme \<Rightarrow> bool" where
  turn: "schedule s = Done () t \<Longrightarrow> slice_used t u \<Longrightarrow> turn s u"

inductive_cases turnE: "turn s u"

text \<open>The clock has taken a tick of the slice of the task that got the processor.\<close>

definition ticked :: "'a sched_state_scheme \<Rightarrow> 'a sched_state_scheme \<Rightarrow> bool" where
  "ticked s u \<longleftrightarrow> (\<exists>t j. schedule s = Done () t \<and> live u j \<and> task t j = current t \<and> counter_of u j < counter_of t j)"

text \<open>A tick of the clock in the kernel, with no timer due, is such a use of the slice.\<close>

lemma upd_cur_tick:
  assumes "slices_ok t" "live t n" "current t = task t n" "0 < counter_of t n"
    and u: "task u = task t" "current u = current t"
      "\<forall>p. t_counter (tasks u p) = (if p = current t then t_counter (tasks t p) - 1 else t_counter (tasks t p)) \<and>
        t_priority (tasks u p) = t_priority (tasks t p)"
  shows "slice_used t u \<and> live u n \<and> counter_of u n < counter_of t n"
proof -
  have "live u j = live t j" for j by (simp add: live_def u(1))
  then have "slices_ok u" using assms(1,4) unfolding slices_ok_def Let_def u(1)
    by (auto simp: u(3) assms(3))
  then show ?thesis using assms(2) by (auto simp: slice_used_def u assms(3) live_def)
qed

lemma do_timer_slice:
  assumes "slices_ok t" "live t n" "current t = task t n" "0 < counter_of t n"
    and "next_timer t = None" "beepcount t = 0" "current_DOR t AND 0xF0 = 0" "cpl = 0 \<or> 1 < counter_of t n"
  shows "returns (do_timer run sysbeepstop e cpl t) (\<lambda>_ u. slice_used t u \<and> live u n \<and> counter_of u n < counter_of t n)"
proof -
  let ?dec = "\<lambda>u. upd_cur (\<lambda>t. t\<lparr>t_counter := t_counter t - 1\<rparr>) u"
  let ?f = "if cpl \<noteq> 0 then (\<lambda>t. t\<lparr>t_utime := t_utime t + 1\<rparr>) else (\<lambda>t. t\<lparr>t_stime := t_stime t + 1\<rparr>)"
  let ?u = "?dec (upd_cur ?f t)"
  have used: "slice_used t ?u \<and> live ?u n \<and> counter_of ?u n < counter_of t n"
    by (rule upd_cur_tick [OF assms(1-4)]) auto
  have ctr: "t_counter (cur ?u) = counter_of t n - 1" using assms(3) by auto
  have "upd_cur (\<lambda>t. t\<lparr>t_counter := 0\<rparr>) ?u = ?u" if "t_counter (cur ?u) = 0"
    using that by (auto simp: upd_task_def fun_eq_iff)
  moreover have "do_timer run sysbeepstop e cpl t = (if 0 < t_counter (cur ?u) then Done () ?u
      else let s = upd_cur (\<lambda>t. t\<lparr>t_counter := 0\<rparr>) ?u in if cpl = 0 then Done () s else reschedule e s)"
    using assms(5-7) by (simp add: do_timer_def timer_tick_def Let_def upd_task_def)
  ultimately have "do_timer run sysbeepstop e cpl t = Done () ?u"
    using assms(4,8) ctr by (cases "0 < t_counter (cur ?u)") (simp_all add: Let_def del: upd_task_simps)
  then show ?thesis using used by simp
qed

text \<open>
  The time slices the other tasks have left, and whether task \<open>i\<close> has one; no turn without \<open>i\<close> raises the pair, and one
  with a tick lowers it.
\<close>

definition others_left :: "'a sched_state_scheme \<Rightarrow> nat \<Rightarrow> nat" where
  "others_left s i = (\<Sum>j<NR_TASKS. if live s j \<and> j \<noteq> i then nat (counter_of s j) else 0)"

definition waits :: "'a sched_state_scheme \<Rightarrow> nat \<Rightarrow> nat \<times> nat" where
  "waits s i = ((if counter_of s i = 0 then 1 else 0), others_left s i)"

lemma others_left_le:
  assumes "\<And>j. live u j \<Longrightarrow> j \<noteq> i \<Longrightarrow> live s j \<and> 0 \<le> counter_of u j \<and> counter_of u j \<le> counter_of s j"
  shows "others_left u i \<le> others_left s i"
    "live u n \<Longrightarrow> n \<noteq> i \<Longrightarrow> counter_of u n < counter_of s n \<Longrightarrow> others_left u i < others_left s i"
proof -
  let ?f = "\<lambda>s j. if live s j \<and> j \<noteq> i then nat (counter_of s j) else 0"
  have le: "?f u j \<le> ?f s j" for j using assms [of j] by (auto intro: nat_mono)
  show "others_left u i \<le> others_left s i" unfolding others_left_def by (rule sum_mono) (rule le)
  assume n: "live u n" "n \<noteq> i" "counter_of u n < counter_of s n"
  then have "?f u n < ?f s n" using assms [of n] by simp
  moreover have "n \<in> {..<NR_TASKS}" using n(1) by (simp add: live_def)
  ultimately show "others_left u i < others_left s i" unfolding others_left_def
    using le by (intro sum_strict_mono_ex1) (simp_all only: finite_lessThan, blast+)
qed

lemma turn_waits:
  assumes s: "slots_distinct s" "slices_ok s" "runnable s i" and step: "turn s u" and i: "runnable u i"
  shows "returns (schedule s) (\<lambda>_ t. current t = task s i) \<or>
    (waits u i = waits s i \<and> \<not> ticked s u \<or> (waits u i, waits s i) \<in> less_than <*lex*> less_than)"
proof -
  obtain t n where t: "schedule s = Done () t" "next_task s i t n" using schedule_counters [OF s] by blast
  from step t(1) have u: "slice_used t u" by (auto elim: turnE)
  have nt: "current t = task s n" "runnable t n" "task t = task s" "runnable t i"
    "(\<forall>j. live s j \<longrightarrow> counter_of t j = counter_of s j) \<or> counter_of s i = 0 \<and> 0 < counter_of t i"
    using t(2) by (auto simp: next_task_def)
  have l: "live t j = live s j" "live u j \<Longrightarrow> live s j" for j
  proof -
    show "live t j = live s j" by (simp add: live_def nt(3))
    have "task u j = task s j \<or> task u j = 0" using u by (simp add: slice_used_def nt(3))
    then show "live u j \<Longrightarrow> live s j" by (auto simp: live_def)
  qed
  have li: "live s i" "live s n" "live u i" using nt(2,4) i by (simp_all add: runnable_def l)
  show ?thesis
  proof (cases "n = i")
    case True
    then show ?thesis using t(1) nt(1) by simp
  next
    case False
    have same: "j = n" if "task s j = task s n" "live s j" for j
      using s(1) li that by (auto simp: slots_distinct_def live_def inj_on_def)
    have "task t i \<noteq> current t" using same [of i] li(1) False nt(1,3) by auto
    then have "t_counter (tasks u (task u i)) = t_counter (tasks t (task t i))" using u li(3) unfolding slice_used_def by (auto split: if_splits)
    then have ci: "counter_of u i = counter_of t i" by simp
    have le: "live s j \<and> 0 \<le> counter_of u j \<and> counter_of u j \<le> counter_of t j" if "live u j" for j
      using u that l(2) nt(1,3) by (auto simp: slice_used_def slices_ok_def Let_def split: if_splits)
    show ?thesis
    proof (cases "counter_of s i = 0 \<and> 0 < counter_of t i")
      case True
      then show ?thesis using ci by (simp add: waits_def)
    next
      case no: False
      then have eq: "counter_of t j = counter_of s j" if "live s j" for j using nt(5) that by blast
      have m: "live s j \<and> 0 \<le> counter_of u j \<and> counter_of u j \<le> counter_of s j" if "live u j" "j \<noteq> i" for j
        using le [OF that(1)] eq [of j] by metis
      have "others_left u i < others_left s i" if tick: "ticked s u"
      proof -
        obtain j where j: "live u j" "task t j = current t" "counter_of u j < counter_of t j" using tick t(1) by (auto simp: ticked_def)
        then have "j = n" using same l(2) nt(1,3) by simp
        moreover have "counter_of u j < counter_of s j" using j(3) eq [OF l(2) [OF j(1)]] by simp
        ultimately show ?thesis using others_left_le(2) [of u i s n] m j(1) False by blast
      qed
      moreover have "others_left u i \<le> others_left s i" using others_left_le(1) [of u i s] m by blast
      ultimately show ?thesis using ci eq [OF li(1)] by (auto simp: waits_def)
    qed
  qed
qed


subsection \<open>No task waits for ever\<close>

lemma turns_keep:
  assumes "slots_distinct (r 0)" "slices_ok (r 0)" "\<And>k. turn (r k) (r (Suc k))" "\<And>k. runnable (r k) i"
  shows "slots_distinct (r k) \<and> slices_ok (r k)"
proof (induction k)
  case (Suc k)
  obtain t n where t: "schedule (r k) = Done () t" "next_task (r k) i t n" using schedule_counters Suc.IH assms(4) by blast
  then have u: "slice_used t (r (Suc k))" using assms(3) [of k] by (auto elim: turnE)
  then have "task (r (Suc k)) j = task (r k) j \<or> task (r (Suc k)) j = 0" for j using t(2) by (auto simp: slice_used_def next_task_def)
  then have "inj_on (task (r (Suc k))) {j. j < NR_TASKS \<and> task (r (Suc k)) j \<noteq> 0}"
    using Suc.IH by (auto simp: slots_distinct_def inj_on_def) metis+
  then show ?case using u by (simp add: slice_used_def slots_distinct_def)
qed (use assms in simp)

text \<open>
  C11: among a set of tasks that does not grow, no runnable task starves. In any sequence of calls of \<^verbatim>\<open>schedule\<close> between
  which the task on the processor may use up some of its time slice and tasks may disappear, but none is made, and in which the clock
  goes on, that is, again and again takes a tick from the task on the processor, a task that is runnable at every call gets the
  processor again and again, whatever alarms, signals, sleeps and wake-ups the others see.
\<close>

theorem schedule_fair:
  assumes "slots_distinct (r 0)" "slices_ok (r 0)" "\<And>k. turn (r k) (r (Suc k))" "\<And>k. \<exists>l\<ge>k. ticked (r l) (r (Suc l))"
    and "\<And>k. runnable (r k) i"
  shows "\<exists>k\<ge>m. returns (schedule (r k)) (\<lambda>_ t. current t = task t i)"
proof (rule ccontr)
  assume never: "\<not> ?thesis"
  let ?R = "less_than <*lex*> less_than"
  have step: "waits (r (Suc k)) i = waits (r k) i \<and> \<not> ticked (r k) (r (Suc k)) \<or> (waits (r (Suc k)) i, waits (r k) i) \<in> ?R" if "m \<le> k" for k
  proof -
    note ok = turns_keep [of r, OF assms(1-3,5)]
    obtain t n where t: "schedule (r k) = Done () t" "next_task (r k) i t n" using schedule_counters ok assms(5) by blast
    have "\<not> returns (schedule (r k)) (\<lambda>_ t. current t = task t i)" using never that by blast
    then have "\<not> returns (schedule (r k)) (\<lambda>_ t. current t = task (r k) i)" using t by (simp add: next_task_def)
    then show ?thesis using turn_waits ok assms(3,5) by blast
  qed
  have "wf ?R" by (intro wf_lex_prod wf_less_than)
  then obtain x where x: "x \<in> (\<lambda>k. waits (r k) i) ` {m..}" "\<And>y. (y, x) \<in> ?R \<Longrightarrow> y \<notin> (\<lambda>k. waits (r k) i) ` {m..}"
    by (rule wfE_min [of ?R "waits (r m) i" "(\<lambda>k. waits (r k) i) ` {m..}"]) auto
  then obtain k where k: "m \<le> k" "x = waits (r k) i" by auto
  have const: "waits (r (k + d)) i = x" for d
  proof (induction d)
    case (Suc d)
    have "(waits (r (Suc (k + d))) i, x) \<notin> ?R" using x(2) [of "waits (r (Suc (k + d))) i"] k(1) by auto
    then show ?case using step [of "k + d"] Suc k(1) by auto
  qed (simp add: k(2))
  obtain l where l: "k \<le> l" "ticked (r l) (r (Suc l))" using assms(4) by blast
  have "waits (r l) i = x" "waits (r (Suc l)) i = x" using const [of "l - k"] const [of "Suc l - k"] l(1) by simp_all
  moreover have "wf (less_than <*lex*> less_than)" by (intro wf_lex_prod wf_less_than)
  ultimately show False using step [of l] l k(1) wf_not_refl [of _ x] by fastforce
qed

text \<open>The tasks of \<open>demo_sched\<close>, each using up one tick of its slice when it has the processor.\<close>

primrec demo_turns :: "nat \<Rightarrow> sched_state" where
  "demo_turns 0 = demo_sched"
| "demo_turns (Suc k) = (case schedule (demo_turns k) of
     Done _ t \<Rightarrow> upd_cur (\<lambda>t. t\<lparr>t_counter := t_counter t - 1\<rparr>) t | Stop _ t \<Rightarrow> t)"

declare demo_turns.simps(2) [simp del]

lemma demo_turns_ok: "slots_distinct (demo_turns k) \<and> slices_ok (demo_turns k) \<and> runnable (demo_turns k) 1"
  and demo_turns_turn: "turn (demo_turns k) (demo_turns (Suc k)) \<and> ticked (demo_turns k) (demo_turns (Suc k))"
proof -
  have go: "turn (demo_turns k) (demo_turns (Suc k)) \<and> ticked (demo_turns k) (demo_turns (Suc k)) \<and>
      slots_distinct (demo_turns (Suc k)) \<and> slices_ok (demo_turns (Suc k)) \<and> runnable (demo_turns (Suc k)) 1"
    if fine: "slots_distinct (demo_turns k) \<and> slices_ok (demo_turns k) \<and> runnable (demo_turns k) 1" for k
  proof -
    obtain t n where t: "schedule (demo_turns k) = Done () t" "next_task (demo_turns k) 1 t n" using schedule_counters fine by blast
    have u: "demo_turns (Suc k) = upd_cur (\<lambda>t. t\<lparr>t_counter := t_counter t - 1\<rparr>) t" by (simp add: t(1) demo_turns.simps(2))
    have n: "slices_ok t" "live t n" "current t = task t n" "0 < counter_of t n" using t(2) by (auto simp: next_task_def runnable_def)
    have tick: "slice_used t (demo_turns (Suc k)) \<and> live (demo_turns (Suc k)) n \<and> counter_of (demo_turns (Suc k)) n < counter_of t n"
      by (rule upd_cur_tick [OF n]) (auto simp: u)
    then have "turn (demo_turns k) (demo_turns (Suc k))" "slices_ok (demo_turns (Suc k))"
      using turn.turn [OF t(1)] by (auto simp: slice_used_def)
    moreover have "ticked (demo_turns k) (demo_turns (Suc k))" using tick t(1) n(3) by (auto simp: ticked_def)
    moreover have "slots_distinct (demo_turns (Suc k))" "runnable (demo_turns (Suc k)) 1"
      using t(2) fine by (auto simp: u next_task_def slots_distinct_def runnable_def live_def)
    ultimately show ?thesis by blast
  qed
  show ok: "slots_distinct (demo_turns k) \<and> slices_ok (demo_turns k) \<and> runnable (demo_turns k) 1" for k
  proof (induction k)
    case 0
    have "runnable demo_sched 1" by (simp add: runnable_def demo_sched_live) (simp add: demo_sched_def demo_task_def TASK_RUNNING_def)
    then show ?case using demo_sched_ok by simp
  qed (use go in blast)
  show "turn (demo_turns k) (demo_turns (Suc k)) \<and> ticked (demo_turns k) (demo_turns (Suc k))" using go [OF ok] by blast
qed

theorem schedule_fair_witness: "\<exists>k\<ge>10. returns (schedule (demo_turns k)) (\<lambda>_ t. current t = task t 1)"
  by (rule schedule_fair) (use demo_turns_ok demo_turns_ok [of 0] demo_turns_turn in blast)+

end
