(* ===== verification/Proc_Calls.thy ===== *)
theory Proc_Calls
  imports Sched
begin

text \<open>
  System calls that work on task structures and user memory only: \<^verbatim>\<open>verify_area\<close> of
  \<^verbatim>\<open>kernel/fork.c\<close>, \<^verbatim>\<open>kernel/signal.c\<close>, \<^verbatim>\<open>kernel/sys.c\<close> and the sending of signals from
  \<^verbatim>\<open>kernel/exit.c\<close>.
\<close>


subsection \<open>verify_area\<close>

function verify_pages ::
  "int \<Rightarrow> u32 \<Rightarrow> 'a sched_state_scheme \<Rightarrow> (unit, 'a sched_state_scheme) outcome" where
  "verify_pages sz start s =
     (if 0 < sz then kbind (write_verify start s) (\<lambda>_ s. verify_pages (sz - 4096) (start + 4096) s)
      else Done () s)"
  by pat_completeness auto

termination
  by (relation "measure (\<lambda>(sz, _, _). nat sz)") auto

declare verify_pages.simps [simp del]

definition verify_area ::
  "u32 \<Rightarrow> int \<Rightarrow> 'a sched_state_scheme \<Rightarrow> (unit, 'a sched_state_scheme) outcome" where
  "verify_area addr sz s =
     (let sz = sz + uint (addr AND 0xFFF);
          start = (addr AND 0xFFFFF000) + get_base (t_ldt (cur s) 2)
      in verify_pages sz start s)"


subsection \<open>Signals\<close>

definition sys_sgetmask :: "'a sched_state_scheme \<Rightarrow> u32" where
  "sys_sgetmask s = t_blocked (cur s)"

definition sys_ssetmask :: "u32 \<Rightarrow> 'a sched_state_scheme \<Rightarrow> u32 \<times> 'a sched_state_scheme" where
  "sys_ssetmask newmask s =
     (t_blocked (cur s), upd_cur (\<lambda>t. t\<lparr>t_blocked := newmask AND NOT (sig_bit SIGKILL)\<rparr>) s)"

text \<open>The 16 bytes of a \<^verbatim>\<open>struct sigaction\<close> are four longwords in the order of its members.\<close>

definition save_old ::
  "sigaction \<Rightarrow> u32 \<Rightarrow> 'a sched_state_scheme \<Rightarrow> (unit, 'a sched_state_scheme) outcome" where
  "save_old from to s =
     kbind (verify_area to 16 s) (\<lambda>_ s.
     Done () (put_fs_long (sa_restorer from) (to + 12)
       (put_fs_long (sa_flags from) (to + 8)
         (put_fs_long (sa_mask from) (to + 4) (put_fs_long (sa_handler from) to s)))))"

definition get_new :: "u32 \<Rightarrow> 'a sched_state_scheme \<Rightarrow> sigaction" where
  "get_new from s =
     \<lparr>sa_handler = get_fs_long from s, sa_mask = get_fs_long (from + 4) s,
      sa_flags = get_fs_long (from + 8) s, sa_restorer = get_fs_long (from + 12) s\<rparr>"

definition set_action :: "int \<Rightarrow> sigaction \<Rightarrow> task_struct \<Rightarrow> task_struct" where
  "set_action signum sa t = t\<lparr>t_sigaction := (t_sigaction t)(nat (signum - 1) := sa)\<rparr>"

definition sys_signal ::
  "int \<Rightarrow> u32 \<Rightarrow> u32 \<Rightarrow> 'a sched_state_scheme \<Rightarrow> int \<times> 'a sched_state_scheme" where
  "sys_signal signum handler restorer s =
     (if signum < 1 \<or> 32 < signum \<or> signum = SIGKILL then (- 1, s)
      else let tmp = \<lparr>sa_handler = handler, sa_mask = 0, sa_flags = SA_ONESHOT OR SA_NOMASK,
                      sa_restorer = restorer\<rparr>;
               old = sa_handler (t_sigaction (cur s) (nat (signum - 1)))
           in (sint old, upd_cur (set_action signum tmp) s))"

definition sys_sigaction ::
  "int \<Rightarrow> u32 \<Rightarrow> u32 \<Rightarrow> 'a sched_state_scheme \<Rightarrow> (int, 'a sched_state_scheme) outcome" where
  "sys_sigaction signum action oldaction s =
     (if signum < 1 \<or> 32 < signum \<or> signum = SIGKILL then Done (- 1) s
      else let tmp = t_sigaction (cur s) (nat (signum - 1));
               s = upd_cur (set_action signum (get_new action s)) s
           in kbind (if oldaction \<noteq> 0 then save_old tmp oldaction s else Done () s) (\<lambda>_ s.
              let sa = t_sigaction (cur s) (nat (signum - 1));
                  sa = (if sa_flags sa AND SA_NOMASK \<noteq> 0 then sa\<lparr>sa_mask := 0\<rparr>
                        else sa\<lparr>sa_mask := sa_mask sa OR sig_bit signum\<rparr>)
              in Done 0 (upd_cur (set_action signum sa) s)))"

text \<open>
  \<^verbatim>\<open>do_signal\<close> rewrites the \<^verbatim>\<open>eip\<close> and \<^verbatim>\<open>esp\<close> the system call returns with; these two are
  its result. The frame it builds on the user stack is a list of longwords.
\<close>

fun put_fs_longs :: "u32 list \<Rightarrow> u32 \<Rightarrow> 'a sched_state_scheme \<Rightarrow> 'a sched_state_scheme" where
  "put_fs_longs [] addr s = s"
| "put_fs_longs (v # vs) addr s = put_fs_longs vs (addr + 4) (put_fs_long v addr s)"

definition do_signal ::
  "int \<Rightarrow> u32 \<Rightarrow> u32 \<Rightarrow> u32 \<Rightarrow> u32 \<Rightarrow> u32 \<Rightarrow> u32 \<Rightarrow> 'a sched_state_scheme \<Rightarrow>
   (u32 \<times> u32, 'a sched_state_scheme) outcome" where
  "do_signal signr eax ecx edx eip eflags esp s =
     (let sa = t_sigaction (cur s) (nat (signr - 1));
          handler = sa_handler sa
      in if handler = 1 then Done (eip, esp) s
         else if handler = 0 \<and> signr = SIGCHLD then Done (eip, esp) s
         else if handler = 0 then Stop (Do_Exit (wrap32 (2 ^ nat (signr - 1)))) s
         else let s = (if sa_flags sa AND SA_ONESHOT \<noteq> 0
                       then upd_cur (set_action signr (sa\<lparr>sa_handler := 0\<rparr>)) s else s);
                  nomask = (sa_flags sa AND SA_NOMASK \<noteq> 0);
                  longs = (if nomask then 7 else 8);
                  esp' = esp - of_int (4 * longs)
              in kbind (verify_area esp' (longs * 4) s) (\<lambda>_ s.
                 let frame =
                   [sa_restorer sa, of_int signr] @ (if nomask then [] else [t_blocked (cur s)]) @
                   [eax, ecx, edx, eflags, eip];
                     s = put_fs_longs frame esp' s
                 in Done (handler, esp') (upd_cur (\<lambda>t. t\<lparr>t_blocked := t_blocked t OR sa_mask sa\<rparr>) s)))"

definition send_sig ::
  "int \<Rightarrow> u32 \<Rightarrow> bool \<Rightarrow> 'a sched_state_scheme \<Rightarrow> int \<times> 'a sched_state_scheme" where
  "send_sig sig p priv s =
     (if p = 0 \<or> sig < 1 \<or> 32 < sig then (- EINVAL, s)
      else if priv \<or> t_euid (cur s) = t_euid (tasks s p) \<or> suser s
      then (0, upd_task p (\<lambda>t. t\<lparr>t_signal := t_signal t OR sig_bit sig\<rparr>) s)
      else (- EPERM, s))"

definition kill_session_slot :: "nat \<Rightarrow> 'a sched_state_scheme \<Rightarrow> 'a sched_state_scheme" where
  "kill_session_slot i s =
     (let p = task s i
      in if p \<noteq> 0 \<and> t_session (tasks s p) = t_session (cur s)
         then upd_task p (\<lambda>t. t\<lparr>t_signal := t_signal t OR sig_bit SIGHUP\<rparr>) s else s)"

definition kill_session :: "'a sched_state_scheme \<Rightarrow> 'a sched_state_scheme" where
  "kill_session s = fold kill_session_slot slots_down s"

text \<open>
  One slot of the loop of \<^verbatim>\<open>sys_kill\<close>; the four forms of the loop differ in the test and
  in \<^verbatim>\<open>priv\<close>. With \<^verbatim>\<open>pid == -1\<close> empty slots are not skipped.
\<close>

definition kill_match :: "int \<Rightarrow> 'a sched_state_scheme \<Rightarrow> u32 \<Rightarrow> bool" where
  "kill_match pid s p \<longleftrightarrow>
     (if pid = 0 then p \<noteq> 0 \<and> t_pgrp (tasks s p) = t_pid (cur s)
      else if 0 < pid then p \<noteq> 0 \<and> t_pid (tasks s p) = pid
      else if pid = - 1 then True
      else p \<noteq> 0 \<and> t_pgrp (tasks s p) = - pid)"

definition kill_slot ::
  "int \<Rightarrow> int \<Rightarrow> nat \<Rightarrow> int \<times> 'a sched_state_scheme \<Rightarrow> int \<times> 'a sched_state_scheme" where
  "kill_slot pid sig i rs =
     (let s = snd rs
      in if kill_match pid s (task s i)
         then let (err, s) = send_sig sig (task s i) (pid = 0) s
              in (if err \<noteq> 0 then err else fst rs, s)
         else rs)"

definition sys_kill :: "int \<Rightarrow> int \<Rightarrow> 'a sched_state_scheme \<Rightarrow> int \<times> 'a sched_state_scheme" where
  "sys_kill pid sig s = fold (kill_slot pid sig) slots_down (0, s)"


subsection \<open>Identity, time and limits\<close>

definition sys_setregid :: "int \<Rightarrow> int \<Rightarrow> 'a sched_state_scheme \<Rightarrow> int \<times> 'a sched_state_scheme" where
  "sys_setregid rgid egid s =
     (if 0 < rgid \<and> \<not> (uint (t_gid (cur s)) = rgid \<or> suser s) then (- EPERM, s)
      else let s = (if 0 < rgid then upd_cur (\<lambda>t. t\<lparr>t_gid := of_int rgid\<rparr>) s else s)
           in if 0 < egid
              then if uint (t_gid (cur s)) = egid \<or> uint (t_egid (cur s)) = egid \<or>
                      uint (t_sgid (cur s)) = egid \<or> suser s
                   then (0, upd_cur (\<lambda>t. t\<lparr>t_egid := of_int egid\<rparr>) s)
                   else (- EPERM, s)
              else (0, s))"

definition sys_setgid :: "int \<Rightarrow> 'a sched_state_scheme \<Rightarrow> int \<times> 'a sched_state_scheme" where
  "sys_setgid gid s = sys_setregid gid gid s"

definition sys_time :: "u32 \<Rightarrow> 'a sched_state_scheme \<Rightarrow> (int, 'a sched_state_scheme) outcome" where
  "sys_time tloc s =
     (let i = CURRENT_TIME s
      in if tloc \<noteq> 0
         then kbind (verify_area tloc 4 s) (\<lambda>_ s. Done i (put_fs_long (of_int i) tloc s))
         else Done i s)"

definition sys_setreuid :: "int \<Rightarrow> int \<Rightarrow> 'a sched_state_scheme \<Rightarrow> int \<times> 'a sched_state_scheme" where
  "sys_setreuid ruid euid s =
     (let old_ruid = t_uid (cur s)
      in if 0 < ruid \<and> \<not> (uint (t_euid (cur s)) = ruid \<or> uint old_ruid = ruid \<or> suser s) then (- EPERM, s)
         else let s = (if 0 < ruid then upd_cur (\<lambda>t. t\<lparr>t_uid := of_int ruid\<rparr>) s else s)
              in if 0 < euid
                 then if uint old_ruid = euid \<or> uint (t_euid (cur s)) = euid \<or> suser s
                      then (0, upd_cur (\<lambda>t. t\<lparr>t_euid := of_int euid\<rparr>) s)
                      else (- EPERM, upd_cur (\<lambda>t. t\<lparr>t_uid := old_ruid\<rparr>) s)
                 else (0, s))"

definition sys_setuid :: "int \<Rightarrow> 'a sched_state_scheme \<Rightarrow> int \<times> 'a sched_state_scheme" where
  "sys_setuid uid s = sys_setreuid uid uid s"

definition sys_stime :: "u32 \<Rightarrow> 'a sched_state_scheme \<Rightarrow> int \<times> 'a sched_state_scheme" where
  "sys_stime tptr s =
     (if \<not> suser s then (- EPERM, s)
      else (0, s\<lparr>startup_time := wrap32 (sint (get_fs_long tptr s) - cdiv (jiffies s) HZ)\<rparr>))"

definition sys_times :: "u32 \<Rightarrow> 'a sched_state_scheme \<Rightarrow> (int, 'a sched_state_scheme) outcome" where
  "sys_times tbuf s =
     (if tbuf \<noteq> 0
      then kbind (verify_area tbuf 16 s) (\<lambda>_ s.
           let t = cur s
           in Done (jiffies s)
                (put_fs_longs [of_int (t_utime t), of_int (t_stime t), of_int (t_cutime t), of_int (t_cstime t)]
                   tbuf s))
      else Done (jiffies s) s)"

definition sys_brk :: "u32 \<Rightarrow> 'a sched_state_scheme \<Rightarrow> u32 \<times> 'a sched_state_scheme" where
  "sys_brk end_data_seg s =
     (let s = (if t_end_code (cur s) \<le> end_data_seg \<and> end_data_seg < t_start_stack (cur s) - 16384
               then upd_cur (\<lambda>t. t\<lparr>t_brk := end_data_seg\<rparr>) s else s)
      in (t_brk (cur s), s))"

definition sys_setpgid :: "int \<Rightarrow> int \<Rightarrow> 'a sched_state_scheme \<Rightarrow> int \<times> 'a sched_state_scheme" where
  "sys_setpgid pid pgid s =
     (let pid = (if pid = 0 then t_pid (cur s) else pid);
          pgid = (if pgid = 0 then t_pid (cur s) else pgid)
      in case find (\<lambda>i. task s i \<noteq> 0 \<and> t_pid (tasks s (task s i)) = pid) [0..<NR_TASKS] of
           None \<Rightarrow> (- ESRCH, s)
         | Some i \<Rightarrow>
             let t = tasks s (task s i)
             in if t_leader t \<noteq> 0 then (- EPERM, s)
                else if t_session t \<noteq> t_session (cur s) then (- EPERM, s)
                else (0, upd_task (task s i) (\<lambda>t. t\<lparr>t_pgrp := pgid\<rparr>) s))"

definition sys_getpgrp :: "'a sched_state_scheme \<Rightarrow> int" where
  "sys_getpgrp s = t_pgrp (cur s)"

definition sys_setsid :: "'a sched_state_scheme \<Rightarrow> int \<times> 'a sched_state_scheme" where
  "sys_setsid s =
     (if t_leader (cur s) \<noteq> 0 \<and> \<not> suser s then (- EPERM, s)
      else (t_pid (cur s),
            upd_cur (\<lambda>t. t\<lparr>t_leader := 1, t_session := t_pid t, t_pgrp := t_pid t, t_tty := - 1\<rparr>) s))"

text \<open>The five members of \<^verbatim>\<open>struct utsname\<close> have 9 bytes each, a final NUL included.\<close>

definition thisname :: "u8 list" where
  "thisname = concat (map (\<lambda>str. map of_char str @ [0])
     [''linux .0'', ''nodename'', ''release '', ''version '', ''machine ''])"

fun put_fs_bytes :: "u8 list \<Rightarrow> u32 \<Rightarrow> 'a sched_state_scheme \<Rightarrow> 'a sched_state_scheme" where
  "put_fs_bytes [] addr s = s"
| "put_fs_bytes (b # bs) addr s = put_fs_bytes bs (addr + 1) (put_fs_byte b addr s)"

definition sys_uname :: "u32 \<Rightarrow> 'a sched_state_scheme \<Rightarrow> (int, 'a sched_state_scheme) outcome" where
  "sys_uname name s =
     (if name = 0 then Done (- ERROR) s
      else kbind (verify_area name (int (length thisname)) s) (\<lambda>_ s. Done 0 (put_fs_bytes thisname name s)))"

definition sys_umask :: "int \<Rightarrow> 'a sched_state_scheme \<Rightarrow> int \<times> 'a sched_state_scheme" where
  "sys_umask m s = (uint (t_umask (cur s)), upd_cur (\<lambda>t. t\<lparr>t_umask := of_int m AND 0x1FF\<rparr>) s)"

text \<open>The system calls of \<^verbatim>\<open>kernel/sys.c\<close> that are not implemented.\<close>

definition sys_ftime :: int where "sys_ftime = - ENOSYS"
definition sys_break :: int where "sys_break = - ENOSYS"
definition sys_ptrace :: int where "sys_ptrace = - ENOSYS"
definition sys_stty :: int where "sys_stty = - ENOSYS"
definition sys_gtty :: int where "sys_gtty = - ENOSYS"
definition sys_rename :: int where "sys_rename = - ENOSYS"
definition sys_prof :: int where "sys_prof = - ENOSYS"
definition sys_acct :: int where "sys_acct = - ENOSYS"
definition sys_phys :: int where "sys_phys = - ENOSYS"
definition sys_lock :: int where "sys_lock = - ENOSYS"
definition sys_mpx :: int where "sys_mpx = - ENOSYS"
definition sys_ulimit :: int where "sys_ulimit = - ENOSYS"



subsection \<open>What the memory operations leave alone\<close>

lemma more_eq_sched:
  fixes s t :: "'a sched_state_scheme"
  assumes "mm_state.more t = mm_state.more s"
  shows "tasks t = tasks s" "task t = task s" "current t = current s" "init_task t = init_task s"
    "jiffies t = jiffies s" "fs_mem t = fs_mem s" "wait_head t = wait_head s" "last_pid t = last_pid s"
  using assms by (cases s, cases t, simp)+

lemma get_free_page_more: "mm_state.more (snd (get_free_page s)) = mm_state.more s"
  by (cases s rule: get_free_page_cases) (simp_all add: zero_page_def set_map_def)

lemma un_wp_page_more: "ensures (un_wp_page te s) (\<lambda>_ t. mm_state.more t = mm_state.more s)"
  using get_free_page_more [of s]
  by (auto simp: un_wp_page_def Let_def oom_def poke_def set_map_def copy_page_def split: prod.splits)

lemma write_verify_more: "ensures (write_verify a s) (\<lambda>_ t. mm_state.more t = mm_state.more s)"
  by (simp add: write_verify_def Let_def un_wp_page_more)

lemma verify_pages_more: "ensures (verify_pages sz a s) (\<lambda>_ t. mm_state.more t = mm_state.more s)"
proof (induction sz a s rule: verify_pages.induct)
  case (1 sz start s)
  show ?case
    using 1 write_verify_more [of start s]
    by (subst verify_pages.simps) (auto simp: ensures_iff outcome_simps)
qed

lemma verify_area_frame:
  "ensures (verify_area a n s) (\<lambda>_ t. tasks t = tasks s \<and> current t = current s \<and> fs_mem t = fs_mem s)"
  unfolding verify_area_def Let_def
  by (rule ensures_mono [OF verify_pages_more]) (auto dest: more_eq_sched)

lemma put_fs_frame [simp]:
  "tasks (put_fs_byte b a s) = tasks s" "current (put_fs_byte b a s) = current s"
  "tasks (put_fs_long v a s) = tasks s" "current (put_fs_long v a s) = current s"
  by (simp_all add: put_fs_byte_def put_fs_long_def)

lemma put_fs_longs_frame [simp]:
  "tasks (put_fs_longs vs a s) = tasks s" "current (put_fs_longs vs a s) = current s"
  by (induction vs arbitrary: a s) simp_all


subsection \<open>Sending signals\<close>

definition add_signal :: "int \<Rightarrow> task_struct \<Rightarrow> task_struct" where
  "add_signal sig t = t\<lparr>t_signal := t_signal t OR sig_bit sig\<rparr>"

text \<open>The state in which exactly the tasks of \<open>A\<close> have got the signal.\<close>

definition signalled :: "int \<Rightarrow> u32 set \<Rightarrow> 'a sched_state_scheme \<Rightarrow> 'a sched_state_scheme" where
  "signalled sig A s = s\<lparr>tasks := \<lambda>p. if p \<in> A then add_signal sig (tasks s p) else tasks s p\<rparr>"

lemma signalled_simps [simp]:
  "task (signalled sig A s) = task s" "current (signalled sig A s) = current s"
  "t_euid (tasks (signalled sig A s) p) = t_euid (tasks s p)"
  "t_pid (tasks (signalled sig A s) p) = t_pid (tasks s p)"
  "t_pgrp (tasks (signalled sig A s) p) = t_pgrp (tasks s p)"
  by (simp_all add: signalled_def add_signal_def)

lemma signalled_insert:
  "upd_task p (\<lambda>t. t\<lparr>t_signal := t_signal t OR sig_bit sig\<rparr>) (signalled sig A s) = signalled sig (insert p A) s"
  by (auto simp: signalled_def add_signal_def upd_task_def fun_eq_iff or.assoc)

definition may_signal :: "int \<Rightarrow> int \<Rightarrow> 'a sched_state_scheme \<Rightarrow> u32 \<Rightarrow> bool" where
  "may_signal pid sig s p \<longleftrightarrow> p \<noteq> 0 \<and> 1 \<le> sig \<and> sig \<le> 32 \<and>
     (pid = 0 \<or> t_euid (cur s) = t_euid (tasks s p) \<or> suser s)"

lemma kill_slot_signalled:
  "kill_slot pid sig i (r, signalled sig A s) =
     (let p = task s i
      in if kill_match pid s p
         then if may_signal pid sig s p then (r, signalled sig (insert p A) s)
              else (fst (send_sig sig p (pid = 0) s), signalled sig A s)
         else (r, signalled sig A s))"
proof -
  have m: "kill_match pid (signalled sig A s) p = kill_match pid s p" for p
    by (simp add: kill_match_def)
  have su: "suser (signalled sig A s) = suser s" by (simp add: suser_def)
  show ?thesis
    by (auto simp: kill_slot_def m send_sig_def may_signal_def Let_def su signalled_insert errno_defs)
qed

text \<open>The error for a task that may not be signalled.\<close>

definition kill_error :: "int \<Rightarrow> u32 \<Rightarrow> int" where
  "kill_error sig p = (if p = 0 \<or> sig < 1 \<or> 32 < sig then - EINVAL else - EPERM)"

lemma send_sig_error: "\<not> may_signal pid sig s p \<Longrightarrow> fst (send_sig sig p (pid = 0) s) = kill_error sig p"
  by (auto simp: send_sig_def may_signal_def kill_error_def)

lemma fold_kill_slot:
  "fold (kill_slot pid sig) is (r, signalled sig A s) =
     (let bad = filter (\<lambda>i. kill_match pid s (task s i) \<and> \<not> may_signal pid sig s (task s i)) is
      in if bad = [] then r else kill_error sig (task s (last bad)),
      signalled sig (A \<union> {p. p \<in> task s ` set is \<and> kill_match pid s p \<and> may_signal pid sig s p}) s)"
proof (induction "is" arbitrary: r A)
  case (Cons i xs)
  let ?p = "task s i"
  consider "\<not> kill_match pid s ?p" | "kill_match pid s ?p" "may_signal pid sig s ?p"
    | "kill_match pid s ?p" "\<not> may_signal pid sig s ?p" by blast
  then show ?case
  proof cases
    case 1
    have "A \<union> {p. p \<in> task s ` set (i # xs) \<and> kill_match pid s p \<and> may_signal pid sig s p} =
          A \<union> {p. p \<in> task s ` set xs \<and> kill_match pid s p \<and> may_signal pid sig s p}" using 1 by auto
    then show ?thesis using 1 Cons.IH [of r A] by (simp add: kill_slot_signalled Let_def)
  next
    case 2
    have "A \<union> {p. p \<in> task s ` set (i # xs) \<and> kill_match pid s p \<and> may_signal pid sig s p} =
          insert ?p A \<union> {p. p \<in> task s ` set xs \<and> kill_match pid s p \<and> may_signal pid sig s p}" using 2 by auto
    then show ?thesis using 2 Cons.IH [of r "insert ?p A"] by (simp add: kill_slot_signalled Let_def)
  next
    case 3
    have "A \<union> {p. p \<in> task s ` set (i # xs) \<and> kill_match pid s p \<and> may_signal pid sig s p} =
          A \<union> {p. p \<in> task s ` set xs \<and> kill_match pid s p \<and> may_signal pid sig s p}" using 3 by auto
    then show ?thesis
      using 3 Cons.IH [of "kill_error sig ?p" A] by (simp add: kill_slot_signalled Let_def send_sig_error)
  qed
qed simp

text \<open>The tasks a \<^verbatim>\<open>pid\<close> argument stands for; \<open>p = 0\<close> is an empty slot, which only \<open>- 1\<close> reaches.\<close>

definition addressed :: "int \<Rightarrow> 'a sched_state_scheme \<Rightarrow> u32 \<Rightarrow> bool" where
  "addressed pid s p \<longleftrightarrow> pid = - 1 \<or> p \<noteq> 0 \<and>
     (0 < pid \<longrightarrow> t_pid (tasks s p) = pid) \<and> (pid < 0 \<longrightarrow> t_pgrp (tasks s p) = \<bar>pid\<bar>) \<and> (pid = 0 \<longrightarrow> t_pgrp (tasks s p) = t_pid (cur s))"

lemma kill_match_addressed: "kill_match pid s p = addressed pid s p"
  by (auto simp: kill_match_def addressed_def)

text \<open>
  C13: \<^verbatim>\<open>sys_kill\<close> adds the signal to exactly the tasks that its \<^verbatim>\<open>pid\<close> argument selects and
  that the caller may signal, and changes nothing else. It returns 0 exactly when every
  selected slot could be signalled; otherwise the error of the lowest selected slot that could not:
  \<open>- EINVAL\<close> for a number that is no signal or an empty slot, \<open>- EPERM\<close> for a task of somebody else.
  With \<^verbatim>\<open>pid == -1\<close> every slot is selected, the empty
  ones included, so that 0 is returned only when the task table is full.
\<close>

theorem sys_kill_effect:
  "case sys_kill pid sig s of (r, t) \<Rightarrow>
     t = s\<lparr>tasks := \<lambda>p. if (\<exists>i\<in>{0<..<NR_TASKS}. p = task s i) \<and> addressed pid s p \<and> may_signal pid sig s p
                        then add_signal sig (tasks s p) else tasks s p\<rparr> \<and>
     r = (case filter (\<lambda>i. addressed pid s (task s i) \<and> \<not> may_signal pid sig s (task s i)) [1..<NR_TASKS] of
            [] \<Rightarrow> 0
          | i # _ \<Rightarrow> if task s i = 0 \<or> sig \<notin> {1..32} then - EINVAL else - EPERM) \<and>
     (r = 0 \<longleftrightarrow> (\<forall>i\<in>{0<..<NR_TASKS}. addressed pid s (task s i) \<longrightarrow> may_signal pid sig s (task s i)))"
proof -
  have e: "signalled sig {} s = s" by (simp add: signalled_def)
  have st: "set slots_down = {0<..<NR_TASKS}" by (auto simp: slots_down_props)
  let ?bad = "filter (\<lambda>i. addressed pid s (task s i) \<and> \<not> may_signal pid sig s (task s i)) [1..<NR_TASKS]"
  have bad: "filter (\<lambda>i. addressed pid s (task s i) \<and> \<not> may_signal pid sig s (task s i)) slots_down = rev ?bad"
    by (simp add: slots_down_def rev_filter)
  have eq: "sys_kill pid sig s = ((if ?bad = [] then 0 else kill_error sig (task s (hd ?bad))),
      signalled sig {p. p \<in> task s ` {0<..<NR_TASKS} \<and> addressed pid s p \<and> may_signal pid sig s p} s)"
    using fold_kill_slot [of pid sig slots_down 0 "{}" s, unfolded kill_match_addressed bad]
    by (simp add: sys_kill_def e st Let_def last_rev)
  have empty: "?bad = [] \<longleftrightarrow> (\<forall>i\<in>{0<..<NR_TASKS}. addressed pid s (task s i) \<longrightarrow> may_signal pid sig s (task s i))"
    by (auto simp: filter_empty_conv)
  have sel: "signalled sig {p. p \<in> task s ` {0<..<NR_TASKS} \<and> addressed pid s p \<and> may_signal pid sig s p} s =
     s\<lparr>tasks := \<lambda>p. if (\<exists>i\<in>{0<..<NR_TASKS}. p = task s i) \<and> addressed pid s p \<and> may_signal pid sig s p
                        then add_signal sig (tasks s p) else tasks s p\<rparr>"
    by (simp add: signalled_def image_iff)
  show ?thesis
    unfolding eq sel empty [symmetric] by (cases ?bad) (auto simp: kill_error_def errno_defs)
qed

theorem sys_kill_effect_witness:
  "t_signal (tasks (snd (sys_kill 2 15 demo_sched)) 0x300000) = sig_bit SIGHUP OR sig_bit 15 \<and>
   t_signal (tasks (snd (sys_kill 2 15 demo_sched)) 0x200000) = 0"
proof -
  have t: "task demo_sched 2 = 0x300000" by (simp add: demo_sched_def)
  have "\<exists>i\<in>{0<..<NR_TASKS}. 0x300000 = task demo_sched i"
    by (rule bexI [of _ 2]) (simp_all add: t NR_TASKS_def)
  then show ?thesis
    using sys_kill_effect [where pid = 2 and sig = 15 and s = demo_sched]
    by (cases "sys_kill 2 15 demo_sched")
      (simp add: addressed_def may_signal_def add_signal_def,
       simp add: demo_sched_def demo_task_def INIT_TASK_def suser_def)
qed


subsection \<open>User and group identity\<close>

lemma of_int_uint_eq: "uint (x :: 'a::len word) = i \<Longrightarrow> of_int i = x"
  by auto

text \<open>
  C14: A task that is not the super-user cannot gain an identity with \<^verbatim>\<open>sys_setreuid\<close>: its
  real and effective user ids are afterwards among the two it had before, and when the
  call fails they are exactly what they were.
\<close>

theorem sys_setreuid_no_gain:
  assumes "\<not> suser s"
  shows "case sys_setreuid ruid euid s of (r, t) \<Rightarrow>
     {t_uid (cur t), t_euid (cur t)} \<subseteq> {t_uid (cur s), t_euid (cur s)} \<and>
     (r \<noteq> 0 \<longrightarrow> r = - EPERM \<and> t_uid (cur t) = t_uid (cur s) \<and> t_euid (cur t) = t_euid (cur s)) \<and>
     (\<forall>p. p \<noteq> current s \<longrightarrow> tasks t p = tasks s p)"
  using assms by (auto simp: sys_setreuid_def Let_def suser_def errno_defs dest!: of_int_uint_eq)

theorem sys_setreuid_no_gain_witness:
  "\<exists>s :: sched_state. \<not> suser s \<and> t_euid (cur (snd (sys_setreuid 0 7 s))) \<in> {5, 6}"
proof -
  let ?s = "upd_cur (\<lambda>t. t\<lparr>t_uid := 5, t_euid := 6\<rparr>) demo_sched"
  have n: "\<not> suser ?s" and u: "t_uid (cur ?s) = 5" "t_euid (cur ?s) = 6" by (simp_all add: suser_def)
  have "t_euid (cur (snd (sys_setreuid 0 7 ?s))) \<in> {5, 6}"
    using sys_setreuid_no_gain [OF n, where ruid = 0 and euid = 7] u by (auto split: prod.splits)
  then show ?thesis using n by blast
qed



subsection \<open>SIGKILL\<close>

text \<open>
  The calls by which the running task changes how it reacts to signals, and the
  delivery of a signal to it.
\<close>

inductive sig_call :: "'a sched_state_scheme \<Rightarrow> 'a sched_state_scheme \<Rightarrow> bool" where
  ssetmask: "sig_call s (snd (sys_ssetmask m s))"
| signal: "sig_call s (snd (sys_signal signum handler restorer s))"
| sigaction: "sys_sigaction signum action oldaction s = Done r t \<Longrightarrow> sig_call s t"
| deliver: "do_signal signr eax ecx edx eip eflags esp s = Done r t \<Longrightarrow> sig_call s t"

definition kill_default :: "'a sched_state_scheme \<Rightarrow> bool" where
  "kill_default s \<longleftrightarrow> sa_handler (t_sigaction (cur s) 8) = 0"

lemma action_index: "1 \<le> signum \<Longrightarrow> signum \<noteq> SIGKILL \<Longrightarrow> nat (signum - 1) \<noteq> 8"
  by (auto simp: SIGKILL_def)

lemma save_old_frame: "ensures (save_old sa a s) (\<lambda>_ t. tasks t = tasks s \<and> current t = current s)"
  unfolding save_old_def ensures_kbind by (rule ensures_mono [OF verify_area_frame]) simp

lemma sys_sigaction_kill:
  "ensures (sys_sigaction signum action oldaction s)
     (\<lambda>_ t. current t = current s \<and> t_sigaction (cur t) 8 = t_sigaction (cur s) 8)"
proof (cases "signum < 1 \<or> 32 < signum \<or> signum = SIGKILL")
  case True
  then show ?thesis by (simp add: sys_sigaction_def)
next
  case False
  let ?s = "upd_cur (set_action signum (get_new action s)) s"
  have i: "nat (signum - 1) \<noteq> 8" using False action_index [of signum] by auto
  have "ensures (if oldaction \<noteq> 0 then save_old (t_sigaction (cur s) (nat (signum - 1))) oldaction ?s else Done () ?s)
      (\<lambda>_ t. tasks t = tasks ?s \<and> current t = current ?s)"
    by (simp only: save_old_frame ensures_simps split: if_split) simp
  then show ?thesis
    unfolding sys_sigaction_def Let_def using False i
    by (simp only: if_False ensures_kbind)
      (erule ensures_mono, simp add: set_action_def)
qed

lemma do_signal_kill:
  assumes "kill_default s"
  shows "ensures (do_signal signr eax ecx edx eip eflags esp s) (\<lambda>_ t. kill_default t)"
proof -
  define sa where "sa = t_sigaction (cur s) (nat (signr - 1))"
  define u where "u = (if sa_flags sa AND SA_ONESHOT \<noteq> 0
      then upd_cur (set_action signr (sa\<lparr>sa_handler := 0\<rparr>)) s else s)"
  have "kill_default u" using assms by (auto simp: u_def kill_default_def set_action_def sa_def)
  then have vf: "ensures (verify_area a n u) (\<lambda>_ v. kill_default v)" for a n
    by (intro ensures_mono [OF verify_area_frame]) (simp add: kill_default_def)
  show ?thesis
    unfolding do_signal_def sa_def [symmetric] Let_def u_def [symmetric] ensures_kbind
    using assms
    by (simp add: ensures_kbind) (auto intro!: ensures_mono [OF vf] simp: kill_default_def)
qed

lemma sig_call_kill_default: "sig_call s t \<Longrightarrow> kill_default s \<Longrightarrow> kill_default t"
proof (induction rule: sig_call.induct)
  case (signal s signum handler restorer)
  then show ?case using action_index [of signum]
    by (auto simp: sys_signal_def kill_default_def set_action_def Let_def)
next
  case (sigaction signum action oldaction s r t)
  then show ?case
    using sys_sigaction_kill [of signum action oldaction s] by (auto simp: kill_default_def)
next
  case (deliver signr eax ecx edx eip eflags esp s r t)
  then show ?case using do_signal_kill [of s signr eax ecx edx eip eflags esp] by simp
qed (simp add: sys_ssetmask_def kill_default_def)

text \<open>
  C15: No sequence of signal system calls and signal deliveries makes a task survive
  SIGKILL: whatever the task did before, its delivery ends the task.
\<close>

theorem sigkill_is_fatal:
  assumes "sig_call\<^sup>*\<^sup>* s t" and "kill_default s"
  shows "do_signal SIGKILL eax ecx edx eip eflags esp t = Stop (Do_Exit 256) t"
proof -
  have "kill_default t" using assms by (induction rule: rtranclp_induct) (auto intro: sig_call_kill_default)
  then show ?thesis
    by (simp add: do_signal_def kill_default_def SIGKILL_def SIGCHLD_def wrap32_def)
qed

theorem sigkill_is_fatal_witness:
  "\<exists>t. sig_call demo_sched t \<and> sa_handler (t_sigaction (cur t) 14) = 0x8000 \<and>
       do_signal SIGKILL 0 0 0 0 0 0 t = Stop (Do_Exit 256) t"
proof -
  let ?t = "snd (sys_signal 15 0x8000 0 demo_sched)"
  have step: "sig_call demo_sched ?t" by (rule sig_call.signal)
  have "kill_default demo_sched"
    by (simp add: kill_default_def demo_sched_def demo_task_def INIT_TASK_def no_action_def)
  then have "do_signal SIGKILL 0 0 0 0 0 0 ?t = Stop (Do_Exit 256) ?t"
    using sigkill_is_fatal [where s = demo_sched and t = ?t] step by blast
  moreover have "sa_handler (t_sigaction (cur ?t) 14) = 0x8000"
    by (simp add: sys_signal_def SIGKILL_def set_action_def Let_def)
  ultimately show ?thesis using step by blast
qed


text \<open>User memory with a \<^verbatim>\<open>struct sigaction\<close> at 0x100: handler 0x8000, SIGKILL in its mask.\<close>

definition demo_mask :: sched_state where
  "demo_mask = demo_sched\<lparr>fs_mem := (\<lambda>_. 0)(0x101 := 0x80, 0x105 := 1)\<rparr>"

lemma demo_mask_verify: "phys s = (\<lambda>_. 0) \<Longrightarrow> write_verify a s = Done () s"
  by (simp add: write_verify_def Let_def)

lemma verify_pages_none: "phys s = (\<lambda>_. 0) \<Longrightarrow> verify_pages sz a s = Done () s"
  by (induction sz a s rule: verify_pages.induct)
    (subst verify_pages.simps, auto simp: demo_mask_verify)

text \<open>
  SIGKILL can be blocked all the same: \<^verbatim>\<open>sys_sigaction\<close> accepts a mask that contains
  it, and the delivery of the signal adds the mask to \<^verbatim>\<open>blocked\<close>, while
  \<^verbatim>\<open>sys_ssetmask\<close> and the comment in \<^verbatim>\<open>schedule\<close> rule that out.
\<close>

theorem sigaction_can_block_kill:
  "\<exists>t u r. sys_sigaction 15 0x100 0 demo_mask = Done 0 t \<and> do_signal 15 0 0 0 0 0 0x2000 t = Done r u \<and>
     t_blocked (cur demo_mask) AND sig_bit SIGKILL = 0 \<and> t_blocked (cur u) AND sig_bit SIGKILL \<noteq> 0 \<and>
     t_blocked (cur (snd (sys_ssetmask m u))) AND sig_bit SIGKILL = 0"
proof -
  let ?sa = "\<lparr>sa_handler = 0x8000, sa_mask = 0x4100, sa_flags = 0, sa_restorer = 0\<rparr>"
  let ?t = "upd_cur (set_action 15 ?sa) (upd_cur (set_action 15 (?sa\<lparr>sa_mask := 0x100\<rparr>)) demo_mask)"
  have gn: "get_new 0x100 demo_mask = ?sa\<lparr>sa_mask := 0x100\<rparr>"
    by (simp add: get_new_def get_fs_long_def demo_mask_def)
  have t: "sys_sigaction 15 0x100 0 demo_mask = Done 0 ?t"
    by (simp add: sys_sigaction_def gn SIGKILL_def Let_def set_action_def SA_NOMASK_def sig_bit_def)
  have ph: "phys ?t = (\<lambda>_. 0)" by (simp add: demo_mask_def demo_sched_def)
  have act: "t_sigaction (cur ?t) 14 = ?sa" by (simp add: set_action_def)
  have bl: "t_blocked (cur demo_mask) = 0" "t_blocked (cur ?t) = 0"
    by (simp_all add: demo_mask_def demo_sched_def demo_task_def INIT_TASK_def set_action_def)
  have va: "verify_area a n ?t = Done () ?t" for a n
    using verify_pages_none [OF ph] by (simp add: verify_area_def Let_def)
  obtain u r where u: "do_signal 15 0 0 0 0 0 0x2000 ?t = Done r u" "t_blocked (cur u) = 0x4100"
    using act va bl(2) by (simp add: do_signal_def Let_def SA_ONESHOT_def SA_NOMASK_def del: put_fs_longs.simps)
  have "(m AND NOT k) AND k = (0 :: u32)" for k by (rule bit_word_eqI) (simp add: bit_simps)
  then have "t_blocked (cur (snd (sys_ssetmask m u))) AND sig_bit SIGKILL = 0"
    by (simp add: sys_ssetmask_def)
  moreover have "t_blocked (cur u) AND sig_bit SIGKILL \<noteq> 0" by (simp add: u(2) sig_bit_def SIGKILL_def)
  ultimately show ?thesis using t u(1) bl(1) by (metis and_zero_eq and.commute)
qed

end
