(* ===== verification/Fs_State.thy ===== *)
theory Fs_State
  imports Proc_Calls
begin

text \<open>
  The tables of the block layer and of the file system, from \<^verbatim>\<open>include/linux/fs.h\<close> and
  \<^verbatim>\<open>kernel/blk_drv/blk.h\<close>: request table, buffer heads with their data, hash table and free
  list, in-core inodes, super blocks and the file table. A pointer into one of these
  tables is an index, \<^verbatim>\<open>NULL\<close> is \<open>None\<close>.
\<close>


subsection \<open>Constants\<close>

definition NR_INODE :: nat where "NR_INODE = 32"
definition NR_FILE :: nat where "NR_FILE = 64"
definition NR_SUPER :: nat where "NR_SUPER = 8"
definition NR_HASH :: nat where "NR_HASH = 307"
definition BLOCK_SIZE :: nat where "BLOCK_SIZE = 1024"
definition NAME_LEN :: nat where "NAME_LEN = 14"
definition ROOT_INO :: u16 where "ROOT_INO = 1"
definition I_MAP_SLOTS :: nat where "I_MAP_SLOTS = 8"
definition Z_MAP_SLOTS :: nat where "Z_MAP_SLOTS = 8"
definition SUPER_MAGIC :: u16 where "SUPER_MAGIC = 0x137F"
definition NR_REQUEST :: nat where "NR_REQUEST = 32"
definition NR_BLK_DEV :: nat where "NR_BLK_DEV = 7"
definition READ :: int where "READ = 0"
definition WRITE :: int where "WRITE = 1"
definition READA :: int where "READA = 2"
definition WRITEA :: int where "WRITEA = 3"

lemmas rw_defs = READ_def WRITE_def READA_def WRITEA_def

definition MAJOR :: "u16 \<Rightarrow> nat" where
  "MAJOR a = unat (drop_bit 8 a)"

definition MINOR :: "u16 \<Rightarrow> nat" where
  "MINOR a = unat (a AND 0xFF)"


subsection \<open>Records\<close>

record buffer_head =
  b_blocknr :: u32
  b_dev :: u16
  b_uptodate :: u8
  b_dirt :: u8
  b_count :: u8
  b_lock :: u8
  b_prev :: "nat option"
  b_next :: "nat option"
  b_prev_free :: "nat option"
  b_next_free :: "nat option"

text \<open>The pointer \<^verbatim>\<open>buffer\<close> is the buffer \<open>r_buffer\<close>, whose data are moved, and the offset \<open>r_off\<close> in it.\<close>

record request =
  r_dev :: int
  r_cmd :: int
  r_errors :: int
  r_sector :: u32
  r_nr_sectors :: u32
  r_buffer :: nat
  r_off :: nat
  r_waiting :: u32
  r_bh :: "nat option"
  r_next :: "nat option"

record d_inode =
  d_mode :: u16
  d_uid :: u16
  d_size :: u32
  d_time :: u32
  d_gid :: u8
  d_nlinks :: u8
  d_zone :: "nat \<Rightarrow> u16"

record m_inode =
  i_mode :: u16
  i_uid :: u16
  i_size :: u32
  i_mtime :: u32
  i_gid :: u8
  i_nlinks :: u8
  i_zone :: "nat \<Rightarrow> u16"
  i_atime :: u32
  i_ctime :: u32
  i_dev :: u16
  i_num :: u16
  i_count :: u16
  i_lock :: u8
  i_dirt :: u8
  i_pipe :: u8
  i_mount :: u8
  i_seek :: u8
  i_update :: u8

record file_struct =
  f_mode :: u16
  f_flags :: u16
  f_count :: u16
  f_inode :: "nat option"
  f_pos :: int

record super_block =
  s_ninodes :: u16
  s_nzones :: u16
  s_imap_blocks :: u16
  s_zmap_blocks :: u16
  s_firstdatazone :: u16
  s_log_zone_size :: u16
  s_max_size :: u32
  s_magic :: u16
  s_imap :: "nat \<Rightarrow> nat option"
  s_zmap :: "nat \<Rightarrow> nat option"
  s_dev :: u16
  s_isup :: "nat option"
  s_imount :: "nat option"
  s_time :: u32
  s_lock :: u8
  s_rd_only :: u8
  s_dirt :: u8

text \<open>
  \<open>b_data\<close> holds the 1024 bytes behind each buffer head; they lie outside the pages of
  main memory. \<open>start_buffer\<close> is the address of the first buffer head. \<open>request_fn\<close> says
  which major numbers have a driver. \<open>rd_mem\<close> are the bytes of the RAM disk.
\<close>

record fs_state = sched_state +
  request_table :: "nat \<Rightarrow> request"
  current_request :: "nat \<Rightarrow> nat option"
  request_fn :: "nat \<Rightarrow> bool"
  rd_start :: u32
  rd_length :: u32
  rd_mem :: "u32 \<Rightarrow> u8"
  start_buffer :: u32
  nr_buffers :: nat
  buffers :: "nat \<Rightarrow> buffer_head"
  b_data :: "nat \<Rightarrow> nat \<Rightarrow> u8"
  hash_table :: "nat \<Rightarrow> nat option"
  free_list :: nat
  inode_table :: "nat \<Rightarrow> m_inode"
  last_inode :: nat
  super_table :: "nat \<Rightarrow> super_block"
  file_table :: "nat \<Rightarrow> file_struct"
  ROOT_DEV :: u16
  tty_pgrp :: "nat \<Rightarrow> int"

definition upd_buf ::
  "nat \<Rightarrow> (buffer_head \<Rightarrow> buffer_head) \<Rightarrow> 'a fs_state_scheme \<Rightarrow> 'a fs_state_scheme" where
  "upd_buf b f s = s\<lparr>buffers := (buffers s)(b := f (buffers s b))\<rparr>"

definition upd_req ::
  "nat \<Rightarrow> (request \<Rightarrow> request) \<Rightarrow> 'a fs_state_scheme \<Rightarrow> 'a fs_state_scheme" where
  "upd_req r f s = s\<lparr>request_table := (request_table s)(r := f (request_table s r))\<rparr>"

definition upd_inode ::
  "nat \<Rightarrow> (m_inode \<Rightarrow> m_inode) \<Rightarrow> 'a fs_state_scheme \<Rightarrow> 'a fs_state_scheme" where
  "upd_inode i f s = s\<lparr>inode_table := (inode_table s)(i := f (inode_table s i))\<rparr>"

definition upd_super ::
  "nat \<Rightarrow> (super_block \<Rightarrow> super_block) \<Rightarrow> 'a fs_state_scheme \<Rightarrow> 'a fs_state_scheme" where
  "upd_super i f s = s\<lparr>super_table := (super_table s)(i := f (super_table s i))\<rparr>"

definition upd_file ::
  "nat \<Rightarrow> (file_struct \<Rightarrow> file_struct) \<Rightarrow> 'a fs_state_scheme \<Rightarrow> 'a fs_state_scheme" where
  "upd_file i f s = s\<lparr>file_table := (file_table s)(i := f (file_table s i))\<rparr>"

lemma upd_buf_simps [simp]:
  "buffers (upd_buf b f s) = (buffers s)(b := f (buffers s b))" "b_data (upd_buf b f s) = b_data s"
  "hash_table (upd_buf b f s) = hash_table s" "free_list (upd_buf b f s) = free_list s"
  "request_table (upd_buf b f s) = request_table s" "current_request (upd_buf b f s) = current_request s"
  "nr_buffers (upd_buf b f s) = nr_buffers s" "inode_table (upd_buf b f s) = inode_table s"
  "super_table (upd_buf b f s) = super_table s" "file_table (upd_buf b f s) = file_table s"
  "request_fn (upd_buf b f s) = request_fn s" "current (upd_buf b f s) = current s"
  "tasks (upd_buf b f s) = tasks s" "rd_mem (upd_buf b f s) = rd_mem s"
  by (simp_all add: upd_buf_def)

lemma upd_req_simps [simp]:
  "request_table (upd_req r f s) = (request_table s)(r := f (request_table s r))"
  "buffers (upd_req r f s) = buffers s" "b_data (upd_req r f s) = b_data s"
  "current_request (upd_req r f s) = current_request s" "request_fn (upd_req r f s) = request_fn s"
  "rd_mem (upd_req r f s) = rd_mem s"
  by (simp_all add: upd_req_def)

lemma upd_inode_simps [simp]:
  "inode_table (upd_inode i f s) = (inode_table s)(i := f (inode_table s i))"
  "buffers (upd_inode i f s) = buffers s" "b_data (upd_inode i f s) = b_data s"
  "file_table (upd_inode i f s) = file_table s" "super_table (upd_inode i f s) = super_table s"
  "tasks (upd_inode i f s) = tasks s" "current (upd_inode i f s) = current s"
  "wait_head (upd_inode i f s) = wait_head s" "phys (upd_inode i f s) = phys s"
  "fs_mem (upd_inode i f s) = fs_mem s" "mem_map (upd_inode i f s) = mem_map s"
  by (simp_all add: upd_inode_def)

lemma upd_file_simps [simp]:
  "file_table (upd_file i f s) = (file_table s)(i := f (file_table s i))"
  "inode_table (upd_file i f s) = inode_table s" "buffers (upd_file i f s) = buffers s"
  "tasks (upd_file i f s) = tasks s" "current (upd_file i f s) = current s"
  "super_table (upd_file i f s) = super_table s"
  by (simp_all add: upd_file_def)

lemma upd_task_fs [simp]:
  "buffers (upd_task p f s) = buffers s" "b_data (upd_task p f s) = b_data s"
  "inode_table (upd_task p f s) = inode_table s" "file_table (upd_task p f s) = file_table s"
  "request_table (upd_task p f s) = request_table s" "current_request (upd_task p f s) = current_request s"
  "super_table (upd_task p f s) = super_table s" "rd_mem (upd_task p f s) = rd_mem s"
  "request_fn (upd_task p f s) = request_fn s"
  by (simp_all add: upd_task_def)

end
