(* ===== verification/Blk_Dev.thy ===== *)
theory Blk_Dev
  imports Fs_State "HOL-Library.Product_Lexorder"
begin

text \<open>
  Block device requests: \<^verbatim>\<open>kernel/blk_drv/ll_rw_blk.c\<close>, the common part of the drivers in
  \<^verbatim>\<open>kernel/blk_drv/blk.h\<close> and the RAM disk, \<^verbatim>\<open>kernel/blk_drv/ramdisk.c\<close>. The queue of a
  device is a linked list of slots of the request table; the lemmas relate it to a
  sequence and show where the elevator puts a request.
\<close>


subsection \<open>Locks\<close>

fun lock_buffer_loop ::
  "nat \<Rightarrow> ('a fs_state_scheme) env \<Rightarrow> nat \<Rightarrow> 'a fs_state_scheme \<Rightarrow>
   (unit, 'a fs_state_scheme) outcome" where
  "lock_buffer_loop 0 e b s = Stop Asleep s"
| "lock_buffer_loop (Suc n) e b s =
     (if b_lock (buffers s b) \<noteq> 0
      then kbind (sleep_on e (Wait_Buffer b) s) (\<lambda>_ s. lock_buffer_loop n e b s)
      else Done () (upd_buf b (\<lambda>bh. bh\<lparr>b_lock := 1\<rparr>) s))"

definition lock_buffer ::
  "('a fs_state_scheme) env \<Rightarrow> nat \<Rightarrow> 'a fs_state_scheme \<Rightarrow>
   (unit, 'a fs_state_scheme) outcome" where
  "lock_buffer e b s = lock_buffer_loop (Suc (patience e)) e b s"

definition unlock_buffer :: "nat \<Rightarrow> 'a fs_state_scheme \<Rightarrow> 'a fs_state_scheme" where
  "unlock_buffer b s =
     (let s = (if b_lock (buffers s b) = 0 then printk ''ll_rw_block.c: buffer not locked'' s else s)
      in wake_up (Wait_Buffer b) (upd_buf b (\<lambda>bh. bh\<lparr>b_lock := 0\<rparr>) s))"


subsection \<open>The end of a request\<close>

text \<open>
  The drivers have an \<^verbatim>\<open>unlock_buffer\<close> of their own, with another message.
  \<^verbatim>\<open>end_request\<close> is only called when there is a current request.
\<close>

definition drv_unlock_buffer :: "nat \<Rightarrow> 'a fs_state_scheme \<Rightarrow> 'a fs_state_scheme" where
  "drv_unlock_buffer b s =
     (let s = (if b_lock (buffers s b) = 0 then printk '': free buffer being unlocked'' s else s)
      in wake_up (Wait_Buffer b) (upd_buf b (\<lambda>bh. bh\<lparr>b_lock := 0\<rparr>) s))"

definition end_request :: "nat \<Rightarrow> u8 \<Rightarrow> 'a fs_state_scheme \<Rightarrow> 'a fs_state_scheme" where
  "end_request major uptodate s =
     (case current_request s major of
        None \<Rightarrow> s
      | Some r \<Rightarrow>
          let rq = request_table s r;
              s = (if major = 2 then floppy_off (nat (r_dev rq mod 4)) s else s);
              s = (case r_bh rq of
                     None \<Rightarrow> s
                   | Some b \<Rightarrow> drv_unlock_buffer b (upd_buf b (\<lambda>bh. bh\<lparr>b_uptodate := uptodate\<rparr>) s));
              s = (if uptodate = 0
                   then printk ''dev %04x, block %d'' (printk '' I/O error'' s) else s);
              s = (if r_waiting rq \<noteq> 0
                   then upd_req r (\<lambda>q. q\<lparr>r_waiting := 0\<rparr>) (upd_task (r_waiting rq) (set_state 0) s)
                   else s);
              s = wake_up Wait_Request s;
              s = upd_req r (\<lambda>q. q\<lparr>r_dev := - 1\<rparr>) s
          in s\<lparr>current_request := (current_request s)(major := r_next rq)\<rparr>)"


subsection \<open>The RAM disk\<close>

fun copy_from_rd :: "nat \<Rightarrow> nat \<Rightarrow> nat \<Rightarrow> u32 \<Rightarrow> 'a fs_state_scheme \<Rightarrow> 'a fs_state_scheme" where
  "copy_from_rd 0 b i addr s = s"
| "copy_from_rd (Suc n) b i addr s =
     copy_from_rd n b (Suc i) (addr + 1)
       (s\<lparr>b_data := (b_data s)(b := (b_data s b)(i := rd_mem s addr))\<rparr>)"

fun copy_to_rd :: "nat \<Rightarrow> nat \<Rightarrow> nat \<Rightarrow> u32 \<Rightarrow> 'a fs_state_scheme \<Rightarrow> 'a fs_state_scheme" where
  "copy_to_rd 0 b i addr s = s"
| "copy_to_rd (Suc n) b i addr s =
     copy_to_rd n b (Suc i) (addr + 1) (s\<lparr>rd_mem := (rd_mem s)(addr := b_data s b i)\<rparr>)"

text \<open>The \<^verbatim>\<open>repeat\<close> loop of \<^verbatim>\<open>do_rd_request\<close>, with \<^verbatim>\<open>INIT_REQUEST\<close>; every round uses up a request.\<close>

fun rd_request_loop ::
  "nat \<Rightarrow> 'a fs_state_scheme \<Rightarrow> (unit, 'a fs_state_scheme) outcome" where
  "rd_request_loop 0 s = Stop Looping s"
| "rd_request_loop (Suc n) s =
     (case current_request s 1 of
        None \<Rightarrow> Done () s
      | Some r \<Rightarrow>
          let rq = request_table s r;
              addr = rd_start s + push_bit 9 (r_sector rq);
              len = push_bit 9 (r_nr_sectors rq)
          in if r_dev rq div 256 \<noteq> 1 then Stop (Panic ''ramdisk: request list destroyed'') s
             else if (case r_bh rq of None \<Rightarrow> False | Some b \<Rightarrow> b_lock (buffers s b) = 0)
             then Stop (Panic ''ramdisk: block not locked'') s
             else if r_dev rq mod 256 \<noteq> 1 \<or> rd_start s + rd_length s < addr + len
             then rd_request_loop n (end_request 1 0 s)
             else if r_cmd rq = WRITE
             then rd_request_loop n (end_request 1 1 (copy_to_rd (unat len) (r_buffer rq) (r_off rq) addr s))
             else if r_cmd rq = READ
             then rd_request_loop n (end_request 1 1 (copy_from_rd (unat len) (r_buffer rq) (r_off rq) addr s))
             else Stop (Panic ''unknown ramdisk-command'') s)"

definition do_rd_request :: "'a fs_state_scheme \<Rightarrow> (unit, 'a fs_state_scheme) outcome" where
  "do_rd_request s = rd_request_loop (Suc NR_REQUEST) s"

definition rd_init :: "u32 \<Rightarrow> u32 \<Rightarrow> 'a fs_state_scheme \<Rightarrow> u32 \<times> 'a fs_state_scheme" where
  "rd_init mem_start len s =
     (len, s\<lparr>request_fn := (request_fn s)(1 := True), rd_start := mem_start, rd_length := len,
             rd_mem := (\<lambda>a. if a - mem_start < len then 0 else rd_mem s a)\<rparr>)"

definition call_request_fn ::
  "('a fs_state_scheme) env \<Rightarrow> nat \<Rightarrow> 'a fs_state_scheme \<Rightarrow> (unit, 'a fs_state_scheme) outcome" where
  "call_request_fn e major s = (if major = 1 then do_rd_request s else driver e major s)"


subsection \<open>Queueing\<close>

definition IN_ORDER :: "request \<Rightarrow> request \<Rightarrow> bool" where
  "IN_ORDER s1 s2 \<longleftrightarrow>
     r_cmd s1 < r_cmd s2 \<or> r_cmd s1 = r_cmd s2 \<and>
       (r_dev s1 < r_dev s2 \<or> r_dev s1 = r_dev s2 \<and> r_sector s1 < r_sector s2)"

text \<open>The \<^verbatim>\<open>for\<close> loop of \<^verbatim>\<open>add_request\<close>: the request after which the new one is linked.\<close>

fun elevator_place :: "nat \<Rightarrow> (nat \<Rightarrow> request) \<Rightarrow> request \<Rightarrow> nat \<Rightarrow> nat option" where
  "elevator_place 0 tab rq tmp = None"
| "elevator_place (Suc n) tab rq tmp =
     (case r_next (tab tmp) of
        None \<Rightarrow> Some tmp
      | Some nx \<Rightarrow>
          if (IN_ORDER (tab tmp) rq \<or> \<not> IN_ORDER (tab tmp) (tab nx)) \<and> IN_ORDER rq (tab nx)
          then Some tmp else elevator_place n tab rq nx)"

definition add_request ::
  "('a fs_state_scheme) env \<Rightarrow> nat \<Rightarrow> nat \<Rightarrow> 'a fs_state_scheme \<Rightarrow>
   (unit, 'a fs_state_scheme) outcome" where
  "add_request e major req s =
     (let s = upd_req req (\<lambda>q. q\<lparr>r_next := None\<rparr>) s;
          s = (case r_bh (request_table s req) of
                 None \<Rightarrow> s | Some b \<Rightarrow> upd_buf b (\<lambda>bh. bh\<lparr>b_dirt := 0\<rparr>) s)
      in case current_request s major of
           None \<Rightarrow> call_request_fn e major (s\<lparr>current_request := (current_request s)(major := Some req)\<rparr>)
         | Some tmp \<Rightarrow>
             (case elevator_place (Suc NR_REQUEST) (request_table s) (request_table s req) tmp of
                None \<Rightarrow> Stop Looping s
              | Some p \<Rightarrow>
                  let s = upd_req req (\<lambda>q. q\<lparr>r_next := r_next (request_table s p)\<rparr>) s
                  in Done () (upd_req p (\<lambda>q. q\<lparr>r_next := Some req\<rparr>) s)))"

text \<open>Searching downwards from \<open>n\<close> for a free slot.\<close>

fun find_request :: "nat \<Rightarrow> (nat \<Rightarrow> request) \<Rightarrow> nat option" where
  "find_request 0 tab = None"
| "find_request (Suc n) tab = (if r_dev (tab n) < 0 then Some n else find_request n tab)"

fun request_slot ::
  "nat \<Rightarrow> ('a fs_state_scheme) env \<Rightarrow> int \<Rightarrow> bool \<Rightarrow> 'a fs_state_scheme \<Rightarrow>
   (nat option, 'a fs_state_scheme) outcome" where
  "request_slot 0 e rw rw_ahead s = Stop Asleep s"
| "request_slot (Suc n) e rw rw_ahead s =
     (case find_request (if rw = READ then NR_REQUEST else NR_REQUEST * 2 div 3) (request_table s) of
        Some req \<Rightarrow> Done (Some req) s
      | None \<Rightarrow>
          if rw_ahead then Done None s
          else kbind (sleep_on e Wait_Request s) (\<lambda>_ s. request_slot n e rw rw_ahead s))"

definition make_request ::
  "('a fs_state_scheme) env \<Rightarrow> nat \<Rightarrow> int \<Rightarrow> nat \<Rightarrow> 'a fs_state_scheme \<Rightarrow>
   (unit, 'a fs_state_scheme) outcome" where
  "make_request e major rw b s =
     (let rw_ahead = (rw = READA \<or> rw = WRITEA)
      in if rw_ahead \<and> b_lock (buffers s b) \<noteq> 0 then Done () s
         else let rw = (if rw = READA then READ else if rw = WRITEA then WRITE else rw)
              in if rw \<noteq> READ \<and> rw \<noteq> WRITE
                 then Stop (Panic ''Bad block dev command, must be R/W/RA/WA'') s
                 else kbind (lock_buffer e b s) (\<lambda>_ s.
                      if rw = WRITE \<and> b_dirt (buffers s b) = 0 \<or> rw = READ \<and> b_uptodate (buffers s b) \<noteq> 0
                      then Done () (unlock_buffer b s)
                      else kbind (request_slot (Suc (patience e)) e rw rw_ahead s) (\<lambda>slot s.
                           case slot of
                             None \<Rightarrow> Done () (unlock_buffer b s)
                           | Some req \<Rightarrow>
                               add_request e major req
                                 (upd_req req (\<lambda>_.
                                    \<lparr>r_dev = uint (b_dev (buffers s b)), r_cmd = rw, r_errors = 0,
                                     r_sector = push_bit 1 (b_blocknr (buffers s b)), r_nr_sectors = 2,
                                     r_buffer = b, r_off = 0, r_waiting = 0, r_bh = Some b, r_next = None\<rparr>) s))))"

definition ll_rw_block ::
  "('a fs_state_scheme) env \<Rightarrow> int \<Rightarrow> nat \<Rightarrow> 'a fs_state_scheme \<Rightarrow>
   (unit, 'a fs_state_scheme) outcome" where
  "ll_rw_block e rw b s =
     (let major = MAJOR (b_dev (buffers s b))
      in if NR_BLK_DEV \<le> major \<or> \<not> request_fn s major
         then Done () (printk ''Trying to read nonexistent block-device'' s)
         else make_request e major rw b s)"

definition blk_dev_init :: "'a fs_state_scheme \<Rightarrow> 'a fs_state_scheme" where
  "blk_dev_init s =
     s\<lparr>request_table := (\<lambda>i. if i < NR_REQUEST then (request_table s i)\<lparr>r_dev := - 1, r_next := None\<rparr>
                             else request_table s i)\<rparr>"



subsection \<open>The queue as a sequence\<close>

fun req_chain :: "(nat \<Rightarrow> request) \<Rightarrow> nat option \<Rightarrow> nat list \<Rightarrow> bool" where
  "req_chain tab h [] \<longleftrightarrow> h = None"
| "req_chain tab h (r # rs) \<longleftrightarrow> h = Some r \<and> req_chain tab (r_next (tab r)) rs"

text \<open>\<open>IN_ORDER\<close> is the lexicographic order on command, device and sector.\<close>

definition rkey :: "request \<Rightarrow> int \<times> int \<times> u32" where
  "rkey r = (r_cmd r, r_dev r, r_sector r)"

lemma IN_ORDER_key: "IN_ORDER r q \<longleftrightarrow> rkey r < rkey q"
  by (auto simp: IN_ORDER_def rkey_def less_prod_def)

lemma rkey_next [simp]: "rkey (q\<lparr>r_next := n\<rparr>) = rkey q"
  by (simp add: rkey_def)

text \<open>The number of places where the head would have to move back.\<close>

fun turns :: "('a :: linorder) list \<Rightarrow> nat" where
  "turns (x # y # zs) = (if x < y then 0 else 1) + turns (y # zs)"
| "turns _ = 0"

lemma req_chain_cong:
  "(\<And>r. r \<in> set rs \<Longrightarrow> r_next (tab' r) = r_next (tab r)) \<Longrightarrow> req_chain tab' h rs = req_chain tab h rs"
  by (induction rs arbitrary: h) auto

text \<open>The new request goes behind \<open>p\<close>, between \<open>ps\<close> and \<open>qs\<close>.\<close>

lemma elevator_place_splits:
  assumes "req_chain tab (Some h) (h # rs)" "length rs < n"
  shows "\<exists>ps p qs. elevator_place n tab rq h = Some p \<and> h # rs = ps @ p # qs \<and>
     req_chain tab (r_next (tab p)) qs \<and>
     (rkey rq \<notin> (\<lambda>r. rkey (tab r)) ` set (h # rs) \<longrightarrow>
        turns (map (\<lambda>r. rkey (tab r)) (ps @ [p]) @ rkey rq # map (\<lambda>r. rkey (tab r)) qs) \<le>
          max 1 (turns (map (\<lambda>r. rkey (tab r)) (h # rs))) \<and>
        (rkey (tab h) < rkey rq \<longrightarrow>
          turns (map (\<lambda>r. rkey (tab r)) (ps @ [p]) @ rkey rq # map (\<lambda>r. rkey (tab r)) qs) \<le>
            turns (map (\<lambda>r. rkey (tab r)) (h # rs))))"
  using assms
proof (induction rs arbitrary: h n)
  case Nil
  then obtain m where "n = Suc m" by (cases n) auto
  then show ?case using Nil by (intro exI [of _ "[]"] exI [of _ h]) auto
next
  case (Cons q rs)
  obtain m where n: "n = Suc m" using Cons.prems by (cases n) auto
  have nx: "r_next (tab h) = Some q" "req_chain tab (Some q) (q # rs)" using Cons.prems by auto
  let ?k = "\<lambda>r. rkey (tab r)"
  show ?case
  proof (cases "(IN_ORDER (tab h) rq \<or> \<not> IN_ORDER (tab h) (tab q)) \<and> IN_ORDER rq (tab q)")
    case True
    then have "elevator_place n tab rq h = Some h" using nx by (simp add: n)
    then show ?thesis
      using True nx by (intro exI [of _ "[]"] exI [of _ h] exI [of _ "q # rs"]) (auto simp: IN_ORDER_key)
  next
    case False
    then have run: "elevator_place n tab rq h = elevator_place m tab rq q" using nx by (auto simp: n)
    obtain ps p qs where ih: "elevator_place m tab rq q = Some p" "q # rs = ps @ p # qs"
        "req_chain tab (r_next (tab p)) qs"
        "rkey rq \<notin> ?k ` set (q # rs) \<longrightarrow>
           turns (map ?k (ps @ [p]) @ rkey rq # map ?k qs) \<le> max 1 (turns (map ?k (q # rs))) \<and>
           (?k q < rkey rq \<longrightarrow> turns (map ?k (ps @ [p]) @ rkey rq # map ?k qs) \<le> turns (map ?k (q # rs)))"
    proof -
      have "length rs < m" using Cons.prems(2) n by simp
      from Cons.IH [OF nx(2) this] show thesis using that by blast
    qed
    obtain xs where xs: "map ?k (ps @ [p]) @ rkey rq # map ?k qs = ?k q # xs"
      using ih(2) by (cases ps) auto
    have cnt: "turns (?k h # ?k q # ys) = (if ?k h < ?k q then 0 else 1) + turns (?k q # ys)" for ys by simp
    have "turns (map ?k ((h # ps) @ [p]) @ rkey rq # map ?k qs) \<le> max 1 (turns (map ?k (h # q # rs))) \<and>
        (?k h < rkey rq \<longrightarrow> turns (map ?k ((h # ps) @ [p]) @ rkey rq # map ?k qs) \<le> turns (map ?k (h # q # rs)))"
      if "rkey rq \<notin> ?k ` set (h # q # rs)"
    proof -
      have ne: "rkey rq \<noteq> ?k h" "rkey rq \<noteq> ?k q" "rkey rq \<notin> ?k ` set (q # rs)" using that by auto
      have e: "map ?k ((h # ps) @ [p]) @ rkey rq # map ?k qs = ?k h # ?k q # xs" using xs by simp
      have i: "turns (?k q # xs) \<le> max 1 (turns (?k q # map ?k rs))"
        "?k q < rkey rq \<longrightarrow> turns (?k q # xs) \<le> turns (?k q # map ?k rs)"
        using ih(4) ne(3) unfolding xs by auto
      have c: "\<not> ((?k h < rkey rq \<or> \<not> ?k h < ?k q) \<and> rkey rq < ?k q)" using False by (simp add: IN_ORDER_key)
      have "map ?k (h # q # rs) = ?k h # ?k q # map ?k rs" by simp
      moreover have "?k q < rkey rq" if "\<not> rkey rq < ?k q" using that ne(2) by simp
      ultimately show ?thesis
        unfolding e using cnt [of xs] cnt [of "map ?k rs"] i c by (cases "?k h < ?k q") auto
    qed
    then show ?thesis
      using run ih(1,2,3) by (intro exI [of _ "h # ps"] exI [of _ p] exI [of _ qs]) auto
  qed
qed


lemma link_after:
  assumes "req_chain tab h (ps @ p # qs)" "distinct (ps @ p # qs)" "req \<notin> set (ps @ p # qs)"
    and "tab' = (tab(req := (tab req)\<lparr>r_next := r_next (tab p)\<rparr>))(p := (tab p)\<lparr>r_next := Some req\<rparr>)"
  shows "req_chain tab' h (ps @ p # req # qs)"
  using assms(1-3)
proof (induction ps arbitrary: h)
  case Nil
  have "req_chain tab' (r_next (tab p)) qs = req_chain tab (r_next (tab p)) qs"
    using Nil by (intro req_chain_cong) (auto simp: assms(4))
  moreover have "r_next (tab' p) = Some req" "r_next (tab' req) = r_next (tab p)"
    using Nil by (simp_all add: assms(4))
  ultimately show ?case using Nil by simp
next
  case (Cons a ps)
  have "r_next (tab' a) = r_next (tab a)" using Cons.prems by (auto simp: assms(4))
  then show ?case using Cons by simp
qed

text \<open>
  C16: \<^verbatim>\<open>add_request\<close> on a busy device. It returns, links the new request behind some request of
  the queue, so that the request being served stays first and the others keep their
  order, and, when no other request is for the same command and sector, a queue that
  the head serves with at most one return sweep still needs at most one. The buffer of
  the request is marked clean.
\<close>

theorem add_request_elevator:
  assumes "current_request s major = Some h" and "req_chain (request_table s) (Some h) (h # rs)"
    and "distinct (h # rs)" and "req \<notin> set (h # rs)" and "length rs < NR_REQUEST"
  shows "\<exists>t ps qs. add_request e major req s = Done () t \<and> h # rs = ps @ qs \<and> ps \<noteq> [] \<and>
     current_request t major = Some h \<and> req_chain (request_table t) (Some h) (ps @ req # qs) \<and>
     (\<forall>r. rkey (request_table t r) = rkey (request_table s r)) \<and>
     (\<forall>b. r_bh (request_table s req) = Some b \<longrightarrow> b_dirt (buffers t b) = 0) \<and>
     (rkey (request_table s req) \<notin> (\<lambda>r. rkey (request_table s r)) ` set (h # rs) \<longrightarrow>
        turns (map (\<lambda>r. rkey (request_table s r)) (h # rs)) \<le> 1 \<longrightarrow>
        turns (map (\<lambda>r. rkey (request_table s r)) (ps @ req # qs)) \<le> 1)"
proof -
  define tab where "tab = (request_table s)(req := (request_table s req)\<lparr>r_next := None\<rparr>)"
  have key: "rkey (tab r) = rkey (request_table s r)" for r by (simp add: tab_def)
  have ch: "req_chain tab (Some h) (h # rs)"
    using assms(2,4) by (subst req_chain_cong [of _ _ "request_table s"]) (auto simp: tab_def)
  obtain ps p qs where e: "elevator_place (Suc NR_REQUEST) tab (tab req) h = Some p" "h # rs = ps @ p # qs"
      "rkey (tab req) \<notin> (\<lambda>r. rkey (tab r)) ` set (h # rs) \<longrightarrow>
        turns (map (\<lambda>r. rkey (tab r)) (ps @ [p]) @ rkey (tab req) # map (\<lambda>r. rkey (tab r)) qs) \<le>
          max 1 (turns (map (\<lambda>r. rkey (tab r)) (h # rs)))"
    using elevator_place_splits [OF ch less_SucI [OF assms(5)], of "tab req"] by blast
  define tab' where "tab' = (tab(req := (tab req)\<lparr>r_next := r_next (tab p)\<rparr>))(p := (tab p)\<lparr>r_next := Some req\<rparr>)"
  have ch': "req_chain tab' (Some h) (ps @ p # req # qs)"
    using ch assms(3,4) by (intro link_after [OF _ _ _ tab'_def]) (simp_all add: e(2) [symmetric])
  define u where "u = (case r_bh (request_table s req) of None \<Rightarrow> s | Some b \<Rightarrow> upd_buf b (\<lambda>bh. bh\<lparr>b_dirt := 0\<rparr>) s)"
  have u: "u\<lparr>request_table := tab\<rparr> = (case r_bh (request_table (upd_req req (\<lambda>q. q\<lparr>r_next := None\<rparr>) s) req) of
      None \<Rightarrow> upd_req req (\<lambda>q. q\<lparr>r_next := None\<rparr>) s
    | Some b \<Rightarrow> upd_buf b (\<lambda>bh. bh\<lparr>b_dirt := 0\<rparr>) (upd_req req (\<lambda>q. q\<lparr>r_next := None\<rparr>) s))"
    by (auto simp: u_def upd_req_def upd_buf_def tab_def split: option.splits)
  have "p \<noteq> req" using assms(4) e(2) by (metis in_set_conv_decomp)
  then have run: "add_request e major req s = Done () (u\<lparr>request_table := tab'\<rparr>)"
    unfolding add_request_def Let_def u [symmetric] using assms(1) e(1)
    by (simp add: u_def upd_req_def tab'_def split: option.splits)
  have key': "rkey (tab' r) = rkey (request_table s r)" for r by (simp add: tab'_def key)
  show ?thesis
  proof (intro exI conjI)
    show "add_request e major req s = Done () (u\<lparr>request_table := tab'\<rparr>)" by (rule run)
    show "h # rs = (ps @ [p]) @ qs" using e(2) by simp
    show "current_request (u\<lparr>request_table := tab'\<rparr>) major = Some h"
      using assms(1) by (simp add: u_def split: option.splits)
    show "req_chain (request_table (u\<lparr>request_table := tab'\<rparr>)) (Some h) ((ps @ [p]) @ req # qs)"
      using ch' by simp
    show "\<forall>r. rkey (request_table (u\<lparr>request_table := tab'\<rparr>) r) = rkey (request_table s r)"
      by (simp add: key')
    show "\<forall>b. r_bh (request_table s req) = Some b \<longrightarrow> b_dirt (buffers (u\<lparr>request_table := tab'\<rparr>) b) = 0"
      by (simp add: u_def)
    show "rkey (request_table s req) \<notin> (\<lambda>r. rkey (request_table s r)) ` set (h # rs) \<longrightarrow>
        turns (map (\<lambda>r. rkey (request_table s r)) (h # rs)) \<le> 1 \<longrightarrow>
        turns (map (\<lambda>r. rkey (request_table s r)) ((ps @ [p]) @ req # qs)) \<le> 1"
      using e(3) unfolding key by (auto simp: max_def split: if_splits)
  qed simp
qed


text \<open>A small file system state: four buffers, one request (slot 5) on the hard disk.\<close>

definition blank_request :: request where
  "blank_request = \<lparr>r_dev = - 1, r_cmd = 0, r_errors = 0, r_sector = 0, r_nr_sectors = 0, r_buffer = 0, r_off = 0,
     r_waiting = 0, r_bh = None, r_next = None\<rparr>"

definition blank_buffer :: "nat \<Rightarrow> buffer_head" where
  "blank_buffer i = \<lparr>b_blocknr = 0, b_dev = 0, b_uptodate = 0, b_dirt = 0, b_count = 0, b_lock = 0,
     b_prev = None, b_next = None, b_prev_free = Some ((i + 3) mod 4), b_next_free = Some ((i + 1) mod 4)\<rparr>"

definition blank_inode :: m_inode where
  "blank_inode = \<lparr>i_mode = 0, i_uid = 0, i_size = 0, i_mtime = 0, i_gid = 0, i_nlinks = 0, i_zone = (\<lambda>_. 0),
     i_atime = 0, i_ctime = 0, i_dev = 0, i_num = 0, i_count = 0, i_lock = 0, i_dirt = 0, i_pipe = 0,
     i_mount = 0, i_seek = 0, i_update = 0\<rparr>"

definition blank_super :: super_block where
  "blank_super = \<lparr>s_ninodes = 0, s_nzones = 0, s_imap_blocks = 0, s_zmap_blocks = 0, s_firstdatazone = 0,
     s_log_zone_size = 0, s_max_size = 0, s_magic = 0, s_imap = (\<lambda>_. None), s_zmap = (\<lambda>_. None), s_dev = 0,
     s_isup = None, s_imount = None, s_time = 0, s_lock = 0, s_rd_only = 0, s_dirt = 0\<rparr>"

definition demo_fs :: fs_state where
  "demo_fs = sched_state.extend demo_sched
     (fs_state.fields (\<lambda>_. blank_request) (\<lambda>_. None) ((\<lambda>_. False)(1 := True, 3 := True))
        0x400000 0x8000 (\<lambda>_. 0) 0x2B018 4 blank_buffer (\<lambda>_ _. 0) (\<lambda>_. None) 0 (\<lambda>_. blank_inode) 0
        (\<lambda>_. blank_super) (\<lambda>_. \<lparr>f_mode = 0, f_flags = 0, f_count = 0, f_inode = None, f_pos = 0\<rparr>)
        0x101 (\<lambda>_. 0))"

lemmas demo_fs_defs = demo_fs_def demo_sched_def sched_state.defs fs_state.defs

definition demo_env :: "('a fs_state_scheme) env" where
  "demo_env = \<lparr>patience = 5, others = (\<lambda>s. s), driver = (\<lambda>_ s. Done () s), sync_ino = (\<lambda>s. Done () s)\<rparr>"

definition demo_queue :: fs_state where
  "demo_queue = demo_fs\<lparr>request_table := (\<lambda>_. blank_request)
       (5 := blank_request\<lparr>r_dev := 0x301, r_sector := 10\<rparr>, 6 := blank_request\<lparr>r_dev := 0x301, r_sector := 4\<rparr>),
     current_request := (\<lambda>_. None)(3 := Some 5)\<rparr>"

theorem add_request_elevator_witness:
  "\<exists>t. add_request demo_env 3 6 demo_queue = Done () t \<and> req_chain (request_table t) (Some 5) [5, 6]"
proof -
  have h: "current_request demo_queue 3 = Some 5" "req_chain (request_table demo_queue) (Some 5) (5 # [])"
    "distinct [5 :: nat]" "(6 :: nat) \<notin> set [5]" "length ([] :: nat list) < NR_REQUEST"
    by (simp_all add: demo_queue_def blank_request_def NR_REQUEST_def)
  obtain t ps qs where t: "add_request demo_env 3 6 demo_queue = Done () t" "[5] = ps @ qs" "ps \<noteq> []"
      "req_chain (request_table t) (Some 5) (ps @ 6 # qs)"
    using add_request_elevator [OF h, of demo_env] by blast
  then have "ps = [5]" "qs = []" by (cases ps; cases qs; simp)+
  with t show ?thesis by auto
qed



subsection \<open>Transfers to and from the RAM disk\<close>

lemma copy_from_rd_eq:
  "copy_from_rd n b i addr s =
     s\<lparr>b_data := (b_data s)(b := \<lambda>j. if i \<le> j \<and> j < i + n then rd_mem s (addr + of_nat (j - i)) else b_data s b j)\<rparr>"
proof (induction n arbitrary: i addr s)
  case (Suc n)
  have "addr + 1 + of_nat (j - Suc i) = addr + of_nat (j - i)" if "Suc i \<le> j" for j
  proof -
    have "of_nat (j - i) = (1 + of_nat (j - Suc i) :: u32)" using that by (simp add: Suc_diff_Suc [symmetric])
    then show ?thesis by (simp add: add.assoc)
  qed
  then show ?case
    by (auto simp: Suc fun_eq_iff not_less_eq_eq le_Suc_eq intro!: fs_state.fold_congs)
next
  case (0 i addr s)
  have "(\<lambda>j. if i \<le> j \<and> j < i + 0 then rd_mem s (addr + of_nat (j - i)) else b_data s b j) = b_data s b"
    by (auto simp: fun_eq_iff)
  then show ?case by simp
qed

lemma copy_to_rd_eq:
  assumes "n \<le> 1024"
  shows "copy_to_rd n b i addr s =
     s\<lparr>rd_mem := \<lambda>a. if unat (a - addr) < n then b_data s b (i + unat (a - addr)) else rd_mem s a\<rparr>"
  using assms
proof (induction n arbitrary: i addr s)
  case (Suc n)
  have st: "(if unat (a - (addr + 1)) < n then b_data s b (Suc i + unat (a - (addr + 1)))
        else ((rd_mem s)(addr := b_data s b i)) a) =
      (if unat (a - addr) < Suc n then b_data s b (i + unat (a - addr)) else rd_mem s a)" for a
  proof (cases "a = addr")
    case True
    have "unat (- 1 :: u32) = 4294967295" by (simp add: unsigned_minus_1_eq_mask mask_eq_exp_minus_1)
    then show ?thesis using True Suc.prems by simp
  next
    case False
    then have "a - addr \<noteq> 0" by simp
    then have "unat (a - addr) = Suc (unat (a - (addr + 1)))"
      using unat_minus_one [of "a - addr"] by (simp add: unat_gt_0 diff_diff_eq2 algebra_simps)
    then show ?thesis using False by simp
  qed
  let ?s = "s\<lparr>rd_mem := (rd_mem s)(addr := b_data s b i)\<rparr>"
  have "copy_to_rd (Suc n) b i addr s = ?s\<lparr>rd_mem := \<lambda>a. if unat (a - (addr + 1)) < n
      then b_data ?s b (Suc i + unat (a - (addr + 1))) else rd_mem ?s a\<rparr>"
    using Suc.IH [of "Suc i" "addr + 1" ?s] Suc.prems by simp
  moreover have "(\<lambda>a. if unat (a - (addr + 1)) < n then b_data ?s b (Suc i + unat (a - (addr + 1))) else rd_mem ?s a) =
      (\<lambda>a. if unat (a - addr) < Suc n then b_data s b (i + unat (a - addr)) else rd_mem s a)"
  proof (rule ext)
    have bd: "b_data ?s = b_data s" "rd_mem ?s = (rd_mem s)(addr := b_data s b i)" by simp_all
    show "(if unat (a - (addr + 1)) < n then b_data ?s b (Suc i + unat (a - (addr + 1))) else rd_mem ?s a) =
      (if unat (a - addr) < Suc n then b_data s b (i + unat (a - addr)) else rd_mem s a)" for a
      unfolding bd by (rule st)
  qed
  ultimately show ?case by simp
qed simp


lemma wake_up_fs [simp]:
  "buffers (wake_up q s) = buffers s" "b_data (wake_up q s) = b_data s" "rd_mem (wake_up q s) = rd_mem s"
  "request_table (wake_up q s) = request_table s" "current_request (wake_up q s) = current_request s"
  "inode_table (wake_up q s) = inode_table s" "file_table (wake_up q s) = file_table s"
  "fs_mem (wake_up q s) = fs_mem s" "phys (wake_up q s) = phys s" "current (wake_up q s) = current s"
  "super_table (wake_up q s) = super_table s"
  by (simp_all add: wake_up_def upd_task_def)

lemma printk_fs [simp]:
  "buffers (printk f s) = buffers s" "b_data (printk f s) = b_data s" "rd_mem (printk f s) = rd_mem s"
  "request_table (printk f s) = request_table s" "current_request (printk f s) = current_request s"
  "inode_table (printk f s) = inode_table s" "file_table (printk f s) = file_table s"
  "super_table (printk f s) = super_table s" "tasks (printk f s) = tasks s" "current (printk f s) = current s"
  by (simp_all add: printk_def)

lemma end_request_rd:
  assumes "current_request s 1 = Some r" "r_bh (request_table s r) = Some b"
    "r_next (request_table s r) = None" "r_waiting (request_table s r) = 0"
  shows "buffers (end_request 1 up s) =
      (buffers s)(b := (buffers s b)\<lparr>b_uptodate := up, b_lock := 0\<rparr>)"
    and "b_data (end_request 1 up s) = b_data s" "rd_mem (end_request 1 up s) = rd_mem s"
    and "current_request (end_request 1 up s) = (current_request s)(1 := None)"
    and "request_table (end_request 1 up s) = (request_table s)(r := (request_table s r)\<lparr>r_dev := - 1\<rparr>)"
    and "rd_start (end_request 1 up s) = rd_start s" "rd_length (end_request 1 up s) = rd_length s"
      "request_fn (end_request 1 up s) = request_fn s"
  using assms
  by (simp_all add: end_request_def drv_unlock_buffer_def Let_def)
    (simp_all add: upd_req_def upd_buf_def wake_up_def upd_task_def printk_def)

text \<open>A buffer that belongs to block \<open>blk\<close> of the RAM disk, with nothing else queued.\<close>

definition rd_ready :: "'a fs_state_scheme \<Rightarrow> nat \<Rightarrow> bool" where
  "rd_ready s b \<longleftrightarrow> b_dev (buffers s b) = 0x101 \<and> b_lock (buffers s b) = 0 \<and> request_fn s 1 \<and>
     current_request s 1 = None \<and> (\<exists>r<NR_REQUEST * 2 div 3. r_dev (request_table s r) < 0) \<and>
     rd_start s + push_bit 10 (b_blocknr (buffers s b)) + 1024 \<le> rd_start s + rd_length s"

definition rd_addr :: "'a fs_state_scheme \<Rightarrow> nat \<Rightarrow> u32" where
  "rd_addr s b = rd_start s + push_bit 10 (b_blocknr (buffers s b))"

lemma find_request_Some:
  "\<exists>r<n. r_dev (tab r) < 0 \<Longrightarrow> \<exists>r. find_request n tab = Some r"
  by (induction n) (auto simp: less_Suc_eq)

lemma rd_transfer:
  assumes rdy: "rd_ready s b" and rw: "rw = READ \<and> b_uptodate (buffers s b) = 0 \<or> rw = WRITE \<and> b_dirt (buffers s b) \<noteq> 0"
  obtains t where "ll_rw_block e rw b s = Done () t"
    "buffers t = (buffers s)(b := (buffers s b)\<lparr>b_uptodate := 1, b_dirt := 0, b_lock := 0\<rparr>)"
    "current_request t = current_request s" "rd_start t = rd_start s" "rd_length t = rd_length s"
    "request_fn t = request_fn s" "\<forall>q. r_dev (request_table s q) < 0 \<longrightarrow> r_dev (request_table t q) < 0"
    "if rw = READ then rd_mem t = rd_mem s \<and> b_data t = (b_data s)(b := \<lambda>j. if j < 1024
          then rd_mem s (rd_addr s b + of_nat j) else b_data s b j)
     else b_data t = b_data s \<and> rd_mem t = (\<lambda>a. if unat (a - rd_addr s b) < 1024
          then b_data s b (unat (a - rd_addr s b)) else rd_mem s a)"
proof -
  let ?bh = "buffers s b"
  let ?l = "upd_buf b (\<lambda>bh. bh\<lparr>b_lock := 1\<rparr>) s"
  have rw': "rw \<noteq> READA" "rw \<noteq> WRITEA" "rw = READ \<or> rw = WRITE" using rw by (auto simp: rw_defs)
  have maj: "MAJOR 0x101 = 1" by (simp add: MAJOR_def)
  have "NR_REQUEST * 2 div 3 \<le> (if rw = READ then NR_REQUEST else NR_REQUEST * 2 div 3)"
    by (simp add: NR_REQUEST_def)
  then obtain r where r: "find_request (if rw = READ then NR_REQUEST else NR_REQUEST * 2 div 3) (request_table s) = Some r"
    using rdy find_request_Some [of "if rw = READ then NR_REQUEST else NR_REQUEST * 2 div 3" "request_table s"]
    unfolding rd_ready_def by (meson less_le_trans)
  define rq where "rq = \<lparr>r_dev = 0x101, r_cmd = rw, r_errors = 0,
      r_sector = push_bit 1 (b_blocknr ?bh), r_nr_sectors = 2,
      r_buffer = b, r_off = 0, r_waiting = 0, r_bh = Some b, r_next = None\<rparr>"
  define u where "u = (upd_buf b (\<lambda>bh. bh\<lparr>b_lock := 1, b_dirt := 0\<rparr>)
      (upd_req r (\<lambda>_. rq) s))\<lparr>current_request := (current_request s)(1 := Some r)\<rparr>"
  have "ll_rw_block e rw b s = make_request e 1 rw b s"
    using rdy by (simp add: ll_rw_block_def rd_ready_def maj NR_BLK_DEV_def)
  also have "\<dots> = add_request e 1 r (upd_req r (\<lambda>_. rq) ?l)"
    using rdy rw rw' r by (auto simp: make_request_def lock_buffer_def rd_ready_def Let_def rq_def rw_defs)
  also have "\<dots> = do_rd_request u"
    using rdy by (simp add: add_request_def Let_def rq_def call_request_fn_def rd_ready_def u_def
        upd_req_def upd_buf_def)
  finally have run: "ll_rw_block e rw b s = do_rd_request u" .
  have cu: "current_request u 1 = Some r" "request_table u r = rq" "b_lock (buffers u b) \<noteq> 0"
    "rd_start u = rd_start s" "rd_length u = rd_length s" "rd_mem u = rd_mem s" "b_data u = b_data s"
    by (simp_all add: u_def upd_req_def upd_buf_def)
  have "rd_start s + push_bit 9 (push_bit 1 (b_blocknr ?bh)) = rd_addr s b"
    unfolding rd_addr_def push_bit_push_bit by simp
  then have ad: "rd_start s + push_bit 9 (b_blocknr ?bh * 2) = rd_addr s b" by simp
  have len: "push_bit 9 (2 :: u32) = 1024" by simp
  have rng: "\<not> rd_start s + rd_length s < rd_addr s b + 1024" using rdy by (simp add: rd_ready_def rd_addr_def not_less)
  define v where "v = (if rw = WRITE then copy_to_rd 1024 b 0 (rd_addr s b) u else copy_from_rd 1024 b 0 (rd_addr s b) u)"
  have cv: "current_request v = current_request u" "request_table v = request_table u" "buffers v = buffers u"
    "rd_start v = rd_start u" "rd_length v = rd_length u" "request_fn v = request_fn u"
    by (simp_all add: v_def copy_to_rd_eq copy_from_rd_eq)
  have "do_rd_request u = rd_request_loop NR_REQUEST (end_request 1 1 v)"
    using cu rng rw'(3) unfolding do_rd_request_def
    by (auto simp: rq_def ad len Let_def v_def rw_defs)
  moreover have "rd_request_loop NR_REQUEST (end_request 1 1 v) = Done () (end_request 1 1 v)"
    using end_request_rd(4) [of v r b 1] cu cv by (simp add: rq_def NR_REQUEST_def numeral_eq_Suc)
  ultimately have fin: "ll_rw_block e rw b s = Done () (end_request 1 1 v)" using run by simp
  have ev: "current_request v 1 = Some r" "r_bh (request_table v r) = Some b"
    "r_next (request_table v r) = None" "r_waiting (request_table v r) = 0"
    using cu cv by (simp_all add: rq_def)
  note er = end_request_rd [OF ev, of 1]
  show thesis
  proof (rule that [OF fin])
    show "buffers (end_request 1 1 v) = (buffers s)(b := (buffers s b)\<lparr>b_uptodate := 1, b_dirt := 0, b_lock := 0\<rparr>)"
      unfolding er cv by (simp add: u_def fun_eq_iff)
    show "current_request (end_request 1 1 v) = current_request s"
      unfolding er cv using rdy by (simp add: u_def fun_eq_iff rd_ready_def)
    show "rd_start (end_request 1 1 v) = rd_start s" "rd_length (end_request 1 1 v) = rd_length s"
      "request_fn (end_request 1 1 v) = request_fn s"
      unfolding er cv cu by (simp_all add: u_def)
    show "\<forall>q. r_dev (request_table s q) < 0 \<longrightarrow> r_dev (request_table (end_request 1 1 v) q) < 0"
      unfolding er cv by (simp add: u_def)
    show "if rw = READ then rd_mem (end_request 1 1 v) = rd_mem s \<and> b_data (end_request 1 1 v) = (b_data s)(b := \<lambda>j. if j < 1024
          then rd_mem s (rd_addr s b + of_nat j) else b_data s b j)
     else b_data (end_request 1 1 v) = b_data s \<and> rd_mem (end_request 1 1 v) = (\<lambda>a. if unat (a - rd_addr s b) < 1024
          then b_data s b (unat (a - rd_addr s b)) else rd_mem s a)"
      unfolding er using rw'(3)
      by (auto simp: v_def copy_to_rd_eq copy_from_rd_eq cu(6,7) rw_defs fun_eq_iff)
  qed
qed


text \<open>
  C17: Writing a dirty buffer to the RAM disk and then reading the same block into any
  other buffer, with the two buffers idle and in range, returns both times without
  waiting and gives the second buffer the contents of the first; only that block of the
  device and only the second buffer's data have changed.
\<close>

theorem rd_write_read:
  assumes "rd_ready s b" and "rd_ready s c" and "b \<noteq> c" and "b_blocknr (buffers s b) = b_blocknr (buffers s c)"
    and "b_dirt (buffers s b) \<noteq> 0" and "b_uptodate (buffers s c) = 0"
  shows "returns (kbind (ll_rw_block e WRITE b s) (\<lambda>_ s. ll_rw_block e READ c s)) (\<lambda>_ t.
     (\<forall>j<1024. b_data t c j = b_data s b j) \<and> (\<forall>d. d \<noteq> c \<longrightarrow> b_data t d = b_data s d) \<and>
     b_uptodate (buffers t c) = 1 \<and> b_lock (buffers t c) = 0 \<and> b_dirt (buffers t b) = 0 \<and>
     (\<forall>a. 1024 \<le> unat (a - rd_addr s b) \<longrightarrow> rd_mem t a = rd_mem s a))"
proof -
  have wr: "READ \<noteq> WRITE" by (simp add: rw_defs)
  obtain u where u: "ll_rw_block e WRITE b s = Done () u"
    "buffers u = (buffers s)(b := (buffers s b)\<lparr>b_uptodate := 1, b_dirt := 0, b_lock := 0\<rparr>)"
    "current_request u = current_request s" "rd_start u = rd_start s" "rd_length u = rd_length s"
    "request_fn u = request_fn s" "\<forall>q. r_dev (request_table s q) < 0 \<longrightarrow> r_dev (request_table u q) < 0"
    "b_data u = b_data s" "rd_mem u = (\<lambda>a. if unat (a - rd_addr s b) < 1024
          then b_data s b (unat (a - rd_addr s b)) else rd_mem s a)"
    by (rule rd_transfer [OF assms(1), of WRITE e]) (use assms(5) wr in auto)
  have bc: "buffers u c = buffers s c" using assms(3) u(2) by simp
  have "rd_ready u c" using assms(2) u(3-7) by (auto simp: rd_ready_def bc)
  moreover have ad: "rd_addr u c = rd_addr s b" using assms(4) u(4) by (simp add: rd_addr_def bc)
  ultimately have ru: "rd_ready u c" and ad: "rd_addr u c = rd_addr s b" by simp_all
  obtain t where t: "ll_rw_block e READ c u = Done () t"
    "buffers t = (buffers u)(c := (buffers u c)\<lparr>b_uptodate := 1, b_dirt := 0, b_lock := 0\<rparr>)"
    "rd_mem t = rd_mem u" "b_data t = (b_data u)(c := \<lambda>j. if j < 1024
          then rd_mem u (rd_addr u c + of_nat j) else b_data u c j)"
    by (rule rd_transfer [OF ru, of READ e]) (use assms(6) wr bc in auto)
  have "unat (rd_addr s b + of_nat j - rd_addr s b) = j" if "j < 1024" for j
    using that by (simp add: unat_of_nat take_bit_nat_eq_self)
  then show ?thesis using t u(1,2,8,9) assms(3) by (simp add: ad)
qed

definition demo_rd :: fs_state where
  "demo_rd = demo_fs\<lparr>buffers := (\<lambda>i. (blank_buffer i)\<lparr>b_dev := 0x101, b_blocknr := 3, b_dirt := if i = 0 then 1 else 0\<rparr>),
     b_data := (\<lambda>_ _. 0)(0 := (\<lambda>_. 7))\<rparr>"

theorem rd_write_read_witness:
  "returns (kbind (ll_rw_block demo_env WRITE 0 demo_rd) (\<lambda>_ s. ll_rw_block demo_env READ 1 s)) (\<lambda>_ t. b_data t 1 5 = 7)"
proof -
  have rq: "\<exists>r<NR_REQUEST * 2 div 3. r_dev (request_table demo_rd r) < 0"
    by (rule exI [of _ 0]) (simp add: NR_REQUEST_def demo_rd_def demo_fs_defs blank_request_def)
  have "rd_ready demo_rd 0" "rd_ready demo_rd 1"
    using rq by (simp_all add: rd_ready_def) (simp_all add: demo_rd_def demo_fs_defs blank_buffer_def)
  moreover have "b_dirt (buffers demo_rd 0) \<noteq> 0" "b_uptodate (buffers demo_rd 1) = 0"
    "b_blocknr (buffers demo_rd 0) = b_blocknr (buffers demo_rd 1)" "b_data demo_rd 0 5 = 7"
    by (simp_all add: demo_rd_def blank_buffer_def)
  ultimately show ?thesis
    using rd_write_read [of demo_rd 0 1 demo_env] by (auto elim!: returns_mono)
qed

end
