(* ===== verification/Buffer.thy ===== *)
theory Buffer
  imports Blk_Dev
begin

text \<open>
  The buffer cache, \<^verbatim>\<open>fs/buffer.c\<close>: looking a block up in the hash table, choosing a buffer to
  reuse, reading blocks, writing back. The lists are linked through the buffer heads,
  as in the code. A store through a \<^verbatim>\<open>NULL\<close> buffer pointer hits the first bytes of physical
  memory, where the page directory is.
\<close>


subsection \<open>Waiting and writing back\<close>

fun wait_on_buffer_loop ::
  "nat \<Rightarrow> ('a fs_state_scheme) env \<Rightarrow> nat \<Rightarrow> 'a fs_state_scheme \<Rightarrow>
   (unit, 'a fs_state_scheme) outcome" where
  "wait_on_buffer_loop 0 e b s = Stop Asleep s"
| "wait_on_buffer_loop (Suc n) e b s =
     (if b_lock (buffers s b) \<noteq> 0
      then kbind (sleep_on e (Wait_Buffer b) s) (\<lambda>_ s. wait_on_buffer_loop n e b s)
      else Done () s)"

definition wait_on_buffer ::
  "('a fs_state_scheme) env \<Rightarrow> nat \<Rightarrow> 'a fs_state_scheme \<Rightarrow> (unit, 'a fs_state_scheme) outcome" where
  "wait_on_buffer e b s = wait_on_buffer_loop (Suc (patience e)) e b s"

definition sys_sync ::
  "('a fs_state_scheme) env \<Rightarrow> 'a fs_state_scheme \<Rightarrow> (int, 'a fs_state_scheme) outcome" where
  "sys_sync e s =
     kbind (sync_ino e s) (\<lambda>_ s.
     kbind (kfold (\<lambda>i s. kbind (wait_on_buffer e i s) (\<lambda>_ s.
              if b_dirt (buffers s i) \<noteq> 0 then ll_rw_block e WRITE i s else Done () s))
              [0..<nr_buffers s] s)
       (\<lambda>_ s. Done 0 s))"

definition sync_dev_pass ::
  "('a fs_state_scheme) env \<Rightarrow> u16 \<Rightarrow> 'a fs_state_scheme \<Rightarrow> (unit, 'a fs_state_scheme) outcome" where
  "sync_dev_pass e dev s =
     kfold (\<lambda>i s. if b_dev (buffers s i) \<noteq> dev then Done () s
                  else kbind (wait_on_buffer e i s) (\<lambda>_ s.
                       if b_dev (buffers s i) = dev \<and> b_dirt (buffers s i) \<noteq> 0
                       then ll_rw_block e WRITE i s else Done () s))
       [0..<nr_buffers s] s"

definition sync_dev ::
  "('a fs_state_scheme) env \<Rightarrow> u16 \<Rightarrow> 'a fs_state_scheme \<Rightarrow> (int, 'a fs_state_scheme) outcome" where
  "sync_dev e dev s =
     kbind (sync_dev_pass e dev s) (\<lambda>_ s.
     kbind (sync_ino e s) (\<lambda>_ s.
     kbind (sync_dev_pass e dev s) (\<lambda>_ s. Done 0 s)))"

definition invalidate_buffers ::
  "('a fs_state_scheme) env \<Rightarrow> u16 \<Rightarrow> 'a fs_state_scheme \<Rightarrow> (unit, 'a fs_state_scheme) outcome" where
  "invalidate_buffers e dev s =
     kfold (\<lambda>i s. if b_dev (buffers s i) \<noteq> dev then Done () s
                  else kbind (wait_on_buffer e i s) (\<lambda>_ s.
                       Done () (if b_dev (buffers s i) = dev
                                then upd_buf i (\<lambda>bh. bh\<lparr>b_uptodate := 0, b_dirt := 0\<rparr>) s else s)))
       [0..<nr_buffers s] s"


subsection \<open>The lists\<close>

definition hashfn :: "u16 \<Rightarrow> u32 \<Rightarrow> nat" where
  "hashfn dev block = unat (ucast dev XOR block) mod NR_HASH"

text \<open>The address of a buffer head (36 bytes each), and stores through a buffer pointer.\<close>

definition bh_addr :: "'a fs_state_scheme \<Rightarrow> nat option \<Rightarrow> u32" where
  "bh_addr s p = (case p of None \<Rightarrow> 0 | Some b \<Rightarrow> start_buffer s + of_nat (36 * b))"

definition set_b_prev :: "nat option \<Rightarrow> nat option \<Rightarrow> 'a fs_state_scheme \<Rightarrow> 'a fs_state_scheme" where
  "set_b_prev p v s =
     (case p of Some b \<Rightarrow> upd_buf b (\<lambda>bh. bh\<lparr>b_prev := v\<rparr>) s | None \<Rightarrow> poke 20 (bh_addr s v) s)"

definition set_b_next :: "nat option \<Rightarrow> nat option \<Rightarrow> 'a fs_state_scheme \<Rightarrow> 'a fs_state_scheme" where
  "set_b_next p v s =
     (case p of Some b \<Rightarrow> upd_buf b (\<lambda>bh. bh\<lparr>b_next := v\<rparr>) s | None \<Rightarrow> poke 24 (bh_addr s v) s)"

definition set_b_prev_free :: "nat option \<Rightarrow> nat option \<Rightarrow> 'a fs_state_scheme \<Rightarrow> 'a fs_state_scheme" where
  "set_b_prev_free p v s =
     (case p of Some b \<Rightarrow> upd_buf b (\<lambda>bh. bh\<lparr>b_prev_free := v\<rparr>) s | None \<Rightarrow> poke 28 (bh_addr s v) s)"

definition set_b_next_free :: "nat option \<Rightarrow> nat option \<Rightarrow> 'a fs_state_scheme \<Rightarrow> 'a fs_state_scheme" where
  "set_b_next_free p v s =
     (case p of Some b \<Rightarrow> upd_buf b (\<lambda>bh. bh\<lparr>b_next_free := v\<rparr>) s | None \<Rightarrow> poke 32 (bh_addr s v) s)"

definition remove_from_hash :: "nat \<Rightarrow> 'a fs_state_scheme \<Rightarrow> 'a fs_state_scheme" where
  "remove_from_hash b s =
     (let bh = buffers s b;
          s = (if b_next bh \<noteq> None then set_b_prev (b_next bh) (b_prev bh) s else s);
          s = (if b_prev bh \<noteq> None then set_b_next (b_prev bh) (b_next bh) s else s);
          h = hashfn (b_dev bh) (b_blocknr bh)
      in if hash_table s h = Some b then s\<lparr>hash_table := (hash_table s)(h := b_next bh)\<rparr> else s)"

definition remove_from_queues ::
  "nat \<Rightarrow> 'a fs_state_scheme \<Rightarrow> (unit, 'a fs_state_scheme) outcome" where
  "remove_from_queues b s =
     (let s = remove_from_hash b s;
          bh = buffers s b
      in if b_prev_free bh = None \<or> b_next_free bh = None then Stop (Panic ''Free block list corrupted'') s
         else let s = set_b_next_free (b_prev_free bh) (b_next_free bh) s;
                  s = set_b_prev_free (b_next_free (buffers s b)) (b_prev_free (buffers s b)) s
              in Done () (if free_list s = b then s\<lparr>free_list := the (b_next_free (buffers s b))\<rparr> else s))"

definition insert_into_free :: "nat \<Rightarrow> 'a fs_state_scheme \<Rightarrow> 'a fs_state_scheme" where
  "insert_into_free b s =
     (let fl = free_list s;
          s = upd_buf b (\<lambda>bh. bh\<lparr>b_next_free := Some fl\<rparr>) s;
          s = upd_buf b (\<lambda>bh. bh\<lparr>b_prev_free := b_prev_free (buffers s fl)\<rparr>) s;
          s = set_b_next_free (b_prev_free (buffers s fl)) (Some b) s
      in upd_buf fl (\<lambda>bh. bh\<lparr>b_prev_free := Some b\<rparr>) s)"

definition insert_into_hash :: "nat \<Rightarrow> 'a fs_state_scheme \<Rightarrow> 'a fs_state_scheme" where
  "insert_into_hash b s =
     (let s = upd_buf b (\<lambda>bh. bh\<lparr>b_prev := None, b_next := None\<rparr>) s
      in if b_dev (buffers s b) = 0 then s
         else let h = hashfn (b_dev (buffers s b)) (b_blocknr (buffers s b));
                  s = upd_buf b (\<lambda>bh. bh\<lparr>b_next := hash_table s h\<rparr>) s;
                  s = s\<lparr>hash_table := (hash_table s)(h := Some b)\<rparr>
              in set_b_prev (b_next (buffers s b)) (Some b) s)"

definition insert_into_queues :: "nat \<Rightarrow> 'a fs_state_scheme \<Rightarrow> 'a fs_state_scheme" where
  "insert_into_queues b s = insert_into_hash b (insert_into_free b s)"

text \<open>\<open>n\<close> bounds the length of the hash chain; there are \<^verbatim>\<open>NR_BUFFERS\<close> buffers in all.\<close>

fun find_in_chain :: "nat \<Rightarrow> (nat \<Rightarrow> buffer_head) \<Rightarrow> u16 \<Rightarrow> u32 \<Rightarrow> nat option \<Rightarrow> nat option" where
  "find_in_chain 0 bs dev block tmp = None"
| "find_in_chain (Suc n) bs dev block tmp =
     (case tmp of
        None \<Rightarrow> None
      | Some b \<Rightarrow> if b_dev (bs b) = dev \<and> b_blocknr (bs b) = block then Some b
                  else find_in_chain n bs dev block (b_next (bs b)))"

definition find_buffer :: "u16 \<Rightarrow> u32 \<Rightarrow> 'a fs_state_scheme \<Rightarrow> nat option" where
  "find_buffer dev block s =
     find_in_chain (Suc (nr_buffers s)) (buffers s) dev block (hash_table s (hashfn dev block))"


subsection \<open>Getting a buffer\<close>

fun get_hash_table_loop ::
  "nat \<Rightarrow> ('a fs_state_scheme) env \<Rightarrow> u16 \<Rightarrow> u32 \<Rightarrow> 'a fs_state_scheme \<Rightarrow>
   (nat option, 'a fs_state_scheme) outcome" where
  "get_hash_table_loop 0 e dev block s = Stop Asleep s"
| "get_hash_table_loop (Suc n) e dev block s =
     (case find_buffer dev block s of
        None \<Rightarrow> Done None s
      | Some b \<Rightarrow>
          kbind (wait_on_buffer e b (upd_buf b (\<lambda>bh. bh\<lparr>b_count := b_count bh + 1\<rparr>) s)) (\<lambda>_ s.
          if b_dev (buffers s b) = dev \<and> b_blocknr (buffers s b) = block then Done (Some b) s
          else get_hash_table_loop n e dev block (upd_buf b (\<lambda>bh. bh\<lparr>b_count := b_count bh - 1\<rparr>) s)))"

definition get_hash_table ::
  "('a fs_state_scheme) env \<Rightarrow> u16 \<Rightarrow> u32 \<Rightarrow> 'a fs_state_scheme \<Rightarrow>
   (nat option, 'a fs_state_scheme) outcome" where
  "get_hash_table e dev block s = get_hash_table_loop (Suc (patience e)) e dev block s"

definition BADNESS :: "buffer_head \<Rightarrow> nat" where
  "BADNESS bh = 2 * unat (b_dirt bh) + unat (b_lock bh)"

text \<open>The \<^verbatim>\<open>do ... while\<close> loop over the circular free list: the best buffer seen so far.\<close>

fun free_scan :: "nat \<Rightarrow> (nat \<Rightarrow> buffer_head) \<Rightarrow> nat \<Rightarrow> nat option \<Rightarrow> nat \<Rightarrow> nat option" where
  "free_scan 0 bs fl best tmp = best"
| "free_scan (Suc n) bs fl best tmp =
     (let better = (b_count (bs tmp) = 0 \<and> (case best of None \<Rightarrow> True | Some b \<Rightarrow> BADNESS (bs tmp) < BADNESS (bs b)));
          best' = (if better then Some tmp else best)
      in if better \<and> BADNESS (bs tmp) = 0 then best'
         else case b_next_free (bs tmp) of
                None \<Rightarrow> best'
              | Some nx \<Rightarrow> if nx = fl then best' else free_scan n bs fl best' nx)"

text \<open>\<^verbatim>\<open>while (bh->b_dirt)\<close>: true when the buffer was taken by somebody else meanwhile.\<close>

fun clean_buffer ::
  "nat \<Rightarrow> ('a fs_state_scheme) env \<Rightarrow> nat \<Rightarrow> 'a fs_state_scheme \<Rightarrow>
   (bool, 'a fs_state_scheme) outcome" where
  "clean_buffer 0 e b s = Stop Asleep s"
| "clean_buffer (Suc n) e b s =
     (if b_dirt (buffers s b) = 0 then Done False s
      else kbind (sync_dev e (b_dev (buffers s b)) s) (\<lambda>_ s.
           kbind (wait_on_buffer e b s) (\<lambda>_ s.
           if b_count (buffers s b) \<noteq> 0 then Done True s else clean_buffer n e b s)))"

definition take_buffer ::
  "nat \<Rightarrow> u16 \<Rightarrow> u32 \<Rightarrow> 'a fs_state_scheme \<Rightarrow> (nat, 'a fs_state_scheme) outcome" where
  "take_buffer b dev block s =
     kbind (remove_from_queues b
              (upd_buf b (\<lambda>bh. bh\<lparr>b_count := 1, b_dirt := 0, b_uptodate := 0\<rparr>) s)) (\<lambda>_ s.
     Done b (insert_into_queues b (upd_buf b (\<lambda>bh. bh\<lparr>b_dev := dev, b_blocknr := block\<rparr>) s)))"

fun getblk_loop ::
  "nat \<Rightarrow> ('a fs_state_scheme) env \<Rightarrow> u16 \<Rightarrow> u32 \<Rightarrow> 'a fs_state_scheme \<Rightarrow>
   (nat, 'a fs_state_scheme) outcome" where
  "getblk_loop 0 e dev block s = Stop Asleep s"
| "getblk_loop (Suc n) e dev block s =
     kbind (get_hash_table e dev block s) (\<lambda>r s.
     case r of
       Some b \<Rightarrow> Done b s
     | None \<Rightarrow>
         (case free_scan (nr_buffers s) (buffers s) (free_list s) None (free_list s) of
            None \<Rightarrow> kbind (sleep_on e Wait_Buffer_Free s) (\<lambda>_ s. getblk_loop n e dev block s)
          | Some b \<Rightarrow>
              kbind (wait_on_buffer e b s) (\<lambda>_ s.
              if b_count (buffers s b) \<noteq> 0 then getblk_loop n e dev block s
              else kbind (clean_buffer (Suc (patience e)) e b s) (\<lambda>again s.
                   if again \<or> find_buffer dev block s \<noteq> None then getblk_loop n e dev block s
                   else take_buffer b dev block s))))"

definition getblk ::
  "('a fs_state_scheme) env \<Rightarrow> u16 \<Rightarrow> u32 \<Rightarrow> 'a fs_state_scheme \<Rightarrow>
   (nat, 'a fs_state_scheme) outcome" where
  "getblk e dev block s = getblk_loop (Suc (patience e)) e dev block s"

definition brelse ::
  "('a fs_state_scheme) env \<Rightarrow> nat option \<Rightarrow> 'a fs_state_scheme \<Rightarrow>
   (unit, 'a fs_state_scheme) outcome" where
  "brelse e buf s =
     (case buf of
        None \<Rightarrow> Done () s
      | Some b \<Rightarrow>
          kbind (wait_on_buffer e b s) (\<lambda>_ s.
          let old = b_count (buffers s b);
              s = upd_buf b (\<lambda>bh. bh\<lparr>b_count := b_count bh - 1\<rparr>) s
          in if old = 0 then Stop (Panic ''Trying to free free buffer'') s
             else Done () (wake_up Wait_Buffer_Free s)))"

definition bread ::
  "('a fs_state_scheme) env \<Rightarrow> u16 \<Rightarrow> u32 \<Rightarrow> 'a fs_state_scheme \<Rightarrow>
   (nat option, 'a fs_state_scheme) outcome" where
  "bread e dev block s =
     kbind (getblk e dev block s) (\<lambda>b s.
     if b_uptodate (buffers s b) \<noteq> 0 then Done (Some b) s
     else kbind (ll_rw_block e READ b s) (\<lambda>_ s.
          kbind (wait_on_buffer e b s) (\<lambda>_ s.
          if b_uptodate (buffers s b) \<noteq> 0 then Done (Some b) s
          else kbind (brelse e (Some b) s) (\<lambda>_ s. Done None s))))"

text \<open>
  \<^verbatim>\<open>COPYBLK\<close> into physical memory: 256 longwords, low byte first. \<^verbatim>\<open>bread_page\<close> starts the
  four reads before it waits for the first.
\<close>

definition block_long :: "(nat \<Rightarrow> u8) \<Rightarrow> nat \<Rightarrow> u32" where
  "block_long d j =
     ucast (d (4 * j)) OR push_bit 8 (ucast (d (4 * j + 1))) OR
     push_bit 16 (ucast (d (4 * j + 2))) OR push_bit 24 (ucast (d (4 * j + 3)))"

definition COPYBLK :: "(nat \<Rightarrow> u8) \<Rightarrow> u32 \<Rightarrow> 'a fs_state_scheme \<Rightarrow> 'a fs_state_scheme" where
  "COPYBLK d to s = fold (\<lambda>j s. poke (to + of_nat (4 * j)) (block_long d j) s) [0..<BLOCK_SIZE div 4] s"

fun bread_page_start ::
  "('a fs_state_scheme) env \<Rightarrow> u16 \<Rightarrow> u32 list \<Rightarrow> 'a fs_state_scheme \<Rightarrow>
   (nat option list, 'a fs_state_scheme) outcome" where
  "bread_page_start e dev [] s = Done [] s"
| "bread_page_start e dev (b # bs) s =
     kbind (if b \<noteq> 0
            then kbind (getblk e dev b s) (\<lambda>bh s.
                 kbind (if b_uptodate (buffers s bh) = 0 then ll_rw_block e READ bh s else Done () s) (\<lambda>_ s.
                 Done (Some bh) s))
            else Done None s) (\<lambda>r s.
     kbind (bread_page_start e dev bs s) (\<lambda>rs s. Done (r # rs) s))"

fun bread_page_copy ::
  "('a fs_state_scheme) env \<Rightarrow> u32 \<Rightarrow> nat option list \<Rightarrow> 'a fs_state_scheme \<Rightarrow>
   (unit, 'a fs_state_scheme) outcome" where
  "bread_page_copy e address [] s = Done () s"
| "bread_page_copy e address (r # rs) s =
     kbind (case r of
              None \<Rightarrow> Done () s
            | Some bh \<Rightarrow>
                kbind (wait_on_buffer e bh s) (\<lambda>_ s.
                brelse e (Some bh)
                  (if b_uptodate (buffers s bh) \<noteq> 0 then COPYBLK (b_data s bh) address s else s))) (\<lambda>_ s.
     bread_page_copy e (address + of_nat BLOCK_SIZE) rs s)"

definition bread_page ::
  "('a fs_state_scheme) env \<Rightarrow> u32 \<Rightarrow> u16 \<Rightarrow> u32 list \<Rightarrow> 'a fs_state_scheme \<Rightarrow>
   (unit, 'a fs_state_scheme) outcome" where
  "bread_page e address dev b s =
     kbind (bread_page_start e dev b s) (\<lambda>bhs s. bread_page_copy e address bhs s)"

text \<open>
  The read-ahead loop of \<^verbatim>\<open>breada\<close> passes \<^verbatim>\<open>bh\<close>, the buffer of the first block, to
  \<^verbatim>\<open>ll_rw_block\<close>.
\<close>

definition breada ::
  "('a fs_state_scheme) env \<Rightarrow> u16 \<Rightarrow> u32 \<Rightarrow> u32 list \<Rightarrow> 'a fs_state_scheme \<Rightarrow>
   (nat option, 'a fs_state_scheme) outcome" where
  "breada e dev first ahead s =
     kbind (getblk e dev first s) (\<lambda>bh s.
     kbind (if b_uptodate (buffers s bh) = 0 then ll_rw_block e READ bh s else Done () s) (\<lambda>_ s.
     kbind (kfold (\<lambda>blk s.
              kbind (getblk e dev blk s) (\<lambda>tmp s.
              kbind (if b_uptodate (buffers s tmp) = 0 then ll_rw_block e READA bh s else Done () s) (\<lambda>_ s.
              Done () (upd_buf tmp (\<lambda>t. t\<lparr>b_count := b_count t - 1\<rparr>) s)))) ahead s) (\<lambda>_ s.
     kbind (wait_on_buffer e bh s) (\<lambda>_ s.
     if b_uptodate (buffers s bh) \<noteq> 0 then Done (Some bh) s
     else kbind (brelse e (Some bh) s) (\<lambda>_ s. Done None s)))))"

text \<open>
  \<^verbatim>\<open>buffer_init\<close>: heads grow upwards from \<^verbatim>\<open>start_buffer\<close> while data blocks are carved off
  downwards from \<open>b\<close>, leaving out the range from 640 KB to 1 MB.
\<close>

function init_heads :: "u32 \<Rightarrow> nat \<Rightarrow> nat \<Rightarrow> nat" where
  "init_heads start b n =
     (if 1024 \<le> b \<and> unat start + 36 * (n + 1) \<le> b - 1024
      then init_heads start (if b - 1024 = 0x100000 then 0xA0000 else b - 1024) (n + 1)
      else n)"
  by pat_completeness auto

termination
  by (relation "measure (\<lambda>(_, b, _). b)") auto

declare init_heads.simps [simp del]

definition buffer_init :: "u32 \<Rightarrow> 'a fs_state_scheme \<Rightarrow> 'a fs_state_scheme" where
  "buffer_init buffer_end s =
     (let b = (if buffer_end = push_bit 20 1 then 640 * 1024 else unat buffer_end);
          n = init_heads (start_buffer s) b 0
      in s\<lparr>nr_buffers := n, free_list := 0, hash_table := (\<lambda>i. if i < NR_HASH then None else hash_table s i),
           wait_head := (\<lambda>q. case q of Wait_Buffer i \<Rightarrow> if i < n then 0 else wait_head s q | _ \<Rightarrow> wait_head s q),
           buffers := (\<lambda>i. if i < n
             then (buffers s i)\<lparr>b_dev := 0, b_dirt := 0, b_count := 0, b_lock := 0, b_uptodate := 0,
                    b_next := None, b_prev := None, b_prev_free := Some (if i = 0 then n - 1 else i - 1),
                    b_next_free := Some (if i = n - 1 then 0 else i + 1)\<rparr>
             else buffers s i)\<rparr>)"

end
