(* ===== verification/Free_Ring.thy ===== *)
theory Free_Ring
  imports Kernel_Prelude
begin

text \<open>
  Circular doubly linked lists, as the free list of the buffer cache is one. A ring is given by the links to the next and
  to the previous element; \<open>ring nx pv xs\<close> says that following them from the first element of \<open>xs\<close> visits \<open>xs\<close> and comes
  back.
\<close>

definition linked :: "(nat \<Rightarrow> nat option) \<Rightarrow> (nat \<Rightarrow> nat option) \<Rightarrow> nat \<Rightarrow> nat \<Rightarrow> bool" where
  "linked nx pv a b \<longleftrightarrow> nx a = Some b \<and> pv b = Some a"

definition ring :: "(nat \<Rightarrow> nat option) \<Rightarrow> (nat \<Rightarrow> nat option) \<Rightarrow> nat list \<Rightarrow> bool" where
  "ring nx pv xs \<longleftrightarrow> xs \<noteq> [] \<and> distinct xs \<and> successively (linked nx pv) (xs @ [hd xs])"

lemma ring_iff:
  "ring nx pv xs \<longleftrightarrow> xs \<noteq> [] \<and> distinct xs \<and> successively (linked nx pv) xs \<and> linked nx pv (last xs) (hd xs)"
  by (auto simp: ring_def successively_append_iff)

lemma ring_rotate:
  assumes "ring nx pv (xs @ ys)" "ys \<noteq> []"
  shows "ring nx pv (ys @ xs)"
  using assms by (cases "xs = []") (auto simp: ring_iff successively_append_iff)

lemma ring_links:
  assumes "ring nx pv (b # ys)"
  shows "nx b = Some (if ys = [] then b else hd ys)" "pv b = Some (if ys = [] then b else last ys)"
  using assms by (auto simp: ring_iff successively_Cons linked_def)

lemma ring_member_links:
  assumes "ring nx pv xs" "b \<in> set xs"
  obtains p n where "nx b = Some n" "pv b = Some p" "p \<in> set xs" "n \<in> set xs"
proof -
  obtain ys zs where xs: "xs = ys @ b # zs" using assms(2) by (auto simp: in_set_conv_decomp)
  then have "ring nx pv (b # zs @ ys)" using ring_rotate [of nx pv ys "b # zs"] assms(1) by simp
  from ring_links [OF this] obtain p n where l: "nx b = Some n" "pv b = Some p" "zs @ ys = [] \<longrightarrow> p = b \<and> n = b"
    "zs @ ys \<noteq> [] \<longrightarrow> p = last (zs @ ys) \<and> n = hd (zs @ ys)" by (auto split: if_splits)
  have "p \<in> set xs \<and> n \<in> set xs"
    using l(3,4) last_in_set [of "zs @ ys"] hd_in_set [of "zs @ ys"] by (cases "zs @ ys = []") (auto simp: xs simp del: hd_append last_append)
  then show thesis using that l(1,2) by blast
qed

lemma successively_cong_links:
  assumes "successively (linked nx pv) xs" "\<And>a. a \<in> set (butlast xs) \<Longrightarrow> nx' a = nx a" "\<And>b. b \<in> set (tl xs) \<Longrightarrow> pv' b = pv b"
  shows "successively (linked nx' pv') xs"
  using assms
proof (induction xs)
  case (Cons x xs)
  then show ?case by (cases xs) (auto simp: linked_def split: if_splits)
qed simp

text \<open>Taking an element out.\<close>

lemma ring_unlink_head:
  assumes "ring nx pv (b # ys)" "ys \<noteq> []"
  shows "ring (nx(last ys := Some (hd ys))) (pv(hd ys := Some (last ys))) ys"
proof -
  have d: "distinct ys" "successively (linked nx pv) ys" using assms by (auto simp: ring_iff successively_Cons)
  have "successively (linked (nx(last ys := Some (hd ys))) (pv(hd ys := Some (last ys)))) ys"
  proof (rule successively_cong_links [OF d(2)])
    show "(nx(last ys := Some (hd ys))) a = nx a" if "a \<in> set (butlast ys)" for a
      using that d(1) assms(2) by (cases ys rule: rev_cases) auto
    show "(pv(hd ys := Some (last ys))) a = pv a" if "a \<in> set (tl ys)" for a
      using that d(1) assms(2) by (cases ys) auto
  qed
  then show ?thesis using d(1) assms(2) by (simp add: ring_iff linked_def)
qed

lemma ring_unlink:
  assumes "ring nx pv xs" "b \<in> set xs" "removeAll b xs \<noteq> []" "nx b = Some n" "pv b = Some p"
  shows "ring (nx(p := Some n)) (pv(n := Some p)) (removeAll b xs)" "n = (if hd xs = b then hd (removeAll b xs) else n)"
    "hd xs \<noteq> b \<Longrightarrow> hd (removeAll b xs) = hd xs" "n \<noteq> b" "p \<noteq> b"
proof -
  obtain ys zs where xs: "xs = ys @ b # zs" using assms(2) by (auto simp: in_set_conv_decomp)
  have d: "distinct xs" using assms(1) by (simp add: ring_def)
  then have rm: "removeAll b xs = ys @ zs" by (simp add: xs)
  have r: "ring nx pv (b # zs @ ys)" using ring_rotate [of nx pv ys "b # zs"] assms(1) by (simp add: xs)
  have ne: "zs @ ys \<noteq> []" using assms(3) rm by auto
  have np: "n = hd (zs @ ys)" "p = last (zs @ ys)" using ring_links [OF r] assms(4,5) ne by auto
  have "ring (nx(p := Some n)) (pv(n := Some p)) (zs @ ys)" using ring_unlink_head [OF r ne] np by simp
  then show "ring (nx(p := Some n)) (pv(n := Some p)) (removeAll b xs)"
    unfolding rm using ring_rotate [of _ _ zs ys] by (cases ys) auto
  show "n = (if hd xs = b then hd (removeAll b xs) else n)"
    using d np by (cases ys) (auto simp: xs)
  show "hd xs \<noteq> b \<Longrightarrow> hd (removeAll b xs) = hd xs" using d by (cases ys) (auto simp: xs)
  have "n \<in> set (zs @ ys)" "p \<in> set (zs @ ys)" unfolding np using ne by (auto simp del: set_append)
  then show "n \<noteq> b" "p \<noteq> b" using d by (auto simp: xs)
qed

text \<open>Putting an element in before the first one, that is, last.\<close>

lemma ring_append:
  assumes "ring nx pv xs" "b \<notin> set xs" "pv (hd xs) = Some p"
  shows "ring (nx(b := Some (hd xs), p := Some b)) (pv(b := Some p, hd xs := Some b)) (xs @ [b])"
proof -
  have x: "xs \<noteq> []" "distinct xs" "successively (linked nx pv) xs" "linked nx pv (last xs) (hd xs)"
    using assms(1) by (auto simp: ring_iff)
  have p: "p = last xs" using x(4) assms(3) by (simp add: linked_def)
  have pb: "p \<noteq> b" "hd xs \<noteq> b" using assms(2) x(1) by (auto simp: p)
  have "successively (linked (nx(b := Some (hd xs), p := Some b)) (pv(b := Some p, hd xs := Some b))) xs"
  proof (rule successively_cong_links [OF x(3)])
    show "(nx(b := Some (hd xs), p := Some b)) a = nx a" if "a \<in> set (butlast xs)" for a
    proof -
      have "a \<noteq> b" using that assms(2) by (metis in_set_butlastD)
      moreover have "a \<noteq> p" using that x(1,2) by (cases xs rule: rev_cases) (auto simp: p)
      ultimately show ?thesis by simp
    qed
    show "(pv(b := Some p, hd xs := Some b)) a = pv a" if "a \<in> set (tl xs)" for a
      using that x(1,2) assms(2) by (cases xs) auto
  qed
  then show ?thesis
    using x(1,2) assms(2) pb by (auto simp: ring_iff successively_append_iff linked_def p)
qed

text \<open>An element that is moved to the end, with the links read and stored in the order of the code; \<open>f\<close> is the first element.\<close>

lemma ring_reuse:
  assumes r: "ring nx pv xs" and b: "b \<in> set xs" "nx b = Some n" "pv b = Some p" and f: "f = hd xs"
  defines "nx1 \<equiv> nx(p := Some n)" and "pv1 \<equiv> pv(n := Some p)" and "f1 \<equiv> (if f = b then n else f)"
  shows "\<exists>q. pv1 f1 = Some q \<and> ring (nx1(b := Some f1, q := Some b)) (pv1(b := Some q, f1 := Some b)) (removeAll b xs @ [b]) \<and>
    f1 = hd (removeAll b xs @ [b])"
proof (cases "removeAll b xs = []")
  case True
  then have "set xs \<subseteq> {b}" by (metis empty_set set_removeAll Diff_eq_empty_iff)
  then have xs: "xs = [b]" using r b(1) by (cases xs rule: remdups_adj.cases) (auto simp: ring_iff)
  have "n = b" "p = b" using ring_links [of nx pv b "[]"] r b by (simp_all add: xs)
  then show ?thesis by (simp add: nx1_def pv1_def f1_def f xs ring_iff linked_def)
next
  case False
  note u = ring_unlink [OF r b(1) False b(2,3), folded nx1_def pv1_def]
  have f1: "f1 = hd (removeAll b xs)" using u(2,3) by (auto simp: f1_def f)
  then have "f1 \<in> set (removeAll b xs)" using False hd_in_set by metis
  then obtain q where q: "pv1 f1 = Some q" using ring_member_links [OF u(1)] by metis
  have "ring (nx1(b := Some (hd (removeAll b xs)), q := Some b)) (pv1(b := Some q, hd (removeAll b xs) := Some b)) (removeAll b xs @ [b])"
    by (rule ring_append [OF u(1)]) (use q f1 in auto)
  then show ?thesis using q f1 False by auto
qed

end
