(* ===== verification/Buffer_Cache.thy ===== *)
theory Buffer_Cache
  imports Buffer Free_Ring
begin

text \<open>
  Correctness of the buffer cache: the hash chains are doubly linked lists that hold
  every buffer with a device exactly once, in the bucket of its block, and no block
  twice; so a lookup finds a block exactly when some buffer holds it. The free list is a
  ring of all buffers. Reusing a buffer keeps this invariant, and \<^verbatim>\<open>getblk\<close>, whatever happens
  while it sleeps, returns the buffer of the requested block, which was in the cache or
  which nobody used and nobody had still to write.
\<close>


subsection \<open>Doubly linked chains\<close>

fun dlist :: "(nat \<Rightarrow> buffer_head) \<Rightarrow> nat option \<Rightarrow> nat option \<Rightarrow> nat list \<Rightarrow> bool" where
  "dlist bs p h [] \<longleftrightarrow> h = None"
| "dlist bs p h (b # xs) \<longleftrightarrow> h = Some b \<and> b_prev (bs b) = p \<and> dlist bs (Some b) (b_next (bs b)) xs"

lemma dlist_cong:
  "(\<And>b. b \<in> set xs \<Longrightarrow> b_prev (bs' b) = b_prev (bs b) \<and> b_next (bs' b) = b_next (bs b)) \<Longrightarrow>
     dlist bs' p h xs = dlist bs p h xs"
  by (induction xs arbitrary: p h) auto

lemma dlist_ends:
  "dlist bs p h (xs @ b # ys) \<Longrightarrow>
     b_prev (bs b) = (if xs = [] then p else Some (last xs)) \<and>
     b_next (bs b) = (case ys of [] \<Rightarrow> None | y # _ \<Rightarrow> Some y) \<and>
     h = Some (hd (xs @ [b]))"
  by (induction xs arbitrary: p h) (auto split: list.splits if_splits)

text \<open>The stores of \<^verbatim>\<open>remove_from_queues\<close> that take \<open>b\<close> out of its chain.\<close>

definition unlinked :: "(nat \<Rightarrow> buffer_head) \<Rightarrow> nat \<Rightarrow> (nat \<Rightarrow> buffer_head)" where
  "unlinked bs b =
     (let bs1 = (case b_next (bs b) of None \<Rightarrow> bs | Some y \<Rightarrow> bs(y := (bs y)\<lparr>b_prev := b_prev (bs b)\<rparr>))
      in case b_prev (bs b) of None \<Rightarrow> bs1 | Some x \<Rightarrow> bs1(x := (bs1 x)\<lparr>b_next := b_next (bs b)\<rparr>))"

lemma dlist_relink_prev:
  "dlist bs q h ys \<Longrightarrow> distinct ys \<Longrightarrow>
     dlist (case h of None \<Rightarrow> bs | Some y \<Rightarrow> bs(y := (bs y)\<lparr>b_prev := p\<rparr>)) p h ys"
proof (induction ys)
  case (Cons y zs)
  have "dlist (bs(y := (bs y)\<lparr>b_prev := p\<rparr>)) (Some y) (b_next (bs y)) zs = dlist bs (Some y) (b_next (bs y)) zs"
    using Cons by (intro dlist_cong) auto
  then show ?case using Cons by (simp add: fun_upd_def)
qed simp

lemma dlist_remove:
  assumes "dlist bs p h (xs @ b # ys)" "distinct (xs @ b # ys)"
    and "case p of None \<Rightarrow> True | Some q \<Rightarrow> q \<notin> set (xs @ b # ys)"
  shows "dlist (unlinked bs b) p (if h = Some b then b_next (bs b) else h) (xs @ ys)"
  using assms
proof (induction xs arbitrary: p h)
  case Nil
  let ?bs1 = "case b_next (bs b) of None \<Rightarrow> bs | Some y \<Rightarrow> bs(y := (bs y)\<lparr>b_prev := p\<rparr>)"
  have d: "dlist ?bs1 p (b_next (bs b)) ys" using Nil by (intro dlist_relink_prev [of _ "Some b"]) auto
  have "dlist (unlinked bs b) p (b_next (bs b)) ys = dlist ?bs1 p (b_next (bs b)) ys"
    using Nil by (intro dlist_cong) (auto simp: unlinked_def Let_def split: option.splits)
  then show ?case using d Nil by simp
next
  case (Cons a xs)
  have ab: "a \<noteq> b" "h = Some a" "b_prev (bs a) = p" "dlist bs (Some a) (b_next (bs a)) (xs @ b # ys)"
    using Cons.prems by auto
  have ih: "dlist (unlinked bs b) (Some a) (if b_next (bs a) = Some b then b_next (bs b) else b_next (bs a)) (xs @ ys)"
    using Cons.IH [OF ab(4)] Cons.prems by simp
  have e: "b_prev (bs b) = (if xs = [] then Some a else Some (last xs))"
    "b_next (bs b) = (case ys of [] \<Rightarrow> None | y # _ \<Rightarrow> Some y)" "b_next (bs a) = Some (hd (xs @ [b]))"
    using dlist_ends [OF ab(4)] by auto
  have an: "\<forall>y. b_next (bs b) = Some y \<longrightarrow> a \<noteq> y" using e(2) Cons.prems(2) by (auto split: list.splits)
  have "b_prev (unlinked bs b a) = p" using an ab(3) by (auto simp: unlinked_def Let_def split: option.splits)
  moreover have "b_next (unlinked bs b a) = (if b_next (bs a) = Some b then b_next (bs b) else b_next (bs a))"
  proof (cases xs)
    case Nil
    then show ?thesis using e an by (auto simp: unlinked_def Let_def split: option.splits)
  next
    case (Cons x xs')
    then have "b_prev (bs b) \<noteq> Some a" "b_next (bs a) \<noteq> Some b"
      using e Cons.prems(2) by (auto split: if_splits)
    then show ?thesis using an by (auto simp: unlinked_def Let_def split: option.splits)
  qed
  ultimately show ?case using ih ab by simp
qed

lemma dlist_insert:
  assumes "dlist bs None h ys" "distinct ys" "b \<notin> set ys"
  shows "dlist (case h of None \<Rightarrow> bs(b := (bs b)\<lparr>b_prev := None, b_next := h\<rparr>)
                | Some y \<Rightarrow> bs(b := (bs b)\<lparr>b_prev := None, b_next := h\<rparr>, y := (bs y)\<lparr>b_prev := Some b\<rparr>))
           None (Some b) (b # ys)"
proof (cases ys)
  case Nil
  then show ?thesis using assms by simp
next
  case (Cons y zs)
  let ?bs = "bs(b := (bs b)\<lparr>b_prev := None, b_next := Some y\<rparr>, y := (bs y)\<lparr>b_prev := Some b\<rparr>)"
  have "dlist ?bs (Some y) (b_next (bs y)) zs = dlist bs (Some y) (b_next (bs y)) zs"
    using Cons assms by (intro dlist_cong) auto
  then show ?thesis using Cons assms by simp
qed


subsection \<open>The invariant\<close>

definition bkey :: "buffer_head \<Rightarrow> u16 \<times> u32" where
  "bkey bh = (b_dev bh, b_blocknr bh)"

abbreviation bucket :: "buffer_head \<Rightarrow> nat" where
  "bucket bh \<equiv> hashfn (b_dev bh) (b_blocknr bh)"

lemma hashfn_less: "hashfn d k < NR_HASH"
  by (simp add: hashfn_def NR_HASH_def)

text \<open>\<open>ch h\<close> lists the buffers of bucket \<open>h\<close>.\<close>

definition chains_ok ::
  "(nat \<Rightarrow> buffer_head) \<Rightarrow> (nat \<Rightarrow> nat option) \<Rightarrow> nat \<Rightarrow> (nat \<Rightarrow> nat list) \<Rightarrow> bool" where
  "chains_ok bs tab n ch \<longleftrightarrow>
     (\<forall>h<NR_HASH. dlist bs None (tab h) (ch h) \<and> distinct (ch h) \<and>
        set (ch h) = {b. b < n \<and> b_dev (bs b) \<noteq> 0 \<and> bucket (bs b) = h}) \<and>
     (\<forall>b<n. b_dev (bs b) = 0 \<longrightarrow> b_prev (bs b) = None \<and> b_next (bs b) = None) \<and>
     (\<forall>b<n. \<forall>c<n. b_dev (bs b) \<noteq> 0 \<longrightarrow> bkey (bs b) = bkey (bs c) \<longrightarrow> b = c)"

definition links_ok :: "(nat \<Rightarrow> buffer_head) \<Rightarrow> nat \<Rightarrow> bool" where
  "links_ok bs n \<longleftrightarrow> (\<forall>b<n. (\<exists>x<n. b_next_free (bs b) = Some x) \<and> (\<exists>x<n. b_prev_free (bs b) = Some x))"

text \<open>The free list is a ring of all buffers, in the order \<open>fl\<close>.\<close>

abbreviation next_free :: "'a fs_state_scheme \<Rightarrow> nat \<Rightarrow> nat option" where
  "next_free s \<equiv> (\<lambda>b. b_next_free (buffers s b))"

abbreviation prev_free :: "'a fs_state_scheme \<Rightarrow> nat \<Rightarrow> nat option" where
  "prev_free s \<equiv> (\<lambda>b. b_prev_free (buffers s b))"

definition free_ring :: "'a fs_state_scheme \<Rightarrow> nat list \<Rightarrow> bool" where
  "free_ring s fl \<longleftrightarrow> ring (next_free s) (prev_free s) fl \<and> set fl = {..<nr_buffers s} \<and> hd fl = free_list s"

definition cache_ok :: "'a fs_state_scheme \<Rightarrow> bool" where
  "cache_ok s \<longleftrightarrow> (\<exists>ch. chains_ok (buffers s) (hash_table s) (nr_buffers s) ch) \<and> (\<exists>fl. free_ring s fl)"

lemma free_ring_links:
  assumes "free_ring s fl"
  shows "links_ok (buffers s) (nr_buffers s)" "free_list s < nr_buffers s"
proof -
  have r: "ring (next_free s) (prev_free s) fl" "set fl = {..<nr_buffers s}" "hd fl = free_list s" using assms by (auto simp: free_ring_def)
  show "links_ok (buffers s) (nr_buffers s)"
    unfolding links_ok_def using ring_member_links [OF r(1)] r(2) by (metis lessThan_iff)
  have "hd fl \<in> set fl" using r(1) by (simp add: ring_def)
  then show "free_list s < nr_buffers s" using r(2,3) by simp
qed

lemma cache_ok_links: "cache_ok s \<Longrightarrow> links_ok (buffers s) (nr_buffers s) \<and> free_list s < nr_buffers s"
  using free_ring_links by (auto simp: cache_ok_def)

lemma find_in_chain_dlist:
  assumes "dlist bs p h xs" "length xs < n"
  shows "find_in_chain n bs dev block h = find (\<lambda>b. b_dev (bs b) = dev \<and> b_blocknr (bs b) = block) xs"
  using assms
proof (induction xs arbitrary: p h n)
  case Nil
  then show ?case by (cases n) auto
next
  case (Cons b xs)
  then show ?case by (cases n) auto
qed

lemma find_unique:
  assumes "\<And>b c. b \<in> set xs \<Longrightarrow> c \<in> set xs \<Longrightarrow> P b \<Longrightarrow> P c \<Longrightarrow> b = c"
  shows "find P xs = Some b \<longleftrightarrow> b \<in> set xs \<and> P b"
  using assms by (induction xs) auto

lemma find_buffer_iff:
  assumes "cache_ok s" "dev \<noteq> 0"
  shows "find_buffer dev block s = Some b \<longleftrightarrow>
     b < nr_buffers s \<and> b_dev (buffers s b) = dev \<and> b_blocknr (buffers s b) = block"
proof -
  obtain ch where ch: "chains_ok (buffers s) (hash_table s) (nr_buffers s) ch"
    using assms(1) by (auto simp: cache_ok_def)
  let ?h = "hashfn dev block" and ?P = "\<lambda>b. b_dev (buffers s b) = dev \<and> b_blocknr (buffers s b) = block"
  have d: "dlist (buffers s) None (hash_table s ?h) (ch ?h)" "distinct (ch ?h)"
    "set (ch ?h) = {b. b < nr_buffers s \<and> b_dev (buffers s b) \<noteq> 0 \<and> bucket (buffers s b) = ?h}"
    using ch hashfn_less by (auto simp: chains_ok_def)
  have "length (ch ?h) \<le> nr_buffers s"
    using d(2,3) distinct_card [OF d(2)] card_mono [of "{..<nr_buffers s}" "set (ch ?h)"] by auto
  then have "find_buffer dev block s = find ?P (ch ?h)"
    unfolding find_buffer_def by (intro find_in_chain_dlist [OF d(1)]) simp
  moreover have "find ?P (ch ?h) = Some b \<longleftrightarrow> b \<in> set (ch ?h) \<and> ?P b"
    using ch d(3) assms(2) by (intro find_unique) (auto simp: chains_ok_def bkey_def)
  ultimately show ?thesis using d(3) assms(2) by auto
qed



subsection \<open>Taking a buffer out and putting it back\<close>

text \<open>What the invariant of the chains depends on.\<close>

definition hv :: "buffer_head \<Rightarrow> nat option \<times> nat option \<times> u16 \<times> u32" where
  "hv bh = (b_prev bh, b_next bh, b_dev bh, b_blocknr bh)"

definition uv :: "buffer_head \<Rightarrow> u8 \<times> u8 \<times> u8 \<times> u8" where
  "uv bh = (b_uptodate bh, b_dirt bh, b_count bh, b_lock bh)"

lemma hv_fields: "hv x = hv y \<longleftrightarrow>
    b_prev x = b_prev y \<and> b_next x = b_next y \<and> b_dev x = b_dev y \<and> b_blocknr x = b_blocknr y"
  by (simp add: hv_def)

lemma chains_ok_cong:
  assumes "\<And>b. hv (bs' b) = hv (bs b)"
  shows "chains_ok bs' tab n ch = chains_ok bs tab n ch"
proof -
  have "dlist bs' None h xs = dlist bs None h xs" for h xs using assms by (intro dlist_cong) (simp add: hv_fields)
  moreover have "b_dev (bs' b) = b_dev (bs b)" "b_blocknr (bs' b) = b_blocknr (bs b)"
    "b_prev (bs' b) = b_prev (bs b)" "b_next (bs' b) = b_next (bs b)" for b
    using assms [of b] by (simp_all add: hv_fields)
  ultimately show ?thesis by (simp add: chains_ok_def bkey_def)
qed

text \<open>The chains without buffer \<open>b\<close>.\<close>

definition chains_but ::
  "nat \<Rightarrow> (nat \<Rightarrow> buffer_head) \<Rightarrow> (nat \<Rightarrow> nat option) \<Rightarrow> nat \<Rightarrow> (nat \<Rightarrow> nat list) \<Rightarrow> bool" where
  "chains_but b bs tab n ch \<longleftrightarrow>
     (\<forall>h<NR_HASH. dlist bs None (tab h) (ch h) \<and> distinct (ch h) \<and>
        set (ch h) = {c. c < n \<and> c \<noteq> b \<and> b_dev (bs c) \<noteq> 0 \<and> bucket (bs c) = h}) \<and>
     (\<forall>c<n. c \<noteq> b \<longrightarrow> b_dev (bs c) = 0 \<longrightarrow> b_prev (bs c) = None \<and> b_next (bs c) = None) \<and>
     (\<forall>c<n. \<forall>d<n. c \<noteq> b \<longrightarrow> d \<noteq> b \<longrightarrow> b_dev (bs c) \<noteq> 0 \<longrightarrow> bkey (bs c) = bkey (bs d) \<longrightarrow> c = d)"

lemma unlinked_fields [simp]:
  "b_dev (unlinked bs b c) = b_dev (bs c)" "b_blocknr (unlinked bs b c) = b_blocknr (bs c)"
  "bkey (unlinked bs b c) = bkey (bs c)"
  by (auto simp: unlinked_def Let_def bkey_def split: option.splits)

lemma unlinked_outside:
  "Some c \<noteq> b_next (bs b) \<Longrightarrow> Some c \<noteq> b_prev (bs b) \<Longrightarrow> unlinked bs b c = bs c"
  by (auto simp: unlinked_def Let_def split: option.splits)

lemma dlist_neighbours:
  assumes "dlist bs None h xs" "b \<in> set xs" "Some c = b_next (bs b) \<or> Some c = b_prev (bs b)"
  shows "c \<in> set xs"
proof -
  obtain ys zs where xs: "xs = ys @ b # zs" using assms(2) by (auto simp: in_set_conv_decomp)
  then show ?thesis
    using dlist_ends [of bs None h ys b zs] assms(1,3) by (auto split: list.splits if_splits)
qed

lemma chains_remove:
  assumes ok: "chains_ok bs tab n ch" and b: "b < n"
  defines "h0 \<equiv> bucket (bs b)"
  shows "chains_but b (unlinked bs b) (if tab h0 = Some b then tab(h0 := b_next (bs b)) else tab) n
           (\<lambda>h. removeAll b (ch h))"
proof -
  let ?tab = "if tab h0 = Some b then tab(h0 := b_next (bs b)) else tab"
  have c: "dlist bs None (tab h) (ch h)" "distinct (ch h)"
    "set (ch h) = {b. b < n \<and> b_dev (bs b) \<noteq> 0 \<and> bucket (bs b) = h}" if "h < NR_HASH" for h
    using ok that by (auto simp: chains_ok_def)
  have z: "b_prev (bs c) = None \<and> b_next (bs c) = None" if "c < n" "b_dev (bs c) = 0" for c
    using ok that by (auto simp: chains_ok_def)
  have hd: "Some b = tab h \<Longrightarrow> b \<in> set (ch h)" if "h < NR_HASH" for h
    using c(1) [OF that] by (cases "ch h") auto
  have h0: "h0 < NR_HASH" by (simp add: h0_def hashfn_less)
  have dl: "dlist (unlinked bs b) None (?tab h) (removeAll b (ch h))" if h: "h < NR_HASH" for h
  proof (cases "b \<in> set (ch h)")
    case True
    then have hh: "h = h0" using c(3) [OF h] by (simp add: h0_def)
    obtain ys zs where xs: "ch h = ys @ b # zs" using True by (auto simp: in_set_conv_decomp)
    have "removeAll b (ch h) = ys @ zs" using xs c(2) [OF h] by simp
    then show ?thesis
      using dlist_remove [of bs None "tab h" ys b zs] c(1,2) [OF h] xs hh by (auto split: if_splits)
  next
    case False
    have "tab h \<noteq> Some b" using False hd [OF h] by metis
    then have "?tab h = tab h" by (cases "h = h0") simp_all
    moreover have "unlinked bs b x = bs x" if x: "x \<in> set (ch h)" for x
    proof (rule unlinked_outside)
      have "b_dev (bs b) = 0 \<or> b \<in> set (ch h0)" using c(3) [OF h0] b by (auto simp: h0_def)
      then have nb: "x \<in> set (ch h0)" if "Some x = b_next (bs b) \<or> Some x = b_prev (bs b)"
        using z [OF b] dlist_neighbours [OF c(1) [OF h0]] that by auto
      have "h \<noteq> h0 \<or> b_dev (bs b) = 0" using False c(3) [OF h] b by (auto simp: h0_def)
      then consider "b_dev (bs b) = 0" | "x \<notin> set (ch h0)"
        using x c(3) [OF h] c(3) [OF h0] by force
      then show "Some x \<noteq> b_next (bs b)" "Some x \<noteq> b_prev (bs b)"
        by (cases; use nb z [OF b] in force)+
    qed
    ultimately show ?thesis
      using False c(1) [OF h] dlist_cong [of "ch h" "unlinked bs b" bs None "tab h"] by simp
  qed
  have un: "b_prev (unlinked bs b x) = None \<and> b_next (unlinked bs b x) = None"
    if "x < n" "b_dev (bs x) = 0" "x \<noteq> b" for x
  proof -
    have "unlinked bs b x = bs x"
    proof (cases "b_dev (bs b) = 0")
      case True
      then show ?thesis using z [OF b] by (intro unlinked_outside) auto
    next
      case False
      then have "b \<in> set (ch h0)" using c(3) [OF h0] b by (simp add: h0_def)
      then have "y \<in> set (ch h0)" if "Some y = b_next (bs b) \<or> Some y = b_prev (bs b)" for y
        using dlist_neighbours [OF c(1) [OF h0]] that by blast
      moreover have "x \<notin> set (ch h0)" using c(3) [OF h0] that by simp
      ultimately show ?thesis by (intro unlinked_outside) blast+
    qed
    then show ?thesis using z [OF that(1,2)] by simp
  qed
  have st: "set (removeAll b (ch h)) = {c. c < n \<and> c \<noteq> b \<and> b_dev (bs c) \<noteq> 0 \<and> bucket (bs c) = h}"
    if "h < NR_HASH" for h using c(3) [OF that] by auto
  have uq: "x = y" if "x < n" "y < n" "b_dev (bs x) \<noteq> 0" "bkey (bs x) = bkey (bs y)" for x y
    using ok that unfolding chains_ok_def by blast
  show ?thesis
    unfolding chains_but_def unlinked_fields
    using dl un st c(2) uq by (intro conjI allI impI) (blast intro: distinct_removeAll)+
qed

lemma chains_insert:
  assumes rm: "chains_but b bs tab n ch" and b: "b < n" and key: "b_dev (bs b) \<noteq> 0"
    and new: "\<forall>c<n. c \<noteq> b \<longrightarrow> bkey (bs c) \<noteq> bkey (bs b)"
  defines "h0 \<equiv> bucket (bs b)"
  defines "bs' \<equiv> case tab h0 of None \<Rightarrow> bs(b := (bs b)\<lparr>b_prev := None, b_next := tab h0\<rparr>)
      | Some y \<Rightarrow> bs(b := (bs b)\<lparr>b_prev := None, b_next := tab h0\<rparr>, y := (bs y)\<lparr>b_prev := Some b\<rparr>)"
  shows "chains_ok bs' (tab(h0 := Some b)) n (ch(h0 := b # ch h0))"
proof -
  have c: "dlist bs None (tab h) (ch h)" "distinct (ch h)"
    "set (ch h) = {c. c < n \<and> c \<noteq> b \<and> b_dev (bs c) \<noteq> 0 \<and> bucket (bs c) = h}" if "h < NR_HASH" for h
    using rm that by (auto simp: chains_but_def)
  have h0: "h0 < NR_HASH" by (simp add: h0_def hashfn_less)
  have hd: "y \<in> set (ch h0)" if "tab h0 = Some y" for y using c(1) [OF h0] that by (cases "ch h0") auto
  have yb: "y \<noteq> b" if "tab h0 = Some y" for y using hd [OF that] c(3) [OF h0] by simp
  have f: "b_dev (bs' x) = b_dev (bs x)" "b_blocknr (bs' x) = b_blocknr (bs x)" "bkey (bs' x) = bkey (bs x)" for x
    by (auto simp: bs'_def bkey_def split: option.splits)
  have out: "bs' x = bs x" if "x \<noteq> b" "x \<notin> set (ch h0)" for x
    using that hd by (auto simp: bs'_def split: option.splits)
  have dl: "dlist bs' None ((tab(h0 := Some b)) h) ((ch(h0 := b # ch h0)) h)" if h: "h < NR_HASH" for h
  proof (cases "h = h0")
    case True
    have "dlist bs' None (Some b) (b # ch h0)"
      unfolding bs'_def using c [OF h0] by (intro dlist_insert) auto
    then show ?thesis using True by simp
  next
    case False
    have "bs' x = bs x" if "x \<in> set (ch h)" for x
      using that False c(3) [OF h] c(3) [OF h0] by (intro out) simp_all
    then have "dlist bs' None (tab h) (ch h) = dlist bs None (tab h) (ch h)" by (intro dlist_cong) simp
    then show ?thesis using False c(1) [OF h] by simp
  qed
  have st: "set ((ch(h0 := b # ch h0)) h) = {c. c < n \<and> b_dev (bs' c) \<noteq> 0 \<and> bucket (bs' c) = h}"
    if h: "h < NR_HASH" for h
    using c(3) [OF h] b key by (auto simp: f h0_def)
  have di: "distinct ((ch(h0 := b # ch h0)) h)" if h: "h < NR_HASH" for h
    using c(2,3) [OF h] by auto
  have zz: "b_prev (bs' x) = None \<and> b_next (bs' x) = None" if "x < n" "b_dev (bs' x) = 0" for x
  proof -
    have "x \<noteq> b" "x \<notin> set (ch h0)" using that key c(3) [OF h0] by (auto simp: f)
    then show ?thesis using that rm by (simp add: out chains_but_def)
  qed
  have uq: "x = y" if "x < n" "y < n" "b_dev (bs' x) \<noteq> 0" "bkey (bs' x) = bkey (bs' y)" for x y
  proof (cases "x = b \<or> y = b")
    case True
    then show ?thesis using that new f(3) by metis
  next
    case False
    have "b_dev (bs x) \<noteq> 0" "bkey (bs x) = bkey (bs y)" using that(3,4) by (simp_all add: f)
    then show ?thesis using False that(1,2) rm unfolding chains_but_def by blast
  qed
  show ?thesis unfolding chains_ok_def
  proof (intro conjI allI impI)
    fix h assume h: "h < NR_HASH"
    show "dlist bs' None ((tab(h0 := Some b)) h) ((ch(h0 := b # ch h0)) h)" by (rule dl [OF h])
    show "distinct ((ch(h0 := b # ch h0)) h)" by (rule di [OF h])
    show "set ((ch(h0 := b # ch h0)) h) = {c. c < n \<and> b_dev (bs' c) \<noteq> 0 \<and> bucket (bs' c) = h}"
      by (rule st [OF h])
  qed (use zz uq in blast)+
qed


subsection \<open>Reusing a buffer\<close>

lemma links_ok_upd:
  "links_ok bs n \<Longrightarrow> x < n \<Longrightarrow> links_ok (bs(c := (bs c)\<lparr>b_next_free := Some x\<rparr>)) n"
  "links_ok bs n \<Longrightarrow> x < n \<Longrightarrow> links_ok (bs(c := (bs c)\<lparr>b_prev_free := Some x\<rparr>)) n"
  by (auto simp: links_ok_def)

lemma links_ok_cong:
  "(\<And>b. b_next_free (bs' b) = b_next_free (bs b) \<and> b_prev_free (bs' b) = b_prev_free (bs b)) \<Longrightarrow>
     links_ok bs' n = links_ok bs n"
  by (simp add: links_ok_def)

lemma links_okD:
  assumes "links_ok bs n" "b < n"
  obtains x y where "b_next_free (bs b) = Some x" "x < n" "b_prev_free (bs b) = Some y" "y < n"
  using assms by (auto simp: links_ok_def)

lemma remove_from_hash_eq:
  "buffers (remove_from_hash b s) = unlinked (buffers s) b"
  "hash_table (remove_from_hash b s) =
     (let h = bucket (buffers s b)
      in if hash_table s h = Some b then (hash_table s)(h := b_next (buffers s b)) else hash_table s)"
  "nr_buffers (remove_from_hash b s) = nr_buffers s" "free_list (remove_from_hash b s) = free_list s"
  by (auto simp: remove_from_hash_def unlinked_def set_b_prev_def set_b_next_def Let_def
      upd_buf_def split: option.splits)

lemma unlinked_free_links:
  "b_next_free (unlinked bs b c) = b_next_free (bs c)" "b_prev_free (unlinked bs b c) = b_prev_free (bs c)"
  by (auto simp: unlinked_def Let_def split: option.splits)

lemma remove_from_queues_ok:
  assumes "links_ok (buffers s) (nr_buffers s)" "b < nr_buffers s" "free_list s < nr_buffers s"
  obtains t where "remove_from_queues b s = Done () t"
    "\<And>c. hv (buffers t c) = hv (unlinked (buffers s) b c)" "\<And>c. uv (buffers t c) = uv (buffers s c)"
    "hash_table t = hash_table (remove_from_hash b s)" "nr_buffers t = nr_buffers s"
    "links_ok (buffers t) (nr_buffers s)" "free_list t < nr_buffers s"
proof -
  let ?r = "remove_from_hash b s" and ?n = "nr_buffers s"
  have l: "links_ok (buffers ?r) ?n"
    using assms(1) links_ok_cong [of "buffers ?r" "buffers s"] by (simp add: remove_from_hash_eq unlinked_free_links)
  obtain x y where xy: "b_next_free (buffers ?r b) = Some x" "x < ?n" "b_prev_free (buffers ?r b) = Some y" "y < ?n"
    using links_okD [OF l assms(2)] by blast
  define u where "u = set_b_next_free (Some y) (Some x) ?r"
  have lu: "links_ok (buffers u) ?n" using l xy by (simp add: u_def set_b_next_free_def links_ok_upd)
  obtain x' y' where xy': "b_next_free (buffers u b) = Some x'" "x' < ?n" "b_prev_free (buffers u b) = Some y'" "y' < ?n"
    using links_okD [OF lu assms(2)] by blast
  define v where "v = set_b_prev_free (Some x') (Some y') u"
  have lv: "links_ok (buffers v) ?n" using lu xy' by (simp add: v_def set_b_prev_free_def links_ok_upd)
  obtain x'' where x'': "b_next_free (buffers v b) = Some x''" "x'' < ?n" using links_okD [OF lv assms(2)] by blast
  define t where "t = (if free_list v = b then v\<lparr>free_list := x''\<rparr> else v)"
  show thesis
  proof (rule that [of t])
    show "remove_from_queues b s = Done () t"
      using xy xy' x'' by (simp add: remove_from_queues_def Let_def t_def v_def u_def)
    show "hv (buffers t c) = hv (unlinked (buffers s) b c)" for c
      by (simp add: t_def v_def u_def set_b_prev_free_def set_b_next_free_def remove_from_hash_eq hv_def)
    have "uv (unlinked bs b c) = uv (bs c)" for bs c
      by (auto simp: unlinked_def Let_def uv_def split: option.splits)
    then show "uv (buffers t c) = uv (buffers s c)" for c
      by (simp add: t_def v_def u_def set_b_prev_free_def set_b_next_free_def remove_from_hash_eq)
        (simp add: uv_def)
    show "hash_table t = hash_table ?r" "nr_buffers t = ?n"
      by (simp_all add: t_def v_def u_def set_b_prev_free_def set_b_next_free_def remove_from_hash_eq)
    show "links_ok (buffers t) ?n" using lv by (simp add: t_def)
    show "free_list t < ?n"
      using x'' assms(3)
      by (simp add: t_def v_def u_def set_b_prev_free_def set_b_next_free_def remove_from_hash_eq)
  qed
qed

lemma insert_into_free_ok:
  assumes l: "links_ok (buffers s) (nr_buffers s)" and b: "b < nr_buffers s" and f: "free_list s < nr_buffers s"
  defines "t \<equiv> insert_into_free b s"
  shows "\<And>c. hv (buffers t c) = hv (buffers s c)" "\<And>c. uv (buffers t c) = uv (buffers s c)"
    "hash_table t = hash_table s" "nr_buffers t = nr_buffers s"
    "links_ok (buffers t) (nr_buffers s)" "free_list t = free_list s" "phys t = phys s"
proof -
  let ?n = "nr_buffers s" and ?fl = "free_list s"
  define s1 where "s1 = upd_buf b (\<lambda>bh. bh\<lparr>b_next_free := Some ?fl\<rparr>) s"
  have l1: "links_ok (buffers s1) ?n" using l f by (simp add: s1_def links_ok_upd)
  obtain p where p: "b_prev_free (buffers s1 ?fl) = Some p" "p < ?n" using links_okD [OF l1 f] by blast
  define s2 where "s2 = upd_buf b (\<lambda>bh. bh\<lparr>b_prev_free := Some p\<rparr>) s1"
  have l2: "links_ok (buffers s2) ?n" using l1 p by (simp add: s2_def links_ok_upd)
  obtain q where q: "b_prev_free (buffers s2 ?fl) = Some q" "q < ?n" using links_okD [OF l2 f] by blast
  define s3 where "s3 = upd_buf q (\<lambda>bh. bh\<lparr>b_next_free := Some b\<rparr>) s2"
  have l3: "links_ok (buffers s3) ?n" using l2 b by (simp add: s3_def links_ok_upd)
  have t: "t = upd_buf ?fl (\<lambda>bh. bh\<lparr>b_prev_free := Some b\<rparr>) s3"
    unfolding t_def insert_into_free_def Let_def s1_def [symmetric] p s2_def [symmetric] q
    by (simp add: set_b_next_free_def s3_def)
  show "links_ok (buffers t) ?n" using l3 b by (simp add: t links_ok_upd)
  show "hv (buffers t c) = hv (buffers s c)" for c
    by (simp add: t s3_def s2_def s1_def hv_def)
  show "uv (buffers t c) = uv (buffers s c)" for c
    by (simp add: t s3_def s2_def s1_def uv_def)
  show "hash_table t = hash_table s" "nr_buffers t = ?n" "free_list t = ?fl"
    by (simp_all add: t s3_def s2_def s1_def)
  show "phys t = phys s" by (simp add: t s3_def s2_def s1_def upd_buf_def)
qed

lemma insert_into_hash_ok:
  assumes d: "b_dev (buffers s b) \<noteq> 0" and h: "hash_table s (bucket (buffers s b)) \<noteq> Some b"
  defines "t \<equiv> insert_into_hash b s" and "h0 \<equiv> bucket (buffers s b)"
  shows "buffers t = (case hash_table s h0 of
             None \<Rightarrow> (buffers s)(b := (buffers s b)\<lparr>b_prev := None, b_next := hash_table s h0\<rparr>)
           | Some y \<Rightarrow> (buffers s)(b := (buffers s b)\<lparr>b_prev := None, b_next := hash_table s h0\<rparr>,
                        y := (buffers s y)\<lparr>b_prev := Some b\<rparr>))"
    and "hash_table t = (hash_table s)(h0 := Some b)" "nr_buffers t = nr_buffers s" "free_list t = free_list s"
    and "phys t = (if hash_table s h0 = None then (phys s)(20 := bh_addr s (Some b)) else phys s)"
  using d h
  by (auto simp: t_def insert_into_hash_def h0_def Let_def set_b_prev_def upd_buf_def poke_def bh_addr_def
      split: option.splits)


text \<open>What happens to the free list.\<close>

lemma remove_from_queues_free:
  assumes "next_free s b = Some n" "prev_free s b = Some p" "remove_from_queues b s = Done () t"
  shows "next_free t = (next_free s)(p := Some n)" "prev_free t = (prev_free s)(n := Some p)"
    "free_list t = (if free_list s = b then n else free_list s)" "b_data t = b_data s"
proof -
  have d: "b_data (remove_from_hash b s) = b_data s"
    by (simp add: remove_from_hash_def Let_def set_b_prev_def set_b_next_def upd_buf_def poke_def split: option.split)
  show "next_free t = (next_free s)(p := Some n)" "prev_free t = (prev_free s)(n := Some p)"
    "free_list t = (if free_list s = b then n else free_list s)" "b_data t = b_data s"
    using assms d
    by (auto simp: remove_from_queues_def Let_def remove_from_hash_eq unlinked_free_links set_b_next_free_def set_b_prev_free_def
        upd_buf_def fun_eq_iff split: if_splits)
qed

lemma insert_into_queues_free:
  fixes s :: "'a fs_state_scheme" and b :: nat
  assumes "prev_free s (free_list s) = Some q"
  defines "t \<equiv> insert_into_queues b s"
  shows "next_free t = (next_free s)(b := Some (free_list s), q := Some b)"
    "prev_free t = (prev_free s)(b := Some q, free_list s := Some b)" "free_list t = free_list s" "b_data t = b_data s"
proof -
  have h: "next_free (insert_into_hash b u) = next_free u" "prev_free (insert_into_hash b u) = prev_free u"
    "free_list (insert_into_hash b u) = free_list u" "b_data (insert_into_hash b u) = b_data u" for u :: "'a fs_state_scheme"
    by (auto simp: insert_into_hash_def Let_def set_b_prev_def upd_buf_def poke_def fun_eq_iff split: option.split)
  show "next_free t = (next_free s)(b := Some (free_list s), q := Some b)"
    "prev_free t = (prev_free s)(b := Some q, free_list s := Some b)" "free_list t = free_list s" "b_data t = b_data s"
    using assms(1) by (auto simp: t_def insert_into_queues_def h insert_into_free_def Let_def set_b_next_free_def upd_buf_def fun_eq_iff)
qed

lemma take_buffer_free:
  assumes "free_ring s fl" "b \<in> set fl" "take_buffer b dev block s = Done r t" "nr_buffers t = nr_buffers s"
  shows "free_ring t (removeAll b fl @ [b])" "b_data t = b_data s"
proof -
  define s1 where "s1 = upd_buf b (\<lambda>bh. bh\<lparr>b_count := 1, b_dirt := 0, b_uptodate := 0\<rparr>) s"
  have s1: "next_free s1 = next_free s" "prev_free s1 = prev_free s" "free_list s1 = free_list s" "b_data s1 = b_data s"
    by (auto simp: s1_def upd_buf_def fun_eq_iff)
  have r: "ring (next_free s1) (prev_free s1) fl" "hd fl = free_list s" "set fl = {..<nr_buffers s}" using assms(1) by (simp_all add: free_ring_def s1)
  obtain n p where np: "next_free s1 b = Some n" "prev_free s1 b = Some p" using ring_member_links [OF r(1) assms(2)] by metis
  obtain s2 where s2: "remove_from_queues b s1 = Done () s2"
    using assms(3) by (cases "remove_from_queues b s1") (auto simp: take_buffer_def s1_def)
  note rm = remove_from_queues_free [OF np s2]
  define s3 where "s3 = upd_buf b (\<lambda>bh. bh\<lparr>b_dev := dev, b_blocknr := block\<rparr>) s2"
  have s3: "next_free s3 = next_free s2" "prev_free s3 = prev_free s2" "free_list s3 = free_list s2" "b_data s3 = b_data s2"
    by (auto simp: s3_def upd_buf_def fun_eq_iff)
  have t: "t = insert_into_queues b s3" using assms(3) s2 by (auto simp: take_buffer_def s1_def s3_def)
  have v: "next_free s3 = (next_free s1)(p := Some n)" "prev_free s3 = (prev_free s1)(n := Some p)"
    "free_list s3 = (if free_list s = b then n else free_list s)" by (simp_all only: s3 rm s1(3))
  obtain q where q0: "((prev_free s1)(n := Some p)) (free_list s3) = Some q"
    "ring ((next_free s3)(b := Some (free_list s3), q := Some b)) ((prev_free s3)(b := Some q, free_list s3 := Some b)) (removeAll b fl @ [b])"
    "free_list s3 = hd (removeAll b fl @ [b])"
    using ring_reuse [OF r(1) assms(2) np r(2) [symmetric]] unfolding v by blast
  have q: "prev_free s3 (free_list s3) = Some q" using q0(1) fun_cong [OF v(2)] by simp
  note i = insert_into_queues_free [OF q, of b, folded t]
  have "set (removeAll b fl @ [b]) = {..<nr_buffers t}" using assms(2,4) r(3) by auto
  then show "free_ring t (removeAll b fl @ [b])" using q0(2,3) by (simp only: free_ring_def i)
  show "b_data t = b_data s" by (simp only: i s3 rm s1)
qed

lemma take_buffer_ok:
  assumes ok: "cache_ok s" and b: "b < nr_buffers s" and dev: "dev \<noteq> 0" and none: "find_buffer dev block s = None"
  shows "\<exists>t. take_buffer b dev block s = Done b t \<and> cache_ok t \<and> nr_buffers t = nr_buffers s \<and>
     bkey (buffers t b) = (dev, block) \<and> uv (buffers t b) = (0, 0, 1, b_lock (buffers s b)) \<and>
     (\<forall>c. c \<noteq> b \<longrightarrow> bkey (buffers t c) = bkey (buffers s c) \<and> uv (buffers t c) = uv (buffers s c)) \<and>
     b_data t = b_data s \<and> (\<forall>fl. free_ring s fl \<longrightarrow> free_ring t (removeAll b fl @ [b]))"
proof -
  let ?n = "nr_buffers s"
  obtain ch fl where ch: "chains_ok (buffers s) (hash_table s) ?n ch" and fl: "free_ring s fl" using ok by (auto simp: cache_ok_def)
  note l = free_ring_links(1) [OF fl] and f = free_ring_links(2) [OF fl]
  define s1 where "s1 = upd_buf b (\<lambda>bh. bh\<lparr>b_count := 1, b_dirt := 0, b_uptodate := 0\<rparr>) s"
  have r1: "hash_table s1 = hash_table s" "nr_buffers s1 = ?n" "free_list s1 = free_list s" by (simp_all add: s1_def)
  have hv1: "hv (buffers s1 c) = hv (buffers s c)" for c by (simp add: s1_def hv_def)
  have ch1: "chains_ok (buffers s1) (hash_table s1) ?n ch" using ch chains_ok_cong [OF hv1] r1 by simp
  have l1: "links_ok (buffers s1) (nr_buffers s1)"
    using l links_ok_cong [of "buffers s1" "buffers s"] r1 by (simp add: s1_def)
  obtain s2 where s2: "remove_from_queues b s1 = Done () s2"
      "\<And>c. hv (buffers s2 c) = hv (unlinked (buffers s1) b c)" "\<And>c. uv (buffers s2 c) = uv (buffers s1 c)"
      "hash_table s2 = hash_table (remove_from_hash b s1)" "nr_buffers s2 = ?n"
      "links_ok (buffers s2) ?n" "free_list s2 < ?n"
    using remove_from_queues_ok [OF l1, of b] b f r1 by metis
  have cb: "chains_but b (unlinked (buffers s1) b) (hash_table s2) ?n (\<lambda>h. removeAll b (ch h))"
    using chains_remove [OF ch1 b] s2(4) by (simp add: remove_from_hash_eq Let_def)
  define s3 where "s3 = upd_buf b (\<lambda>bh. bh\<lparr>b_dev := dev, b_blocknr := block\<rparr>) s2"
  have l3: "links_ok (buffers s3) (nr_buffers s3)" and b3: "b < nr_buffers s3" "free_list s3 < nr_buffers s3"
    using s2 b links_ok_cong [of "buffers s3" "buffers s2"] by (simp_all add: s3_def)
  define s4 where "s4 = insert_into_free b s3"
  note i4 = insert_into_free_ok [OF l3 b3, folded s4_def]
  have k4: "b_dev (buffers s4 c) = (if c = b then dev else b_dev (buffers s c))"
    "b_blocknr (buffers s4 c) = (if c = b then block else b_blocknr (buffers s c))" for c
    using i4(1) [of c] s2(2) [of c] hv1 [of c] by (auto simp: hv_def s3_def)
  have pn: "c \<noteq> b \<Longrightarrow> b_prev (buffers s4 c) = b_prev (unlinked (buffers s1) b c) \<and>
      b_next (buffers s4 c) = b_next (unlinked (buffers s1) b c)" for c
    using i4(1) [of c] s2(2) [of c] by (auto simp: hv_def s3_def)
  have ht: "hash_table s4 = hash_table s2" "nr_buffers s4 = ?n" using i4 s2(5) by (simp_all add: s3_def)
  have dev1: "b_dev (buffers s1 c) = b_dev (buffers s c)" "b_blocknr (buffers s1 c) = b_blocknr (buffers s c)" for c
    by (simp_all add: s1_def)
  have cb4: "chains_but b (buffers s4) (hash_table s4) ?n (\<lambda>h. removeAll b (ch h))"
  proof -
    have c: "dlist (unlinked (buffers s1) b) None (hash_table s2 h) (removeAll b (ch h))" if "h < NR_HASH" for h
      using cb that by (simp add: chains_but_def)
    have "dlist (buffers s4) None (hash_table s4 h) (removeAll b (ch h))" if "h < NR_HASH" for h
      using c [OF that] pn dlist_cong [of "removeAll b (ch h)" "buffers s4" "unlinked (buffers s1) b"] ht by simp
    then show ?thesis using cb pn unfolding chains_but_def bkey_def
      by (simp add: k4 dev1 cong: conj_cong) blast
  qed
  have new: "\<forall>c<?n. c \<noteq> b \<longrightarrow> bkey (buffers s4 c) \<noteq> bkey (buffers s4 b)"
    using none find_buffer_iff [OF ok dev, of block] by (auto simp: bkey_def k4)
  have d4: "b_dev (buffers s4 b) \<noteq> 0" using dev by (simp add: k4)
  have "b \<notin> set (removeAll b (ch h))" for h by simp
  then have h4: "hash_table s4 (bucket (buffers s4 b)) \<noteq> Some b"
    using cb4 hashfn_less unfolding chains_but_def by (metis (no_types, lifting) dlist.elims(1) list.set_intros(1) option.inject option.distinct(1))
  define t where "t = insert_into_hash b s4"
  note i = insert_into_hash_ok [OF d4 h4, folded t_def]
  have "chains_ok (buffers t) (hash_table t) ?n ((\<lambda>h. removeAll b (ch h))
      (bucket (buffers s4 b) := b # removeAll b (ch (bucket (buffers s4 b)))))"
    using chains_insert [OF cb4 b d4 new] i by simp
  moreover have take: "take_buffer b dev block s = Done b t"
    using s2(1) by (simp add: take_buffer_def s1_def s3_def s4_def t_def insert_into_queues_def)
  have nr: "nr_buffers t = nr_buffers s" using i(3) ht by simp
  have free: "free_ring t (removeAll b fl @ [b])" "b_data t = b_data s" if "free_ring s fl" for fl
    using take_buffer_free [OF that _ take nr] that b by (simp_all add: free_ring_def)
  ultimately have "cache_ok t" using nr fl by (auto simp: cache_ok_def)
  moreover have "uv (buffers t c) = uv (buffers s4 c)" "bkey (buffers t c) = bkey (buffers s4 c)" for c
    using i(1) by (auto simp: uv_def bkey_def split: option.splits)
  moreover have "uv (buffers s4 c) = (if c = b then (0, 0, 1, b_lock (buffers s b)) else uv (buffers s c))" for c
    using i4(2) [of c] s2(3) [of c] by (auto simp: uv_def s3_def s1_def)
  ultimately show ?thesis
    using take nr free fl by (intro exI [of _ t]) (simp add: k4 bkey_def)
qed



subsection \<open>Operations that sleep\<close>

definition cinv :: "nat \<Rightarrow> 'a fs_state_scheme \<Rightarrow> bool" where
  "cinv n s \<longleftrightarrow> cache_ok s \<and> nr_buffers s = n"

text \<open>
  What is asked of the rest of the system while the task sleeps, of the disk drivers
  and of \<^verbatim>\<open>sync_inodes\<close>: that they use the cache through its operations, so that its
  invariant holds again afterwards.
\<close>

definition keeps_cache :: "('a fs_state_scheme) env \<Rightarrow> bool" where
  "keeps_cache e \<longleftrightarrow>
     (\<forall>n s. cinv n s \<longrightarrow> cinv n (others e s)) \<and>
     (\<forall>n m s. cinv n s \<longrightarrow> ensures (driver e m s) (\<lambda>_ t. cinv n t)) \<and>
     (\<forall>n s. cinv n s \<longrightarrow> ensures (sync_ino e s) (\<lambda>_ t. cinv n t))"

lemma cinv_cong:
  assumes "\<And>b. hv (buffers t b) = hv (buffers s b)" "hash_table t = hash_table s" "free_list t = free_list s"
    "nr_buffers t = nr_buffers s"
    "\<And>b. b_next_free (buffers t b) = b_next_free (buffers s b)" "\<And>b. b_prev_free (buffers t b) = b_prev_free (buffers s b)"
  shows "cinv n t = cinv n s"
  using chains_ok_cong [OF assms(1)] assms(2-)
  by (simp add: cinv_def cache_ok_def free_ring_def)

lemma cinv_more: "sched_state.more t = sched_state.more s \<Longrightarrow> cinv n t = cinv n s"
  by (rule cinv_cong; cases s; cases t; simp)

lemma upd_task_more [simp]: "sched_state.more (upd_task p f s) = sched_state.more s"
  by (simp add: upd_task_def)

lemma fold_each_slot_more: "sched_state.more (fold (each_slot f) is s) = sched_state.more s"
  by (induction "is" arbitrary: s) (simp_all add: each_slot_def)

lemma schedule_loop_more:
  "ensures (schedule_loop n s) (\<lambda>_ t. sched_state.more t = sched_state.more s)"
proof (induction n arbitrary: s)
  case (Suc n)
  show ?case
    using Suc [of "fold refill_slot slots_down s"]
    by (auto simp: refill_slot_each fold_each_slot_more split: prod.splits)
qed simp

lemma schedule_more: "ensures (schedule s) (\<lambda>_ t. sched_state.more t = sched_state.more s)"
  unfolding schedule_def ensures_kbind
  by (rule ensures_mono [OF schedule_loop_more]) (simp add: switch_to_def fold_check_alarm fold_each_slot_more)

named_theorems cinv_simps
named_theorems cinv_rules

lemma cinv_upd [cinv_simps]:
  "cinv n (upd_task p f s) = cinv n s" "cinv n (s\<lparr>wait_head := w\<rparr>) = cinv n s"
  "cinv n (s\<lparr>current := c\<rparr>) = cinv n s" "cinv n (wake_up q s) = cinv n s"
  "cinv n (printk str s) = cinv n s" "cinv n (s\<lparr>current_request := r\<rparr>) = cinv n s"
  "cinv n (upd_req rq g s) = cinv n s" "cinv n (floppy_off d s) = cinv n s"
  "cinv n (s\<lparr>b_data := bd\<rparr>) = cinv n s" "cinv n (s\<lparr>rd_mem := rm\<rparr>) = cinv n s"
  by (rule cinv_cong; simp add: wake_up_def printk_def floppy_off_def upd_req_def upd_task_def)+

lemma cinv_upd_buf [cinv_simps]:
  "cinv n (upd_buf b (\<lambda>bh. bh\<lparr>b_count := f1 bh\<rparr>) s) = cinv n s"
  "cinv n (upd_buf b (\<lambda>bh. bh\<lparr>b_lock := f2 bh\<rparr>) s) = cinv n s"
  "cinv n (upd_buf b (\<lambda>bh. bh\<lparr>b_dirt := f3 bh\<rparr>) s) = cinv n s"
  "cinv n (upd_buf b (\<lambda>bh. bh\<lparr>b_uptodate := f4 bh\<rparr>) s) = cinv n s"
  "cinv n (upd_buf b (\<lambda>bh. bh\<lparr>b_uptodate := 0, b_dirt := 0\<rparr>) s) = cinv n s"
  by (rule cinv_cong; simp add: hv_def)+

lemma cinv_reschedule:
  assumes "keeps_cache e" "cinv n s"
  shows "ensures (reschedule e s) (\<lambda>_ t. cinv n t)"
  unfolding reschedule_def ensures_kbind
proof (rule ensures_mono [OF schedule_more])
  fix x :: unit and t assume "sched_state.more t = sched_state.more s"
  then have "cinv n t" using assms(2) cinv_more by blast
  then show "ensures (Done () ((others e t)\<lparr>current := current s\<rparr>)) (\<lambda>_ t. cinv n t)"
    using assms(1) by (simp add: cinv_simps keeps_cache_def)
qed

lemma cinv_sleep_on [cinv_rules]:
  assumes "keeps_cache e" "cinv n s"
  shows "ensures (sleep_on e q s) (\<lambda>_ t. cinv n t)"
  using assms
  by (auto simp: sleep_on_def Let_def ensures_kbind cinv_simps intro!: ensures_mono [OF cinv_reschedule])

lemma cinv_lock_buffer [cinv_rules]:
  "keeps_cache e \<Longrightarrow> cinv n s \<Longrightarrow> ensures (lock_buffer e b s) (\<lambda>_ t. cinv n t)"
proof -
  assume e: "keeps_cache e" and s: "cinv n s"
  have "ensures (lock_buffer_loop m e b s) (\<lambda>_ t. cinv n t)" for m using s
    by (induction m arbitrary: s) (auto simp: ensures_kbind cinv_simps intro!: ensures_mono [OF cinv_sleep_on] e)
  then show ?thesis by (simp only: lock_buffer_def)
qed

lemma cinv_wait_on_buffer [cinv_rules]:
  "keeps_cache e \<Longrightarrow> cinv n s \<Longrightarrow> ensures (wait_on_buffer e b s) (\<lambda>_ t. cinv n t)"
proof -
  assume e: "keeps_cache e" and s: "cinv n s"
  have "ensures (wait_on_buffer_loop m e b s) (\<lambda>_ t. cinv n t)" for m using s
    by (induction m arbitrary: s) (auto simp: ensures_kbind cinv_simps intro!: ensures_mono [OF cinv_sleep_on] e)
  then show ?thesis by (simp only: wait_on_buffer_def)
qed

lemma cinv_end_request [cinv_simps]: "cinv n (end_request m up s) = cinv n s"
  by (auto simp: end_request_def drv_unlock_buffer_def Let_def cinv_simps split: option.splits)

lemma cinv_copy_rd [cinv_simps]:
  "cinv n (copy_from_rd m b i a s) = cinv n s" "cinv n (copy_to_rd m b i a s) = cinv n s"
  by (induction m arbitrary: i a s) (simp_all add: cinv_simps)

lemma cinv_do_rd_request: "cinv n s \<Longrightarrow> ensures (do_rd_request s) (\<lambda>_ t. cinv n t)"
proof -
  assume s: "cinv n s"
  have "ensures (rd_request_loop m s) (\<lambda>_ t. cinv n t)" for m using s
    by (induction m arbitrary: s) (auto simp: Let_def cinv_simps split: option.splits)
  then show ?thesis by (simp only: do_rd_request_def)
qed

lemma cinv_add_request:
  assumes "keeps_cache e" "cinv n s"
  shows "ensures (add_request e major req s) (\<lambda>_ t. cinv n t)"
proof -
  have "ensures (call_request_fn e major u) (\<lambda>_ t. cinv n t)" if "cinv n u" for u
    using that assms(1) cinv_do_rd_request by (auto simp: call_request_fn_def keeps_cache_def)
  then show ?thesis
    using assms(2) by (auto simp: add_request_def Let_def cinv_simps split: option.splits)
qed

lemma cinv_request_slot:
  "keeps_cache e \<Longrightarrow> cinv n s \<Longrightarrow> ensures (request_slot m e rw ra s) (\<lambda>_ t. cinv n t)"
  by (induction m arbitrary: s)
    (auto simp: ensures_kbind split: option.splits intro!: ensures_mono [OF cinv_sleep_on])

lemma cinv_unlock_buffer [cinv_simps]: "cinv n (unlock_buffer b s) = cinv n s"
  by (simp add: unlock_buffer_def Let_def cinv_simps)

lemma cinv_ll_rw_block [cinv_rules]:
  assumes "keeps_cache e" "cinv n s"
  shows "ensures (ll_rw_block e rw b s) (\<lambda>_ t. cinv n t)"
proof -
  have "ensures (make_request e major rw b s) (\<lambda>_ t. cinv n t)" for major rw
    using assms
    by (auto simp: make_request_def Let_def ensures_kbind cinv_simps split: option.splits
        simp del: request_slot.simps
        intro!: ensures_mono [OF cinv_lock_buffer] ensures_mono [OF cinv_request_slot] cinv_add_request)
  then show ?thesis using assms(2) by (simp add: ll_rw_block_def Let_def cinv_simps)
qed


lemma cinv_sync_dev [cinv_rules]:
  assumes e: "keeps_cache e" and s: "cinv n s"
  shows "ensures (sync_dev e dev s) (\<lambda>_ t. cinv n t)"
proof -
  have pass: "ensures (sync_dev_pass e dev u) (\<lambda>_ t. cinv n t)" if "cinv n u" for u
    unfolding sync_dev_pass_def using that
    by (intro ensures_kfold)
      (auto simp: ensures_kbind intro!: ensures_mono [OF cinv_wait_on_buffer] cinv_ll_rw_block e)
  have si: "ensures (sync_ino e u) (\<lambda>_ t. cinv n t)" if "cinv n u" for u
    using e that by (simp add: keeps_cache_def)
  show ?thesis
    unfolding sync_dev_def ensures_kbind ensures_simps
    by (intro ensures_mono [OF pass] ensures_mono [OF si] s)
qed

lemma cinv_clean_buffer [cinv_rules]:
  "keeps_cache e \<Longrightarrow> cinv n s \<Longrightarrow> ensures (clean_buffer m e b s) (\<lambda>again t. cinv n t)"
  by (induction m arbitrary: s)
    (auto simp: ensures_kbind intro!: ensures_mono [OF cinv_sync_dev] ensures_mono [OF cinv_wait_on_buffer])

text \<open>The buffer that holds a block.\<close>

definition holds :: "u16 \<Rightarrow> u32 \<Rightarrow> 'a fs_state_scheme \<Rightarrow> nat \<Rightarrow> bool" where
  "holds dev block s b \<longleftrightarrow>
     b < nr_buffers s \<and> b_dev (buffers s b) = dev \<and> b_blocknr (buffers s b) = block"

lemma free_scan_range:
  assumes "links_ok bs n" "tmp < n" "\<forall>b. best = Some b \<longrightarrow> b < n"
  shows "\<forall>b. free_scan m bs fl best tmp = Some b \<longrightarrow> b < n"
  using assms(2,3)
proof (induction m arbitrary: best tmp)
  case (Suc m)
  obtain x where x: "b_next_free (bs tmp) = Some x" "x < n"
    using links_okD [OF assms(1) Suc.prems(1)] by blast
  define better where "better = (b_count (bs tmp) = 0 \<and>
      (case best of None \<Rightarrow> True | Some b \<Rightarrow> BADNESS (bs tmp) < BADNESS (bs b)))"
  define best' where "best' = (if better then Some tmp else best)"
  have "free_scan (Suc m) bs fl best tmp = best' \<or> free_scan (Suc m) bs fl best tmp = free_scan m bs fl best' x"
    unfolding free_scan.simps Let_def better_def [symmetric] best'_def [symmetric] x(1) option.case by presburger
  moreover have bb: "\<forall>b. best' = Some b \<longrightarrow> b < n" using Suc.prems by (simp add: best'_def)
  ultimately show ?case using Suc.IH [OF x(2) bb] by metis
qed simp

lemma free_scan_finds:
  assumes "successively (linked (\<lambda>b. b_next_free (bs b)) pv) (ys @ [fl])" "fl \<notin> set (tl ys)" "ys \<noteq> []" "length ys \<le> m"
    "\<forall>x. best = Some x \<longrightarrow> BADNESS (bs x) \<noteq> 0" "find (\<lambda>c. b_count (bs c) = 0 \<and> BADNESS (bs c) = 0) ys = Some b"
  shows "free_scan m bs fl best (hd ys) = Some b"
  using assms
proof (induction ys arbitrary: m best)
  case (Cons y zs)
  obtain k where m: "m = Suc k" using Cons.prems(4) by (cases m) auto
  have nx: "b_next_free (bs y) = Some (if zs = [] then fl else hd zs)"
    using Cons.prems(1) by (auto simp: successively_Cons linked_def)
  show ?case
  proof (cases "b_count (bs y) = 0 \<and> BADNESS (bs y) = 0")
    case True
    then show ?thesis using Cons.prems(5,6) by (auto simp: m Let_def split: option.split)
  next
    case False
    then have f: "find (\<lambda>c. b_count (bs c) = 0 \<and> BADNESS (bs c) = 0) zs = Some b" using Cons.prems(6) by auto
    then have ne: "zs \<noteq> []" by auto
    define best' where "best' = (if b_count (bs y) = 0 \<and> (case best of None \<Rightarrow> True | Some b \<Rightarrow> BADNESS (bs y) < BADNESS (bs b)) then Some y else best)"
    have "hd zs \<noteq> fl" using Cons.prems(2) ne hd_in_set [OF ne] by auto
    then have "free_scan m bs fl best y = free_scan k bs fl best' (hd zs)"
      using False nx ne by (auto simp: m Let_def best'_def split: option.splits)
    moreover have "free_scan k bs fl best' (hd zs) = Some b"
    proof (rule Cons.IH)
      show "successively (linked (\<lambda>b. b_next_free (bs b)) pv) (zs @ [fl])" using Cons.prems(1) ne by (simp add: successively_Cons)
      show "fl \<notin> set (tl zs)" using Cons.prems(2) by (cases zs) auto
      show "\<forall>x. best' = Some x \<longrightarrow> BADNESS (bs x) \<noteq> 0" using False Cons.prems(5) by (auto simp: best'_def)
    qed (use ne f Cons.prems(4) m in simp_all)
    ultimately show ?thesis by simp
  qed
qed simp

lemma BADNESS_0: "BADNESS h = 0 \<longleftrightarrow> b_dirt h = 0 \<and> b_lock h = 0"
  by (auto simp: BADNESS_def unsigned_eq_0_iff)

lemma free_scan_first:
  assumes "free_ring s fl" "find (\<lambda>c. b_count (buffers s c) = 0 \<and> b_dirt (buffers s c) = 0 \<and> b_lock (buffers s c) = 0) fl = Some b"
  shows "free_scan (nr_buffers s) (buffers s) (free_list s) None (free_list s) = Some b"
proof -
  have r: "ring (next_free s) (prev_free s) fl" "set fl = {..<nr_buffers s}" "hd fl = free_list s" using assms(1) by (auto simp: free_ring_def)
  have d: "distinct fl" "fl \<noteq> []" using r(1) by (simp_all add: ring_def)
  have "free_scan (nr_buffers s) (buffers s) (hd fl) None (hd fl) = Some b"
  proof (rule free_scan_finds [of "buffers s" "prev_free s" fl "hd fl"])
    show "hd fl \<notin> set (tl fl)" using d by (cases fl) auto
    show "length fl \<le> nr_buffers s" using distinct_card [OF d(1)] r(2) by simp
  qed (use r(1) assms(2) d(2) in \<open>simp_all add: ring_def BADNESS_0\<close>)
  then show ?thesis by (simp add: r(3))
qed


subsection \<open>What getblk does\<close>

text \<open>
  The states that a task comes through while it looks for a buffer: it waits for locks, with the buffer it has found counted
  or not, writes devices back and sleeps until a buffer is released. It takes no buffer from anybody on the way.
\<close>

inductive meanwhile :: "('a fs_state_scheme) env \<Rightarrow> 'a fs_state_scheme \<Rightarrow> 'a fs_state_scheme \<Rightarrow> bool" for e s where
  start: "meanwhile e s s"
| look: "meanwhile e s u \<Longrightarrow> wait_on_buffer e b (upd_buf b (\<lambda>bh. bh\<lparr>b_count := b_count bh + 1\<rparr>) u) = Done () v \<Longrightarrow>
    meanwhile e s (upd_buf b (\<lambda>bh. bh\<lparr>b_count := b_count bh - 1\<rparr>) v)"
| wait: "meanwhile e s u \<Longrightarrow> wait_on_buffer e b u = Done () v \<Longrightarrow> meanwhile e s v"
| sync: "meanwhile e s u \<Longrightarrow> sync_dev e dev u = Done r v \<Longrightarrow> meanwhile e s v"
| sleep: "meanwhile e s u \<Longrightarrow> sleep_on e Wait_Buffer_Free u = Done () v \<Longrightarrow> meanwhile e s v"

text \<open>The block is in the cache: its buffer gets one more user, and the task waits until it is not locked.\<close>

definition cache_hit :: "('a fs_state_scheme) env \<Rightarrow> u16 \<Rightarrow> u32 \<Rightarrow> nat \<Rightarrow> 'a fs_state_scheme \<Rightarrow> 'a fs_state_scheme \<Rightarrow> bool" where
  "cache_hit e dev block b u t \<longleftrightarrow> holds dev block u b \<and> wait_on_buffer e b (upd_buf b (\<lambda>bh. bh\<lparr>b_count := b_count bh + 1\<rparr>) u) = Done () t"

text \<open>
  The block is not in the cache: a buffer that nobody uses, that is written back and not locked, becomes the buffer of the
  block, with one user, not yet read, and goes to the end of the free list; the other buffers and all data stay.
\<close>

definition buffer_reused :: "u16 \<Rightarrow> u32 \<Rightarrow> nat \<Rightarrow> 'a fs_state_scheme \<Rightarrow> 'a fs_state_scheme \<Rightarrow> bool" where
  "buffer_reused dev block b u t \<longleftrightarrow> b < nr_buffers u \<and> (\<forall>c. \<not> holds dev block u c) \<and>
     b_count (buffers u b) = 0 \<and> b_dirt (buffers u b) = 0 \<and> b_lock (buffers u b) = 0 \<and>
     holds dev block t b \<and> b_count (buffers t b) = 1 \<and> b_dirt (buffers t b) = 0 \<and> b_uptodate (buffers t b) = 0 \<and> b_lock (buffers t b) = 0 \<and>
     (\<forall>c. c \<noteq> b \<longrightarrow> b_dev (buffers t c) = b_dev (buffers u c) \<and> b_blocknr (buffers t c) = b_blocknr (buffers u c) \<and>
        b_count (buffers t c) = b_count (buffers u c) \<and> b_dirt (buffers t c) = b_dirt (buffers u c) \<and>
        b_uptodate (buffers t c) = b_uptodate (buffers u c) \<and> b_lock (buffers t c) = b_lock (buffers u c)) \<and>
     b_data t = b_data u \<and> (\<forall>fl. free_ring u fl \<longrightarrow> free_ring t (removeAll b fl @ [b]))"

lemma find_buffer_holds: "cinv n s \<Longrightarrow> dev \<noteq> 0 \<Longrightarrow> find_buffer dev block s = Some b \<longleftrightarrow> holds dev block s b"
  using find_buffer_iff [of s dev block b] by (simp add: cinv_def holds_def)

lemma find_buffer_none: "cinv n s \<Longrightarrow> dev \<noteq> 0 \<Longrightarrow> find_buffer dev block s = None \<longleftrightarrow> (\<forall>b. \<not> holds dev block s b)"
  using find_buffer_holds by (metis option.exhaust option.distinct(1))

lemma take_buffer_reused:
  assumes "cinv n s" "b < n" "dev \<noteq> 0" "find_buffer dev block s = None"
    "b_count (buffers s b) = 0" "b_dirt (buffers s b) = 0" "b_lock (buffers s b) = 0"
  shows "\<exists>t. take_buffer b dev block s = Done b t \<and> cinv n t \<and> buffer_reused dev block b s t"
proof -
  have "cache_ok s" "b < nr_buffers s" using assms(1,2) by (auto simp: cinv_def)
  from take_buffer_ok [OF this assms(3,4)] obtain t where t: "take_buffer b dev block s = Done b t" "cache_ok t" "nr_buffers t = nr_buffers s"
    "bkey (buffers t b) = (dev, block)" "uv (buffers t b) = (0, 0, 1, b_lock (buffers s b))"
    "\<forall>c. c \<noteq> b \<longrightarrow> bkey (buffers t c) = bkey (buffers s c) \<and> uv (buffers t c) = uv (buffers s c)"
    "b_data t = b_data s" "\<forall>fl. free_ring s fl \<longrightarrow> free_ring t (removeAll b fl @ [b])" by blast
  have "cinv n t" using t(2,3) assms(1) by (simp add: cinv_def)
  moreover have "buffer_reused dev block b s t"
    using t(3-8) assms find_buffer_none [OF assms(1,3)] by (auto simp: buffer_reused_def holds_def bkey_def uv_def cinv_def)
  ultimately show ?thesis using t(1) by blast
qed

lemma get_hash_table_steps:
  assumes e: "keeps_cache e" and s: "cinv n s" and dev: "dev \<noteq> 0" and path: "meanwhile e s0 s"
  shows "ensures (get_hash_table e dev block s) (\<lambda>r t. cinv n t \<and>
    (case r of None \<Rightarrow> meanwhile e s0 t | Some b \<Rightarrow> holds dev block t b \<and> (\<exists>u. meanwhile e s0 u \<and> cinv n u \<and> cache_hit e dev block b u t)))"
proof -
  let ?P = "\<lambda>r t. cinv n t \<and>
    (case r of None \<Rightarrow> meanwhile e s0 t | Some b \<Rightarrow> holds dev block t b \<and> (\<exists>u. meanwhile e s0 u \<and> cinv n u \<and> cache_hit e dev block b u t))"
  have "ensures (get_hash_table_loop m e dev block s) ?P" for m using s path
  proof (induction m arbitrary: s)
    case (Suc m)
    show ?case
    proof (cases "find_buffer dev block s")
      case None
      then show ?thesis using Suc.prems by simp
    next
      case (Some b)
      have b: "holds dev block s b" using find_buffer_holds [OF Suc.prems(1) dev] Some by simp
      let ?s = "upd_buf b (\<lambda>bh. bh\<lparr>b_count := b_count bh + 1\<rparr>) s"
      have w: "ensures (wait_on_buffer e b ?s) (\<lambda>_ t. cinv n t)"
        using Suc.prems by (intro cinv_wait_on_buffer e) (simp add: cinv_simps)
      show ?thesis
      proof (cases "wait_on_buffer e b ?s")
        case (Done r t)
        have t: "cinv n t" using w Done by simp
        show ?thesis
        proof (cases "b_dev (buffers t b) = dev \<and> b_blocknr (buffers t b) = block")
          case True
          moreover have "holds dev block t b" using True b t Suc.prems(1) by (auto simp: holds_def cinv_def)
          ultimately show ?thesis using Some Done t b Suc.prems by (auto simp: cache_hit_def)
        next
          case False
          let ?t = "upd_buf b (\<lambda>bh. bh\<lparr>b_count := b_count bh - 1\<rparr>) t"
          have "ensures (get_hash_table_loop m e dev block ?t) ?P"
            using Suc.IH [of ?t] t meanwhile.look [OF Suc.prems(2), of b t] Done by (simp add: cinv_simps)
          then show ?thesis using Some Done False by auto
        qed
      qed (use Some in simp)
    qed
  qed simp
  then show ?thesis by (simp only: get_hash_table_def)
qed

lemma wait_on_buffer_unlocks: "ensures (wait_on_buffer e b s) (\<lambda>_ t. b_lock (buffers t b) = 0)"
proof -
  have "ensures (wait_on_buffer_loop m e b s) (\<lambda>_ t. b_lock (buffers t b) = 0)" for m
  proof (induction m arbitrary: s)
    case (Suc m)
    then show ?case by (cases "sleep_on e (Wait_Buffer b) s") auto
  qed simp
  then show ?thesis by (simp only: wait_on_buffer_def)
qed

lemma clean_buffer_steps:
  assumes e: "keeps_cache e" and s: "cinv n s" "meanwhile e s0 s" "b_count (buffers s b) = 0" "b_lock (buffers s b) = 0"
  shows "ensures (clean_buffer m e b s) (\<lambda>again t. cinv n t \<and> meanwhile e s0 t \<and>
    (\<not> again \<longrightarrow> b_count (buffers t b) = 0 \<and> b_lock (buffers t b) = 0 \<and> b_dirt (buffers t b) = 0))"
  using s
proof (induction m arbitrary: s)
  case (Suc m)
  let ?P = "\<lambda>again t. cinv n t \<and> meanwhile e s0 t \<and>
    (\<not> again \<longrightarrow> b_count (buffers t b) = 0 \<and> b_lock (buffers t b) = 0 \<and> b_dirt (buffers t b) = 0)"
  show ?case
  proof (cases "b_dirt (buffers s b) = 0")
    case False
    show ?thesis
    proof (cases "sync_dev e (b_dev (buffers s b)) s")
      case (Done r u)
      have u: "cinv n u" "meanwhile e s0 u"
        using cinv_sync_dev [OF e Suc.prems(1), of "b_dev (buffers s b)"] meanwhile.sync [OF Suc.prems(2) Done] Done by simp_all
      show ?thesis
      proof (cases "wait_on_buffer e b u")
        case w: (Done r' v)
        have v: "cinv n v" "meanwhile e s0 v" "b_lock (buffers v b) = 0"
          using cinv_wait_on_buffer [OF e u(1), of b] wait_on_buffer_unlocks [of e b u] meanwhile.wait [OF u(2), of b v] w by simp_all
        have "b_count (buffers v b) = 0 \<Longrightarrow> ensures (clean_buffer m e b v) ?P" using Suc.IH [OF v(1,2) _ v(3)] by simp
        then show ?thesis using False Done w v by auto
      qed (use False Done in simp)
    qed (use False in simp)
  qed (use Suc.prems in simp)
qed simp

text \<open>How \<open>getblk\<close> ends.\<close>

definition got_block :: "('a fs_state_scheme) env \<Rightarrow> nat \<Rightarrow> u16 \<Rightarrow> u32 \<Rightarrow> 'a fs_state_scheme \<Rightarrow> nat \<Rightarrow> 'a fs_state_scheme \<Rightarrow> bool" where
  "got_block e n dev block s b t \<longleftrightarrow> cinv n t \<and> holds dev block t b \<and>
     (\<exists>u. meanwhile e s u \<and> cinv n u \<and> (cache_hit e dev block b u t \<or> buffer_reused dev block b u t))"

lemma getblk_loop_steps:
  assumes e: "keeps_cache e" and s: "cinv n s" "meanwhile e s0 s" and dev: "dev \<noteq> 0"
  shows "ensures (getblk_loop m e dev block s) (\<lambda>b t. got_block e n dev block s0 b t)"
  using s
proof (induction m arbitrary: s)
  case (Suc m)
  note prems = Suc.prems and IH = Suc.IH
  show ?case
  proof (cases "get_hash_table e dev block s")
    case hash: (Done r t)
    note steps = get_hash_table_steps [OF e prems(1) dev prems(2), of block, unfolded hash, simplified]
    show ?thesis
    proof (cases r)
      case (Some b)
      then show ?thesis using steps hash by (auto simp: got_block_def)
    next
      case None
      then have t: "cinv n t" "meanwhile e s0 t" using steps by auto
      show ?thesis
      proof (cases "free_scan (nr_buffers t) (buffers t) (free_list t) None (free_list t)")
        case scan: None
        show ?thesis
        proof (cases "sleep_on e Wait_Buffer_Free t")
          case (Done r' v)
          then have "cinv n v" "meanwhile e s0 v" using cinv_sleep_on [OF e t(1), of Wait_Buffer_Free] meanwhile.sleep [OF t(2)] by simp_all
          then show ?thesis using IH [of v] hash None scan Done by simp
        qed (use hash None scan in simp)
      next
        case (Some b)
        have b: "b < n" using free_scan_range [of "buffers t" n "free_list t" None "nr_buffers t" "free_list t"] t(1) Some cache_ok_links
          by (auto simp: cinv_def)
        show ?thesis
        proof (cases "wait_on_buffer e b t")
          case w: (Done r' v)
          have v: "cinv n v" "meanwhile e s0 v" "b_lock (buffers v b) = 0"
            using cinv_wait_on_buffer [OF e t(1), of b] wait_on_buffer_unlocks [of e b t] meanwhile.wait [OF t(2), of b v] w by simp_all
          show ?thesis
          proof (cases "b_count (buffers v b) = 0")
            case False
            then show ?thesis using IH [OF v(1,2)] hash None Some w by simp
          next
            case True
            show ?thesis
            proof (cases "clean_buffer (Suc (patience e)) e b v")
              case cl: (Done again x)
              have x: "cinv n x" "meanwhile e s0 x"
                "\<not> again \<Longrightarrow> b_count (buffers x b) = 0 \<and> b_lock (buffers x b) = 0 \<and> b_dirt (buffers x b) = 0"
                using clean_buffer_steps [OF e v(1,2) True v(3), of "Suc (patience e)", unfolded cl] by simp_all
              show ?thesis
              proof (cases "again \<or> find_buffer dev block x \<noteq> None")
                case again: True
                then show ?thesis using IH [OF x(1,2)] hash None Some w True cl by (auto simp del: clean_buffer.simps)
              next
                case go: False
                then obtain y where y: "take_buffer b dev block x = Done b y" "cinv n y" "buffer_reused dev block b x y"
                  using take_buffer_reused [OF x(1) b dev, of block] x(3) by auto
                then have "got_block e n dev block s0 b y" using x(1,2) by (auto simp: got_block_def buffer_reused_def)
                then show ?thesis using hash None Some w True cl go y(1) by (auto simp del: clean_buffer.simps)
              qed
            qed (use hash None Some w True in \<open>simp del: clean_buffer.simps\<close>)
          qed
        qed (use hash None Some in simp)
      qed
    qed
  qed simp
qed simp

lemma wait_unlocked: "b_lock (buffers s b) = 0 \<Longrightarrow> wait_on_buffer e b s = Done () s"
  by (simp add: wait_on_buffer_def)

lemma getblk_cached:
  assumes "cinv n s" "dev \<noteq> 0" "holds dev block s b" "b_lock (buffers s b) = 0"
  shows "getblk e dev block s = Done b (upd_buf b (\<lambda>bh. bh\<lparr>b_count := b_count bh + 1\<rparr>) s)"
proof -
  have "find_buffer dev block s = Some b" using find_buffer_holds [OF assms(1,2)] assms(3) by simp
  then have "get_hash_table e dev block s = Done (Some b) (upd_buf b (\<lambda>bh. bh\<lparr>b_count := b_count bh + 1\<rparr>) s)"
    using assms(3,4) by (simp add: get_hash_table_def wait_unlocked holds_def)
  then show ?thesis by (simp add: getblk_def)
qed

lemma getblk_free:
  assumes "cinv n s" "dev \<noteq> 0" "\<forall>c. \<not> holds dev block s c" "free_ring s fl"
    "find (\<lambda>c. b_count (buffers s c) = 0 \<and> b_dirt (buffers s c) = 0 \<and> b_lock (buffers s c) = 0) fl = Some b"
  shows "\<exists>t. getblk e dev block s = Done b t \<and> buffer_reused dev block b s t"
proof -
  have none: "find_buffer dev block s = None" using find_buffer_none [OF assms(1,2)] assms(3) by simp
  have b: "b \<in> set fl" "b_count (buffers s b) = 0" "b_dirt (buffers s b) = 0" "b_lock (buffers s b) = 0"
    using assms(5) by (auto simp: find_Some_iff)
  then have "b < n" using assms(1,4) by (auto simp: free_ring_def cinv_def)
  then obtain t where t: "take_buffer b dev block s = Done b t" "buffer_reused dev block b s t"
    using take_buffer_reused [OF assms(1) _ assms(2) none b(2-4)] by blast
  have "get_hash_table e dev block s = Done None s" using none by (simp add: get_hash_table_def)
  then have "getblk e dev block s = Done b t"
    using free_scan_first [OF assms(4,5)] b none t(1) by (simp add: getblk_def wait_unlocked)
  then show ?thesis using t(2) by blast
qed


subsection \<open>Properties\<close>

text \<open>
  C18: Whatever the other tasks and the drivers do while it sleeps, as long as they keep the
  cache consistent (hash chains and the ring of the free list), \<^verbatim>\<open>getblk\<close> keeps it consistent, and the buffer it returns holds the
  requested block and is the one every later lookup finds. In the state in which it comes out of its waiting
  either the block was in the cache, and its buffer has got one more user, or it was in no buffer, and the result is a buffer
  that nobody used, with nothing left to write and no lock; this one alone changes, and moves to the end of the free list.
  When the block is in the cache and not locked, or is not there and some buffer is unused, clean and not locked, it
  returns without sleeping: in the latter case with the first such buffer of the free list.
\<close>

theorem getblk_finds:
  assumes "cache_ok s" and "keeps_cache e" and "dev \<noteq> 0"
  shows "ensures (getblk e dev block s) (\<lambda>b t. cache_ok t \<and> nr_buffers t = nr_buffers s \<and>
     b_dev (buffers t b) = dev \<and> b_blocknr (buffers t b) = block \<and>
     find_buffer dev block t = Some b \<and>
     (\<exists>u. meanwhile e s u \<and> cache_ok u \<and> (cache_hit e dev block b u t \<or> buffer_reused dev block b u t))) \<and>
   (\<forall>b. holds dev block s b \<and> b_lock (buffers s b) = 0 \<longrightarrow>
     getblk e dev block s = Done b (upd_buf b (\<lambda>bh. bh\<lparr>b_count := b_count bh + 1\<rparr>) s)) \<and>
   (\<forall>fl b. (\<forall>c. \<not> holds dev block s c) \<and> free_ring s fl \<and>
     find (\<lambda>c. b_count (buffers s c) = 0 \<and> b_dirt (buffers s c) = 0 \<and> b_lock (buffers s c) = 0) fl = Some b \<longrightarrow>
     (\<exists>t. getblk e dev block s = Done b t \<and> buffer_reused dev block b s t))"
proof -
  have s: "cinv (nr_buffers s) s" using assms(1) by (simp add: cinv_def)
  have "ensures (getblk e dev block s) (\<lambda>b t. got_block e (nr_buffers s) dev block s b t)"
    unfolding getblk_def by (rule getblk_loop_steps [OF assms(2) s meanwhile.start assms(3)])
  then have "ensures (getblk e dev block s) (\<lambda>b t. cache_ok t \<and> nr_buffers t = nr_buffers s \<and>
     b_dev (buffers t b) = dev \<and> b_blocknr (buffers t b) = block \<and> find_buffer dev block t = Some b \<and>
     (\<exists>u. meanwhile e s u \<and> cache_ok u \<and> (cache_hit e dev block b u t \<or> buffer_reused dev block b u t)))"
    using find_buffer_holds [OF _ assms(3), of "nr_buffers s" _ block]
    by (elim ensures_mono) (auto simp: got_block_def cinv_def holds_def)
  then show ?thesis using getblk_cached [OF s assms(3)] getblk_free [OF s assms(3)] by blast
qed

text \<open>
  Reusing a buffer for another block is a map update: the lookup finds the new block in
  it, no longer finds the block it held before, and finds every other block where it was.
\<close>

theorem take_buffer_map:
  assumes "cache_ok s" and "b < nr_buffers s" and "dev \<noteq> 0" and "find_buffer dev block s = None"
  shows "\<exists>t. take_buffer b dev block s = Done b t \<and> cache_ok t \<and>
     b_count (buffers t b) = 1 \<and> b_uptodate (buffers t b) = 0 \<and> b_dirt (buffers t b) = 0 \<and>
     (\<forall>d k. d \<noteq> 0 \<longrightarrow> find_buffer d k t =
        (if d = dev \<and> k = block then Some b
         else if find_buffer d k s = Some b then None else find_buffer d k s))"
proof -
  obtain t where t: "take_buffer b dev block s = Done b t" "cache_ok t" "nr_buffers t = nr_buffers s"
      "bkey (buffers t b) = (dev, block)" "uv (buffers t b) = (0, 0, 1, b_lock (buffers s b))"
      "\<forall>c. c \<noteq> b \<longrightarrow> bkey (buffers t c) = bkey (buffers s c)"
    using take_buffer_ok [OF assms] by blast
  have look: "find_buffer d k t = (if d = dev \<and> k = block then Some b
         else if find_buffer d k s = Some b then None else find_buffer d k s)" if d: "d \<noteq> 0" for d k
  proof -
    have ft: "find_buffer d k t = Some c \<longleftrightarrow> c < nr_buffers s \<and> bkey (buffers t c) = (d, k)" for c
      using find_buffer_iff [OF t(2) d, of k c] t(3) by (simp add: bkey_def)
    have fs: "find_buffer d k s = Some c \<longleftrightarrow> c < nr_buffers s \<and> bkey (buffers s c) = (d, k)" for c
      using find_buffer_iff [OF assms(1) d, of k c] by (simp add: bkey_def)
    show ?thesis
    proof (cases "d = dev \<and> k = block")
      case True
      then show ?thesis using ft [of b] t(4) assms(2) by simp
    next
      case False
      have "find_buffer d k t = Some c \<longleftrightarrow> find_buffer d k s = Some c \<and> c \<noteq> b" for c
        using False t(4,6) by (cases "c = b") (auto simp: ft fs)
      then show ?thesis using False by (metis option.exhaust)
    qed
  qed
  show ?thesis using t(1,2,5) look by (intro exI [of _ t]) (simp add: uv_def)
qed

text \<open>
  \<^verbatim>\<open>insert_into_queues\<close> does not test \<^verbatim>\<open>bh->b_next\<close> before it stores through it: whenever the
  new buffer is the first of its hash chain, the store goes to address 20, which is the
  entry of the page directory for the linear addresses from 20 MB on. The entry stays
  "not present", as buffer heads have even addresses.
\<close>

theorem insert_into_queues_clobbers:
  assumes "links_ok (buffers s) (nr_buffers s)" and "free_list s < nr_buffers s" and "b < nr_buffers s" and "b_dev (buffers s b) \<noteq> 0"
    and "hash_table s (bucket (buffers s b)) = None"
  shows "phys (insert_into_queues b s) = (phys s)(20 := start_buffer s + of_nat (36 * b)) \<and>
     (start_buffer s AND 1 = 0 \<longrightarrow> \<not> present (pde (insert_into_queues b s) 5))"
proof -
  let ?u = "insert_into_free b s"
  note u = insert_into_free_ok [OF assms(1,3,2)]
  have hv: "b_dev (buffers ?u b) = b_dev (buffers s b)" "bucket (buffers ?u b) = bucket (buffers s b)"
    using u(1) [of b] by (simp_all add: hv_def)
  have sb: "start_buffer ?u = start_buffer s"
    by (simp add: insert_into_free_def Let_def set_b_next_free_def upd_buf_def poke_def split: option.splits)
  have p: "phys (insert_into_queues b s) = (phys s)(20 := start_buffer s + of_nat (36 * b))"
    using insert_into_hash_ok(5) [of ?u b] assms(4,5) hv u(3,7)
    by (simp add: insert_into_queues_def bh_addr_def sb)
  have e2: "(x + of_nat (36 * b)) AND 1 = x AND 1" for x :: u32
  proof -
    have "(of_nat (36 * b) :: u32) = 2 * of_nat (18 * b)" by simp
    then show ?thesis by (simp only: and_one_eq) (simp add: mod2_eq_if)
  qed
  have "slot 0 5 = 20" by (simp add: slot_def)
  then show ?thesis using p e2 [of "start_buffer s"] by (simp add: pde_def)
qed


lemma demo_fs_cache: "cache_ok demo_fs" "nr_buffers demo_fs = 4" "b_dev (buffers demo_fs b) = 0"
  "hash_table demo_fs = (\<lambda>_. None)" "free_list demo_fs = 0" "buffers demo_fs = blank_buffer"
proof -
  show f: "nr_buffers demo_fs = 4" "hash_table demo_fs = (\<lambda>_. None)" "free_list demo_fs = 0"
    "buffers demo_fs = blank_buffer" and "b_dev (buffers demo_fs b) = 0"
    by (simp_all add: demo_fs_defs blank_buffer_def)
  have "chains_ok blank_buffer (\<lambda>_. None) 4 (\<lambda>_. [])" by (auto simp: chains_ok_def blank_buffer_def)
  moreover have "free_ring demo_fs [0, 1, 2, 3]" unfolding free_ring_def f by (auto simp: ring_iff linked_def blank_buffer_def)
  ultimately show "cache_ok demo_fs" using f by (auto simp: cache_ok_def)
qed

lemma demo_env_keeps: "keeps_cache demo_env"
  by (simp add: keeps_cache_def demo_env_def)

lemma demo_getblk_miss: "find_buffer dev block demo_fs = None"
  unfolding find_buffer_def find_in_chain.simps demo_fs_cache by simp

theorem getblk_finds_witness:
  "\<exists>t. getblk demo_env 0x101 5 demo_fs = Done 0 t \<and> find_buffer 0x101 5 t = Some 0 \<and> free_ring t [1, 2, 3, 0]"
proof -
  have fl: "free_ring demo_fs [0, 1, 2, 3]"
    unfolding free_ring_def demo_fs_cache by (auto simp: ring_iff linked_def blank_buffer_def)
  have no: "\<forall>c. \<not> holds 0x101 5 demo_fs c" by (simp add: holds_def demo_fs_cache(3))
  have "find (\<lambda>c. b_count (buffers demo_fs c) = 0 \<and> b_dirt (buffers demo_fs c) = 0 \<and> b_lock (buffers demo_fs c) = 0) [0, 1, 2, 3] = Some 0"
    by (simp add: demo_fs_cache(6) blank_buffer_def)
  then show ?thesis
    using getblk_finds [OF demo_fs_cache(1) demo_env_keeps, of "0x101" 5] fl no by (fastforce simp: buffer_reused_def)
qed

theorem take_buffer_map_witness:
  "\<exists>t. take_buffer 2 0x101 5 demo_fs = Done 2 t \<and> find_buffer 0x101 5 t = Some 2 \<and> find_buffer 0x101 6 t = None"
  using take_buffer_map [OF demo_fs_cache(1), of 2 "0x101" 5] demo_getblk_miss by (auto simp: demo_fs_cache(2))

theorem insert_into_queues_clobbers_witness:
  "\<exists>s :: fs_state. phys s 20 = 0 \<and> phys (insert_into_queues 1 s) 20 = 0x2B03C"
proof -
  let ?s = "upd_buf 1 (\<lambda>bh. bh\<lparr>b_dev := 0x101\<rparr>) demo_fs"
  have st: "start_buffer ?s = 0x2B018" "phys ?s = (\<lambda>_. 0)" by (simp_all add: demo_fs_defs upd_buf_def)
  have "links_ok (buffers ?s) (nr_buffers ?s)"
    using cache_ok_links [OF demo_fs_cache(1)] links_ok_cong [of "buffers ?s" "buffers demo_fs"] by simp
  then have "phys (insert_into_queues 1 ?s) = (phys ?s)(20 := start_buffer ?s + of_nat (36 * 1))"
    using insert_into_queues_clobbers [of ?s 1] by (simp add: demo_fs_cache)
  then show ?thesis using st by (intro exI [of _ ?s]) simp
qed

end
