(* ===== verification/Bitmap.thy ===== *)
theory Bitmap
  imports Buffer_Cache
begin

text \<open>
  The allocation bitmaps, \<^verbatim>\<open>fs/bitmap.c\<close>, with the lookup and locking of super blocks from
  \<^verbatim>\<open>fs/super.c\<close>. \<^verbatim>\<open>find_first_zero\<close> is modelled as the word-by-word search of the
  assembly code and shown to find the least clear bit.
\<close>


subsection \<open>Super blocks\<close>

fun wait_on_super_loop ::
  "nat \<Rightarrow> ('a fs_state_scheme) env \<Rightarrow> nat \<Rightarrow> 'a fs_state_scheme \<Rightarrow>
   (unit, 'a fs_state_scheme) outcome" where
  "wait_on_super_loop 0 e sb s = Stop Asleep s"
| "wait_on_super_loop (Suc n) e sb s =
     (if s_lock (super_table s sb) \<noteq> 0
      then kbind (sleep_on e (Wait_Super sb) s) (\<lambda>_ s. wait_on_super_loop n e sb s)
      else Done () s)"

definition wait_on_super ::
  "('a fs_state_scheme) env \<Rightarrow> nat \<Rightarrow> 'a fs_state_scheme \<Rightarrow> (unit, 'a fs_state_scheme) outcome" where
  "wait_on_super e sb s = wait_on_super_loop (Suc (patience e)) e sb s"

definition lock_super ::
  "('a fs_state_scheme) env \<Rightarrow> nat \<Rightarrow> 'a fs_state_scheme \<Rightarrow> (unit, 'a fs_state_scheme) outcome" where
  "lock_super e sb s =
     kbind (wait_on_super_loop (Suc (patience e)) e sb s) (\<lambda>_ s.
     Done () (upd_super sb (\<lambda>p. p\<lparr>s_lock := 1\<rparr>) s))"

definition free_super :: "nat \<Rightarrow> 'a fs_state_scheme \<Rightarrow> 'a fs_state_scheme" where
  "free_super sb s = wake_up (Wait_Super sb) (upd_super sb (\<lambda>p. p\<lparr>s_lock := 0\<rparr>) s)"

text \<open>Every round of the search starts again at the first super block.\<close>

fun get_super_loop ::
  "nat \<Rightarrow> ('a fs_state_scheme) env \<Rightarrow> u16 \<Rightarrow> 'a fs_state_scheme \<Rightarrow>
   (nat option, 'a fs_state_scheme) outcome" where
  "get_super_loop 0 e dev s = Stop Asleep s"
| "get_super_loop (Suc n) e dev s =
     (case find (\<lambda>i. s_dev (super_table s i) = dev) [0..<NR_SUPER] of
        None \<Rightarrow> Done None s
      | Some sb \<Rightarrow>
          kbind (wait_on_super e sb s) (\<lambda>_ s.
          if s_dev (super_table s sb) = dev then Done (Some sb) s else get_super_loop n e dev s))"

definition get_super ::
  "('a fs_state_scheme) env \<Rightarrow> u16 \<Rightarrow> 'a fs_state_scheme \<Rightarrow>
   (nat option, 'a fs_state_scheme) outcome" where
  "get_super e dev s = (if dev = 0 then Done None s else get_super_loop (Suc (patience e)) e dev s)"


subsection \<open>Bits of a block\<close>

definition upd_data :: "nat \<Rightarrow> ((nat \<Rightarrow> u8) \<Rightarrow> (nat \<Rightarrow> u8)) \<Rightarrow> 'a fs_state_scheme \<Rightarrow> 'a fs_state_scheme" where
  "upd_data b f s = s\<lparr>b_data := (b_data s)(b := f (b_data s b))\<rparr>"

definition clear_block :: "(nat \<Rightarrow> u8) \<Rightarrow> (nat \<Rightarrow> u8)" where
  "clear_block d = (\<lambda>i. if i < BLOCK_SIZE then 0 else d i)"

definition test_bit :: "nat \<Rightarrow> (nat \<Rightarrow> u8) \<Rightarrow> bool" where
  "test_bit nr d \<longleftrightarrow> bit (d (nr div 8)) (nr mod 8)"

text \<open>\<^verbatim>\<open>btsl\<close> returns the old bit, \<^verbatim>\<open>btrl\<close> with \<^verbatim>\<open>setnb\<close> its complement.\<close>

definition set_bit_at :: "nat \<Rightarrow> (nat \<Rightarrow> u8) \<Rightarrow> bool \<times> (nat \<Rightarrow> u8)" where
  "set_bit_at nr d = (test_bit nr d, d(nr div 8 := set_bit (nr mod 8) (d (nr div 8))))"

definition clear_bit_at :: "nat \<Rightarrow> (nat \<Rightarrow> u8) \<Rightarrow> bool \<times> (nat \<Rightarrow> u8)" where
  "clear_bit_at nr d = (\<not> test_bit nr d, d(nr div 8 := unset_bit (nr mod 8) (d (nr div 8))))"

text \<open>\<^verbatim>\<open>bsfl\<close>: the index of the lowest set bit.\<close>

definition bsf :: "u32 \<Rightarrow> nat" where
  "bsf w = length (takeWhile (\<lambda>i. \<not> bit w i) [0..<32])"

function find_zero_from :: "(nat \<Rightarrow> u8) \<Rightarrow> nat \<Rightarrow> nat" where
  "find_zero_from d ecx =
     (let w = NOT (block_long d (ecx div 32))
      in if w \<noteq> 0 then ecx + bsf w
         else if ecx + 32 < 8192 then find_zero_from d (ecx + 32) else ecx + 32)"
  by pat_completeness auto

termination
  by (relation "measure (\<lambda>(_, ecx). 8192 - ecx)") auto

declare find_zero_from.simps [simp del]

definition find_first_zero :: "(nat \<Rightarrow> u8) \<Rightarrow> nat" where
  "find_first_zero d = find_zero_from d 0"


subsection \<open>Blocks\<close>

definition free_block ::
  "('a fs_state_scheme) env \<Rightarrow> u16 \<Rightarrow> u32 \<Rightarrow> 'a fs_state_scheme \<Rightarrow>
   (unit, 'a fs_state_scheme) outcome" where
  "free_block e dev block s =
     kbind (get_super e dev s) (\<lambda>sb s.
     case sb of
       None \<Rightarrow> Stop (Panic ''trying to free block on nonexistent device'') s
     | Some p \<Rightarrow>
         let first = unat (s_firstdatazone (super_table s p)); blk = unat block
         in if blk < first \<or> unat (s_nzones (super_table s p)) \<le> blk
            then Stop (Panic ''trying to free block not in datazone'') s
            else kbind (get_hash_table e dev block s) (\<lambda>bh s.
                 kbind (case bh of
                          None \<Rightarrow> Done True s
                        | Some b \<Rightarrow>
                            if b_count (buffers s b) \<noteq> 1
                            then Done False (printk ''trying to free block (%04x:%d), count=%d'' s)
                            else kbind (brelse e (Some b)
                                          (upd_buf b (\<lambda>h. h\<lparr>b_dirt := 0, b_uptodate := 0\<rparr>) s)) (\<lambda>_ s. Done True s))
                 (\<lambda>go s.
                   if \<not> go then Done () s
                   else let nr = blk - (first - 1)
                        in case s_zmap (super_table s p) (nr div 8192) of
                             None \<Rightarrow> Stop (Panic ''NULL zone map'') s
                           | Some z \<Rightarrow>
                               let (was_clear, d) = clear_bit_at (nr mod 8192) (b_data s z);
                                   s = upd_data z (\<lambda>_. d) s
                               in if was_clear
                                  then Stop (Panic ''free_block: bit already cleared'') (printk ''block (%04x:%d) '' s)
                                  else Done () (upd_buf z (\<lambda>h. h\<lparr>b_dirt := 1\<rparr>) s))))"

text \<open>
  The search for a map block with a free bit: \<open>(i, bh, j)\<close> as the loop leaves them,
  with \<open>n\<close> maps left to look at.
\<close>

fun map_search ::
  "nat \<Rightarrow> nat \<Rightarrow> (nat \<Rightarrow> nat option) \<Rightarrow> (nat \<Rightarrow> nat \<Rightarrow> u8) \<Rightarrow> nat option \<Rightarrow> nat \<Rightarrow> nat \<times> nat option \<times> nat" where
  "map_search 0 i maps data bh j = (i, bh, j)"
| "map_search (Suc n) i maps data bh j =
     (case maps i of
        None \<Rightarrow> map_search n (Suc i) maps data None j
      | Some b \<Rightarrow>
          let j = find_first_zero (data b)
          in if j < 8192 then (i, Some b, j) else map_search n (Suc i) maps data (Some b) j)"

definition new_block ::
  "('a fs_state_scheme) env \<Rightarrow> u16 \<Rightarrow> 'a fs_state_scheme \<Rightarrow> (u32, 'a fs_state_scheme) outcome" where
  "new_block e dev s =
     kbind (get_super e dev s) (\<lambda>sb s.
     case sb of
       None \<Rightarrow> Stop (Panic ''trying to get new block from nonexistant device'') s
     | Some p \<Rightarrow>
         (case map_search 8 0 (s_zmap (super_table s p)) (b_data s) None 8192 of (i, bh, j) \<Rightarrow>
           if 8 \<le> i \<or> bh = None \<or> 8192 \<le> j then Done 0 s
           else let z = the bh;
                    (was_set, d) = set_bit_at j (b_data s z);
                    s = upd_data z (\<lambda>_. d) s
                in if was_set then Stop (Panic ''new_block: bit already set'') s
                   else let s = upd_buf z (\<lambda>h. h\<lparr>b_dirt := 1\<rparr>) s;
                            blk = j + i * 8192 + unat (s_firstdatazone (super_table s p)) - 1
                        in if unat (s_nzones (super_table s p)) \<le> blk then Done 0 s
                           else kbind (getblk e dev (of_nat blk) s) (\<lambda>b s.
                                if b_count (buffers s b) \<noteq> 1 then Stop (Panic ''new block: count is != 1'') s
                                else kbind (brelse e (Some b)
                                              (upd_buf b (\<lambda>h. h\<lparr>b_uptodate := 1, b_dirt := 1\<rparr>)
                                                (upd_data b clear_block s))) (\<lambda>_ s.
                                     Done (of_nat blk) s))))"


subsection \<open>Inodes on disk\<close>

definition zero_inode :: m_inode where
  "zero_inode = \<lparr>i_mode = 0, i_uid = 0, i_size = 0, i_mtime = 0, i_gid = 0, i_nlinks = 0, i_zone = (\<lambda>_. 0),
     i_atime = 0, i_ctime = 0, i_dev = 0, i_num = 0, i_count = 0, i_lock = 0, i_dirt = 0, i_pipe = 0,
     i_mount = 0, i_seek = 0, i_update = 0\<rparr>"

text \<open>\<^verbatim>\<open>memset(inode,0,sizeof(*inode))\<close>, which clears the wait queue as well.\<close>

definition clear_inode :: "nat \<Rightarrow> 'a fs_state_scheme \<Rightarrow> 'a fs_state_scheme" where
  "clear_inode i s = (upd_inode i (\<lambda>_. zero_inode) s)\<lparr>wait_head := (wait_head s)(Wait_Inode i := 0)\<rparr>"

definition free_inode ::
  "('a fs_state_scheme) env \<Rightarrow> nat option \<Rightarrow> 'a fs_state_scheme \<Rightarrow>
   (unit, 'a fs_state_scheme) outcome" where
  "free_inode e ino s =
     (case ino of
        None \<Rightarrow> Done () s
      | Some i \<Rightarrow>
          if i_dev (inode_table s i) = 0 then Done () (clear_inode i s)
          else if 1 < i_count (inode_table s i)
          then Stop (Panic ''free_inode'') (printk ''trying to free inode with count=%d'' s)
          else if i_nlinks (inode_table s i) \<noteq> 0 then Stop (Panic ''trying to free inode with links'') s
          else kbind (get_super e (i_dev (inode_table s i)) s) (\<lambda>sb s.
               case sb of
                 None \<Rightarrow> Stop (Panic ''trying to free inode on nonexistent device'') s
               | Some p \<Rightarrow>
                   let num = i_num (inode_table s i)
                   in if num < 1 \<or> s_ninodes (super_table s p) < num
                      then Stop (Panic ''trying to free inode 0 or nonexistant inode'') s
                      else case s_imap (super_table s p) (unat num div 8192) of
                             None \<Rightarrow> Stop (Panic ''nonexistent imap in superblock'') s
                           | Some b \<Rightarrow>
                               let (was_clear, d) = clear_bit_at (unat num mod 8192) (b_data s b);
                                   s = upd_data b (\<lambda>_. d) s;
                                   s = (if was_clear then printk ''free_inode: bit already cleared.'' s else s);
                                   s = upd_buf b (\<lambda>h. h\<lparr>b_dirt := 1\<rparr>) s
                               in Done () (clear_inode i s)))"


subsection \<open>The search is right\<close>

lemma bsf_spec:
  assumes "w \<noteq> 0"
  shows "bsf w < 32" "bit w (bsf w)" "\<forall>i<bsf w. \<not> bit w i"
proof -
  have "\<exists>k<32. bit w k"
  proof (rule ccontr)
    assume "\<not> (\<exists>k<32. bit w k)"
    then have "w = 0" by (intro bit_word_eqI) simp
    then show False using assms by simp
  qed
  then obtain k where k: "k < 32" "bit w k" by blast
  let ?l = "takeWhile (\<lambda>i. \<not> bit w i) [0..<32]"
  have lt: "length ?l < 32"
  proof (rule ccontr)
    assume "\<not> length ?l < 32"
    then have "?l = [0..<32]" by (metis diff_zero length_upt linorder_not_less takeWhile_eq_take take_all)
    then have "\<forall>i\<in>set [0..<32]. \<not> bit w i" using takeWhile_eq_all_conv by fastforce
    then show False using k by simp
  qed
  then show "bsf w < 32" by (simp add: bsf_def)
  have "\<not> \<not> bit w ([0..<32] ! length ?l)"
    using lt by (intro nth_length_takeWhile) simp
  then show "bit w (bsf w)" using lt by (simp add: bsf_def)
  show "\<forall>i<bsf w. \<not> bit w i"
  proof (intro allI impI)
    fix i assume i: "i < bsf w"
    then have "?l ! i = i" using lt by (simp add: bsf_def takeWhile_nth)
    then show "\<not> bit w i" using i by (metis bsf_def nth_mem set_takeWhileD)
  qed
qed

lemma bit_block_long:
  assumes "k < 32"
  shows "bit (block_long d j) k = test_bit (32 * j + k) d"
proof -
  have nth: "(32 * j + k) div 8 = 4 * j + k div 8" "(32 * j + k) mod 8 = k mod 8"
    using div_mult_self2 [of 8 k "4 * j"] mod_mult_self2 [of k 8 "4 * j"] by (simp_all add: algebra_simps)
  have byte: "bit (ucast (x :: u8) :: u32) n \<longleftrightarrow> n < 8 \<and> bit x n" for x n
    by (auto simp: bit_ucast_iff dest: bit_imp_le_length)
  consider "k < 8" | "8 \<le> k" "k < 16" | "16 \<le> k" "k < 24" | "24 \<le> k" using assms by linarith
  then show ?thesis
  proof cases
    case 1
    then show ?thesis unfolding block_long_def test_bit_def nth
      by (simp add: bit_or_iff bit_push_bit_iff byte)
  next
    case 2
    then have "k div 8 = 1" "k mod 8 = k - 8" by presburger+
    with 2 show ?thesis unfolding block_long_def test_bit_def nth
      by (auto simp: bit_or_iff bit_push_bit_iff byte)
  next
    case 3
    then have "k div 8 = 2" "k mod 8 = k - 16" by presburger+
    with 3 show ?thesis unfolding block_long_def test_bit_def nth
      by (auto simp: bit_or_iff bit_push_bit_iff byte)
  next
    case 4
    then have "k div 8 = 3" "k mod 8 = k - 24" using assms by presburger+
    with 4 assms show ?thesis unfolding block_long_def test_bit_def nth
      by (auto simp: bit_or_iff bit_push_bit_iff byte)
  qed
qed

text \<open>What the search has found when it stops, from any word boundary on.\<close>

lemma find_zero_from_spec:
  assumes "ecx mod 32 = 0" "ecx < 8192"
  shows "find_zero_from d ecx \<le> 8192 \<and> (\<forall>i. ecx \<le> i \<and> i < find_zero_from d ecx \<longrightarrow> test_bit i d) \<and>
    (find_zero_from d ecx < 8192 \<longrightarrow> \<not> test_bit (find_zero_from d ecx) d)"
  using assms
proof (induction d ecx rule: find_zero_from.induct)
  case (1 d ecx)
  let ?w = "NOT (block_long d (ecx div 32))"
  have word: "bit ?w k \<longleftrightarrow> \<not> test_bit (ecx + k) d" if "k < 32" for k
  proof -
    have "32 * (ecx div 32) = ecx" using 1(2) by auto
    then show ?thesis using bit_block_long [OF that, of d "ecx div 32"] that by (simp add: bit_not_iff)
  qed
  have room: "ecx + 32 \<le> 8192" using 1(2,3) by presburger
  show ?case
  proof (cases "?w = 0")
    case False
    then have v: "find_zero_from d ecx = ecx + bsf ?w" by (subst find_zero_from.simps) simp
    have low: "test_bit i d" if "ecx \<le> i" "i < ecx + bsf ?w" for i
      using bsf_spec [OF False] word [of "i - ecx"] that by auto
    show ?thesis unfolding v using bsf_spec [OF False] word [of "bsf ?w"] low room by auto
  next
    case True
    have all: "test_bit i d" if "ecx \<le> i" "i < ecx + 32" for i
      using word [of "i - ecx"] True that by simp
    show ?thesis
    proof (cases "ecx + 32 < 8192")
      case more: True
      then have v: "find_zero_from d ecx = find_zero_from d (ecx + 32)"
        using True by (subst find_zero_from.simps) simp
      have ih: "find_zero_from d (ecx + 32) \<le> 8192 \<and>
          (\<forall>i. ecx + 32 \<le> i \<and> i < find_zero_from d (ecx + 32) \<longrightarrow> test_bit i d) \<and>
          (find_zero_from d (ecx + 32) < 8192 \<longrightarrow> \<not> test_bit (find_zero_from d (ecx + 32)) d)"
        using 1(1) [OF refl] True more 1(2) by simp
      show ?thesis unfolding v using ih all by (meson not_le)
    next
      case False
      have e: "ecx + 32 = 8192" using False room by linarith
      have "find_zero_from d ecx = ecx + 32" using False True by (subst find_zero_from.simps) simp
      then show ?thesis using all unfolding e by simp
    qed
  qed
qed

lemma length_takeWhile_upt:
  "n \<le> m \<Longrightarrow> \<forall>i<n. P i \<Longrightarrow> (n < m \<longrightarrow> \<not> P n) \<Longrightarrow> length (takeWhile P [0..<m]) = n"
proof -
  assume a: "n \<le> m" "\<forall>i<n. P i" "n < m \<longrightarrow> \<not> P n"
  have "[0..<m] = [0..<n] @ [n..<m]" using a(1) upt_add_eq_append [of 0 n "m - n"] by simp
  moreover have "takeWhile P [n..<m] = []" using a(3) by (cases "n < m") (auto simp: upt_conv_Cons)
  ultimately show ?thesis using a(2) by (simp add: takeWhile_append)
qed

text \<open>
  C28: the word-by-word search with \<^verbatim>\<open>bsfl\<close> gives the number of leading set bits of the
  block, so the least clear bit, or 8192 when all 8192 bits are set.
\<close>

theorem find_first_zero_least:
  "find_first_zero d = length (takeWhile (\<lambda>i. test_bit i d) [0..<8192])"
  using find_zero_from_spec [of 0 d]
  unfolding find_first_zero_def by (intro length_takeWhile_upt [symmetric]) simp_all


subsection \<open>A map block as an allocator\<close>

text \<open>
  Claiming a bit of a map block as \<^verbatim>\<open>new_block\<close> and \<^verbatim>\<open>new_inode\<close> do, and giving it back as
  \<^verbatim>\<open>free_block\<close> and \<^verbatim>\<open>free_inode\<close> do, keep the promises of an allocator.
\<close>

definition claim_bit :: "(nat \<Rightarrow> u8) \<Rightarrow> nat \<times> (nat \<Rightarrow> u8)" where
  "claim_bit d = (let j = find_first_zero d in if j < 8192 then (j, snd (set_bit_at j d)) else (8192, d))"

definition release_bit :: "nat \<Rightarrow> (nat \<Rightarrow> u8) \<Rightarrow> (unit, nat \<Rightarrow> u8) outcome" where
  "release_bit nr d =
     (case clear_bit_at nr d of (was_clear, d') \<Rightarrow>
        if was_clear then Stop (Panic ''bit already cleared'') d' else Done () d')"

definition bits_set :: "(nat \<Rightarrow> u8) \<Rightarrow> nat set" where
  "bits_set d = {i. i < 8192 \<and> test_bit i d}"

lemma same_bit_iff: "i = j \<longleftrightarrow> i div 8 = j div 8 \<and> i mod 8 = j mod 8" for i j :: nat
  by (metis div_mult_mod_eq)

lemma bit_set_u8: "n < 8 \<Longrightarrow> bit (set_bit m (x :: u8)) n \<longleftrightarrow> n = m \<or> bit x n"
  by (auto simp: bit_set_bit_iff)

lemma bit_unset_u8: "bit (unset_bit m (x :: u8)) n \<longleftrightarrow> n \<noteq> m \<and> bit x n"
  by (auto simp: bit_unset_bit_iff)

lemma test_bit_set: "test_bit i (snd (set_bit_at j d)) \<longleftrightarrow> i = j \<or> test_bit i d"
  unfolding same_bit_iff [of i j] set_bit_at_def test_bit_def by (simp add: bit_set_u8)

lemma test_bit_clear: "test_bit i (snd (clear_bit_at j d)) \<longleftrightarrow> i \<noteq> j \<and> test_bit i d"
  unfolding same_bit_iff [of i j] clear_bit_at_def test_bit_def by (simp add: bit_unset_u8)

lemma bits_set_simps:
  "j < 8192 \<Longrightarrow> bits_set (snd (set_bit_at j d)) = insert j (bits_set d)"
  "bits_set (snd (clear_bit_at j d)) = bits_set d - {j}"
  by (auto simp: bits_set_def test_bit_set test_bit_clear)

lemma find_first_zero_clear: "find_first_zero d < 8192 \<Longrightarrow> \<not> test_bit (find_first_zero d) d"
  using find_zero_from_spec [of 0 d] by (simp add: find_first_zero_def)

interpretation zmap: allocator claim_bit release_bit 8192 bits_set "\<lambda>_. True"
proof unfold_locales
  fix d t :: "nat \<Rightarrow> u8" and p
  assume al: "claim_bit d = (p, t)" and "p \<noteq> 8192"
  then have p: "p = find_first_zero d" "p < 8192" "t = snd (set_bit_at p d)"
    by (auto simp: claim_bit_def Let_def split: if_splits)
  then have free: "\<not> test_bit p d" using find_first_zero_clear by simp
  then show "p \<notin> bits_set d \<and> bits_set t = insert p (bits_set d) \<and> True"
    using p by (simp add: bits_set_simps) (simp add: bits_set_def)
  have "release_bit p t = Done () (snd (clear_bit_at p t))"
    using p(3) test_bit_set by (auto simp: release_bit_def clear_bit_at_def)
  moreover have "bits_set (snd (clear_bit_at p t)) = bits_set d"
    using p free by (auto simp: bits_set_def test_bit_set test_bit_clear)
  ultimately show "returns (release_bit p t) (\<lambda>_ u. bits_set u = bits_set d \<and> True)" by simp
qed (auto simp: claim_bit_def Let_def split: if_splits)

end
