(* ===== verification/Inode.thy ===== *)
theory Inode
  imports Bitmap
begin

text \<open>
  The inode table, \<^verbatim>\<open>fs/inode.c\<close>, with \<^verbatim>\<open>fs/truncate.c\<close> and \<^verbatim>\<open>new_inode\<close> of \<^verbatim>\<open>fs/bitmap.c\<close>: locking,
  the layout of inodes on disk, the translation of file blocks to device blocks, and
  the life cycle of an in-core inode. \<open>tie\<close> closes the cycle between the buffer cache,
  which calls \<^verbatim>\<open>sync_inodes\<close>, and the inode table, which reads and writes buffers.
\<close>


subsection \<open>File types\<close>

definition S_IFMT :: u16 where "S_IFMT = 0xF000"
definition S_IFREG :: u16 where "S_IFREG = 0x8000"
definition S_IFBLK :: u16 where "S_IFBLK = 0x6000"
definition S_IFDIR :: u16 where "S_IFDIR = 0x4000"
definition S_IFCHR :: u16 where "S_IFCHR = 0x2000"
definition S_IFIFO :: u16 where "S_IFIFO = 0x1000"
definition S_ISUID :: u16 where "S_ISUID = 0x0800"
definition S_ISGID :: u16 where "S_ISGID = 0x0400"
definition S_ISVTX :: u16 where "S_ISVTX = 0x0200"

definition S_ISREG :: "u16 \<Rightarrow> bool" where "S_ISREG m \<longleftrightarrow> m AND S_IFMT = S_IFREG"
definition S_ISDIR :: "u16 \<Rightarrow> bool" where "S_ISDIR m \<longleftrightarrow> m AND S_IFMT = S_IFDIR"
definition S_ISCHR :: "u16 \<Rightarrow> bool" where "S_ISCHR m \<longleftrightarrow> m AND S_IFMT = S_IFCHR"
definition S_ISBLK :: "u16 \<Rightarrow> bool" where "S_ISBLK m \<longleftrightarrow> m AND S_IFMT = S_IFBLK"

lemmas stat_defs = S_IFMT_def S_IFREG_def S_IFBLK_def S_IFDIR_def S_IFCHR_def S_IFIFO_def
  S_ISUID_def S_ISGID_def S_ISVTX_def S_ISREG_def S_ISDIR_def S_ISCHR_def S_ISBLK_def


subsection \<open>Numbers and inodes in a block\<close>

text \<open>Little-endian numbers at a byte offset of a block.\<close>

definition u16_at :: "(nat \<Rightarrow> u8) \<Rightarrow> nat \<Rightarrow> u16" where
  "u16_at d a = ucast (d a) OR push_bit 8 (ucast (d (a + 1)))"

definition put_u16 :: "nat \<Rightarrow> u16 \<Rightarrow> (nat \<Rightarrow> u8) \<Rightarrow> (nat \<Rightarrow> u8)" where
  "put_u16 a v d = d(a := ucast v, a + 1 := ucast (drop_bit 8 v))"

definition u32_at :: "(nat \<Rightarrow> u8) \<Rightarrow> nat \<Rightarrow> u32" where
  "u32_at d a = ucast (u16_at d a) OR push_bit 16 (ucast (u16_at d (a + 2)))"

definition put_u32 :: "nat \<Rightarrow> u32 \<Rightarrow> (nat \<Rightarrow> u8) \<Rightarrow> (nat \<Rightarrow> u8)" where
  "put_u32 a v d = put_u16 (a + 2) (ucast (drop_bit 16 v)) (put_u16 a (ucast v) d)"

text \<open>\<^verbatim>\<open>((struct d_inode *) bh->b_data)[n]\<close>, 32 bytes each, read and assigned.\<close>

definition INODES_PER_BLOCK :: nat where
  "INODES_PER_BLOCK = BLOCK_SIZE div 32"

definition get_d_inode :: "(nat \<Rightarrow> u8) \<Rightarrow> nat \<Rightarrow> d_inode" where
  "get_d_inode d n =
     (let a = 32 * n
      in \<lparr>d_mode = u16_at d a, d_uid = u16_at d (a + 2), d_size = u32_at d (a + 4),
          d_time = u32_at d (a + 8), d_gid = d (a + 12), d_nlinks = d (a + 13),
          d_zone = (\<lambda>k. if k < 9 then u16_at d (a + 14 + 2 * k) else 0)\<rparr>)"

definition put_d_inode :: "nat \<Rightarrow> d_inode \<Rightarrow> (nat \<Rightarrow> u8) \<Rightarrow> (nat \<Rightarrow> u8)" where
  "put_d_inode n di d =
     (let a = 32 * n;
          d = put_u16 (a + 2) (d_uid di) (put_u16 a (d_mode di) d);
          d = put_u32 (a + 8) (d_time di) (put_u32 (a + 4) (d_size di) d);
          d = d(a + 12 := d_gid di, a + 13 := d_nlinks di)
      in fold (\<lambda>k. put_u16 (a + 14 + 2 * k) (d_zone di k)) [0..<9] d)"

text \<open>The first members of \<^verbatim>\<open>struct m_inode\<close> seen as a \<^verbatim>\<open>struct d_inode\<close>.\<close>

definition d_of :: "m_inode \<Rightarrow> d_inode" where
  "d_of m = \<lparr>d_mode = i_mode m, d_uid = i_uid m, d_size = i_size m, d_time = i_mtime m,
     d_gid = i_gid m, d_nlinks = i_nlinks m, d_zone = i_zone m\<rparr>"

definition set_d_inode :: "d_inode \<Rightarrow> m_inode \<Rightarrow> m_inode" where
  "set_d_inode di m = m\<lparr>i_mode := d_mode di, i_uid := d_uid di, i_size := d_size di,
     i_mtime := d_time di, i_gid := d_gid di, i_nlinks := d_nlinks di, i_zone := d_zone di\<rparr>"

definition CURRENT_SECONDS :: "'a sched_state_scheme \<Rightarrow> u32" where
  "CURRENT_SECONDS s = of_int (CURRENT_TIME s)"


subsection \<open>Locks\<close>

fun wait_on_inode_loop ::
  "nat \<Rightarrow> ('a fs_state_scheme) env \<Rightarrow> nat \<Rightarrow> 'a fs_state_scheme \<Rightarrow>
   (unit, 'a fs_state_scheme) outcome" where
  "wait_on_inode_loop 0 e i s = Stop Asleep s"
| "wait_on_inode_loop (Suc n) e i s =
     (if i_lock (inode_table s i) \<noteq> 0
      then kbind (sleep_on e (Wait_Inode i) s) (\<lambda>_ s. wait_on_inode_loop n e i s)
      else Done () s)"

definition wait_on_inode ::
  "('a fs_state_scheme) env \<Rightarrow> nat \<Rightarrow> 'a fs_state_scheme \<Rightarrow> (unit, 'a fs_state_scheme) outcome" where
  "wait_on_inode e i s = wait_on_inode_loop (Suc (patience e)) e i s"

definition lock_inode ::
  "('a fs_state_scheme) env \<Rightarrow> nat \<Rightarrow> 'a fs_state_scheme \<Rightarrow> (unit, 'a fs_state_scheme) outcome" where
  "lock_inode e i s =
     kbind (wait_on_inode_loop (Suc (patience e)) e i s) (\<lambda>_ s.
     Done () (upd_inode i (\<lambda>m. m\<lparr>i_lock := 1\<rparr>) s))"

definition unlock_inode :: "nat \<Rightarrow> 'a fs_state_scheme \<Rightarrow> 'a fs_state_scheme" where
  "unlock_inode i s = wake_up (Wait_Inode i) (upd_inode i (\<lambda>m. m\<lparr>i_lock := 0\<rparr>) s)"

definition invalidate_inodes ::
  "('a fs_state_scheme) env \<Rightarrow> u16 \<Rightarrow> 'a fs_state_scheme \<Rightarrow> (unit, 'a fs_state_scheme) outcome" where
  "invalidate_inodes e dev s =
     kfold (\<lambda>i s. kbind (wait_on_inode e i s) (\<lambda>_ s.
              Done () (if i_dev (inode_table s i) = dev
                       then upd_inode i (\<lambda>m. m\<lparr>i_dirt := 0, i_dev := 0\<rparr>)
                              (if i_count (inode_table s i) \<noteq> 0
                               then printk ''inode in use on removed disk'' s else s)
                       else s)))
       [0..<NR_INODE] s"


subsection \<open>Inodes on disk\<close>

text \<open>
  The block of an inode and its place in the block. \<^verbatim>\<open>INODES_PER_BLOCK\<close> is unsigned, so the
  division is.
\<close>

definition inode_block :: "super_block \<Rightarrow> u16 \<Rightarrow> u32" where
  "inode_block sb num =
     2 + ucast (s_imap_blocks sb) + ucast (s_zmap_blocks sb) +
     of_nat (unat (ucast num - 1 :: u32) div INODES_PER_BLOCK)"

definition inode_place :: "u16 \<Rightarrow> nat" where
  "inode_place num = unat (ucast num - 1 :: u32) mod INODES_PER_BLOCK"

definition read_inode ::
  "('a fs_state_scheme) env \<Rightarrow> nat \<Rightarrow> 'a fs_state_scheme \<Rightarrow> (unit, 'a fs_state_scheme) outcome" where
  "read_inode e i s =
     kbind (lock_inode e i s) (\<lambda>_ s.
     kbind (get_super e (i_dev (inode_table s i)) s) (\<lambda>sb s.
     case sb of
       None \<Rightarrow> Stop (Panic ''trying to read inode without dev'') s
     | Some p \<Rightarrow>
         kbind (bread e (i_dev (inode_table s i))
                  (inode_block (super_table s p) (i_num (inode_table s i))) s) (\<lambda>bh s.
         case bh of
           None \<Rightarrow> Stop (Panic ''unable to read i-node block'') s
         | Some b \<Rightarrow>
             kbind (brelse e (Some b)
                      (upd_inode i (\<lambda>m. set_d_inode (get_d_inode (b_data s b) (inode_place (i_num m))) m) s))
               (\<lambda>_ s. Done () (unlock_inode i s)))))"

definition write_inode ::
  "('a fs_state_scheme) env \<Rightarrow> nat \<Rightarrow> 'a fs_state_scheme \<Rightarrow> (unit, 'a fs_state_scheme) outcome" where
  "write_inode e i s =
     kbind (lock_inode e i s) (\<lambda>_ s.
     if i_dirt (inode_table s i) = 0 \<or> i_dev (inode_table s i) = 0 then Done () (unlock_inode i s)
     else kbind (get_super e (i_dev (inode_table s i)) s) (\<lambda>sb s.
          case sb of
            None \<Rightarrow> Stop (Panic ''trying to write inode without device'') s
          | Some p \<Rightarrow>
              kbind (bread e (i_dev (inode_table s i))
                       (inode_block (super_table s p) (i_num (inode_table s i))) s) (\<lambda>bh s.
              case bh of
                None \<Rightarrow> Stop (Panic ''unable to read i-node block'') s
              | Some b \<Rightarrow>
                  let m = inode_table s i;
                      s = upd_data b (put_d_inode (inode_place (i_num m)) (d_of m)) s;
                      s = upd_buf b (\<lambda>h. h\<lparr>b_dirt := 1\<rparr>) s;
                      s = upd_inode i (\<lambda>m. m\<lparr>i_dirt := 0\<rparr>) s
                  in kbind (brelse e (Some b) s) (\<lambda>_ s. Done () (unlock_inode i s)))))"

definition sync_inodes ::
  "('a fs_state_scheme) env \<Rightarrow> 'a fs_state_scheme \<Rightarrow> (unit, 'a fs_state_scheme) outcome" where
  "sync_inodes e s =
     kfold (\<lambda>i s. kbind (wait_on_inode e i s) (\<lambda>_ s.
              if i_dirt (inode_table s i) \<noteq> 0 \<and> i_pipe (inode_table s i) = 0
              then write_inode e i s else Done () s))
       [0..<NR_INODE] s"

text \<open>
  \<^verbatim>\<open>sync_inodes\<close> reads blocks, reading a block may call \<^verbatim>\<open>sync_dev\<close> to clean a buffer, and
  \<^verbatim>\<open>sync_dev\<close> calls \<^verbatim>\<open>sync_inodes\<close>; \<open>n\<close> bounds how deep that recursion goes.
\<close>

fun tie :: "nat \<Rightarrow> ('a fs_state_scheme) env \<Rightarrow> ('a fs_state_scheme) env" where
  "tie 0 e = e\<lparr>sync_ino := (\<lambda>s. Stop Looping s)\<rparr>"
| "tie (Suc n) e = e\<lparr>sync_ino := sync_inodes (tie n e)\<rparr>"


subsection \<open>From file blocks to device blocks\<close>

text \<open>
  \<open>claim_zone\<close> fills an empty zone of the inode when \<open>create\<close> is set, \<open>map_entry\<close> reads entry
  \<open>k\<close> of an indirect block and fills it likewise.
\<close>

definition claim_zone ::
  "('a fs_state_scheme) env \<Rightarrow> nat \<Rightarrow> nat \<Rightarrow> bool \<Rightarrow> 'a fs_state_scheme \<Rightarrow>
   (unit, 'a fs_state_scheme) outcome" where
  "claim_zone e i k create s =
     (if create \<and> i_zone (inode_table s i) k = 0
      then kbind (new_block e (i_dev (inode_table s i)) s) (\<lambda>blk s.
           let s = upd_inode i (\<lambda>m. m\<lparr>i_zone := (i_zone m)(k := ucast blk)\<rparr>) s
           in Done () (if i_zone (inode_table s i) k \<noteq> 0
                       then upd_inode i (\<lambda>m. m\<lparr>i_ctime := CURRENT_SECONDS s, i_dirt := 1\<rparr>) s else s))
      else Done () s)"

definition map_entry ::
  "('a fs_state_scheme) env \<Rightarrow> nat \<Rightarrow> nat \<Rightarrow> nat \<Rightarrow> bool \<Rightarrow> 'a fs_state_scheme \<Rightarrow>
   (u32, 'a fs_state_scheme) outcome" where
  "map_entry e i b k create s =
     (let v = u16_at (b_data s b) (2 * k)
      in if create \<and> v = 0
         then kbind (new_block e (i_dev (inode_table s i)) s) (\<lambda>blk s.
              Done blk (if blk \<noteq> 0
                        then upd_buf b (\<lambda>h. h\<lparr>b_dirt := 1\<rparr>) (upd_data b (put_u16 (2 * k) (ucast blk)) s)
                        else s))
         else Done (ucast v) s)"

text \<open>One level of indirection: read the block, take the entry, release the block.\<close>

definition indirect ::
  "('a fs_state_scheme) env \<Rightarrow> nat \<Rightarrow> u32 \<Rightarrow> nat \<Rightarrow> bool \<Rightarrow> 'a fs_state_scheme \<Rightarrow>
   (u32, 'a fs_state_scheme) outcome" where
  "indirect e i blk k create s =
     (if blk = 0 then Done 0 s
      else kbind (bread e (i_dev (inode_table s i)) blk s) (\<lambda>bh s.
           case bh of
             None \<Rightarrow> Done 0 s
           | Some b \<Rightarrow>
               kbind (map_entry e i b k create s) (\<lambda>v s.
               kbind (brelse e (Some b) s) (\<lambda>_ s. Done v s))))"

definition do_bmap ::
  "('a fs_state_scheme) env \<Rightarrow> nat \<Rightarrow> int \<Rightarrow> bool \<Rightarrow> 'a fs_state_scheme \<Rightarrow>
   (u32, 'a fs_state_scheme) outcome" where
  "do_bmap e i block create s =
     (if block < 0 then Stop (Panic ''_bmap: block<0'') s
      else if 7 + 512 + 512 * 512 \<le> block then Stop (Panic ''_bmap: block>big'') s
      else let blk = nat block
           in if blk < 7
              then kbind (claim_zone e i blk create s) (\<lambda>_ s. Done (ucast (i_zone (inode_table s i) blk)) s)
              else let blk = blk - 7
                   in if blk < 512
                      then kbind (claim_zone e i 7 create s) (\<lambda>_ s.
                           indirect e i (ucast (i_zone (inode_table s i) 7)) blk create s)
                      else let blk = blk - 512
                           in kbind (claim_zone e i 8 create s) (\<lambda>_ s.
                              kbind (indirect e i (ucast (i_zone (inode_table s i) 8)) (blk div 512) create s)
                                (\<lambda>v s. indirect e i v (blk mod 512) create s)))"

definition bmap ::
  "('a fs_state_scheme) env \<Rightarrow> nat \<Rightarrow> int \<Rightarrow> 'a fs_state_scheme \<Rightarrow> (u32, 'a fs_state_scheme) outcome" where
  "bmap e i block s = do_bmap e i block False s"

definition create_block ::
  "('a fs_state_scheme) env \<Rightarrow> nat \<Rightarrow> int \<Rightarrow> 'a fs_state_scheme \<Rightarrow> (u32, 'a fs_state_scheme) outcome" where
  "create_block e i block s = do_bmap e i block True s"


subsection \<open>Truncating\<close>

text \<open>
  \<^verbatim>\<open>free_ind\<close> and \<^verbatim>\<open>free_dind\<close> differ in what they do with an entry of the block.
\<close>

definition free_entries ::
  "('a fs_state_scheme) env \<Rightarrow> (u32 \<Rightarrow> 'a fs_state_scheme \<Rightarrow> (unit, 'a fs_state_scheme) outcome) \<Rightarrow>
   u16 \<Rightarrow> u32 \<Rightarrow> 'a fs_state_scheme \<Rightarrow> (unit, 'a fs_state_scheme) outcome" where
  "free_entries e free_one dev block s =
     (if block = 0 then Done () s
      else kbind (bread e dev block s) (\<lambda>bh s.
           kbind (case bh of
                    None \<Rightarrow> Done () s
                  | Some b \<Rightarrow>
                      kbind (kfold (\<lambda>k s. let v = u16_at (b_data s b) (2 * k)
                                          in if v \<noteq> 0 then free_one (ucast v) s else Done () s)
                               [0..<512] s)
                        (\<lambda>_ s. brelse e (Some b) s))
             (\<lambda>_ s. free_block e dev block s)))"

definition free_ind ::
  "('a fs_state_scheme) env \<Rightarrow> u16 \<Rightarrow> u32 \<Rightarrow> 'a fs_state_scheme \<Rightarrow> (unit, 'a fs_state_scheme) outcome" where
  "free_ind e dev block s = free_entries e (free_block e dev) dev block s"

definition free_dind ::
  "('a fs_state_scheme) env \<Rightarrow> u16 \<Rightarrow> u32 \<Rightarrow> 'a fs_state_scheme \<Rightarrow> (unit, 'a fs_state_scheme) outcome" where
  "free_dind e dev block s = free_entries e (free_ind e dev) dev block s"

definition truncate ::
  "('a fs_state_scheme) env \<Rightarrow> nat \<Rightarrow> 'a fs_state_scheme \<Rightarrow> (unit, 'a fs_state_scheme) outcome" where
  "truncate e i s =
     (if \<not> (S_ISREG (i_mode (inode_table s i)) \<or> S_ISDIR (i_mode (inode_table s i))) then Done () s
      else kbind (kfold (\<lambda>k s. if i_zone (inode_table s i) k \<noteq> 0
                               then kbind (free_block e (i_dev (inode_table s i))
                                             (ucast (i_zone (inode_table s i) k)) s) (\<lambda>_ s.
                                    Done () (upd_inode i (\<lambda>m. m\<lparr>i_zone := (i_zone m)(k := 0)\<rparr>) s))
                               else Done () s) [0..<7] s) (\<lambda>_ s.
           kbind (free_ind e (i_dev (inode_table s i)) (ucast (i_zone (inode_table s i) 7)) s) (\<lambda>_ s.
           kbind (free_dind e (i_dev (inode_table s i)) (ucast (i_zone (inode_table s i) 8)) s) (\<lambda>_ s.
           Done () (upd_inode i (\<lambda>m. m\<lparr>i_zone := (i_zone m)(7 := 0, 8 := 0), i_size := 0, i_dirt := 1,
                                     i_mtime := CURRENT_SECONDS s, i_ctime := CURRENT_SECONDS s\<rparr>) s)))))"


subsection \<open>Getting and putting inodes\<close>

fun iput_loop ::
  "nat \<Rightarrow> ('a fs_state_scheme) env \<Rightarrow> nat \<Rightarrow> 'a fs_state_scheme \<Rightarrow>
   (unit, 'a fs_state_scheme) outcome" where
  "iput_loop 0 e i s = Stop Asleep s"
| "iput_loop (Suc n) e i s =
     (if 1 < i_count (inode_table s i) then Done () (upd_inode i (\<lambda>m. m\<lparr>i_count := i_count m - 1\<rparr>) s)
      else if i_nlinks (inode_table s i) = 0
      then kbind (truncate e i s) (\<lambda>_ s. free_inode e (Some i) s)
      else if i_dirt (inode_table s i) \<noteq> 0
      then kbind (write_inode e i s) (\<lambda>_ s. kbind (wait_on_inode e i s) (\<lambda>_ s. iput_loop n e i s))
      else Done () (upd_inode i (\<lambda>m. m\<lparr>i_count := i_count m - 1\<rparr>) s))"

definition iput ::
  "('a fs_state_scheme) env \<Rightarrow> nat option \<Rightarrow> 'a fs_state_scheme \<Rightarrow>
   (unit, 'a fs_state_scheme) outcome" where
  "iput e ino s =
     (case ino of
        None \<Rightarrow> Done () s
      | Some i \<Rightarrow>
          kbind (wait_on_inode e i s) (\<lambda>_ s.
          if i_count (inode_table s i) = 0 then Stop (Panic ''iput: trying to free free inode'') s
          else if i_pipe (inode_table s i) \<noteq> 0
          then let s = upd_inode i (\<lambda>m. m\<lparr>i_count := i_count m - 1\<rparr>) (wake_up (Wait_Inode i) s)
               in if i_count (inode_table s i) \<noteq> 0 then Done () s
                  else kbind (free_page (i_size (inode_table s i)) s) (\<lambda>_ s.
                       Done () (upd_inode i (\<lambda>m. m\<lparr>i_count := 0, i_dirt := 0, i_pipe := 0\<rparr>) s))
          else if i_dev (inode_table s i) = 0
          then Done () (upd_inode i (\<lambda>m. m\<lparr>i_count := i_count m - 1\<rparr>) s)
          else kbind (if S_ISBLK (i_mode (inode_table s i))
                      then kbind (sync_dev e (i_zone (inode_table s i) 0) s) (\<lambda>_ s. wait_on_inode e i s)
                      else Done () s) (\<lambda>_ s.
               iput_loop (Suc (patience e)) e i s)))"

text \<open>
  The inner loop of \<^verbatim>\<open>get_empty_inode\<close>: \<open>n\<close> entries left to look at, \<open>cur_ino\<close> the static
  \<^verbatim>\<open>last_inode\<close>, \<open>best\<close> the candidate.
\<close>

fun scan_inodes :: "nat \<Rightarrow> nat \<Rightarrow> (nat \<Rightarrow> m_inode) \<Rightarrow> nat option \<Rightarrow> nat \<times> nat option" where
  "scan_inodes 0 cur_ino tab best = (cur_ino, best)"
| "scan_inodes (Suc n) cur_ino tab best =
     (let cur_ino = (if NR_INODE \<le> cur_ino + 1 then 0 else cur_ino + 1)
      in if i_count (tab cur_ino) = 0
         then if i_dirt (tab cur_ino) = 0 \<and> i_lock (tab cur_ino) = 0 then (cur_ino, Some cur_ino)
              else scan_inodes n cur_ino tab (Some cur_ino)
         else scan_inodes n cur_ino tab best)"

fun flush_inode ::
  "nat \<Rightarrow> ('a fs_state_scheme) env \<Rightarrow> nat \<Rightarrow> 'a fs_state_scheme \<Rightarrow>
   (unit, 'a fs_state_scheme) outcome" where
  "flush_inode 0 e i s = Stop Asleep s"
| "flush_inode (Suc n) e i s =
     (if i_dirt (inode_table s i) = 0 then Done () s
      else kbind (write_inode e i s) (\<lambda>_ s. kbind (wait_on_inode e i s) (\<lambda>_ s. flush_inode n e i s)))"

fun get_empty_inode_loop ::
  "nat \<Rightarrow> ('a fs_state_scheme) env \<Rightarrow> 'a fs_state_scheme \<Rightarrow> (nat, 'a fs_state_scheme) outcome" where
  "get_empty_inode_loop 0 e s = Stop Asleep s"
| "get_empty_inode_loop (Suc n) e s =
     (case scan_inodes NR_INODE (last_inode s) (inode_table s) None of (at, best) \<Rightarrow>
        let s = s\<lparr>last_inode := at\<rparr>
        in case best of
             None \<Rightarrow> Stop (Panic ''No free inodes in mem'')
                       (fold (\<lambda>i. printk ''%04x: %6d'') [0..<NR_INODE] s)
           | Some i \<Rightarrow>
               kbind (wait_on_inode e i s) (\<lambda>_ s.
               kbind (flush_inode (Suc (patience e)) e i s) (\<lambda>_ s.
               if i_count (inode_table s i) \<noteq> 0 then get_empty_inode_loop n e s
               else Done i (upd_inode i (\<lambda>m. m\<lparr>i_count := 1\<rparr>) (clear_inode i s)))))"

definition get_empty_inode ::
  "('a fs_state_scheme) env \<Rightarrow> 'a fs_state_scheme \<Rightarrow> (nat, 'a fs_state_scheme) outcome" where
  "get_empty_inode e s = get_empty_inode_loop (Suc (patience e)) e s"

definition get_pipe_inode ::
  "('a fs_state_scheme) env \<Rightarrow> 'a fs_state_scheme \<Rightarrow> (nat option, 'a fs_state_scheme) outcome" where
  "get_pipe_inode e s =
     kbind (get_empty_inode e s) (\<lambda>i s.
     let (page, s) = get_free_page s;
         s = upd_inode i (\<lambda>m. m\<lparr>i_size := page\<rparr>) s
     in if page = 0 then Done None (upd_inode i (\<lambda>m. m\<lparr>i_count := 0\<rparr>) s)
        else Done (Some i)
               (upd_inode i (\<lambda>m. m\<lparr>i_count := 2, i_zone := (i_zone m)(0 := 0, 1 := 0), i_pipe := 1\<rparr>) s))"

fun iget_loop ::
  "nat \<Rightarrow> ('a fs_state_scheme) env \<Rightarrow> nat \<Rightarrow> u16 \<Rightarrow> u16 \<Rightarrow> 'a fs_state_scheme \<Rightarrow>
   (nat, 'a fs_state_scheme) outcome" where
  "iget_loop 0 e spare dev nr s = Stop Asleep s"
| "iget_loop (Suc n) e spare dev nr s =
     (case find (\<lambda>i. i_dev (inode_table s i) = dev \<and> i_num (inode_table s i) = nr) [0..<NR_INODE] of
        None \<Rightarrow>
          let s = upd_inode spare (\<lambda>m. m\<lparr>i_dev := dev, i_num := nr\<rparr>) s
          in kbind (read_inode e spare s) (\<lambda>_ s. Done spare s)
      | Some i \<Rightarrow>
          kbind (wait_on_inode e i s) (\<lambda>_ s.
          if i_dev (inode_table s i) \<noteq> dev \<or> i_num (inode_table s i) \<noteq> nr
          then iget_loop n e spare dev nr s
          else let s = upd_inode i (\<lambda>m. m\<lparr>i_count := i_count m + 1\<rparr>) s
               in if i_mount (inode_table s i) \<noteq> 0
                  then case find (\<lambda>k. s_imount (super_table s k) = Some i) [0..<NR_SUPER] of
                         None \<Rightarrow> kbind (iput e (Some spare) (printk ''Mounted inode hasn't got sb'' s))
                                   (\<lambda>_ s. Done i s)
                       | Some k \<Rightarrow> kbind (iput e (Some i) s) (\<lambda>_ s.
                                    iget_loop n e spare (s_dev (super_table s k)) ROOT_INO s)
                  else kbind (iput e (Some spare) s) (\<lambda>_ s. Done i s)))"

definition iget ::
  "('a fs_state_scheme) env \<Rightarrow> u16 \<Rightarrow> u16 \<Rightarrow> 'a fs_state_scheme \<Rightarrow> (nat, 'a fs_state_scheme) outcome" where
  "iget e dev nr s =
     (if dev = 0 then Stop (Panic ''iget with dev==0'') s
      else kbind (get_empty_inode e s) (\<lambda>spare s. iget_loop (Suc (patience e)) e spare dev nr s))"

definition new_inode ::
  "('a fs_state_scheme) env \<Rightarrow> u16 \<Rightarrow> 'a fs_state_scheme \<Rightarrow> (nat option, 'a fs_state_scheme) outcome" where
  "new_inode e dev s =
     kbind (get_empty_inode e s) (\<lambda>ino s.
     kbind (get_super e dev s) (\<lambda>sb s.
     case sb of
       None \<Rightarrow> Stop (Panic ''new_inode with unknown device'') s
     | Some p \<Rightarrow>
         (case map_search 8 0 (s_imap (super_table s p)) (b_data s) None 8192 of (i, bh, j) \<Rightarrow>
            if bh = None \<or> 8192 \<le> j \<or> unat (s_ninodes (super_table s p)) < j + i * 8192
            then kbind (iput e (Some ino) s) (\<lambda>_ s. Done None s)
            else let b = the bh;
                     (was_set, d) = set_bit_at j (b_data s b);
                     s = upd_data b (\<lambda>_. d) s
                 in if was_set then Stop (Panic ''new_inode: bit already set'') s
                    else let s = upd_buf b (\<lambda>h. h\<lparr>b_dirt := 1\<rparr>) s
                         in Done (Some ino)
                              (upd_inode ino (\<lambda>m. m\<lparr>i_count := 1, i_nlinks := 1, i_dev := dev,
                                  i_uid := t_euid (cur s), i_gid := ucast (t_egid (cur s)), i_dirt := 1,
                                  i_num := of_nat (j + i * 8192), i_mtime := CURRENT_SECONDS s,
                                  i_atime := CURRENT_SECONDS s, i_ctime := CURRENT_SECONDS s\<rparr>) s))))"


subsection \<open>The layout is faithful\<close>

lemma u16_bytes: "ucast (ucast (v :: u16) :: u8) OR push_bit 8 (ucast (ucast (drop_bit 8 v) :: u8)) = v"
  by (rule bit_word_eqI) (auto simp: bit_simps)

lemma u32_halves: "ucast (ucast (v :: u32) :: u16) OR push_bit 16 (ucast (ucast (drop_bit 16 v) :: u16)) = v"
  by (rule bit_word_eqI) (auto simp: bit_simps)

lemma u16_at_put_u16: "u16_at (put_u16 a v d) a = v"
  by (simp add: u16_at_def put_u16_def u16_bytes)

lemma u16_at_put_u16_other: "a + 1 < b \<or> b + 1 < a \<Longrightarrow> u16_at (put_u16 a v d) b = u16_at d b"
  by (auto simp: u16_at_def put_u16_def)

lemma put_u16_byte: "c \<noteq> a \<Longrightarrow> c \<noteq> a + 1 \<Longrightarrow> put_u16 a v d c = d c"
  by (simp add: put_u16_def)

lemma u16_at_byte: "c \<noteq> a \<Longrightarrow> c \<noteq> a + 1 \<Longrightarrow> u16_at (d(c := x)) a = u16_at d a"
  by (simp add: u16_at_def)

lemma u32_at_put_u32: "u32_at (put_u32 a v d) a = v"
  by (simp add: u32_at_def put_u32_def u16_at_put_u16 u16_at_put_u16_other u32_halves)

lemmas layout_simps = u16_at_put_u16 u16_at_put_u16_other put_u16_byte u16_at_byte u32_at_put_u32

lemma u32_at_put_u16_other: "a + 1 < b \<or> b + 3 < a \<Longrightarrow> u32_at (put_u16 a v d) b = u32_at d b"
  unfolding u32_at_def by (auto simp: u16_at_put_u16_other)

lemma u32_at_byte: "c < a \<or> a + 3 < c \<Longrightarrow> u32_at (d(c := x)) a = u32_at d a"
  unfolding u32_at_def by (auto simp: u16_at_byte)

lemma u32_at_put_u32_other: "a + 3 < b \<or> b + 3 < a \<Longrightarrow> u32_at (put_u32 a v d) b = u32_at d b"
  unfolding put_u32_def by (auto simp: u32_at_put_u16_other)

lemma u16_at_put_u32_other: "a + 3 < b \<or> b + 1 < a \<Longrightarrow> u16_at (put_u32 a v d) b = u16_at d b"
  unfolding put_u32_def by (auto simp: u16_at_put_u16_other)

lemma put_u32_byte: "c < a \<or> a + 3 < c \<Longrightarrow> put_u32 a v d c = d c"
  unfolding put_u32_def by (auto simp: put_u16_byte)

text \<open>The loop over the zones, for any number of them.\<close>

lemma put_zones:
  "u16_at (fold (\<lambda>k. put_u16 (a + 2 * k) (z k)) [0..<n] d) b =
     (if \<exists>k<n. b = a + 2 * k then z ((b - a) div 2) else u16_at d b)"
  if "b + 1 < a \<or> (\<exists>k. b = a + 2 * k)"
proof (induction n)
  case (Suc n)
  show ?case
  proof (cases "b = a + 2 * n")
    case True
    then show ?thesis by (auto simp: u16_at_put_u16)
  next
    case False
    then have "a + 2 * n + 1 < b \<or> b + 1 < a + 2 * n" using that by auto
    then have "u16_at (fold (\<lambda>k. put_u16 (a + 2 * k) (z k)) [0..<Suc n] d) b =
        u16_at (fold (\<lambda>k. put_u16 (a + 2 * k) (z k)) [0..<n] d) b" by (simp add: u16_at_put_u16_other)
    then show ?thesis using Suc False by (auto simp: less_Suc_eq)
  qed
qed simp

lemma put_zones_byte:
  "c < a \<or> a + 2 * n \<le> c \<Longrightarrow> fold (\<lambda>k. put_u16 (a + 2 * k) (z k)) [0..<n] d c = d c"
  by (induction n) (auto simp: put_u16_byte)

lemma put_d_inode_outside:
  "c < 32 * n \<or> 32 * n + 32 \<le> c \<Longrightarrow> put_d_inode n di d c = d c"
  unfolding put_d_inode_def Let_def
  by (subst put_zones_byte) (auto simp: put_u16_byte put_u32_byte)

lemma get_d_inode_cong:
  "(\<And>c. 32 * n \<le> c \<Longrightarrow> c < 32 * n + 32 \<Longrightarrow> d c = d' c) \<Longrightarrow> get_d_inode d n = get_d_inode d' n"
  by (auto simp: get_d_inode_def u16_at_def u32_at_def Let_def)

text \<open>
  Writing an inode to its place in the inode block and reading it back gives the same
  inode, and the other inodes of the block are not touched.
\<close>

theorem d_inode_roundtrip:
  assumes "\<forall>k\<ge>9. d_zone di k = 0"
  shows "get_d_inode (put_d_inode n di d) n = di \<and>
    (\<forall>m. m \<noteq> n \<longrightarrow> get_d_inode (put_d_inode n di d) m = get_d_inode d m)"
proof
  let ?a = "32 * n"
  let ?d1 = "put_u16 (?a + 2) (d_uid di) (put_u16 ?a (d_mode di) d)"
  let ?d2 = "put_u32 (?a + 8) (d_time di) (put_u32 (?a + 4) (d_size di) ?d1)"
  let ?d3 = "?d2(?a + 12 := d_gid di, ?a + 13 := d_nlinks di)"
  let ?z = "put_d_inode n di d"
  have z: "?z = fold (\<lambda>k. put_u16 (?a + 14 + 2 * k) (d_zone di k)) [0..<9] ?d3"
    by (simp only: put_d_inode_def Let_def)
  have low: "?z c = ?d3 c" if "c < ?a + 14" for c unfolding z using that by (intro put_zones_byte) simp
  have low16: "u16_at ?z b = u16_at ?d3 b" if "b + 1 < ?a + 14" for b
    using low [of b] low [of "b + 1"] that by (simp add: u16_at_def)
  have low32: "u32_at ?z b = u32_at ?d3 b" if "b + 3 < ?a + 14" for b
    using low16 [of b] low16 [of "b + 2"] that by (simp add: u32_at_def)
  have zones: "u16_at ?z (?a + 14 + 2 * k) = d_zone di k" if "k < 9" for k
    unfolding z using that by (subst put_zones) auto
  have "u16_at ?z ?a = d_mode di" "u16_at ?z (?a + 2) = d_uid di"
    by (subst low16; simp add: u16_at_byte u16_at_put_u32_other layout_simps)+
  moreover have "u32_at ?z (?a + 4) = d_size di" "u32_at ?z (?a + 8) = d_time di"
    by (subst low32; simp add: u32_at_byte u32_at_put_u32_other layout_simps)+
  moreover have "?z (?a + 12) = d_gid di" "?z (?a + 13) = d_nlinks di" by (subst low; simp)+
  moreover have "(\<lambda>k. if k < 9 then u16_at ?z (?a + 14 + 2 * k) else 0) = d_zone di"
    using zones assms by auto
  ultimately show "get_d_inode ?z n = di" by (simp add: get_d_inode_def Let_def)
  show "\<forall>m. m \<noteq> n \<longrightarrow> get_d_inode ?z m = get_d_inode d m"
    by (auto intro!: get_d_inode_cong put_d_inode_outside)
qed

theorem d_inode_roundtrip_witness:
  "get_d_inode (put_d_inode 3 (d_of zero_inode\<lparr>d_size := 77\<rparr>) (\<lambda>_. 5)) 3 = d_of zero_inode\<lparr>d_size := 77\<rparr>"
  by (rule d_inode_roundtrip [THEN conjunct1]) (simp add: d_of_def zero_inode_def)


subsection \<open>Block translation\<close>

text \<open>
  A block that is in the cache, valid and not locked is read without sleeping, and
  releasing it restores the state.
\<close>

definition ready :: "'a fs_state_scheme \<Rightarrow> u16 \<Rightarrow> u32 \<Rightarrow> bool" where
  "ready s dev blk \<longleftrightarrow>
     (case find_buffer dev blk s of
        None \<Rightarrow> False
      | Some b \<Rightarrow> b_lock (buffers s b) = 0 \<and> b_uptodate (buffers s b) \<noteq> 0 \<and> b_count (buffers s b) + 1 \<noteq> 0)"

lemma find_in_chain_key:
  "find_in_chain n bs dev block tmp = Some b \<Longrightarrow> b_dev (bs b) = dev \<and> b_blocknr (bs b) = block"
  by (induction n arbitrary: tmp) (auto split: option.splits if_splits)

lemma bread_ready:
  assumes "find_buffer dev blk s = Some b" "ready s dev blk"
  shows "bread e dev blk s = Done (Some b) (upd_buf b (\<lambda>h. h\<lparr>b_count := b_count h + 1\<rparr>) s)"
proof -
  have k: "b_dev (buffers s b) = dev" "b_blocknr (buffers s b) = blk"
    using assms(1) find_in_chain_key unfolding find_buffer_def by blast+
  have l: "b_lock (buffers s b) = 0" "b_uptodate (buffers s b) \<noteq> 0" using assms by (auto simp: ready_def)
  show ?thesis using assms(1) k l
    by (simp add: bread_def getblk_def get_hash_table_def wait_on_buffer_def)
qed

lemma brelse_ready:
  assumes "find_buffer dev blk s = Some b" "ready s dev blk" "wait_head s Wait_Buffer_Free = 0"
  shows "brelse e (Some b) (upd_buf b (\<lambda>h. h\<lparr>b_count := b_count h + 1\<rparr>) s) = Done () s"
proof -
  have l: "b_lock (buffers s b) = 0" "b_count (buffers s b) + 1 \<noteq> 0" using assms by (auto simp: ready_def)
  have "upd_buf b (\<lambda>h. h\<lparr>b_count := b_count h - 1\<rparr>) (upd_buf b (\<lambda>h. h\<lparr>b_count := b_count h + 1\<rparr>) s) = s"
    by (simp add: upd_buf_def)
  then show ?thesis using l assms(3)
    by (simp add: brelse_def wait_on_buffer_def wake_up_def Let_def)
qed

text \<open>Entry \<open>k\<close> of an index block, and the translation as a function of the inode and the cache.\<close>

definition index_entry :: "'a fs_state_scheme \<Rightarrow> u16 \<Rightarrow> u32 \<Rightarrow> nat \<Rightarrow> u32" where
  "index_entry s dev blk k =
     (if blk = 0 then 0 else ucast (u16_at (b_data s (the (find_buffer dev blk s))) (2 * k)))"

definition file_block :: "'a fs_state_scheme \<Rightarrow> m_inode \<Rightarrow> nat \<Rightarrow> u32" where
  "file_block s m k =
     (if k < 7 then ucast (i_zone m k)
      else if k < 7 + 512 then index_entry s (i_dev m) (ucast (i_zone m 7)) (k - 7)
      else index_entry s (i_dev m)
             (index_entry s (i_dev m) (ucast (i_zone m 8)) ((k - 519) div 512)) ((k - 519) mod 512))"

text \<open>The index blocks the translation of block \<open>k\<close> goes through.\<close>

definition index_blocks :: "'a fs_state_scheme \<Rightarrow> m_inode \<Rightarrow> nat \<Rightarrow> u32 list" where
  "index_blocks s m k =
     (if k < 7 then []
      else if k < 7 + 512 then [ucast (i_zone m 7)]
      else [ucast (i_zone m 8), index_entry s (i_dev m) (ucast (i_zone m 8)) ((k - 519) div 512)])"

lemma indirect_ready:
  assumes "blk = 0 \<or> ready s (i_dev (inode_table s i)) blk" "wait_head s Wait_Buffer_Free = 0"
  shows "indirect e i blk k False s = Done (index_entry s (i_dev (inode_table s i)) blk k) s"
proof (cases "blk = 0")
  case True
  then show ?thesis by (simp add: indirect_def index_entry_def)
next
  case False
  let ?dev = "i_dev (inode_table s i)"
  have r: "ready s ?dev blk" using assms(1) False by simp
  then obtain b where b: "find_buffer ?dev blk s = Some b" by (auto simp: ready_def split: option.splits)
  show ?thesis using False b
    by (simp add: indirect_def bread_ready [OF b r] map_entry_def brelse_ready [OF b r assms(2)] index_entry_def)
qed

lemma bmap_cached:
  assumes "\<forall>blk\<in>set (index_blocks s (inode_table s i) k). blk = 0 \<or> ready s (i_dev (inode_table s i)) blk"
    and "wait_head s Wait_Buffer_Free = 0"
  shows "bmap e i (int k) s =
    (if k < 7 + 512 + 512 * 512 then Done (file_block s (inode_table s i) k) s
     else Stop (Panic ''_bmap: block>big'') s)"
proof -
  let ?m = "inode_table s i"
  have cz: "claim_zone e i z False s = Done () s" for z by (simp add: claim_zone_def)
  note ind = indirect_ready [OF _ assms(2), of _ i e]
  consider "k < 7" | "7 \<le> k" "k < 519" | "519 \<le> k" by linarith
  then show ?thesis
  proof cases
    case 1
    then show ?thesis by (simp add: bmap_def do_bmap_def Let_def cz file_block_def)
  next
    case 2
    then have "indirect e i (ucast (i_zone ?m 7)) (k - 7) False s =
        Done (index_entry s (i_dev ?m) (ucast (i_zone ?m 7)) (k - 7)) s"
      using assms(1) by (intro ind) (simp add: index_blocks_def)
    moreover have "k - 7 < 512" using 2 by linarith
    ultimately show ?thesis using 2 by (simp add: bmap_def do_bmap_def Let_def cz file_block_def)
  next
    case 3
    let ?v = "index_entry s (i_dev ?m) (ucast (i_zone ?m 8)) ((k - 519) div 512)"
    have "indirect e i (ucast (i_zone ?m 8)) ((k - 519) div 512) False s = Done ?v s"
        "indirect e i ?v ((k - 519) mod 512) False s = Done (index_entry s (i_dev ?m) ?v ((k - 519) mod 512)) s"
      using assms(1) 3 by (auto intro!: ind simp: index_blocks_def)
    moreover have "\<not> k - 7 < 512" using 3 by linarith
    ultimately show ?thesis using 3 by (simp add: bmap_def do_bmap_def Let_def cz file_block_def)
  qed
qed

text \<open>
  C19: with its index blocks in the cache, \<^verbatim>\<open>bmap\<close> returns the block number that the
  direct, indirect and double indirect zones of the inode prescribe, 0 where there is
  none, and leaves the state as it was; a block number beyond the largest file panics.
\<close>

theorem bmap_translates:
  assumes "\<forall>blk\<in>set (index_blocks s (inode_table s i) k). blk = 0 \<or> ready s (i_dev (inode_table s i)) blk"
    and "wait_head s Wait_Buffer_Free = 0"
  shows "bmap e i (int k) s =
    (if k < 7 + 512 + 512 * 512 then Done (file_block s (inode_table s i) k) s
     else Stop (Panic ''_bmap: block>big'') s)"
  by (rule bmap_cached [OF assms])

text \<open>A file system with one file, whose tenth block is found through its indirect block.\<close>

definition demo_file :: fs_state where
  "demo_file = demo_fs
     \<lparr>buffers := (buffers demo_fs)(1 := (blank_buffer 1)\<lparr>b_dev := 0x101, b_blocknr := 40, b_uptodate := 1\<rparr>),
      hash_table := (\<lambda>_. Some 1), b_data := (\<lambda>_ _. 0)(1 := (\<lambda>_. 0)(4 := 77)),
      wait_head := (\<lambda>_. 0),
      inode_table := (\<lambda>_. zero_inode\<lparr>i_dev := 0x101, i_zone := (\<lambda>_. 0)(7 := 40)\<rparr>)\<rparr>"

theorem bmap_translates_witness:
  "bmap demo_env 0 9 demo_file = Done 77 demo_file"
proof -
  let ?h = "(blank_buffer 1)\<lparr>b_dev := 0x101, b_blocknr := 40, b_uptodate := 1\<rparr>"
  have nb: "buffers demo_file 1 = ?h" by (simp add: demo_file_def)
  have f: "find_buffer 0x101 40 demo_file = Some 1"
    unfolding find_buffer_def find_in_chain.simps nb [symmetric]
    by (simp add: demo_file_def)
  have r: "ready demo_file 0x101 40" using f nb by (simp add: ready_def blank_buffer_def)
  have m: "i_dev (inode_table demo_file 0) = 0x101" "i_zone (inode_table demo_file 0) = (\<lambda>_. 0)(7 := 40)"
    by (simp_all add: demo_file_def)
  have "bmap demo_env 0 (int 9) demo_file =
    (if (9 :: nat) < 7 + 512 + 512 * 512 then Done (file_block demo_file (inode_table demo_file 0) 9) demo_file
     else Stop (Panic ''_bmap: block>big'') demo_file)"
    by (rule bmap_translates) (simp_all add: index_blocks_def m r, simp add: demo_file_def)
  moreover have "file_block demo_file (inode_table demo_file 0) 9 = 77"
    by (simp add: file_block_def m index_entry_def f) (simp add: demo_file_def u16_at_def)
  ultimately show ?thesis by simp
qed

end
