(* ===== verification/Super.thy ===== *)
theory Super
  imports Inode
begin

text \<open>
  Super blocks, \<^verbatim>\<open>fs/super.c\<close>: releasing and reading them, with the check for a changed
  floppy disk of \<^verbatim>\<open>fs/buffer.c\<close> and \<^verbatim>\<open>kernel/blk_drv/floppy.c\<close>. The root is mounted here; the
  system calls that mount and unmount need path names and are in \<open>Open\<close>.
\<close>


subsection \<open>Changed disks\<close>

definition FD_DIR :: nat where
  "FD_DIR = 0x3F7"

definition floppy_deselect :: "u32 \<Rightarrow> 'a sched_state_scheme \<Rightarrow> 'a sched_state_scheme" where
  "floppy_deselect nr s =
     (let s = (if nr \<noteq> ucast (current_DOR s AND 3) then printk ''floppy_deselect: drive not selected'' s else s)
      in wake_up Wait_Floppy_Select (s\<lparr>selected := 0\<rparr>))"

fun floppy_select_wait ::
  "nat \<Rightarrow> ('a sched_state_scheme) env \<Rightarrow> nat \<Rightarrow> 'a sched_state_scheme \<Rightarrow>
   (unit, 'a sched_state_scheme) outcome" where
  "floppy_select_wait 0 e nr s = Stop Asleep s"
| "floppy_select_wait (Suc n) e nr s =
     (if unat (current_DOR s AND 3) \<noteq> nr \<and> selected s \<noteq> 0
      then kbind (interruptible_sleep_on e Wait_Floppy_Select s) (\<lambda>_ s. floppy_select_wait n e nr s)
      else Done () s)"

fun floppy_change_loop ::
  "nat \<Rightarrow> ('a sched_state_scheme) env \<Rightarrow> nat \<Rightarrow> 'a sched_state_scheme \<Rightarrow>
   (int, 'a sched_state_scheme) outcome" where
  "floppy_change_loop 0 e nr s = Stop Asleep s"
| "floppy_change_loop (Suc n) e nr s =
     kbind (floppy_on e nr s) (\<lambda>_ s.
     kbind (floppy_select_wait (Suc (patience e)) e nr s) (\<lambda>_ s.
     if unat (current_DOR s AND 3) \<noteq> nr then floppy_change_loop n e nr s
     else if in_ports s FD_DIR AND 0x80 \<noteq> 0 then Done 1 (floppy_off nr s)
     else Done 0 (floppy_off nr s)))"

definition floppy_change ::
  "('a sched_state_scheme) env \<Rightarrow> nat \<Rightarrow> 'a sched_state_scheme \<Rightarrow>
   (int, 'a sched_state_scheme) outcome" where
  "floppy_change e nr s = floppy_change_loop (Suc (patience e)) e nr s"


subsection \<open>Releasing a super block\<close>

definition release_maps ::
  "('a fs_state_scheme) env \<Rightarrow> nat \<Rightarrow> 'a fs_state_scheme \<Rightarrow> (unit, 'a fs_state_scheme) outcome" where
  "release_maps e p s =
     kbind (kfold (\<lambda>i s. brelse e (s_imap (super_table s p) i) s) [0..<I_MAP_SLOTS] s) (\<lambda>_ s.
     kfold (\<lambda>i s. brelse e (s_zmap (super_table s p) i) s) [0..<Z_MAP_SLOTS] s)"

definition put_super ::
  "('a fs_state_scheme) env \<Rightarrow> u16 \<Rightarrow> 'a fs_state_scheme \<Rightarrow> (unit, 'a fs_state_scheme) outcome" where
  "put_super e dev s =
     (if dev = ROOT_DEV s then Done () (printk ''root diskette changed: prepare for armageddon'' s)
      else kbind (get_super e dev s) (\<lambda>sb s.
           case sb of
             None \<Rightarrow> Done () s
           | Some p \<Rightarrow>
               if s_imount (super_table s p) \<noteq> None
               then Done () (printk ''Mounted disk changed - tssk, tssk'' s)
               else kbind (lock_super e p s) (\<lambda>_ s.
                    kbind (release_maps e p (upd_super p (\<lambda>b. b\<lparr>s_dev := 0\<rparr>) s)) (\<lambda>_ s.
                    Done () (free_super p s)))))"

definition check_disk_change ::
  "('a fs_state_scheme) env \<Rightarrow> u16 \<Rightarrow> 'a fs_state_scheme \<Rightarrow> (unit, 'a fs_state_scheme) outcome" where
  "check_disk_change e dev s =
     (if MAJOR dev \<noteq> 2 then Done () s
      else kbind (floppy_change e (unat (dev AND 3)) s) (\<lambda>changed s.
           if changed = 0 then Done () s
           else kbind (kfold (\<lambda>i s. if s_dev (super_table s i) = dev
                                    then put_super e (s_dev (super_table s i)) s else Done () s)
                         [0..<NR_SUPER] s) (\<lambda>_ s.
                kbind (invalidate_inodes e dev s) (\<lambda>_ s. invalidate_buffers e dev s))))"


subsection \<open>Reading a super block\<close>

text \<open>The assignment of \<^verbatim>\<open>*(struct d_super_block *) bh->b_data\<close>.\<close>

definition get_d_super :: "(nat \<Rightarrow> u8) \<Rightarrow> super_block \<Rightarrow> super_block" where
  "get_d_super d sb = sb\<lparr>s_ninodes := u16_at d 0, s_nzones := u16_at d 2, s_imap_blocks := u16_at d 4,
     s_zmap_blocks := u16_at d 6, s_firstdatazone := u16_at d 8, s_log_zone_size := u16_at d 10,
     s_max_size := u32_at d 12, s_magic := u16_at d 16\<rparr>"

text \<open>
  The two loops that read the bitmaps; \<open>n\<close> slots are left in the array, and the code does
  not compare the number of blocks on disk with the size of the array.
\<close>

fun read_imaps ::
  "nat \<Rightarrow> ('a fs_state_scheme) env \<Rightarrow> u16 \<Rightarrow> nat \<Rightarrow> nat \<Rightarrow> u32 \<Rightarrow> 'a fs_state_scheme \<Rightarrow>
   (u32, 'a fs_state_scheme) outcome" where
  "read_imaps n e dev p i block s =
     (if \<not> i < unat (s_imap_blocks (super_table s p)) then Done block s
      else case n of
             0 \<Rightarrow> Stop Undefined s
           | Suc n \<Rightarrow>
               kbind (bread e dev block s) (\<lambda>bh s.
               let s = upd_super p (\<lambda>b. b\<lparr>s_imap := (s_imap b)(i := bh)\<rparr>) s
               in if bh = None then Done block s else read_imaps n e dev p (i + 1) (block + 1) s))"

fun read_zmaps ::
  "nat \<Rightarrow> ('a fs_state_scheme) env \<Rightarrow> u16 \<Rightarrow> nat \<Rightarrow> nat \<Rightarrow> u32 \<Rightarrow> 'a fs_state_scheme \<Rightarrow>
   (u32, 'a fs_state_scheme) outcome" where
  "read_zmaps n e dev p i block s =
     (if \<not> i < unat (s_zmap_blocks (super_table s p)) then Done block s
      else case n of
             0 \<Rightarrow> Stop Undefined s
           | Suc n \<Rightarrow>
               kbind (bread e dev block s) (\<lambda>bh s.
               let s = upd_super p (\<lambda>b. b\<lparr>s_zmap := (s_zmap b)(i := bh)\<rparr>) s
               in if bh = None then Done block s else read_zmaps n e dev p (i + 1) (block + 1) s))"

declare read_imaps.simps [simp del] read_zmaps.simps [simp del]

text \<open>\<^verbatim>\<open>s->s_dev=0; free_super(s); return NULL;\<close>\<close>

definition fail_super :: "nat \<Rightarrow> 'a fs_state_scheme \<Rightarrow> (nat option, 'a fs_state_scheme) outcome" where
  "fail_super p s = Done None (free_super p (upd_super p (\<lambda>b. b\<lparr>s_dev := 0\<rparr>) s))"

text \<open>\<^verbatim>\<open>b_data[0] |= 1\<close> in the first block of a map.\<close>

definition reserve_first ::
  "nat option \<Rightarrow> 'a fs_state_scheme \<Rightarrow> (unit, 'a fs_state_scheme) outcome" where
  "reserve_first bh s =
     (case bh of
        None \<Rightarrow> Stop Undefined s
      | Some b \<Rightarrow> Done () (upd_data b (\<lambda>d. d(0 := d 0 OR 1)) s))"

definition fill_super ::
  "('a fs_state_scheme) env \<Rightarrow> u16 \<Rightarrow> nat \<Rightarrow> 'a fs_state_scheme \<Rightarrow>
   (nat option, 'a fs_state_scheme) outcome" where
  "fill_super e dev p s =
     kbind (bread e dev 1 s) (\<lambda>bh s.
     case bh of
       None \<Rightarrow> fail_super p s
     | Some b \<Rightarrow>
         kbind (brelse e (Some b) (upd_super p (get_d_super (b_data s b)) s)) (\<lambda>_ s.
         if s_magic (super_table s p) \<noteq> SUPER_MAGIC then fail_super p s
         else let s = upd_super p (\<lambda>b. b\<lparr>s_imap := (\<lambda>i. if i < I_MAP_SLOTS then None else s_imap b i),
                                        s_zmap := (\<lambda>i. if i < Z_MAP_SLOTS then None else s_zmap b i)\<rparr>) s
              in kbind (read_imaps I_MAP_SLOTS e dev p 0 2 s) (\<lambda>block s.
                 kbind (read_zmaps Z_MAP_SLOTS e dev p 0 block s) (\<lambda>block s.
                 if block \<noteq> 2 + ucast (s_imap_blocks (super_table s p)) + ucast (s_zmap_blocks (super_table s p))
                 then kbind (release_maps e p s) (\<lambda>_ s. fail_super p s)
                 else kbind (reserve_first (s_imap (super_table s p) 0) s) (\<lambda>_ s.
                      kbind (reserve_first (s_zmap (super_table s p) 0) s) (\<lambda>_ s.
                      Done (Some p) (free_super p s)))))))"

definition read_super ::
  "('a fs_state_scheme) env \<Rightarrow> u16 \<Rightarrow> 'a fs_state_scheme \<Rightarrow> (nat option, 'a fs_state_scheme) outcome" where
  "read_super e dev s =
     (if dev = 0 then Done None s
      else kbind (check_disk_change e dev s) (\<lambda>_ s.
           kbind (get_super e dev s) (\<lambda>sb s.
           case sb of
             Some p \<Rightarrow> Done (Some p) s
           | None \<Rightarrow>
               (case find (\<lambda>i. s_dev (super_table s i) = 0) [0..<NR_SUPER] of
                  None \<Rightarrow> Done None s
                | Some p \<Rightarrow>
                    let s = upd_super p (\<lambda>b. b\<lparr>s_dev := dev, s_isup := None, s_imount := None, s_time := 0,
                                              s_rd_only := 0, s_dirt := 0\<rparr>) s
                    in kbind (lock_super e p s) (\<lambda>_ s. fill_super e dev p s)))))"


subsection \<open>Mounting the root\<close>

text \<open>
  The count of clear bits, from the highest down. \<^verbatim>\<open>set_bit\<close> of \<^verbatim>\<open>super.c\<close> only tests (\<^verbatim>\<open>bt\<close>), unlike
  the one of \<^verbatim>\<open>bitmap.c\<close>. The result is \<open>None\<close> when a map block is missing.
\<close>

fun count_free ::
  "nat \<Rightarrow> (nat \<Rightarrow> nat option) \<Rightarrow> (nat \<Rightarrow> nat \<Rightarrow> u8) \<Rightarrow> nat \<Rightarrow> nat option" where
  "count_free 0 maps data acc = Some acc"
| "count_free (Suc i) maps data acc =
     (case maps (i div 8192) of
        None \<Rightarrow> None
      | Some b \<Rightarrow> count_free i maps data (if test_bit (i mod 8192) (data b) then acc else acc + 1))"

text \<open>\<^verbatim>\<open>wait_for_keypress\<close> is not part of the sources.\<close>

definition mount_root ::
  "('a fs_state_scheme \<Rightarrow> 'a fs_state_scheme) \<Rightarrow> ('a fs_state_scheme) env \<Rightarrow> 'a fs_state_scheme \<Rightarrow>
   (unit, 'a fs_state_scheme) outcome" where
  "mount_root wait_for_keypress e s =
     (let s = s\<lparr>file_table := (\<lambda>i. if i < NR_FILE then (file_table s i)\<lparr>f_count := 0\<rparr> else file_table s i)\<rparr>;
          s = (if MAJOR (ROOT_DEV s) = 2
               then wait_for_keypress (printk ''Insert root floppy and press ENTER'' s) else s);
          s = s\<lparr>super_table := (\<lambda>i. if i < NR_SUPER then (super_table s i)\<lparr>s_dev := 0, s_lock := 0\<rparr>
                                    else super_table s i),
                wait_head := (\<lambda>q. case q of Wait_Super i \<Rightarrow> if i < NR_SUPER then 0 else wait_head s q
                                          | _ \<Rightarrow> wait_head s q)\<rparr>
      in kbind (read_super e (ROOT_DEV s) s) (\<lambda>sb s.
         case sb of
           None \<Rightarrow> Stop (Panic ''Unable to mount root'') s
         | Some p \<Rightarrow>
             kbind (iget e (ROOT_DEV s) ROOT_INO s) (\<lambda>mi s.
             let s = upd_inode mi (\<lambda>m. m\<lparr>i_count := i_count m + 3\<rparr>) s;
                 s = upd_super p (\<lambda>b. b\<lparr>s_isup := Some mi, s_imount := Some mi\<rparr>) s;
                 s = upd_cur (\<lambda>t. t\<lparr>t_pwd := Some mi, t_root := Some mi\<rparr>) s;
                 sup = super_table s p
             in case count_free (unat (s_nzones sup)) (s_zmap sup) (b_data s) 0 of
                  None \<Rightarrow> Stop Undefined s
                | Some fz \<Rightarrow>
                    let s = printk ''%d/%d free blocks'' s
                    in case count_free (unat (s_ninodes sup) + 1) (s_imap sup) (b_data s) 0 of
                         None \<Rightarrow> Stop Undefined s
                       | Some fi \<Rightarrow> Done () (printk ''%d/%d free inodes'' s))))"

end
