(* ===== verification/Byte_Queue.thy ===== *)
theory Byte_Queue
  imports Kernel_Prelude
begin

text \<open>
  The interface of a queue of bytes, as the pipes and the terminal queues provide it. An
  implementation says what a put, a get and a step that leaves the queue alone are, as
  relations on its states; clients get that no interleaving of such steps loses,
  duplicates or reorders a byte.
\<close>

inductive queue_run ::
  "('s \<Rightarrow> u8 list \<Rightarrow> 's \<Rightarrow> bool) \<Rightarrow> ('s \<Rightarrow> u8 list \<Rightarrow> 's \<Rightarrow> bool) \<Rightarrow> ('s \<Rightarrow> 's \<Rightarrow> bool) \<Rightarrow>
   's \<Rightarrow> u8 list \<Rightarrow> u8 list \<Rightarrow> 's \<Rightarrow> bool" for put get idle s where
  start: "queue_run put get idle s [] [] s"
| put: "queue_run put get idle s w r t \<Longrightarrow> put t xs u \<Longrightarrow> queue_run put get idle s (w @ xs) r u"
| get: "queue_run put get idle s w r t \<Longrightarrow> get t xs u \<Longrightarrow> queue_run put get idle s w (r @ xs) u"
| idle: "queue_run put get idle s w r t \<Longrightarrow> idle t u \<Longrightarrow> queue_run put get idle s w r u"

locale byte_queue =
  fixes put :: "'s \<Rightarrow> u8 list \<Rightarrow> 's \<Rightarrow> bool"
    and get :: "'s \<Rightarrow> u8 list \<Rightarrow> 's \<Rightarrow> bool"
    and idle :: "'s \<Rightarrow> 's \<Rightarrow> bool"
    and contents :: "'s \<Rightarrow> u8 list"
    and ok :: "'s \<Rightarrow> bool"
    and cap :: nat
  assumes put_appends: "ok s \<Longrightarrow> put s xs t \<Longrightarrow> ok t \<and> contents t = contents s @ xs"
    and get_removes: "ok s \<Longrightarrow> get s xs t \<Longrightarrow> ok t \<and> contents s = xs @ contents t"
    and idle_keeps: "ok s \<Longrightarrow> idle s t \<Longrightarrow> ok t \<and> contents t = contents s"
    and bounded: "ok s \<Longrightarrow> length (contents s) \<le> cap"
begin

lemma run_fifo:
  assumes "queue_run put get idle s w r t" "ok s"
  shows "ok t \<and> contents s @ w = r @ contents t"
  using assms
proof (induction rule: queue_run.induct)
  case (put w r t xs u)
  then have t: "ok t" "contents s @ w = r @ contents t" by simp_all
  then show ?case using put_appends [OF t(1) put.hyps(2)] by (simp flip: append_assoc)
next
  case (get w r t xs u)
  then have t: "ok t" "contents s @ w = r @ contents t" by simp_all
  then show ?case using get_removes [OF t(1) get.hyps(2)] by simp
next
  case (idle w r t u)
  then have t: "ok t" "contents s @ w = r @ contents t" by simp_all
  then show ?case using idle_keeps [OF t(1) idle.hyps(2)] by simp
qed simp

lemma run_bounded:
  assumes "queue_run put get idle s w r t" "ok s"
  shows "length w \<le> length r + cap"
proof -
  have t: "ok t" "contents s @ w = r @ contents t" using run_fifo [OF assms] by simp_all
  have "length (contents s @ w) = length (r @ contents t)" using t(2) by simp
  then show ?thesis using bounded [OF t(1)] by simp
qed

lemma run_prefix:
  assumes "queue_run put get idle s w r t" "ok s" "contents s = []"
  shows "r = take (length r) w"
  using run_fifo [OF assms(1,2)] assms(3) by simp

end

end
