(* ===== verification/Pipe.thy ===== *)
theory Pipe
  imports Super Byte_Queue
begin

text \<open>
  Pipes, \<^verbatim>\<open>fs/pipe.c\<close>: a page of memory used as a ring buffer, with the read and write
  positions in the first two zones of the inode. The ring is shown to implement a
  queue of bytes, first for one iteration of the two copy loops, then for the whole
  read and write calls.
\<close>


subsection \<open>Bytes of physical memory\<close>

definition phys_byte :: "u32 \<Rightarrow> 'a mm_state_scheme \<Rightarrow> u8" where
  "phys_byte a s = ucast (drop_bit (8 * (unat a mod 4)) (phys s (a AND NOT 3)))"

definition put_phys_byte :: "u32 \<Rightarrow> u8 \<Rightarrow> 'a mm_state_scheme \<Rightarrow> 'a mm_state_scheme" where
  "put_phys_byte a v s =
     (let w = a AND NOT 3; k = 8 * (unat a mod 4)
      in poke w ((phys s w AND NOT (push_bit k 0xFF)) OR push_bit k (ucast v)) s)"


subsection \<open>Reading and writing\<close>

definition PAGE_SIZE :: int where
  "PAGE_SIZE = 4096"

definition PIPE_HEAD :: "m_inode \<Rightarrow> u16" where
  "PIPE_HEAD m = i_zone m 0"

definition PIPE_TAIL :: "m_inode \<Rightarrow> u16" where
  "PIPE_TAIL m = i_zone m 1"

definition PIPE_SIZE :: "m_inode \<Rightarrow> nat" where
  "PIPE_SIZE m = nat ((uint (PIPE_HEAD m) - uint (PIPE_TAIL m)) mod PAGE_SIZE)"

text \<open>\<^verbatim>\<open>pos += chars; pos &= PAGE_SIZE-1;\<close> on an \<^verbatim>\<open>unsigned short\<close>.\<close>

definition advance :: "u16 \<Rightarrow> nat \<Rightarrow> u16" where
  "advance pos chars = (pos + of_nat chars) AND 4095"

text \<open>The innermost loops: \<open>n\<close> bytes from and to the page, from offset \<open>off\<close> on.\<close>

fun pipe_to_user :: "nat \<Rightarrow> u32 \<Rightarrow> nat \<Rightarrow> u32 \<Rightarrow> 'a sched_state_scheme \<Rightarrow> 'a sched_state_scheme" where
  "pipe_to_user 0 page off buf s = s"
| "pipe_to_user (Suc n) page off buf s =
     pipe_to_user n page (off + 1) (buf + 1) (put_fs_byte (phys_byte (page + of_nat off) s) buf s)"

fun pipe_from_user :: "nat \<Rightarrow> u32 \<Rightarrow> nat \<Rightarrow> u32 \<Rightarrow> 'a sched_state_scheme \<Rightarrow> 'a sched_state_scheme" where
  "pipe_from_user 0 page off buf s = s"
| "pipe_from_user (Suc n) page off buf s =
     pipe_from_user n page (off + 1) (buf + 1) (put_phys_byte (page + of_nat off) (get_fs_byte buf s) s)"

text \<open>
  One iteration of the outer loops once there is something to do; the number of bytes moved. The pages of the user are taken
  to be there, so that nothing else runs within an iteration.
\<close>

definition read_chunk :: "nat \<Rightarrow> u32 \<Rightarrow> nat \<Rightarrow> 'a fs_state_scheme \<Rightarrow> nat \<times> 'a fs_state_scheme" where
  "read_chunk i buf count s =
     (let m = inode_table s i;
          tail = PIPE_TAIL m;
          chars = min (min (nat (PAGE_SIZE - uint tail)) count) (PIPE_SIZE m);
          s = upd_inode i (\<lambda>m. m\<lparr>i_zone := (i_zone m)(1 := advance tail chars)\<rparr>) s
      in (chars, pipe_to_user chars (i_size m) (unat tail) buf s))"

definition write_chunk :: "nat \<Rightarrow> u32 \<Rightarrow> nat \<Rightarrow> 'a fs_state_scheme \<Rightarrow> nat \<times> 'a fs_state_scheme" where
  "write_chunk i buf count s =
     (let m = inode_table s i;
          head = PIPE_HEAD m;
          chars = min (min (nat (PAGE_SIZE - uint head)) count) (4095 - PIPE_SIZE m);
          s = upd_inode i (\<lambda>m. m\<lparr>i_zone := (i_zone m)(0 := advance head chars)\<rparr>) s
      in (chars, pipe_from_user chars (i_size m) (unat head) buf s))"

text \<open>The outer loops; \<open>n\<close> bounds the number of chunks and of times the task sleeps.\<close>

fun read_pipe_loop ::
  "nat \<Rightarrow> ('a fs_state_scheme) env \<Rightarrow> nat \<Rightarrow> u32 \<Rightarrow> nat \<Rightarrow> int \<Rightarrow> 'a fs_state_scheme \<Rightarrow>
   (int, 'a fs_state_scheme) outcome" where
  "read_pipe_loop 0 e i buf count read s = Stop Asleep s"
| "read_pipe_loop (Suc n) e i buf count read s =
     (if count = 0 then Done read (wake_up (Wait_Inode i) s)
      else if PIPE_SIZE (inode_table s i) = 0
      then let s = wake_up (Wait_Inode i) s
           in if i_count (inode_table s i) \<noteq> 2 then Done read s
              else kbind (sleep_on e (Wait_Inode i) s) (\<lambda>_ s. read_pipe_loop n e i buf count read s)
      else let (chars, s) = read_chunk i buf count s
           in read_pipe_loop n e i (buf + of_nat chars) (count - chars) (read + int chars) s)"

definition read_pipe ::
  "('a fs_state_scheme) env \<Rightarrow> nat \<Rightarrow> u32 \<Rightarrow> int \<Rightarrow> 'a fs_state_scheme \<Rightarrow>
   (int, 'a fs_state_scheme) outcome" where
  "read_pipe e i buf count s = read_pipe_loop (Suc (patience e + nat count)) e i buf (nat count) 0 s"

fun write_pipe_loop ::
  "nat \<Rightarrow> ('a fs_state_scheme) env \<Rightarrow> nat \<Rightarrow> u32 \<Rightarrow> nat \<Rightarrow> int \<Rightarrow> 'a fs_state_scheme \<Rightarrow>
   (int, 'a fs_state_scheme) outcome" where
  "write_pipe_loop 0 e i buf count written s = Stop Asleep s"
| "write_pipe_loop (Suc n) e i buf count written s =
     (if count = 0 then Done written (wake_up (Wait_Inode i) s)
      else if 4095 - PIPE_SIZE (inode_table s i) = 0
      then let s = wake_up (Wait_Inode i) s
           in if i_count (inode_table s i) \<noteq> 2
              then Done (if written \<noteq> 0 then written else - 1)
                     (upd_cur (\<lambda>t. t\<lparr>t_signal := t_signal t OR sig_bit SIGPIPE\<rparr>) s)
              else kbind (sleep_on e (Wait_Inode i) s) (\<lambda>_ s. write_pipe_loop n e i buf count written s)
      else let (chars, s) = write_chunk i buf count s
           in write_pipe_loop n e i (buf + of_nat chars) (count - chars) (written + int chars) s)"

definition write_pipe ::
  "('a fs_state_scheme) env \<Rightarrow> nat \<Rightarrow> u32 \<Rightarrow> int \<Rightarrow> 'a fs_state_scheme \<Rightarrow>
   (int, 'a fs_state_scheme) outcome" where
  "write_pipe e i buf count s = write_pipe_loop (Suc (patience e + nat count)) e i buf (nat count) 0 s"


subsection \<open>Opening a pipe\<close>

text \<open>The first two indices below \<open>n\<close> that satisfy \<open>P\<close>.\<close>

definition first_two :: "(nat \<Rightarrow> bool) \<Rightarrow> nat \<Rightarrow> nat list" where
  "first_two P n = take 2 (filter P [0..<n])"

definition set_filp :: "nat \<Rightarrow> nat option \<Rightarrow> task_struct \<Rightarrow> task_struct" where
  "set_filp fd f t = t\<lparr>t_filp := (t_filp t)(fd := f)\<rparr>"

definition sys_pipe ::
  "('a fs_state_scheme) env \<Rightarrow> u32 \<Rightarrow> 'a fs_state_scheme \<Rightarrow> (int, 'a fs_state_scheme) outcome" where
  "sys_pipe e fildes s =
     (case first_two (\<lambda>i. f_count (file_table s i) = 0) NR_FILE of
        [f0, f1] \<Rightarrow>
          let s = upd_file f1 (\<lambda>f. f\<lparr>f_count := 1\<rparr>) (upd_file f0 (\<lambda>f. f\<lparr>f_count := 1\<rparr>) s)
          in (case first_two (\<lambda>i. t_filp (cur s) i = None) NR_OPEN of
                [fd0, fd1] \<Rightarrow>
                  let s = upd_cur (set_filp fd1 (Some f1)) (upd_cur (set_filp fd0 (Some f0)) s)
                  in kbind (get_pipe_inode e s) (\<lambda>ino s.
                     case ino of
                       None \<Rightarrow>
                         let s = upd_cur (set_filp fd0 None) (upd_cur (set_filp fd1 None) s)
                         in Done (- 1) (upd_file f0 (\<lambda>f. f\<lparr>f_count := 0\<rparr>) (upd_file f1 (\<lambda>f. f\<lparr>f_count := 0\<rparr>) s))
                     | Some i \<Rightarrow>
                         let s = upd_file f0 (\<lambda>f. f\<lparr>f_inode := Some i, f_pos := 0, f_mode := 1\<rparr>) s;
                             s = upd_file f1 (\<lambda>f. f\<lparr>f_inode := Some i, f_pos := 0, f_mode := 2\<rparr>) s;
                             s = put_fs_long (of_nat fd0) fildes s
                         in Done 0 (put_fs_long (of_nat fd1) (fildes + 4) s))
              | _ \<Rightarrow> Done (- 1) (upd_file f0 (\<lambda>f. f\<lparr>f_count := 0\<rparr>) (upd_file f1 (\<lambda>f. f\<lparr>f_count := 0\<rparr>) s)))
      | _ \<Rightarrow> Done (- 1) s)"


subsection \<open>Bytes behave like memory\<close>

lemma unat_mod_4: "unat ((a :: u32) AND 3) = unat a mod 4"
  using unat_and_mask [of a 2] by (simp add: mask_eq_exp_minus_1)

lemma same_byte_iff: "(a :: u32) = b \<longleftrightarrow> a AND NOT 3 = b AND NOT 3 \<and> unat a mod 4 = unat b mod 4"
proof
  assume "a AND NOT 3 = b AND NOT 3 \<and> unat a mod 4 = unat b mod 4"
  then have "a AND NOT 3 = b AND NOT 3" "a AND 3 = b AND 3"
    by (simp_all add: word_unat_eq_iff unat_mod_4)
  then show "a = b" using word_and_not_plus [of a 3] word_and_not_plus [of b 3] by simp
qed simp

lemma byte_of_update:
  fixes w :: u32 and v :: u8
  assumes "k < 4" "l < 4"
  shows "ucast (drop_bit (8 * l) ((w AND NOT (push_bit (8 * k) (mask 8))) OR push_bit (8 * k) (ucast v))) =
    (if k = l then v else (ucast (drop_bit (8 * l) w) :: u8))"
proof -
  have "k \<noteq> l \<Longrightarrow> j < 8 \<Longrightarrow> \<not> (8 * k \<le> 8 * l + j \<and> 8 * l + j - 8 * k < 8)" for j by linarith
  then show ?thesis using assms
    by (intro bit_word_eqI) (auto simp: bit_simps dest: bit_imp_le_length)
qed

lemma mask_8: "(0xFF :: u32) = mask 8"
  by (simp add: mask_eq_exp_minus_1)

lemma poke_at: "phys (poke w x s) w = x"
  by (simp add: poke_def)

lemma phys_byte_put [simp]: "phys_byte b (put_phys_byte a v s) = (if a = b then v else phys_byte b s)"
proof (cases "a AND NOT 3 = b AND NOT 3")
  case True
  let ?k = "unat a mod 4" and ?l = "unat b mod 4" and ?w = "phys s (b AND NOT 3)"
  have "phys_byte b (put_phys_byte a v s) =
      ucast (drop_bit (8 * ?l) ((?w AND NOT (push_bit (8 * ?k) 0xFF)) OR push_bit (8 * ?k) (ucast v)))"
    unfolding phys_byte_def put_phys_byte_def Let_def True poke_at ..
  also have "\<dots> = (if ?k = ?l then v else ucast (drop_bit (8 * ?l) ?w))"
    unfolding mask_8 by (rule byte_of_update) simp_all
  finally show ?thesis unfolding same_byte_iff [of a b] using True by (simp add: phys_byte_def)
next
  case False
  then show ?thesis by (auto simp: phys_byte_def put_phys_byte_def Let_def poke_def)
qed


subsection \<open>The copy loops\<close>

lemma step_back: "unat ((a :: u32) - (b + 1)) = (if a = b then 2 ^ 32 - 1 else unat (a - b) - 1)"
proof (cases "a = b")
  case True
  then show ?thesis by (simp add: unsigned_minus_1_eq_mask mask_eq_exp_minus_1)
next
  case False
  then have "a - b \<noteq> 0" by simp
  then have "unat (a - b - 1) = unat (a - b) - 1" by (rule unat_minus_one)
  then show ?thesis using False by (simp add: algebra_simps)
qed

lemma pipe_to_user_effect:
  assumes "n < 2 ^ 32"
  shows "pipe_to_user n page off buf s =
    s\<lparr>fs_mem := \<lambda>a. if unat (a - buf) < n then phys_byte (page + of_nat (off + unat (a - buf))) s else fs_mem s a\<rparr>"
  using assms
proof (induction n arbitrary: off buf s)
  case (Suc n)
  let ?u = "put_fs_byte (phys_byte (page + of_nat off) s) buf s"
  have pb: "phys_byte a ?u = phys_byte a s" for a by (simp add: phys_byte_def put_fs_byte_def)
  have "(if unat (a - (buf + 1)) < n then phys_byte (page + of_nat (off + 1 + unat (a - (buf + 1)))) s else fs_mem ?u a) =
      (if unat (a - buf) < Suc n then phys_byte (page + of_nat (off + unat (a - buf))) s else fs_mem s a)" for a
  proof (cases "a = buf")
    case True
    then show ?thesis using Suc.prems by (simp add: step_back put_fs_byte_def)
  next
    case False
    then have "unat (a - buf) \<noteq> 0" by (simp add: unat_eq_0)
    then show ?thesis using False by (auto simp: step_back put_fs_byte_def)
  qed
  then have F: "(\<lambda>a. if unat (a - (buf + 1)) < n then phys_byte (page + of_nat (off + 1 + unat (a - (buf + 1)))) ?u
         else fs_mem ?u a) =
      (\<lambda>a. if unat (a - buf) < Suc n then phys_byte (page + of_nat (off + unat (a - buf))) s else fs_mem s a)"
    unfolding pb by (rule ext)
  have "pipe_to_user (Suc n) page off buf s = ?u\<lparr>fs_mem := \<lambda>a. if unat (a - (buf + 1)) < n
         then phys_byte (page + of_nat (off + 1 + unat (a - (buf + 1)))) ?u else fs_mem ?u a\<rparr>"
    using Suc.IH [of "off + 1" "buf + 1" ?u] Suc.prems by simp
  then show ?case unfolding F by (simp add: put_fs_byte_def)
qed simp

lemma put_phys_byte_simps [simp]:
  "fs_mem (put_phys_byte a v t) = fs_mem t"
  "(put_phys_byte a v s)\<lparr>phys := x\<rparr> = s\<lparr>phys := x\<rparr>"
  by (simp_all add: put_phys_byte_def Let_def poke_def)

lemma pipe_from_user_frame:
  "pipe_from_user n page off buf s = s\<lparr>phys := phys (pipe_from_user n page off buf s)\<rparr>"
proof (induction n arbitrary: off buf s)
  case (Suc n)
  let ?u = "put_phys_byte (page + of_nat off) (get_fs_byte buf s) s"
  show ?case using Suc.IH [of "off + 1" "buf + 1" ?u] by simp
qed simp

lemma pipe_from_user_bytes:
  assumes "n < 2 ^ 32"
  shows "phys_byte a (pipe_from_user n page off buf s) =
     (if unat (a - (page + of_nat off)) < n then fs_mem s (buf + of_nat (unat (a - (page + of_nat off))))
      else phys_byte a s)"
  using assms
proof (induction n arbitrary: off buf s)
  case (Suc n)
  let ?p = "page + of_nat off"
  let ?u = "put_phys_byte ?p (get_fs_byte buf s) s"
  have e: "page + of_nat (off + 1) = ?p + 1" by (simp add: algebra_simps)
  have ih: "phys_byte a (pipe_from_user (Suc n) page off buf s) =
     (if unat (a - (?p + 1)) < n then fs_mem s (buf + 1 + of_nat (unat (a - (?p + 1))))
      else phys_byte a ?u)"
    using Suc.IH [of "off + 1" "buf + 1" ?u] Suc.prems by (simp only: e) simp
  show ?case
  proof (cases "a = ?p")
    case True
    then show ?thesis unfolding ih step_back using Suc.prems by (simp add: get_fs_byte_def)
  next
    case False
    then have n0: "unat (a - ?p) \<noteq> 0" by (simp add: unat_eq_0)
    then obtain k where k: "unat (a - ?p) = Suc k" using not0_implies_Suc by blast
    show ?thesis unfolding ih step_back k using False by (simp add: algebra_simps)
  qed
qed simp


subsection \<open>The ring as a queue\<close>

definition ring_size :: "nat \<Rightarrow> nat \<Rightarrow> nat" where
  "ring_size h t = (if t \<le> h then h - t else h + 4096 - t)"

definition pipe_wf :: "nat \<Rightarrow> 'a fs_state_scheme \<Rightarrow> bool" where
  "pipe_wf i s \<longleftrightarrow> (let m = inode_table s i in
     unat (PIPE_HEAD m) < 4096 \<and> unat (PIPE_TAIL m) < 4096 \<and> page_aligned (i_size m))"

definition ring_addr :: "u32 \<Rightarrow> nat \<Rightarrow> u32" where
  "ring_addr page k = page + of_nat (k mod 4096)"

definition pipe_bytes :: "nat \<Rightarrow> 'a fs_state_scheme \<Rightarrow> u8 list" where
  "pipe_bytes i s = (let m = inode_table s i in
     map (\<lambda>k. phys_byte (ring_addr (i_size m) (unat (PIPE_TAIL m) + k)) s) [0..<PIPE_SIZE m])"

definition user_bytes :: "u32 \<Rightarrow> nat \<Rightarrow> 'a sched_state_scheme \<Rightarrow> u8 list" where
  "user_bytes buf n s = map (\<lambda>k. fs_mem s (buf + of_nat k)) [0..<n]"

lemma ring_size_mod:
  assumes "h < 4096" "t < 4096"
  shows "nat ((int h - int t) mod 4096) = ring_size h t"
proof (cases "t \<le> h")
  case True
  then show ?thesis using assms(1) by (simp add: ring_size_def nat_diff_distrib)
next
  case False
  have "(int h - int t) mod 4096 = (int h - int t + 4096) mod 4096" by simp
  also have "\<dots> = int h - int t + 4096" using False assms by (intro mod_pos_pos_trivial) simp_all
  finally show ?thesis using False assms by (simp add: ring_size_def)
qed

lemma PIPE_SIZE_ring:
  assumes "unat (PIPE_HEAD m) < 4096" "unat (PIPE_TAIL m) < 4096"
  shows "PIPE_SIZE m = ring_size (unat (PIPE_HEAD m)) (unat (PIPE_TAIL m))"
  using ring_size_mod [OF assms] by (simp add: PIPE_SIZE_def PAGE_SIZE_def)

lemma unat_advance: "unat (pos :: u16) < 4096 \<Longrightarrow> n \<le> 4096 \<Longrightarrow> unat (advance pos n) = (unat pos + n) mod 4096"
proof -
  assume a: "unat pos < 4096" "n \<le> 4096"
  have m: "(4095 :: u16) = mask 12" by (simp add: mask_eq_exp_minus_1)
  have "unat (of_nat n :: u16) = n" using a(2) by (simp add: unat_of_nat take_bit_nat_eq_self)
  then have "unat (pos + of_nat n) = unat pos + n" using a by (simp add: unat_word_ariths)
  then show ?thesis unfolding advance_def m unat_and_mask by simp
qed

lemma ring_size_bound: "h < 4096 \<Longrightarrow> t < 4096 \<Longrightarrow> ring_size h t \<le> 4095"
  by (auto simp: ring_size_def)

lemma ring_get:
  assumes "h < 4096" "t < 4096" "c \<le> ring_size h t"
  shows "ring_size h ((t + c) mod 4096) = ring_size h t - c"
proof -
  have "(t + c) mod 4096 = (if t + c < 4096 then t + c else t + c - 4096)"
    using assms by (auto simp: ring_size_def le_mod_geq split: if_splits)
  then show ?thesis using assms by (auto simp: ring_size_def split: if_splits)
qed

lemma ring_put:
  assumes "h < 4096" "t < 4096" "ring_size h t + c \<le> 4095"
  shows "ring_size ((h + c) mod 4096) t = ring_size h t + c"
proof -
  have "(h + c) mod 4096 = (if h + c < 4096 then h + c else h + c - 4096)"
    using assms by (auto simp: ring_size_def le_mod_geq split: if_splits)
  then show ?thesis using assms by (auto simp: ring_size_def split: if_splits)
qed

lemma ring_addr_diff:
  assumes "h < 4096"
  shows "unat (ring_addr page k - (page + of_nat h)) =
    (if h \<le> k mod 4096 then k mod 4096 - h else k mod 4096 + 2 ^ 32 - h)"
proof -
  have e: "ring_addr page k - (page + of_nat h) = of_nat (k mod 4096) - of_nat h" by (simp add: ring_addr_def)
  have "unat (of_nat (k mod 4096) :: u32) = k mod 4096" "unat (of_nat h :: u32) = h"
    using assms by (simp_all add: unat_of_nat take_bit_nat_eq_self)
  then show ?thesis unfolding e by (simp add: unat_sub_if_size word_size word_le_nat_alt)
qed

lemma phys_byte_upd_inode [simp]: "phys_byte a (upd_inode i f s) = phys_byte a s"
  by (simp add: phys_byte_def)

lemma nat_to_end: "nat (PAGE_SIZE - uint (x :: u16)) = 4096 - unat x"
proof -
  have "nat (4096 - int n) = 4096 - n" for n by simp
  from this [of "unat x"] show ?thesis by (simp add: PAGE_SIZE_def)
qed

text \<open>What one iteration of \<^verbatim>\<open>read_pipe\<close> does to the queue and to the user's buffer.\<close>

lemma read_chunk_spec:
  assumes wf: "pipe_wf i s" and rc: "read_chunk i buf count s = (c, t)"
  shows "c = min (min (4096 - unat (PIPE_TAIL (inode_table s i))) count) (PIPE_SIZE (inode_table s i))"
    "pipe_wf i t" "pipe_bytes i s = user_bytes buf c t @ pipe_bytes i t"
    "\<And>a. c \<le> unat (a - buf) \<Longrightarrow> fs_mem t a = fs_mem s a"
    "i_count (inode_table t i) = i_count (inode_table s i)"
proof -
  let ?m = "inode_table s i"
  let ?h = "unat (PIPE_HEAD ?m)" and ?t = "unat (PIPE_TAIL ?m)"
  let ?u = "upd_inode i (\<lambda>m. m\<lparr>i_zone := (i_zone m)(1 := advance (PIPE_TAIL ?m) c)\<rparr>) s"
  have ht: "?h < 4096" "?t < 4096" "page_aligned (i_size ?m)" using wf by (auto simp: pipe_wf_def Let_def)
  note to_end = nat_to_end [of "PIPE_TAIL ?m"]
  have c: "c = min (min (4096 - ?t) count) (PIPE_SIZE ?m)"
    and t: "t = pipe_to_user c (i_size ?m) ?t buf ?u"
    using rc by (auto simp: read_chunk_def Let_def to_end)
  show "c = min (min (4096 - ?t) count) (PIPE_SIZE ?m)" by (rule c)
  have cs: "c \<le> ring_size ?h ?t" "?t + c \<le> 4096" "c < 2 ^ 32"
    using c ht PIPE_SIZE_ring [OF ht(1,2)] by auto
  have te: "t = ?u\<lparr>fs_mem := \<lambda>a. if unat (a - buf) < c
      then phys_byte (i_size ?m + of_nat (?t + unat (a - buf))) ?u else fs_mem ?u a\<rparr>"
    unfolding t by (rule pipe_to_user_effect [OF cs(3)])
  have ino: "inode_table t = inode_table ?u" and ph: "\<And>a. phys_byte a t = phys_byte a s"
    unfolding te by (simp_all add: phys_byte_def upd_inode_def)
  have adv: "unat (advance (PIPE_TAIL ?m) c) = (?t + c) mod 4096"
    using ht cs by (intro unat_advance) simp_all
  have m': "PIPE_HEAD (inode_table t i) = PIPE_HEAD ?m" "PIPE_TAIL (inode_table t i) = advance (PIPE_TAIL ?m) c"
    "i_size (inode_table t i) = i_size ?m"
    unfolding ino by (simp_all add: PIPE_HEAD_def PIPE_TAIL_def)
  show wft: "pipe_wf i t" using ht adv by (simp add: pipe_wf_def Let_def m')
  have sz: "PIPE_SIZE (inode_table t i) = PIPE_SIZE ?m - c"
    using ring_get [OF ht(1,2) cs(1)] wft ht
    by (simp add: PIPE_SIZE_ring pipe_wf_def Let_def m' adv)
  have ub: "user_bytes buf c t = take c (pipe_bytes i s)"
  proof (rule nth_equalityI)
    have l: "c \<le> PIPE_SIZE ?m" using c by simp
    then show "length (user_bytes buf c t) = length (take c (pipe_bytes i s))"
      by (simp add: user_bytes_def pipe_bytes_def Let_def)
    fix k assume "k < length (user_bytes buf c t)"
    then have k: "k < c" by (simp add: user_bytes_def)
    have "unat (of_nat k :: u32) = k" using k cs(3) by (simp add: unat_of_nat take_bit_nat_eq_self)
    then have "fs_mem t (buf + of_nat k) = phys_byte (i_size ?m + of_nat (?t + k)) s"
      unfolding te using k by simp
    moreover have "(?t + k) mod 4096 = ?t + k" using k cs(2) by simp
    ultimately show "user_bytes buf c t ! k = take c (pipe_bytes i s) ! k"
      using k l by (simp add: user_bytes_def pipe_bytes_def Let_def ring_addr_def)
  qed
  have "pipe_bytes i t = drop c (pipe_bytes i s)"
  proof (rule nth_equalityI)
    show "length (pipe_bytes i t) = length (drop c (pipe_bytes i s))"
      by (simp add: pipe_bytes_def Let_def sz)
    fix k assume "k < length (pipe_bytes i t)"
    then have k: "c + k < PIPE_SIZE ?m" by (simp add: pipe_bytes_def Let_def sz)
    have "ring_addr (i_size ?m) ((?t + c) mod 4096 + k) = ring_addr (i_size ?m) (?t + (c + k))"
      by (simp add: ring_addr_def mod_add_left_eq add.assoc)
    moreover have "k < PIPE_SIZE ?m - c" using k by linarith
    ultimately show "pipe_bytes i t ! k = drop c (pipe_bytes i s) ! k"
      using k by (simp add: pipe_bytes_def Let_def sz m' adv ph)
  qed
  then show "pipe_bytes i s = user_bytes buf c t @ pipe_bytes i t" using ub by simp
  show "fs_mem t a = fs_mem s a" if "c \<le> unat (a - buf)" for a unfolding te using that by simp
  show "i_count (inode_table t i) = i_count (inode_table s i)" unfolding ino by simp
qed

text \<open>The bytes that are already in the ring lie outside the part that is written next.\<close>

lemma ring_occupied:
  assumes "h < 4096" "t < 4096" "k < ring_size h t" "c \<le> 4095 - ring_size h t"
  shows "\<not> unat (ring_addr page (t + k) - (page + of_nat h)) < c"
proof -
  have j: "(t + k) mod 4096 = (if t + k < 4096 then t + k else t + k - 4096)"
    using assms by (auto simp: ring_size_def le_mod_geq split: if_splits)
  show ?thesis using assms unfolding ring_addr_diff [OF assms(1)] j
    by (auto simp: ring_size_def split: if_splits)
qed

lemma ring_free:
  assumes "h < 4096" "t < 4096" "h + c \<le> 4096" "k < c"
  shows "unat (ring_addr page (t + (ring_size h t + k)) - (page + of_nat h)) = k"
proof -
  have "(t + (ring_size h t + k)) mod 4096 = h + k"
    using assms by (auto simp: ring_size_def le_mod_geq)
  then show ?thesis unfolding ring_addr_diff [OF assms(1)] by simp
qed

lemma map_upt_shift: "map f [n..<n + c] = map (\<lambda>k. f (n + k)) [0..<c]"
  by (rule nth_equalityI) simp_all

lemma write_chunk_spec:
  assumes wf: "pipe_wf i s" and wc: "write_chunk i buf count s = (c, t)"
  shows "c = min (min (4096 - unat (PIPE_HEAD (inode_table s i))) count) (4095 - PIPE_SIZE (inode_table s i))"
    "pipe_wf i t" "pipe_bytes i t = pipe_bytes i s @ user_bytes buf c s" "fs_mem t = fs_mem s"
    "i_count (inode_table t i) = i_count (inode_table s i)"
proof -
  let ?m = "inode_table s i"
  let ?h = "unat (PIPE_HEAD ?m)" and ?t = "unat (PIPE_TAIL ?m)"
  let ?u = "upd_inode i (\<lambda>m. m\<lparr>i_zone := (i_zone m)(0 := advance (PIPE_HEAD ?m) c)\<rparr>) s"
  have ht: "?h < 4096" "?t < 4096" "page_aligned (i_size ?m)" using wf by (auto simp: pipe_wf_def Let_def)
  have c: "c = min (min (4096 - ?h) count) (4095 - PIPE_SIZE ?m)"
    and t: "t = pipe_from_user c (i_size ?m) ?h buf ?u"
    using wc by (auto simp: write_chunk_def Let_def nat_to_end)
  show "c = min (min (4096 - ?h) count) (4095 - PIPE_SIZE ?m)" by (rule c)
  note sz = PIPE_SIZE_ring [OF ht(1,2)]
  have cs: "ring_size ?h ?t + c \<le> 4095" "?h + c \<le> 4096" "c < 2 ^ 32"
    using c ht sz ring_size_bound [OF ht(1,2)] by auto
  have te: "t = ?u\<lparr>phys := phys t\<rparr>" unfolding t by (rule pipe_from_user_frame)
  have ino: "inode_table t = inode_table ?u" by (subst te) simp
  show fs: "fs_mem t = fs_mem s" by (subst te) simp
  have ph: "phys_byte a t = (if unat (a - (i_size ?m + of_nat ?h)) < c
      then fs_mem s (buf + of_nat (unat (a - (i_size ?m + of_nat ?h)))) else phys_byte a s)" for a
    unfolding t pipe_from_user_bytes [OF cs(3)] by simp
  have adv: "unat (advance (PIPE_HEAD ?m) c) = (?h + c) mod 4096"
    using ht cs by (intro unat_advance) simp_all
  have m': "PIPE_TAIL (inode_table t i) = PIPE_TAIL ?m" "PIPE_HEAD (inode_table t i) = advance (PIPE_HEAD ?m) c"
    "i_size (inode_table t i) = i_size ?m"
    unfolding ino by (simp_all add: PIPE_HEAD_def PIPE_TAIL_def)
  show wft: "pipe_wf i t" using ht adv by (simp add: pipe_wf_def Let_def m')
  have sz': "PIPE_SIZE (inode_table t i) = ring_size ?h ?t + c"
    using ring_put [OF ht(1,2) cs(1)] wft ht
    by (simp add: PIPE_SIZE_ring pipe_wf_def Let_def m' adv)
  have old: "phys_byte (ring_addr (i_size ?m) (?t + k)) t = phys_byte (ring_addr (i_size ?m) (?t + k)) s"
    if "k < ring_size ?h ?t" for k
    unfolding ph using ring_occupied [OF ht(1,2) that] cs(1) by simp
  have new: "phys_byte (ring_addr (i_size ?m) (?t + (ring_size ?h ?t + k))) t = fs_mem s (buf + of_nat k)"
    if "k < c" for k
    unfolding ph ring_free [OF ht(1,2) cs(2) that] using that by simp
  show "pipe_bytes i t = pipe_bytes i s @ user_bytes buf c s"
    unfolding pipe_bytes_def user_bytes_def Let_def m' sz' sz
    using new by (simp only: upt_add_eq_append [OF le0] map_append add_0 map_upt_shift) (simp add: old)
  show "i_count (inode_table t i) = i_count (inode_table s i)" unfolding ino by simp
qed


text \<open>
  Within a chunk the head is advanced before the first byte is copied: a task that runs in between, when the copy faults
  on a page of the user and sleeps, finds in the queue the old bytes of the page.
\<close>

lemma head_moves_first:
  assumes "pipe_wf i s" "PIPE_SIZE (inode_table s i) + c \<le> 4095"
  defines "t \<equiv> upd_inode i (\<lambda>m. m\<lparr>i_zone := (i_zone m)(0 := advance (PIPE_HEAD m) c)\<rparr>) s"
  shows "PIPE_SIZE (inode_table t i) = PIPE_SIZE (inode_table s i) + c" "phys_byte a t = phys_byte a s"
proof -
  let ?m = "inode_table s i"
  have ht: "unat (PIPE_HEAD ?m) < 4096" "unat (PIPE_TAIL ?m) < 4096" using assms(1) by (auto simp: pipe_wf_def Let_def)
  have adv: "unat (advance (PIPE_HEAD ?m) c) = (unat (PIPE_HEAD ?m) + c) mod 4096" using ht assms(2) by (intro unat_advance) simp_all
  have m: "PIPE_TAIL (inode_table t i) = PIPE_TAIL ?m" "PIPE_HEAD (inode_table t i) = advance (PIPE_HEAD ?m) c"
    by (simp_all add: t_def PIPE_HEAD_def PIPE_TAIL_def)
  show "PIPE_SIZE (inode_table t i) = PIPE_SIZE ?m + c"
    using ring_put [OF ht] assms(2) ht by (simp add: PIPE_SIZE_ring m adv)
  show "phys_byte a t = phys_byte a s" by (simp add: t_def)
qed


subsection \<open>Whole calls that need not wait\<close>

lemma user_bytes_add: "user_bytes buf (c + d) s = user_bytes buf c s @ user_bytes (buf + of_nat c) d s"
  by (simp add: user_bytes_def upt_add_eq_append [of 0 c d, simplified] map_upt_shift add.assoc)

lemma user_bytes_cong:
  "(\<And>k. k < n \<Longrightarrow> fs_mem t (buf + of_nat k) = fs_mem s (buf + of_nat k)) \<Longrightarrow> user_bytes buf n t = user_bytes buf n s"
  by (simp add: user_bytes_def)

lemma length_user_bytes [simp]: "length (user_bytes buf n s) = n"
  by (simp add: user_bytes_def)

lemma length_pipe_bytes: "length (pipe_bytes i s) = PIPE_SIZE (inode_table s i)"
  by (simp add: pipe_bytes_def Let_def)

lemma inode_table_wake_up [simp]: "inode_table (wake_up q s) = inode_table s"
  by (simp add: wake_up_def)

lemma phys_byte_wake_up [simp]: "phys_byte a (wake_up q s) = phys_byte a s"
  by (simp add: wake_up_def phys_byte_def)

lemma pipe_wake_up [simp]:
  "pipe_wf i (wake_up q s) = pipe_wf i s" "pipe_bytes i (wake_up q s) = pipe_bytes i s"
  "fs_mem (wake_up q s) = fs_mem s"
  by (simp_all add: pipe_wf_def pipe_bytes_def Let_def wake_up_def phys_byte_def)

lemma write_pipe_loop_room:
  assumes "pipe_wf i s" "length (pipe_bytes i s) + count \<le> 4095" "count < n"
  shows "\<exists>t. write_pipe_loop n e i buf count w s = Done (w + int count) t \<and> pipe_wf i t \<and>
    pipe_bytes i t = pipe_bytes i s @ user_bytes buf count s \<and> fs_mem t = fs_mem s"
  using assms
proof (induction n arbitrary: buf count w s)
  case (Suc n)
  show ?case
  proof (cases "count = 0")
    case True
    then show ?thesis using Suc.prems(1) by (simp add: user_bytes_def)
  next
    case False
    obtain c u where wc: "write_chunk i buf count s = (c, u)" by fastforce
    note u = write_chunk_spec [OF Suc.prems(1) wc]
    have sz: "4095 - PIPE_SIZE (inode_table s i) \<noteq> 0" "unat (PIPE_HEAD (inode_table s i)) < 4096"
      using Suc.prems False by (auto simp: length_pipe_bytes pipe_wf_def Let_def)
    have c: "0 < c" "c \<le> count" using u(1) sz False by auto
    have "length (pipe_bytes i u) + (count - c) \<le> 4095" "count - c < n" using Suc.prems(2,3) u(3) c by auto
    then obtain t where t: "write_pipe_loop n e i (buf + of_nat c) (count - c) (w + int c) u =
        Done (w + int c + int (count - c)) t" "pipe_wf i t"
        "pipe_bytes i t = pipe_bytes i u @ user_bytes (buf + of_nat c) (count - c) u" "fs_mem t = fs_mem u"
      using Suc.IH [OF u(2), of "count - c" "buf + of_nat c" "w + int c"] by blast
    have "user_bytes b k u = user_bytes b k s" for b k using u(4) by (simp add: user_bytes_def)
    then have "pipe_bytes i t = pipe_bytes i s @ user_bytes buf count s"
      using t(3) u(3) user_bytes_add [of buf c "count - c" s] c by simp
    moreover have "write_pipe_loop (Suc n) e i buf count w s = Done (w + int count) t"
      using t(1) wc sz False c by simp
    ultimately show ?thesis using t(2,4) u(4) by auto
  qed
qed simp

lemma read_pipe_loop_avail:
  assumes "pipe_wf i s" "count \<le> length (pipe_bytes i s)" "count < n"
  shows "\<exists>t. read_pipe_loop n e i buf count r s = Done (r + int count) t \<and> pipe_wf i t \<and>
    pipe_bytes i s = user_bytes buf count t @ pipe_bytes i t \<and>
    (\<forall>a. count \<le> unat (a - buf) \<longrightarrow> fs_mem t a = fs_mem s a)"
  using assms
proof (induction n arbitrary: buf count r s)
  case (Suc n)
  show ?case
  proof (cases "count = 0")
    case True
    then show ?thesis using Suc.prems(1) by (simp add: user_bytes_def)
  next
    case False
    obtain c u where rc: "read_chunk i buf count s = (c, u)" by fastforce
    note u = read_chunk_spec [OF Suc.prems(1) rc]
    have sz: "PIPE_SIZE (inode_table s i) \<noteq> 0" "unat (PIPE_TAIL (inode_table s i)) < 4096"
      using Suc.prems False by (auto simp: length_pipe_bytes pipe_wf_def Let_def)
    have c: "0 < c" "c \<le> count" using u(1) sz False by auto
    have len: "length (pipe_bytes i s) \<le> 4095"
      using Suc.prems(1) ring_size_bound by (simp add: length_pipe_bytes pipe_wf_def Let_def PIPE_SIZE_ring)
    have "count - c \<le> length (pipe_bytes i u)" "count - c < n" using Suc.prems(2,3) u(3) c by auto
    then obtain t where t: "read_pipe_loop n e i (buf + of_nat c) (count - c) (r + int c) u =
        Done (r + int c + int (count - c)) t" "pipe_wf i t"
        "pipe_bytes i u = user_bytes (buf + of_nat c) (count - c) t @ pipe_bytes i t"
        "\<forall>a. count - c \<le> unat (a - (buf + of_nat c)) \<longrightarrow> fs_mem t a = fs_mem u a"
      using Suc.IH [OF u(2), of "count - c" "buf + of_nat c" "r + int c"] by blast
    have cb: "unat (of_nat c :: u32) = c" "count < 4096" "c < 4096"
      using c(2) Suc.prems(2) len by (simp_all add: unat_of_nat take_bit_nat_eq_self)
    have far: "unat (a - (buf + of_nat c)) = (if c \<le> unat (a - buf) then unat (a - buf) - c else unat (a - buf) + 2 ^ 32 - c)" for a
    proof -
      have "a - (buf + of_nat c) = (a - buf) - of_nat c" by simp
      then show ?thesis using cb(1) by (simp only: unat_sub_if_size word_le_nat_alt word_size) simp
    qed
    have keep: "fs_mem t (buf + of_nat k) = fs_mem u (buf + of_nat k)" if "k < c" for k
    proof -
      have "unat (of_nat k :: u32) = k" using that cb by (simp add: unat_of_nat take_bit_nat_eq_self)
      then show ?thesis using t(4) far [of "buf + of_nat k"] that cb(2) by simp
    qed
    have "pipe_bytes i s = user_bytes buf count t @ pipe_bytes i t"
      using u(3) t(3) user_bytes_add [of buf c "count - c" t] user_bytes_cong [OF keep] c by simp
    moreover have "read_pipe_loop (Suc n) e i buf count r s = Done (r + int count) t"
      using t(1) rc sz False c by simp
    moreover have "fs_mem t a = fs_mem s a" if "count \<le> unat (a - buf)" for a
      using that t(4) u(4) [of a] c far [of a] by simp
    ultimately show ?thesis using t(2) by auto
  qed
qed simp

subsection \<open>Properties\<close>

text \<open>
  The steps of a pipe: one iteration of a writer, one of a reader, for any task and
  any buffer, and whatever else happens that leaves the pipe alone. A task can be
  interrupted by another one between two iterations only.
\<close>

definition pipe_put :: "nat \<Rightarrow> 'a fs_state_scheme \<Rightarrow> u8 list \<Rightarrow> 'a fs_state_scheme \<Rightarrow> bool" where
  "pipe_put i s xs t \<longleftrightarrow> (\<exists>buf count c. write_chunk i buf count s = (c, t) \<and> xs = user_bytes buf c s)"

definition pipe_get :: "nat \<Rightarrow> 'a fs_state_scheme \<Rightarrow> u8 list \<Rightarrow> 'a fs_state_scheme \<Rightarrow> bool" where
  "pipe_get i s xs t \<longleftrightarrow> (\<exists>buf count c. read_chunk i buf count s = (c, t) \<and> xs = user_bytes buf c t)"

definition pipe_idle :: "nat \<Rightarrow> 'a fs_state_scheme \<Rightarrow> 'a fs_state_scheme \<Rightarrow> bool" where
  "pipe_idle i s t \<longleftrightarrow> inode_table t i = inode_table s i \<and>
     (\<forall>k<4096. phys_byte (i_size (inode_table s i) + of_nat k) t = phys_byte (i_size (inode_table s i) + of_nat k) s)"

interpretation pipe: byte_queue "pipe_put i" "pipe_get i" "pipe_idle i" "pipe_bytes i" "pipe_wf i" 4095
proof unfold_locales
  fix s t :: "'a fs_state_scheme" and xs
  assume ok: "pipe_wf i s"
  { assume "pipe_put i s xs t"
    then show "pipe_wf i t \<and> pipe_bytes i t = pipe_bytes i s @ xs"
      using write_chunk_spec(2,3) [OF ok] unfolding pipe_put_def by metis }
  { assume "pipe_get i s xs t"
    then show "pipe_wf i t \<and> pipe_bytes i s = xs @ pipe_bytes i t"
      using read_chunk_spec(2,3) [OF ok] unfolding pipe_get_def by metis }
  { assume "pipe_idle i s t"
    then show "pipe_wf i t \<and> pipe_bytes i t = pipe_bytes i s"
      using ok by (simp add: pipe_idle_def pipe_wf_def pipe_bytes_def Let_def ring_addr_def) }
  show "length (pipe_bytes i s) \<le> 4095"
    using ok ring_size_bound by (simp add: pipe_bytes_def pipe_wf_def Let_def PIPE_SIZE_ring)
qed

text \<open>
  C23: a pipe is a first-in first-out queue. However the iterations of readers and
  writers are interleaved, the bytes that were in the pipe followed by the bytes
  written since are the bytes read since followed by the bytes that are in it now;
  and the writers are never more than 4095 bytes ahead.
\<close>

theorem pipe_fifo:
  assumes "pipe_wf i s" and "queue_run (pipe_put i) (pipe_get i) (pipe_idle i) s w r t"
  shows "pipe_bytes i s @ w = r @ pipe_bytes i t \<and> length w \<le> length r + 4095"
  using pipe.run_fifo [OF assms(2,1)] pipe.run_bounded [OF assms(2,1)] by simp

text \<open>An empty pipe on inode 5, with its page at 2 MB, and the message \<open>1, 2, 3\<close> at address 100.\<close>

definition demo_pipe :: fs_state where
  "demo_pipe = demo_fs\<lparr>inode_table := (\<lambda>_. zero_inode\<lparr>i_size := 0x200000, i_count := 2, i_pipe := 1\<rparr>),
     fs_mem := (\<lambda>_. 0)(100 := 1, 101 := 2, 102 := 3)\<rparr>"

lemma demo_pipe_wf: "pipe_wf 5 demo_pipe" "pipe_bytes 5 demo_pipe = []"
  by (simp_all add: pipe_wf_def pipe_bytes_def Let_def demo_pipe_def zero_inode_def PIPE_HEAD_def PIPE_TAIL_def
      PIPE_SIZE_def page_aligned_def)

theorem pipe_fifo_witness:
  "\<exists>t. queue_run (pipe_put 5) (pipe_get 5) (pipe_idle 5) demo_pipe [1, 2] [] t \<and> pipe_bytes 5 t = [1, 2]"
proof -
  obtain c t where w: "write_chunk 5 100 2 demo_pipe = (c, t)" by fastforce
  have "c = 2" using write_chunk_spec(1) [OF demo_pipe_wf(1) w] 
    by (simp add: demo_pipe_def zero_inode_def PIPE_HEAD_def PIPE_TAIL_def PIPE_SIZE_def)
  then have "[1, 2] = user_bytes 100 c demo_pipe"
    by (simp add: user_bytes_def demo_pipe_def upt_rec)
  then have "pipe_put 5 demo_pipe [1, 2] t" using w by (auto simp: pipe_put_def)
  then have r: "queue_run (pipe_put 5) (pipe_get 5) (pipe_idle 5) demo_pipe [1, 2] [] t"
    using queue_run.put [OF queue_run.start, of "pipe_put 5" demo_pipe "[1, 2]" t] by simp
  then show ?thesis using pipe_fifo [OF demo_pipe_wf(1) r] demo_pipe_wf(2) by auto
qed

text \<open>
  C24: a message that fits is written and read back without sleeping. \<^verbatim>\<open>write_pipe\<close> returns
  the number of bytes asked for, and \<^verbatim>\<open>read_pipe\<close> after it, into any buffer, returns the
  same number, delivers the same bytes and empties the pipe.
\<close>

theorem pipe_write_read:
  assumes "pipe_wf i s" and "pipe_bytes i s = []" and "0 \<le> count" and "count \<le> 4095"
  shows "\<exists>t u. write_pipe e i src count s = Done count t \<and> read_pipe e' i dst count t = Done count u \<and>
    user_bytes dst (nat count) u = user_bytes src (nat count) s \<and> pipe_bytes i u = []"
proof -
  have "nat count \<le> 4095" using assms(4) by simp
  then obtain t where t: "write_pipe e i src count s = Done count t" "pipe_wf i t"
      "pipe_bytes i t = user_bytes src (nat count) s"
    using write_pipe_loop_room [OF assms(1), of "nat count" "Suc (patience e + nat count)" e src 0] assms(2-4)
    unfolding write_pipe_def by (auto simp del: write_pipe_loop.simps)
  then have "nat count \<le> length (pipe_bytes i t)" by simp
  then obtain u where u: "read_pipe e' i dst count t = Done count u"
      "pipe_bytes i t = user_bytes dst (nat count) u @ pipe_bytes i u"
    using read_pipe_loop_avail [OF t(2), of "nat count" "Suc (patience e' + nat count)" e' dst 0] assms(3)
    unfolding read_pipe_def by (auto simp del: read_pipe_loop.simps)
  have "length (pipe_bytes i u) = 0" using arg_cong [OF u(2), of length] t(3) by simp
  then show ?thesis using t u by simp
qed

theorem pipe_write_read_witness:
  "\<exists>t u. write_pipe demo_env 5 100 3 demo_pipe = Done 3 t \<and> read_pipe demo_env 5 900 3 t = Done 3 u \<and>
     user_bytes 900 3 u = [1, 2, 3]"
proof -
  have "user_bytes 100 3 demo_pipe = [1, 2, 3]" by (simp add: user_bytes_def demo_pipe_def upt_rec)
  then show ?thesis
    using pipe_write_read [OF demo_pipe_wf, of 3 demo_env 100 demo_env 900] by auto
qed

end
