(* ===== verification/File_Rw.thy ===== *)
theory File_Rw
  imports Pipe
begin

text \<open>
  Reading and writing through file descriptors: regular files (\<^verbatim>\<open>fs/file_dev.c\<close>), block
  devices (\<^verbatim>\<open>fs/block_dev.c\<close>), character devices (\<^verbatim>\<open>fs/char_dev.c\<close>), the system calls of
  \<^verbatim>\<open>fs/read_write.c\<close>, \<^verbatim>\<open>fs/fcntl.c\<close> and \<^verbatim>\<open>fs/ioctl.c\<close>, \<^verbatim>\<open>sys_fstat\<close> of \<^verbatim>\<open>fs/stat.c\<close> and \<^verbatim>\<open>sys_close\<close> of
  \<^verbatim>\<open>fs/open.c\<close>. The terminal driver (\<^verbatim>\<open>tty_read\<close>, \<^verbatim>\<open>tty_write\<close>, \<^verbatim>\<open>tty_ioctl\<close>) is declared but not
  defined in the sources: it is a group of arguments. File positions are never
  negative, so division and remainder of a position are those of \<open>div\<close> and \<open>mod\<close>.
\<close>


subsection \<open>Flags\<close>

definition O_ACCMODE :: int where "O_ACCMODE = 3"
definition O_RDONLY :: int where "O_RDONLY = 0"
definition O_WRONLY :: int where "O_WRONLY = 1"
definition O_RDWR :: int where "O_RDWR = 2"
definition O_CREAT :: int where "O_CREAT = 64"
definition O_EXCL :: int where "O_EXCL = 128"
definition O_TRUNC :: int where "O_TRUNC = 512"
definition O_APPEND :: int where "O_APPEND = 1024"
definition O_NONBLOCK :: int where "O_NONBLOCK = 2048"
definition F_DUPFD :: u32 where "F_DUPFD = 0"
definition F_GETFD :: u32 where "F_GETFD = 1"
definition F_SETFD :: u32 where "F_SETFD = 2"
definition F_GETFL :: u32 where "F_GETFL = 3"
definition F_SETFL :: u32 where "F_SETFL = 4"

lemmas fcntl_defs = O_ACCMODE_def O_RDONLY_def O_WRONLY_def O_RDWR_def O_CREAT_def O_EXCL_def O_TRUNC_def
  O_APPEND_def O_NONBLOCK_def F_DUPFD_def F_GETFD_def F_SETFD_def F_GETFL_def F_SETFL_def

definition appends :: "file_struct \<Rightarrow> bool" where
  "appends f \<longleftrightarrow> f_flags f AND of_int O_APPEND \<noteq> 0"


subsection \<open>Moving bytes\<close>

text \<open>\<open>n\<close> bytes between offset \<open>off\<close> of a buffer and the user's memory.\<close>

primrec buffer_to_user :: "nat \<Rightarrow> nat \<Rightarrow> nat \<Rightarrow> u32 \<Rightarrow> 'a fs_state_scheme \<Rightarrow> 'a fs_state_scheme" where
  "buffer_to_user 0 b off buf s = s"
| "buffer_to_user (Suc n) b off buf s =
     buffer_to_user n b (off + 1) (buf + 1) (put_fs_byte (b_data s b off) buf s)"

primrec buffer_from_user :: "nat \<Rightarrow> nat \<Rightarrow> nat \<Rightarrow> u32 \<Rightarrow> 'a fs_state_scheme \<Rightarrow> 'a fs_state_scheme" where
  "buffer_from_user 0 b off buf s = s"
| "buffer_from_user (Suc n) b off buf s =
     buffer_from_user n b (off + 1) (buf + 1) (upd_data b (\<lambda>d. d(off := get_fs_byte buf s)) s)"

primrec zeros_to_user :: "nat \<Rightarrow> u32 \<Rightarrow> 'a fs_state_scheme \<Rightarrow> 'a fs_state_scheme" where
  "zeros_to_user 0 buf s = s"
| "zeros_to_user (Suc n) buf s = zeros_to_user n (buf + 1) (put_fs_byte 0 buf s)"


subsection \<open>Regular files\<close>

text \<open>
  The loop of \<^verbatim>\<open>file_read\<close> returns \<^verbatim>\<open>left\<close>. Every iteration moves at least one byte, so \<open>n\<close>
  larger than \<open>left\<close> is enough.
\<close>

primrec file_read_loop ::
  "nat \<Rightarrow> ('a fs_state_scheme) env \<Rightarrow> nat \<Rightarrow> nat \<Rightarrow> u32 \<Rightarrow> nat \<Rightarrow> 'a fs_state_scheme \<Rightarrow>
   (nat, 'a fs_state_scheme) outcome" where
  "file_read_loop 0 e i f buf left s = Stop Looping s"
| "file_read_loop (Suc n) e i f buf left s =
     (if left = 0 then Done left s
      else kbind (bmap e i (f_pos (file_table s f) div int BLOCK_SIZE) s) (\<lambda>nr s.
           kbind (if nr \<noteq> 0
                  then kbind (bread e (i_dev (inode_table s i)) nr s) (\<lambda>bh s. Done (bh = None, bh) s)
                  else Done (False, None) s) (\<lambda>(failed, bh) s.
           if failed then Done left s
           else let off = nat (f_pos (file_table s f) mod int BLOCK_SIZE);
                    chars = min (BLOCK_SIZE - off) left;
                    s = upd_file f (\<lambda>x. x\<lparr>f_pos := f_pos x + int chars\<rparr>) s
                in kbind (case bh of
                            Some b \<Rightarrow> brelse e (Some b) (buffer_to_user chars b off buf s)
                          | None \<Rightarrow> Done () (zeros_to_user chars buf s)) (\<lambda>_ s.
                   file_read_loop n e i f (buf + of_nat chars) (left - chars) s))))"

definition file_read ::
  "('a fs_state_scheme) env \<Rightarrow> nat \<Rightarrow> nat \<Rightarrow> u32 \<Rightarrow> int \<Rightarrow> 'a fs_state_scheme \<Rightarrow>
   (int, 'a fs_state_scheme) outcome" where
  "file_read e i f buf count s =
     (if count \<le> 0 then Done 0 s
      else kbind (file_read_loop (Suc (nat count)) e i f buf (nat count) s) (\<lambda>left s.
           let s = upd_inode i (\<lambda>m. m\<lparr>i_atime := CURRENT_SECONDS s\<rparr>) s
           in Done (if count - int left \<noteq> 0 then count - int left else - ERROR) s))"

text \<open>The loop of \<^verbatim>\<open>file_write\<close>: \<open>i\<close> is the inode, \<open>todo\<close> is \<^verbatim>\<open>count-i\<close>; the result is \<open>(pos, todo)\<close>.\<close>

primrec file_write_loop ::
  "nat \<Rightarrow> ('a fs_state_scheme) env \<Rightarrow> nat \<Rightarrow> int \<Rightarrow> u32 \<Rightarrow> nat \<Rightarrow> 'a fs_state_scheme \<Rightarrow>
   (int \<times> nat, 'a fs_state_scheme) outcome" where
  "file_write_loop 0 e i pos buf todo s = Stop Looping s"
| "file_write_loop (Suc n) e i pos buf todo s =
     (if todo = 0 then Done (pos, todo) s
      else kbind (create_block e i (pos div int BLOCK_SIZE) s) (\<lambda>block s.
           if block = 0 then Done (pos, todo) s
           else kbind (bread e (i_dev (inode_table s i)) block s) (\<lambda>bh s.
                case bh of
                  None \<Rightarrow> Done (pos, todo) s
                | Some b \<Rightarrow>
                    let off = nat (pos mod int BLOCK_SIZE);
                        s = upd_buf b (\<lambda>h. h\<lparr>b_dirt := 1\<rparr>) s;
                        c = min (BLOCK_SIZE - off) todo;
                        pos = pos + int c;
                        s = (if i_size (inode_table s i) < of_int pos
                             then upd_inode i (\<lambda>m. m\<lparr>i_size := of_int pos, i_dirt := 1\<rparr>) s else s)
                    in kbind (brelse e (Some b) (buffer_from_user c b off buf s)) (\<lambda>_ s.
                       file_write_loop n e i pos (buf + of_nat c) (todo - c) s))))"

definition file_write ::
  "('a fs_state_scheme) env \<Rightarrow> nat \<Rightarrow> nat \<Rightarrow> u32 \<Rightarrow> int \<Rightarrow> 'a fs_state_scheme \<Rightarrow>
   (int, 'a fs_state_scheme) outcome" where
  "file_write e i f buf count s =
     (let pos = (if appends (file_table s f) then sint (i_size (inode_table s i)) else f_pos (file_table s f))
      in kbind (file_write_loop (Suc (nat count)) e i pos buf (nat count) s) (\<lambda>(pos, todo) s.
         let s = upd_inode i (\<lambda>m. m\<lparr>i_mtime := CURRENT_SECONDS s\<rparr>) s;
             s = (if appends (file_table s f) then s
                  else upd_inode i (\<lambda>m. m\<lparr>i_ctime := CURRENT_SECONDS s\<rparr>)
                         (upd_file f (\<lambda>x. x\<lparr>f_pos := pos\<rparr>) s));
             done = int (nat count) - int todo
         in Done (if done \<noteq> 0 then done else - 1) s))"


subsection \<open>Block devices\<close>

text \<open>
  A whole block is written into a buffer from \<^verbatim>\<open>getblk\<close>, a part of a block into one that was
  read first. The loops return the number of bytes moved, or \<open>- EIO\<close>.
\<close>

primrec block_write_loop ::
  "nat \<Rightarrow> ('a fs_state_scheme) env \<Rightarrow> u16 \<Rightarrow> nat \<Rightarrow> int \<Rightarrow> nat \<Rightarrow> u32 \<Rightarrow> nat \<Rightarrow> int \<Rightarrow> 'a fs_state_scheme \<Rightarrow>
   (int, 'a fs_state_scheme) outcome" where
  "block_write_loop 0 e dev f block off buf count written s = Stop Looping s"
| "block_write_loop (Suc n) e dev f block off buf count written s =
     (if count = 0 then Done written s
      else let chars = min (BLOCK_SIZE - off) count
           in kbind (if chars = BLOCK_SIZE
                     then kbind (getblk e dev (of_int block) s) (\<lambda>b s. Done (Some b) s)
                     else breada e dev (of_int block) [of_int (block + 1), of_int (block + 2)] s) (\<lambda>bh s.
              case bh of
                None \<Rightarrow> Done (if written \<noteq> 0 then written else - EIO) s
              | Some b \<Rightarrow>
                  let s = upd_file f (\<lambda>x. x\<lparr>f_pos := f_pos x + int chars\<rparr>) s;
                      s = buffer_from_user chars b off buf s;
                      s = upd_buf b (\<lambda>h. h\<lparr>b_dirt := 1\<rparr>) s
                  in kbind (brelse e (Some b) s) (\<lambda>_ s.
                     block_write_loop n e dev f (block + 1) 0 (buf + of_nat chars) (count - chars)
                       (written + int chars) s)))"

definition block_write ::
  "('a fs_state_scheme) env \<Rightarrow> u16 \<Rightarrow> nat \<Rightarrow> u32 \<Rightarrow> int \<Rightarrow> 'a fs_state_scheme \<Rightarrow>
   (int, 'a fs_state_scheme) outcome" where
  "block_write e dev f buf count s =
     (let pos = f_pos (file_table s f)
      in block_write_loop (Suc (nat count)) e dev f (pos div int BLOCK_SIZE) (nat (pos mod int BLOCK_SIZE))
           buf (nat count) 0 s)"

primrec block_read_loop ::
  "nat \<Rightarrow> ('a fs_state_scheme) env \<Rightarrow> u16 \<Rightarrow> nat \<Rightarrow> int \<Rightarrow> nat \<Rightarrow> u32 \<Rightarrow> nat \<Rightarrow> int \<Rightarrow> 'a fs_state_scheme \<Rightarrow>
   (int, 'a fs_state_scheme) outcome" where
  "block_read_loop 0 e dev f block off buf count nread s = Stop Looping s"
| "block_read_loop (Suc n) e dev f block off buf count nread s =
     (if count = 0 then Done nread s
      else let chars = min (BLOCK_SIZE - off) count
           in kbind (breada e dev (of_int block) [of_int (block + 1), of_int (block + 2)] s) (\<lambda>bh s.
              case bh of
                None \<Rightarrow> Done (if nread \<noteq> 0 then nread else - EIO) s
              | Some b \<Rightarrow>
                  let s = upd_file f (\<lambda>x. x\<lparr>f_pos := f_pos x + int chars\<rparr>) s
                  in kbind (brelse e (Some b) (buffer_to_user chars b off buf s)) (\<lambda>_ s.
                     block_read_loop n e dev f (block + 1) 0 (buf + of_nat chars) (count - chars)
                       (nread + int chars) s)))"

definition block_read ::
  "('a fs_state_scheme) env \<Rightarrow> u16 \<Rightarrow> nat \<Rightarrow> u32 \<Rightarrow> int \<Rightarrow> 'a fs_state_scheme \<Rightarrow>
   (int, 'a fs_state_scheme) outcome" where
  "block_read e dev f buf count s =
     (let pos = f_pos (file_table s f)
      in block_read_loop (Suc (nat count)) e dev f (pos div int BLOCK_SIZE) (nat (pos mod int BLOCK_SIZE))
           buf (nat count) 0 s)"


subsection \<open>Character devices\<close>

text \<open>The entry points of the terminal driver: minor number, buffer address, count.\<close>

record 's tty_ops =
  tty_read :: "int \<Rightarrow> u32 \<Rightarrow> int \<Rightarrow> 's \<Rightarrow> (int, 's) outcome"
  tty_write :: "int \<Rightarrow> u32 \<Rightarrow> int \<Rightarrow> 's \<Rightarrow> (int, 's) outcome"
  tty_ioctl :: "u16 \<Rightarrow> u32 \<Rightarrow> u32 \<Rightarrow> 's \<Rightarrow> (int, 's) outcome"

definition rw_ttyx ::
  "('s tty_ops) \<Rightarrow> int \<Rightarrow> int \<Rightarrow> u32 \<Rightarrow> int \<Rightarrow> 's \<Rightarrow> (int, 's) outcome" where
  "rw_ttyx tty rw minor buf count s =
     (if rw = READ then tty_read tty minor buf count s else tty_write tty minor buf count s)"

definition rw_tty ::
  "(('a fs_state_scheme) tty_ops) \<Rightarrow> int \<Rightarrow> u32 \<Rightarrow> int \<Rightarrow> 'a fs_state_scheme \<Rightarrow>
   (int, 'a fs_state_scheme) outcome" where
  "rw_tty tty rw buf count s =
     (if t_tty (cur s) < 0 then Done (- EPERM) s else rw_ttyx tty rw (t_tty (cur s)) buf count s)"

definition rw_ram :: int where "rw_ram = - EIO"
definition rw_mem :: int where "rw_mem = - EIO"
definition rw_kmem :: int where "rw_kmem = - EIO"

text \<open>The loop of \<^verbatim>\<open>rw_port\<close> returns the port it stopped at.\<close>

primrec rw_port_loop :: "nat \<Rightarrow> int \<Rightarrow> u32 \<Rightarrow> int \<Rightarrow> 'a sched_state_scheme \<Rightarrow> int \<times> 'a sched_state_scheme" where
  "rw_port_loop 0 rw buf i s = (i, s)"
| "rw_port_loop (Suc n) rw buf i s =
     (if i < 65536
      then rw_port_loop n rw (buf + 1) (i + 1)
             (if rw = READ then put_fs_byte (in_ports s (nat i)) buf s
              else outb (get_fs_byte buf s) (nat i) s)
      else (i, s))"

definition rw_port ::
  "int \<Rightarrow> u32 \<Rightarrow> int \<Rightarrow> nat \<Rightarrow> 'a fs_state_scheme \<Rightarrow> int \<times> 'a fs_state_scheme" where
  "rw_port rw buf count f s =
     (let pos = f_pos (file_table s f);
          (i, s) = rw_port_loop (nat count) rw buf pos s
      in (i - pos, upd_file f (\<lambda>x. x\<lparr>f_pos := f_pos x + (i - pos)\<rparr>) s))"

definition rw_memory ::
  "int \<Rightarrow> nat \<Rightarrow> u32 \<Rightarrow> int \<Rightarrow> nat \<Rightarrow> 'a fs_state_scheme \<Rightarrow> int \<times> 'a fs_state_scheme" where
  "rw_memory rw minor buf count f s =
     (if minor = 0 then (rw_ram, s)
      else if minor = 1 then (rw_mem, s)
      else if minor = 2 then (rw_kmem, s)
      else if minor = 3 then (if rw = READ then 0 else count, s)
      else if minor = 4 then rw_port rw buf count f s
      else (- EIO, s))"

definition rw_char ::
  "(('a fs_state_scheme) tty_ops) \<Rightarrow> int \<Rightarrow> u16 \<Rightarrow> u32 \<Rightarrow> int \<Rightarrow> nat \<Rightarrow> 'a fs_state_scheme \<Rightarrow>
   (int, 'a fs_state_scheme) outcome" where
  "rw_char tty rw dev buf count f s =
     (if MAJOR dev = 1 then case rw_memory rw (MINOR dev) buf count f s of (r, s) \<Rightarrow> Done r s
      else if MAJOR dev = 4 then rw_ttyx tty rw (int (MINOR dev)) buf count s
      else if MAJOR dev = 5 then rw_tty tty rw buf count s
      else Done (- ENODEV) s)"


subsection \<open>Seeking, reading and writing\<close>

text \<open>The file behind a descriptor of the running task.\<close>

definition fd_file :: "u32 \<Rightarrow> 'a fs_state_scheme \<Rightarrow> nat option" where
  "fd_file fd s = (if of_nat NR_OPEN \<le> fd then None else t_filp (cur s) (unat fd))"

definition IS_SEEKABLE :: "nat \<Rightarrow> bool" where
  "IS_SEEKABLE x \<longleftrightarrow> 1 \<le> x \<and> x \<le> 3"

definition sys_lseek ::
  "u32 \<Rightarrow> int \<Rightarrow> int \<Rightarrow> 'a fs_state_scheme \<Rightarrow> int \<times> 'a fs_state_scheme" where
  "sys_lseek fd offset origin s =
     (case fd_file fd s of
        None \<Rightarrow> (- EBADF, s)
      | Some f \<Rightarrow>
          (case f_inode (file_table s f) of
             None \<Rightarrow> (- EBADF, s)
           | Some i \<Rightarrow>
               if \<not> IS_SEEKABLE (MAJOR (i_dev (inode_table s i))) then (- EBADF, s)
               else if i_pipe (inode_table s i) \<noteq> 0 then (- ESPIPE, s)
               else let pos = f_pos (file_table s f);
                        new = (if origin = 0 then Some offset
                               else if origin = 1 then Some (wrap32 (pos + offset))
                               else if origin = 2 then Some (wrap32 (uint (i_size (inode_table s i)) + offset))
                               else None)
                    in case new of
                         None \<Rightarrow> (- EINVAL, s)
                       | Some p \<Rightarrow> if p < 0 then (- EINVAL, s)
                                   else (p, upd_file f (\<lambda>x. x\<lparr>f_pos := p\<rparr>) s)))"

definition sys_read ::
  "(('a fs_state_scheme) tty_ops) \<Rightarrow> ('a fs_state_scheme) env \<Rightarrow> u32 \<Rightarrow> u32 \<Rightarrow> int \<Rightarrow> 'a fs_state_scheme \<Rightarrow>
   (int, 'a fs_state_scheme) outcome" where
  "sys_read tty e fd buf count s =
     (case fd_file fd s of
        None \<Rightarrow> Done (- EINVAL) s
      | Some f \<Rightarrow>
          if count < 0 then Done (- EINVAL) s
          else if count = 0 then Done 0 s
          else kbind (verify_area buf count s) (\<lambda>_ s.
               case f_inode (file_table s f) of
                 None \<Rightarrow> Stop Undefined s
               | Some i \<Rightarrow>
                   let m = inode_table s i
                   in if i_pipe m \<noteq> 0
                      then if f_mode (file_table s f) AND 1 \<noteq> 0 then read_pipe e i buf count s else Done (- EIO) s
                      else if S_ISCHR (i_mode m) then rw_char tty READ (i_zone m 0) buf count f s
                      else if S_ISBLK (i_mode m) then block_read e (i_zone m 0) f buf count s
                      else if S_ISDIR (i_mode m) \<or> S_ISREG (i_mode m)
                      then let pos = f_pos (file_table s f);
                               count = (if i_size m < of_int (count + pos)
                                        then sint (i_size m - of_int pos) else count)
                           in if count \<le> 0 then Done 0 s else file_read e i f buf count s
                      else Done (- EINVAL) (printk ''(Read)inode->i_mode=%06o'' s)))"

definition sys_write ::
  "(('a fs_state_scheme) tty_ops) \<Rightarrow> ('a fs_state_scheme) env \<Rightarrow> u32 \<Rightarrow> u32 \<Rightarrow> int \<Rightarrow> 'a fs_state_scheme \<Rightarrow>
   (int, 'a fs_state_scheme) outcome" where
  "sys_write tty e fd buf count s =
     (case fd_file fd s of
        None \<Rightarrow> Done (- EINVAL) s
      | Some f \<Rightarrow>
          if count < 0 then Done (- EINVAL) s
          else if count = 0 then Done 0 s
          else case f_inode (file_table s f) of
                 None \<Rightarrow> Stop Undefined s
               | Some i \<Rightarrow>
                   let m = inode_table s i
                   in if i_pipe m \<noteq> 0
                      then if f_mode (file_table s f) AND 2 \<noteq> 0 then write_pipe e i buf count s else Done (- EIO) s
                      else if S_ISCHR (i_mode m) then rw_char tty WRITE (i_zone m 0) buf count f s
                      else if S_ISBLK (i_mode m) then block_write e (i_zone m 0) f buf count s
                      else if S_ISREG (i_mode m) then file_write e i f buf count s
                      else Done (- EINVAL) (printk ''(Write)inode->i_mode=%06o'' s))"


subsection \<open>Descriptors\<close>

definition clear_cloexec :: "nat \<Rightarrow> task_struct \<Rightarrow> task_struct" where
  "clear_cloexec fd t = t\<lparr>t_close_on_exec := t_close_on_exec t AND NOT (push_bit fd 1)\<rparr>"

definition sys_close ::
  "('a fs_state_scheme) env \<Rightarrow> u32 \<Rightarrow> 'a fs_state_scheme \<Rightarrow> (int, 'a fs_state_scheme) outcome" where
  "sys_close e fd s =
     (if of_nat NR_OPEN \<le> fd then Done (- EINVAL) s
      else let s = upd_cur (clear_cloexec (unat fd)) s
           in case t_filp (cur s) (unat fd) of
                None \<Rightarrow> Done (- EINVAL) s
              | Some f \<Rightarrow>
                  let s = upd_cur (set_filp (unat fd) None) s
                  in if f_count (file_table s f) = 0 then Stop (Panic ''Close: file count is 0'') s
                     else let s = upd_file f (\<lambda>x. x\<lparr>f_count := f_count x - 1\<rparr>) s
                          in if f_count (file_table s f) \<noteq> 0 then Done 0 s
                             else kbind (iput e (f_inode (file_table s f)) s) (\<lambda>_ s. Done 0 s))"

text \<open>The search for a free descriptor from \<open>arg\<close> on.\<close>

definition free_fd :: "nat \<Rightarrow> 'a fs_state_scheme \<Rightarrow> nat option" where
  "free_fd arg s = find (\<lambda>i. t_filp (cur s) i = None) [arg..<NR_OPEN]"

definition dupfd :: "u32 \<Rightarrow> u32 \<Rightarrow> 'a fs_state_scheme \<Rightarrow> int \<times> 'a fs_state_scheme" where
  "dupfd fd arg s =
     (case fd_file fd s of
        None \<Rightarrow> (- EBADF, s)
      | Some f \<Rightarrow>
          if of_nat NR_OPEN \<le> arg then (- EINVAL, s)
          else case free_fd (unat arg) s of
                 None \<Rightarrow> (- EMFILE, s)
               | Some a \<Rightarrow>
                   (int a, upd_file f (\<lambda>x. x\<lparr>f_count := f_count x + 1\<rparr>)
                             (upd_cur (set_filp a (Some f)) (upd_cur (clear_cloexec a) s))))"

definition sys_dup2 ::
  "('a fs_state_scheme) env \<Rightarrow> u32 \<Rightarrow> u32 \<Rightarrow> 'a fs_state_scheme \<Rightarrow> (int, 'a fs_state_scheme) outcome" where
  "sys_dup2 e oldfd newfd s =
     kbind (sys_close e newfd s) (\<lambda>_ s. case dupfd oldfd newfd s of (r, s) \<Rightarrow> Done r s)"

definition sys_dup :: "u32 \<Rightarrow> 'a fs_state_scheme \<Rightarrow> int \<times> 'a fs_state_scheme" where
  "sys_dup fildes s = dupfd fildes 0 s"

definition sys_fcntl :: "u32 \<Rightarrow> u32 \<Rightarrow> u32 \<Rightarrow> 'a fs_state_scheme \<Rightarrow> int \<times> 'a fs_state_scheme" where
  "sys_fcntl fd cmd arg s =
     (case fd_file fd s of
        None \<Rightarrow> (- EBADF, s)
      | Some f \<Rightarrow>
          if cmd = F_DUPFD then dupfd fd arg s
          else if cmd = F_GETFD
          then (uint (drop_bit (unat fd) (t_close_on_exec (cur s)) AND 1), s)
          else if cmd = F_SETFD
          then (0, if arg AND 1 \<noteq> 0
                   then upd_cur (\<lambda>t. t\<lparr>t_close_on_exec := t_close_on_exec t OR push_bit (unat fd) 1\<rparr>) s
                   else upd_cur (clear_cloexec (unat fd)) s)
          else if cmd = F_GETFL then (uint (f_flags (file_table s f)), s)
          else if cmd = F_SETFL
          then (0, upd_file f (\<lambda>x. x\<lparr>f_flags :=
                     (f_flags x AND NOT (of_int (O_APPEND OR O_NONBLOCK))) OR
                     (ucast arg AND of_int (O_APPEND OR O_NONBLOCK))\<rparr>) s)
          else (- 1, s))"


subsection \<open>Status and control\<close>

text \<open>
  \<^verbatim>\<open>struct stat\<close> as 32 bytes. The compiler leaves gaps after the two one-byte members and
  before \<^verbatim>\<open>st_size\<close>; \<open>stack\<close> are the bytes that happen to be there.
\<close>

definition stat_bytes :: "(nat \<Rightarrow> u8) \<Rightarrow> m_inode \<Rightarrow> u8 list" where
  "stat_bytes stack m =
     (let d = put_u16 0 (i_dev m) (put_u16 2 (i_num m) (put_u16 4 (i_mode m) stack));
          d = d(6 := i_nlinks m);
          d = (put_u16 8 (i_uid m) d)(10 := i_gid m);
          d = put_u16 12 (i_zone m 0) d;
          d = put_u32 16 (i_size m) (put_u32 20 (i_atime m) d);
          d = put_u32 24 (i_mtime m) (put_u32 28 (i_ctime m) d)
      in map d [0..<32])"

definition cp_stat ::
  "(nat \<Rightarrow> u8) \<Rightarrow> nat \<Rightarrow> u32 \<Rightarrow> 'a fs_state_scheme \<Rightarrow> (unit, 'a fs_state_scheme) outcome" where
  "cp_stat stack i statbuf s =
     kbind (verify_area statbuf 32 s) (\<lambda>_ s.
     Done () (put_fs_bytes (stat_bytes stack (inode_table s i)) statbuf s))"

definition sys_fstat ::
  "(nat \<Rightarrow> u8) \<Rightarrow> u32 \<Rightarrow> u32 \<Rightarrow> 'a fs_state_scheme \<Rightarrow> (int, 'a fs_state_scheme) outcome" where
  "sys_fstat stack fd statbuf s =
     (case fd_file fd s of
        None \<Rightarrow> Done (- EBADF) s
      | Some f \<Rightarrow>
          (case f_inode (file_table s f) of
             None \<Rightarrow> Done (- EBADF) s
           | Some i \<Rightarrow> kbind (cp_stat stack i statbuf s) (\<lambda>_ s. Done 0 s)))"

definition sys_ioctl ::
  "(('a fs_state_scheme) tty_ops) \<Rightarrow> u32 \<Rightarrow> u32 \<Rightarrow> u32 \<Rightarrow> 'a fs_state_scheme \<Rightarrow>
   (int, 'a fs_state_scheme) outcome" where
  "sys_ioctl tty fd cmd arg s =
     (case fd_file fd s of
        None \<Rightarrow> Done (- EBADF) s
      | Some f \<Rightarrow>
          (case f_inode (file_table s f) of
             None \<Rightarrow> Stop Undefined s
           | Some i \<Rightarrow>
               let mode = i_mode (inode_table s i); dev = i_zone (inode_table s i) 0
               in if \<not> S_ISCHR mode \<and> \<not> S_ISBLK mode then Done (- EINVAL) s
                  else if 8 \<le> MAJOR dev then Done (- ENODEV) s
                  else if MAJOR dev \<noteq> 4 \<and> MAJOR dev \<noteq> 5 then Done (- ENOTTY) s
                  else tty_ioctl tty dev cmd arg s))"

end
