(* ===== verification/File_Contents.thy ===== *)
theory File_Contents
  imports File_Rw
begin

text \<open>
  A regular file as a sequence of bytes: with its blocks in the cache, \<open>file_write\<close> replaces a range of the sequence by
  the user's bytes, and \<open>file_read\<close> copies a range to the user; the system calls \<^verbatim>\<open>write\<close>, \<^verbatim>\<open>lseek\<close> and \<^verbatim>\<open>read\<close> compose.
\<close>


subsection \<open>The bytes of a file\<close>

definition block_buf :: "'a fs_state_scheme \<Rightarrow> nat \<Rightarrow> nat \<Rightarrow> nat" where
  "block_buf s i j = the (find_buffer (i_dev (inode_table s i)) (ucast (i_zone (inode_table s i) j)) s)"

definition file_byte :: "'a fs_state_scheme \<Rightarrow> nat \<Rightarrow> nat \<Rightarrow> u8" where
  "file_byte s i k = b_data s (block_buf s i (k div 1024)) (k mod 1024)"

text \<open>The first \<open>N\<close> blocks are direct ones, present, each with a number of its own, and in the cache.\<close>

definition file_direct :: "'a fs_state_scheme \<Rightarrow> nat \<Rightarrow> nat \<Rightarrow> bool" where
  "file_direct s i N \<longleftrightarrow> N \<le> 7 \<and> wait_head s Wait_Buffer_Free = 0 \<and>
     (\<forall>j<N. let m = inode_table s i in
        i_zone m j \<noteq> 0 \<and> ready s (i_dev m) (ucast (i_zone m j)) \<and> (\<forall>l<N. i_zone m l = i_zone m j \<longrightarrow> l = j))"

lemma zone_word: "(ucast z :: u32) = ucast z' \<longleftrightarrow> z = (z' :: u16)"
proof
  assume "(ucast z :: u32) = ucast z'"
  moreover have "x = ucast (ucast x :: u32)" for x :: u16 by (rule bit_word_eqI) (simp add: bit_simps)
  ultimately show "z = z'" by metis
qed simp

lemma file_block_facts:
  assumes "file_direct s i N" "j < N"
  defines "blk \<equiv> ucast (i_zone (inode_table s i) j) :: u32" and "dev \<equiv> i_dev (inode_table s i)"
  shows "blk \<noteq> 0" "find_buffer dev blk s = Some (block_buf s i j)" "ready s dev blk"
    "create_block e i (int j) s = Done blk s" "bmap e i (int j) s = Done blk s"
proof -
  have z: "i_zone (inode_table s i) j \<noteq> 0" "j < 7" "wait_head s Wait_Buffer_Free = 0" using assms(1,2) by (auto simp: file_direct_def Let_def)
  show "blk \<noteq> 0" using z(1) zone_word [of "i_zone (inode_table s i) j" 0] by (simp add: blk_def)
  show r: "ready s dev blk" using assms(1,2) by (auto simp: file_direct_def Let_def blk_def dev_def)
  show "find_buffer dev blk s = Some (block_buf s i j)" using r by (auto simp: ready_def block_buf_def blk_def dev_def split: option.splits)
  show "create_block e i (int j) s = Done blk s" using z by (simp add: create_block_def do_bmap_def claim_zone_def blk_def)
  show "bmap e i (int j) s = Done blk s" using z bmap_cached [of s i j e] by (simp add: index_blocks_def file_block_def blk_def)
qed

lemma block_buf_inj:
  assumes "file_direct s i N" "j < N" "l < N" "block_buf s i j = block_buf s i l"
  shows "j = l"
proof -
  have key: "b_blocknr (buffers s (block_buf s i h)) = ucast (i_zone (inode_table s i) h)" if "h < N" for h
    using file_block_facts(2) [OF assms(1) that] find_in_chain_key unfolding find_buffer_def by blast
  then have "i_zone (inode_table s i) j = i_zone (inode_table s i) l" using key [OF assms(2)] key [OF assms(3)] assms(4) by (simp add: zone_word)
  then show ?thesis using assms(1-3) by (auto simp: file_direct_def Let_def)
qed


subsection \<open>Moving bytes\<close>

lemma unat_minus_Suc: "a \<noteq> (buf :: u32) \<Longrightarrow> unat (a - buf) = Suc (unat (a - (buf + 1)))"
proof -
  assume "a \<noteq> buf"
  then have "a - buf \<noteq> 0" by simp
  then have pos: "0 < unat (a - buf)" by (simp add: unat_gt_0)
  then have "unat (a - buf - 1) = unat (a - buf) - unat (1 :: u32)" by (intro unat_sub) (simp add: word_le_nat_alt)
  moreover have "a - buf - 1 = a - (buf + 1)" by simp
  ultimately show ?thesis using pos by simp
qed

lemma buffer_to_user_eq:
  "n \<le> 2 ^ 32 \<Longrightarrow> buffer_to_user n b off buf s =
    s\<lparr>fs_mem := (\<lambda>a. if unat (a - buf) < n then b_data s b (off + unat (a - buf)) else fs_mem s a)\<rparr>"
proof (induction n arbitrary: off buf s)
  case (Suc n)
  have "(\<lambda>a. if unat (a - (buf + 1)) < n then b_data s b (off + 1 + unat (a - (buf + 1))) else ((fs_mem s)(buf := b_data s b off)) a) =
      (\<lambda>a. if unat (a - buf) < Suc n then b_data s b (off + unat (a - buf)) else fs_mem s a)"
  proof
    fix a
    show "(if unat (a - (buf + 1)) < n then b_data s b (off + 1 + unat (a - (buf + 1))) else ((fs_mem s)(buf := b_data s b off)) a) =
      (if unat (a - buf) < Suc n then b_data s b (off + unat (a - buf)) else fs_mem s a)"
    proof (cases "a = buf")
      case True
      have "unat (buf - (buf + 1)) = 2 ^ 32 - 1" by (simp add: unsigned_minus_1_eq_mask mask_eq_exp_minus_1)
      then show ?thesis using True Suc.prems by simp
    qed (simp add: unat_minus_Suc)
  qed
  then show ?case using Suc by (simp add: put_fs_byte_def cong: if_cong)
qed simp

lemma buffer_from_user_eq:
  "buffer_from_user n b off buf s =
    upd_data b (\<lambda>d x. if off \<le> x \<and> x < off + n then fs_mem s (buf + of_nat (x - off)) else d x) s"
proof (induction n arbitrary: off buf s)
  case (Suc n)
  have "(\<lambda>x. if off + 1 \<le> x \<and> x < off + 1 + n then fs_mem s (buf + 1 + of_nat (x - (off + 1))) else (d(off := fs_mem s buf)) x) =
      (\<lambda>x. if off \<le> x \<and> x < off + Suc n then fs_mem s (buf + of_nat (x - off)) else d x)" for d
  proof
    fix x
    have "of_nat (x - off) = 1 + (of_nat (x - (off + 1)) :: u32)" if "off < x"
      using that by (metis Suc_diff_Suc Suc_eq_plus1_left of_nat_Suc Suc_eq_plus1)
    then show "(if off + 1 \<le> x \<and> x < off + 1 + n then fs_mem s (buf + 1 + of_nat (x - (off + 1))) else (d(off := fs_mem s buf)) x) =
      (if off \<le> x \<and> x < off + Suc n then fs_mem s (buf + of_nat (x - off)) else d x)"
      by (cases "x = off") (auto simp: add.assoc)
  qed
  then show ?case using Suc [of "off + 1" "buf + 1"] by (simp add: upd_data_def get_fs_byte_def cong: if_cong)
next
  case 0
  have "(\<lambda>d x. if off \<le> x \<and> x < off + 0 then fs_mem s (buf + of_nat (x - off)) else d x) = (\<lambda>d. d)" by (auto simp: fun_eq_iff)
  then show ?case by (simp only: buffer_from_user.simps upd_data_def) simp
qed


subsection \<open>Writing\<close>

text \<open>\<open>m\<close> bytes of the user at \<open>buf\<close> have been written at \<open>p\<close>; \<open>t\<close> is the state after it. What the system calls look at before
  they come to the bytes is the same.\<close>

definition same_open :: "nat \<Rightarrow> 'a fs_state_scheme \<Rightarrow> 'a fs_state_scheme \<Rightarrow> bool" where
  "same_open i s t \<longleftrightarrow> tasks t = tasks s \<and> task t = task s \<and> current t = current s \<and> i_mode (inode_table t i) = i_mode (inode_table s i) \<and>
     i_pipe (inode_table t i) = i_pipe (inode_table s i) \<and> i_dev (inode_table t i) = i_dev (inode_table s i)"

definition wrote :: "nat \<Rightarrow> nat \<Rightarrow> nat \<Rightarrow> nat \<Rightarrow> u32 \<Rightarrow> 'a fs_state_scheme \<Rightarrow> 'a fs_state_scheme \<Rightarrow> bool" where
  "wrote i N p m buf s t \<longleftrightarrow> file_direct t i N \<and> fs_mem t = fs_mem s \<and> phys t = phys s \<and> file_table t = file_table s \<and> same_open i s t \<and>
     (\<forall>k<1024 * N. file_byte t i k = (if p \<le> k \<and> k < p + m then fs_mem s (buf + of_nat (k - p)) else file_byte s i k)) \<and>
     unat (i_size (inode_table t i)) = (if m = 0 then unat (i_size (inode_table s i)) else max (unat (i_size (inode_table s i))) (p + m))"

lemma find_buffer_cong:
  assumes "\<And>b. b_dev (buffers t b) = b_dev (buffers s b) \<and> b_blocknr (buffers t b) = b_blocknr (buffers s b) \<and> b_next (buffers t b) = b_next (buffers s b)"
    "hash_table t = hash_table s" "nr_buffers t = nr_buffers s"
  shows "find_buffer dev blk t = find_buffer dev blk s"
proof -
  have "find_in_chain n (buffers t) dev blk tmp = find_in_chain n (buffers s) dev blk tmp" for n tmp
    by (induction n arbitrary: tmp) (auto simp: assms(1) split: option.splits)
  then show ?thesis by (simp add: find_buffer_def assms(2,3))
qed

text \<open>One iteration: the bytes go to one block.\<close>

definition put_chunk :: "nat \<Rightarrow> nat \<Rightarrow> nat \<Rightarrow> nat \<Rightarrow> u32 \<Rightarrow> 'a fs_state_scheme \<Rightarrow> 'a fs_state_scheme" where
  "put_chunk i b p c buf s =
     (let off = p mod 1024;
          s = upd_buf b (\<lambda>h. h\<lparr>b_dirt := 1\<rparr>) s;
          s = (if i_size (inode_table s i) < of_nat (p + c) then upd_inode i (\<lambda>m. m\<lparr>i_size := of_nat (p + c), i_dirt := 1\<rparr>) s else s)
      in upd_data b (\<lambda>d x. if off \<le> x \<and> x < off + c then fs_mem s (buf + of_nat (x - off)) else d x) s)"

lemma put_chunk_fields:
  "fs_mem (put_chunk i b p c buf s) = fs_mem s" "file_table (put_chunk i b p c buf s) = file_table s"
  "hash_table (put_chunk i b p c buf s) = hash_table s" "nr_buffers (put_chunk i b p c buf s) = nr_buffers s"
  "wait_head (put_chunk i b p c buf s) = wait_head s" "i_zone (inode_table (put_chunk i b p c buf s) i) = i_zone (inode_table s i)"
  "i_dev (inode_table (put_chunk i b p c buf s) i) = i_dev (inode_table s i)"
  "buffers (put_chunk i b p c buf s) = (buffers s)(b := (buffers s b)\<lparr>b_dirt := 1\<rparr>)"
  "b_data (put_chunk i b p c buf s) = (b_data s)(b := (\<lambda>x. if p mod 1024 \<le> x \<and> x < p mod 1024 + c then fs_mem s (buf + of_nat (x - p mod 1024)) else b_data s b x))"
  "i_size (inode_table (put_chunk i b p c buf s) i) = (if i_size (inode_table s i) < of_nat (p + c) then of_nat (p + c) else i_size (inode_table s i))"
  "same_open i s (put_chunk i b p c buf s)" "phys (put_chunk i b p c buf s) = phys s"
  by (simp_all add: put_chunk_def Let_def upd_data_def upd_inode_def upd_buf_def same_open_def cong: if_cong)

lemma put_chunk_find: "find_buffer dev blk (put_chunk i b p c buf s) = find_buffer dev blk s"
  by (rule find_buffer_cong) (simp_all add: put_chunk_fields)

lemma put_chunk_ready: "ready (put_chunk i b p c buf s) dev blk = ready s dev blk"
  by (simp add: ready_def put_chunk_find put_chunk_fields split: option.split)

lemma put_chunk_wrote:
  assumes "file_direct s i N" "p div 1024 < N" "p mod 1024 + c \<le> 1024" "0 < c"
  shows "wrote i N p c buf s (put_chunk i (block_buf s i (p div 1024)) p c buf s)"
proof -
  let ?b = "block_buf s i (p div 1024)"
  let ?t = "put_chunk i ?b p c buf s"
  have buf: "block_buf ?t i j = block_buf s i j" for j by (simp add: block_buf_def put_chunk_find put_chunk_fields)
  have "file_byte ?t i k = (if p \<le> k \<and> k < p + c then fs_mem s (buf + of_nat (k - p)) else file_byte s i k)" if "k < 1024 * N" for k
  proof -
    have kN: "k div 1024 < N" using that by (simp add: less_mult_imp_div_less mult.commute)
    show ?thesis
    proof (cases "k div 1024 = p div 1024")
      case True
      have e: "k = 1024 * (p div 1024) + k mod 1024" "p = 1024 * (p div 1024) + p mod 1024" using True by (metis mult_div_mod_eq)+
      then have "(p mod 1024 \<le> k mod 1024 \<and> k mod 1024 < p mod 1024 + c) = (p \<le> k \<and> k < p + c)" "p mod 1024 \<le> k mod 1024 \<Longrightarrow> k mod 1024 - p mod 1024 = k - p"
        by linarith+
      then show ?thesis using True by (auto simp: file_byte_def buf put_chunk_fields simp del: of_nat_diff)
    next
      case False
      then have "block_buf s i (k div 1024) \<noteq> ?b" using block_buf_inj [OF assms(1) kN assms(2)] by blast
      moreover have "\<not> (p \<le> k \<and> k < p + c)"
      proof
        assume r: "p \<le> k \<and> k < p + c"
        have "p div 1024 \<le> k div 1024" using r by (simp add: div_le_mono)
        moreover have "k < 1024 * (p div 1024) + 1024" using r assms(3) mult_div_mod_eq [of 1024 p] by linarith
        then have "k div 1024 \<le> p div 1024" by (simp add: less_Suc_eq_le [symmetric] less_mult_imp_div_less)
        ultimately show False using False by simp
      qed
      ultimately show ?thesis by (auto simp: file_byte_def buf put_chunk_fields)
    qed
  qed
  moreover have "file_direct ?t i N" using assms(1) by (simp add: file_direct_def put_chunk_ready put_chunk_fields Let_def)
  moreover have "p + c < 2 ^ 32"
  proof -
    have "N \<le> 7" using assms(1) by (simp add: file_direct_def)
    then show ?thesis using assms(2,3) mult_div_mod_eq [of 1024 p] by simp
  qed
  then have "unat (of_nat (p + c) :: u32) = p + c" unfolding unat_of_nat by simp
  then have "unat (i_size (inode_table ?t i)) = max (unat (i_size (inode_table s i))) (p + c)"
    using word_less_nat_alt [of "i_size (inode_table s i)" "of_nat (p + c)"] by (auto simp: put_chunk_fields simp del: of_nat_add)
  ultimately show ?thesis using assms(4) by (simp add: wrote_def put_chunk_fields)
qed

text \<open>Two ranges that meet.\<close>

lemma wrote_append:
  assumes "wrote i N p c buf s t" "wrote i N (p + c) m (buf + of_nat c) t u" "0 < c"
  shows "wrote i N p (c + m) buf s u"
proof -
  have "buf + of_nat c + of_nat (k - (p + c)) = buf + of_nat (k - p)" if "p + c \<le> k" for k
  proof -
    have "k - p = c + (k - (p + c))" using that by simp
    then show ?thesis by (simp only: of_nat_add add.assoc)
  qed
  note a = this
  have "file_byte u i k = (if p \<le> k \<and> k < p + (c + m) then fs_mem s (buf + of_nat (k - p)) else file_byte s i k)" if "k < 1024 * N" for k
    using assms(1,2) that by (auto simp: wrote_def a simp del: of_nat_diff)
  moreover have "same_open i s u" using assms(1,2) by (auto simp: wrote_def same_open_def)
  ultimately show ?thesis using assms by (auto simp: wrote_def)
qed

lemma held_commute:
  "upd_buf b (\<lambda>h. h\<lparr>b_dirt := 1\<rparr>) (upd_buf b (\<lambda>h. h\<lparr>b_count := b_count h + 1\<rparr>) s) =
     upd_buf b (\<lambda>h. h\<lparr>b_count := b_count h + 1\<rparr>) (upd_buf b (\<lambda>h. h\<lparr>b_dirt := 1\<rparr>) s)"
  "upd_inode i f (upd_buf b g s) = upd_buf b g (upd_inode i f s)" "upd_data b' h (upd_buf b g s) = upd_buf b g (upd_data b' h s)"
  by (cases "buffers s b", simp_all add: upd_buf_def upd_inode_def upd_data_def)

lemma fs_mem_upd: "fs_mem (upd_buf b g s) = fs_mem s" "fs_mem (upd_inode i f s) = fs_mem s"
  by (simp_all add: upd_buf_def upd_inode_def)

lemma write_iteration:
  fixes buf :: u32
  assumes f: "file_direct s i N" "p div 1024 < N" and c: "c = min (1024 - p mod 1024) todo" "0 < todo"
  defines "t \<equiv> put_chunk i (block_buf s i (p div 1024)) p c buf s"
  shows "file_write_loop (Suc n) e i (int p) buf todo s = file_write_loop n e i (int (p + c)) (buf + of_nat c) (todo - c) t"
proof -
  let ?b = "block_buf s i (p div 1024)" and ?m = "inode_table s i"
  note b = file_block_facts [OF f]
  have d: "int p div int BLOCK_SIZE = int (p div 1024)" "nat (int p mod int BLOCK_SIZE) = p mod 1024"
    unfolding BLOCK_SIZE_def by (metis zdiv_int) (metis nat_int zmod_int)
  have rd: "bread e (i_dev ?m) (ucast (i_zone ?m (p div 1024))) s = Done (Some ?b) (upd_buf ?b (\<lambda>h. h\<lparr>b_count := b_count h + 1\<rparr>) s)"
    by (rule bread_ready [OF b(2,3)])
  have "find_buffer (i_dev ?m) (ucast (i_zone ?m (p div 1024))) t = Some ?b" "ready t (i_dev ?m) (ucast (i_zone ?m (p div 1024)))"
    "wait_head t Wait_Buffer_Free = 0"
    using b(2,3) f(1) by (simp_all add: t_def put_chunk_find put_chunk_ready put_chunk_fields file_direct_def)
  then have rel: "brelse e (Some ?b) (upd_buf ?b (\<lambda>h. h\<lparr>b_count := b_count h + 1\<rparr>) t) = Done () t" by (rule brelse_ready)
  let ?r = "upd_buf ?b (\<lambda>h. h\<lparr>b_dirt := 1\<rparr>) (upd_buf ?b (\<lambda>h. h\<lparr>b_count := b_count h + 1\<rparr>) s)"
  have "buffer_from_user c ?b (p mod 1024) buf
      (if i_size (inode_table ?r i) < of_int (int p + int c) then upd_inode i (\<lambda>m. m\<lparr>i_size := of_int (int p + int c), i_dirt := 1\<rparr>) ?r else ?r) =
    upd_buf ?b (\<lambda>h. h\<lparr>b_count := b_count h + 1\<rparr>) t"
    unfolding held_commute(1) by (simp add: t_def put_chunk_def Let_def buffer_from_user_eq held_commute(2,3) fs_mem_upd cong: if_cong)
  moreover have "min (BLOCK_SIZE - p mod 1024) todo = c" using c(1) by (simp add: BLOCK_SIZE_def)
  ultimately show ?thesis using c(2) b(1,4) rd rel
    by (cases "i_size (inode_table s i) < of_int (int p + int c)") (simp_all add: d Let_def)
qed

lemma file_write_loop_wrote:
  "file_direct s i N \<Longrightarrow> p + todo \<le> 1024 * N \<Longrightarrow> todo < n \<Longrightarrow>
    \<exists>t. file_write_loop n e i (int p) buf todo s = Done (int (p + todo), 0) t \<and> wrote i N p todo buf s t"
proof (induction n arbitrary: p buf todo s)
  case (Suc n)
  show ?case
  proof (cases "todo = 0")
    case True
    then show ?thesis using Suc.prems(1) by (auto simp: wrote_def same_open_def)
  next
    case False
    define c where "c = min (1024 - p mod 1024) todo"
    have pN: "p div 1024 < N" using Suc.prems(2) False by (simp add: less_mult_imp_div_less mult.commute)
    have "p mod 1024 < 1024" by simp
    then have c: "0 < c" "c \<le> todo" "p mod 1024 + c \<le> 1024" using False by (auto simp: c_def)
    let ?t = "put_chunk i (block_buf s i (p div 1024)) p c buf s"
    have w: "wrote i N p c buf s ?t" by (rule put_chunk_wrote [OF Suc.prems(1) pN c(3,1)])
    then have "file_direct ?t i N" by (simp add: wrote_def)
    moreover have "p + c + (todo - c) \<le> 1024 * N" "todo - c < n" using Suc.prems(2,3) c(1,2) by linarith+
    ultimately obtain u where u: "file_write_loop n e i (int (p + c)) (buf + of_nat c) (todo - c) ?t = Done (int (p + c + (todo - c)), 0) u"
      "wrote i N (p + c) (todo - c) (buf + of_nat c) ?t u" using Suc.IH by blast
    have "file_write_loop (Suc n) e i (int p) buf todo s = Done (int (p + todo), 0) u"
      using write_iteration [OF Suc.prems(1) pN c_def, of n e buf] False u(1) c(2) by simp
    moreover have "wrote i N p todo buf s u" using wrote_append [OF w u(2) c(1)] c(2) by simp
    ultimately show ?thesis by blast
  qed
qed simp


lemma file_write_wrote:
  assumes "file_direct s i N" "f_pos (file_table s f) = int p" "\<not> appends (file_table s f)" "p + m \<le> 1024 * N" "0 < m"
  shows "\<exists>t u. file_write e i f buf (int m) s = Done (int m) t \<and> wrote i N p m buf s u \<and> buffers t = buffers u \<and> hash_table t = hash_table u \<and>
    nr_buffers t = nr_buffers u \<and> b_data t = b_data u \<and> wait_head t = wait_head u \<and> fs_mem t = fs_mem u \<and>
    i_zone (inode_table t i) = i_zone (inode_table u i) \<and> i_dev (inode_table t i) = i_dev (inode_table u i) \<and>
    i_size (inode_table t i) = i_size (inode_table u i) \<and> file_table t = (file_table s)(f := (file_table s f)\<lparr>f_pos := int (p + m)\<rparr>) \<and> same_open i s t \<and> phys t = phys s"
proof -
  obtain u where u: "file_write_loop (Suc m) e i (int p) buf m s = Done (int (p + m), 0) u" "wrote i N p m buf s u"
    using file_write_loop_wrote [OF assms(1,4), of "Suc m" e buf] by auto
  then have ft: "file_table u = file_table s" "same_open i s u" "phys u = phys s" by (simp_all add: wrote_def)
  let ?v = "upd_inode i (\<lambda>x. x\<lparr>i_mtime := CURRENT_SECONDS u\<rparr>) u"
  let ?t = "upd_inode i (\<lambda>x. x\<lparr>i_ctime := CURRENT_SECONDS ?v\<rparr>) (upd_file f (\<lambda>x. x\<lparr>f_pos := int (p + m)\<rparr>) ?v)"
  have "file_write e i f buf (int m) s = Done (int m) ?t"
    using u(1) assms(2,3,5) ft by (simp add: file_write_def Let_def upd_inode_def)
  note w = this
  show ?thesis by (rule exI [of _ ?t], rule exI [of _ u]) (simp add: w u(2), use ft in \<open>simp add: upd_inode_def upd_file_def same_open_def\<close>)
qed


subsection \<open>Reading\<close>

definition got :: "nat \<Rightarrow> nat \<Rightarrow> nat \<Rightarrow> nat \<Rightarrow> u32 \<Rightarrow> 'a fs_state_scheme \<Rightarrow> 'a fs_state_scheme" where
  "got i f p m buf s =
     (upd_file f (\<lambda>x. x\<lparr>f_pos := int (p + m)\<rparr>) s)
       \<lparr>fs_mem := (\<lambda>a. if unat (a - buf) < m then file_byte s i (p + unat (a - buf)) else fs_mem s a)\<rparr>"

lemma got_fields:
  "buffers (got i f p m buf s) = buffers s" "b_data (got i f p m buf s) = b_data s" "hash_table (got i f p m buf s) = hash_table s"
  "nr_buffers (got i f p m buf s) = nr_buffers s" "wait_head (got i f p m buf s) = wait_head s" "inode_table (got i f p m buf s) = inode_table s"
  by (simp_all add: got_def upd_file_def)

lemma same_view:
  assumes "buffers t = buffers s" "b_data t = b_data s" "hash_table t = hash_table s" "nr_buffers t = nr_buffers s" "wait_head t = wait_head s"
    "i_zone (inode_table t i) = i_zone (inode_table s i)" "i_dev (inode_table t i) = i_dev (inode_table s i)"
  shows "file_byte t i k = file_byte s i k" "file_direct t i N = file_direct s i N" "find_buffer dev blk t = find_buffer dev blk s" "ready t dev blk = ready s dev blk"
proof -
  show f: "find_buffer dev blk t = find_buffer dev blk s" for dev blk by (rule find_buffer_cong) (simp_all add: assms)
  show r: "ready t dev blk = ready s dev blk" for dev blk by (simp add: ready_def f assms cong: option.case_cong)
  show "file_byte t i k = file_byte s i k" by (simp add: file_byte_def block_buf_def f assms)
  show "file_direct t i N = file_direct s i N" by (simp add: file_direct_def r assms Let_def)
qed

lemmas got_view = same_view [of "got i f p m buf s" s, OF got_fields(1-5) arg_cong [where f = "\<lambda>x. i_zone (x i)", OF got_fields(6)]
    arg_cong [where f = "\<lambda>x. i_dev (x i)", OF got_fields(6)]] for i f p m buf s

lemma window:
  assumes "c \<le> n" "n < 2 ^ 31"
  shows "c \<le> unat d \<Longrightarrow> unat (d - of_nat c :: u32) = unat d - c" "unat d < c \<Longrightarrow> n - c \<le> unat (d - of_nat c)"
proof -
  have c: "unat (of_nat c :: u32) = c" unfolding unat_of_nat using assms by simp
  show "c \<le> unat d \<Longrightarrow> unat (d - of_nat c :: u32) = unat d - c" "unat d < c \<Longrightarrow> n - c \<le> unat (d - of_nat c)"
    using assms by (simp_all add: unat_sub_if_size word_size c)
qed

lemma got_append:
  assumes "c \<le> m" "m < 2 ^ 31"
  shows "got i f (p + c) (m - c) (buf + of_nat c) (got i f p c buf s) = got i f p m buf s"
proof -
  have "(if unat (a - (buf + of_nat c)) < m - c then file_byte s i (p + c + unat (a - (buf + of_nat c)))
      else if unat (a - buf) < c then file_byte s i (p + unat (a - buf)) else fs_mem s a) =
     (if unat (a - buf) < m then file_byte s i (p + unat (a - buf)) else fs_mem s a)" for a
  proof -
    have e: "a - (buf + of_nat c) = (a - buf) - of_nat c" by simp
    show ?thesis unfolding e using window [OF assms, of "a - buf"] assms(1) by (cases "c \<le> unat (a - buf)") auto
  qed
  note w = this
  show ?thesis
    unfolding got_def [of i f "p + c"] got_view by (simp add: got_def upd_file_def w assms(1) cong: if_cong)
qed

lemma read_iteration:
  fixes buf :: u32
  assumes d: "file_direct s i N" "p div 1024 < N" and f: "f_pos (file_table s f) = int p" and c: "c = min (1024 - p mod 1024) m" "0 < m"
  shows "file_read_loop (Suc n) e i f buf m s = file_read_loop n e i f (buf + of_nat c) (m - c) (got i f p c buf s)"
proof -
  let ?b = "block_buf s i (p div 1024)" and ?m = "inode_table s i" and ?t = "got i f p c buf s"
  note b = file_block_facts [OF d]
  have div: "int p div int BLOCK_SIZE = int (p div 1024)" "nat (int p mod int BLOCK_SIZE) = p mod 1024"
    unfolding BLOCK_SIZE_def by (metis zdiv_int) (metis nat_int zmod_int)
  have rd: "bread e (i_dev ?m) (ucast (i_zone ?m (p div 1024))) s = Done (Some ?b) (upd_buf ?b (\<lambda>h. h\<lparr>b_count := b_count h + 1\<rparr>) s)"
    by (rule bread_ready [OF b(2,3)])
  have "find_buffer (i_dev ?m) (ucast (i_zone ?m (p div 1024))) ?t = Some ?b" "ready ?t (i_dev ?m) (ucast (i_zone ?m (p div 1024)))"
    "wait_head ?t Wait_Buffer_Free = 0"
    using b(2,3) d(1) by (simp_all add: got_view got_fields file_direct_def)
  then have rel: "brelse e (Some ?b) (upd_buf ?b (\<lambda>h. h\<lparr>b_count := b_count h + 1\<rparr>) ?t) = Done () ?t" by (rule brelse_ready)
  have "p mod 1024 < 1024" by simp
  then have cs: "c \<le> 1024" "p mod 1024 + c \<le> 1024" using c(1) by auto
  have byte: "file_byte s i (p + k) = b_data s ?b (p mod 1024 + k)" if "k < c" for k
  proof -
    have "p + k = 1024 * (p div 1024) + (p mod 1024 + k)" by simp
    moreover have "p mod 1024 + k < 1024" using that cs(2) by simp
    ultimately have "(p + k) div 1024 = p div 1024" "(p + k) mod 1024 = p mod 1024 + k" by (metis div_mult_self4 div_less add.right_neutral zero_neq_numeral, metis mod_mult_self4 mod_less)
    then show ?thesis by (simp add: file_byte_def)
  qed
  have copy: "buffer_to_user c ?b (p mod 1024) buf (upd_file f (\<lambda>x. x\<lparr>f_pos := f_pos x + int c\<rparr>) (upd_buf ?b (\<lambda>h. h\<lparr>b_count := b_count h + 1\<rparr>) s)) =
    upd_buf ?b (\<lambda>h. h\<lparr>b_count := b_count h + 1\<rparr>) ?t"
    using cs(1) f by (simp add: buffer_to_user_eq got_def byte upd_file_def upd_buf_def cong: if_cong)
  have chars: "min (BLOCK_SIZE - p mod 1024) m = c" using c(1) by (simp add: BLOCK_SIZE_def)
  have keep: "file_table (upd_buf ?b g s) = file_table s" for g by (simp add: upd_buf_def)
  show ?thesis using c(2) b(1,5) by (simp add: f div rd Let_def keep chars copy rel)
qed

lemma file_read_loop_got:
  "file_direct s i N \<Longrightarrow> f_pos (file_table s f) = int p \<Longrightarrow> p + m \<le> 1024 * N \<Longrightarrow> m < n \<Longrightarrow>
    file_read_loop n e i f buf m s = Done 0 (got i f p m buf s)"
proof (induction n arbitrary: p buf m s)
  case (Suc n)
  show ?case
  proof (cases "m = 0")
    case True
    have "(file_table s f)\<lparr>f_pos := int p\<rparr> = file_table s f" using Suc.prems(2) by (cases "file_table s f") simp
    then have "(file_table s)(f := (file_table s f)\<lparr>f_pos := int p\<rparr>) = file_table s" by (simp only: fun_upd_triv)
    then show ?thesis using True by (simp add: got_def upd_file_def)
  next
    case False
    define c where "c = min (1024 - p mod 1024) m"
    have N: "N \<le> 7" "p div 1024 < N" using Suc.prems(1,3) False by (simp_all add: file_direct_def less_mult_imp_div_less mult.commute)
    have "p mod 1024 < 1024" by simp
    then have c: "0 < c" "c \<le> m" "m < 2 ^ 31" using False Suc.prems(3) N(1) by (auto simp: c_def)
    let ?t = "got i f p c buf s"
    have "file_read_loop n e i f (buf + of_nat c) (m - c) ?t = Done 0 (got i f (p + c) (m - c) (buf + of_nat c) ?t)"
    proof (rule Suc.IH)
      show "file_direct ?t i N" using Suc.prems(1) by (simp add: got_view)
      show "f_pos (file_table ?t f) = int (p + c)" by (simp add: got_def upd_file_def)
      show "p + c + (m - c) \<le> 1024 * N" "m - c < n" using Suc.prems(3,4) c(1,2) by linarith+
    qed
    then show ?thesis
      using read_iteration [OF Suc.prems(1) N(2) Suc.prems(2) c_def, of n e buf] False got_append [OF c(2,3), of i f p buf s] by simp
  qed
qed simp

lemma file_read_got:
  assumes "file_direct s i N" "f_pos (file_table s f) = int p" "p + m \<le> 1024 * N" "0 < m"
  shows "\<exists>t. file_read e i f buf (int m) s = Done (int m) t \<and> (\<forall>k. file_byte t i k = file_byte s i k) \<and>
    fs_mem t = (\<lambda>a. if unat (a - buf) < m then file_byte s i (p + unat (a - buf)) else fs_mem s a)"
proof -
  let ?g = "got i f p m buf s"
  let ?t = "upd_inode i (\<lambda>x. x\<lparr>i_atime := CURRENT_SECONDS ?g\<rparr>) ?g"
  have "file_read e i f buf (int m) s = Done (int m) ?t"
    using assms(4) file_read_loop_got [OF assms(1-3), of "Suc m" e buf] by (simp add: file_read_def Let_def del: file_read_loop.simps)
  moreover have "file_byte ?t i k = file_byte ?g i k" for k by (rule same_view) (simp_all add: upd_inode_def)
  moreover have "fs_mem ?t = (\<lambda>a. if unat (a - buf) < m then file_byte s i (p + unat (a - buf)) else fs_mem s a)"
    by (simp add: got_def upd_inode_def)
  ultimately show ?thesis by (auto simp: got_view)
qed


subsection \<open>What was written is read back\<close>

text \<open>A read of the range just written, in a state with the same view of the file.\<close>

lemma read_back:
  assumes "wrote i N p m buf s v" "p + m \<le> 1024 * N" "0 < m"
    and view: "buffers w = buffers v" "b_data w = b_data v" "hash_table w = hash_table v" "nr_buffers w = nr_buffers v"
      "wait_head w = wait_head v" "i_zone (inode_table w i) = i_zone (inode_table v i)" "i_dev (inode_table w i) = i_dev (inode_table v i)"
    and w: "f_pos (file_table w f) = int p" "fs_mem w = fs_mem v"
  shows "\<exists>u. file_read e i f buf2 (int m) w = Done (int m) u \<and>
    fs_mem u = (\<lambda>a. if unat (a - buf2) < m then fs_mem s (buf + (a - buf2)) else fs_mem s a) \<and>
    (\<forall>k<1024 * N. k \<notin> {p..<p + m} \<longrightarrow> file_byte u i k = file_byte s i k)"
proof -
  have v: "file_direct v i N" "fs_mem v = fs_mem s"
    "k < 1024 * N \<Longrightarrow> file_byte v i k = (if p \<le> k \<and> k < p + m then fs_mem s (buf + of_nat (k - p)) else file_byte s i k)" for k
    using assms(1) by (auto simp: wrote_def)
  have "file_direct w i N" using v(1) same_view(2) [OF view] by simp
  then obtain u where u: "file_read e i f buf2 (int m) w = Done (int m) u" "file_byte u i k = file_byte w i k"
    "fs_mem u = (\<lambda>a. if unat (a - buf2) < m then file_byte w i (p + unat (a - buf2)) else fs_mem w a)" for k
    using file_read_got [OF _ w(1) assms(2,3), of i e buf2] by blast
  have "file_byte w i (p + unat (a - buf2)) = fs_mem s (buf + (a - buf2))" if "unat (a - buf2) < m" for a
    using that assms(2) v(3) [of "p + unat (a - buf2)"] same_view(1) [OF view] by simp
  then have "fs_mem u = (\<lambda>a. if unat (a - buf2) < m then fs_mem s (buf + (a - buf2)) else fs_mem s a)"
    using u(3) w(2) v(2) by (simp cong: if_cong)
  moreover have "file_byte u i k = file_byte s i k" if "k < 1024 * N" "k \<notin> {p..<p + m}" for k
    using that u(2) v(3) [of k] same_view(1) [OF view] by auto
  ultimately show ?thesis using u(1) by auto
qed

text \<open>The system calls come to these functions.\<close>

lemma verify_area_fs:
  assumes "verify_area a n s = Done r t"
  shows "same_open i s t" "buffers t = buffers s" "b_data t = b_data s" "hash_table t = hash_table s" "nr_buffers t = nr_buffers s"
    "wait_head t = wait_head s" "inode_table t = inode_table s" "file_table t = file_table s" "fs_mem t = fs_mem s"
proof -
  have "ensures (verify_area a n s) (\<lambda>_ t. mm_state.more t = mm_state.more s)"
    unfolding verify_area_def Let_def by (rule verify_pages_more)
  then have "mm_state.more t = mm_state.more s" using assms by simp
  then show "same_open i s t" "buffers t = buffers s" "b_data t = b_data s" "hash_table t = hash_table s" "nr_buffers t = nr_buffers s"
    "wait_head t = wait_head s" "inode_table t = inode_table s" "file_table t = file_table s" "fs_mem t = fs_mem s"
    by (cases s, cases t, simp add: same_open_def)+
qed

lemma same_open_fd: "same_open i s t \<Longrightarrow> fd_file fd t = fd_file fd s"
  by (simp add: same_open_def fd_file_def)

definition open_file :: "u32 \<Rightarrow> nat \<Rightarrow> nat \<Rightarrow> 'a fs_state_scheme \<Rightarrow> bool" where
  "open_file fd f i s \<longleftrightarrow> fd_file fd s = Some f \<and> f_inode (file_table s f) = Some i \<and> i_pipe (inode_table s i) = 0 \<and>
     S_ISREG (i_mode (inode_table s i)) \<and> IS_SEEKABLE (MAJOR (i_dev (inode_table s i)))"

lemma open_file_same:
  "same_open i s t \<Longrightarrow> f_inode (file_table t f) = f_inode (file_table s f) \<Longrightarrow> open_file fd f i t = open_file fd f i s"
  using same_open_fd [of i s t fd] by (simp add: open_file_def) (simp add: same_open_def)

lemma regular_kind: "S_ISREG m \<Longrightarrow> \<not> S_ISCHR m \<and> \<not> S_ISBLK m \<and> \<not> S_ISDIR m"
  by (simp add: S_ISREG_def S_ISCHR_def S_ISBLK_def S_ISDIR_def S_IFREG_def S_IFCHR_def S_IFBLK_def S_IFDIR_def)

lemma file_calls:
  assumes "open_file fd f i s"
  shows "0 < m \<Longrightarrow> sys_write tty e fd buf (int m) s = file_write e i f buf (int m) s"
    "sys_lseek fd (int p) 0 s = (int p, upd_file f (\<lambda>x. x\<lparr>f_pos := int p\<rparr>) s)"
    "0 < m \<Longrightarrow> f_pos (file_table s f) = int p \<Longrightarrow> p + m \<le> unat (i_size (inode_table s i)) \<Longrightarrow> verify_area buf (int m) s = Done () v \<Longrightarrow>
       sys_read tty e fd buf (int m) s = file_read e i f buf (int m) v"
proof -
  note o = assms [unfolded open_file_def]
  show "0 < m \<Longrightarrow> sys_write tty e fd buf (int m) s = file_write e i f buf (int m) s"
    using o regular_kind [of "i_mode (inode_table s i)"] by (simp add: sys_write_def Let_def)
  show "sys_lseek fd (int p) 0 s = (int p, upd_file f (\<lambda>x. x\<lparr>f_pos := int p\<rparr>) s)"
    using o by (simp add: sys_lseek_def Let_def)
  assume r: "0 < m" "f_pos (file_table s f) = int p" "p + m \<le> unat (i_size (inode_table s i))" "verify_area buf (int m) s = Done () v"
  have "p + m < 2 ^ 32" using r(3) unsigned_less [of "i_size (inode_table s i)", where 'a = nat] by simp
  then have "unat (of_nat (m + p) :: u32) = m + p" unfolding unat_of_nat by simp
  moreover have "(of_int (int m + int p) :: u32) = of_nat (m + p)" by simp
  ultimately have "unat (of_int (int m + int p) :: u32) = m + p" by simp
  then have "\<not> i_size (inode_table s i) < of_int (int m + int p)" using r(3) by (simp add: word_less_nat_alt)
  then show "sys_read tty e fd buf (int m) s = file_read e i f buf (int m) v"
    using o r regular_kind [of "i_mode (inode_table s i)"] verify_area_fs [OF r(4)] by (simp add: sys_read_def Let_def)
qed

text \<open>
  C21: For an open regular file that is not in append mode and whose first \<open>N\<close> blocks are direct, distinct and in the cache, and any
  position and length inside them, the system call \<^verbatim>\<open>write\<close> writes all \<open>m\<close> bytes, advances the position by \<open>m\<close> and makes the size the
  maximum of the old one and the end of the range; it does not touch the page tables. After \<^verbatim>\<open>lseek\<close> back to the start of the range, \<^verbatim>\<open>read\<close> (where the pages of the
  user's buffer can be made writable) returns \<open>m\<close> and gives the user exactly those bytes, whatever block boundaries lie between them,
  touching no other byte of the user; the other bytes of the file are unchanged.
\<close>

theorem file_write_then_read:
  assumes "open_file fd f i s" "file_direct s i N" "f_pos (file_table s f) = int p" "\<not> appends (file_table s f)" "p + m \<le> 1024 * N" "0 < m"
  shows "\<exists>t. sys_write tty e fd buf (int m) s = Done (int m) t \<and> f_pos (file_table t f) = int (p + m) \<and> phys t = phys s \<and>
    unat (i_size (inode_table t i)) = max (unat (i_size (inode_table s i))) (p + m) \<and>
    (let (pos, w) = sys_lseek fd (int p) 0 t
     in pos = int p \<and> (\<forall>v. verify_area buf2 (int m) w = Done () v \<longrightarrow>
       (\<exists>u. sys_read tty e fd buf2 (int m) w = Done (int m) u \<and>
         fs_mem u = (\<lambda>a. if unat (a - buf2) < m then fs_mem s (buf + (a - buf2)) else fs_mem s a) \<and>
         (\<forall>k<1024 * N. k \<notin> {p..<p + m} \<longrightarrow> file_byte u i k = file_byte s i k))))"
proof -
  obtain t u0 where t: "file_write e i f buf (int m) s = Done (int m) t" "wrote i N p m buf s u0" "buffers t = buffers u0"
    "hash_table t = hash_table u0" "nr_buffers t = nr_buffers u0" "b_data t = b_data u0" "wait_head t = wait_head u0" "fs_mem t = fs_mem u0"
    "i_zone (inode_table t i) = i_zone (inode_table u0 i)" "i_dev (inode_table t i) = i_dev (inode_table u0 i)"
    "i_size (inode_table t i) = i_size (inode_table u0 i)" "file_table t = (file_table s)(f := (file_table s f)\<lparr>f_pos := int (p + m)\<rparr>)"
    "same_open i s t" "phys t = phys s"
    using file_write_wrote [OF assms(2-6), of e buf] by blast
  have size: "unat (i_size (inode_table t i)) = max (unat (i_size (inode_table s i))) (p + m)"
    using t(2,11) assms(6) by (simp add: wrote_def)
  let ?w = "upd_file f (\<lambda>x. x\<lparr>f_pos := int p\<rparr>) t"
  have o: "open_file fd f i t" using open_file_same [OF t(13)] t(12) assms(1) by simp
  have ow: "open_file fd f i ?w" using o by (auto simp: open_file_def fd_file_def upd_file_def split: if_splits)
  have read: "\<exists>u. sys_read tty e fd buf2 (int m) ?w = Done (int m) u \<and>
       fs_mem u = (\<lambda>a. if unat (a - buf2) < m then fs_mem s (buf + (a - buf2)) else fs_mem s a) \<and>
       (\<forall>k<1024 * N. k \<notin> {p..<p + m} \<longrightarrow> file_byte u i k = file_byte s i k)" if v: "verify_area buf2 (int m) ?w = Done () v" for v
  proof -
    note vf = verify_area_fs [OF v]
    have "sys_read tty e fd buf2 (int m) ?w = file_read e i f buf2 (int m) v"
      using file_calls(3) [OF ow assms(6) _ _ v] size by (simp add: upd_file_def)
    moreover have "\<exists>u. file_read e i f buf2 (int m) v = Done (int m) u \<and>
       fs_mem u = (\<lambda>a. if unat (a - buf2) < m then fs_mem s (buf + (a - buf2)) else fs_mem s a) \<and>
       (\<forall>k<1024 * N. k \<notin> {p..<p + m} \<longrightarrow> file_byte u i k = file_byte s i k)"
      by (rule read_back [OF t(2) assms(5,6)]) (use vf t(3-10) in \<open>simp_all add: upd_file_def\<close>)
    ultimately show ?thesis by simp
  qed
  show ?thesis
    by (rule exI [of _ t]) (use t(1,12,14) size read in \<open>auto simp: file_calls(1) [OF assms(1,6)] file_calls(2) [OF o]\<close>)
qed

definition demo_tty :: "fs_state tty_ops" where
  "demo_tty = \<lparr>tty_read = (\<lambda>_ _ _ s. Done 0 s), tty_write = (\<lambda>_ _ _ s. Done 0 s), tty_ioctl = (\<lambda>_ _ _ s. Done 0 s)\<rparr>"

definition demo_file :: fs_state where
  "demo_file = demo_fs
     \<lparr>phys := (\<lambda>_. 0), tasks := (\<lambda>_. (INIT_TASK 0x1000)\<lparr>t_filp := (\<lambda>_. None)(3 := Some 0)\<rparr>),
      buffers := (buffers demo_fs)(1 := (blank_buffer 1)\<lparr>b_dev := 0x101, b_blocknr := 40, b_uptodate := 1\<rparr>),
      hash_table := (\<lambda>_. Some 1), b_data := (\<lambda>_ _. 0), wait_head := (\<lambda>_. 0), fs_mem := (\<lambda>_. 0)(100 := 97, 101 := 98),
      inode_table := (\<lambda>_. zero_inode\<lparr>i_mode := S_IFREG, i_dev := 0x101, i_zone := (\<lambda>_. 0)(0 := 40), i_size := 0\<rparr>),
      file_table := (\<lambda>f. (file_table demo_fs f)\<lparr>f_flags := 0, f_inode := Some 0, f_pos := 3\<rparr>)\<rparr>"

lemma demo_file_direct: "file_direct demo_file 0 1"
proof -
  have nb: "buffers demo_file 1 = (blank_buffer 1)\<lparr>b_dev := 0x101, b_blocknr := 40, b_uptodate := 1\<rparr>" by (simp add: demo_file_def)
  have "find_buffer 0x101 40 demo_file = Some 1"
    unfolding find_buffer_def find_in_chain.simps by (simp add: nb) (simp add: demo_file_def)
  then have "ready demo_file 0x101 40" by (simp add: ready_def nb [simplified] blank_buffer_def)
  moreover have "inode_table demo_file 0 = zero_inode\<lparr>i_mode := S_IFREG, i_dev := 0x101, i_zone := (\<lambda>_. 0)(0 := 40), i_size := 0\<rparr>" "wait_head demo_file Wait_Buffer_Free = 0"
    by (simp_all add: demo_file_def)
  ultimately show ?thesis by (simp add: file_direct_def)
qed

lemma verify_unmapped:
  assumes "phys s = (\<lambda>_. 0)"
  shows "verify_area a n s = Done () s"
proof -
  have w: "write_verify x s = Done () s" for x using assms by (simp add: write_verify_def)
  have "t = s \<Longrightarrow> verify_pages sz st t = Done () s" for sz st t
  proof (induction sz st t rule: verify_pages.induct)
    case (1 sz st t)
    then show ?case by (subst verify_pages.simps) (simp add: w)
  qed
  then show ?thesis by (simp add: verify_area_def Let_def)
qed

theorem file_write_then_read_witness:
  "\<exists>t u. sys_write demo_tty demo_env 3 100 2 demo_file = Done 2 t \<and> i_size (inode_table t 0) = 5 \<and>
     sys_read demo_tty demo_env 3 200 2 (snd (sys_lseek 3 3 0 t)) = Done 2 u \<and> fs_mem u 200 = 97 \<and> fs_mem u 201 = 98"
proof -
  have "open_file 3 0 0 demo_file"
    by (simp add: open_file_def fd_file_def demo_file_def NR_OPEN_def S_ISREG_def S_IFREG_def S_IFMT_def IS_SEEKABLE_def MAJOR_def zero_inode_def)
  note h = this demo_file_direct
  have h': "f_pos (file_table demo_file 0) = int 3" "\<not> appends (file_table demo_file 0)" "3 + 2 \<le> 1024 * (1 :: nat)" "0 < (2 :: nat)"
    by (simp_all add: demo_file_def appends_def)
  have z: "unat (i_size (inode_table demo_file 0)) = 0" "fs_mem demo_file 100 = 97" "fs_mem demo_file 101 = 98" "phys demo_file = (\<lambda>_. 0)"
    by (simp_all add: demo_file_def)
  obtain t where t: "sys_write demo_tty demo_env 3 100 (int 2) demo_file = Done (int 2) t" "phys t = phys demo_file"
    "unat (i_size (inode_table t 0)) = max (unat (i_size (inode_table demo_file 0))) (3 + 2)"
    "let (pos, w) = sys_lseek 3 (int 3) 0 t
     in pos = int 3 \<and> (\<forall>v. verify_area 200 (int 2) w = Done () v \<longrightarrow>
       (\<exists>u. sys_read demo_tty demo_env 3 200 (int 2) w = Done (int 2) u \<and>
         fs_mem u = (\<lambda>a. if unat (a - 200) < 2 then fs_mem demo_file (100 + (a - 200)) else fs_mem demo_file a) \<and>
         (\<forall>k<1024 * 1. k \<notin> {3..<3 + 2} \<longrightarrow> file_byte u 0 k = file_byte demo_file 0 k)))"
    using file_write_then_read [OF h h', of demo_tty demo_env 100 200] by blast
  let ?w = "snd (sys_lseek 3 3 0 t)"
  have "phys ?w = phys t" by (simp add: sys_lseek_def Let_def upd_file_def split: option.split)
  then have "verify_area 200 2 ?w = Done () ?w" using t(2) z(4) by (intro verify_unmapped) simp
  then obtain u where u: "sys_read demo_tty demo_env 3 200 2 ?w = Done 2 u"
    "fs_mem u = (\<lambda>a. if unat (a - 200) < 2 then fs_mem demo_file (100 + (a - 200)) else fs_mem demo_file a)"
    using t(4) by (auto simp: Let_def split: prod.splits)
  have "i_size (inode_table t 0) = 5" using t(3) z(1) by (simp add: word_unat_eq_iff)
  moreover have "fs_mem u 200 = 97" "fs_mem u 201 = 98" using z(2,3) by (simp_all add: u(2))
  ultimately show ?thesis using t(1) u(1) by auto
qed

end
