(* ===== verification/Namei.thy ===== *)
theory Namei
  imports File_Rw
begin

text \<open>
  Path names and directories, \<^verbatim>\<open>fs/namei.c\<close>: permissions, directory entries, walking a path,
  and the system calls that create and remove names. A directory entry is its buffer
  and its number in the buffer; names are addresses in the user's memory. \<open>patience\<close> also
  bounds the length of a path.
\<close>


subsection \<open>Permissions\<close>

definition MAY_EXEC :: int where "MAY_EXEC = 1"
definition MAY_WRITE :: int where "MAY_WRITE = 2"
definition MAY_READ :: int where "MAY_READ = 4"

lemmas may_defs = MAY_EXEC_def MAY_WRITE_def MAY_READ_def

text \<open>\<^verbatim>\<open>"\004\002\006\377"[(x)&O_ACCMODE]\<close>; a \<^verbatim>\<open>char\<close> is signed.\<close>

definition ACC_MODE :: "int \<Rightarrow> int" where
  "ACC_MODE x =
     (let k = x AND O_ACCMODE in if k = 0 then 4 else if k = 1 then 2 else if k = 2 then 6 else - 1)"

definition permission :: "nat \<Rightarrow> int \<Rightarrow> 'a fs_state_scheme \<Rightarrow> bool" where
  "permission i want s =
     (let m = inode_table s i;
          mode = uint (i_mode m);
          mode = (if unat (t_euid (cur s)) = unat (i_uid m) then drop_bit 6 mode
                  else if unat (t_egid (cur s)) = unat (i_gid m) then drop_bit 3 mode else mode)
      in if i_dev m \<noteq> 0 \<and> i_nlinks m = 0 then False
         else mode AND want AND 7 = want \<or> suser s)"


subsection \<open>Directory entries\<close>

definition DIR_ENTRIES_PER_BLOCK :: nat where
  "DIR_ENTRIES_PER_BLOCK = BLOCK_SIZE div 16"

text \<open>Entry \<open>k\<close> of a block: two bytes of inode number, 14 bytes of name.\<close>

definition de_inode :: "(nat \<Rightarrow> u8) \<Rightarrow> nat \<Rightarrow> u16" where
  "de_inode d k = u16_at d (16 * k)"

definition de_name :: "(nat \<Rightarrow> u8) \<Rightarrow> nat \<Rightarrow> nat \<Rightarrow> u8" where
  "de_name d k j = d (16 * k + 2 + j)"

definition set_de_inode :: "nat \<Rightarrow> nat \<Rightarrow> u16 \<Rightarrow> 'a fs_state_scheme \<Rightarrow> 'a fs_state_scheme" where
  "set_de_inode b k v s = upd_data b (put_u16 (16 * k) v) s"

text \<open>\<^verbatim>\<open>repe cmpsb\<close> compares \<open>len\<close> bytes; the callers never pass a length of 0.\<close>

definition match :: "nat \<Rightarrow> u32 \<Rightarrow> nat \<Rightarrow> nat \<Rightarrow> 'a fs_state_scheme \<Rightarrow> bool" where
  "match len name b k s =
     (if de_inode (b_data s b) k = 0 \<or> NAME_LEN < len then False
      else if len < NAME_LEN \<and> de_name (b_data s b) k len \<noteq> 0 then False
      else list_all (\<lambda>j. get_fs_byte (name + of_nat j) s = de_name (b_data s b) k j) [0..<len])"

text \<open>
  The loop of \<^verbatim>\<open>find_entry\<close>: entry number \<open>i\<close> of the directory is entry \<open>k\<close> of buffer \<open>bh\<close>.
  After a block could not be read \<^verbatim>\<open>bh\<close> is \<^verbatim>\<open>NULL\<close>, and the next iteration reads \<^verbatim>\<open>bh->b_data\<close>.
\<close>

primrec find_entry_loop ::
  "nat \<Rightarrow> ('a fs_state_scheme) env \<Rightarrow> nat \<Rightarrow> u32 \<Rightarrow> nat \<Rightarrow> nat \<Rightarrow> nat \<Rightarrow> nat option \<Rightarrow> nat \<Rightarrow>
   'a fs_state_scheme \<Rightarrow> ((nat \<times> nat) option, 'a fs_state_scheme) outcome" where
  "find_entry_loop 0 e dir name len entries i bh k s = Stop Looping s"
| "find_entry_loop (Suc n) e dir name len entries i bh k s =
     (if entries \<le> i then kbind (brelse e bh s) (\<lambda>_ s. Done None s)
      else case bh of
             None \<Rightarrow> Stop Undefined s
           | Some b \<Rightarrow>
               if DIR_ENTRIES_PER_BLOCK \<le> k
               then kbind (brelse e bh s) (\<lambda>_ s.
                    kbind (bmap e dir (int (i div DIR_ENTRIES_PER_BLOCK)) s) (\<lambda>block s.
                    kbind (if block = 0 then Done None s
                           else bread e (i_dev (inode_table s dir)) block s) (\<lambda>bh s.
                    case bh of
                      None \<Rightarrow> find_entry_loop n e dir name len entries (i + DIR_ENTRIES_PER_BLOCK) None k s
                    | Some b \<Rightarrow>
                        if match len name b 0 s then Done (Some (b, 0)) s
                        else find_entry_loop n e dir name len entries (i + 1) bh 1 s)))
               else if match len name b k s then Done (Some (b, k)) s
               else find_entry_loop n e dir name len entries (i + 1) bh (k + 1) s)"

text \<open>The treatment of \<^verbatim>\<open>..\<close>: the length of the name and the directory that are searched.\<close>

definition dot_dot ::
  "('a fs_state_scheme) env \<Rightarrow> nat \<Rightarrow> u32 \<Rightarrow> nat \<Rightarrow> 'a fs_state_scheme \<Rightarrow>
   (nat \<times> nat, 'a fs_state_scheme) outcome" where
  "dot_dot e dir name len s =
     (if len = 2 \<and> get_fs_byte name s = 46 \<and> get_fs_byte (name + 1) s = 46
      then if Some dir = t_root (cur s) then Done (1, dir) s
           else if i_num (inode_table s dir) = ROOT_INO
           then kbind (get_super e (i_dev (inode_table s dir)) s) (\<lambda>sb s.
                case sb of
                  None \<Rightarrow> Stop Undefined s
                | Some p \<Rightarrow>
                    (case s_imount (super_table s p) of
                       None \<Rightarrow> Done (len, dir) s
                     | Some mnt \<Rightarrow>
                         kbind (iput e (Some dir) s) (\<lambda>_ s.
                         case s_imount (super_table s p) of
                           None \<Rightarrow> Stop Undefined s
                         | Some mnt \<Rightarrow>
                             Done (len, mnt) (upd_inode mnt (\<lambda>m. m\<lparr>i_count := i_count m + 1\<rparr>) s))))
           else Done (len, dir) s
      else Done (len, dir) s)"

text \<open>The result is the entry, if there is one, and the directory, which \<^verbatim>\<open>..\<close> may have changed.\<close>

definition find_entry ::
  "('a fs_state_scheme) env \<Rightarrow> nat \<Rightarrow> u32 \<Rightarrow> nat \<Rightarrow> 'a fs_state_scheme \<Rightarrow>
   ((nat \<times> nat) option \<times> nat, 'a fs_state_scheme) outcome" where
  "find_entry e dir name namelen s =
     (let len = min namelen NAME_LEN;
          entries = unat (i_size (inode_table s dir)) div 16
      in if len = 0 then Done (None, dir) s
         else kbind (dot_dot e dir name len s) (\<lambda>(len, dir) s.
              if i_zone (inode_table s dir) 0 = 0 then Done (None, dir) s
              else kbind (bread e (i_dev (inode_table s dir)) (ucast (i_zone (inode_table s dir) 0)) s) (\<lambda>bh s.
                   if bh = None then Done (None, dir) s
                   else kbind (find_entry_loop (Suc entries) e dir name len entries 0 bh 0 s) (\<lambda>r s.
                        Done (r, dir) s))))"

text \<open>The name of a new entry, padded with zeros.\<close>

definition put_name :: "nat \<Rightarrow> nat \<Rightarrow> u32 \<Rightarrow> nat \<Rightarrow> 'a fs_state_scheme \<Rightarrow> 'a fs_state_scheme" where
  "put_name b k name len s =
     fold (\<lambda>j s. upd_data b (\<lambda>d. d(16 * k + 2 + j :=
              (if j < len then get_fs_byte (name + of_nat j) s else 0))) s) [0..<NAME_LEN] s"

text \<open>
  The body of the loop of \<^verbatim>\<open>add_entry\<close> for an entry that is in a buffer: the directory is
  extended when the entry is beyond its end, and a free entry gets the name.
\<close>

definition try_entry ::
  "nat \<Rightarrow> u32 \<Rightarrow> nat \<Rightarrow> nat \<Rightarrow> nat \<Rightarrow> nat \<Rightarrow> 'a fs_state_scheme \<Rightarrow> bool \<times> 'a fs_state_scheme" where
  "try_entry dir name len i b k s =
     (let s = (if i_size (inode_table s dir) \<le> of_nat (16 * i)
               then upd_inode dir (\<lambda>m. m\<lparr>i_size := of_nat (16 * (i + 1)), i_dirt := 1, i_ctime := CURRENT_SECONDS s\<rparr>)
                      (set_de_inode b k 0 s)
               else s)
      in if de_inode (b_data s b) k = 0
         then (True, upd_buf b (\<lambda>h. h\<lparr>b_dirt := 1\<rparr>)
                 (put_name b k name len (upd_inode dir (\<lambda>m. m\<lparr>i_mtime := CURRENT_SECONDS s\<rparr>) s)))
         else (False, s))"

primrec add_entry_loop ::
  "nat \<Rightarrow> ('a fs_state_scheme) env \<Rightarrow> nat \<Rightarrow> u32 \<Rightarrow> nat \<Rightarrow> nat \<Rightarrow> nat option \<Rightarrow> nat \<Rightarrow>
   'a fs_state_scheme \<Rightarrow> ((nat \<times> nat) option, 'a fs_state_scheme) outcome" where
  "add_entry_loop 0 e dir name len i bh k s = Stop Looping s"
| "add_entry_loop (Suc n) e dir name len i bh k s =
     (case bh of
        None \<Rightarrow> Stop Undefined s
      | Some b \<Rightarrow>
          if DIR_ENTRIES_PER_BLOCK \<le> k
          then kbind (brelse e bh s) (\<lambda>_ s.
               kbind (create_block e dir (int (i div DIR_ENTRIES_PER_BLOCK)) s) (\<lambda>block s.
               if block = 0 then Done None s
               else kbind (bread e (i_dev (inode_table s dir)) block s) (\<lambda>bh s.
                    case bh of
                      None \<Rightarrow> add_entry_loop n e dir name len (i + DIR_ENTRIES_PER_BLOCK) None k s
                    | Some b \<Rightarrow>
                        (case try_entry dir name len i b 0 s of (found, s) \<Rightarrow>
                           if found then Done (Some (b, 0)) s
                           else add_entry_loop n e dir name len (i + 1) bh 1 s))))
          else case try_entry dir name len i b k s of (found, s) \<Rightarrow>
                 if found then Done (Some (b, k)) s
                 else add_entry_loop n e dir name len (i + 1) bh (k + 1) s)"

text \<open>The largest file has \<open>7 + 512 + 512 * 512\<close> blocks of 64 entries; beyond it \<^verbatim>\<open>create_block\<close> panics.\<close>

definition DIR_FUEL :: nat where
  "DIR_FUEL = (7 + 512 + 512 * 512) * 64 + 1"

definition add_entry ::
  "('a fs_state_scheme) env \<Rightarrow> nat \<Rightarrow> u32 \<Rightarrow> nat \<Rightarrow> 'a fs_state_scheme \<Rightarrow>
   ((nat \<times> nat) option, 'a fs_state_scheme) outcome" where
  "add_entry e dir name namelen s =
     (let len = min namelen NAME_LEN
      in if len = 0 \<or> i_zone (inode_table s dir) 0 = 0 then Done None s
         else kbind (bread e (i_dev (inode_table s dir)) (ucast (i_zone (inode_table s dir) 0)) s) (\<lambda>bh s.
              if bh = None then Done None s else add_entry_loop DIR_FUEL e dir name len 0 bh 0 s))"


subsection \<open>Walking a path\<close>

text \<open>
  The bytes of a path component: its length, whether it ended with the string, and
  the address after the byte that ended it.
\<close>

primrec scan_name :: "nat \<Rightarrow> u32 \<Rightarrow> nat \<Rightarrow> 'a sched_state_scheme \<Rightarrow> (nat \<times> bool \<times> u32) option" where
  "scan_name 0 p len s = None"
| "scan_name (Suc n) p len s =
     (let c = get_fs_byte p s
      in if c = 0 then Some (len, True, p + 1)
         else if c = 47 then Some (len, False, p + 1)
         else scan_name n (p + 1) (len + 1) s)"

primrec get_dir_loop ::
  "nat \<Rightarrow> ('a fs_state_scheme) env \<Rightarrow> nat \<Rightarrow> u32 \<Rightarrow> 'a fs_state_scheme \<Rightarrow>
   (nat option, 'a fs_state_scheme) outcome" where
  "get_dir_loop 0 e inode pathname s = Stop Looping s"
| "get_dir_loop (Suc n) e inode pathname s =
     (if \<not> S_ISDIR (i_mode (inode_table s inode)) \<or> \<not> permission inode MAY_EXEC s
      then kbind (iput e (Some inode) s) (\<lambda>_ s. Done None s)
      else case scan_name (Suc (patience e)) pathname 0 s of
             None \<Rightarrow> Stop Looping s
           | Some (namelen, at_end, rest) \<Rightarrow>
               if at_end then Done (Some inode) s
               else kbind (find_entry e inode pathname namelen s) (\<lambda>(r, inode) s.
                    case r of
                      None \<Rightarrow> kbind (iput e (Some inode) s) (\<lambda>_ s. Done None s)
                    | Some (b, k) \<Rightarrow>
                        let inr = de_inode (b_data s b) k; idev = i_dev (inode_table s inode)
                        in kbind (brelse e (Some b) s) (\<lambda>_ s.
                           kbind (iput e (Some inode) s) (\<lambda>_ s.
                           kbind (iget e idev inr s) (\<lambda>inode s. get_dir_loop n e inode rest s)))))"

definition get_dir ::
  "('a fs_state_scheme) env \<Rightarrow> u32 \<Rightarrow> 'a fs_state_scheme \<Rightarrow> (nat option, 'a fs_state_scheme) outcome" where
  "get_dir e pathname s =
     (case t_root (cur s) of
        None \<Rightarrow> Stop (Panic ''No root inode'') s
      | Some root \<Rightarrow>
          if i_count (inode_table s root) = 0 then Stop (Panic ''No root inode'') s
          else case t_pwd (cur s) of
                 None \<Rightarrow> Stop (Panic ''No cwd inode'') s
               | Some pwd \<Rightarrow>
                   if i_count (inode_table s pwd) = 0 then Stop (Panic ''No cwd inode'') s
                   else let c = get_fs_byte pathname s;
                            start = (if c = 47 then root else pwd)
                        in if c = 0 then Done None s
                           else get_dir_loop (Suc (patience e)) e start (if c = 47 then pathname + 1 else pathname)
                                  (upd_inode start (\<lambda>m. m\<lparr>i_count := i_count m + 1\<rparr>) s))"

text \<open>The part of a path behind its last slash: its length and its address.\<close>

primrec scan_base :: "nat \<Rightarrow> u32 \<Rightarrow> u32 \<Rightarrow> 'a sched_state_scheme \<Rightarrow> (nat \<times> u32) option" where
  "scan_base 0 p base s = None"
| "scan_base (Suc n) p base s =
     (let c = get_fs_byte p s
      in if c = 0 then Some (unat (p - base), base)
         else scan_base n (p + 1) (if c = 47 then p + 1 else base) s)"

definition dir_namei ::
  "('a fs_state_scheme) env \<Rightarrow> u32 \<Rightarrow> 'a fs_state_scheme \<Rightarrow>
   ((nat \<times> nat \<times> u32) option, 'a fs_state_scheme) outcome" where
  "dir_namei e pathname s =
     kbind (get_dir e pathname s) (\<lambda>dir s.
     case dir of
       None \<Rightarrow> Done None s
     | Some d \<Rightarrow>
         (case scan_base (Suc (patience e)) pathname pathname s of
            None \<Rightarrow> Stop Looping s
          | Some (namelen, base) \<Rightarrow> Done (Some (d, namelen, base)) s))"

definition namei ::
  "('a fs_state_scheme) env \<Rightarrow> u32 \<Rightarrow> 'a fs_state_scheme \<Rightarrow> (nat option, 'a fs_state_scheme) outcome" where
  "namei e pathname s =
     kbind (dir_namei e pathname s) (\<lambda>r s.
     case r of
       None \<Rightarrow> Done None s
     | Some (dir, namelen, base) \<Rightarrow>
         if namelen = 0 then Done (Some dir) s
         else kbind (find_entry e dir base namelen s) (\<lambda>(r, dir) s.
              case r of
                None \<Rightarrow> kbind (iput e (Some dir) s) (\<lambda>_ s. Done None s)
              | Some (b, k) \<Rightarrow>
                  let inr = de_inode (b_data s b) k; dev = i_dev (inode_table s dir)
                  in kbind (brelse e (Some b) s) (\<lambda>_ s.
                     kbind (iput e (Some dir) s) (\<lambda>_ s.
                     kbind (iget e dev inr s) (\<lambda>i s.
                     Done (Some i) (upd_inode i (\<lambda>m. m\<lparr>i_atime := CURRENT_SECONDS s, i_dirt := 1\<rparr>) s))))))"

end
