(* ===== verification/Directory.thy ===== *)
theory Directory
  imports Namei
begin

text \<open>
  A directory as a list of names: with its blocks in the cache, \<open>find_entry\<close> is the search of that list.
\<close>


subsection \<open>Entries by number\<close>

definition entry_buf :: "'a fs_state_scheme \<Rightarrow> m_inode \<Rightarrow> nat \<Rightarrow> nat" where
  "entry_buf s m i = the (find_buffer (i_dev m) (file_block s m (i div 64)) s)"

definition entry_inode :: "'a fs_state_scheme \<Rightarrow> m_inode \<Rightarrow> nat \<Rightarrow> u16" where
  "entry_inode s m i = de_inode (b_data s (entry_buf s m i)) (i mod 64)"

definition name_of :: "(nat \<Rightarrow> u8) \<Rightarrow> nat \<Rightarrow> u8 list" where
  "name_of d k = takeWhile (\<lambda>x. x \<noteq> 0) (map (de_name d k) [0..<NAME_LEN])"

definition entry_name :: "'a fs_state_scheme \<Rightarrow> m_inode \<Rightarrow> nat \<Rightarrow> u8 list" where
  "entry_name s m i = name_of (b_data s (entry_buf s m i)) (i mod 64)"

definition entry_is :: "'a fs_state_scheme \<Rightarrow> m_inode \<Rightarrow> u8 list \<Rightarrow> nat \<Rightarrow> bool" where
  "entry_is s m w i \<longleftrightarrow> entry_inode s m i \<noteq> 0 \<and> entry_name s m i = w"

text \<open>The directory has no holes, and all of its first \<open>n\<close> entries and the index blocks on the way to them are cached.\<close>

definition dir_cached :: "'a fs_state_scheme \<Rightarrow> nat \<Rightarrow> nat \<Rightarrow> bool" where
  "dir_cached s dir n \<longleftrightarrow> n \<le> 64 * (7 + 512 + 512 * 512) \<and> wait_head s Wait_Buffer_Free = 0 \<and>
     (\<forall>j\<le>(n - 1) div 64. let m = inode_table s dir in
        file_block s m j \<noteq> 0 \<and> ready s (i_dev m) (file_block s m j) \<and> (\<forall>blk\<in>set (index_blocks s m j). blk = 0 \<or> ready s (i_dev m) blk))"

text \<open>A name in the user's memory.\<close>

definition name_at :: "'a sched_state_scheme \<Rightarrow> u32 \<Rightarrow> u8 list \<Rightarrow> bool" where
  "name_at s a w \<longleftrightarrow> (\<forall>j<length w. get_fs_byte (a + of_nat j) s = w ! j) \<and> 0 \<notin> set w"


subsection \<open>Comparing a name\<close>

lemma takeWhile_eq_iff:
  assumes "length w \<le> length xs" "0 \<notin> set w"
  shows "takeWhile (\<lambda>x. x \<noteq> (0 :: u8)) xs = w \<longleftrightarrow> (\<forall>j<length w. xs ! j = w ! j) \<and> (length w < length xs \<longrightarrow> xs ! length w = 0)"
proof
  assume t: "takeWhile (\<lambda>x. x \<noteq> 0) xs = w"
  have "xs ! j = w ! j" if "j < length w" for j using t that takeWhile_nth by metis
  moreover have "xs ! length w = 0" if "length w < length xs" using t that nth_length_takeWhile by fastforce
  ultimately show "(\<forall>j<length w. xs ! j = w ! j) \<and> (length w < length xs \<longrightarrow> xs ! length w = 0)" by blast
next
  assume r: "(\<forall>j<length w. xs ! j = w ! j) \<and> (length w < length xs \<longrightarrow> xs ! length w = 0)"
  then have w: "take (length w) xs = w" using assms(1) by (intro nth_equalityI) auto
  show "takeWhile (\<lambda>x. x \<noteq> 0) xs = w"
  proof (cases "length w < length xs")
    case True
    define ys where "ys = drop (Suc (length w)) xs"
    have x: "xs = w @ 0 # ys" using True r w id_take_nth_drop [of "length w" xs] by (simp add: ys_def)
    have "takeWhile (\<lambda>x. x \<noteq> 0) (w @ 0 # ys) = w @ takeWhile (\<lambda>x. x \<noteq> 0) (0 # ys)"
      by (rule takeWhile_append2) (metis assms(2))
    then show ?thesis unfolding x by simp
  next
    case False
    then have "length xs \<le> length w" by simp
    then have "xs = w" using w by (metis take_all)
    then show ?thesis using assms(2) by (auto simp: takeWhile_eq_all_conv)
  qed
qed

lemma match_iff:
  assumes "name_at s name w" "length w \<le> NAME_LEN"
  shows "match (length w) name b k s \<longleftrightarrow> de_inode (b_data s b) k \<noteq> 0 \<and> name_of (b_data s b) k = w"
proof -
  have w: "\<forall>j<length w. get_fs_byte (name + of_nat j) s = w ! j" "0 \<notin> set w" using assms(1) by (auto simp: name_at_def)
  let ?xs = "map (de_name (b_data s b) k) [0..<NAME_LEN]"
  have "name_of (b_data s b) k = w \<longleftrightarrow>
      (\<forall>j<length w. de_name (b_data s b) k j = w ! j) \<and> (length w < NAME_LEN \<longrightarrow> de_name (b_data s b) k (length w) = 0)"
    using takeWhile_eq_iff [of w ?xs] assms(2) w(2) by (auto simp: name_of_def)
  moreover have "list_all (\<lambda>j. get_fs_byte (name + of_nat j) s = de_name (b_data s b) k j) [0..<length w] \<longleftrightarrow>
      (\<forall>j<length w. de_name (b_data s b) k j = w ! j)"
    using w(1) by (auto simp: list_all_iff)
  ultimately show ?thesis using assms(2) by (auto simp: match_def)
qed


subsection \<open>The search\<close>

abbreviation held :: "nat \<Rightarrow> 'a fs_state_scheme \<Rightarrow> 'a fs_state_scheme" where
  "held b s \<equiv> upd_buf b (\<lambda>h. h\<lparr>b_count := b_count h + 1\<rparr>) s"

lemma match_held: "match len name c k (held b s) = match len name c k s"
  by (simp add: match_def get_fs_byte_def upd_buf_def)

lemma dir_block:
  assumes "dir_cached s dir n" "j \<le> (n - 1) div 64"
  shows "file_block s (inode_table s dir) j \<noteq> 0" "ready s (i_dev (inode_table s dir)) (file_block s (inode_table s dir) j)"
    "find_buffer (i_dev (inode_table s dir)) (file_block s (inode_table s dir) j) s = Some (entry_buf s (inode_table s dir) (64 * j))"
    "bmap e dir (int j) s = Done (file_block s (inode_table s dir) j) s"
proof -
  show f: "file_block s (inode_table s dir) j \<noteq> 0" and r: "ready s (i_dev (inode_table s dir)) (file_block s (inode_table s dir) j)"
    using assms by (auto simp: dir_cached_def Let_def)
  show "find_buffer (i_dev (inode_table s dir)) (file_block s (inode_table s dir) j) s = Some (entry_buf s (inode_table s dir) (64 * j))"
    using r by (auto simp: ready_def entry_buf_def split: option.splits)
  have "n \<le> 64 * (7 + 512 + 512 * 512)" using assms(1) by (simp add: dir_cached_def)
  then have "(n - 1) div 64 \<le> (64 * (7 + 512 + 512 * 512) - 1) div 64" by (intro div_le_mono) simp
  then have "j < 7 + 512 + 512 * 512" using assms(2) by simp
  then show "bmap e dir (int j) s = Done (file_block s (inode_table s dir) j) s"
    using bmap_cached [of s dir j e] assms by (auto simp: dir_cached_def Let_def)
qed

lemma entry_buf_block: "k < 64 \<Longrightarrow> entry_buf s m (64 * j + k) = entry_buf s m (64 * j)"
  by (simp add: entry_buf_def)

definition found :: "'a fs_state_scheme \<Rightarrow> nat \<Rightarrow> nat option \<Rightarrow> ((nat \<times> nat) option, 'a fs_state_scheme) outcome" where
  "found s dir r = (case r of None \<Rightarrow> Done None s
     | Some i \<Rightarrow> let b = entry_buf s (inode_table s dir) i in Done (Some (b, i mod 64)) (held b s))"

lemma find_entry_loop_finds:
  assumes cached: "dir_cached s dir entries" and name: "name_at s name w" "length w \<le> NAME_LEN"
  shows "64 * j + k \<le> entries \<Longrightarrow> k \<le> 64 \<Longrightarrow> j \<le> (entries - 1) div 64 \<Longrightarrow> entries < 64 * j + k + n \<Longrightarrow>
    find_entry_loop n e dir name (length w) entries (64 * j + k) (Some (entry_buf s (inode_table s dir) (64 * j))) k
      (held (entry_buf s (inode_table s dir) (64 * j)) s) =
    found s dir (find (entry_is s (inode_table s dir) w) [64 * j + k..<entries])"
proof (induction n arbitrary: j k)
  case (Suc n)
  let ?m = "inode_table s dir"
  have wh: "wait_head s Wait_Buffer_Free = 0" using cached by (simp add: dir_cached_def)
  note blk = dir_block [OF cached]
  have rel: "brelse e (Some (entry_buf s ?m (64 * j))) (held (entry_buf s ?m (64 * j)) s) = Done () s"
    by (rule brelse_ready [OF blk(3) [OF Suc.prems(3)] blk(2) [OF Suc.prems(3)] wh])
  have hit: "match (length w) name (entry_buf s ?m (64 * l)) h s = entry_is s ?m w (64 * l + h)" if "h < 64" for l h
    using match_iff [OF name] that by (simp add: entry_is_def entry_inode_def entry_name_def entry_buf_block)
  have step: "find (entry_is s ?m w) [i..<entries] = (if entry_is s ?m w i then Some i else find (entry_is s ?m w) [Suc i..<entries])" if "i < entries" for i
    using that by (simp add: upt_conv_Cons)
  show ?case
  proof (cases "entries \<le> 64 * j + k")
    case True
    then show ?thesis using rel by (simp add: found_def)
  next
    case False
    then have less: "64 * j + k < entries" by simp
    show ?thesis
    proof (cases "k = 64")
      case False
      then have k: "k < 64" using Suc.prems(2) by simp
      have "find_entry_loop n e dir name (length w) entries (64 * j + Suc k) (Some (entry_buf s ?m (64 * j))) (Suc k) (held (entry_buf s ?m (64 * j)) s) =
          found s dir (find (entry_is s ?m w) [64 * j + Suc k..<entries])"
        by (rule Suc.IH) (use Suc.prems less k in simp_all)
      then show ?thesis
        using less k hit [OF k, of j] step [OF less]
        by (simp add: match_held DIR_ENTRIES_PER_BLOCK_def BLOCK_SIZE_def found_def Let_def entry_buf_block)
    next
      case True
      have j: "Suc j \<le> (entries - 1) div 64" using less True by simp
      let ?b = "entry_buf s ?m (64 * Suc j)"
      have i: "64 * j + k = 64 * Suc j" and d: "64 * Suc j div 64 = Suc j" using True by simp_all
      have rd: "bread e (i_dev ?m) (file_block s ?m (Suc j)) s = Done (Some ?b) (held ?b s)"
        by (rule bread_ready [OF blk(3) [OF j] blk(2) [OF j]])
      have "find_entry_loop n e dir name (length w) entries (64 * Suc j + 1) (Some ?b) 1 (held ?b s) =
          found s dir (find (entry_is s ?m w) [64 * Suc j + 1..<entries])"
        by (rule Suc.IH) (use Suc.prems less True j in simp_all)
      then show ?thesis
        using less rel rd blk(1,4) [OF j] hit [of 0 "Suc j"] step [OF less] d True unfolding i
        by (simp add: match_held DIR_ENTRIES_PER_BLOCK_def BLOCK_SIZE_def found_def Let_def del: mult_Suc_right)
    qed
  qed
qed simp


lemma find_entry_cached:
  assumes cached: "dir_cached s dir (unat (i_size (inode_table s dir)) div 16)"
    and name: "name_at s name w" "min namelen NAME_LEN = length w" "w \<noteq> []" "w \<noteq> [46, 46]"
  shows "find_entry e dir name namelen s =
    kbind (found s dir (find (entry_is s (inode_table s dir) w) [0..<unat (i_size (inode_table s dir)) div 16])) (\<lambda>r s. Done (r, dir) s)"
proof -
  let ?m = "inode_table s dir" and ?n = "unat (i_size (inode_table s dir)) div 16"
  note blk = dir_block [OF cached, of 0]
  have z: "file_block s ?m 0 = ucast (i_zone ?m 0)" by (simp add: file_block_def)
  then have z0: "i_zone ?m 0 \<noteq> 0" using blk(1) by auto
  have "\<not> (length w = 2 \<and> get_fs_byte name s = 46 \<and> get_fs_byte (name + 1) s = 46)"
  proof
    assume d: "length w = 2 \<and> get_fs_byte name s = 46 \<and> get_fs_byte (name + 1) s = 46"
    have at: "get_fs_byte (name + of_nat j) s = w ! j" if "j < 2" for j using name(1) d that by (simp add: name_at_def)
    have "w ! 0 = 46" "w ! 1 = 46" using at [of 0] at [of 1] d by simp_all
    moreover obtain x y where "w = [x, y]" using d by (auto simp: numeral_2_eq_2 length_Suc_conv)
    ultimately show False using name(4) by simp
  qed
  then have dd: "dot_dot e dir name (length w) s = Done (length w, dir) s" unfolding dot_dot_def by (rule if_not_P)
  have rd: "bread e (i_dev ?m) (ucast (i_zone ?m 0)) s = Done (Some (entry_buf s ?m 0)) (held (entry_buf s ?m 0) s)"
    using bread_ready [of "i_dev ?m" "file_block s ?m 0" s "entry_buf s ?m 0"] blk(2,3) z by simp
  have len: "length w \<le> NAME_LEN" using name(2) by simp
  have "find_entry_loop (Suc ?n) e dir name (length w) ?n 0 (Some (entry_buf s ?m 0)) 0 (held (entry_buf s ?m 0) s) =
      found s dir (find (entry_is s ?m w) [0..<?n])"
    using find_entry_loop_finds [OF cached name(1) len, of 0 0 "Suc ?n"] by simp
  then show ?thesis using name(2,3) z0 by (simp add: find_entry_def Let_def dd rd)
qed

text \<open>
  C20: in a directory without holes whose blocks are in the cache, \<open>find_entry\<close> gives the first entry in use that
  has the name, cut to 14 bytes, in its buffer, which is held once more; it gives none, and leaves the state
  as it was, when no entry has the name. The name \<open>..\<close>, which may leave the directory, is apart.
\<close>

theorem find_entry_first:
  assumes "dir_cached s dir (unat (i_size (inode_table s dir)) div 16)"
    "name_at s name w" "min namelen NAME_LEN = length w" "w \<noteq> []" "w \<noteq> [46, 46]"
  shows "find_entry e dir name namelen s =
    (case find (entry_is s (inode_table s dir) w) [0..<unat (i_size (inode_table s dir)) div 16] of
       None \<Rightarrow> Done (None, dir) s
     | Some i \<Rightarrow> Done (Some (entry_buf s (inode_table s dir) i, i mod 64), dir) (held (entry_buf s (inode_table s dir) i) s))"
  unfolding find_entry_cached [OF assms] by (simp add: found_def Let_def split: option.splits)

text \<open>A directory of two entries: the first is free, the second is file 5, \<open>a\<close>; the name is in the user's memory.\<close>

definition demo_dir :: fs_state where
  "demo_dir = demo_fs
     \<lparr>buffers := (buffers demo_fs)(1 := (blank_buffer 1)\<lparr>b_dev := 0x101, b_blocknr := 40, b_uptodate := 1\<rparr>),
      hash_table := (\<lambda>_. Some 1), b_data := (\<lambda>_ _. 0)(1 := (\<lambda>_. 0)(16 := 5, 18 := 97)),
      wait_head := (\<lambda>_. 0), fs_mem := (\<lambda>_. 0)(100 := 97, 101 := 98),
      inode_table := (\<lambda>_. zero_inode\<lparr>i_dev := 0x101, i_zone := (\<lambda>_. 0)(0 := 40), i_size := 32\<rparr>)\<rparr>"

lemma demo_dir_find: "find_buffer 0x101 40 demo_dir = Some 1"
proof -
  have nb: "buffers demo_dir 1 = (blank_buffer 1)\<lparr>b_dev := 0x101, b_blocknr := 40, b_uptodate := 1\<rparr>" by (simp add: demo_dir_def)
  show ?thesis unfolding find_buffer_def find_in_chain.simps by (simp add: nb) (simp add: demo_dir_def)
qed

lemma demo_dir_inode:
  "inode_table demo_dir d = zero_inode\<lparr>i_dev := 0x101, i_zone := (\<lambda>_. 0)(0 := 40), i_size := 32\<rparr>"
  by (simp add: demo_dir_def)

lemma demo_dir_ready: "ready demo_dir 0x101 40"
  by (simp add: ready_def demo_dir_find) (simp add: demo_dir_def blank_buffer_def)

lemma demo_dir_buf:
  "i < 64 \<Longrightarrow> entry_buf demo_dir (zero_inode\<lparr>i_dev := 0x101, i_zone := (\<lambda>_. 0)(0 := 40), i_size := 32\<rparr>) i = 1"
  by (simp add: entry_buf_def file_block_def demo_dir_find)

lemma demo_dir_cached: "dir_cached demo_dir 0 (unat (i_size (inode_table demo_dir 0)) div 16)"
proof -
  have "wait_head demo_dir Wait_Buffer_Free = 0" by (simp add: demo_dir_def)
  then show ?thesis by (simp add: dir_cached_def demo_dir_inode file_block_def index_blocks_def demo_dir_ready)
qed

theorem find_entry_first_witness:
  "find_entry demo_env 0 100 1 demo_dir = Done (Some (1, 1), 0) (held 1 demo_dir)"
proof -
  have at: "name_at demo_dir 100 [97]" by (simp add: name_at_def get_fs_byte_def demo_dir_def)
  let ?m = "inode_table demo_dir 0"
  have "entry_inode demo_dir ?m 0 = 0" "entry_inode demo_dir ?m 1 = 5" "entry_name demo_dir ?m 1 = [97]"
    unfolding entry_inode_def entry_name_def demo_dir_inode
    by (simp_all add: demo_dir_buf name_of_def de_inode_def de_name_def u16_at_def NAME_LEN_def upt_rec) (simp_all add: demo_dir_def)
  then have "find (entry_is demo_dir ?m [97]) [0..<2] = Some 1" by (simp add: upt_rec entry_is_def)
  then show ?thesis
    using find_entry_first [OF demo_dir_cached at, of 1 demo_env]
    by (simp add: demo_dir_inode demo_dir_buf NAME_LEN_def)
qed

end
