(* ===== verification/Directory_Add.thy ===== *)
theory Directory_Add
  imports Directory
begin

text \<open>
  A name added to a directory: \<open>add_entry\<close> takes the first free entry, or the one behind the end when the last block
  has room, and \<open>find_entry\<close> then finds it.
\<close>


subsection \<open>Bytes of an entry\<close>

lemma fold_name:
  "fold (\<lambda>j s. upd_data b (\<lambda>d. d(a + j := (if j < len then get_fs_byte (name + of_nat j) s else 0))) s) [0..<n] s =
     upd_data b (\<lambda>d x. if a \<le> x \<and> x < a + n then (if x - a < len then get_fs_byte (name + of_nat (x - a)) s else 0) else d x) s"
proof (induction n)
  case 0
  have "(\<lambda>d x. if a \<le> x \<and> x < a + 0 then (if x - a < len then get_fs_byte (name + of_nat (x - a)) s else 0) else d x) = (\<lambda>d. d)"
    by (auto simp: fun_eq_iff)
  then show ?case by (simp only: upt_0 fold_simps) (simp add: upd_data_def)
next
  case (Suc n)
  let ?v = "\<lambda>j. if j < len then get_fs_byte (name + of_nat j) s else 0"
  let ?f = "\<lambda>n d x. if a \<le> x \<and> x < a + n then ?v (x - a) else d x"
  have get: "get_fs_byte x (upd_data b f s) = get_fs_byte x s" for x f by (simp add: get_fs_byte_def upd_data_def)
  have "(?f n d)(a + n := ?v n) = ?f (Suc n) d" for d :: "nat \<Rightarrow> u8" by (auto simp: fun_eq_iff)
  note f = this
  have "fold (\<lambda>j s. upd_data b (\<lambda>d. d(a + j := (if j < len then get_fs_byte (name + of_nat j) s else 0))) s) [0..<Suc n] s =
      upd_data b (\<lambda>d. d(a + n := ?v n)) (upd_data b (?f n) s)"
    by (simp only: upt_Suc_append fold_append o_apply fold_simps Suc get le0)
  also have "\<dots> = upd_data b (\<lambda>d. (?f n d)(a + n := ?v n)) s" by (simp add: upd_data_def)
  also have "\<dots> = upd_data b (?f (Suc n)) s" by (simp only: f)
  finally show ?case .
qed

lemma put_name_eq:
  "put_name b k name len s = upd_data b (\<lambda>d x. if 16 * k + 2 \<le> x \<and> x < 16 * k + 16
     then (if x - (16 * k + 2) < len then get_fs_byte (name + of_nat (x - (16 * k + 2))) s else 0) else d x) s"
proof -
  have "16 * k + 2 + NAME_LEN = 16 * k + 16" by (simp add: NAME_LEN_def)
  then show ?thesis using fold_name [of b "16 * k + 2" len name NAME_LEN s] unfolding put_name_def by metis
qed

definition named :: "nat \<Rightarrow> u8 list \<Rightarrow> (nat \<Rightarrow> u8) \<Rightarrow> (nat \<Rightarrow> u8)" where
  "named k w d = (\<lambda>x. if 16 * k + 2 \<le> x \<and> x < 16 * k + 16
     then (if x - (16 * k + 2) < length w then w ! (x - (16 * k + 2)) else 0) else d x)"

lemma put_name_named:
  assumes "name_at s name w"
  shows "put_name b k name (length w) s = upd_data b (named k w) s"
proof -
  have "(if j < length w then get_fs_byte (name + of_nat j) s else 0) = (if j < length w then w ! j else 0)" for j
    using assms by (simp add: name_at_def)
  then show ?thesis by (simp only: put_name_eq named_def [abs_def])
qed

lemma named_inode: "de_inode (named k w d) l = de_inode d l"
proof -
  have "named k w d (16 * l) = d (16 * l)" "named k w d (16 * l + 1) = d (16 * l + 1)" by (auto simp: named_def) presburger+
  then show ?thesis by (simp add: de_inode_def u16_at_def)
qed

lemma named_name:
  assumes "length w \<le> NAME_LEN" "0 \<notin> set w"
  shows "name_of (named k w d) l = (if l = k then w else name_of d l)"
proof -
  have n: "de_name (named k w d) l j = (if l = k then (if j < length w then w ! j else 0) else de_name d l j)" if "j < NAME_LEN" for j
  proof (cases "l = k")
    case False
    then have "\<not> (16 * k + 2 \<le> 16 * l + 2 + j \<and> 16 * l + 2 + j < 16 * k + 16)" using that unfolding NAME_LEN_def by presburger
    then show ?thesis using False by (simp only: named_def de_name_def if_False simp_thms)
  qed (use that in \<open>simp add: named_def de_name_def NAME_LEN_def\<close>)
  show ?thesis
  proof (cases "l = k")
    case True
    then show ?thesis using takeWhile_eq_iff [of w "map (de_name (named k w d) l) [0..<NAME_LEN]"] assms n by (simp add: name_of_def)
  next
    case False
    then have "map (de_name (named k w d) l) [0..<NAME_LEN] = map (de_name d l) [0..<NAME_LEN]" using n by simp
    then show ?thesis using False unfolding name_of_def by (simp only: if_False)
  qed
qed

lemma set_inode_entry:
  "de_inode (put_u16 (16 * k) v d) l = (if l = k then v else de_inode d l)" "name_of (put_u16 (16 * k) v d) l = name_of d l"
proof -
  have "l \<noteq> k \<Longrightarrow> 16 * k + 1 < 16 * l \<or> 16 * l + 1 < 16 * k" by presburger
  then show "de_inode (put_u16 (16 * k) v d) l = (if l = k then v else de_inode d l)"
    by (simp add: de_inode_def u16_at_put_u16 u16_at_put_u16_other)
  have "16 * l + 2 + j \<noteq> 16 * k \<and> 16 * l + 2 + j \<noteq> 16 * k + 1" if "j < NAME_LEN" for j
    using that unfolding NAME_LEN_def by presburger
  then have "map (de_name (put_u16 (16 * k) v d) l) [0..<NAME_LEN] = map (de_name d l) [0..<NAME_LEN]"
    by (intro map_cong refl) (simp add: de_name_def put_u16_byte)
  then show "name_of (put_u16 (16 * k) v d) l = name_of d l" unfolding name_of_def by (simp only:)
qed


subsection \<open>The first free entry\<close>

text \<open>A directory whose first \<open>n\<close> entries are in direct blocks, each with a number of its own.\<close>

definition dir_direct :: "'a fs_state_scheme \<Rightarrow> nat \<Rightarrow> nat \<Rightarrow> bool" where
  "dir_direct s dir n \<longleftrightarrow> n \<le> 64 * 7 \<and> wait_head s Wait_Buffer_Free = 0 \<and>
     (\<forall>j\<le>(n - 1) div 64. let m = inode_table s dir in
        i_zone m j \<noteq> 0 \<and> ready s (i_dev m) (ucast (i_zone m j)) \<and> (\<forall>l\<le>(n - 1) div 64. i_zone m l = i_zone m j \<longrightarrow> l = j))"

lemma dir_direct_mono: "dir_direct s dir n \<Longrightarrow> m \<le> n \<Longrightarrow> dir_direct s dir m"
proof -
  assume d: "dir_direct s dir n" and "m \<le> n"
  then have "(m - 1) div 64 \<le> (n - 1) div 64" by (intro div_le_mono) simp
  then show ?thesis using d \<open>m \<le> n\<close> by (auto simp: dir_direct_def Let_def)
qed

lemma direct_block:
  assumes "dir_direct s dir n" "j \<le> (n - 1) div 64"
  shows "j < 7" "file_block s (inode_table s dir) j = ucast (i_zone (inode_table s dir) j)"
proof -
  have "n \<le> 64 * 7" using assms(1) by (simp add: dir_direct_def)
  then have "(n - 1) div 64 \<le> (64 * 7 - 1) div 64" by (intro div_le_mono) simp
  then show "j < 7" using assms(2) by simp
  then show "file_block s (inode_table s dir) j = ucast (i_zone (inode_table s dir) j)" by (simp add: file_block_def)
qed

lemma direct_cached: "dir_direct s dir n \<Longrightarrow> dir_cached s dir n"
proof -
  assume d: "dir_direct s dir n"
  have "ucast (i_zone (inode_table s dir) j) \<noteq> (0 :: u32)" if "i_zone (inode_table s dir) j \<noteq> 0" for j
  proof
    assume "ucast (i_zone (inode_table s dir) j) = (0 :: u32)"
    moreover have "i_zone (inode_table s dir) j = ucast (ucast (i_zone (inode_table s dir) j) :: u32)"
      by (rule bit_word_eqI) (simp add: bit_simps)
    ultimately show False using that by simp
  qed
  then show ?thesis using d direct_block [OF d] by (auto simp: dir_cached_def dir_direct_def Let_def index_blocks_def)
qed

lemma create_block_present:
  assumes "dir_direct s dir n" "j \<le> (n - 1) div 64"
  shows "create_block e dir (int j) s = Done (file_block s (inode_table s dir) j) s"
proof -
  have "i_zone (inode_table s dir) j \<noteq> 0" using assms by (auto simp: dir_direct_def Let_def)
  then show ?thesis using direct_block [OF assms] by (simp add: create_block_def do_bmap_def claim_zone_def)
qed

definition first_free :: "'a fs_state_scheme \<Rightarrow> m_inode \<Rightarrow> nat \<Rightarrow> nat" where
  "first_free s m n = length (takeWhile (\<lambda>i. entry_inode s m i \<noteq> 0) [0..<n])"

lemma first_free_props:
  "first_free s m n \<le> n" "i < first_free s m n \<Longrightarrow> entry_inode s m i \<noteq> 0" "first_free s m n < n \<Longrightarrow> entry_inode s m (first_free s m n) = 0"
proof -
  let ?P = "\<lambda>i. entry_inode s m i \<noteq> 0"
  show le: "first_free s m n \<le> n" using length_takeWhile_le [of ?P "[0..<n]"] by (simp add: first_free_def)
  show "entry_inode s m i \<noteq> 0" if "i < first_free s m n"
  proof -
    have "takeWhile ?P [0..<n] ! i \<in> set (takeWhile ?P [0..<n])" using that by (simp add: first_free_def)
    moreover have "takeWhile ?P [0..<n] ! i = i" using that le by (simp add: takeWhile_nth first_free_def)
    ultimately show ?thesis using set_takeWhileD by metis
  qed
  show "entry_inode s m (first_free s m n) = 0" if "first_free s m n < n"
    using nth_length_takeWhile [of ?P "[0..<n]"] that by (simp add: first_free_def)
qed


subsection \<open>Adding a name\<close>

lemma try_occupied:
  assumes "16 * i < unat (i_size (inode_table s dir))" "de_inode (b_data s b) k \<noteq> 0"
  shows "try_entry dir name len i b k (held c s) = (False, held c s)"
proof -
  have "unat (i_size (inode_table s dir)) < 2 ^ 32" by (use unsigned_less [of "i_size (inode_table s dir)"] in simp)
  then have "16 * i < 2 ^ 32" using assms(1) by simp
  then have "unat (of_nat (16 * i) :: u32) = 16 * i" by (simp add: unat_of_nat take_bit_nat_eq_self del: of_nat_mult)
  then have "\<not> i_size (inode_table s dir) \<le> of_nat (16 * i)" using assms(1) by (simp add: word_le_nat_alt del: of_nat_mult)
  moreover have "inode_table (held c s) = inode_table s" "b_data (held c s) = b_data s" by (simp_all add: upd_buf_def)
  ultimately show ?thesis using assms(2) by (simp add: try_entry_def Let_def)
qed

text \<open>What the entry becomes, in place \<open>i\<close> of a directory of \<open>n\<close> entries.\<close>

definition entered :: "nat \<Rightarrow> u8 list \<Rightarrow> nat \<Rightarrow> nat \<Rightarrow> 'a fs_state_scheme \<Rightarrow> 'a fs_state_scheme \<Rightarrow> bool" where
  "entered dir w n i s t \<longleftrightarrow>
     (let m = inode_table s dir; b = entry_buf s m i; k = i mod 64
      in b_data t = (b_data s)(b := named k w ((if i < n then id else put_u16 (16 * k) 0) (b_data s b))) \<and>
         buffers t = (buffers s)(b := (buffers s b)\<lparr>b_count := b_count (buffers s b) + 1, b_dirt := 1\<rparr>) \<and>
         hash_table t = hash_table s \<and> nr_buffers t = nr_buffers s \<and> wait_head t = wait_head s \<and> fs_mem t = fs_mem s \<and>
         i_zone (inode_table t dir) = i_zone m \<and> i_dev (inode_table t dir) = i_dev m \<and>
         unat (i_size (inode_table t dir)) = (if i < n then unat (i_size m) else 16 * Suc i))"

lemma try_free:
  fixes s :: "'a fs_state_scheme"
  assumes sz: "unat (i_size (inode_table s dir)) = 16 * n" and i: "i \<le> n" "n < 1000" and name: "name_at s name w"
    and free: "i < n \<Longrightarrow> entry_inode s (inode_table s dir) i = 0"
  shows "\<exists>t. try_entry dir name (length w) i (entry_buf s (inode_table s dir) i) (i mod 64) (held (entry_buf s (inode_table s dir) i) s) = (True, t) \<and>
    entered dir w n i s t"
proof -
  let ?m = "inode_table s dir" and ?k = "i mod 64"
  let ?b = "entry_buf s ?m i"
  have u: "unat (of_nat (16 * i) :: u32) = 16 * i" "unat (of_nat (16 * (i + 1)) :: u32) = 16 * Suc i"
    using i by (simp_all add: unat_of_nat take_bit_nat_eq_self del: of_nat_mult of_nat_add of_nat_Suc)
  have nm: "put_name ?b ?k name (length w) v = upd_data ?b (named ?k w) v" if "fs_mem v = fs_mem s" for v :: "'a fs_state_scheme"
    using put_name_named [of v name w] name that by (simp add: name_at_def get_fs_byte_def)
  have mem: "fs_mem (upd_inode j f v) = fs_mem v" "fs_mem (upd_buf j g v) = fs_mem v" "b_data (upd_buf j g v) = b_data v"
      "inode_table (upd_buf j g v) = inode_table v" "b_data (upd_inode j f v) = b_data v" "fs_mem (set_de_inode j l x v) = fs_mem v"
    for j l f g x and v :: "'a fs_state_scheme"
    by (simp_all add: upd_inode_def upd_buf_def set_de_inode_def upd_data_def)
  show ?thesis
  proof (cases "i < n")
    case True
    then have "\<not> i_size ?m \<le> of_nat (16 * i)" using sz u(1) by (simp add: word_le_nat_alt del: of_nat_mult)
    then have "try_entry dir name (length w) i ?b ?k (held ?b s) = (True, upd_buf ?b (\<lambda>h. h\<lparr>b_dirt := 1\<rparr>)
        (upd_data ?b (named ?k w) (upd_inode dir (\<lambda>m. m\<lparr>i_mtime := CURRENT_SECONDS (held ?b s)\<rparr>) (held ?b s))))"
      using free [OF True] by (simp add: try_entry_def entry_inode_def nm mem Let_def)
    then show ?thesis using True by (simp add: entered_def Let_def upd_buf_def upd_inode_def upd_data_def)
  next
    case False
    define v where "v = upd_inode dir (\<lambda>m. m\<lparr>i_size := of_nat (16 * (i + 1)), i_dirt := 1, i_ctime := CURRENT_SECONDS (held ?b s)\<rparr>)
        (set_de_inode ?b ?k 0 (held ?b s))"
    have v: "fs_mem v = fs_mem s" "de_inode (b_data v ?b) ?k = 0"
      by (simp_all add: v_def mem set_de_inode_def upd_data_def upd_inode_def set_inode_entry(1))
    have c: "i_size ?m \<le> of_nat (16 * i)" using False sz u(1) i(1) by (simp add: word_le_nat_alt del: of_nat_mult)
    have "try_entry dir name (length w) i ?b ?k (held ?b s) = (True, upd_buf ?b (\<lambda>h. h\<lparr>b_dirt := 1\<rparr>)
        (upd_data ?b (named ?k w) (upd_inode dir (\<lambda>m. m\<lparr>i_mtime := CURRENT_SECONDS v\<rparr>) v)))"
      by (simp only: try_entry_def Let_def mem c if_True v_def [symmetric] v nm simp_thms)
    moreover have "entered dir w n i s (upd_buf ?b (\<lambda>h. h\<lparr>b_dirt := 1\<rparr>)
        (upd_data ?b (named ?k w) (upd_inode dir (\<lambda>m. m\<lparr>i_mtime := CURRENT_SECONDS v\<rparr>) v)))"
      using False u(2) unfolding v_def
      by (simp add: entered_def Let_def upd_buf_def upd_inode_def upd_data_def set_de_inode_def del: of_nat_mult of_nat_add of_nat_Suc)
    ultimately show ?thesis by blast
  qed
qed


lemma add_entry_loop_places:
  assumes direct: "dir_direct s dir (Suc p)" and sz: "unat (i_size (inode_table s dir)) = 16 * n" and p: "p \<le> n"
    and occ: "\<And>i. i < p \<Longrightarrow> entry_inode s (inode_table s dir) i \<noteq> 0"
    and at: "try_entry dir name len p (entry_buf s (inode_table s dir) p) (p mod 64) (held (entry_buf s (inode_table s dir) p) s) = (True, t)"
  shows "64 * j + k \<le> p \<Longrightarrow> k \<le> 64 \<Longrightarrow> j \<le> p div 64 \<Longrightarrow> p < 64 * j + k + N \<Longrightarrow>
    add_entry_loop N e dir name len (64 * j + k) (Some (entry_buf s (inode_table s dir) (64 * j))) k
      (held (entry_buf s (inode_table s dir) (64 * j)) s) = Done (Some (entry_buf s (inode_table s dir) p, p mod 64)) t"
proof (induction N arbitrary: j k)
  case (Suc N)
  let ?m = "inode_table s dir"
  have wh: "wait_head s Wait_Buffer_Free = 0" using direct by (simp add: dir_direct_def)
  note blk = dir_block [OF direct_cached [OF direct]]
  have j: "j \<le> (Suc p - 1) div 64" using Suc.prems(3) by simp
  have rel: "brelse e (Some (entry_buf s ?m (64 * j))) (held (entry_buf s ?m (64 * j)) s) = Done () s"
    by (rule brelse_ready [OF blk(3) [OF j] blk(2) [OF j] wh])
  have skip: "try_entry dir name len (64 * l + h) (entry_buf s ?m (64 * l)) h (held (entry_buf s ?m (64 * l)) s) =
      (False, held (entry_buf s ?m (64 * l)) s)" if "h < 64" "64 * l + h < p" for l h
  proof (rule try_occupied)
    show "16 * (64 * l + h) < unat (i_size ?m)" using that p sz by simp
    show "de_inode (b_data s (entry_buf s ?m (64 * l))) h \<noteq> 0"
      using occ [OF that(2)] that(1) by (simp add: entry_inode_def entry_buf_block)
  qed
  have stop: "try_entry dir name len (64 * l + h) (entry_buf s ?m (64 * l)) h (held (entry_buf s ?m (64 * l)) s) = (True, t)"
      "entry_buf s ?m (64 * l) = entry_buf s ?m p" "p mod 64 = h"
    if "h < 64" "64 * l + h = p" for l h
    using at that by (auto simp: entry_buf_block)
  show ?case
  proof (cases "k = 64")
    case False
    then have k: "k < 64" using Suc.prems(2) by simp
    show ?thesis
    proof (cases "64 * j + k = p")
      case True
      then show ?thesis using k stop [OF k True] by (simp add: DIR_ENTRIES_PER_BLOCK_def BLOCK_SIZE_def)
    next
      case False
      have "add_entry_loop N e dir name len (64 * j + Suc k) (Some (entry_buf s ?m (64 * j))) (Suc k) (held (entry_buf s ?m (64 * j)) s) =
          Done (Some (entry_buf s ?m p, p mod 64)) t"
        by (rule Suc.IH) (use Suc.prems False k in simp_all)
      then show ?thesis using k skip [OF k, of j] False Suc.prems(1) by (simp add: DIR_ENTRIES_PER_BLOCK_def BLOCK_SIZE_def)
    qed
  next
    case True
    have i: "64 * j + k = 64 * Suc j" and d: "64 * Suc j div 64 = Suc j" using True by simp_all
    have j': "Suc j \<le> (Suc p - 1) div 64" using i Suc.prems(1) by simp
    let ?b = "entry_buf s ?m (64 * Suc j)"
    have rd: "bread e (i_dev ?m) (file_block s ?m (Suc j)) s = Done (Some ?b) (held ?b s)"
      by (rule bread_ready [OF blk(3) [OF j'] blk(2) [OF j']])
    note cr = create_block_present [OF direct j', of e]
    show ?thesis
    proof (cases "64 * Suc j = p")
      case eq: True
      then show ?thesis using rel rd cr blk(1) [OF j'] stop [of 0 "Suc j"] d True unfolding i
        by (simp add: DIR_ENTRIES_PER_BLOCK_def BLOCK_SIZE_def del: mult_Suc_right)
    next
      case False
      have "add_entry_loop N e dir name len (64 * Suc j + 1) (Some ?b) 1 (held ?b s) = Done (Some (entry_buf s ?m p, p mod 64)) t"
        by (rule Suc.IH) (use Suc.prems True False j' in simp_all)
      then show ?thesis using rel rd cr blk(1) [OF j'] skip [of 0 "Suc j"] d True False Suc.prems(1) unfolding i
        by (simp add: DIR_ENTRIES_PER_BLOCK_def BLOCK_SIZE_def del: mult_Suc_right)
    qed
  qed
qed simp

lemma add_entry_places:
  assumes direct: "dir_direct s dir (Suc p)" and sz: "unat (i_size (inode_table s dir)) = 16 * n" and p: "p \<le> n" "n < 1000"
    and occ: "\<And>i. i < p \<Longrightarrow> entry_inode s (inode_table s dir) i \<noteq> 0" "p < n \<Longrightarrow> entry_inode s (inode_table s dir) p = 0"
    and name: "name_at s name w" "min namelen NAME_LEN = length w" "w \<noteq> []"
  shows "\<exists>t. add_entry e dir name namelen s = Done (Some (entry_buf s (inode_table s dir) p, p mod 64)) t \<and> entered dir w n p s t"
proof -
  let ?m = "inode_table s dir"
  obtain t where t: "try_entry dir name (length w) p (entry_buf s ?m p) (p mod 64) (held (entry_buf s ?m p) s) = (True, t)" "entered dir w n p s t"
    using try_free [OF sz p name(1) occ(2)] by blast
  note blk = dir_block [OF direct_cached [OF direct], of 0]
  have z: "file_block s ?m 0 = ucast (i_zone ?m 0)" by (simp add: file_block_def)
  then have z0: "i_zone ?m 0 \<noteq> 0" using blk(1) by auto
  have rd: "bread e (i_dev ?m) (ucast (i_zone ?m 0)) s = Done (Some (entry_buf s ?m 0)) (held (entry_buf s ?m 0) s)"
    using bread_ready [of "i_dev ?m" "file_block s ?m 0" s "entry_buf s ?m 0"] blk(2,3) z by simp
  have "p < 1000" using p by simp
  then have "add_entry_loop DIR_FUEL e dir name (length w) 0 (Some (entry_buf s ?m 0)) 0 (held (entry_buf s ?m 0) s) =
      Done (Some (entry_buf s ?m p, p mod 64)) t"
    using add_entry_loop_places [OF direct sz p(1) occ(1) t(1), of 0 0 DIR_FUEL e] by (simp add: DIR_FUEL_def)
  then show ?thesis using t(2) name(2,3) z0 by (auto simp: add_entry_def Let_def rd)
qed


subsection \<open>Finding what was added\<close>

lemma find_in_chain_cong:
  assumes "\<And>b. b_dev (bs b) = b_dev (cs b) \<and> b_blocknr (bs b) = b_blocknr (cs b) \<and> b_next (bs b) = b_next (cs b)"
  shows "find_in_chain n bs dev blk tmp = find_in_chain n cs dev blk tmp"
  by (induction n arbitrary: tmp) (auto simp: assms split: option.splits)

lemma direct_buffers_apart:
  assumes direct: "dir_direct s dir n" and i: "i < n" "l < n" "entry_buf s (inode_table s dir) i = entry_buf s (inode_table s dir) l"
  shows "i div 64 = l div 64"
proof -
  let ?m = "inode_table s dir"
  have j: "i div 64 \<le> (n - 1) div 64" "l div 64 \<le> (n - 1) div 64" using i by (auto intro!: div_le_mono)
  have key: "b_blocknr (buffers s (entry_buf s ?m h)) = file_block s ?m (h div 64)" if "h div 64 \<le> (n - 1) div 64" for h
  proof -
    have "entry_buf s ?m (64 * (h div 64)) = entry_buf s ?m h" by (simp add: entry_buf_def)
    then show ?thesis using dir_block(3) [OF direct_cached [OF direct] that] find_in_chain_key unfolding find_buffer_def by fastforce
  qed
  then have "(ucast (i_zone ?m (i div 64)) :: u32) = ucast (i_zone ?m (l div 64))"
    using key [OF j(1)] key [OF j(2)] i(3) direct_block(2) [OF direct] j by simp
  moreover have "x = ucast (ucast x :: u32)" for x :: u16 by (rule bit_word_eqI) (simp add: bit_simps)
  ultimately have "i_zone ?m (i div 64) = i_zone ?m (l div 64)" by metis
  then show ?thesis using direct j by (auto simp: dir_direct_def Let_def)
qed

lemma entered_view:
  fixes v :: u16
  assumes direct: "dir_direct s dir (max n (Suc p))" and t: "entered dir w n p s t" and w: "length w \<le> NAME_LEN" "0 \<notin> set w"
    and count: "b_count (buffers s (entry_buf s (inode_table s dir) p)) + 2 \<noteq> 0"
  defines "u \<equiv> set_de_inode (entry_buf s (inode_table s dir) p) (p mod 64) v t"
  shows "dir_direct u dir (max n (Suc p))"
    "i < max n (Suc p) \<Longrightarrow> entry_buf u (inode_table u dir) i = entry_buf s (inode_table s dir) i"
    "i < max n (Suc p) \<Longrightarrow> entry_inode u (inode_table u dir) i = (if i = p then v else entry_inode s (inode_table s dir) i)"
    "i < max n (Suc p) \<Longrightarrow> entry_name u (inode_table u dir) i = (if i = p then w else entry_name s (inode_table s dir) i)"
proof -
  let ?m = "inode_table s dir" and ?m' = "inode_table u dir" and ?N = "max n (Suc p)"
  let ?b = "entry_buf s ?m p" and ?k = "p mod 64"
  have data: "b_data u = (b_data s)(?b := put_u16 (16 * ?k) v (named ?k w ((if p < n then id else put_u16 (16 * ?k) 0) (b_data s ?b))))"
    and bufs: "buffers u = (buffers s)(?b := (buffers s ?b)\<lparr>b_count := b_count (buffers s ?b) + 1, b_dirt := 1\<rparr>)"
    and rest: "hash_table u = hash_table s" "nr_buffers u = nr_buffers s" "wait_head u = wait_head s" "i_zone ?m' = i_zone ?m" "i_dev ?m' = i_dev ?m"
    using t by (simp_all add: entered_def Let_def u_def set_de_inode_def upd_data_def)
  have find: "find_buffer dev blk u = find_buffer dev blk s" for dev blk
    unfolding find_buffer_def rest by (rule find_in_chain_cong) (simp add: bufs)
  have ready: "ready u dev blk" if "ready s dev blk" for dev blk
    using that count by (auto simp: ready_def find bufs add.commute split: option.splits)
  show dir: "dir_direct u dir ?N" using direct ready unfolding dir_direct_def Let_def rest by blast
  have fb: "file_block u ?m' (i div 64) = file_block s ?m (i div 64)" if "i < ?N" for i
  proof -
    have "i div 64 \<le> (?N - 1) div 64" using that by (intro div_le_mono) simp
    then show ?thesis using direct_block(2) [OF dir] direct_block(2) [OF direct] rest(4) by simp
  qed
  show buf: "entry_buf u ?m' i = entry_buf s ?m i" if "i < ?N" for i
    using fb [OF that] by (simp add: entry_buf_def find rest(5))
  have other: "i mod 64 \<noteq> ?k" if "i < ?N" "i \<noteq> p" "entry_buf s ?m i = ?b" for i
    using direct_buffers_apart [OF direct that(1) _ that(3)] that(2) by (metis div_mult_mod_eq max.strict_coboundedI2 lessI)
  show "entry_inode u ?m' i = (if i = p then v else entry_inode s ?m i)" if "i < ?N"
    using other [OF that] by (auto simp: entry_inode_def buf [OF that] data named_inode set_inode_entry(1))
  show "entry_name u ?m' i = (if i = p then w else entry_name s ?m i)" if "i < ?N"
    using other [OF that] by (auto simp: entry_name_def buf [OF that] data named_name [OF w] set_inode_entry(2))
qed

text \<open>
  C22: in a directory in its direct blocks, cached, a name that is not in it yet goes to the first free entry, or
  behind the last one when the block has room; when its number is set, \<open>find_entry\<close> finds that entry, and the
  others are what they were.
\<close>

theorem add_entry_then_find:
  assumes direct: "dir_direct s dir (max n (Suc p))" and sz: "unat (i_size (inode_table s dir)) = 16 * n"
    and p: "p = first_free s (inode_table s dir) n"
    and name: "name_at s name w" "min namelen NAME_LEN = length w" "w \<noteq> []" "w \<noteq> [46, 46]"
    and new: "find (entry_is s (inode_table s dir) w) [0..<n] = None"
    and v: "v \<noteq> 0" "b_count (buffers s (entry_buf s (inode_table s dir) p)) + 2 \<noteq> 0"
  defines "b \<equiv> entry_buf s (inode_table s dir) p"
  shows "\<exists>t. add_entry e dir name namelen s = Done (Some (b, p mod 64)) t \<and>
    find_entry e dir name namelen (set_de_inode b (p mod 64) v t) = Done (Some (b, p mod 64), dir) (held b (set_de_inode b (p mod 64) v t)) \<and>
    (\<forall>i<n. i \<noteq> p \<longrightarrow> entry_inode (set_de_inode b (p mod 64) v t) (inode_table t dir) i = entry_inode s (inode_table s dir) i \<and>
      entry_name (set_de_inode b (p mod 64) v t) (inode_table t dir) i = entry_name s (inode_table s dir) i)"
proof -
  let ?m = "inode_table s dir" and ?N = "max n (Suc p)"
  have pn: "p \<le> n" "n < 1000" using first_free_props(1) p direct by (auto simp: dir_direct_def)
  have "dir_direct s dir (Suc p)" by (rule dir_direct_mono [OF direct]) simp
  from add_entry_places [OF this sz pn _ _ name(1-3)] obtain t where
    t: "add_entry e dir name namelen s = Done (Some (b, p mod 64)) t" "entered dir w n p s t"
    using first_free_props(2,3) unfolding p b_def by blast
  have w: "length w \<le> NAME_LEN" "0 \<notin> set w" using name(1,2) by (auto simp: name_at_def)
  define u where "u = set_de_inode b (p mod 64) v t"
  note view = entered_view [OF direct t(2) w v(2), where v = v, folded b_def, folded u_def]
  have same: "inode_table u dir = inode_table t dir" "fs_mem u = fs_mem s"
    using t(2) by (simp_all add: u_def set_de_inode_def upd_data_def entered_def Let_def)
  have size: "unat (i_size (inode_table u dir)) div 16 = ?N"
    using t(2) sz pn(1) by (auto simp: same entered_def Let_def)
  have "find (entry_is u (inode_table u dir) w) [0..<?N] = Some p"
  proof -
    have "\<not> entry_is u (inode_table u dir) w i" if "i < p" for i
    proof -
      have "\<not> entry_is s ?m w i" using new that pn(1) by (auto simp: find_None_iff)
      then show ?thesis using that view(3,4) [of i] by (simp add: entry_is_def)
    qed
    moreover have "entry_is u (inode_table u dir) w p" using view(3,4) [of p] v(1) by (simp add: entry_is_def)
    ultimately show ?thesis by (auto simp: find_Some_iff intro!: exI [of _ p])
  qed
  moreover have "name_at u name w" using name(1) same(2) by (simp add: name_at_def get_fs_byte_def)
  ultimately have "find_entry e dir name namelen u = Done (Some (b, p mod 64), dir) (held b u)"
    using find_entry_cached [of u dir name w namelen e] direct_cached [OF view(1)] size name(2-4) view(2) [of p]
    by (simp add: found_def Let_def b_def)
  moreover have "entry_inode u (inode_table t dir) i = entry_inode s ?m i \<and> entry_name u (inode_table t dir) i = entry_name s ?m i"
    if "i < n" "i \<noteq> p" for i
    using view(3,4) [of i] that by (simp add: same(1) [symmetric])
  ultimately show ?thesis using t(1) unfolding u_def by blast
qed

theorem add_entry_then_find_witness:
  "\<exists>t. add_entry demo_env 0 101 1 demo_dir = Done (Some (1, 0)) t \<and>
     find_entry demo_env 0 101 1 (set_de_inode 1 0 7 t) = Done (Some (1, 0), 0) (held 1 (set_de_inode 1 0 7 t)) \<and>
     entry_name (set_de_inode 1 0 7 t) (inode_table t 0) 1 = [97]"
proof -
  let ?m = "inode_table demo_dir 0"
  have w: "wait_head demo_dir Wait_Buffer_Free = 0" by (simp add: demo_dir_def)
  have direct: "dir_direct demo_dir 0 (max 2 (Suc 0))"
    unfolding dir_direct_def demo_dir_inode Let_def by (simp add: demo_dir_ready w)
  have at: "name_at demo_dir 101 [98]" by (simp add: name_at_def get_fs_byte_def demo_dir_def)
  have free: "entry_inode demo_dir ?m 0 = 0" and en: "entry_name demo_dir ?m 1 = [97]"
    unfolding entry_inode_def entry_name_def demo_dir_inode
    by (simp_all add: demo_dir_buf name_of_def de_inode_def de_name_def u16_at_def NAME_LEN_def upt_rec) (simp_all add: demo_dir_def)
  have p: "0 = first_free demo_dir ?m 2" using free by (simp add: first_free_def upt_rec)
  have new: "find (entry_is demo_dir ?m [98]) [0..<2] = None" using free en by (simp add: upt_rec entry_is_def)
  have b: "entry_buf demo_dir ?m 0 = 1" by (simp add: demo_dir_inode demo_dir_buf)
  have c: "b_count (buffers demo_dir (entry_buf demo_dir ?m 0)) + 2 \<noteq> 0"
    unfolding b by (simp add: demo_dir_def blank_buffer_def)
  have sz: "unat (i_size ?m) = 16 * 2" by (simp add: demo_dir_inode)
  have "min 1 NAME_LEN = length [98 :: u8]" "[98 :: u8] \<noteq> []" "[98 :: u8] \<noteq> [46, 46]" "(7 :: u16) \<noteq> 0" by (simp_all add: NAME_LEN_def)
  from add_entry_then_find [OF direct sz p at this(1-3) new this(4) c, of demo_env]
  show ?thesis unfolding b using en by auto
qed

end
