(* ===== verification/Dir_Calls.thy ===== *)
theory Dir_Calls
  imports Namei
begin

text \<open>
  The calls of \<^verbatim>\<open>fs/namei.c\<close> that create and remove names: \<^verbatim>\<open>open_namei\<close>, \<^verbatim>\<open>mknod\<close>, \<^verbatim>\<open>mkdir\<close>, \<^verbatim>\<open>rmdir\<close>, \<^verbatim>\<open>unlink\<close>
  and \<^verbatim>\<open>link\<close>. Modes and flags are integers, as in the code.
\<close>


subsection \<open>Leaving\<close>

text \<open>The usual ways out: put some inodes in the given order, then release a buffer, then return.\<close>

definition iput_all ::
  "('a fs_state_scheme) env \<Rightarrow> nat list \<Rightarrow> 'a fs_state_scheme \<Rightarrow> (unit, 'a fs_state_scheme) outcome" where
  "iput_all e is s = kfold (\<lambda>i s. iput e (Some i) s) is s"

definition leave ::
  "('a fs_state_scheme) env \<Rightarrow> nat list \<Rightarrow> nat option \<Rightarrow> 'r \<Rightarrow> 'a fs_state_scheme \<Rightarrow>
   ('r, 'a fs_state_scheme) outcome" where
  "leave e is bh r s =
     kbind (iput_all e is s) (\<lambda>_ s. kbind (brelse e bh s) (\<lambda>_ s. Done r s))"

text \<open>As many calls begin: the directory of a path, with the checks all of them make.\<close>

definition write_dir ::
  "('a fs_state_scheme) env \<Rightarrow> u32 \<Rightarrow>
   (nat \<Rightarrow> nat \<Rightarrow> u32 \<Rightarrow> 'a fs_state_scheme \<Rightarrow> (int, 'a fs_state_scheme) outcome) \<Rightarrow>
   'a fs_state_scheme \<Rightarrow> (int, 'a fs_state_scheme) outcome" where
  "write_dir e pathname body s =
     kbind (dir_namei e pathname s) (\<lambda>r s.
     case r of
       None \<Rightarrow> Done (- ENOENT) s
     | Some (dir, namelen, base) \<Rightarrow>
         if namelen = 0 then leave e [dir] None (- ENOENT) s
         else if \<not> permission dir MAY_WRITE s then leave e [dir] None (- EPERM) s
         else body dir namelen base s)"


subsection \<open>Opening\<close>

definition I_REGULAR :: int where "I_REGULAR = 0x8000"
definition I_DIRECTORY :: int where "I_DIRECTORY = 0x4000"

definition umasked :: "int \<Rightarrow> 'a fs_state_scheme \<Rightarrow> int" where
  "umasked mode s = mode AND (0x1FF AND NOT (uint (t_umask (cur s))))"

text \<open>The result is an error number, or the inode.\<close>

definition open_create ::
  "('a fs_state_scheme) env \<Rightarrow> nat \<Rightarrow> nat \<Rightarrow> u32 \<Rightarrow> int \<Rightarrow> 'a fs_state_scheme \<Rightarrow>
   (int + nat, 'a fs_state_scheme) outcome" where
  "open_create e dir namelen base mode s =
     (if \<not> permission dir MAY_WRITE s then leave e [dir] None (Inl (- EACCES)) s
      else kbind (new_inode e (i_dev (inode_table s dir)) s) (\<lambda>ino s.
           case ino of
             None \<Rightarrow> leave e [dir] None (Inl (- ENOSPC)) s
           | Some i \<Rightarrow>
               let s = upd_inode i (\<lambda>m. m\<lparr>i_uid := t_euid (cur s), i_mode := of_int mode, i_dirt := 1\<rparr>) s
               in kbind (add_entry e dir base namelen s) (\<lambda>de s.
                  case de of
                    None \<Rightarrow>
                      leave e [i, dir] None (Inl (- ENOSPC)) (upd_inode i (\<lambda>m. m\<lparr>i_nlinks := i_nlinks m - 1\<rparr>) s)
                  | Some (b, k) \<Rightarrow>
                      let s = set_de_inode b k (i_num (inode_table s i)) s;
                          s = upd_buf b (\<lambda>h. h\<lparr>b_dirt := 1\<rparr>) s
                      in kbind (brelse e (Some b) s) (\<lambda>_ s. leave e [dir] None (Inr i) s))))"

definition open_namei ::
  "('a fs_state_scheme) env \<Rightarrow> u32 \<Rightarrow> int \<Rightarrow> int \<Rightarrow> 'a fs_state_scheme \<Rightarrow>
   (int + nat, 'a fs_state_scheme) outcome" where
  "open_namei e pathname flag mode s =
     (let flag = (if flag AND O_TRUNC \<noteq> 0 \<and> flag AND O_ACCMODE = 0 then flag OR O_WRONLY else flag);
          mode = umasked mode s OR I_REGULAR
      in kbind (dir_namei e pathname s) (\<lambda>r s.
         case r of
           None \<Rightarrow> Done (Inl (- ENOENT)) s
         | Some (dir, namelen, base) \<Rightarrow>
             if namelen = 0
             then if flag AND (O_ACCMODE OR O_CREAT OR O_TRUNC) = 0 then Done (Inr dir) s
                  else leave e [dir] None (Inl (- EISDIR)) s
             else kbind (find_entry e dir base namelen s) (\<lambda>(r, dir) s.
                  case r of
                    None \<Rightarrow>
                      if flag AND O_CREAT = 0 then leave e [dir] None (Inl (- ENOENT)) s
                      else open_create e dir namelen base mode s
                  | Some (b, k) \<Rightarrow>
                      let inr = de_inode (b_data s b) k; dev = i_dev (inode_table s dir)
                      in kbind (brelse e (Some b) s) (\<lambda>_ s.
                         kbind (iput e (Some dir) s) (\<lambda>_ s.
                         if flag AND O_EXCL \<noteq> 0 then Done (Inl (- EEXIST)) s
                         else kbind (iget e dev inr s) (\<lambda>i s.
                              if (S_ISDIR (i_mode (inode_table s i)) \<and> flag AND O_ACCMODE \<noteq> 0) \<or>
                                 \<not> permission i (ACC_MODE flag) s
                              then leave e [i] None (Inl (- EPERM)) s
                              else let s = upd_inode i (\<lambda>m. m\<lparr>i_atime := CURRENT_SECONDS s\<rparr>) s
                                   in kbind (if flag AND O_TRUNC \<noteq> 0 then Inode.truncate e i s else Done () s)
                                        (\<lambda>_ s. Done (Inr i) s)))))))"


subsection \<open>Creating nodes and directories\<close>

definition sys_mknod ::
  "('a fs_state_scheme) env \<Rightarrow> u32 \<Rightarrow> int \<Rightarrow> int \<Rightarrow> 'a fs_state_scheme \<Rightarrow>
   (int, 'a fs_state_scheme) outcome" where
  "sys_mknod e pathname mode dev s =
     (if \<not> suser s then Done (- EPERM) s
      else write_dir e pathname (\<lambda>dir namelen base s.
           kbind (find_entry e dir base namelen s) (\<lambda>(r, dir) s.
           case r of
             Some (b, k) \<Rightarrow> kbind (brelse e (Some b) s) (\<lambda>_ s. leave e [dir] None (- EEXIST) s)
           | None \<Rightarrow>
               kbind (new_inode e (i_dev (inode_table s dir)) s) (\<lambda>ino s.
               case ino of
                 None \<Rightarrow> leave e [dir] None (- ENOSPC) s
               | Some i \<Rightarrow>
                   let s = upd_inode i (\<lambda>m. m\<lparr>i_mode := of_int mode\<rparr>) s;
                       s = (if S_ISBLK (of_int mode) \<or> S_ISCHR (of_int mode)
                            then upd_inode i (\<lambda>m. m\<lparr>i_zone := (i_zone m)(0 := of_int dev)\<rparr>) s else s);
                       s = upd_inode i (\<lambda>m. m\<lparr>i_mtime := CURRENT_SECONDS s, i_atime := CURRENT_SECONDS s,
                                              i_dirt := 1\<rparr>) s
                   in kbind (add_entry e dir base namelen s) (\<lambda>de s.
                      case de of
                        None \<Rightarrow>
                          kbind (iput e (Some dir) s) (\<lambda>_ s.
                          leave e [i] None (- ENOSPC) (upd_inode i (\<lambda>m. m\<lparr>i_nlinks := 0\<rparr>) s))
                      | Some (b, k) \<Rightarrow>
                          let s = set_de_inode b k (i_num (inode_table s i)) s;
                              s = upd_buf b (\<lambda>h. h\<lparr>b_dirt := 1\<rparr>) s
                          in leave e [dir, i] (Some b) 0 s)))) s)"

text \<open>The first two entries of a new directory; \<^verbatim>\<open>strcpy\<close> writes the name and one zero byte.\<close>

definition dot_entries :: "u16 \<Rightarrow> u16 \<Rightarrow> (nat \<Rightarrow> u8) \<Rightarrow> (nat \<Rightarrow> u8)" where
  "dot_entries self parent d =
     (let d = (put_u16 0 self d)(2 := 46, 3 := 0)
      in (put_u16 16 parent d)(18 := 46, 19 := 46, 20 := 0))"

definition mkdir_entry ::
  "('a fs_state_scheme) env \<Rightarrow> nat \<Rightarrow> nat \<Rightarrow> u32 \<Rightarrow> nat \<Rightarrow> 'a fs_state_scheme \<Rightarrow>
   (int, 'a fs_state_scheme) outcome" where
  "mkdir_entry e dir namelen base i s =
     kbind (add_entry e dir base namelen s) (\<lambda>de s.
     case de of
       None \<Rightarrow>
         kbind (iput e (Some dir) s) (\<lambda>_ s.
         kbind (free_block e (i_dev (inode_table s i)) (ucast (i_zone (inode_table s i) 0)) s) (\<lambda>_ s.
         leave e [i] None (- ENOSPC) (upd_inode i (\<lambda>m. m\<lparr>i_nlinks := 0\<rparr>) s)))
     | Some (b, k) \<Rightarrow>
         let s = set_de_inode b k (i_num (inode_table s i)) s;
             s = upd_buf b (\<lambda>h. h\<lparr>b_dirt := 1\<rparr>) s;
             s = upd_inode dir (\<lambda>m. m\<lparr>i_nlinks := i_nlinks m + 1, i_dirt := 1\<rparr>) s
         in leave e [dir, i] (Some b) 0 s)"

definition mkdir_new ::
  "('a fs_state_scheme) env \<Rightarrow> int \<Rightarrow> nat \<Rightarrow> nat \<Rightarrow> u32 \<Rightarrow> nat \<Rightarrow> 'a fs_state_scheme \<Rightarrow>
   (int, 'a fs_state_scheme) outcome" where
  "mkdir_new e mode dir namelen base i s =
     (let s = upd_inode i (\<lambda>m. m\<lparr>i_size := 32, i_dirt := 1, i_mtime := CURRENT_SECONDS s,
                               i_atime := CURRENT_SECONDS s\<rparr>) s
      in kbind (new_block e (i_dev (inode_table s i)) s) (\<lambda>blk s.
         let s = upd_inode i (\<lambda>m. m\<lparr>i_zone := (i_zone m)(0 := ucast blk)\<rparr>) s
         in if i_zone (inode_table s i) 0 = 0
            then kbind (iput e (Some dir) s) (\<lambda>_ s.
                 leave e [i] None (- ENOSPC) (upd_inode i (\<lambda>m. m\<lparr>i_nlinks := i_nlinks m - 1\<rparr>) s))
            else let s = upd_inode i (\<lambda>m. m\<lparr>i_dirt := 1\<rparr>) s
                 in kbind (bread e (i_dev (inode_table s i)) (ucast (i_zone (inode_table s i) 0)) s) (\<lambda>bh s.
                    case bh of
                      None \<Rightarrow>
                        kbind (iput e (Some dir) s) (\<lambda>_ s.
                        kbind (free_block e (i_dev (inode_table s i)) (ucast (i_zone (inode_table s i) 0)) s) (\<lambda>_ s.
                        leave e [i] None (- ERROR) (upd_inode i (\<lambda>m. m\<lparr>i_nlinks := i_nlinks m - 1\<rparr>) s)))
                    | Some b \<Rightarrow>
                        let s = upd_data b (dot_entries (i_num (inode_table s i)) (i_num (inode_table s dir))) s;
                            s = upd_inode i (\<lambda>m. m\<lparr>i_nlinks := 2\<rparr>) s;
                            s = upd_buf b (\<lambda>h. h\<lparr>b_dirt := 1\<rparr>) s
                        in kbind (brelse e (Some b) s) (\<lambda>_ s.
                           mkdir_entry e dir namelen base i
                             (upd_inode i (\<lambda>m. m\<lparr>i_mode := of_int (I_DIRECTORY OR umasked mode s), i_dirt := 1\<rparr>) s)))))"

definition sys_mkdir ::
  "('a fs_state_scheme) env \<Rightarrow> u32 \<Rightarrow> int \<Rightarrow> 'a fs_state_scheme \<Rightarrow>
   (int, 'a fs_state_scheme) outcome" where
  "sys_mkdir e pathname mode s =
     (if \<not> suser s then Done (- EPERM) s
      else write_dir e pathname (\<lambda>dir namelen base s.
           kbind (find_entry e dir base namelen s) (\<lambda>(r, dir) s.
           case r of
             Some (b, k) \<Rightarrow> kbind (brelse e (Some b) s) (\<lambda>_ s. leave e [dir] None (- EEXIST) s)
           | None \<Rightarrow>
               kbind (new_inode e (i_dev (inode_table s dir)) s) (\<lambda>ino s.
               case ino of
                 None \<Rightarrow> leave e [dir] None (- ENOSPC) s
               | Some i \<Rightarrow> mkdir_new e mode dir namelen base i s))) s)"


subsection \<open>Removing directories\<close>

text \<open>
  The loop of \<^verbatim>\<open>empty_dir\<close>. When a block is missing, the buffer that was released stays in \<^verbatim>\<open>bh\<close>
  and is released again in the next iteration.
\<close>

primrec empty_dir_loop ::
  "nat \<Rightarrow> ('a fs_state_scheme) env \<Rightarrow> nat \<Rightarrow> nat \<Rightarrow> nat \<Rightarrow> nat \<Rightarrow> nat \<Rightarrow> 'a fs_state_scheme \<Rightarrow>
   (bool, 'a fs_state_scheme) outcome" where
  "empty_dir_loop 0 e i len nr b k s = Stop Looping s"
| "empty_dir_loop (Suc n) e i len nr b k s =
     (if len \<le> nr then kbind (brelse e (Some b) s) (\<lambda>_ s. Done True s)
      else if DIR_ENTRIES_PER_BLOCK \<le> k
      then kbind (brelse e (Some b) s) (\<lambda>_ s.
           kbind (bmap e i (int (nr div DIR_ENTRIES_PER_BLOCK)) s) (\<lambda>block s.
           if block = 0 then empty_dir_loop n e i len (nr + DIR_ENTRIES_PER_BLOCK) b k s
           else kbind (bread e (i_dev (inode_table s i)) block s) (\<lambda>bh s.
                case bh of
                  None \<Rightarrow> Done False s
                | Some b \<Rightarrow>
                    if de_inode (b_data s b) 0 \<noteq> 0
                    then kbind (brelse e (Some b) s) (\<lambda>_ s. Done False s)
                    else empty_dir_loop n e i len (nr + 1) b 1 s)))
      else if de_inode (b_data s b) k \<noteq> 0 then kbind (brelse e (Some b) s) (\<lambda>_ s. Done False s)
      else empty_dir_loop n e i len (nr + 1) b (k + 1) s)"

text \<open>The two tests for \<^verbatim>\<open>.\<close> and \<^verbatim>\<open>..\<close>, with \<^verbatim>\<open>strcmp\<close>.\<close>

definition dots_ok :: "u16 \<Rightarrow> (nat \<Rightarrow> u8) \<Rightarrow> bool" where
  "dots_ok num d \<longleftrightarrow> de_inode d 0 = num \<and> de_inode d 1 \<noteq> 0 \<and>
     de_name d 0 0 = 46 \<and> de_name d 0 1 = 0 \<and>
     de_name d 1 0 = 46 \<and> de_name d 1 1 = 46 \<and> de_name d 1 2 = 0"

definition empty_dir ::
  "('a fs_state_scheme) env \<Rightarrow> nat \<Rightarrow> 'a fs_state_scheme \<Rightarrow> (bool, 'a fs_state_scheme) outcome" where
  "empty_dir e i s =
     (let len = unat (i_size (inode_table s i)) div 16
      in kbind (if len < 2 \<or> i_zone (inode_table s i) 0 = 0 then Done None s
                else bread e (i_dev (inode_table s i)) (ucast (i_zone (inode_table s i) 0)) s) (\<lambda>bh s.
         case bh of
           None \<Rightarrow> Done False (printk ''warning - bad directory on dev %04x'' s)
         | Some b \<Rightarrow>
             if \<not> dots_ok (i_num (inode_table s i)) (b_data s b)
             then Done False (printk ''warning - bad directory on dev %04x'' s)
             else empty_dir_loop (Suc len) e i len 2 b 2 s))"

definition sys_rmdir ::
  "('a fs_state_scheme) env \<Rightarrow> u32 \<Rightarrow> 'a fs_state_scheme \<Rightarrow> (int, 'a fs_state_scheme) outcome" where
  "sys_rmdir e pathname s =
     (if \<not> suser s then Done (- EPERM) s
      else write_dir e pathname (\<lambda>dir namelen base s.
           kbind (find_entry e dir base namelen s) (\<lambda>(r, dir) s.
           case r of
             None \<Rightarrow> leave e [dir] None (- ENOENT) s
           | Some (b, k) \<Rightarrow>
               kbind (iget e (i_dev (inode_table s dir)) (de_inode (b_data s b) k) s) (\<lambda>i s.
               let d = inode_table s dir; m = inode_table s i
               in if i_mode d AND S_ISVTX \<noteq> 0 \<and> t_euid (cur s) \<noteq> 0 \<and> i_uid m \<noteq> t_euid (cur s)
                  then leave e [dir, i] (Some b) (- EPERM) s
                  else if i_dev m \<noteq> i_dev d \<or> 1 < i_count m then leave e [dir, i] (Some b) (- EPERM) s
                  else if i = dir then leave e [i, dir] (Some b) (- EPERM) s
                  else if \<not> S_ISDIR (i_mode m) then leave e [i, dir] (Some b) (- ENOTDIR) s
                  else kbind (empty_dir e i s) (\<lambda>is_empty s.
                       if \<not> is_empty then leave e [i, dir] (Some b) (- ENOTEMPTY) s
                       else let s = (if i_nlinks (inode_table s i) \<noteq> 2
                                     then printk ''empty directory has nlink!=2 (%d)'' s else s);
                                s = set_de_inode b k 0 s;
                                s = upd_buf b (\<lambda>h. h\<lparr>b_dirt := 1\<rparr>) s
                            in kbind (brelse e (Some b) s) (\<lambda>_ s.
                               let s = upd_inode i (\<lambda>m. m\<lparr>i_nlinks := 0, i_dirt := 1\<rparr>) s;
                                   s = upd_inode dir (\<lambda>m. m\<lparr>i_nlinks := i_nlinks m - 1,
                                         i_ctime := CURRENT_SECONDS s, i_mtime := CURRENT_SECONDS s, i_dirt := 1\<rparr>) s
                               in leave e [dir, i] None 0 s))))) s)"


subsection \<open>Links\<close>

definition sys_unlink ::
  "('a fs_state_scheme) env \<Rightarrow> u32 \<Rightarrow> 'a fs_state_scheme \<Rightarrow> (int, 'a fs_state_scheme) outcome" where
  "sys_unlink e pathname s =
     write_dir e pathname (\<lambda>dir namelen base s.
       kbind (find_entry e dir base namelen s) (\<lambda>(r, dir) s.
       case r of
         None \<Rightarrow> leave e [dir] None (- ENOENT) s
       | Some (b, k) \<Rightarrow>
           kbind (iget e (i_dev (inode_table s dir)) (de_inode (b_data s b) k) s) (\<lambda>i s.
           let d = inode_table s dir; m = inode_table s i
           in if i_mode d AND S_ISVTX \<noteq> 0 \<and> \<not> suser s \<and> t_euid (cur s) \<noteq> i_uid m \<and> t_euid (cur s) \<noteq> i_uid d
              then leave e [dir, i] (Some b) (- EPERM) s
              else if S_ISDIR (i_mode m) then leave e [i, dir] (Some b) (- EPERM) s
              else let s = (if i_nlinks m = 0
                            then upd_inode i (\<lambda>m. m\<lparr>i_nlinks := 1\<rparr>)
                                   (printk ''Deleting nonexistent file (%04x:%d), %d'' s)
                            else s);
                       s = set_de_inode b k 0 s;
                       s = upd_buf b (\<lambda>h. h\<lparr>b_dirt := 1\<rparr>) s
                   in kbind (brelse e (Some b) s) (\<lambda>_ s.
                      let s = upd_inode i (\<lambda>m. m\<lparr>i_nlinks := i_nlinks m - 1, i_dirt := 1,
                                                i_ctime := CURRENT_SECONDS s\<rparr>) s
                      in leave e [i, dir] None 0 s)))) s"

definition sys_link ::
  "('a fs_state_scheme) env \<Rightarrow> u32 \<Rightarrow> u32 \<Rightarrow> 'a fs_state_scheme \<Rightarrow> (int, 'a fs_state_scheme) outcome" where
  "sys_link e oldname newname s =
     kbind (namei e oldname s) (\<lambda>old s.
     case old of
       None \<Rightarrow> Done (- ENOENT) s
     | Some i \<Rightarrow>
         if S_ISDIR (i_mode (inode_table s i)) then leave e [i] None (- EPERM) s
         else kbind (dir_namei e newname s) (\<lambda>r s.
              case r of
                None \<Rightarrow> leave e [i] None (- EACCES) s
              | Some (dir, namelen, base) \<Rightarrow>
                  if namelen = 0 then leave e [i, dir] None (- EPERM) s
                  else if i_dev (inode_table s dir) \<noteq> i_dev (inode_table s i)
                  then leave e [dir, i] None (- EXDEV) s
                  else if \<not> permission dir MAY_WRITE s then leave e [dir, i] None (- EACCES) s
                  else kbind (find_entry e dir base namelen s) (\<lambda>(r, dir) s.
                       case r of
                         Some (b, k) \<Rightarrow> kbind (brelse e (Some b) s) (\<lambda>_ s. leave e [dir, i] None (- EEXIST) s)
                       | None \<Rightarrow>
                           kbind (add_entry e dir base namelen s) (\<lambda>de s.
                           case de of
                             None \<Rightarrow> leave e [dir, i] None (- ENOSPC) s
                           | Some (b, k) \<Rightarrow>
                               let s = set_de_inode b k (i_num (inode_table s i)) s;
                                   s = upd_buf b (\<lambda>h. h\<lparr>b_dirt := 1\<rparr>) s
                               in kbind (brelse e (Some b) s) (\<lambda>_ s.
                                  kbind (iput e (Some dir) s) (\<lambda>_ s.
                                  leave e [i] None 0
                                    (upd_inode i (\<lambda>m. m\<lparr>i_nlinks := i_nlinks m + 1, i_ctime := CURRENT_SECONDS s,
                                                        i_dirt := 1\<rparr>) s)))))))"

end
