(* ===== verification/Open.thy ===== *)
theory Open
  imports Dir_Calls
begin

text \<open>
  The calls of \<^verbatim>\<open>fs/open.c\<close>, \<^verbatim>\<open>sys_stat\<close> of \<^verbatim>\<open>fs/stat.c\<close>, and mounting and unmounting from
  \<^verbatim>\<open>fs/super.c\<close>.
\<close>


subsection \<open>Attributes of a file\<close>

definition sys_ustat :: int where
  "sys_ustat = - ENOSYS"

text \<open>Most calls look up a name and fail with a fixed error when there is none.\<close>

definition on_name ::
  "('a fs_state_scheme) env \<Rightarrow> u32 \<Rightarrow> int \<Rightarrow> (nat \<Rightarrow> 'a fs_state_scheme \<Rightarrow> (int, 'a fs_state_scheme) outcome) \<Rightarrow>
   'a fs_state_scheme \<Rightarrow> (int, 'a fs_state_scheme) outcome" where
  "on_name e filename err body s =
     kbind (namei e filename s) (\<lambda>ino s. case ino of None \<Rightarrow> Done (- err) s | Some i \<Rightarrow> body i s)"

definition sys_utime ::
  "('a fs_state_scheme) env \<Rightarrow> u32 \<Rightarrow> u32 \<Rightarrow> 'a fs_state_scheme \<Rightarrow> (int, 'a fs_state_scheme) outcome" where
  "sys_utime e filename utim s =
     on_name e filename ENOENT (\<lambda>i s.
       let actime = (if utim \<noteq> 0 then get_fs_long utim s else CURRENT_SECONDS s);
           modtime = (if utim \<noteq> 0 then get_fs_long (utim + 4) s else CURRENT_SECONDS s)
       in leave e [i] None 0 (upd_inode i (\<lambda>m. m\<lparr>i_atime := actime, i_mtime := modtime, i_dirt := 1\<rparr>) s)) s"

text \<open>
  \<^verbatim>\<open>sys_access\<close> reads the owner of the inode after it has put it; the group is compared with
  the permission bits of the owner.
\<close>

definition sys_access ::
  "('a fs_state_scheme) env \<Rightarrow> u32 \<Rightarrow> int \<Rightarrow> 'a fs_state_scheme \<Rightarrow> (int, 'a fs_state_scheme) outcome" where
  "sys_access e filename mode s =
     (let mode = mode AND 7
      in on_name e filename EACCES (\<lambda>i s.
           let mode_bits = uint (i_mode (inode_table s i)) AND 0x1FF
           in kbind (iput e (Some i) s) (\<lambda>_ s.
              let m = inode_table s i;
                  res = (if t_uid (cur s) = i_uid m then drop_bit 6 mode_bits
                         else if unat (t_gid (cur s)) = unat (i_gid m) then drop_bit 6 mode_bits else mode_bits)
              in if res AND 7 AND mode = mode then Done 0 s
                 else if t_uid (cur s) = 0 \<and> (mode AND 1 = 0 \<or> mode_bits AND 0x49 \<noteq> 0) then Done 0 s
                 else Done (- EACCES) s)) s)"

definition sys_chdir ::
  "('a fs_state_scheme) env \<Rightarrow> u32 \<Rightarrow> 'a fs_state_scheme \<Rightarrow> (int, 'a fs_state_scheme) outcome" where
  "sys_chdir e filename s =
     on_name e filename ENOENT (\<lambda>i s.
       if \<not> S_ISDIR (i_mode (inode_table s i)) then leave e [i] None (- ENOTDIR) s
       else kbind (iput e (t_pwd (cur s)) s) (\<lambda>_ s. Done 0 (upd_cur (\<lambda>t. t\<lparr>t_pwd := Some i\<rparr>) s))) s"

definition sys_chroot ::
  "('a fs_state_scheme) env \<Rightarrow> u32 \<Rightarrow> 'a fs_state_scheme \<Rightarrow> (int, 'a fs_state_scheme) outcome" where
  "sys_chroot e filename s =
     on_name e filename ENOENT (\<lambda>i s.
       if \<not> S_ISDIR (i_mode (inode_table s i)) then leave e [i] None (- ENOTDIR) s
       else kbind (iput e (t_root (cur s)) s) (\<lambda>_ s. Done 0 (upd_cur (\<lambda>t. t\<lparr>t_root := Some i\<rparr>) s))) s"

definition sys_chmod ::
  "('a fs_state_scheme) env \<Rightarrow> u32 \<Rightarrow> int \<Rightarrow> 'a fs_state_scheme \<Rightarrow> (int, 'a fs_state_scheme) outcome" where
  "sys_chmod e filename mode s =
     on_name e filename ENOENT (\<lambda>i s.
       if t_euid (cur s) \<noteq> i_uid (inode_table s i) \<and> \<not> suser s then leave e [i] None (- EACCES) s
       else leave e [i] None 0
              (upd_inode i (\<lambda>m. m\<lparr>i_mode := (of_int mode AND 0xFFF) OR (i_mode m AND NOT 0xFFF), i_dirt := 1\<rparr>) s)) s"

definition sys_chown ::
  "('a fs_state_scheme) env \<Rightarrow> u32 \<Rightarrow> int \<Rightarrow> int \<Rightarrow> 'a fs_state_scheme \<Rightarrow> (int, 'a fs_state_scheme) outcome" where
  "sys_chown e filename uid gid s =
     on_name e filename ENOENT (\<lambda>i s.
       if \<not> suser s then leave e [i] None (- EACCES) s
       else leave e [i] None 0
              (upd_inode i (\<lambda>m. m\<lparr>i_uid := of_int uid, i_gid := of_int gid, i_dirt := 1\<rparr>) s)) s"

definition sys_stat ::
  "(nat \<Rightarrow> u8) \<Rightarrow> ('a fs_state_scheme) env \<Rightarrow> u32 \<Rightarrow> u32 \<Rightarrow> 'a fs_state_scheme \<Rightarrow>
   (int, 'a fs_state_scheme) outcome" where
  "sys_stat stack e filename statbuf s =
     on_name e filename ENOENT (\<lambda>i s. kbind (cp_stat stack i statbuf s) (\<lambda>_ s. leave e [i] None 0 s)) s"


subsection \<open>Opening a file\<close>

definition drop_fd :: "nat \<Rightarrow> nat \<Rightarrow> 'a fs_state_scheme \<Rightarrow> 'a fs_state_scheme" where
  "drop_fd fd f s = upd_file f (\<lambda>x. x\<lparr>f_count := 0\<rparr>) (upd_cur (set_filp fd None) s)"

text \<open>
  The rules for terminals: \<open>False\<close> when the open fails because the task has none.
\<close>

definition open_tty :: "nat \<Rightarrow> 'a fs_state_scheme \<Rightarrow> bool \<times> 'a fs_state_scheme" where
  "open_tty i s =
     (let m = inode_table s i
      in if \<not> S_ISCHR (i_mode m) then (True, s)
         else if MAJOR (i_zone m 0) = 4
         then (True, if t_leader (cur s) \<noteq> 0 \<and> t_tty (cur s) < 0
                     then let s = upd_cur (\<lambda>t. t\<lparr>t_tty := int (MINOR (i_zone m 0))\<rparr>) s
                          in s\<lparr>tty_pgrp := (tty_pgrp s)(nat (t_tty (cur s)) := t_pgrp (cur s))\<rparr>
                     else s)
         else if MAJOR (i_zone m 0) = 5 then (\<not> t_tty (cur s) < 0, s)
         else (True, s))"

definition sys_open ::
  "('a fs_state_scheme) env \<Rightarrow> u32 \<Rightarrow> int \<Rightarrow> int \<Rightarrow> 'a fs_state_scheme \<Rightarrow> (int, 'a fs_state_scheme) outcome" where
  "sys_open e filename flag mode s =
     (let mode = umasked mode s
      in case free_fd 0 s of
           None \<Rightarrow> Done (- EINVAL) s
         | Some fd \<Rightarrow>
             let s = upd_cur (clear_cloexec fd) s
             in case find (\<lambda>i. f_count (file_table s i) = 0) [0..<NR_FILE] of
                  None \<Rightarrow> Done (- EINVAL) s
                | Some f \<Rightarrow>
                    let s = upd_file f (\<lambda>x. x\<lparr>f_count := f_count x + 1\<rparr>) (upd_cur (set_filp fd (Some f)) s)
                    in kbind (open_namei e filename flag mode s) (\<lambda>r s.
                       case r of
                         Inl err \<Rightarrow> Done err (drop_fd fd f s)
                       | Inr i \<Rightarrow>
                           (case open_tty i s of (ok, s) \<Rightarrow>
                              if \<not> ok then kbind (iput e (Some i) s) (\<lambda>_ s. Done (- EPERM) (drop_fd fd f s))
                              else kbind (if S_ISBLK (i_mode (inode_table s i))
                                          then check_disk_change e (i_zone (inode_table s i) 0) s
                                          else Done () s) (\<lambda>_ s.
                                   Done (int fd)
                                     (upd_file f (\<lambda>x. x\<lparr>f_mode := i_mode (inode_table s i), f_flags := of_int flag,
                                         f_count := 1, f_inode := Some i, f_pos := 0\<rparr>) s)))))"

definition sys_creat ::
  "('a fs_state_scheme) env \<Rightarrow> u32 \<Rightarrow> int \<Rightarrow> 'a fs_state_scheme \<Rightarrow> (int, 'a fs_state_scheme) outcome" where
  "sys_creat e pathname mode s = sys_open e pathname (O_CREAT OR O_TRUNC) mode s"


subsection \<open>Mounting\<close>

definition sys_umount ::
  "('a fs_state_scheme) env \<Rightarrow> u32 \<Rightarrow> 'a fs_state_scheme \<Rightarrow> (int, 'a fs_state_scheme) outcome" where
  "sys_umount e dev_name s =
     on_name e dev_name ENOENT (\<lambda>i s.
       let dev = i_zone (inode_table s i) 0
       in if \<not> S_ISBLK (i_mode (inode_table s i)) then leave e [i] None (- ENOTBLK) s
          else kbind (iput e (Some i) s) (\<lambda>_ s.
               if dev = ROOT_DEV s then Done (- EBUSY) s
               else kbind (get_super e dev s) (\<lambda>sb s.
                    case sb of
                      None \<Rightarrow> Done (- ENOENT) s
                    | Some p \<Rightarrow>
                        (case s_imount (super_table s p) of
                           None \<Rightarrow> Done (- ENOENT) s
                         | Some mnt \<Rightarrow>
                             let s = (if i_mount (inode_table s mnt) = 0
                                      then printk ''Mounted inode has i_mount=0'' s else s)
                             in if list_ex (\<lambda>j. i_dev (inode_table s j) = dev \<and> i_count (inode_table s j) \<noteq> 0)
                                     [0..<NR_INODE]
                                then Done (- EBUSY) s
                                else let s = upd_inode mnt (\<lambda>m. m\<lparr>i_mount := 0\<rparr>) s
                                     in kbind (iput e (s_imount (super_table s p)) s) (\<lambda>_ s.
                                        let s = upd_super p (\<lambda>b. b\<lparr>s_imount := None\<rparr>) s
                                        in kbind (iput e (s_isup (super_table s p)) s) (\<lambda>_ s.
                                           let s = upd_super p (\<lambda>b. b\<lparr>s_isup := None\<rparr>) s
                                           in kbind (put_super e dev s) (\<lambda>_ s.
                                              kbind (sync_dev e dev s) (\<lambda>_ s. Done 0 s)))))))) s"

definition sys_mount ::
  "('a fs_state_scheme) env \<Rightarrow> u32 \<Rightarrow> u32 \<Rightarrow> int \<Rightarrow> 'a fs_state_scheme \<Rightarrow>
   (int, 'a fs_state_scheme) outcome" where
  "sys_mount e dev_name dir_name rw_flag s =
     on_name e dev_name ENOENT (\<lambda>di s.
       let dev = i_zone (inode_table s di) 0
       in if \<not> S_ISBLK (i_mode (inode_table s di)) then leave e [di] None (- EPERM) s
          else kbind (iput e (Some di) s) (\<lambda>_ s.
               on_name e dir_name ENOENT (\<lambda>i s.
                 if i_count (inode_table s i) \<noteq> 1 \<or> i_num (inode_table s i) = ROOT_INO
                 then leave e [i] None (- EBUSY) s
                 else if \<not> S_ISDIR (i_mode (inode_table s i)) then leave e [i] None (- EPERM) s
                 else kbind (read_super e dev s) (\<lambda>sb s.
                      case sb of
                        None \<Rightarrow> leave e [i] None (- EBUSY) s
                      | Some p \<Rightarrow>
                          if s_imount (super_table s p) \<noteq> None then leave e [i] None (- EBUSY) s
                          else if i_mount (inode_table s i) \<noteq> 0 then leave e [i] None (- EPERM) s
                          else Done 0 (upd_inode i (\<lambda>m. m\<lparr>i_mount := 1, i_dirt := 1\<rparr>)
                                        (upd_super p (\<lambda>b. b\<lparr>s_imount := Some i\<rparr>) s)))) s)) s"

end
