(* ===== verification/Process.thy ===== *)
theory Process
  imports Open
begin

text \<open>
  The life of a task: \<^verbatim>\<open>kernel/fork.c\<close>, \<^verbatim>\<open>kernel/exit.c\<close>, and the page faults of \<^verbatim>\<open>mm/memory.c\<close> that need
  the file system. A task that exits never comes back: \<^verbatim>\<open>do_exit\<close> stops with the state in
  which the next task runs.
\<close>


subsection \<open>Fork\<close>

definition copy_mem ::
  "nat \<Rightarrow> u32 \<Rightarrow> 'a sched_state_scheme \<Rightarrow> (int, 'a sched_state_scheme) outcome" where
  "copy_mem nr p s =
     (let code_limit = get_limit 0x0F s;
          data_limit = get_limit 0x17 s;
          old_code_base = get_base (t_ldt (cur s) 1);
          old_data_base = get_base (t_ldt (cur s) 2);
          new_base = of_nat nr * 0x4000000
      in if old_data_base \<noteq> old_code_base then Stop (Panic ''We don't support separate I&D'') s
         else if data_limit < code_limit then Stop (Panic ''Bad data_limit'') s
         else let s = upd_task p (\<lambda>t. t\<lparr>t_start_code := new_base,
                        t_ldt := (t_ldt t)(1 := set_base new_base (t_ldt t 1), 2 := set_base new_base (t_ldt t 2))\<rparr>) s
              in kbind (copy_page_tables old_data_base new_base data_limit s) (\<lambda>r s.
                 if r \<noteq> 0
                 then kbind (free_page_tables new_base data_limit (printk ''free_page_tables: from copy_mem'' s))
                        (\<lambda>_ s. Done (- ENOMEM) s)
                 else Done 0 s))"

text \<open>The registers of the parent, as the system call pushed them.\<close>

record saved_regs =
  r_ebp :: u32
  r_edi :: u32
  r_esi :: u32
  r_gs :: u32
  r_ebx :: u32
  r_ecx :: u32
  r_edx :: u32
  r_fs :: u32
  r_es :: u32
  r_ds :: u32
  r_eip :: u32
  r_cs :: u32
  r_eflags :: u32
  r_esp :: u32
  r_ss :: u32

definition LDT_sel :: "nat \<Rightarrow> u32" where
  "LDT_sel n = push_bit 4 (of_nat n) + of_nat (8 * FIRST_LDT_ENTRY)"

definition child_tss :: "nat \<Rightarrow> u32 \<Rightarrow> saved_regs \<Rightarrow> tss_struct \<Rightarrow> tss_struct" where
  "child_tss nr p r t = t\<lparr>tss_back_link := 0, tss_esp0 := 4096 + p, tss_ss0 := 0x10, tss_eip := r_eip r,
     tss_eflags := r_eflags r, tss_eax := 0, tss_ecx := r_ecx r, tss_edx := r_edx r, tss_ebx := r_ebx r,
     tss_esp := r_esp r, tss_ebp := r_ebp r, tss_esi := r_esi r, tss_edi := r_edi r,
     tss_es := r_es r AND 0xFFFF, tss_cs := r_cs r AND 0xFFFF, tss_ss := r_ss r AND 0xFFFF,
     tss_ds := r_ds r AND 0xFFFF, tss_fs := r_fs r AND 0xFFFF, tss_gs := r_gs r AND 0xFFFF,
     tss_ldt := LDT_sel nr, tss_trace_bitmap := 0x80000000\<rparr>"

definition child_task :: "nat \<Rightarrow> u32 \<Rightarrow> saved_regs \<Rightarrow> 'a sched_state_scheme \<Rightarrow> task_struct" where
  "child_task nr p r s = (cur s)\<lparr>t_state := TASK_UNINTERRUPTIBLE, t_pid := last_pid s,
     t_father := t_pid (cur s), t_counter := t_priority (cur s), t_signal := 0, t_alarm := 0, t_leader := 0,
     t_utime := 0, t_stime := 0, t_cutime := 0, t_cstime := 0, t_start_time := jiffies s,
     t_tss := child_tss nr p r (t_tss (cur s))\<rparr>"

text \<open>\<^verbatim>\<open>fnsave\<close> stores the state of the coprocessor and resets it.\<close>

definition fpu_reset :: "nat \<Rightarrow> u32" where
  "fpu_reset = (\<lambda>_. 0)(0 := 0x37F, 2 := 0xFFFF)"

definition save_math :: "u32 \<Rightarrow> 'a sched_state_scheme \<Rightarrow> 'a sched_state_scheme" where
  "save_math p s =
     (if last_task_used_math s = current s
      then (upd_task p (\<lambda>t. t\<lparr>t_tss := (t_tss t)\<lparr>tss_i387 := fpu s\<rparr>\<rparr>) s)\<lparr>fpu := fpu_reset\<rparr>
      else s)"

definition share_files :: "(nat \<Rightarrow> nat option) \<Rightarrow> 'a fs_state_scheme \<Rightarrow> 'a fs_state_scheme" where
  "share_files filp s =
     fold (\<lambda>i s. case filp i of None \<Rightarrow> s | Some f \<Rightarrow> upd_file f (\<lambda>x. x\<lparr>f_count := f_count x + 1\<rparr>) s)
       [0..<NR_OPEN] s"

definition share_inode :: "nat option \<Rightarrow> 'a fs_state_scheme \<Rightarrow> 'a fs_state_scheme" where
  "share_inode ino s =
     (case ino of None \<Rightarrow> s | Some i \<Rightarrow> upd_inode i (\<lambda>m. m\<lparr>i_count := i_count m + 1\<rparr>) s)"

definition copy_process ::
  "nat \<Rightarrow> saved_regs \<Rightarrow> 'a fs_state_scheme \<Rightarrow> (int, 'a fs_state_scheme) outcome" where
  "copy_process nr r s =
     (case get_free_page s of (p, s) \<Rightarrow>
        if p = 0 then Done (- EAGAIN) s
        else let s = s\<lparr>task := (task s)(nr := p)\<rparr>;
                 s = upd_task p (\<lambda>_. child_task nr p r s) s;
                 s = save_math p s
             in kbind (copy_mem nr p s) (\<lambda>res s.
                if res \<noteq> 0
                then kbind (free_page p (s\<lparr>task := (task s)(nr := 0)\<rparr>)) (\<lambda>_ s. Done (- EAGAIN) s)
                else let s = share_files (t_filp (tasks s p)) s;
                         s = share_inode (t_pwd (cur s)) s;
                         s = share_inode (t_root (cur s)) s;
                         s = share_inode (t_executable (cur s)) s;
                         s = set_tssldt_desc (2 * nr + FIRST_TSS_ENTRY) (tss_addr p) 0x89 s;
                         s = set_tssldt_desc (2 * nr + FIRST_LDT_ENTRY) (ldt_addr p) 0x82 s;
                         s = upd_task p (set_state TASK_RUNNING) s
                     in Done (last_pid s) s))"

text \<open>\<^verbatim>\<open>if ((++last_pid)<0) last_pid=1;\<close> and the loop around it; at most 64 process ids are taken.\<close>

definition next_pid :: "int \<Rightarrow> int" where
  "next_pid p = (if wrap32 (p + 1) < 0 then 1 else wrap32 (p + 1))"

definition pid_taken :: "int \<Rightarrow> 'a sched_state_scheme \<Rightarrow> bool" where
  "pid_taken pid s \<longleftrightarrow> list_ex (\<lambda>i. task s i \<noteq> 0 \<and> t_pid (tasks s (task s i)) = pid) [0..<NR_TASKS]"

primrec fresh_pid :: "nat \<Rightarrow> 'a sched_state_scheme \<Rightarrow> (unit, 'a sched_state_scheme) outcome" where
  "fresh_pid 0 s = Stop Looping s"
| "fresh_pid (Suc n) s =
     (let s = s\<lparr>last_pid := next_pid (last_pid s)\<rparr>
      in if pid_taken (last_pid s) s then fresh_pid n s else Done () s)"

definition find_empty_process :: "'a sched_state_scheme \<Rightarrow> (int, 'a sched_state_scheme) outcome" where
  "find_empty_process s =
     kbind (fresh_pid (Suc NR_TASKS) s) (\<lambda>_ s.
     case find (\<lambda>i. task s i = 0) [1..<NR_TASKS] of
       None \<Rightarrow> Done (- EAGAIN) s
     | Some i \<Rightarrow> Done (int i) s)"


subsection \<open>Exit\<close>

text \<open>\<open>free_slot\<close> is \<^verbatim>\<open>release\<close> up to its call of \<^verbatim>\<open>schedule\<close>.\<close>

definition free_slot :: "u32 \<Rightarrow> 'a sched_state_scheme \<Rightarrow> (unit, 'a sched_state_scheme) outcome" where
  "free_slot p s =
     (case find (\<lambda>i. task s i = p) [1..<NR_TASKS] of
        None \<Rightarrow> Stop (Panic ''trying to release non-existent task'') s
      | Some i \<Rightarrow> free_page p (s\<lparr>task := (task s)(i := 0)\<rparr>))"

definition release ::
  "('a sched_state_scheme) env \<Rightarrow> u32 \<Rightarrow> 'a sched_state_scheme \<Rightarrow> (unit, 'a sched_state_scheme) outcome" where
  "release e p s =
     (if p = 0 then Done () s else kbind (free_slot p s) (\<lambda>_ s. reschedule e s))"

text \<open>A task that releases itself is gone when \<^verbatim>\<open>schedule\<close> has switched to another one.\<close>

definition tell_father :: "int \<Rightarrow> 'a sched_state_scheme \<Rightarrow> (unit, 'a sched_state_scheme) outcome" where
  "tell_father pid s =
     (case (if pid = 0 then None
            else find (\<lambda>i. task s i \<noteq> 0 \<and> t_pid (tasks s (task s i)) = pid) [0..<NR_TASKS]) of
        Some i \<Rightarrow> Done () (upd_task (task s i) (\<lambda>t. t\<lparr>t_signal := t_signal t OR sig_bit SIGCHLD\<rparr>) s)
      | None \<Rightarrow>
          let code = t_exit_code (cur s)
          in kbind (free_slot (current s) (printk ''BAD BAD - no father found'' s)) (\<lambda>_ s.
             kbind (schedule s) (\<lambda>_ s. Stop (Do_Exit code) s)))"

definition adopt_slot :: "nat \<Rightarrow> 'a sched_state_scheme \<Rightarrow> 'a sched_state_scheme" where
  "adopt_slot i s =
     (let p = task s i
      in if p \<noteq> 0 \<and> t_father (tasks s p) = t_pid (cur s)
         then let s = upd_task p (\<lambda>t. t\<lparr>t_father := 1\<rparr>) s
              in if t_state (tasks s p) = TASK_ZOMBIE then snd (send_sig SIGCHLD (task s 1) True s) else s
         else s)"

definition close_files ::
  "('a fs_state_scheme) env \<Rightarrow> 'a fs_state_scheme \<Rightarrow> (unit, 'a fs_state_scheme) outcome" where
  "close_files e s =
     kfold (\<lambda>i s. if t_filp (cur s) i \<noteq> None
                  then kbind (sys_close e (of_nat i) s) (\<lambda>_ s. Done () s) else Done () s)
       [0..<NR_OPEN] s"

definition do_exit ::
  "('a fs_state_scheme) env \<Rightarrow> int \<Rightarrow> 'a fs_state_scheme \<Rightarrow> (int, 'a fs_state_scheme) outcome" where
  "do_exit e code s =
     kbind (free_page_tables (get_base (t_ldt (cur s) 1)) (get_limit 0x0F s) s) (\<lambda>_ s.
     kbind (free_page_tables (get_base (t_ldt (cur s) 2)) (get_limit 0x17 s) s) (\<lambda>_ s.
     kbind (close_files e (fold adopt_slot [0..<NR_TASKS] s)) (\<lambda>_ s.
     kbind (iput e (t_pwd (cur s)) s) (\<lambda>_ s.
     kbind (iput e (t_root (cur s)) (upd_cur (\<lambda>t. t\<lparr>t_pwd := None\<rparr>) s)) (\<lambda>_ s.
     kbind (iput e (t_executable (cur s)) (upd_cur (\<lambda>t. t\<lparr>t_root := None\<rparr>) s)) (\<lambda>_ s.
     let s = upd_cur (\<lambda>t. t\<lparr>t_executable := None\<rparr>) s;
         s = (if t_leader (cur s) \<noteq> 0 \<and> 0 \<le> t_tty (cur s)
              then s\<lparr>tty_pgrp := (tty_pgrp s)(nat (t_tty (cur s)) := 0)\<rparr> else s);
         s = (if last_task_used_math s = current s then s\<lparr>last_task_used_math := 0\<rparr> else s);
         s = (if t_leader (cur s) \<noteq> 0 then kill_session s else s);
         s = upd_cur (\<lambda>t. t\<lparr>t_state := TASK_ZOMBIE, t_exit_code := code\<rparr>) s
     in kbind (tell_father (t_father (cur s)) s) (\<lambda>_ s.
        kbind (schedule s) (\<lambda>_ s. Stop (Do_Exit code) s))))))))"

definition sys_exit ::
  "('a fs_state_scheme) env \<Rightarrow> int \<Rightarrow> 'a fs_state_scheme \<Rightarrow> (int, 'a fs_state_scheme) outcome" where
  "sys_exit e error_code s = do_exit e (push_bit 8 (error_code AND 0xFF)) s"


subsection \<open>Waiting for children\<close>

definition WNOHANG :: int where "WNOHANG = 1"
definition WUNTRACED :: int where "WUNTRACED = 2"

text \<open>Whether the caller asked for the child at \<open>p\<close>.\<close>

definition wanted_child :: "int \<Rightarrow> u32 \<Rightarrow> 'a sched_state_scheme \<Rightarrow> bool" where
  "wanted_child pid p s \<longleftrightarrow> p \<noteq> 0 \<and> p \<noteq> current s \<and> t_father (tasks s p) = t_pid (cur s) \<and>
     (if 0 < pid then t_pid (tasks s p) = pid
      else if pid = 0 then t_pgrp (tasks s p) = t_pgrp (cur s)
      else if pid \<noteq> - 1 then t_pgrp (tasks s p) = - pid else True)"

text \<open>How the loop over the tasks ends: a stopped or dead child, or the final value of \<^verbatim>\<open>flag\<close>.\<close>

datatype wait_result = Stopped u32 | Zombie u32 | Others bool

primrec wait_scan :: "int \<Rightarrow> int \<Rightarrow> 'a sched_state_scheme \<Rightarrow> nat list \<Rightarrow> bool \<Rightarrow> wait_result" where
  "wait_scan pid options s [] flag = Others flag"
| "wait_scan pid options s (i # is) flag =
     (let p = task s i
      in if \<not> wanted_child pid p s then wait_scan pid options s is flag
         else if t_state (tasks s p) = TASK_STOPPED
         then if options AND WUNTRACED = 0 then wait_scan pid options s is flag else Stopped p
         else if t_state (tasks s p) = TASK_ZOMBIE then Zombie p
         else wait_scan pid options s is True)"

primrec waitpid_loop ::
  "nat \<Rightarrow> ('a sched_state_scheme) env \<Rightarrow> int \<Rightarrow> u32 \<Rightarrow> int \<Rightarrow> 'a sched_state_scheme \<Rightarrow>
   (int, 'a sched_state_scheme) outcome" where
  "waitpid_loop 0 e pid stat_addr options s = Stop Asleep s"
| "waitpid_loop (Suc n) e pid stat_addr options s =
     (case wait_scan pid options s slots_down False of
        Stopped p \<Rightarrow> Done (t_pid (tasks s p)) (put_fs_long 0x7F stat_addr s)
      | Zombie p \<Rightarrow>
          let t = tasks s p;
              s = upd_cur (\<lambda>c. c\<lparr>t_cutime := t_cutime c + t_utime t, t_cstime := t_cstime c + t_stime t\<rparr>) s
          in kbind (release e p s) (\<lambda>_ s.
             Done (t_pid t) (put_fs_long (of_int (t_exit_code t)) stat_addr s))
      | Others flag \<Rightarrow>
          if \<not> flag then Done (- ECHILD) s
          else if options AND WNOHANG \<noteq> 0 then Done 0 s
          else kbind (reschedule e (upd_cur (set_state TASK_INTERRUPTIBLE) s)) (\<lambda>_ s.
               let s = upd_cur (\<lambda>t. t\<lparr>t_signal := t_signal t AND NOT (sig_bit SIGCHLD)\<rparr>) s
               in if t_signal (cur s) = 0 then waitpid_loop n e pid stat_addr options s
                  else Done (- EINTR) s))"

definition sys_waitpid ::
  "('a sched_state_scheme) env \<Rightarrow> int \<Rightarrow> u32 \<Rightarrow> int \<Rightarrow> 'a sched_state_scheme \<Rightarrow>
   (int, 'a sched_state_scheme) outcome" where
  "sys_waitpid e pid stat_addr options s =
     kbind (verify_area stat_addr 4 s) (\<lambda>_ s. waitpid_loop (Suc (patience e)) e pid stat_addr options s)"


subsection \<open>Pages of the executable\<close>

primrec share_page_loop ::
  "u32 \<Rightarrow> nat list \<Rightarrow> 'a sched_state_scheme \<Rightarrow> (int, 'a sched_state_scheme) outcome" where
  "share_page_loop address [] s = Done 0 s"
| "share_page_loop address (i # is) s =
     (let p = task s i
      in if p = 0 \<or> current s = p \<or> t_executable (tasks s p) \<noteq> t_executable (cur s)
         then share_page_loop address is s
         else kbind (try_to_share address (t_start_code (tasks s p)) (t_start_code (cur s)) s) (\<lambda>r s.
              if r \<noteq> 0 then Done 1 s else share_page_loop address is s))"

definition share_page :: "u32 \<Rightarrow> 'a fs_state_scheme \<Rightarrow> (int, 'a fs_state_scheme) outcome" where
  "share_page address s =
     (case t_executable (cur s) of
        None \<Rightarrow> Done 0 s
      | Some i \<Rightarrow>
          if i_count (inode_table s i) < 2 then Done 0 s else share_page_loop address slots_down s)"

text \<open>\<^verbatim>\<open>oom()\<close> inside the file system, where \<^verbatim>\<open>do_exit\<close> is known.\<close>

definition exit_oom ::
  "('a fs_state_scheme) env \<Rightarrow> 'a fs_state_scheme \<Rightarrow> ('b, 'a fs_state_scheme) outcome" where
  "exit_oom e s =
     (case do_exit e SIGSEGV (printk ''out of memory'' s) of Done _ s \<Rightarrow> Stop (Do_Exit SIGSEGV) s | Stop r s \<Rightarrow> Stop r s)"

fun bmap_list ::
  "('a fs_state_scheme) env \<Rightarrow> nat \<Rightarrow> int list \<Rightarrow> 'a fs_state_scheme \<Rightarrow> (u32 list, 'a fs_state_scheme) outcome" where
  "bmap_list e i [] s = Done [] s"
| "bmap_list e i (b # bs) s =
     kbind (bmap e i b s) (\<lambda>r s. kbind (bmap_list e i bs s) (\<lambda>rs s. Done (r # rs) s))"

text \<open>The bytes of the last page behind the end of the data are cleared.\<close>

definition clear_tail :: "u32 \<Rightarrow> int \<Rightarrow> 'a mm_state_scheme \<Rightarrow> 'a mm_state_scheme" where
  "clear_tail page n s = fold (\<lambda>k. put_phys_byte (page + 4096 - of_nat (k + 1)) 0) [0..<nat n] s"

definition do_no_page ::
  "('a fs_state_scheme) env \<Rightarrow> u32 \<Rightarrow> u32 \<Rightarrow> 'a fs_state_scheme \<Rightarrow> (unit, 'a fs_state_scheme) outcome" where
  "do_no_page e error_code address s =
     (let address = address AND 0xFFFFF000;
          tmp = address - t_start_code (cur s)
      in case t_executable (cur s) of
           None \<Rightarrow> get_empty_page address s
         | Some i \<Rightarrow>
             if t_end_data (cur s) \<le> tmp then get_empty_page address s
             else kbind (share_page tmp s) (\<lambda>shared s.
                  if shared \<noteq> 0 then Done () s
                  else case get_free_page s of (page, s) \<Rightarrow>
                         if page = 0 then exit_oom e s
                         else let block = 1 + int (unat tmp div BLOCK_SIZE)
                              in kbind (bmap_list e i [block, block + 1, block + 2, block + 3] s) (\<lambda>nr s.
                                 kbind (bread_page e page (i_dev (inode_table s i)) nr s) (\<lambda>_ s.
                                 let n = sint (tmp + 4096 - t_end_data (cur s));
                                     s = clear_tail page n s
                                 in case put_page page address s of (r, s) \<Rightarrow>
                                      if r \<noteq> 0 then Done () s
                                      else kbind (free_page page s) (\<lambda>_ s. exit_oom e s)))))"


subsection \<open>A fresh process id\<close>

text \<open>The ids that are tried, as a function of their number; 0 is never among them.\<close>

definition nth_pid :: "int \<Rightarrow> nat \<Rightarrow> int" where
  "nth_pid p k = (p + int k) mod (2 ^ 31 - 1) + 1"

lemma next_pid_eq:
  assumes "0 \<le> p" "p < 2 ^ 31"
  shows "next_pid p = p mod (2 ^ 31 - 1) + 1"
proof (cases "p = 2 ^ 31 - 1")
  case True
  then show ?thesis by (simp add: next_pid_def wrap32_def)
next
  case False
  then have "wrap32 (p + 1) = p + 1" "p mod (2 ^ 31 - 1) = p" using assms by (simp_all add: wrap32_id)
  then show ?thesis using assms by (simp add: next_pid_def)
qed

lemma next_pid_range: "0 \<le> p \<Longrightarrow> p < 2 ^ 31 \<Longrightarrow> 0 < next_pid p \<and> next_pid p < 2 ^ 31"
  by (simp add: next_pid_eq)

lemma nth_pid_next: "0 \<le> p \<Longrightarrow> p < 2 ^ 31 \<Longrightarrow> nth_pid (next_pid p) k = nth_pid p (Suc k)"
  by (simp add: nth_pid_def next_pid_eq mod_add_left_eq algebra_simps) (metis add.commute mod_add_left_eq)

lemma fresh_pid_loop:
  assumes "0 \<le> last_pid s" "last_pid s < 2 ^ 31" "k < n" "\<not> pid_taken (nth_pid (last_pid s) k) s"
  shows "\<exists>q. fresh_pid n s = Done () (s\<lparr>last_pid := q\<rparr>) \<and> 0 < q \<and> q < 2 ^ 31 \<and> \<not> pid_taken q s"
  using assms
proof (induction n arbitrary: s k)
  case (Suc n)
  let ?q = "next_pid (last_pid s)"
  have tk: "pid_taken x (s\<lparr>last_pid := y\<rparr>) = pid_taken x s" for x y by (simp add: pid_taken_def)
  have r: "0 < ?q" "?q < 2 ^ 31" using next_pid_range Suc.prems(1,2) by auto
  show ?case
  proof (cases "pid_taken ?q s")
    case False
    then show ?thesis using r by (auto simp: Let_def tk)
  next
    case True
    have "?q = nth_pid (last_pid s) 0" using Suc.prems(1,2) by (simp add: nth_pid_def next_pid_eq)
    then have "k \<noteq> 0" using True Suc.prems(4) by metis
    then obtain j where j: "k = Suc j" by (cases k) auto
    have "\<not> pid_taken (nth_pid ?q j) s" using Suc.prems(1,2,4) j by (simp add: nth_pid_next)
    then have "\<exists>q. fresh_pid n (s\<lparr>last_pid := ?q\<rparr>) = Done () ((s\<lparr>last_pid := ?q\<rparr>)\<lparr>last_pid := q\<rparr>) \<and>
        0 < q \<and> q < 2 ^ 31 \<and> \<not> pid_taken q (s\<lparr>last_pid := ?q\<rparr>)"
      using r Suc.prems(3) j by (intro Suc.IH [of _ j]) (simp_all add: tk)
    then show ?thesis using True by (simp add: Let_def tk)
  qed
qed simp

text \<open>More candidates than tasks: one of them is free.\<close>

lemma some_pid_free: "\<exists>k<Suc NR_TASKS. \<not> pid_taken (nth_pid p k) s"
proof (rule ccontr)
  assume "\<not> (\<exists>k<Suc NR_TASKS. \<not> pid_taken (nth_pid p k) s)"
  then have "\<forall>k\<in>{..<Suc NR_TASKS}. \<exists>i. i < NR_TASKS \<and> t_pid (tasks s (task s i)) = nth_pid p k"
    unfolding pid_taken_def list_ex_iff by fastforce
  then obtain g where g: "\<And>k. k < Suc NR_TASKS \<Longrightarrow> g k < NR_TASKS \<and> t_pid (tasks s (task s (g k))) = nth_pid p k"
    by (metis lessThan_iff)
  have inj: "inj_on (nth_pid p) {..<Suc NR_TASKS}"
  proof (rule inj_onI)
    fix k l assume kl: "k \<in> {..<Suc NR_TASKS}" "l \<in> {..<Suc NR_TASKS}" "nth_pid p k = nth_pid p l"
    then have "(2 ^ 31 - 1) dvd ((p + int k) - (p + int l))"
      by (simp add: nth_pid_def mod_eq_dvd_iff)
    then have "(2 ^ 31 - 1) dvd (int k - int l)" by simp
    moreover have "\<bar>int k - int l\<bar> < 2 ^ 31 - 1" using kl by (simp add: NR_TASKS_def)
    ultimately have "int k - int l = 0" by (meson dvd_imp_le_int not_le abs_le_D1 dvd_abs_iff zdvd_not_zless)
    then show "k = l" by simp
  qed
  have "inj_on g {..<Suc NR_TASKS}"
    by (rule inj_onI) (metis g inj inj_onD lessThan_iff)
  then have "card {..<Suc NR_TASKS} \<le> card {..<NR_TASKS}"
    using g by (intro card_inj_on_le [of g]) auto
  then show False by simp
qed

text \<open>
  C25: \<^verbatim>\<open>find_empty_process\<close> always returns. It leaves a positive process id in \<^verbatim>\<open>last_pid\<close> that no
  task has, and returns the first free slot, or \<open>- EAGAIN\<close> when there is none; nothing else
  changes.
\<close>

theorem find_empty_process_fresh:
  assumes "0 \<le> last_pid s" and "last_pid s < 2 ^ 31"
  shows "\<exists>r q. find_empty_process s = Done r (s\<lparr>last_pid := q\<rparr>) \<and> 0 < q \<and> q < 2 ^ 31 \<and>
    (\<forall>i<NR_TASKS. task s i \<noteq> 0 \<longrightarrow> t_pid (tasks s (task s i)) \<noteq> q) \<and>
    (if \<forall>i\<in>{1..<NR_TASKS}. task s i \<noteq> 0 then r = - EAGAIN
     else 0 < r \<and> r < int NR_TASKS \<and> task s (nat r) = 0 \<and> (\<forall>i\<in>{1..<nat r}. task s i \<noteq> 0))"
proof -
  obtain k where "k < Suc NR_TASKS" "\<not> pid_taken (nth_pid (last_pid s) k) s" using some_pid_free by blast
  then obtain q where q: "fresh_pid (Suc NR_TASKS) s = Done () (s\<lparr>last_pid := q\<rparr>)" "0 < q" "q < 2 ^ 31"
      "\<not> pid_taken q s"
    using fresh_pid_loop [OF assms] by blast
  have free: "\<forall>i<NR_TASKS. task s i \<noteq> 0 \<longrightarrow> t_pid (tasks s (task s i)) \<noteq> q"
    using q(4) by (auto simp: pid_taken_def list_ex_iff)
  show ?thesis
  proof (cases "find (\<lambda>i. task s i = 0) [1..<NR_TASKS]")
    case None
    then have "\<forall>i\<in>{1..<NR_TASKS}. task s i \<noteq> 0" by (auto simp: find_None_iff)
    then show ?thesis using None q free
      by (intro exI [of _ "- EAGAIN"] exI [of _ q]) (simp add: find_empty_process_def del: fresh_pid.simps)
  next
    case (Some i)
    then obtain j where j: "j < length [1..<NR_TASKS]" "task s ([1..<NR_TASKS] ! j) = 0" "i = [1..<NR_TASKS] ! j"
        "\<forall>l<j. task s ([1..<NR_TASKS] ! l) \<noteq> 0"
      by (auto simp: find_Some_iff)
    then have i: "i = j + 1" "i < NR_TASKS" "task s i = 0" by auto
    have first: "\<forall>l\<in>{1..<nat (int i)}. task s l \<noteq> 0"
    proof
      fix l assume "l \<in> {1..<nat (int i)}"
      then obtain m where "l = Suc m" "m < j" using i(1) by (cases l) auto
      then show "task s l \<noteq> 0" using j(1,4) by auto
    qed
    have some: "(\<forall>i\<in>{1..<NR_TASKS}. task s i \<noteq> 0) = False" using i by auto
    have "find_empty_process s = Done (int i) (s\<lparr>last_pid := q\<rparr>)"
      using Some q(1) by (simp add: find_empty_process_def del: fresh_pid.simps)
    moreover have "0 < int i" using i(1) by simp
    moreover have "int i < int NR_TASKS" "task s (nat (int i)) = 0" using i(2,3) by simp_all
    ultimately show ?thesis
      unfolding some if_False using q(2,3) free first by blast
  qed
qed

theorem find_empty_process_fresh_witness:
  "\<exists>r q. find_empty_process demo_sched = Done r (demo_sched\<lparr>last_pid := q\<rparr>) \<and> 0 < q \<and> r \<noteq> - EAGAIN"
proof -
  have lp: "0 \<le> last_pid demo_sched" "last_pid demo_sched < 2 ^ 31" by (simp_all add: demo_sched_def)
  have "task demo_sched 5 = 0" by (simp add: demo_sched_def)
  then have no: "(\<forall>i\<in>{1..<NR_TASKS}. task demo_sched i \<noteq> 0) = False" by (auto simp: NR_TASKS_def)
  obtain r q where rq: "find_empty_process demo_sched = Done r (demo_sched\<lparr>last_pid := q\<rparr>)" "0 < q" "0 < r"
    using find_empty_process_fresh [OF lp] unfolding no if_False by blast
  have "r \<noteq> - EAGAIN" using rq(3) by (simp add: errno_defs)
  then show ?thesis using rq(1,2) by blast
qed


subsection \<open>Waiting\<close>

lemma wait_scan_others:
  "wait_scan pid options s is flag = Others False \<longleftrightarrow> \<not> flag \<and>
     (\<forall>i\<in>set is. wanted_child pid (task s i) s \<longrightarrow>
        t_state (tasks s (task s i)) = TASK_STOPPED \<and> options AND WUNTRACED = 0)"
  by (induction "is" arbitrary: flag) (auto simp: Let_def)

lemma wait_scan_zombie:
  "wait_scan pid options s is flag = Zombie p \<Longrightarrow>
     \<exists>i\<in>set is. p = task s i \<and> wanted_child pid p s \<and> t_state (tasks s p) = TASK_ZOMBIE"
  by (induction "is" arbitrary: flag) (auto simp: Let_def split: if_splits)

lemma wait_scan_stopped:
  "wait_scan pid options s is flag = Stopped p \<Longrightarrow>
     \<exists>i\<in>set is. p = task s i \<and> wanted_child pid p s \<and> t_state (tasks s p) = TASK_STOPPED \<and>
       options AND WUNTRACED \<noteq> 0"
  by (induction "is" arbitrary: flag) (auto simp: Let_def split: if_splits)

lemma wait_scan_skips_zombies:
  "wait_scan pid options s is flag = Others f \<Longrightarrow> i \<in> set is \<Longrightarrow> wanted_child pid (task s i) s \<Longrightarrow>
     t_state (tasks s (task s i)) \<noteq> TASK_ZOMBIE"
  by (induction "is" arbitrary: flag) (auto simp: Let_def task_state_defs split: if_splits)

text \<open>
  The children that the caller asks for, as slots in the order in which they are looked at, and those among
  them that \<^verbatim>\<open>waitpid\<close> can report.
\<close>

definition asked_children :: "int \<Rightarrow> 'a sched_state_scheme \<Rightarrow> nat list" where
  "asked_children pid s = filter (\<lambda>i. let p = task s i; t = tasks s p
     in p \<noteq> 0 \<and> p \<noteq> current s \<and> t_father t = t_pid (cur s) \<and> (0 < pid \<longrightarrow> t_pid t = pid) \<and>
        (pid = 0 \<longrightarrow> t_pgrp t = t_pgrp (cur s)) \<and> (pid < - 1 \<longrightarrow> t_pgrp t = - pid)) (rev [1..<NR_TASKS])"

definition reportable :: "int \<Rightarrow> task_struct \<Rightarrow> bool" where
  "reportable options t \<longleftrightarrow> t_state t = TASK_ZOMBIE \<or> t_state t = TASK_STOPPED \<and> options AND WUNTRACED \<noteq> 0"

lemma asked_children_wanted: "asked_children pid s = filter (\<lambda>i. wanted_child pid (task s i) s) slots_down"
  by (auto simp: asked_children_def wanted_child_def slots_down_def Let_def intro!: filter_cong)

lemma wait_scan_find:
  "wait_scan pid options s is flag =
     (case find (\<lambda>i. reportable options (tasks s (task s i))) (filter (\<lambda>i. wanted_child pid (task s i) s) is) of
        None \<Rightarrow> Others (flag \<or> (\<exists>i\<in>set (filter (\<lambda>i. wanted_child pid (task s i) s) is). t_state (tasks s (task s i)) \<noteq> TASK_STOPPED))
      | Some i \<Rightarrow> if t_state (tasks s (task s i)) = TASK_STOPPED then Stopped (task s i) else Zombie (task s i))"
  by (induction "is" arbitrary: flag) (auto simp: Let_def reportable_def task_state_defs split: option.split)

lemma free_slot_at:
  assumes "slots_distinct s" "0 < i" "i < NR_TASKS" "task s i \<noteq> 0"
  shows "free_slot (task s i) s = free_page (task s i) (s\<lparr>task := (task s)(i := 0)\<rparr>)"
proof -
  have "j = i" if "task s j = task s i" "j < NR_TASKS" for j
    using assms that by (auto simp: slots_distinct_def inj_on_def)
  then have "task s (Suc j) \<noteq> task s i" if "j < i - 1" for j using that assms(3) by fastforce
  then have "find (\<lambda>j. task s j = task s i) [1..<NR_TASKS] = Some i"
    using assms(2,3) unfolding find_Some_iff by (intro exI [of _ "i - 1"]) auto
  then show ?thesis by (simp add: free_slot_def)
qed

text \<open>
  C26: what \<^verbatim>\<open>waitpid\<close> with \<^verbatim>\<open>WNOHANG\<close> does, once the place for the status can be written. It looks at the children that the
  caller asks for, from the last slot down, and reports the first one that is dead or, with \<^verbatim>\<open>WUNTRACED\<close>, stopped: for a
  stopped one the status is 0x7F; of a dead one the times are added to those of the caller, its slot is emptied and its
  page freed, the others may run, and then the status is its exit code; the result is its process number. If there
  is none it does not sleep: it returns 0 when some child is neither dead nor stopped and \<open>- ECHILD\<close> otherwise, so that a
  parent whose only children are stopped gets \<open>- ECHILD\<close> although it has children.
\<close>

theorem waitpid_nohang:
  assumes "verify_area stat_addr 4 s0 = Done () s" "options AND WNOHANG \<noteq> 0" "slots_distinct s"
  shows "sys_waitpid e pid stat_addr options s0 =
    (case find (\<lambda>i. reportable options (tasks s (task s i))) (asked_children pid s) of
       None \<Rightarrow> Done (if \<exists>i\<in>set (asked_children pid s). t_state (tasks s (task s i)) \<noteq> TASK_STOPPED then 0 else - ECHILD) s
     | Some i \<Rightarrow>
         let child = tasks s (task s i)
         in if t_state child = TASK_STOPPED then Done (t_pid child) (put_fs_long 0x7F stat_addr s)
            else kbind (free_page (task s i) ((upd_cur (\<lambda>c. c\<lparr>t_cutime := t_cutime c + t_utime child, t_cstime := t_cstime c + t_stime child\<rparr>) s)
                     \<lparr>task := (task s)(i := 0)\<rparr>)) (\<lambda>_ t.
                 kbind (reschedule e t) (\<lambda>_ u. Done (t_pid child) (put_fs_long (of_int (t_exit_code child)) stat_addr u))))"
proof -
  let ?f = "find (\<lambda>i. reportable options (tasks s (task s i))) (asked_children pid s)"
  let ?flag = "\<exists>i\<in>set (asked_children pid s). t_state (tasks s (task s i)) \<noteq> TASK_STOPPED"
  have scan: "wait_scan pid options s slots_down False = (case ?f of
        None \<Rightarrow> Others ?flag
      | Some i \<Rightarrow> if t_state (tasks s (task s i)) = TASK_STOPPED then Stopped (task s i) else Zombie (task s i))"
    by (simp only: wait_scan_find asked_children_wanted simp_thms)
  have loop: "sys_waitpid e pid stat_addr options s0 = waitpid_loop (Suc (patience e)) e pid stat_addr options s"
    by (simp add: sys_waitpid_def assms(1))
  show ?thesis
  proof (cases ?f)
    case None
    then show ?thesis unfolding loop waitpid_loop.simps scan using assms(2) by (simp add: Let_def)
  next
    case (Some i)
    then have "i \<in> set (asked_children pid s)" by (auto simp: find_Some_iff)
    then have i: "0 < i" "i < NR_TASKS" "task s i \<noteq> 0" by (auto simp: asked_children_def Let_def)
    let ?u = "upd_cur (\<lambda>c. c\<lparr>t_cutime := t_cutime c + t_utime (tasks s (task s i)), t_cstime := t_cstime c + t_stime (tasks s (task s i))\<rparr>) s"
    have "slots_distinct ?u" using assms(3) by (simp add: slots_distinct_def)
    from free_slot_at [OF this] i have "free_slot (task s i) ?u = free_page (task s i) (?u\<lparr>task := (task s)(i := 0)\<rparr>)" by simp
    then show ?thesis
      unfolding loop waitpid_loop.simps scan using Some i(3) by (simp add: Let_def release_def kbind_assoc)
  qed
qed

text \<open>A stopped child and a dead one; the place for the status is not mapped, as the address is one of the kernel itself.\<close>

definition demo_wait :: "int \<Rightarrow> sched_state" where
  "demo_wait st = upd_task 0x300000 (\<lambda>t. t\<lparr>t_father := 1, t_state := st\<rparr>) demo_sched"

theorem waitpid_nohang_witness:
  "\<forall>e. sys_waitpid e (- 1) 0 1 (demo_wait TASK_STOPPED) = Done (- ECHILD) (demo_wait TASK_STOPPED) \<and>
     sys_waitpid e (- 1) 0 3 (demo_wait TASK_STOPPED) = Done 2 (put_fs_long 0x7F 0 (demo_wait TASK_STOPPED)) \<and>
     sys_waitpid e (- 1) 0 1 (demo_wait TASK_RUNNING) = Done 0 (demo_wait TASK_RUNNING)"
proof -
  have v: "verify_area 0 4 (demo_wait st) = Done () (demo_wait st)" for st
  proof -
    have w: "write_verify x (demo_wait st) = Done () (demo_wait st)" for x by (simp add: write_verify_def demo_wait_def demo_sched_def upd_task_def)
    have "verify_pages 4 x (demo_wait st) = Done () (demo_wait st)" for x
      by (subst verify_pages.simps, simp add: w) (subst verify_pages.simps, simp)
    then show ?thesis by (simp add: verify_area_def Let_def)
  qed
  have d: "slots_distinct (demo_wait st)" for st
    using demo_sched_ok(1) by (simp add: slots_distinct_def demo_wait_def)
  have f: "asked_children (- 1) (demo_wait st) = [2]" for st
  proof -
    have "filter (\<lambda>i. i = 2) (rev [1..<NR_TASKS]) = [2]" by (simp add: NR_TASKS_def upt_rec)
    moreover have "asked_children (- 1) (demo_wait st) = filter (\<lambda>i. i = 2) (rev [1..<NR_TASKS])"
      unfolding asked_children_def Let_def
      by (intro filter_cong) (auto simp: demo_wait_def demo_sched_def demo_task_def INIT_TASK_def)
    ultimately show ?thesis by simp
  qed
  have t: "task (demo_wait st) 2 = 0x300000" "t_state (tasks (demo_wait st) 0x300000) = st" "t_pid (tasks (demo_wait st) 0x300000) = 2" for st
    by (simp_all add: demo_wait_def demo_sched_def demo_task_def)
  have o: "1 AND WNOHANG \<noteq> 0" "3 AND WNOHANG \<noteq> 0" by (simp_all add: WNOHANG_def)
  show ?thesis
    using waitpid_nohang [OF v o(1) d, of _ "- 1"] waitpid_nohang [OF v o(2) d, of _ "- 1"]
    by (simp add: f t reportable_def task_state_defs WUNTRACED_def Let_def)
qed

end
