(* ===== verification/Fd_Counts.thy ===== *)
theory Fd_Counts
  imports Process
begin

text \<open>
  The reference counts of the file table. A file is shared by all descriptors that were
  duplicated from one another and by all tasks that were forked from one another;
  \<^verbatim>\<open>f_count\<close> is the number of those descriptors. The operations that change descriptors keep
  it exact.
\<close>


subsection \<open>The invariant\<close>

definition fd_refs :: "task_struct \<Rightarrow> nat \<Rightarrow> nat" where
  "fd_refs t f = card {fd. fd < NR_OPEN \<and> t_filp t fd = Some f}"

definition used_slots :: "'a sched_state_scheme \<Rightarrow> nat set" where
  "used_slots s = {i. i < NR_TASKS \<and> task s i \<noteq> 0}"

definition refs :: "'a fs_state_scheme \<Rightarrow> nat \<Rightarrow> nat" where
  "refs s f = (\<Sum>i\<in>used_slots s. fd_refs (tasks s (task s i)) f)"

definition counted :: "'a fs_state_scheme \<Rightarrow> bool" where
  "counted s \<longleftrightarrow> slots_distinct s \<and> current s \<noteq> 0 \<and> current s \<in> task s ` {..<NR_TASKS} \<and>
     (\<forall>f. unat (f_count (file_table s f)) = refs s f)"

lemma finite_used [simp]: "finite (used_slots s)"
  by (simp add: used_slots_def)

lemma fd_refs_le: "fd_refs t f \<le> NR_OPEN"
proof -
  have "fd_refs t f \<le> card {..<NR_OPEN}" unfolding fd_refs_def by (rule card_mono) auto
  then show ?thesis by simp
qed

lemma refs_le: "refs s f \<le> 1280"
proof -
  have "card (used_slots s) \<le> card {..<NR_TASKS}" by (rule card_mono) (auto simp: used_slots_def)
  moreover have "refs s f \<le> card (used_slots s) * NR_OPEN"
    unfolding refs_def using sum_bounded_above [of "used_slots s" _ NR_OPEN] fd_refs_le by fastforce
  ultimately show ?thesis by (simp add: NR_TASKS_def NR_OPEN_def)
qed

lemma fd_refs_set:
  assumes "fd < NR_OPEN"
  shows "fd_refs (set_filp fd v t) f + of_bool (t_filp t fd = Some f) = fd_refs t f + of_bool (v = Some f)"
proof -
  let ?A = "{k. k < NR_OPEN \<and> k \<noteq> fd \<and> t_filp t k = Some f}"
  have "{k. k < NR_OPEN \<and> t_filp (set_filp fd v t) k = Some f} = (if v = Some f then insert fd ?A else ?A)"
    "{k. k < NR_OPEN \<and> t_filp t k = Some f} = (if t_filp t fd = Some f then insert fd ?A else ?A)"
    using assms by (auto simp: set_filp_def)
  then show ?thesis by (simp add: fd_refs_def)
qed

text \<open>A change of the running task changes the sum by what it changes for that task.\<close>

lemma refs_upd_cur:
  assumes "counted s"
  shows "refs (upd_cur h s) f + fd_refs (cur s) f = refs s f + fd_refs (h (cur s)) f"
proof -
  obtain c where c: "c < NR_TASKS" "task s c = current s" "task s c \<noteq> 0"
    using assms by (auto simp: counted_def)
  then have cu: "c \<in> used_slots s" by (simp add: used_slots_def)
  have us: "used_slots (upd_cur h s) = used_slots s" by (simp add: used_slots_def)
  have other: "task s i \<noteq> current s" if "i \<in> used_slots s - {c}" for i
    using that c assms inj_onD [of "task s" "{i. i < NR_TASKS \<and> task s i \<noteq> 0}" i c]
    by (auto simp: counted_def slots_distinct_def used_slots_def)
  have "refs (upd_cur h s) f = fd_refs (h (cur s)) f + (\<Sum>i\<in>used_slots s - {c}. fd_refs (tasks s (task s i)) f)"
    unfolding refs_def us using cu c other by (simp add: sum.remove [OF _ cu])
  moreover have "refs s f = fd_refs (cur s) f + (\<Sum>i\<in>used_slots s - {c}. fd_refs (tasks s (task s i)) f)"
    unfolding refs_def using cu c by (simp add: sum.remove [OF _ cu])
  ultimately show ?thesis by simp
qed

lemma counted_table:
  assumes "counted s" "\<forall>f. unat (f_count (ft f)) = refs (upd_cur h s) f"
  shows "counted ((upd_cur h s)\<lparr>file_table := ft\<rparr>)"
proof -
  have "refs ((upd_cur h s)\<lparr>file_table := ft\<rparr>) f = refs (upd_cur h s) f" for f
    by (simp add: refs_def used_slots_def)
  then show ?thesis using assms by (simp add: counted_def slots_distinct_def)
qed

lemma unat_inc: "unat (x :: u16) \<le> 1280 \<Longrightarrow> unat (x + 1) = unat x + 1"
  by (simp add: unat_word_ariths)

lemma unat_dec: "(x :: u16) \<noteq> 0 \<Longrightarrow> unat (x - 1) = unat x - 1"
  by (rule unat_minus_one)


subsection \<open>Duplicating and closing\<close>

lemma counted_cur:
  assumes "counted s" "t_filp (cur s) fd = Some f" "fd < NR_OPEN"
  shows "f_count (file_table s f) \<noteq> 0"
proof -
  have "fd_refs (cur s) f \<noteq> 0" using assms(2,3) by (auto simp: fd_refs_def)
  moreover obtain c where "c \<in> used_slots s" "task s c = current s"
    using assms(1) by (auto simp: counted_def used_slots_def)
  then have "fd_refs (cur s) f \<le> refs s f"
    unfolding refs_def using member_le_sum [of c "used_slots s" "\<lambda>i. fd_refs (tasks s (task s i)) f"] by simp
  moreover have "unat (f_count (file_table s f)) = refs s f" using assms(1) by (simp add: counted_def)
  ultimately show ?thesis by auto
qed

lemma fd_refs_clear [simp]: "fd_refs (clear_cloexec fd t) f = fd_refs t f"
  by (simp add: fd_refs_def clear_cloexec_def)

lemma t_filp_clear [simp]: "t_filp (clear_cloexec fd t) = t_filp t"
  by (simp add: clear_cloexec_def)

lemma counted_add:
  assumes "counted s" "fd < NR_OPEN" "t_filp (cur s) fd = None"
  shows "counted (upd_file f (\<lambda>x. x\<lparr>f_count := f_count x + 1\<rparr>)
           (upd_cur (set_filp fd (Some f)) (upd_cur (clear_cloexec fd) s)))"
proof -
  let ?h = "set_filp fd (Some f) \<circ> clear_cloexec fd"
  have "unat (f_count (((file_table s)(f := (file_table s f)\<lparr>f_count := f_count (file_table s f) + 1\<rparr>)) g))
      = refs (upd_cur ?h s) g" for g
    using refs_upd_cur [OF assms(1), of ?h g] fd_refs_set [OF assms(2), of "Some f" "clear_cloexec fd (cur s)" g]
      assms(1,3) refs_le [of s f] unat_inc [of "f_count (file_table s f)"]
    by (auto simp: counted_def split: if_splits)
  then have "counted ((upd_cur ?h s)\<lparr>file_table := (file_table s)(f := (file_table s f)\<lparr>f_count := f_count (file_table s f) + 1\<rparr>)\<rparr>)"
    by (intro counted_table assms) simp
  then show ?thesis by (simp add: upd_file_def upd_task_def comp_def)
qed

lemma counted_drop:
  assumes "counted s" "fd < NR_OPEN" "t_filp (cur s) fd = Some f"
  shows "counted (upd_file f (\<lambda>x. x\<lparr>f_count := f_count x - 1\<rparr>)
           (upd_cur (set_filp fd None) (upd_cur (clear_cloexec fd) s)))"
proof -
  let ?h = "set_filp fd None \<circ> clear_cloexec fd"
  have "unat (f_count (((file_table s)(f := (file_table s f)\<lparr>f_count := f_count (file_table s f) - 1\<rparr>)) g))
      = refs (upd_cur ?h s) g" for g
    using refs_upd_cur [OF assms(1), of ?h g] fd_refs_set [OF assms(2), of None "clear_cloexec fd (cur s)" g]
      assms(1,3) counted_cur [OF assms(1,3,2)] unat_dec [of "f_count (file_table s f)"]
    by (auto simp: counted_def split: if_splits)
  then have "counted ((upd_cur ?h s)\<lparr>file_table := (file_table s)(f := (file_table s f)\<lparr>f_count := f_count (file_table s f) - 1\<rparr>)\<rparr>)"
    by (intro counted_table assms) simp
  then show ?thesis by (simp add: upd_file_def upd_task_def comp_def)
qed

lemma counted_dup:
  assumes "counted s"
  shows "counted (snd (dupfd fd arg s))"
proof (cases "\<exists>f a. fd_file fd s = Some f \<and> \<not> of_nat NR_OPEN \<le> arg \<and> free_fd (unat arg) s = Some a")
  case True
  then obtain f a where fa: "fd_file fd s = Some f" "\<not> of_nat NR_OPEN \<le> arg" "free_fd (unat arg) s = Some a"
    by blast
  then have "a < NR_OPEN" "t_filp (cur s) a = None"
    by (auto simp: free_fd_def find_Some_iff)
  then show ?thesis using fa counted_add [OF assms] by (simp add: dupfd_def)
next
  case False
  then show ?thesis using assms by (auto simp: dupfd_def split: option.splits)
qed

lemma sys_close_counts:
  assumes "counted s" "fd < of_nat NR_OPEN" "t_filp (cur s) (unat fd) = Some f"
  obtains t where "counted t" "f_count (file_table t f) = f_count (file_table s f) - 1"
    "t_filp (cur t) = (t_filp (cur s))(unat fd := None)" "f_inode (file_table t f) = f_inode (file_table s f)"
    "sys_close e fd s = (if f_count (file_table t f) \<noteq> 0 then Done 0 t
       else kbind (iput e (f_inode (file_table t f)) t) (\<lambda>_ s. Done 0 s))"
proof -
  let ?t = "upd_file f (\<lambda>x. x\<lparr>f_count := f_count x - 1\<rparr>)
    (upd_cur (set_filp (unat fd) None) (upd_cur (clear_cloexec (unat fd)) s))"
  have fd: "unat fd < NR_OPEN" using assms(2) by (simp add: word_less_nat_alt NR_OPEN_def)
  have "\<not> of_nat NR_OPEN \<le> fd" using assms(2) by simp
  then have "sys_close e fd s = (if f_count (file_table ?t f) \<noteq> 0 then Done 0 ?t
      else kbind (iput e (f_inode (file_table ?t f)) ?t) (\<lambda>_ s. Done 0 s))"
    using assms(3) counted_cur [OF assms(1,3) fd] by (simp add: sys_close_def Let_def)
  then show thesis using that [OF counted_drop [OF assms(1) fd assms(3)]] by (simp add: set_filp_def)
qed


subsection \<open>Fork\<close>

text \<open>The memory manager touches its own part of the state only.\<close>

definition only_mm :: "'a mm_state_scheme \<Rightarrow> ('b, 'a mm_state_scheme) outcome \<Rightarrow> bool" where
  "only_mm s m \<longleftrightarrow> ensures m (\<lambda>_ t. mm_state.more t = mm_state.more s)"

lemma more_mm [simp]:
  "mm_state.more (poke a v s) = mm_state.more s" "mm_state.more (set_map k b s) = mm_state.more s"
  "mm_state.more (printk f s) = mm_state.more s" "mm_state.more (zero_page p s) = mm_state.more s"
  by (simp_all add: poke_def set_map_def printk_def zero_page_def)

lemma more_get_free_page [simp]: "mm_state.more (snd (get_free_page s)) = mm_state.more s"
  by (simp add: get_free_page_def Let_def split: option.splits)

lemma only_mm_free_page: "only_mm s (free_page a s)"
  by (simp add: only_mm_def free_page_def Let_def)

lemma only_mm_bind:
  assumes "only_mm s m" "\<And>a t. mm_state.more t = mm_state.more s \<Longrightarrow> only_mm t (f a t)"
  shows "only_mm s (kbind m f)"
  using assms by (auto simp: only_mm_def ensures_kbind elim!: ensures_mono)

lemma only_mm_free_table_entries: "only_mm s (free_table_entries n a s)"
proof (induction n arbitrary: a s)
  case 0
  then show ?case by (simp add: only_mm_def)
next
  case (Suc n)
  have "only_mm t (free_table_entries n b (poke a 0 t))" for b and t :: "'a mm_state_scheme"
    using Suc.IH [of "poke a 0 t" b] by (simp add: only_mm_def)
  then show ?case
    using only_mm_free_page by (auto intro!: only_mm_bind simp: only_mm_def [of _ "Done () _"])
qed

lemma only_mm_free_dir_entries: "only_mm s (free_dir_entries n a s)"
proof (induction n arbitrary: a s)
  case 0
  then show ?case by (simp add: only_mm_def)
next
  case (Suc n)
  have "only_mm t (free_dir_entries n b (poke a 0 t))" for b and t :: "'a mm_state_scheme"
    using Suc.IH [of "poke a 0 t" b] by (simp add: only_mm_def)
  then show ?case
    using only_mm_free_page only_mm_free_table_entries Suc.IH
    by (auto intro!: only_mm_bind simp del: free_table_entries.simps)
qed

lemma only_mm_free_page_tables: "only_mm s (free_page_tables a n s)"
proof -
  have "only_mm t (Done 0 t)" for t :: "'a mm_state_scheme" by (simp add: only_mm_def)
  then show ?thesis
    by (auto simp: free_page_tables_def intro!: only_mm_bind only_mm_free_dir_entries) (simp_all add: only_mm_def)
qed

lemma more_copy_table_entries [simp]: "mm_state.more (copy_table_entries n a b s) = mm_state.more s"
  by (induction n arbitrary: a b s) (simp_all add: copy_table_entry_def Let_def)

lemma only_mm_copy_dir_entries: "only_mm s (copy_dir_entries from n a b s)"
proof (induction n arbitrary: a b s)
  case 0
  then show ?case by (simp add: only_mm_def)
next
  case (Suc n)
  obtain p u where p: "get_free_page s = (p, u)" by fastforce
  then have "mm_state.more u = mm_state.more s" using more_get_free_page [of s] by simp
  moreover have "ensures (copy_dir_entries from n a b v) (\<lambda>_ t. mm_state.more t = mm_state.more s)"
    if "mm_state.more v = mm_state.more s" for a b v
    using Suc.IH [of v a b] that by (simp add: only_mm_def)
  ultimately show ?case using p by (simp add: only_mm_def Let_def)
qed

lemma only_mm_copy_page_tables: "only_mm s (copy_page_tables a b n s)"
  unfolding copy_page_tables_def using only_mm_copy_dir_entries by (auto simp: only_mm_def)

text \<open>What the invariant looks at.\<close>

definition fd_view :: "'a fs_state_scheme \<Rightarrow> (nat \<Rightarrow> u32) \<times> u32 \<times> (nat \<Rightarrow> u16) \<times> (u32 \<Rightarrow> nat \<Rightarrow> nat option)" where
  "fd_view s = (task s, current s, \<lambda>f. f_count (file_table s f), \<lambda>q. t_filp (tasks s q))"

lemma fd_view_refs:
  assumes "fd_view t = fd_view s"
  shows "refs t f = refs s f"
proof -
  have "task t = task s" "t_filp (tasks t q) = t_filp (tasks s q)" for q
    using assms fun_cong [of "\<lambda>q. t_filp (tasks t q)" "\<lambda>q. t_filp (tasks s q)"] by (auto simp: fd_view_def)
  then show ?thesis by (simp add: refs_def used_slots_def fd_refs_def)
qed

lemma counted_view:
  assumes "fd_view t = fd_view s"
  shows "counted t = counted s"
proof -
  have "task t = task s" "current t = current s" "f_count (file_table t f) = f_count (file_table s f)" for f
    using assms fun_cong [of "\<lambda>f. f_count (file_table t f)" "\<lambda>f. f_count (file_table s f)"]
    by (auto simp: fd_view_def)
  then show ?thesis using fd_view_refs [OF assms] by (simp add: counted_def slots_distinct_def)
qed

lemma more_view:
  assumes "mm_state.more t = mm_state.more s"
  shows "fd_view t = fd_view s" "tasks t = tasks s" "task t = task s" "current t = current s"
    "file_table t = file_table s"
  using assms by (cases s; cases t; simp add: fd_view_def)+

lemma fd_view_upd_task: "(\<And>t. t_filp (h t) = t_filp t) \<Longrightarrow> fd_view (upd_task p h s) = fd_view s"
  by (auto simp: fd_view_def)

lemma only_mm_copy_or_free:
  "only_mm s (kbind (copy_page_tables a b n s) (\<lambda>r s.
     if r \<noteq> 0 then kbind (free_page_tables b n (printk m s)) (\<lambda>_ s. Done x s) else Done y s))"
proof (rule only_mm_bind [OF only_mm_copy_page_tables])
  fix r and t :: "'a mm_state_scheme"
  have "ensures (free_page_tables b n (printk m t)) (\<lambda>_ u. mm_state.more u = mm_state.more t)"
    using only_mm_free_page_tables [of "printk m t" b n] by (simp add: only_mm_def)
  then show "only_mm t (if r \<noteq> 0 then kbind (free_page_tables b n (printk m t)) (\<lambda>_ s. Done x s) else Done y t)"
    by (simp add: only_mm_def ensures_kbind)
qed

lemma only_mm_ensures: "only_mm s m \<Longrightarrow> (\<And>t. mm_state.more t = mm_state.more s \<Longrightarrow> Q t) \<Longrightarrow> ensures m (\<lambda>_ t. Q t)"
  by (auto simp: only_mm_def elim: ensures_mono)

lemma copy_mem_view:
  "ensures (copy_mem nr p s) (\<lambda>_ t. fd_view t = fd_view s \<and> t_filp (tasks t p) = t_filp (tasks s p))"
proof -
  let ?h = "\<lambda>t. t\<lparr>t_start_code := of_nat nr * 0x4000000,
      t_ldt := (t_ldt t)(1 := set_base (of_nat nr * 0x4000000) (t_ldt t 1), 2 := set_base (of_nat nr * 0x4000000) (t_ldt t 2))\<rparr>"
  let ?s = "upd_task p ?h s"
  have v: "fd_view t = fd_view s \<and> t_filp (tasks t p) = t_filp (tasks s p)"
    if "mm_state.more t = mm_state.more ?s" for t
    using more_view(1,2) [OF that] fd_view_upd_task [of ?h p s] by simp
  show ?thesis unfolding copy_mem_def Let_def
    by (simp only: split: if_split) (intro conjI impI ensures_simps(2) only_mm_ensures [OF only_mm_copy_or_free] v)
qed

lemma share_files_frame:
  "task (share_files filp s) = task s" "current (share_files filp s) = current s"
  "tasks (share_files filp s) = tasks s"
proof -
  have "task (fold (\<lambda>i s. case filp i of None \<Rightarrow> s | Some f \<Rightarrow> upd_file f (h f) s) xs s) = task s \<and>
      current (fold (\<lambda>i s. case filp i of None \<Rightarrow> s | Some f \<Rightarrow> upd_file f (h f) s) xs s) = current s \<and>
      tasks (fold (\<lambda>i s. case filp i of None \<Rightarrow> s | Some f \<Rightarrow> upd_file f (h f) s) xs s) = tasks s" for xs h
    by (induction xs arbitrary: s) (simp_all add: upd_file_def split: option.split)
  then show "task (share_files filp s) = task s" "current (share_files filp s) = current s"
    "tasks (share_files filp s) = tasks s"
    by (simp_all add: share_files_def)
qed

lemma share_files_count:
  "f_count (file_table (share_files filp s) f) =
   f_count (file_table s f) + of_nat (card {i. i < NR_OPEN \<and> filp i = Some f})"
proof -
  have "f_count (file_table (fold (\<lambda>i s. case filp i of None \<Rightarrow> s
        | Some f \<Rightarrow> upd_file f (\<lambda>x. x\<lparr>f_count := f_count x + 1\<rparr>) s) xs s) f) =
      f_count (file_table s f) + of_nat (length (filter (\<lambda>i. filp i = Some f) xs))" for xs
    by (induction xs arbitrary: s) (auto split: option.split)
  moreover have "card {i. i < NR_OPEN \<and> filp i = Some f} = length (filter (\<lambda>i. filp i = Some f) [0..<NR_OPEN])"
    unfolding length_filter_conv_card by (intro arg_cong [where f = card]) auto
  ultimately show ?thesis by (simp add: share_files_def)
qed

text \<open>A new task that holds the descriptors of the running one.\<close>

lemma counted_fork:
  assumes "counted s" "nr < NR_TASKS" "task s nr = 0" "p \<noteq> 0" "p \<notin> task s ` {..<NR_TASKS}"
    and t: "task t = (task s)(nr := p)" "current t = current s" "t_filp (tasks t p) = t_filp (cur s)"
      "\<And>q. q \<noteq> p \<Longrightarrow> t_filp (tasks t q) = t_filp (tasks s q)"
      "\<And>f. f_count (file_table t f) = f_count (file_table s f) + of_nat (fd_refs (cur s) f)"
  shows "counted t"
proof -
  have us: "used_slots t = insert nr (used_slots s)" "nr \<notin> used_slots s"
    using assms(2-4) t(1) by (auto simp: used_slots_def)
  have old: "task t i = task s i" "task s i \<noteq> p" if "i \<in> used_slots s" for i
    using that us(2) assms(5) t(1) by (auto simp: used_slots_def)
  have "(\<Sum>i\<in>used_slots s. fd_refs (tasks t (task t i)) f) = refs s f" for f
    unfolding refs_def using old t(4) by (intro sum.cong) (auto simp: fd_refs_def)
  then have r: "refs t f = fd_refs (cur s) f + refs s f" for f
    using us t(1,3) by (simp add: refs_def [of t] fd_refs_def)
  have "unat (f_count (file_table t f)) = refs t f" for f
  proof -
    have "unat (f_count (file_table s f)) = refs s f" using assms(1) by (simp add: counted_def)
    moreover have "refs s f + fd_refs (cur s) f < 2 ^ 16" using refs_le [of s f] fd_refs_le [of "cur s" f] by (simp add: NR_OPEN_def)
    ultimately show ?thesis using t(5) [of f] r [of f] by (simp add: unat_word_ariths unat_of_nat)
  qed
  moreover have "slots_distinct t"
    using assms(1,5) t(1) unfolding counted_def slots_distinct_def inj_on_def by (auto simp: image_iff)
  moreover have "current t \<noteq> 0" "current t \<in> task t ` {..<NR_TASKS}"
    using assms(1,3) t(1,2) unfolding counted_def by (auto simp: image_iff)
  ultimately show ?thesis by (simp add: counted_def)
qed

text \<open>Every task structure but the static one lives in a page that is in use.\<close>

definition task_pages :: "'a sched_state_scheme \<Rightarrow> bool" where
  "task_pages s \<longleftrightarrow> (\<forall>i<NR_TASKS. task s i < LOW_MEM \<or> mem_map s (MAP_NR (task s i)) \<noteq> 0)"

lemma fresh_task_page:
  assumes "task_pages s" "get_free_page s = (p, t)" "p \<noteq> 0"
  shows "p \<notin> task s ` {..<NR_TASKS}"
proof
  assume "p \<in> task s ` {..<NR_TASKS}"
  then obtain i where i: "i < NR_TASKS" "p = task s i" by auto
  obtain k where k: "scan_free (mem_map s) PAGING_PAGES = Some k" "p = page_of k"
    using assms(2,3) by (auto simp: get_free_page_def page_of_def Let_def split: option.splits)
  then have "k < PAGING_PAGES" "mem_map s k = 0" using scan_free_Some by blast+
  then show False using assms(1) i k(2) page_of_props [of k] by (auto simp: task_pages_def)
qed

lemma counted_other:
  assumes "counted s" "p \<notin> task s ` {..<NR_TASKS}" "task t = task s" "current t = current s"
    "\<And>q. q \<noteq> p \<Longrightarrow> t_filp (tasks t q) = t_filp (tasks s q)" "\<And>f. f_count (file_table t f) = f_count (file_table s f)"
  shows "counted t"
proof -
  have "t_filp (tasks t (task s i)) = t_filp (tasks s (task s i))" if "i < NR_TASKS" for i
    using assms(2) assms(5) [of "task s i"] that by auto
  then have "refs t f = refs s f" for f
    unfolding refs_def used_slots_def assms(3) by (intro sum.cong) (simp_all add: fd_refs_def)
  then show ?thesis using assms(1,3,4,6) by (simp add: counted_def slots_distinct_def)
qed

lemma fd_view_simps [simp]:
  "fd_view (set_tssldt_desc n a k s) = fd_view s" "fd_view (share_inode i s) = fd_view s"
  by (simp_all add: fd_view_def set_tssldt_desc_def share_inode_def upd_inode_def split: option.split)

lemma save_math_view:
  "fd_view (save_math p s) = fd_view s" "t_filp (tasks (save_math p s) q) = t_filp (tasks s q)"
  by (auto simp: save_math_def fd_view_def)

lemma fd_viewD:
  assumes "fd_view t = fd_view s"
  shows "task t = task s" "current t = current s" "f_count (file_table t f) = f_count (file_table s f)"
    "t_filp (tasks t q) = t_filp (tasks s q)"
  using assms fun_cong [of "\<lambda>f. f_count (file_table t f)" "\<lambda>f. f_count (file_table s f)" f]
    fun_cong [of "\<lambda>q. t_filp (tasks t q)" "\<lambda>q. t_filp (tasks s q)" q]
  by (auto simp: fd_view_def)

lemma counted_copy_process:
  assumes "counted s" "task_pages s" "nr < NR_TASKS" "task s nr = 0"
  shows "ensures (copy_process nr r s) (\<lambda>_ t. counted t)"
proof -
  obtain p s1 where g: "get_free_page s = (p, s1)" by fastforce
  then have "mm_state.more s1 = mm_state.more s" using more_get_free_page [of s] by simp
  note v1 = more_view [OF this]
  show ?thesis
  proof (cases "p = 0")
    case True
    then show ?thesis using g v1(1) assms(1) counted_view [of s1 s] by (simp add: copy_process_def)
  next
    case False
    note new = fresh_task_page [OF assms(2) g False]
    define s2 where "s2 = s1\<lparr>task := (task s1)(nr := p)\<rparr>"
    define s3 where "s3 = save_math p (upd_task p (\<lambda>_. child_task nr p r s2) s2)"
    have t3: "task s3 = (task s)(nr := p)" "current s3 = current s" "t_filp (tasks s3 p) = t_filp (cur s)"
      "f_count (file_table s3 f) = f_count (file_table s f)" for f
      using fd_viewD [OF save_math_view(1), of p "upd_task p (\<lambda>_. child_task nr p r s2) s2"] v1
      by (simp_all add: s3_def s2_def child_task_def)
    have f3: "t_filp (tasks s3 q) = t_filp (tasks s q)" if "q \<noteq> p" for q
      using that v1 by (simp add: s3_def save_math_view s2_def)
    have eq: "copy_process nr r s = kbind (copy_mem nr p s3) (\<lambda>res s.
        if res \<noteq> 0 then kbind (free_page p (s\<lparr>task := (task s)(nr := 0)\<rparr>)) (\<lambda>_ s. Done (- EAGAIN) s)
        else let s = share_files (t_filp (tasks s p)) s;
                 s = share_inode (t_pwd (cur s)) s;
                 s = share_inode (t_root (cur s)) s;
                 s = share_inode (t_executable (cur s)) s;
                 s = set_tssldt_desc (2 * nr + FIRST_TSS_ENTRY) (tss_addr p) 0x89 s;
                 s = set_tssldt_desc (2 * nr + FIRST_LDT_ENTRY) (ldt_addr p) 0x82 s;
                 s = upd_task p (set_state TASK_RUNNING) s
             in Done (last_pid s) s)"
      using g False by (simp add: copy_process_def Let_def s3_def s2_def)
    have fail: "ensures (free_page p (u\<lparr>task := (task u)(nr := 0)\<rparr>)) (\<lambda>_ t. counted t)"
      if u: "fd_view u = fd_view s3" for u
    proof (rule only_mm_ensures [OF only_mm_free_page])
      fix t assume "mm_state.more t = mm_state.more (u\<lparr>task := (task u)(nr := 0)\<rparr>)"
      note t = more_view [OF this]
      show "counted t"
        by (rule counted_other [OF assms(1) new])
          (use t f3 t3 fd_viewD [OF u] assms(4) in \<open>auto simp: fun_eq_iff\<close>)
    qed
    have ok: "counted (upd_task p (set_state TASK_RUNNING) t)"
      if u: "fd_view u = fd_view s3" and t: "fd_view t = fd_view (share_files (t_filp (tasks u p)) u)" for u t
    proof (rule counted_fork [OF assms(1,3,4) False new])
      note u = fd_viewD [OF u] and t = fd_viewD [OF t]
      show "f_count (file_table (upd_task p (set_state TASK_RUNNING) t) f) =
          f_count (file_table s f) + of_nat (fd_refs (cur s) f)" for f
        using t3 t u by (simp add: share_files_count fd_refs_def)
    qed (use t3 f3 fd_viewD [OF u] fd_viewD [OF t] in \<open>auto simp: share_files_frame set_state_def\<close>)
    show ?thesis unfolding eq ensures_kbind
      by (rule ensures_mono [OF copy_mem_view]) (auto simp: Let_def ensures_kbind intro!: fail ok)
  qed
qed


subsection \<open>The property\<close>

text \<open>
  C27: the count of every open file stays the number of descriptors that refer to it, over all
  tasks. Duplicating a descriptor keeps it so, whatever the arguments; so does forking into a
  free slot, whether it succeeds or fails; and closing a descriptor never finds a zero count:
  it takes one from the count, and the inode is released exactly when no descriptor is left.
\<close>

theorem fd_counts_kept:
  assumes "counted s"
  shows "counted (snd (dupfd fd arg s)) \<and>
    (task_pages s \<and> nr < NR_TASKS \<and> task s nr = 0 \<longrightarrow> ensures (copy_process nr r s) (\<lambda>_ t. counted t)) \<and>
    (fd < of_nat NR_OPEN \<and> t_filp (cur s) (unat fd) = Some f \<longrightarrow>
       (\<exists>t. counted t \<and> refs t f = refs s f - 1 \<and> t_filp (cur t) = (t_filp (cur s))(unat fd := None) \<and>
         sys_close e fd s = (if refs t f \<noteq> 0 then Done 0 t
           else kbind (iput e (f_inode (file_table s f)) t) (\<lambda>_ s. Done 0 s))))"
proof (intro conjI impI)
  assume a: "fd < of_nat NR_OPEN \<and> t_filp (cur s) (unat fd) = Some f"
  obtain t where t: "counted t" "f_count (file_table t f) = f_count (file_table s f) - 1"
      "t_filp (cur t) = (t_filp (cur s))(unat fd := None)" "f_inode (file_table t f) = f_inode (file_table s f)"
      "sys_close e fd s = (if f_count (file_table t f) \<noteq> 0 then Done 0 t
         else kbind (iput e (f_inode (file_table t f)) t) (\<lambda>_ s. Done 0 s))"
    using sys_close_counts [OF assms] a by blast
  have "unat fd < NR_OPEN" using a by (simp add: word_less_nat_alt NR_OPEN_def)
  then have "f_count (file_table s f) \<noteq> 0" using counted_cur [OF assms] a by blast
  moreover have c: "unat (f_count (file_table t f)) = refs t f" "unat (f_count (file_table s f)) = refs s f"
    using t(1) assms by (simp_all add: counted_def)
  ultimately have "refs t f = refs s f - 1" using unat_dec t(2) by metis
  moreover have "f_count (file_table t f) \<noteq> 0 \<longleftrightarrow> refs t f \<noteq> 0" using c(1) unat_eq_zero by metis
  ultimately show "\<exists>t. counted t \<and> refs t f = refs s f - 1 \<and> t_filp (cur t) = (t_filp (cur s))(unat fd := None) \<and>
      sys_close e fd s = (if refs t f \<noteq> 0 then Done 0 t
        else kbind (iput e (f_inode (file_table s f)) t) (\<lambda>_ s. Done 0 s))"
    using t by auto
qed (use assms counted_dup counted_copy_process in auto)

definition demo_open :: fs_state where
  "demo_open = upd_file 3 (\<lambda>x. x\<lparr>f_count := f_count x + 1\<rparr>)
     (upd_cur (set_filp 0 (Some 3)) (upd_cur (clear_cloexec 0) (demo_fs\<lparr>mem_map := (\<lambda>_. 1)(0 := 0)\<rparr>)))"

lemma demo_open_counted: "counted demo_open"
proof -
  have t: "t_filp (tasks demo_fs q) = (\<lambda>_. None)" for q
    by (simp add: demo_fs_defs demo_task_def INIT_TASK_def)
  have "refs (demo_fs\<lparr>mem_map := m\<rparr>) f = 0" for f m using t by (simp add: refs_def fd_refs_def)
  moreover have "slots_distinct (demo_fs\<lparr>mem_map := m\<rparr>)" for m
    using demo_sched_ok(1) by (simp add: slots_distinct_def demo_fs_def sched_state.defs)
  moreover have "current demo_fs \<in> task demo_fs ` {..<NR_TASKS}"
    by (rule image_eqI [of _ _ 1]) (simp_all add: demo_fs_defs NR_TASKS_def)
  ultimately have "counted (demo_fs\<lparr>mem_map := (\<lambda>_. 1)(0 := 0)\<rparr>)" by (simp add: counted_def) (simp add: demo_fs_defs)
  then show ?thesis unfolding demo_open_def by (rule counted_add) (use t in \<open>simp_all add: NR_OPEN_def\<close>)
qed

theorem fd_counts_kept_witness:
  "counted (snd (dupfd 0 0 demo_open)) \<and> (\<forall>r. ensures (copy_process 3 r demo_open) (\<lambda>_ t. counted t)) \<and>
   (\<exists>t :: fs_state. counted t \<and> t_filp (cur t) 0 = None)"
proof -
  have p: "task_pages demo_open \<and> 3 < NR_TASKS \<and> task demo_open 3 = 0"
    by (auto simp: task_pages_def demo_open_def upd_file_def upd_task_def MAP_NR_def LOW_MEM_def NR_TASKS_def demo_fs_defs)
  have f: "(0 :: u32) < of_nat NR_OPEN \<and> t_filp (cur demo_open) (unat (0 :: u32)) = Some 3"
    by (simp add: NR_OPEN_def demo_open_def set_filp_def)
  obtain t :: fs_state where "counted t" "t_filp (cur t) = (t_filp (cur demo_open))(unat (0 :: u32) := None)"
    using fd_counts_kept [OF demo_open_counted, THEN conjunct2, THEN conjunct2, THEN mp, OF f] by blast
  then have "\<exists>t :: fs_state. counted t \<and> t_filp (cur t) 0 = None" by (intro exI [of _ t]) simp
  then show ?thesis
    using fd_counts_kept [OF demo_open_counted, of 0 0 3 _ 3 demo_env] p f by blast
qed

end
