(* ===== verification/Exec.thy ===== *)
theory Exec
  imports Process
begin

text \<open>
  Executing a program, \<^verbatim>\<open>fs/exec.c\<close>, with the header of an executable from \<^verbatim>\<open>include/a.out.h\<close>. The
  strings for the new program are collected in up to 32 pages, \<open>page\<close>, which are mapped to
  the top of its address space. \<open>fs_mem\<close> is the memory the \<^verbatim>\<open>fs\<close> register selects; where the code points
  \<^verbatim>\<open>fs\<close> at the kernel, the strings it reads there are put in place for the call. After the
  point of no return \<^verbatim>\<open>fs\<close> selects the memory of the new program: the pages with the strings, and
  for the rest what page faults will load from the executable, the argument \<open>img\<close>.
\<close>


subsection \<open>Headers\<close>

record exec_hdr =
  a_magic :: u32
  a_text :: u32
  a_data :: u32
  a_bss :: u32
  a_syms :: u32
  a_entry :: u32
  a_trsize :: u32
  a_drsize :: u32

definition exec_at :: "(nat \<Rightarrow> u8) \<Rightarrow> exec_hdr" where
  "exec_at d = \<lparr>a_magic = u32_at d 0, a_text = u32_at d 4, a_data = u32_at d 8, a_bss = u32_at d 12,
     a_syms = u32_at d 16, a_entry = u32_at d 20, a_trsize = u32_at d 24, a_drsize = u32_at d 28\<rparr>"

definition ZMAGIC :: u32 where "ZMAGIC = 267"
definition SEGMENT_SIZE :: u32 where "SEGMENT_SIZE = 1024"

definition N_TXTOFF :: "exec_hdr \<Rightarrow> u32" where
  "N_TXTOFF x = (if a_magic x = ZMAGIC then (SEGMENT_SIZE - 32) + 32 else 32)"

definition MAX_ARG_PAGES :: nat where "MAX_ARG_PAGES = 32"


subsection \<open>The stack of the new program\<close>

text \<open>\<^verbatim>\<open>while (get_fs_byte(p++))\<close>: the address after the zero byte.\<close>

primrec skip_string :: "nat \<Rightarrow> u32 \<Rightarrow> 'a sched_state_scheme \<Rightarrow> u32 option" where
  "skip_string 0 p s = None"
| "skip_string (Suc n) p s = (if get_fs_byte p s = 0 then Some (p + 1) else skip_string n (p + 1) s)"

text \<open>One of the two table loops: \<open>k\<close> pointers from address \<open>t\<close> on, and the zero after them.\<close>

primrec put_pointers ::
  "nat \<Rightarrow> nat \<Rightarrow> u32 \<Rightarrow> u32 \<Rightarrow> 'a sched_state_scheme \<Rightarrow> (u32, 'a sched_state_scheme) outcome" where
  "put_pointers fuel 0 t p s = Done p (put_fs_long 0 t s)"
| "put_pointers fuel (Suc k) t p s =
     (let s = put_fs_long p t s
      in case skip_string fuel p s of
           None \<Rightarrow> Stop Looping s
         | Some p \<Rightarrow> put_pointers fuel k (t + 4) p s)"

definition create_tables ::
  "nat \<Rightarrow> u32 \<Rightarrow> nat \<Rightarrow> nat \<Rightarrow> 'a sched_state_scheme \<Rightarrow> (u32, 'a sched_state_scheme) outcome" where
  "create_tables fuel p argc envc s =
     (let sp = 0xFFFFFFFC AND p;
          envp = sp - 4 * of_nat (envc + 1);
          argv = envp - 4 * of_nat (argc + 1);
          s = put_fs_long envp (argv - 4) s;
          s = put_fs_long argv (argv - 8) s;
          s = put_fs_long (of_nat argc) (argv - 12) s
      in kbind (put_pointers fuel argc argv p s) (\<lambda>p s.
         kbind (put_pointers fuel envc envp p s) (\<lambda>_ s. Done (argv - 12) s)))"

primrec count_loop :: "nat \<Rightarrow> u32 \<Rightarrow> nat \<Rightarrow> 'a sched_state_scheme \<Rightarrow> nat option" where
  "count_loop 0 tmp i s = None"
| "count_loop (Suc n) tmp i s = (if get_fs_long tmp s = 0 then Some i else count_loop n (tmp + 4) (i + 1) s)"

definition count :: "nat \<Rightarrow> u32 \<Rightarrow> 'a sched_state_scheme \<Rightarrow> nat option" where
  "count fuel argv s = (if argv = 0 then Some 0 else count_loop fuel argv 0 s)"


subsection \<open>Copying the strings\<close>

text \<open>The length of a string with its zero byte.\<close>

primrec string_len :: "nat \<Rightarrow> u32 \<Rightarrow> 'a sched_state_scheme \<Rightarrow> nat option" where
  "string_len 0 tmp s = None"
| "string_len (Suc n) tmp s =
     (if get_fs_byte tmp s = 0 then Some 1
      else case string_len n (tmp + 1) s of None \<Rightarrow> None | Some l \<Rightarrow> Some (Suc l))"

text \<open>
  The page for position \<open>p\<close>, allocated when there is none. Positions at or above the 32
  pages are outside the array \<^verbatim>\<open>page\<close>.
\<close>

definition arg_page ::
  "(nat \<Rightarrow> u32) \<Rightarrow> u32 \<Rightarrow> 'a mm_state_scheme \<Rightarrow> (u32 \<times> (nat \<Rightarrow> u32), 'a mm_state_scheme) outcome" where
  "arg_page page p s =
     (let k = unat p div 4096
      in if MAX_ARG_PAGES \<le> k then Stop Undefined s
         else if page k \<noteq> 0 then Done (page k, page) s
         else case get_free_page s of (pag, s) \<Rightarrow> Done (pag, page(k := pag)) s)"

text \<open>
  The innermost loop, with the bytes moved from the end of the string to its start. The result is \<open>p\<close>,
  or 0 when there is no page, and \<^verbatim>\<open>page\<close>, \<^verbatim>\<open>pag\<close> and \<^verbatim>\<open>offset\<close>.
\<close>

primrec copy_bytes ::
  "nat \<Rightarrow> u32 \<Rightarrow> u32 \<Rightarrow> (nat \<Rightarrow> u32) \<Rightarrow> u32 \<Rightarrow> int \<Rightarrow> 'a sched_state_scheme \<Rightarrow>
   (u32 \<times> (nat \<Rightarrow> u32) \<times> u32 \<times> int, 'a sched_state_scheme) outcome" where
  "copy_bytes 0 tmp p page pag offset s = Done (p, page, pag, offset) s"
| "copy_bytes (Suc len) tmp p page pag offset s =
     (let p = p - 1; tmp = tmp - 1; offset = offset - 1
      in kbind (if offset < 0
                then kbind (arg_page page p s) (\<lambda>(pag, page) s. Done (pag, page, int (unat p mod 4096)) s)
                else Done (pag, page, offset) s) (\<lambda>(pag, page, offset) s.
         if pag = 0 then Done (0, page, pag, offset) s
         else copy_bytes len tmp p page pag offset (put_phys_byte (pag + of_int offset) (get_fs_byte tmp s) s)))"

text \<open>
  The strings \<open>ptr 0\<close> to \<open>ptr (argc - 1)\<close>, the last one first. The test \<^verbatim>\<open>p-len < 0\<close> compares an unsigned
  number and is never true.
\<close>

primrec copy_strings_loop ::
  "nat \<Rightarrow> nat \<Rightarrow> (nat \<Rightarrow> u32) \<Rightarrow> (nat \<Rightarrow> u32) \<Rightarrow> u32 \<Rightarrow> u32 \<Rightarrow> int \<Rightarrow> 'a sched_state_scheme \<Rightarrow>
   (u32 \<times> (nat \<Rightarrow> u32), 'a sched_state_scheme) outcome" where
  "copy_strings_loop fuel 0 ptr page p pag offset s = Done (p, page) s"
| "copy_strings_loop fuel (Suc argc) ptr page p pag offset s =
     (let tmp = ptr argc
      in if tmp = 0 then Stop (Panic ''argc is wrong'') s
         else case string_len fuel tmp s of
                None \<Rightarrow> Stop Looping s
              | Some len \<Rightarrow>
                  kbind (copy_bytes len (tmp + of_nat len) p page pag offset s) (\<lambda>(p, page, pag, offset) s.
                  if pag = 0 then Done (0, page) s
                  else copy_strings_loop fuel argc ptr page p pag offset s))"

definition copy_strings ::
  "nat \<Rightarrow> nat \<Rightarrow> (nat \<Rightarrow> u32) \<Rightarrow> (nat \<Rightarrow> u32) \<Rightarrow> u32 \<Rightarrow> 'a sched_state_scheme \<Rightarrow>
   (u32 \<times> (nat \<Rightarrow> u32), 'a sched_state_scheme) outcome" where
  "copy_strings fuel argc ptr page p s =
     (if p = 0 then Done (0, page) s else copy_strings_loop fuel argc ptr page p 0 0 s)"

text \<open>The array of pointers in user memory.\<close>

definition user_ptrs :: "u32 \<Rightarrow> 'a sched_state_scheme \<Rightarrow> nat \<Rightarrow> u32" where
  "user_ptrs argv s i = get_fs_long (argv + 4 * of_nat i) s"

text \<open>A string in kernel memory: \<open>run\<close> sees it, at address 1, while \<^verbatim>\<open>fs\<close> points to the kernel.\<close>

definition kernel_string :: "u8 list \<Rightarrow> u32 \<Rightarrow> u8" where
  "kernel_string str a = (if 1 \<le> unat a \<and> unat a \<le> length str then str ! (unat a - 1) else 0)"

definition with_kernel_fs ::
  "u8 list \<Rightarrow> (u32 \<Rightarrow> 'a sched_state_scheme \<Rightarrow> ('b, 'a sched_state_scheme) outcome) \<Rightarrow> 'a sched_state_scheme \<Rightarrow>
   ('b, 'a sched_state_scheme) outcome" where
  "with_kernel_fs str run s =
     kbind (run 1 (s\<lparr>fs_mem := kernel_string str\<rparr>)) (\<lambda>r t. Done r (t\<lparr>fs_mem := fs_mem s\<rparr>))"


subsection \<open>The new address space\<close>

definition put_arg_pages :: "(nat \<Rightarrow> u32) \<Rightarrow> u32 \<Rightarrow> 'a mm_state_scheme \<Rightarrow> 'a mm_state_scheme" where
  "put_arg_pages page data_end s =
     snd (fold (\<lambda>i (base, s). let base = base - 4096
                             in (base, if page i \<noteq> 0 then snd (put_page (page i) base s) else s))
            (rev [0..<MAX_ARG_PAGES]) (data_end, s))"

text \<open>What \<^verbatim>\<open>fs\<close> selects then: the pages with the strings at the top of the 64 MB, and the image below.\<close>

definition new_fs_mem :: "(nat \<Rightarrow> u32) \<Rightarrow> (u32 \<Rightarrow> u8) \<Rightarrow> 'a mm_state_scheme \<Rightarrow> u32 \<Rightarrow> u8" where
  "new_fs_mem page img s a =
     (let k = (unat a - (0x4000000 - 4096 * MAX_ARG_PAGES)) div 4096
      in if 0x4000000 - 4096 * MAX_ARG_PAGES \<le> unat a \<and> unat a < 0x4000000 \<and> page k \<noteq> 0
         then phys_byte (page k + of_nat (unat a mod 4096)) s else img a)"

definition change_ldt ::
  "u32 \<Rightarrow> (nat \<Rightarrow> u32) \<Rightarrow> (u32 \<Rightarrow> u8) \<Rightarrow> 'a sched_state_scheme \<Rightarrow> u32 \<times> 'a sched_state_scheme" where
  "change_ldt text_size page img s =
     (let code_limit = (text_size + 4096 - 1) AND 0xFFFFF000;
          data_limit = 0x4000000;
          code_base = get_base (t_ldt (cur s) 1);
          data_base = code_base;
          s = upd_cur (\<lambda>t. t\<lparr>t_ldt := (t_ldt t)(1 := set_limit code_limit (set_base code_base (t_ldt t 1)),
                2 := set_limit data_limit (set_base data_base (t_ldt t 2)))\<rparr>) s;
          s = put_arg_pages page (data_base + data_limit) s
      in (data_limit, s\<lparr>fs_mem := new_fs_mem page img s\<rparr>))"


subsection \<open>Scripts\<close>

text \<open>
  The first line of a script after the two marker characters: the interpreter, the part of its name
  behind the last slash, and the rest of the line as one argument.
\<close>

definition blank :: "u8 \<Rightarrow> bool" where
  "blank c \<longleftrightarrow> c = 32 \<or> c = 9"

definition base_name :: "u8 list \<Rightarrow> u8 list" where
  "base_name path = rev (takeWhile (\<lambda>c. c \<noteq> 47) (rev path))"

definition parse_interp :: "(nat \<Rightarrow> u8) \<Rightarrow> (u8 list \<times> u8 list \<times> u8 list option) option" where
  "parse_interp d =
     (let buf = takeWhile (\<lambda>c. c \<noteq> 0) (map d [2..<1024])
      in if 10 \<notin> set buf then None
         else let cp = dropWhile blank (takeWhile (\<lambda>c. c \<noteq> 10) buf)
              in if cp = [] then None
                 else let interp = takeWhile (\<lambda>c. \<not> blank c) cp;
                          rest = dropWhile (\<lambda>c. \<not> blank c) cp
                      in Some (interp, base_name interp, if rest = [] then None else Some (tl rest)))"


subsection \<open>The system call\<close>

definition free_arg_pages :: "(nat \<Rightarrow> u32) \<Rightarrow> 'a mm_state_scheme \<Rightarrow> (unit, 'a mm_state_scheme) outcome" where
  "free_arg_pages page s = kfold (\<lambda>i s. free_page (page i) s) [0..<MAX_ARG_PAGES] s"

definition exec_error1 ::
  "int \<Rightarrow> (nat \<Rightarrow> u32) \<Rightarrow> 'a mm_state_scheme \<Rightarrow> (int, 'a mm_state_scheme) outcome" where
  "exec_error1 retval page s = kbind (free_arg_pages page s) (\<lambda>_ s. Done retval s)"

definition exec_error2 ::
  "('a fs_state_scheme) env \<Rightarrow> nat \<Rightarrow> int \<Rightarrow> (nat \<Rightarrow> u32) \<Rightarrow> 'a fs_state_scheme \<Rightarrow> (int, 'a fs_state_scheme) outcome" where
  "exec_error2 e inode retval page s = kbind (iput e (Some inode) s) (\<lambda>_ s. exec_error1 retval page s)"

text \<open>May the running task execute the file, and with which ids?\<close>

definition exec_allowed :: "m_inode \<Rightarrow> 'a sched_state_scheme \<Rightarrow> bool" where
  "exec_allowed m s \<longleftrightarrow>
     (let i = (if t_euid (cur s) = i_uid m then drop_bit 6 (i_mode m)
               else if t_egid (cur s) = ucast (i_gid m) then drop_bit 3 (i_mode m) else i_mode m)
      in i AND 1 \<noteq> 0 \<or> (i_mode m AND 0x49 \<noteq> 0 \<and> suser s))"

definition exec_ids :: "m_inode \<Rightarrow> 'a sched_state_scheme \<Rightarrow> u16 \<times> u16" where
  "exec_ids m s =
     (if i_mode m AND S_ISUID \<noteq> 0 then i_uid m else t_euid (cur s),
      if i_mode m AND S_ISGID \<noteq> 0 then ucast (i_gid m) else t_egid (cur s))"

definition bad_exec :: "exec_hdr \<Rightarrow> m_inode \<Rightarrow> bool" where
  "bad_exec ex m \<longleftrightarrow> a_magic ex \<noteq> ZMAGIC \<or> a_trsize ex \<noteq> 0 \<or> a_drsize ex \<noteq> 0 \<or>
     0x3000000 < a_text ex + a_data ex + a_bss ex \<or>
     i_size m < a_text ex + a_data ex + a_syms ex + N_TXTOFF ex"

definition close_on_exec_files ::
  "('a fs_state_scheme) env \<Rightarrow> 'a fs_state_scheme \<Rightarrow> (unit, 'a fs_state_scheme) outcome" where
  "close_on_exec_files e s =
     kfold (\<lambda>i s. if bit (t_close_on_exec (cur s)) i
                  then kbind (sys_close e (of_nat i) s) (\<lambda>_ s. Done () s) else Done () s) [0..<NR_OPEN] s"

text \<open>\<^verbatim>\<open>while (i&0xfff) put_fs_byte(0,(char *) (i++));\<close>\<close>

primrec zero_tail :: "nat \<Rightarrow> u32 \<Rightarrow> 'a sched_state_scheme \<Rightarrow> 'a sched_state_scheme" where
  "zero_tail 0 i s = s"
| "zero_tail (Suc n) i s = (if i AND 0xFFF = 0 then s else zero_tail n (i + 1) (put_fs_byte 0 i s))"

text \<open>
  From the point of no return on. The result of the call is paired with the new \<^verbatim>\<open>eip[0]\<close> and \<^verbatim>\<open>eip[3]\<close>,
  or \<open>None\<close> where the call returns to the old program.
\<close>

definition exec_commit ::
  "('a fs_state_scheme) env \<Rightarrow> (u32 \<Rightarrow> u8) \<Rightarrow> nat \<Rightarrow> exec_hdr \<Rightarrow> (u16 \<times> u16) \<Rightarrow> (nat \<Rightarrow> u32) \<Rightarrow> u32 \<Rightarrow> nat \<Rightarrow> nat \<Rightarrow>
   'a fs_state_scheme \<Rightarrow> (int \<times> (u32 \<times> u32) option, 'a fs_state_scheme) outcome" where
  "exec_commit e img inode ex ids page p argc envc s =
     kbind (iput e (t_executable (cur s)) s) (\<lambda>_ s.
     let s = upd_cur (\<lambda>t. t\<lparr>t_executable := Some inode,
               t_sigaction := (\<lambda>i. if i < 32 then (t_sigaction t i)\<lparr>sa_handler := 0\<rparr> else t_sigaction t i)\<rparr>) s
     in kbind (close_on_exec_files e s) (\<lambda>_ s.
        let s = upd_cur (\<lambda>t. t\<lparr>t_close_on_exec := 0\<rparr>) s
        in kbind (free_page_tables (get_base (t_ldt (cur s) 1)) (get_limit 0x0F s) s) (\<lambda>_ s.
           kbind (free_page_tables (get_base (t_ldt (cur s) 2)) (get_limit 0x17 s) s) (\<lambda>_ s.
           let s = (if last_task_used_math s = current s then s\<lparr>last_task_used_math := 0\<rparr> else s);
               s = upd_cur (\<lambda>t. t\<lparr>t_used_math := 0\<rparr>) s
           in case change_ldt (a_text ex) page img s of (limit, s) \<Rightarrow>
              kbind (create_tables (patience e) (p + limit - of_nat (MAX_ARG_PAGES * 4096)) argc envc s) (\<lambda>p s.
              let s = upd_cur (\<lambda>t. t\<lparr>t_end_code := a_text ex, t_end_data := a_data ex + a_text ex,
                        t_brk := a_bss ex + (a_data ex + a_text ex), t_start_stack := p AND 0xFFFFF000,
                        t_euid := fst ids, t_egid := snd ids\<rparr>) s
              in Done (0, Some (a_entry ex, p)) (zero_tail 4096 (a_text ex + a_data ex) s))))))"

text \<open>
  The checks and the copying of the strings, up to the point of no return; \<open>shb\<close> is \<^verbatim>\<open>sh_bang\<close>. A script
  starts over with its interpreter, once: \<open>n = 2\<close> rounds are enough.
\<close>

primrec exec_round ::
  "nat \<Rightarrow> ('a fs_state_scheme) env \<Rightarrow> (nat \<Rightarrow> u32 \<Rightarrow> u8) \<Rightarrow> u32 \<Rightarrow> u32 \<Rightarrow> u32 \<Rightarrow> nat \<Rightarrow> bool \<Rightarrow> nat \<Rightarrow> nat \<Rightarrow>
   (nat \<Rightarrow> u32) \<Rightarrow> u32 \<Rightarrow> 'a fs_state_scheme \<Rightarrow> (int \<times> (u32 \<times> u32) option, 'a fs_state_scheme) outcome" where
  "exec_round 0 e img filename argv envp inode shb argc envc page p s = Stop Looping s"
| "exec_round (Suc n) e img filename argv envp inode shb argc envc page p s =
     (let m = inode_table s inode;
          fail2 = (\<lambda>r page s. kbind (exec_error2 e inode r page s) (\<lambda>r s. Done (r, None) s));
          fail1 = (\<lambda>r page s. kbind (exec_error1 r page s) (\<lambda>r s. Done (r, None) s));
          ids = exec_ids m s;
          fuel = patience e
      in if \<not> S_ISREG (i_mode m) then fail2 (- EACCES) page s
         else if \<not> exec_allowed m s then fail2 (- ENOEXEC) page s
         else kbind (bread e (i_dev m) (ucast (i_zone m 0)) s) (\<lambda>bh s.
              case bh of
                None \<Rightarrow> fail2 (- EACCES) page s
              | Some b \<Rightarrow>
                  let ex = exec_at (b_data s b); d = b_data s b
                  in if d 0 = 35 \<and> d 1 = 33 \<and> \<not> shb
                     then kbind (brelse e (Some b) s) (\<lambda>_ s.
                          kbind (iput e (Some inode) s) (\<lambda>_ s.
                          case parse_interp d of
                            None \<Rightarrow> fail1 (- ENOEXEC) page s
                          | Some (interp, i_name, i_arg) \<Rightarrow>
                              kbind (copy_strings fuel envc (user_ptrs envp s) page p s) (\<lambda>(p, page) s.
                              kbind (copy_strings fuel (argc - 1) (user_ptrs (argv + 4) s) page p s) (\<lambda>(p, page) s.
                              kbind (copy_strings fuel 1 (\<lambda>_. filename) page p s) (\<lambda>(p, page) s.
                              kbind (case i_arg of
                                       None \<Rightarrow> Done (p, page) s
                                     | Some a \<Rightarrow> with_kernel_fs a (\<lambda>ptr. copy_strings fuel 1 (\<lambda>_. ptr) page p) s) (\<lambda>(p, page) s.
                              kbind (with_kernel_fs i_name (\<lambda>ptr. copy_strings fuel 1 (\<lambda>_. ptr) page p) s) (\<lambda>(p, page) s.
                              if p = 0 then fail1 (- ENOMEM) page s
                              else kbind (with_kernel_fs interp (\<lambda>ptr. namei e ptr) s) (\<lambda>r s.
                                   case r of
                                     None \<Rightarrow> fail1 (- ENOENT) page s
                                   | Some inode \<Rightarrow>
                                       exec_round n e img filename argv envp inode True
                                         (argc + (if i_arg = None then 0 else 1) + 1) envc page p s))))))))
                     else kbind (brelse e (Some b) s) (\<lambda>_ s.
                          if bad_exec ex (inode_table s inode) then fail2 (- ENOEXEC) page s
                          else if N_TXTOFF ex \<noteq> of_nat BLOCK_SIZE then fail2 (- ENOEXEC) page (printk ''N_TXTOFF != BLOCK_SIZE'' s)
                          else kbind (if shb then Done (p, page) s
                                      else kbind (copy_strings fuel envc (user_ptrs envp s) page p s) (\<lambda>(p, page) s.
                                           copy_strings fuel argc (user_ptrs argv s) page p s)) (\<lambda>(p, page) s.
                               if \<not> shb \<and> p = 0 then fail2 (- ENOMEM) page s
                               else exec_commit e (img inode) inode ex ids page p argc envc s))))"

definition do_execve ::
  "('a fs_state_scheme) env \<Rightarrow> (nat \<Rightarrow> u32 \<Rightarrow> u8) \<Rightarrow> u32 \<Rightarrow> u32 \<Rightarrow> u32 \<Rightarrow> u32 \<Rightarrow> 'a fs_state_scheme \<Rightarrow>
   (int \<times> (u32 \<times> u32) option, 'a fs_state_scheme) outcome" where
  "do_execve e img cs filename argv envp s =
     (if 0xFFFF AND cs \<noteq> 0x000F then Stop (Panic ''execve called from supervisor mode'') s
      else kbind (namei e filename s) (\<lambda>r s.
           case r of
             None \<Rightarrow> Done (- ENOENT, None) s
           | Some inode \<Rightarrow>
               (case (count (patience e) argv s, count (patience e) envp s) of
                  (Some argc, Some envc) \<Rightarrow>
                    exec_round 2 e img filename argv envp inode False argc envc (\<lambda>_. 0)
                      (of_nat (4096 * MAX_ARG_PAGES) - 4) s
                | _ \<Rightarrow> Stop Looping s)))"

end
