(* ===== verification/Segments.thy ===== *)
theory Segments
  imports Fd_Counts Exec
begin

text \<open>
  The segments of a task: the descriptors of its local table keep their type, and lie in the 64 MB of its slot, through
  fork and exec.
\<close>


subsection \<open>Descriptors\<close>

lemma desc_masks:
  "(0xFF000000 :: u32) = push_bit 24 (mask 8)" "(0xFF :: u32) = mask 8" "(0xFFFF :: u32) = mask 16" "(0x00FFFF00 :: u32) = push_bit 8 (mask 16)"
  "(0xFFFF0000 :: u32) = push_bit 16 (mask 16)" "(0x000F0000 :: u32) = push_bit 16 (mask 4)" "(0xFFF0FFFF :: u32) = mask 16 OR push_bit 20 (mask 12)"
  "(0x00F0FF00 :: u32) = push_bit 8 (mask 8) OR push_bit 20 (mask 4)" "(0xFFF :: u32) = mask 12"
  by (simp_all add: mask_eq_exp_minus_1 push_bit_eq_mult)

text \<open>Words are compared field by field.\<close>

lemma field_cases:
  assumes "n < LENGTH(32)"
  obtains "n < 8" | "8 \<le> n" "n < 16" | "16 \<le> n" "n < 20" | "20 \<le> n" "n < 24" "n \<noteq> 23" | "n = 23" | "24 \<le> n" "n < 32"
  using assms by fastforce

lemma bit_outside: "32 \<le> m \<Longrightarrow> \<not> bit (w :: u32) m"
  using bit_imp_le_length [of w m] by auto

lemma bit_granularity: "bit (0x00800000 :: int) n \<longleftrightarrow> n = 23"
proof -
  have "(8388608 :: int) = 2 ^ 23" by simp
  then show ?thesis by (simp only: bit_exp_iff) auto
qed

lemmas desc_bits = bit_simps less_diff_conv2 bit_outside bit_granularity

lemma get_set_base: "get_base (set_base b d) = b"
proof (rule bit_word_eqI)
  fix n :: nat assume "n < LENGTH(32)"
  then show "bit (get_base (set_base b d)) n = bit b n"
    unfolding get_base_def set_base_def desc_masks by (elim field_cases) (simp_all add: desc_bits)
qed

lemma set_base_fields:
  "desc_b (set_base b d) AND 0x00F0FF00 = desc_b d AND 0x00F0FF00" (is ?A)
  "desc_b (set_base b d) AND 0x000F0000 = desc_b d AND 0x000F0000" (is ?B)
  "desc_b (set_base b d) AND 0x00800000 = desc_b d AND 0x00800000" (is ?C)
  "desc_a (set_base b d) AND 0xFFFF = desc_a d AND 0xFFFF" (is ?D)
proof -
  show ?A unfolding set_base_def desc_masks by (rule bit_word_eqI, erule field_cases) (simp_all add: desc_bits)
  show ?B unfolding set_base_def desc_masks by (rule bit_word_eqI, erule field_cases) (simp_all add: desc_bits)
  show ?C unfolding set_base_def desc_masks by (rule bit_word_eqI, erule field_cases) (simp_all add: desc_bits)
  show ?D unfolding set_base_def desc_masks by (rule bit_word_eqI, erule field_cases) (simp_all add: desc_bits)
qed

lemma set_base_limit: "desc_limit (set_base b d) = desc_limit d"
  by (simp add: desc_limit_def set_base_fields)

lemma set_limit_fields:
  "get_base (set_limit l d) = get_base d" (is ?A)
  "desc_b (set_limit l d) AND 0x00F0FF00 = desc_b d AND 0x00F0FF00" (is ?B)
  "(desc_a (set_limit l d) AND 0xFFFF) OR (desc_b (set_limit l d) AND 0x000F0000) = drop_bit 12 (l - 1)" (is ?C)
proof -
  show ?A unfolding get_base_def set_limit_def desc_masks Let_def by (rule bit_word_eqI, erule field_cases) (simp_all add: desc_bits)
  show ?B unfolding set_limit_def desc_masks Let_def by (rule bit_word_eqI, erule field_cases) (simp_all add: desc_bits)
  show ?C unfolding set_limit_def desc_masks Let_def by (rule bit_word_eqI, erule field_cases) (simp_all add: desc_bits)
qed


lemma set_limit_limit:
  assumes "desc_b d AND 0x00F0FF00 = w" "w AND 0x00800000 \<noteq> 0"
  shows "desc_limit (set_limit l d) = (push_bit 12 (drop_bit 12 (l - 1)) OR 0xFFF) + 1"
proof -
  have "desc_b (set_limit l d) AND 0x00800000 = (desc_b (set_limit l d) AND 0x00F0FF00) AND 0x00800000" by (simp add: and.assoc)
  also have "\<dots> = w AND 0x00800000" using set_limit_fields(2) [of l d] assms(1) by simp
  finally have "desc_b (set_limit l d) AND 0x00800000 \<noteq> 0" using assms(2) by simp
  then show ?thesis by (simp add: desc_limit_def set_limit_fields(3) Let_def)
qed

lemma aligned_limit:
  assumes "page_aligned l"
  shows "(push_bit 12 (drop_bit 12 (l - 1)) OR 0xFFF) + 1 = l"
proof -
  have "2 ^ 12 dvd l"
  proof -
    obtain k where "unat l = 4096 * k" using assms by (auto elim!: page_alignedE)
    moreover have "l = of_nat (unat l)" by simp
    ultimately have "l = 4096 * of_nat k" by (simp del: of_nat_unat)
    then show ?thesis by simp
  qed
  then have "take_bit 12 (- l) = 0" by (simp only: take_bit_eq_0_iff dvd_minus_iff)
  then have low: "\<not> bit (- l) n" if "n < 12" for n using that by (metis bit_0_eq bit_take_bit_iff bot_apply bot_bool_def)
  have "bit (l - 1) n" if "n < 12" for n
  proof -
    have "l - 1 = NOT (- l)" by (simp add: not_eq_complement)
    moreover have "bit (NOT (- l)) n" using low [OF that] that by (simp add: bit_not_iff)
    ultimately show ?thesis by (simp only:)
  qed
  note ones = this
  have fill: "push_bit 12 (drop_bit 12 x) OR mask 12 = x" if x: "\<And>n. n < 12 \<Longrightarrow> bit x n" for x :: u32
  proof (rule bit_word_eqI)
    fix n :: nat assume "n < LENGTH(32)"
    then show "bit (push_bit 12 (drop_bit 12 x) OR mask 12) n = bit x n"
      by (cases "n < 12") (simp_all add: bit_simps x)
  qed
  have "push_bit 12 (drop_bit 12 (l - 1)) OR 0xFFF = l - 1" unfolding desc_masks by (rule fill [OF ones])
  then show ?thesis by (simp only: diff_add_cancel)
qed


subsection \<open>The segments of a task\<close>

text \<open>
  Entry 1 of the local table is code that may be read, entry 2 data that may be written, both present, with privilege
  level 3 and counted in pages, both begin at 64 MB times the slot, and are at most 64 MB long; a limit of 0 stands for 4 GB.
\<close>

definition segment_ok :: "nat \<Rightarrow> u32 \<Rightarrow> desc_struct \<Rightarrow> bool" where
  "segment_ok nr type d \<longleftrightarrow> desc_b d AND 0x00F0FF00 = type \<and> get_base d = of_nat nr * 0x4000000 \<and>
     desc_limit d \<noteq> 0 \<and> desc_limit d \<le> 0x4000000"

definition code_type :: u32 where "code_type = 0x00C0FA00"
definition data_type :: u32 where "data_type = 0x00C0F200"

definition seg_ok :: "nat \<Rightarrow> task_struct \<Rightarrow> bool" where
  "seg_ok nr t \<longleftrightarrow> segment_ok nr code_type (t_ldt t 1) \<and> segment_ok nr data_type (t_ldt t 2)"

definition segments_ok :: "'a sched_state_scheme \<Rightarrow> bool" where
  "segments_ok s \<longleftrightarrow> (\<forall>i<NR_TASKS. task s i \<noteq> 0 \<longrightarrow> seg_ok i (tasks s (task s i)))"

lemma init_task_segments: "seg_ok 0 (INIT_TASK a)"
  by (simp add: seg_ok_def segment_ok_def INIT_TASK_def get_base_def desc_limit_def code_type_def data_type_def)

lemma segment_set_base: "segment_ok i ty d \<Longrightarrow> segment_ok nr ty (set_base (of_nat nr * 0x4000000) d)"
  by (simp add: segment_ok_def get_set_base set_base_fields set_base_limit)

lemma segment_set_limit:
  assumes "segment_ok nr ty d" "ty AND 0x00800000 \<noteq> 0" "page_aligned l"
  shows "desc_limit (set_limit l (set_base (get_base d) d)) = l"
    "l \<noteq> 0 \<Longrightarrow> l \<le> 0x4000000 \<Longrightarrow> segment_ok nr ty (set_limit l (set_base (get_base d) d))"
proof -
  let ?d = "set_base (get_base d) d"
  have d: "desc_b ?d AND 0x00F0FF00 = ty" "get_base ?d = of_nat nr * 0x4000000"
    using assms(1) by (simp_all add: segment_ok_def set_base_fields get_set_base)
  show l: "desc_limit (set_limit l ?d) = l"
    using set_limit_limit [OF d(1) assms(2)] aligned_limit [OF assms(3)] by simp
  show "segment_ok nr ty (set_limit l ?d)" if "l \<noteq> 0" "l \<le> 0x4000000"
    using that d l by (simp add: segment_ok_def set_limit_fields)
qed


subsection \<open>Fork\<close>

lemma copy_mem_tasks:
  fixes s :: "'a fs_state_scheme"
  shows "ensures (copy_mem nr p s) (\<lambda>_ t. task t = task s \<and> (\<forall>q. q \<noteq> p \<longrightarrow> tasks t q = tasks s q) \<and>
     t_ldt (tasks t p) = (t_ldt (tasks s p))(1 := set_base (of_nat nr * 0x4000000) (t_ldt (tasks s p) 1),
       2 := set_base (of_nat nr * 0x4000000) (t_ldt (tasks s p) 2)))"
proof -
  let ?h = "\<lambda>t. t\<lparr>t_start_code := of_nat nr * 0x4000000,
      t_ldt := (t_ldt t)(1 := set_base (of_nat nr * 0x4000000) (t_ldt t 1), 2 := set_base (of_nat nr * 0x4000000) (t_ldt t 2))\<rparr>"
  have "task t = task s \<and> (\<forall>q. q \<noteq> p \<longrightarrow> tasks t q = tasks s q) \<and>
     t_ldt (tasks t p) = (t_ldt (tasks s p))(1 := set_base (of_nat nr * 0x4000000) (t_ldt (tasks s p) 1),
       2 := set_base (of_nat nr * 0x4000000) (t_ldt (tasks s p) 2))" if "mm_state.more t = mm_state.more (upd_task p ?h s)" for t :: "'a fs_state_scheme"
    using more_view(2,3) [OF that] by simp
  note v = this
  show ?thesis unfolding copy_mem_def Let_def
    by (simp only: split: if_split) (intro conjI impI ensures_simps(2) only_mm_ensures [OF only_mm_copy_or_free] v)
qed


lemma segments_other:
  assumes "segments_ok s" "task t = task s" "\<And>i. i < NR_TASKS \<Longrightarrow> t_ldt (tasks t (task s i)) = t_ldt (tasks s (task s i))"
  shows "segments_ok t"
  using assms by (auto simp: segments_ok_def seg_ok_def)

lemma segments_new:
  assumes "segments_ok s" "task t = (task s)(nr := p)" "\<And>i. i < NR_TASKS \<Longrightarrow> t_ldt (tasks t (task s i)) = t_ldt (tasks s (task s i))"
    and "seg_ok nr (tasks t p)"
  shows "segments_ok t"
  using assms by (auto simp: segments_ok_def seg_ok_def)

lemma seg_ok_child:
  assumes "seg_ok i u" "t_ldt t = (t_ldt u)(1 := set_base (of_nat nr * 0x4000000) (t_ldt u 1), 2 := set_base (of_nat nr * 0x4000000) (t_ldt u 2))"
  shows "seg_ok nr t"
  using assms segment_set_base [of i _ _ nr] by (simp add: seg_ok_def)

text \<open>What follows \<open>copy_mem\<close> in \<open>copy_process\<close> leaves the local tables alone.\<close>

definition child_rest :: "nat \<Rightarrow> u32 \<Rightarrow> 'a fs_state_scheme \<Rightarrow> 'a fs_state_scheme" where
  "child_rest nr p s =
     (let s = share_files (t_filp (tasks s p)) s;
          s = share_inode (t_pwd (cur s)) s;
          s = share_inode (t_root (cur s)) s;
          s = share_inode (t_executable (cur s)) s;
          s = set_tssldt_desc (2 * nr + FIRST_TSS_ENTRY) (tss_addr p) 0x89 s;
          s = set_tssldt_desc (2 * nr + FIRST_LDT_ENTRY) (ldt_addr p) 0x82 s
      in upd_task p (set_state TASK_RUNNING) s)"

lemma child_rest_ldt: "task (child_rest nr p s) = task s" "t_ldt (tasks (child_rest nr p s) q) = t_ldt (tasks s q)"
  by (simp_all add: child_rest_def Let_def share_inode_def upd_inode_def set_tssldt_desc_def share_files_frame set_state_def split: option.split)

lemma copy_process_segments:
  fixes s :: "'a fs_state_scheme"
  assumes ok: "segments_ok s" "task_pages s" and slot: "nr < NR_TASKS" "task s nr = 0"
    and cur: "i < NR_TASKS" "current s = task s i" "current s \<noteq> 0"
  shows "ensures (copy_process nr r s) (\<lambda>_ t. segments_ok t)"
proof -
  obtain p s1 where g: "get_free_page s = (p, s1)" by fastforce
  then have "mm_state.more s1 = mm_state.more s" using more_get_free_page [of s] by simp
  note v1 = more_view [OF this]
  show ?thesis
  proof (cases "p = 0")
    case True
    then show ?thesis using g v1 segments_other [OF ok(1), of s1] by (simp add: copy_process_def)
  next
    case False
    note new = fresh_task_page [OF ok(2) g False]
    define s2 where "s2 = s1\<lparr>task := (task s1)(nr := p)\<rparr>"
    define s3 where "s3 = save_math p (upd_task p (\<lambda>_. child_task nr p r s2) s2)"
    have t3: "task s3 = (task s)(nr := p)" "t_ldt (tasks s3 p) = t_ldt (cur s)" "q \<noteq> p \<Longrightarrow> t_ldt (tasks s3 q) = t_ldt (tasks s q)" for q
      using v1 by (auto simp: s3_def s2_def save_math_def child_task_def)
    have eq: "copy_process nr r s = kbind (copy_mem nr p s3) (\<lambda>res s.
        if res \<noteq> 0 then kbind (free_page p (s\<lparr>task := (task s)(nr := 0)\<rparr>)) (\<lambda>_ s. Done (- EAGAIN) s)
        else Done (last_pid (child_rest nr p s)) (child_rest nr p s))"
      using g False by (simp add: copy_process_def Let_def s3_def s2_def child_rest_def cong: if_cong)
    have other: "task s j \<noteq> p" if "j < NR_TASKS" for j using new that by auto
    have "ensures (free_page p (u\<lparr>task := (task u)(nr := 0)\<rparr>)) (\<lambda>_ t. segments_ok t)"
      if "task u = task s3" "\<forall>q. q \<noteq> p \<longrightarrow> tasks u q = tasks s3 q" for u :: "'a fs_state_scheme"
    proof (rule only_mm_ensures [OF only_mm_free_page])
      fix t assume "mm_state.more t = mm_state.more (u\<lparr>task := (task u)(nr := 0)\<rparr>)"
      note t = more_view [OF this]
      have "task t = task s" using t(3) that(1) t3(1) slot(2) by (auto simp: fun_eq_iff)
      then show "segments_ok t" by (rule segments_other [OF ok(1)]) (use t(2) that(2) t3(3) other in auto)
    qed
    moreover have "segments_ok (child_rest nr p u)"
      if "task u = task s3" "\<forall>q. q \<noteq> p \<longrightarrow> tasks u q = tasks s3 q"
        "t_ldt (tasks u p) = (t_ldt (tasks s3 p))(1 := set_base (of_nat nr * 0x4000000) (t_ldt (tasks s3 p) 1),
           2 := set_base (of_nat nr * 0x4000000) (t_ldt (tasks s3 p) 2))" for u :: "'a fs_state_scheme"
    proof (rule segments_new [OF ok(1)])
      show "task (child_rest nr p u) = (task s)(nr := p)" using that(1) t3(1) by (simp add: child_rest_ldt)
      show "t_ldt (tasks (child_rest nr p u) (task s j)) = t_ldt (tasks s (task s j))" if "j < NR_TASKS" for j
        using other [OF that] \<open>\<forall>q. q \<noteq> p \<longrightarrow> tasks u q = tasks s3 q\<close> t3(3) by (simp add: child_rest_ldt)
      have "seg_ok i (cur s)" using ok(1) cur by (auto simp: segments_ok_def)
      then show "seg_ok nr (tasks (child_rest nr p u) p)"
        by (rule seg_ok_child) (use that(3) t3(2) in \<open>simp add: child_rest_ldt\<close>)
    qed
    ultimately show ?thesis unfolding eq ensures_kbind
      by (intro ensures_mono [OF copy_mem_tasks]) (auto simp: ensures_kbind)
  qed
qed


subsection \<open>Exec\<close>

lemma more_put_page: "mm_state.more (snd (put_page p a s)) = mm_state.more s"
proof -
  have "mm_state.more (put_page_checks p s) = mm_state.more s" by (simp add: put_page_checks_def Let_def)
  moreover obtain q t where t: "get_free_page (put_page_checks p s) = (q, t)" by fastforce
  moreover have "mm_state.more t = mm_state.more (put_page_checks p s)" using more_get_free_page [of "put_page_checks p s"] t by simp
  ultimately show ?thesis by (simp add: put_page_def Let_def)
qed

lemma more_put_arg_pages:
  fixes s :: "'a mm_state_scheme"
  shows "mm_state.more (put_arg_pages page a s) = mm_state.more s"
proof -
  have "mm_state.more (snd (fold (\<lambda>i (base, s). let base = base - 4096
                             in (base, if page i \<noteq> 0 then snd (put_page (page i) base s) else s)) xs bs)) = mm_state.more (snd bs)"
    for xs and bs :: "u32 \<times> 'a mm_state_scheme"
    by (induction xs arbitrary: bs) (simp_all add: Let_def more_put_page split: prod.splits)
  then show ?thesis by (simp add: put_arg_pages_def)
qed

lemma change_ldt_tasks:
  fixes s :: "'a fs_state_scheme"
  assumes u: "u = snd (change_ldt ts page img s)"
  shows "task u = task s" "current u = current s" "q \<noteq> current s \<Longrightarrow> tasks u q = tasks s q"
    "t_ldt (cur u) = (t_ldt (cur s))(1 := set_limit ((ts + 4095) AND 0xFFFFF000) (set_base (get_base (t_ldt (cur s) 1)) (t_ldt (cur s) 1)),
       2 := set_limit 0x4000000 (set_base (get_base (t_ldt (cur s) 1)) (t_ldt (cur s) 2)))"
proof -
  let ?v = "upd_cur (\<lambda>t. t\<lparr>t_ldt := (t_ldt t)(1 := set_limit ((ts + 4095) AND 0xFFFFF000) (set_base (get_base (t_ldt (cur s) 1)) (t_ldt t 1)),
      2 := set_limit 0x4000000 (set_base (get_base (t_ldt (cur s) 1)) (t_ldt t 2)))\<rparr>) s"
  define w where "w = put_arg_pages page (get_base (t_ldt (cur s) 1) + 0x4000000) ?v"
  have w: "mm_state.more w = mm_state.more ?v" "u = w\<lparr>fs_mem := new_fs_mem page img w\<rparr>"
    unfolding w_def by (rule more_put_arg_pages) (simp add: u change_ldt_def Let_def add.commute [of ts])
  note m = more_view [OF w(1)]
  show "task u = task s" "current u = current s" "q \<noteq> current s \<Longrightarrow> tasks u q = tasks s q"
    "t_ldt (cur u) = (t_ldt (cur s))(1 := set_limit ((ts + 4095) AND 0xFFFFF000) (set_base (get_base (t_ldt (cur s) 1)) (t_ldt (cur s) 1)),
       2 := set_limit 0x4000000 (set_base (get_base (t_ldt (cur s) 1)) (t_ldt (cur s) 2)))"
    using w(2) m(2-4) by simp_all
qed

text \<open>The text rounded up to pages, as a limit: it is in bounds for the sizes from 1 byte to 64 MB, and 0 for a size near 4 GB.\<close>

lemma text_limit_fits:
  fixes ts :: u32
  defines "l \<equiv> (ts + 4095) AND 0xFFFFF000"
  shows "l \<noteq> 0 \<and> l \<le> 0x4000000 \<longleftrightarrow> 0 < ts \<and> ts \<le> 0x4000000"
proof -
  have l: "unat l = 4096 * ((unat ts + 4095) mod 2 ^ 32 div 4096)"
    by (simp add: l_def unat_and_page unat_word_ariths)
  have lt: "unat ts < 2 ^ 32" using unsigned_less [of ts] by simp
  have "unat l \<noteq> 0 \<and> unat l \<le> 0x4000000 \<longleftrightarrow> 0 < unat ts \<and> unat ts \<le> 0x4000000"
  proof (cases "unat ts + 4095 < 2 ^ 32")
    case True
    define q where "q = (unat ts + 4095) div 4096"
    have "unat l = 4096 * q" using l True by (simp add: q_def)
    moreover have n: "4096 * q \<le> unat ts + 4095" "unat ts + 4095 < 4096 * q + 4096" using q_def by linarith+
    have "q \<noteq> 0 \<longleftrightarrow> 0 < unat ts" using n by (cases q) auto
    moreover have "q \<le> 0x4000 \<longleftrightarrow> unat ts \<le> 0x4000000" using n by (cases "q \<le> 0x4000") linarith+
    ultimately show ?thesis by auto
  next
    case False
    then have "(unat ts + 4095) mod 2 ^ 32 = unat ts + 4095 - 2 ^ 32" using lt by (simp add: mod_if)
    then have "unat l = 0" using l lt by simp
    then show ?thesis using False by simp
  qed
  then show ?thesis by (simp add: word_le_nat_alt word_less_nat_alt unat_eq_zero)
qed

lemma change_ldt_segments:
  fixes s :: "'a fs_state_scheme"
  assumes ok: "segments_ok s" "slots_distinct s" and cur: "i < NR_TASKS" "current s = task s i" "current s \<noteq> 0"
    and u: "u = snd (change_ldt ts page img s)"
  shows "desc_limit (t_ldt (cur u) 1) = (ts + 4095) AND 0xFFFFF000" "segments_ok u \<longleftrightarrow> 0 < ts \<and> ts \<le> 0x4000000"
proof -
  note t = change_ldt_tasks [OF u]
  let ?l = "(ts + 4095) AND 0xFFFFF000"
  have si: "seg_ok i (cur s)" using ok(1) cur by (auto simp: segments_ok_def)
  then have c: "segment_ok i code_type (t_ldt (cur s) 1)" and d: "segment_ok i data_type (t_ldt (cur s) 2)"
    by (simp_all add: seg_ok_def)
  have base: "get_base (t_ldt (cur s) 2) = get_base (t_ldt (cur s) 1)" using c d by (simp add: segment_ok_def)
  have ty: "code_type AND 0x00800000 \<noteq> 0" "data_type AND 0x00800000 \<noteq> 0" by (simp_all add: code_type_def data_type_def)
  have al: "page_aligned (0x4000000 :: u32)" by (simp add: page_aligned_def)
  show lim: "desc_limit (t_ldt (cur u) 1) = ?l"
    using segment_set_limit(1) [OF c ty(1), of ?l] by (simp add: t(4))
  show "segments_ok u \<longleftrightarrow> 0 < ts \<and> ts \<le> 0x4000000"
  proof
    assume "segments_ok u"
    then have "seg_ok i (cur u)" using cur t(1,2) by (auto simp: segments_ok_def)
    then have "?l \<noteq> 0 \<and> ?l \<le> 0x4000000" using lim unfolding seg_ok_def segment_ok_def by simp
    then show "0 < ts \<and> ts \<le> 0x4000000" by (simp only: text_limit_fits)
  next
    assume "0 < ts \<and> ts \<le> 0x4000000"
    then have l: "?l \<noteq> 0" "?l \<le> 0x4000000" using text_limit_fits [of ts] by simp_all
    have "segment_ok i code_type (t_ldt (cur u) 1)" using segment_set_limit(2) [OF c ty(1), of ?l] l by (simp add: t(4))
    moreover have "segment_ok i data_type (t_ldt (cur u) 2)" using segment_set_limit(2) [OF d ty(2) al] by (simp add: t(4) base)
    ultimately have "seg_ok i (cur u)" by (simp add: seg_ok_def)
    moreover have "task s j = task s i \<Longrightarrow> j = i" if "j < NR_TASKS" "task s j \<noteq> 0" for j
      using ok(2) that cur by (auto simp: slots_distinct_def inj_on_def)
    ultimately show "segments_ok u" using ok(1) cur t(1-3) unfolding segments_ok_def by (metis (no_types, lifting))
  qed
qed


subsection \<open>Which texts an executable may have\<close>

text \<open>
  The sizes of a header are added with wrap-around: without overflow the check of \<open>do_execve\<close> bounds the text, but
  with a suitable size of the data every text passes it.
\<close>

lemma good_exec_text:
  assumes "\<not> bad_exec ex m" "unat (a_text ex) + unat (a_data ex) + unat (a_bss ex) < 2 ^ 32"
  shows "a_text ex \<le> 0x3000000"
proof -
  have "a_text ex + a_data ex + a_bss ex \<le> 0x3000000" using assms(1) by (simp add: bad_exec_def not_less)
  moreover have "unat (a_text ex + a_data ex + a_bss ex) = unat (a_text ex) + unat (a_data ex) + unat (a_bss ex)"
    using assms(2) by (simp add: unat_word_ariths)
  ultimately show ?thesis by (simp add: word_le_nat_alt)
qed

definition wrapped_exec :: "u32 \<Rightarrow> exec_hdr" where
  "wrapped_exec ts = \<lparr>a_magic = ZMAGIC, a_text = ts, a_data = - ts, a_bss = 0, a_syms = 0, a_entry = 0, a_trsize = 0, a_drsize = 0\<rparr>"

lemma every_text_passes: "\<exists>ex m. a_text ex = ts \<and> \<not> bad_exec ex m"
  by (intro exI [of _ "wrapped_exec ts"] exI [of _ "blank_inode\<lparr>i_size := N_TXTOFF (wrapped_exec ts)\<rparr>"])
    (simp add: bad_exec_def wrapped_exec_def)

text \<open>
  C7: the segments of every task stay what they are in the first one, readable code and writable data for user programs,
  at most 64 MB long from 64 MB times the slot of the task, so that no task reaches the address range of another:
  forking keeps it so, whatever comes of it. A new program keeps it so exactly when its text is between 1 byte and
  64 MB long: the limit of the code segment is the text rounded up to pages, with wrap-around, so that an empty text
  and one of the last page below 4 GB give a limit of 0, which is 4 GB. The check of the header in \<open>do_execve\<close> bounds
  the text by 48 MB when the sizes of text, data and bss do not overflow together; when they do, it lets a header
  with any size of the text pass, and an empty text passes it anyhow.
\<close>

theorem task_segments_confined:
  fixes s :: "'a fs_state_scheme"
  assumes "segments_ok s" "slots_distinct s" "task_pages s" "i < NR_TASKS" "current s = task s i" "current s \<noteq> 0"
  shows "(nr < NR_TASKS \<and> task s nr = 0 \<longrightarrow> ensures (copy_process nr r s) (\<lambda>_ t. segments_ok t)) \<and>
    desc_limit (t_ldt (cur (snd (change_ldt ts page img s))) 1) = (ts + 4095) AND 0xFFFFF000 \<and>
    (segments_ok (snd (change_ldt ts page img s)) \<longleftrightarrow> 0 < ts \<and> ts \<le> 0x4000000) \<and>
    (\<not> bad_exec ex m \<and> unat (a_text ex) + unat (a_data ex) + unat (a_bss ex) < 2 ^ 32 \<longrightarrow> a_text ex \<le> 0x3000000) \<and>
    (\<exists>ex m. a_text ex = ts \<and> \<not> bad_exec ex m)"
  using copy_process_segments [OF assms(1,3) _ _ assms(4-6)] change_ldt_segments [OF assms(1,2,4-6) refl] good_exec_text every_text_passes
  by blast

text \<open>The first task alone.\<close>

definition demo_first :: fs_state where
  "demo_first = demo_fs\<lparr>task := (\<lambda>_. 0)(0 := 0x1000), tasks := (\<lambda>_. INIT_TASK 0x1000), current := 0x1000\<rparr>"

theorem task_segments_confined_witness:
  "(\<forall>r. ensures (copy_process 1 r demo_first) (\<lambda>_ t. segments_ok t)) \<and> segments_ok (snd (change_ldt 5000 (\<lambda>_. 0) (\<lambda>_. 0) demo_first)) \<and>
   desc_limit (t_ldt (cur (snd (change_ldt 5000 (\<lambda>_. 0) (\<lambda>_. 0) demo_first))) 1) = 8192 \<and>
   desc_limit (t_ldt (cur (snd (change_ldt 0xFFFFF123 (\<lambda>_. 0) (\<lambda>_. 0) demo_first))) 1) = 0 \<and>
   \<not> segments_ok (snd (change_ldt 0xFFFFF123 (\<lambda>_. 0) (\<lambda>_. 0) demo_first)) \<and> (\<exists>ex m. a_text ex = 0xFFFFF123 \<and> \<not> bad_exec ex m)"
proof -
  have a: "segments_ok demo_first" "slots_distinct demo_first" "task_pages demo_first" "0 < NR_TASKS" "current demo_first = task demo_first 0"
    "current demo_first \<noteq> 0" "1 < NR_TASKS" "task demo_first 1 = 0"
    using init_task_segments [of "0x1000"]
    by (auto simp: segments_ok_def slots_distinct_def inj_on_def task_pages_def demo_first_def NR_TASKS_def LOW_MEM_def)
  show ?thesis
    using task_segments_confined [OF a(1-6), where nr = 1 and ts = 5000 and page = "\<lambda>_. 0" and img = "\<lambda>_. 0"]
      task_segments_confined [OF a(1-6), where nr = 1 and ts = "0xFFFFF123" and page = "\<lambda>_. 0" and img = "\<lambda>_. 0"] a(7,8) by simp
qed

end
