(* ===== verification/Gates.thy ===== *)
theory Gates
  imports Kernel_Prelude
begin

unbundle bit_operations_syntax

text \<open>
  The descriptors that the macros of \<^verbatim>\<open>asm/system.h\<close> build, as the two words the processor reads: gates of the interrupt table
  (\<^verbatim>\<open>_set_gate\<close>) and segments (\<^verbatim>\<open>_set_seg_desc\<close>).
\<close>


subsection \<open>What the processor reads\<close>

definition gate_offset :: "u32 \<times> u32 \<Rightarrow> u32" where
  "gate_offset g = (snd g AND 0xFFFF0000) OR (fst g AND 0xFFFF)"

definition gate_selector :: "u32 \<times> u32 \<Rightarrow> u32" where
  "gate_selector g = drop_bit 16 (fst g)"

definition gate_type :: "u32 \<times> u32 \<Rightarrow> u32" where
  "gate_type g = drop_bit 8 (snd g) AND 0xF"

definition gate_dpl :: "u32 \<times> u32 \<Rightarrow> u32" where
  "gate_dpl g = drop_bit 13 (snd g) AND 3"

definition gate_present :: "u32 \<times> u32 \<Rightarrow> bool" where
  "gate_present g \<longleftrightarrow> bit (snd g) 15"

definition seg_base :: "u32 \<times> u32 \<Rightarrow> u32" where
  "seg_base g = drop_bit 16 (fst g) OR push_bit 16 (snd g AND 0xFF) OR (snd g AND 0xFF000000)"

definition seg_limit :: "u32 \<times> u32 \<Rightarrow> u32" where
  "seg_limit g = (fst g AND 0xFFFF) OR (snd g AND 0xF0000)"


subsection \<open>What the macros write\<close>

text \<open>
  \<^verbatim>\<open>_set_gate\<close>: the low half of \<open>edx\<close>, the address, goes to \<open>eax\<close>, which holds the selector of the kernel code in its high half;
  then the flags take its place. The words go to \<^verbatim>\<open>gate_addr\<close> and \<^verbatim>\<open>4+gate_addr\<close>. In the source comments stand behind the
  backslashes that should continue the lines of this macro; the definition is the macro with its lines continued.
\<close>

definition set_gate :: "u32 \<Rightarrow> u32 \<Rightarrow> u32 \<Rightarrow> u32 \<times> u32" where
  "set_gate type dpl addr =
     (let flags = 0x8000 + push_bit 13 dpl + push_bit 8 type;
          eax = (0x00080000 AND 0xFFFF0000) OR (addr AND 0xFFFF);
          edx = (addr AND 0xFFFF0000) OR (flags AND 0xFFFF)
      in (eax, edx))"

definition set_seg_desc :: "u32 \<Rightarrow> u32 \<Rightarrow> u32 \<Rightarrow> u32 \<Rightarrow> u32 \<times> u32" where
  "set_seg_desc type dpl base limit =
     ((base AND 0xFF000000) OR drop_bit 16 (base AND 0x00FF0000) OR (limit AND 0xF0000) OR push_bit 13 dpl OR 0x00408000 OR push_bit 8 type,
      push_bit 16 (base AND 0xFFFF) OR (limit AND 0xFFFF))"


subsection \<open>Gates are read as they were meant\<close>

lemma masks: "(0xFFFF :: u32) = mask 16" "(0xFFFF0000 :: u32) = push_bit 16 (mask 16)" "(0xF :: u32) = mask 4" "(3 :: u32) = mask 2"
  "(0xFF :: u32) = mask 8" "(0xFF000000 :: u32) = push_bit 24 (mask 8)" "(0x00FF0000 :: u32) = push_bit 16 (mask 8)" "(0xF0000 :: u32) = push_bit 16 (mask 4)"
  by (simp_all add: mask_eq_exp_minus_1)

lemma set_gate_address: "gate_offset (set_gate t d addr) = addr" "gate_selector (set_gate t d addr) = 8"
proof -
  show "gate_offset (set_gate t d addr) = addr"
    unfolding gate_offset_def set_gate_def Let_def fst_conv snd_conv masks by (rule bit_word_eqI) (auto simp: bit_simps)
  have "drop_bit 16 (addr AND mask 16) = 0" by (rule bit_word_eqI) (auto simp: bit_simps)
  then show "gate_selector (set_gate t d addr) = 8"
    unfolding gate_selector_def set_gate_def Let_def fst_conv by (simp add: drop_bit_or masks(1))
qed

lemma small_word: "t < of_nat n \<Longrightarrow> n < 2 ^ 32 \<Longrightarrow> \<exists>k<n. t = (of_nat k :: u32)"
  by (rule exI [of _ "unat t"]) (simp add: word_less_nat_alt unat_of_nat)

lemma set_gate_flags:
  assumes "t < 16" "d < 4"
  shows "gate_type (set_gate t d addr) = t" "gate_dpl (set_gate t d addr) = d" "gate_present (set_gate t d addr)"
proof -
  define flags :: u32 where "flags = 0x8000 + push_bit 13 d + push_bit 8 t"
  have f: "drop_bit 8 flags AND 0xF = t \<and> drop_bit 13 flags AND 3 = d \<and> bit flags 15"
  proof -
    obtain i j where "i < 16" "t = of_nat i" "j < 4" "d = of_nat j" using small_word [of t 16] small_word [of d 4] assms by auto
    moreover have "i \<in> set [0..<16]" "j \<in> set [0..<4]" using calculation by simp_all
    ultimately show ?thesis unfolding flags_def by (simp add: upt_rec del: set_upt) (elim disjE; simp)
  qed
  have e: "snd (set_gate t d addr) = (addr AND 0xFFFF0000) OR (flags AND 0xFFFF)" by (simp add: set_gate_def Let_def flags_def)
  have "gate_type (set_gate t d addr) = drop_bit 8 flags AND 0xF"
    unfolding gate_type_def e masks by (rule bit_word_eqI) (auto simp: bit_simps)
  moreover have "gate_dpl (set_gate t d addr) = drop_bit 13 flags AND 3"
    unfolding gate_dpl_def e masks by (rule bit_word_eqI) (auto simp: bit_simps)
  moreover have "gate_present (set_gate t d addr) = bit flags 15"
    unfolding gate_present_def e masks by (auto simp: bit_simps)
  ultimately show "gate_type (set_gate t d addr) = t" "gate_dpl (set_gate t d addr) = d" "gate_present (set_gate t d addr)"
    using f by simp_all
qed

text \<open>
  \<^verbatim>\<open>_set_seg_desc\<close> writes the two words in the wrong order: they are the segment when read the other way round. As they are, the
  base is mixed from the limit and the flags.
\<close>

lemma set_seg_desc_swapped:
  assumes "t < 32" "d < 4"
  shows "seg_base (prod.swap (set_seg_desc t d base limit)) = base"
    "seg_limit (prod.swap (set_seg_desc t d base limit)) = limit AND 0xFFFFF"
proof -
  have lo: "(push_bit 13 d OR 0x00408000 OR push_bit 8 t) AND 0xFF0F00FF = 0"
  proof -
    obtain i j where "i < 32" "t = of_nat i" "j < 4" "d = of_nat j" using small_word [of t 32] small_word [of d 4] assms by auto
    moreover have "i \<in> set [0..<32]" "j \<in> set [0..<4]" using calculation by simp_all
    ultimately show ?thesis by (simp add: upt_rec del: set_upt) (elim disjE; simp)
  qed
  define z where "z = push_bit 13 d OR 0x00408000 OR push_bit 8 t"
  have "z AND m = 0" if m: "0xFF0F00FF AND m = m" for m
  proof -
    have "z AND m = (z AND 0xFF0F00FF) AND m" by (subst m [symmetric]) (simp only: and.assoc)
    then show ?thesis using lo by (simp add: z_def)
  qed
  then have z: "z AND 0xFF = 0" "z AND 0xFF000000 = 0" "z AND 0xF0000 = 0" by simp_all
  have s: "set_seg_desc t d base limit = ((base AND 0xFF000000) OR drop_bit 16 (base AND 0x00FF0000) OR (limit AND 0xF0000) OR z,
      push_bit 16 (base AND 0xFFFF) OR (limit AND 0xFFFF))" by (simp add: set_seg_desc_def z_def or.assoc)
  let ?hi = "(base AND 0xFF000000) OR drop_bit 16 (base AND 0x00FF0000) OR (limit AND 0xF0000) OR z"
  have "((base AND 0xFF000000) OR drop_bit 16 (base AND 0x00FF0000) OR (limit AND 0xF0000)) AND 0xFF = drop_bit 16 (base AND 0x00FF0000)"
    unfolding masks by (rule bit_word_eqI) (simp add: bit_simps, arith)
  then have 1: "?hi AND 0xFF = drop_bit 16 (base AND 0x00FF0000)" by (simp add: bit.conj_disj_distrib2 z(1))
  have "((base AND 0xFF000000) OR drop_bit 16 (base AND 0x00FF0000) OR (limit AND 0xF0000)) AND 0xFF000000 = base AND 0xFF000000"
    unfolding masks by (rule bit_word_eqI) (simp add: bit_simps, arith)
  then have 2: "?hi AND 0xFF000000 = base AND 0xFF000000" by (simp add: bit.conj_disj_distrib2 z(2))
  have "((base AND 0xFF000000) OR drop_bit 16 (base AND 0x00FF0000) OR (limit AND 0xF0000)) AND 0xF0000 = limit AND 0xF0000"
    unfolding masks by (rule bit_word_eqI) (simp add: bit_simps, arith)
  then have 3: "?hi AND 0xF0000 = limit AND 0xF0000" by (simp add: bit.conj_disj_distrib2 z(3))
  have m: "(0xFFFFF :: u32) = mask 20" by (simp add: mask_eq_exp_minus_1)
  have "bit (drop_bit 16 (push_bit 16 (base AND mask 16) OR (limit AND mask 16)) OR push_bit 16 (drop_bit 16 (base AND push_bit 16 (mask 8))) OR
      (base AND push_bit 24 (mask 8))) n \<longleftrightarrow> bit base n" if "n < 32" for n
  proof -
    consider "n < 16" | "16 \<le> n" "n < 24" | "24 \<le> n" by linarith
    then show ?thesis using that by cases (auto simp: bit_simps)
  qed
  then show "seg_base (prod.swap (set_seg_desc t d base limit)) = base"
    unfolding s seg_base_def prod.swap_def fst_conv snd_conv 1 2 unfolding masks by (intro bit_word_eqI) simp
  have "bit ((push_bit 16 (base AND mask 16) OR (limit AND mask 16)) AND mask 16 OR (limit AND push_bit 16 (mask 4))) n \<longleftrightarrow> bit (limit AND mask 20) n"
    if "n < 32" for n
  proof -
    consider "n < 16" | "16 \<le> n" "n < 20" | "20 \<le> n" by linarith
    then show ?thesis using that by cases (auto simp: bit_simps)
  qed
  then show "seg_limit (prod.swap (set_seg_desc t d base limit)) = limit AND 0xFFFFF"
    unfolding s seg_limit_def prod.swap_def fst_conv snd_conv 3 unfolding masks m by (intro bit_word_eqI) simp
qed

end
