(* ===== verification/Exit_Status.thy ===== *)
theory Exit_Status
  imports Buffer Proc_Calls
begin

unbundle bit_operations_syntax

text \<open>
  How tasks and the kernel end: the macros of \<^verbatim>\<open>sys/wait.h\<close> over the status that \<^verbatim>\<open>waitpid\<close> hands out, and \<^verbatim>\<open>panic()\<close>.
  The macro \<^verbatim>\<open>WIFEXITED\<close> of the source lacks a closing parenthesis; the definition is what it says with it.
\<close>


subsection \<open>The status of a child\<close>

definition WIFEXITED :: "int \<Rightarrow> bool" where
  "WIFEXITED s \<longleftrightarrow> s AND 0xFF = 0"

definition WIFSTOPPED :: "int \<Rightarrow> bool" where
  "WIFSTOPPED s \<longleftrightarrow> s AND 0xFF = 0x7F"

definition WEXITSTATUS :: "int \<Rightarrow> int" where
  "WEXITSTATUS s = drop_bit 8 s AND 0xFF"

definition WTERMSIG :: "int \<Rightarrow> int" where
  "WTERMSIG s = s AND 0x7F"

definition WSTOPSIG :: "int \<Rightarrow> int" where
  "WSTOPSIG s = drop_bit 8 s AND 0xFF"

definition WIFSIGNALED :: "int \<Rightarrow> bool" where
  "WIFSIGNALED s \<longleftrightarrow> ((of_int s :: u32) - 1) AND 0xFFFF < 0xFF"

text \<open>The status of \<^verbatim>\<open>sys_exit\<close>: the low byte of its argument comes back, and nothing else fits.\<close>

lemma exit_status:
  defines "st \<equiv> \<lambda>code :: int. push_bit 8 (code AND 0xFF)"
  shows "WIFEXITED (st code)" "\<not> WIFSTOPPED (st code)" "WEXITSTATUS (st code) = code AND 0xFF" "WTERMSIG (st code) = 0"
proof -
  have m: "(0xFF :: int) = mask 8" "(0x7F :: int) = mask 7" by (simp_all add: mask_eq_exp_minus_1)
  have low: "st code AND 0xFF = 0" "st code AND 0x7F = 0"
    unfolding st_def m by (rule bit_eqI; auto simp: bit_simps)+
  then show "WIFEXITED (st code)" "\<not> WIFSTOPPED (st code)" "WTERMSIG (st code) = 0"
    by (simp_all add: WIFEXITED_def WIFSTOPPED_def WTERMSIG_def)
  show "WEXITSTATUS (st code) = code AND 0xFF"
    unfolding st_def WEXITSTATUS_def m by (rule bit_eqI) (auto simp: bit_simps)
qed

text \<open>A stopped child: its status also passes for one killed by a signal, and it tells no stop signal.\<close>

lemma stopped_status: "WIFSTOPPED 0x7F" "\<not> WIFEXITED 0x7F" "WSTOPSIG 0x7F = 0" "WIFSIGNALED 0x7F"
  by (simp_all add: WIFSTOPPED_def WIFEXITED_def WSTOPSIG_def WIFSIGNALED_def)

text \<open>
  The default action of a signal ends the task with \<^verbatim>\<open>1<<(signr-1)\<close>, not with the number that the macros expect: the parent sees
  the right number for the signals 1 and 2, another one for 3 to 8, and from signal 9 on a normal exit.
\<close>

lemma signal_cases: "1 \<le> (n :: int) \<Longrightarrow> n \<le> 32 \<Longrightarrow>
  n \<in> {1,2,3,4,5,6,7,8,9,10,11,12,13,14,15,16} \<or> n \<in> {17,18,19,20,21,22,23,24,25,26,27,28,29,30,31,32}"
  by simp presburger

lemma default_action_status:
  assumes "sa_handler (t_sigaction (cur s) (nat (signr - 1))) = 0" "signr \<noteq> SIGCHLD" "1 \<le> signr" "signr \<le> 32"
  shows "\<exists>st. do_signal signr eax ecx edx eip eflags esp s = Stop (Do_Exit st) s \<and> (WIFSIGNALED st \<longleftrightarrow> signr \<le> 8) \<and>
    (WTERMSIG st = signr \<longleftrightarrow> signr \<le> 2) \<and> (WIFEXITED st \<longleftrightarrow> 9 \<le> signr) \<and> (17 \<le> signr \<longrightarrow> WEXITSTATUS st = 0)"
proof -
  let ?st = "wrap32 (2 ^ nat (signr - 1))"
  have "do_signal signr eax ecx edx eip eflags esp s = Stop (Do_Exit ?st) s"
    using assms(1,2) by (simp add: do_signal_def Let_def)
  moreover have "(WIFSIGNALED ?st \<longleftrightarrow> signr \<le> 8) \<and> (WTERMSIG ?st = signr \<longleftrightarrow> signr \<le> 2) \<and> (WIFEXITED ?st \<longleftrightarrow> 9 \<le> signr) \<and>
      (17 \<le> signr \<longrightarrow> WEXITSTATUS ?st = 0)"
    using signal_cases [OF assms(3,4)]
    by (auto simp: WIFSIGNALED_def WTERMSIG_def WIFEXITED_def WEXITSTATUS_def wrap32_def)
  ultimately show ?thesis by blast
qed


subsection \<open>The end of the kernel\<close>

text \<open>
  Where the kernel calls \<^verbatim>\<open>panic()\<close> the other theories stop with \<open>Panic\<close>; this is what the function then does. Task 0 does not
  write the buffers back.
\<close>

definition panic :: "('a fs_state_scheme) env \<Rightarrow> string \<Rightarrow> 'a fs_state_scheme \<Rightarrow> (unit, 'a fs_state_scheme) outcome" where
  "panic e msg s =
     (let s = printk (''Kernel panic: '' @ msg) s
      in if current s = task s 0 then Stop Looping (printk ''In swapper task - not syncing'' s)
         else kbind (sys_sync e s) (\<lambda>_ s. Stop Looping s))"

lemma panic_never_returns: "panic e msg s \<noteq> Done r t"
  by (cases "sys_sync e (printk (''Kernel panic: '' @ msg) s)") (simp_all add: panic_def Let_def)

end
