(* ===== verification/Port_Io.thy ===== *)
theory Port_Io
  imports Pipe
begin

text \<open>
  Ports of devices that answer differently each time they are asked. \<open>io_in t port\<close> is what the \<open>t\<close>-th read
  of the machine finds at the port; the disk drivers are verified for every such sequence, or for those
  that behave as the controller is documented to. \<open>io_sent\<close> are the words written to a data port, oldest first,
  \<open>idt\<close> the type, the privilege level and the function of the gates.
\<close>

record io_state = fs_state +
  io_clock :: nat
  io_in :: "nat \<Rightarrow> nat \<Rightarrow> u16"
  io_sent :: "u16 list"
  idt :: "nat \<Rightarrow> (nat \<times> nat \<times> string) option"

definition inb :: "nat \<Rightarrow> 'a io_state_scheme \<Rightarrow> u8 \<times> 'a io_state_scheme" where
  "inb port s = (ucast (io_in s (io_clock s) port), s\<lparr>io_clock := io_clock s + 1\<rparr>)"

definition set_intr_gate :: "nat \<Rightarrow> string \<Rightarrow> 'a io_state_scheme \<Rightarrow> 'a io_state_scheme" where
  "set_intr_gate n addr s = s\<lparr>idt := (idt s)(n := Some (14, 0, addr))\<rparr>"

definition set_trap_gate :: "nat \<Rightarrow> string \<Rightarrow> 'a io_state_scheme \<Rightarrow> 'a io_state_scheme" where
  "set_trap_gate n addr s = s\<lparr>idt := (idt s)(n := Some (15, 0, addr))\<rparr>"

definition set_system_gate :: "nat \<Rightarrow> string \<Rightarrow> 'a io_state_scheme \<Rightarrow> 'a io_state_scheme" where
  "set_system_gate n addr s = s\<lparr>idt := (idt s)(n := Some (15, 3, addr))\<rparr>"

text \<open>\<^verbatim>\<open>rep insw\<close> and \<^verbatim>\<open>rep outsw\<close>: \<open>nr\<close> words to or from buffer \<open>b\<close>, from offset \<open>off\<close> on.\<close>

primrec port_read :: "nat \<Rightarrow> nat \<Rightarrow> nat \<Rightarrow> nat \<Rightarrow> 'a io_state_scheme \<Rightarrow> 'a io_state_scheme" where
  "port_read port b off 0 s = s"
| "port_read port b off (Suc nr) s =
     (let w = io_in s (io_clock s) port
      in port_read port b (off + 2) nr
           (s\<lparr>io_clock := io_clock s + 1,
              b_data := (b_data s)(b := (b_data s b)(off := ucast w, Suc off := ucast (drop_bit 8 w)))\<rparr>))"

definition port_write :: "nat \<Rightarrow> nat \<Rightarrow> nat \<Rightarrow> nat \<Rightarrow> 'a io_state_scheme \<Rightarrow> 'a io_state_scheme" where
  "port_write port b off nr s =
     s\<lparr>io_sent := io_sent s @ map (\<lambda>k. ucast (b_data s b (off + 2 * k)) OR push_bit 8 (ucast (b_data s b (off + 2 * k + 1)))) [0..<nr]\<rparr>"

definition CMOS_READ :: "u8 \<Rightarrow> 'a io_state_scheme \<Rightarrow> u8 \<times> 'a io_state_scheme" where
  "CMOS_READ addr s = inb 0x71 (outb (0x80 OR addr) 0x70 s)"


subsection \<open>What a block of words becomes\<close>

text \<open>The bytes of a buffer after \<open>nr\<close> words, read from time \<open>t\<close> on, have gone to offset \<open>off\<close>.\<close>

definition words_at :: "(nat \<Rightarrow> u16) \<Rightarrow> nat \<Rightarrow> nat \<Rightarrow> nat \<Rightarrow> (nat \<Rightarrow> u8) \<Rightarrow> nat \<Rightarrow> u8" where
  "words_at w t off nr old j =
     (if off \<le> j \<and> j < off + 2 * nr
      then if even (j - off) then ucast (w (t + (j - off) div 2)) else ucast (drop_bit 8 (w (t + (j - off) div 2)))
      else old j)"

lemma words_at_0 [simp]: "words_at w t off 0 old = old"
  by (auto simp: words_at_def fun_eq_iff)

lemma words_at_Suc:
  "words_at w (Suc t) (Suc (Suc off)) nr (old(off := ucast (w t), Suc off := ucast (drop_bit 8 (w t)))) = words_at w t off (Suc nr) old"
proof
  fix j
  have "j < off \<or> j = off \<or> j = Suc off \<or> (\<exists>k. j = Suc (Suc off) + k)" by presburger
  then consider "j < off" | "j = off" | "j = Suc off" | k where "j = Suc (Suc off) + k" by blast
  then show "words_at w (Suc t) (Suc (Suc off)) nr (old(off := ucast (w t), Suc off := ucast (drop_bit 8 (w t)))) j =
      words_at w t off (Suc nr) old j"
    by cases (simp_all add: words_at_def)
qed

lemma port_read_spec:
  "port_read port b off nr s = s\<lparr>io_clock := io_clock s + nr,
     b_data := (b_data s)(b := words_at (\<lambda>t. io_in s t port) (io_clock s) off nr (b_data s b))\<rparr>"
proof (induction nr arbitrary: off s)
  case (Suc nr)
  let ?u = "s\<lparr>io_clock := io_clock s + 1, b_data := (b_data s)(b := (b_data s b)(off := ucast (io_in s (io_clock s) port),
      Suc off := ucast (drop_bit 8 (io_in s (io_clock s) port))))\<rparr>"
  have "port_read port b off (Suc nr) s = port_read port b (Suc (Suc off)) nr ?u" by (simp add: Let_def)
  also have "\<dots> = ?u\<lparr>io_clock := io_clock s + Suc nr, b_data := (b_data ?u)(b := words_at (\<lambda>t. io_in s t port) (io_clock s) off (Suc nr) (b_data s b))\<rparr>"
    unfolding Suc.IH using words_at_Suc [of "\<lambda>t. io_in s t port" "io_clock s" off nr "b_data s b"] by (simp del: fun_upd_apply add: fun_upd_same)
  finally show ?case by (simp del: fun_upd_apply port_read.simps)
qed simp

end
