(* ===== verification/Traps.thy ===== *)
theory Traps
  imports Port_Io
begin

text \<open>
  The processor exceptions, \<^verbatim>\<open>kernel/traps.c\<close>, and the stub of the mathematics emulation. What is printed is recorded by
  its format, without the ends of lines; a message that a handler prints begins with the name it is given. A
  handler finds the words that the processor pushed in \<open>esp\<close>. The functions that the gates lead to are labels
  in \<^verbatim>\<open>kernel/asm.s\<close>; \<open>trap_entry\<close> says which function of \<^verbatim>\<open>traps.c\<close> each of them calls.
\<close>


subsection \<open>The handlers\<close>

definition die :: "string \<Rightarrow> (nat \<Rightarrow> u32) \<Rightarrow> u32 \<Rightarrow> 'a io_state_scheme \<Rightarrow> (unit, 'a io_state_scheme) outcome" where
  "die str esp nr s =
     (let s = fold printk [str @ '': %04x'', ''EIP: %04x:%p EFLAGS: %p ESP: %04x:%p'', ''fs: %04x'', ''base: %p, limit: %p''] s;
          s = (if esp 4 = 0x17 then fold printk (''Stack: '' # replicate 4 ''%p '') s else s);
          s = fold printk (''Pid: %d, process nr: %d'' # replicate 10 ''%02x '') s
      in Stop (Do_Exit 11) s)"

definition do_double_fault :: "(nat \<Rightarrow> u32) \<Rightarrow> u32 \<Rightarrow> 'a io_state_scheme \<Rightarrow> (unit, 'a io_state_scheme) outcome" where
  "do_double_fault esp error_code s = die ''double fault'' esp error_code s"

definition do_general_protection :: "(nat \<Rightarrow> u32) \<Rightarrow> u32 \<Rightarrow> 'a io_state_scheme \<Rightarrow> (unit, 'a io_state_scheme) outcome" where
  "do_general_protection esp error_code s = die ''general protection'' esp error_code s"

definition do_divide_error :: "(nat \<Rightarrow> u32) \<Rightarrow> u32 \<Rightarrow> 'a io_state_scheme \<Rightarrow> (unit, 'a io_state_scheme) outcome" where
  "do_divide_error esp error_code s = die ''divide error'' esp error_code s"

text \<open>A breakpoint only prints the registers.\<close>

definition do_int3 :: "(nat \<Rightarrow> u32) \<Rightarrow> u32 \<Rightarrow> 'a io_state_scheme \<Rightarrow> (unit, 'a io_state_scheme) outcome" where
  "do_int3 esp error_code s =
     Done () (fold printk [''eax ebx ecx edx %8x %8x %8x %8x'', ''esi edi ebp esp %8x %8x %8x %8x'', ''ds es fs tr %4x %4x %4x %4x'',
       ''EIP: %8x   CS: %4x  EFLAGS: %8x''] s)"

definition do_nmi :: "(nat \<Rightarrow> u32) \<Rightarrow> u32 \<Rightarrow> 'a io_state_scheme \<Rightarrow> (unit, 'a io_state_scheme) outcome" where
  "do_nmi esp error_code s = die ''nmi'' esp error_code s"

definition do_debug :: "(nat \<Rightarrow> u32) \<Rightarrow> u32 \<Rightarrow> 'a io_state_scheme \<Rightarrow> (unit, 'a io_state_scheme) outcome" where
  "do_debug esp error_code s = die ''debug'' esp error_code s"

definition do_overflow :: "(nat \<Rightarrow> u32) \<Rightarrow> u32 \<Rightarrow> 'a io_state_scheme \<Rightarrow> (unit, 'a io_state_scheme) outcome" where
  "do_overflow esp error_code s = die ''overflow'' esp error_code s"

definition do_bounds :: "(nat \<Rightarrow> u32) \<Rightarrow> u32 \<Rightarrow> 'a io_state_scheme \<Rightarrow> (unit, 'a io_state_scheme) outcome" where
  "do_bounds esp error_code s = die ''bounds'' esp error_code s"

definition do_invalid_op :: "(nat \<Rightarrow> u32) \<Rightarrow> u32 \<Rightarrow> 'a io_state_scheme \<Rightarrow> (unit, 'a io_state_scheme) outcome" where
  "do_invalid_op esp error_code s = die ''invalid operand'' esp error_code s"

definition do_device_not_available :: "(nat \<Rightarrow> u32) \<Rightarrow> u32 \<Rightarrow> 'a io_state_scheme \<Rightarrow> (unit, 'a io_state_scheme) outcome" where
  "do_device_not_available esp error_code s = die ''device not available'' esp error_code s"

definition do_coprocessor_segment_overrun :: "(nat \<Rightarrow> u32) \<Rightarrow> u32 \<Rightarrow> 'a io_state_scheme \<Rightarrow> (unit, 'a io_state_scheme) outcome" where
  "do_coprocessor_segment_overrun esp error_code s = die ''coprocessor segment overrun'' esp error_code s"

definition do_invalid_TSS :: "(nat \<Rightarrow> u32) \<Rightarrow> u32 \<Rightarrow> 'a io_state_scheme \<Rightarrow> (unit, 'a io_state_scheme) outcome" where
  "do_invalid_TSS esp error_code s = die ''invalid TSS'' esp error_code s"

definition do_segment_not_present :: "(nat \<Rightarrow> u32) \<Rightarrow> u32 \<Rightarrow> 'a io_state_scheme \<Rightarrow> (unit, 'a io_state_scheme) outcome" where
  "do_segment_not_present esp error_code s = die ''segment not present'' esp error_code s"

definition do_stack_segment :: "(nat \<Rightarrow> u32) \<Rightarrow> u32 \<Rightarrow> 'a io_state_scheme \<Rightarrow> (unit, 'a io_state_scheme) outcome" where
  "do_stack_segment esp error_code s = die ''stack segment'' esp error_code s"

definition do_coprocessor_error :: "(nat \<Rightarrow> u32) \<Rightarrow> u32 \<Rightarrow> 'a io_state_scheme \<Rightarrow> (unit, 'a io_state_scheme) outcome" where
  "do_coprocessor_error esp error_code s =
     (if last_task_used_math s \<noteq> current s then Done () s else die ''coprocessor error'' esp error_code s)"

definition do_reserved :: "(nat \<Rightarrow> u32) \<Rightarrow> u32 \<Rightarrow> 'a io_state_scheme \<Rightarrow> (unit, 'a io_state_scheme) outcome" where
  "do_reserved esp error_code s = die ''reserved (15,17-47) error'' esp error_code s"


subsection \<open>Mathematics\<close>

text \<open>The instruction pointer on the stack of the interrupt moves over two bytes; the result is its new value.\<close>

definition math_emulate :: "u32 \<Rightarrow> u16 \<Rightarrow> 'a io_state_scheme \<Rightarrow> (u32, 'a io_state_scheme) outcome" where
  "math_emulate eip cs s =
     (if cs \<noteq> 0xF then Stop (Panic ''Math emulation needed in kernel'') (printk ''math_emulate: %04x:%08x'' s)
      else Done (eip + 2) (upd_cur (\<lambda>t. t\<lparr>t_signal := t_signal t OR push_bit 7 1\<rparr>) (printk ''%04x:%08x %02x %02x'' s)))"

definition math_error :: "'a io_state_scheme \<Rightarrow> 'a io_state_scheme" where
  "math_error s =
     (if last_task_used_math s \<noteq> 0 then upd_task (last_task_used_math s) (\<lambda>t. t\<lparr>t_signal := t_signal t OR push_bit 7 1\<rparr>) s else s)"


subsection \<open>The vectors\<close>

definition trap_init :: "'a io_state_scheme \<Rightarrow> 'a io_state_scheme" where
  "trap_init s =
     (let s = set_trap_gate 0 ''divide_error'' s;
          s = set_trap_gate 1 ''debug'' s;
          s = set_trap_gate 2 ''nmi'' s;
          s = set_system_gate 3 ''int3'' s;
          s = set_system_gate 4 ''overflow'' s;
          s = set_system_gate 5 ''bounds'' s;
          s = set_trap_gate 6 ''invalid_op'' s;
          s = set_trap_gate 7 ''device_not_available'' s;
          s = set_trap_gate 8 ''double_fault'' s;
          s = set_trap_gate 9 ''coprocessor_segment_overrun'' s;
          s = set_trap_gate 10 ''invalid_TSS'' s;
          s = set_trap_gate 11 ''segment_not_present'' s;
          s = set_trap_gate 12 ''stack_segment'' s;
          s = set_trap_gate 13 ''general_protection'' s;
          s = set_trap_gate 14 ''page_fault'' s;
          s = set_trap_gate 15 ''reserved'' s;
          s = set_trap_gate 16 ''coprocessor_error'' s;
          s = fold (\<lambda>i. set_trap_gate i ''reserved'') [17..<48] s;
          s = set_trap_gate 45 ''irq13'' s
      in case inb 0x21 s of (v, s) \<Rightarrow>
         let s = outb (v AND 0xFB) 0x21 s
         in case inb 0xA1 s of (v, s) \<Rightarrow>
            set_trap_gate 39 ''parallel_interrupt'' (outb (v AND 0xDF) 0xA1 s))"

text \<open>The labels of \<^verbatim>\<open>kernel/asm.s\<close> that call a function of \<^verbatim>\<open>traps.c\<close>; \<open>debug\<close> calls \<open>do_int3\<close>.\<close>

definition trap_entry :: "string \<Rightarrow> ((nat \<Rightarrow> u32) \<Rightarrow> u32 \<Rightarrow> 'a io_state_scheme \<Rightarrow> (unit, 'a io_state_scheme) outcome) option" where
  "trap_entry = map_of
     [(''divide_error'', do_divide_error), (''debug'', do_int3), (''nmi'', do_nmi), (''int3'', do_int3), (''overflow'', do_overflow),
      (''bounds'', do_bounds), (''invalid_op'', do_invalid_op), (''coprocessor_segment_overrun'', do_coprocessor_segment_overrun),
      (''reserved'', do_reserved), (''double_fault'', do_double_fault), (''invalid_TSS'', do_invalid_TSS),
      (''segment_not_present'', do_segment_not_present), (''stack_segment'', do_stack_segment),
      (''general_protection'', do_general_protection)]"


subsection \<open>What an exception does\<close>

definition trap_label :: "nat \<Rightarrow> string" where
  "trap_label n =
     (if n < 17 then [''divide_error'', ''debug'', ''nmi'', ''int3'', ''overflow'', ''bounds'', ''invalid_op'', ''device_not_available'',
        ''double_fault'', ''coprocessor_segment_overrun'', ''invalid_TSS'', ''segment_not_present'', ''stack_segment'',
        ''general_protection'', ''page_fault'', ''reserved'', ''coprocessor_error''] ! n
      else if n = 45 then ''irq13'' else if n = 39 then ''parallel_interrupt'' else ''reserved'')"

lemma fold_trap_gates:
  "fold (\<lambda>i. set_trap_gate i h) ns s = s\<lparr>idt := (\<lambda>n. if n \<in> set ns then Some (15, 0, h) else idt s n)\<rparr>"
  by (induction ns arbitrary: s) (auto simp: set_trap_gate_def fun_eq_iff)

lemma less_17: "n < 17 \<Longrightarrow> n \<in> {0, 1, 2, 3, 4, 5, 6, 7, 8, 9, 10, 11, 12, 13, 14, 15, 16 :: nat}"
  by (simp, presburger)

lemma gate_idt:
  "idt (set_trap_gate n h s) = (idt s)(n := Some (15, 0, h))" "idt (set_system_gate n h s) = (idt s)(n := Some (15, 3, h))"
  "idt (outb v p s) = idt s" "idt (snd (inb q s)) = idt s"
  "idt (fold (\<lambda>i. set_trap_gate i h) ns s) = (\<lambda>n. if n \<in> set ns then Some (15, 0, h) else idt s n)"
  by (simp_all add: set_trap_gate_def set_system_gate_def outb_def inb_def fold_trap_gates)

lemma trap_init_idt:
  "idt (trap_init s) n = (if n < 48 then Some (15, if n \<in> {3, 4, 5} then 3 else 0, trap_label n) else idt s n)"
proof (cases "n < 17")
  case True
  from less_17 [OF True] show ?thesis
    unfolding trap_init_def Let_def case_prod_beta gate_idt set_upt
    by (elim insertE emptyE) (simp_all add: trap_label_def)
next
  case False
  then show ?thesis unfolding trap_init_def Let_def case_prod_beta gate_idt set_upt by (auto simp: trap_label_def)
qed

text \<open>What the handlers leave behind: messages only.\<close>

lemma fold_printk: "fold printk fs s = s\<lparr>klog := rev fs @ klog s\<rparr>"
  by (induction fs arbitrary: s) (simp_all add: printk_def)

lemma die_stops: "\<exists>l. die str esp nr s = Stop (Do_Exit 11) (s\<lparr>klog := l\<rparr>)"
  unfolding die_def Let_def fold_printk by (cases "esp 4 = 0x17") (auto simp del: fold_simps)

lemma handlers_die:
  "\<exists>l. do_divide_error esp c t = Stop (Do_Exit 11) (t\<lparr>klog := l\<rparr>)" "\<exists>l. do_nmi esp c t = Stop (Do_Exit 11) (t\<lparr>klog := l\<rparr>)"
  "\<exists>l. do_overflow esp c t = Stop (Do_Exit 11) (t\<lparr>klog := l\<rparr>)" "\<exists>l. do_bounds esp c t = Stop (Do_Exit 11) (t\<lparr>klog := l\<rparr>)"
  "\<exists>l. do_invalid_op esp c t = Stop (Do_Exit 11) (t\<lparr>klog := l\<rparr>)" "\<exists>l. do_double_fault esp c t = Stop (Do_Exit 11) (t\<lparr>klog := l\<rparr>)"
  "\<exists>l. do_coprocessor_segment_overrun esp c t = Stop (Do_Exit 11) (t\<lparr>klog := l\<rparr>)"
  "\<exists>l. do_invalid_TSS esp c t = Stop (Do_Exit 11) (t\<lparr>klog := l\<rparr>)" "\<exists>l. do_segment_not_present esp c t = Stop (Do_Exit 11) (t\<lparr>klog := l\<rparr>)"
  "\<exists>l. do_stack_segment esp c t = Stop (Do_Exit 11) (t\<lparr>klog := l\<rparr>)" "\<exists>l. do_general_protection esp c t = Stop (Do_Exit 11) (t\<lparr>klog := l\<rparr>)"
  "\<exists>l. do_reserved esp c t = Stop (Do_Exit 11) (t\<lparr>klog := l\<rparr>)"
  by (simp_all add: die_stops do_double_fault_def do_general_protection_def do_divide_error_def do_nmi_def do_overflow_def do_bounds_def
      do_invalid_op_def do_coprocessor_segment_overrun_def do_invalid_TSS_def do_segment_not_present_def do_stack_segment_def do_reserved_def)

lemma int3_goes_on: "\<exists>l. do_int3 esp c t = Done () (t\<lparr>klog := l\<rparr>)"
  unfolding do_int3_def fold_printk by auto

lemma trap_labels:
  "trap_label 0 = ''divide_error''" "trap_label (Suc 0) = ''debug''" "trap_label 2 = ''nmi''" "trap_label 3 = ''int3''" "trap_label 4 = ''overflow''"
  "trap_label 5 = ''bounds''" "trap_label 6 = ''invalid_op''" "trap_label 8 = ''double_fault''" "trap_label 9 = ''coprocessor_segment_overrun''"
  "trap_label 10 = ''invalid_TSS''" "trap_label 11 = ''segment_not_present''" "trap_label 12 = ''stack_segment''"
  "trap_label 13 = ''general_protection''" "trap_label 15 = ''reserved''"
  "\<not> n < 17 \<Longrightarrow> n \<notin> {39, 45} \<Longrightarrow> trap_label n = ''reserved''"
  by (simp_all add: trap_label_def)

lemma trap_entries:
  "trap_entry ''divide_error'' = Some do_divide_error" "trap_entry ''debug'' = Some do_int3" "trap_entry ''nmi'' = Some do_nmi"
  "trap_entry ''int3'' = Some do_int3" "trap_entry ''overflow'' = Some do_overflow" "trap_entry ''bounds'' = Some do_bounds"
  "trap_entry ''invalid_op'' = Some do_invalid_op" "trap_entry ''double_fault'' = Some do_double_fault"
  "trap_entry ''coprocessor_segment_overrun'' = Some do_coprocessor_segment_overrun" "trap_entry ''invalid_TSS'' = Some do_invalid_TSS"
  "trap_entry ''segment_not_present'' = Some do_segment_not_present" "trap_entry ''stack_segment'' = Some do_stack_segment"
  "trap_entry ''general_protection'' = Some do_general_protection" "trap_entry ''reserved'' = Some do_reserved"
  by (simp_all add: trap_entry_def)

text \<open>
  C36: after \<open>trap_init\<close> every vector below 48 has a trap gate to the function of its name, those with handlers of their own (7, 14, 16,
  39, 45) included, and no others are changed; the vectors 3, 4 and 5, and no others below 48, may be raised by an instruction
  of a user program. Of the exceptions whose handler is in \<^verbatim>\<open>traps.c\<close>, the breakpoint (3) and the debug exception (1) print
  and go on; every other one ends the task with signal 11 after its messages.
\<close>

theorem exceptions_end_the_task:
  "(\<forall>n. idt (trap_init s) n = (if n < 48 then Some (15, if n \<in> {3, 4, 5} then 3 else 0, trap_label n) else idt s n)) \<and>
   (\<forall>n\<in>{..<48} - {7, 14, 16, 39, 45}. \<exists>h. trap_entry (trap_label n) = Some h \<and>
     (\<exists>l. h esp code t = (if n \<in> {1, 3} then Done () (t\<lparr>klog := l\<rparr>) else Stop (Do_Exit 11) (t\<lparr>klog := l\<rparr>))))"
proof -
  have "\<exists>h. trap_entry (trap_label n) = Some h \<and>
    (\<exists>l. h esp code t = (if n \<in> {1, 3} then Done () (t\<lparr>klog := l\<rparr>) else Stop (Do_Exit 11) (t\<lparr>klog := l\<rparr>)))"
    if n: "n < 48" "n \<notin> {7, 14, 16, 39, 45}" for n
  proof (cases "n < 17")
    case True
    then have "n \<in> {0, 1, 2, 3, 4, 5, 6, 8, 9, 10, 11, 12, 13, 15}" using less_17 [OF True] n(2) by auto
    then show ?thesis by (elim insertE emptyE) (simp_all add: trap_labels trap_entries handlers_die int3_goes_on)
  next
    case False
    then show ?thesis using n by (simp add: trap_labels trap_entries handlers_die)
  qed
  then show ?thesis using trap_init_idt [of s] by auto
qed

text \<open>A general protection fault in a machine that has just started.\<close>

definition demo_io :: io_state where
  "demo_io = fs_state.extend demo_fs (io_state.fields 0 (\<lambda>_ _. 0) [] (\<lambda>_. None))"

theorem exceptions_end_the_task_witness:
  "idt (trap_init demo_io) 13 = Some (15, 0, ''general_protection'') \<and>
     (\<exists>h l. trap_entry ''general_protection'' = Some h \<and> h (\<lambda>_. 0) 0 demo_io = Stop (Do_Exit 11) (demo_io\<lparr>klog := l\<rparr>))"
proof -
  note ex = exceptions_end_the_task [of demo_io "\<lambda>_. 0" 0 demo_io]
  have "idt (trap_init demo_io) 13 = Some (15, 0, ''general_protection'')" using ex [THEN conjunct1, rule_format, of 13] by (simp add: trap_labels)
  moreover have "\<exists>h. trap_entry (trap_label 13) = Some h \<and> (\<exists>l. h (\<lambda>_. 0) 0 demo_io = Stop (Do_Exit 11) (demo_io\<lparr>klog := l\<rparr>))"
    using ex [THEN conjunct2, rule_format, of 13] by simp
  ultimately show ?thesis by (auto simp: trap_labels)
qed

end
