(* ===== verification/Tty_Queue.thy ===== *)
theory Tty_Queue
  imports Byte_Queue
begin

text \<open>
  The queues of a terminal and its settings, \<^verbatim>\<open>include/linux/tty.h\<close> and \<^verbatim>\<open>include/termios.h\<close>. The
  macros on a queue are functions on its record; those that assign return the new
  record. A queue implements the interface of \<open>Byte_Queue\<close> with room for 1023 bytes.
\<close>


subsection \<open>The queue\<close>

definition TTY_BUF_SIZE :: nat where "TTY_BUF_SIZE = 1024"

record tty_queue =
  q_data :: u32
  head :: u32
  tail :: u32
  proc_list :: u32
  buf :: "nat \<Rightarrow> u8"

definition INC :: "u32 \<Rightarrow> u32" where "INC a = (a + 1) AND (of_nat TTY_BUF_SIZE - 1)"
definition DEC :: "u32 \<Rightarrow> u32" where "DEC a = (a - 1) AND (of_nat TTY_BUF_SIZE - 1)"
definition EMPTY :: "tty_queue \<Rightarrow> bool" where "EMPTY q \<longleftrightarrow> head q = tail q"
definition LEFT :: "tty_queue \<Rightarrow> nat" where
  "LEFT q = unat ((tail q - head q - 1) AND (of_nat TTY_BUF_SIZE - 1))"
definition LAST :: "tty_queue \<Rightarrow> u8" where
  "LAST q = buf q (unat ((of_nat TTY_BUF_SIZE - 1) AND (head q - 1)))"
definition FULL :: "tty_queue \<Rightarrow> bool" where "FULL q \<longleftrightarrow> LEFT q = 0"
definition CHARS :: "tty_queue \<Rightarrow> nat" where
  "CHARS q = unat ((head q - tail q) AND (of_nat TTY_BUF_SIZE - 1))"

definition GETCH :: "tty_queue \<Rightarrow> u8 \<times> tty_queue" where
  "GETCH q = (buf q (unat (tail q)), q\<lparr>tail := INC (tail q)\<rparr>)"

definition PUTCH :: "u8 \<Rightarrow> tty_queue \<Rightarrow> tty_queue" where
  "PUTCH c q = q\<lparr>buf := (buf q)(unat (head q) := c), head := INC (head q)\<rparr>"


subsection \<open>Terminals\<close>

definition NCCS :: nat where "NCCS = 17"
definition VINTR :: nat where "VINTR = 0"
definition VQUIT :: nat where "VQUIT = 1"
definition VERASE :: nat where "VERASE = 2"
definition VKILL :: nat where "VKILL = 3"
definition VEOF :: nat where "VEOF = 4"
definition VSTART :: nat where "VSTART = 8"
definition VSTOP :: nat where "VSTOP = 9"
definition VSUSP :: nat where "VSUSP = 10"

record termios =
  c_iflag :: u32
  c_oflag :: u32
  c_cflag :: u32
  c_lflag :: u32
  c_line :: u8
  c_cc :: "nat \<Rightarrow> u8"

record tty_struct =
  tty_termios :: termios
  tty_pgrp_id :: int
  stopped :: int
  read_q :: tty_queue
  write_q :: tty_queue
  secondary :: tty_queue

definition INTR_CHAR :: "tty_struct \<Rightarrow> u8" where "INTR_CHAR tty = c_cc (tty_termios tty) VINTR"
definition QUIT_CHAR :: "tty_struct \<Rightarrow> u8" where "QUIT_CHAR tty = c_cc (tty_termios tty) VQUIT"
definition ERASE_CHAR :: "tty_struct \<Rightarrow> u8" where "ERASE_CHAR tty = c_cc (tty_termios tty) VERASE"
definition KILL_CHAR :: "tty_struct \<Rightarrow> u8" where "KILL_CHAR tty = c_cc (tty_termios tty) VKILL"
definition EOF_CHAR :: "tty_struct \<Rightarrow> u8" where "EOF_CHAR tty = c_cc (tty_termios tty) VEOF"
definition START_CHAR :: "tty_struct \<Rightarrow> u8" where "START_CHAR tty = c_cc (tty_termios tty) VSTART"
definition STOP_CHAR :: "tty_struct \<Rightarrow> u8" where "STOP_CHAR tty = c_cc (tty_termios tty) VSTOP"
definition SUSPEND_CHAR :: "tty_struct \<Rightarrow> u8" where "SUSPEND_CHAR tty = c_cc (tty_termios tty) VSUSP"

definition INIT_C_CC :: "u8 list" where
  "INIT_C_CC = [3, 28, 127, 21, 4, 0, 1, 0, 17, 19, 26, 0, 18, 15, 23, 22, 0]"


subsection \<open>The queue holds a list of bytes\<close>

definition queue_ok :: "tty_queue \<Rightarrow> bool" where
  "queue_ok q \<longleftrightarrow> unat (head q) < TTY_BUF_SIZE \<and> unat (tail q) < TTY_BUF_SIZE"

definition used :: "tty_queue \<Rightarrow> nat" where
  "used q = (if unat (tail q) \<le> unat (head q) then unat (head q) - unat (tail q)
             else unat (head q) + 1024 - unat (tail q))"

definition queue_bytes :: "tty_queue \<Rightarrow> u8 list" where
  "queue_bytes q = map (\<lambda>k. buf q ((unat (tail q) + k) mod TTY_BUF_SIZE)) [0..<used q]"

lemma and_1023: "(w :: u32) AND (of_nat TTY_BUF_SIZE - 1) = w AND 1023" "(of_nat TTY_BUF_SIZE - 1) AND (w :: u32) = w AND 1023"
  by (simp_all add: TTY_BUF_SIZE_def and.commute)

lemma uint_and_1023: "uint ((w :: u32) AND 1023) = uint w mod 1024"
proof -
  have "uint (w AND 1023) = uint w AND 1023" by (simp add: uint_and)
  also have "(1023 :: int) = mask 10" by (simp add: mask_eq_exp_minus_1)
  finally show ?thesis by (simp flip: take_bit_eq_mask take_bit_eq_mod) (simp add: take_bit_eq_mod)
qed

lemma uint_sub_mod: "uint (a - b :: u32) mod 1024 = (uint a - uint b) mod 1024"
  by (simp add: uint_word_ariths mod_mod_cancel)

lemma uint_add_mod: "uint (a + b :: u32) mod 1024 = (uint a + uint b) mod 1024"
  by (simp add: uint_word_ariths mod_mod_cancel)

lemma unat_INC: "unat (INC a) = (unat a + 1) mod 1024"
proof -
  have "uint (INC a) = (uint a + 1) mod 1024"
    unfolding INC_def and_1023 uint_and_1023 uint_add_mod by simp
  then have "int (unat (INC a)) = int ((unat a + 1) mod 1024)" by (simp add: zmod_int add.commute)
  then show ?thesis by (simp only: of_nat_eq_iff)
qed

lemma ok_less: "queue_ok q \<Longrightarrow> unat (head q) < 1024 \<and> unat (tail q) < 1024"
  by (simp add: queue_ok_def TTY_BUF_SIZE_def)

lemma used_less: "queue_ok q \<Longrightarrow> used q < 1024"
  using ok_less [of q] by (auto simp: used_def)

lemma wrap_mod: "(a :: nat) < 2048 \<Longrightarrow> a mod 1024 = (if a < 1024 then a else a - 1024)"
  by (simp add: mod_if)

lemma wrap_int: "- 1024 < (a :: int) \<Longrightarrow> a < 1024 \<Longrightarrow> a mod 1024 = (if 0 \<le> a then a else a + 1024)"
proof -
  assume a: "- 1024 < a" "a < 1024"
  have "a mod 1024 = (a + 1024) mod 1024" by simp
  also have "\<dots> = a + 1024" if "a < 0" using a that by (intro mod_pos_pos_trivial) simp_all
  finally show ?thesis using a by (cases "0 \<le> a") (simp_all add: mod_pos_pos_trivial)
qed

lemma uint_conv: "uint w = int (unat w)"
  by simp

lemma CHARS_eq: "queue_ok q \<Longrightarrow> CHARS q = used q"
proof -
  assume ok: "queue_ok q"
  obtain h k where hk: "unat (head q) = h" "unat (tail q) = k" "h < 1024" "k < 1024" using ok_less [OF ok] by blast
  have "int (CHARS q) = (uint (head q) - uint (tail q)) mod 1024"
    unfolding CHARS_def and_1023 uint_sub_mod [symmetric] uint_and_1023 [symmetric] by simp
  also have "\<dots> = (int h - int k) mod 1024" unfolding uint_conv hk ..
  also have "\<dots> = int (used q)"
    unfolding used_def hk using hk(3,4) by (subst wrap_int) auto
  finally show ?thesis by simp
qed

lemma LEFT_eq: "queue_ok q \<Longrightarrow> LEFT q = 1023 - used q"
proof -
  assume ok: "queue_ok q"
  obtain h k where hk: "unat (head q) = h" "unat (tail q) = k" "h < 1024" "k < 1024" using ok_less [OF ok] by blast
  have "int (LEFT q) = uint (tail q - head q - 1) mod 1024"
    unfolding LEFT_def and_1023 uint_and_1023 [symmetric] by simp
  also have "\<dots> = (uint (tail q - head q) - 1) mod 1024"
    unfolding uint_sub_mod [of "tail q - head q"] by simp
  also have "\<dots> = (uint (tail q - head q) mod 1024 - 1) mod 1024" by (rule mod_diff_left_eq [symmetric])
  also have "\<dots> = ((uint (tail q) - uint (head q)) mod 1024 - 1) mod 1024" unfolding uint_sub_mod ..
  also have "\<dots> = (int k - int h - 1) mod 1024" unfolding uint_conv hk by (rule mod_diff_left_eq)
  also have "\<dots> = int (1023 - used q)"
  proof (cases "k = 0 \<and> h = 1023")
    case True
    then show ?thesis unfolding used_def hk by simp
  next
    case False
    then show ?thesis unfolding used_def hk using hk(3,4) by (subst wrap_int) auto
  qed
  finally show ?thesis by simp
qed

lemma length_queue_bytes [simp]: "length (queue_bytes q) = used q"
  by (simp add: queue_bytes_def)

lemma used_0_iff: "queue_ok q \<Longrightarrow> used q = 0 \<longleftrightarrow> EMPTY q"
  using ok_less [of q] by (auto simp: used_def EMPTY_def word_unat_eq_iff split: if_splits)

lemma head_pos:
  assumes "queue_ok q"
  shows "(unat (tail q) + used q) mod 1024 = unat (head q)"
  using ok_less [OF assms] by (simp add: used_def wrap_mod)

lemma PUTCH_spec:
  assumes "queue_ok q" "\<not> FULL q"
  shows "queue_ok (PUTCH c q)" "queue_bytes (PUTCH c q) = queue_bytes q @ [c]"
proof -
  note b = ok_less [OF assms(1)]
  have u: "used q < 1023" using assms(2) LEFT_eq [OF assms(1)] by (simp add: FULL_def)
  have u': "used (PUTCH c q) = Suc (used q)"
    using b u by (auto simp: used_def PUTCH_def unat_INC wrap_mod split: if_splits)
  show "queue_ok (PUTCH c q)" using b by (simp add: queue_ok_def PUTCH_def unat_INC TTY_BUF_SIZE_def)
  have new: "(unat (tail q) + k) mod 1024 \<noteq> unat (head q)" if "k < used q" for k
    using that b u by (auto simp: used_def wrap_mod split: if_splits)
  show "queue_bytes (PUTCH c q) = queue_bytes q @ [c]"
    unfolding queue_bytes_def u' using new head_pos [OF assms(1)] by (simp add: PUTCH_def TTY_BUF_SIZE_def)
qed

lemma GETCH_spec:
  assumes "queue_ok q" "\<not> EMPTY q" "GETCH q = (c, r)"
  shows "queue_ok r" "queue_bytes q = c # queue_bytes r"
proof -
  note b = ok_less [OF assms(1)]
  have r: "r = q\<lparr>tail := INC (tail q)\<rparr>" and c: "c = buf q (unat (tail q))"
    using assms(3) by (auto simp: GETCH_def)
  show "queue_ok r" using b by (simp add: queue_ok_def r unat_INC TTY_BUF_SIZE_def)
  have "used q \<noteq> 0" using used_0_iff assms(1,2) by simp
  then obtain n where n: "used q = Suc n" by (cases "used q") auto
  then have n': "used r = n" using b by (auto simp: used_def r unat_INC wrap_mod split: if_splits)
  have "queue_bytes q = buf q (unat (tail q)) # map (\<lambda>k. buf q ((unat (tail q) + Suc k) mod 1024)) [0..<n]"
    unfolding queue_bytes_def n TTY_BUF_SIZE_def using b by (simp add: upt_conv_Cons map_Suc_upt [symmetric] comp_def del: upt_Suc)
  moreover have "queue_bytes r = map (\<lambda>k. buf q ((unat (tail q) + Suc k) mod 1024)) [0..<n]"
    unfolding queue_bytes_def n' TTY_BUF_SIZE_def by (simp add: r unat_INC mod_add_left_eq)
  ultimately show "queue_bytes q = c # queue_bytes r" by (simp add: c)
qed

text \<open>Erasing the last character, as line editing does.\<close>

lemma LAST_DEC:
  assumes "queue_ok q" "\<not> EMPTY q"
  shows "queue_ok (q\<lparr>head := DEC (head q)\<rparr>)" "queue_bytes q = queue_bytes (q\<lparr>head := DEC (head q)\<rparr>) @ [LAST q]"
proof -
  let ?r = "q\<lparr>head := DEC (head q)\<rparr>"
  note b = ok_less [OF assms(1)]
  obtain h where h: "unat (head q) = h" "h < 1024" using b by blast
  have "int (unat (DEC (head q))) = (uint (head q) - 1) mod 1024"
    unfolding uint_conv [symmetric] DEC_def and_1023 uint_and_1023 uint_sub_mod by simp
  also have "\<dots> = int (if h = 0 then 1023 else h - 1)"
    unfolding uint_conv h using h(2) by (subst wrap_int) auto
  finally have d: "unat (DEC (head q)) = (if unat (head q) = 0 then 1023 else unat (head q) - 1)"
    unfolding h by (simp only: of_nat_eq_iff)
  then show ok: "queue_ok ?r" using b by (auto simp: queue_ok_def TTY_BUF_SIZE_def)
  have "used q \<noteq> 0" using used_0_iff assms by simp
  then have u: "used q = Suc (used ?r)" using b d by (auto simp: used_def split: if_splits)
  have "LAST q = buf q (unat (head ?r))" unfolding LAST_def and_1023 by (simp add: DEC_def and_1023)
  then show "queue_bytes q = queue_bytes ?r @ [LAST q]"
    unfolding queue_bytes_def u using head_pos [OF ok] by (simp add: TTY_BUF_SIZE_def)
qed


subsection \<open>The queue as a byte queue\<close>

definition tq_put :: "tty_queue \<Rightarrow> u8 list \<Rightarrow> tty_queue \<Rightarrow> bool" where
  "tq_put q xs r \<longleftrightarrow> (\<exists>c. xs = [c] \<and> \<not> FULL q \<and> r = PUTCH c q)"

definition tq_get :: "tty_queue \<Rightarrow> u8 list \<Rightarrow> tty_queue \<Rightarrow> bool" where
  "tq_get q xs r \<longleftrightarrow> (\<exists>c. xs = [c] \<and> \<not> EMPTY q \<and> GETCH q = (c, r))"

definition tq_idle :: "tty_queue \<Rightarrow> tty_queue \<Rightarrow> bool" where
  "tq_idle q r \<longleftrightarrow> (\<exists>p d. r = q\<lparr>proc_list := p, q_data := d\<rparr>)"

interpretation tq: byte_queue tq_put tq_get tq_idle queue_bytes queue_ok 1023
proof
  fix s t :: tty_queue and xs
  assume ok: "queue_ok s"
  show "queue_ok t \<and> queue_bytes t = queue_bytes s @ xs" if "tq_put s xs t"
    using that PUTCH_spec [OF ok] by (auto simp: tq_put_def)
  show "queue_ok t \<and> queue_bytes s = xs @ queue_bytes t" if "tq_get s xs t"
    using that GETCH_spec [OF ok] by (auto simp: tq_get_def)
  show "queue_ok t \<and> queue_bytes t = queue_bytes s" if "tq_idle s t"
    using that ok by (auto simp: tq_idle_def queue_ok_def queue_bytes_def used_def)
  show "length (queue_bytes s) \<le> 1023" using used_less [OF ok] by simp
qed

text \<open>The macros do not look whether there is room, or anything to take.\<close>

lemma PUTCH_full:
  assumes "queue_ok q" "FULL q"
  shows "queue_ok (PUTCH c q)" "queue_bytes (PUTCH c q) = []"
proof -
  note b = ok_less [OF assms(1)]
  show "queue_ok (PUTCH c q)" using b by (simp add: queue_ok_def PUTCH_def unat_INC TTY_BUF_SIZE_def)
  have "used q = 1023" using assms(2) LEFT_eq [OF assms(1)] used_less [OF assms(1)] by (simp add: FULL_def)
  then have "used (PUTCH c q) = 0" using b by (auto simp: used_def PUTCH_def unat_INC wrap_mod split: if_splits)
  then show "queue_bytes (PUTCH c q) = []" by (simp add: queue_bytes_def)
qed

lemma GETCH_empty:
  assumes "queue_ok q" "EMPTY q"
  shows "queue_ok (snd (GETCH q))" "length (queue_bytes (snd (GETCH q))) = 1023"
proof -
  note b = ok_less [OF assms(1)]
  show "queue_ok (snd (GETCH q))" using b by (simp add: queue_ok_def GETCH_def unat_INC TTY_BUF_SIZE_def)
  have "used q = 0" using used_0_iff [OF assms(1)] assms(2) by simp
  then show "length (queue_bytes (snd (GETCH q))) = 1023"
    using b by (auto simp: used_def GETCH_def unat_INC wrap_mod split: if_splits)
qed

text \<open>
  C34: a terminal queue is a first-in first-out queue as long as it is used as one. Over any interleaving of \<^verbatim>\<open>PUTCH\<close> on a queue
  that is not full and \<^verbatim>\<open>GETCH\<close> on one that is not empty, the bytes taken out followed by the
  bytes still held are the bytes held at the start followed by those put in, and at most
  1023 more bytes go in than come out. The macros themselves do not look: \<^verbatim>\<open>PUTCH\<close> on a full queue loses all that it
  holds and the new byte, and \<^verbatim>\<open>GETCH\<close> on an empty one makes 1023 old bytes appear.
\<close>

theorem tty_queue_fifo:
  assumes "queue_ok q" and "queue_run tq_put tq_get tq_idle q w r p"
  shows "queue_ok p \<and> queue_bytes q @ w = r @ queue_bytes p \<and> length w \<le> length r + 1023 \<and>
    (FULL p \<longrightarrow> queue_ok (PUTCH c p) \<and> queue_bytes (PUTCH c p) = []) \<and>
    (EMPTY p \<longrightarrow> queue_ok (snd (GETCH p)) \<and> length (queue_bytes (snd (GETCH p))) = 1023)"
  using tq.run_fifo [OF assms(2,1)] tq.run_bounded [OF assms(2,1)] PUTCH_full [of p c] GETCH_empty [of p] by simp

definition demo_tq :: tty_queue where
  "demo_tq = \<lparr>q_data = 0, head = 1023, tail = 1023, proc_list = 0, buf = (\<lambda>_. 0)\<rparr>"

lemma demo_tq_ok: "queue_ok demo_tq" "queue_bytes demo_tq = []" "\<not> FULL demo_tq"
proof -
  show ok: "queue_ok demo_tq" by (simp add: queue_ok_def demo_tq_def TTY_BUF_SIZE_def)
  have u: "used demo_tq = 0" by (simp add: used_def demo_tq_def)
  then show "queue_bytes demo_tq = []" by (simp add: queue_bytes_def)
  show "\<not> FULL demo_tq" using LEFT_eq [OF ok] u by (simp add: FULL_def)
qed

theorem tty_queue_fifo_witness:
  "queue_ok (PUTCH 65 demo_tq) \<and> queue_bytes (PUTCH 65 demo_tq) = [65]"
proof -
  have "tq_put demo_tq [65] (PUTCH 65 demo_tq)" using demo_tq_ok(3) by (auto simp: tq_put_def)
  then have "queue_run tq_put tq_get tq_idle demo_tq ([] @ [65]) [] (PUTCH 65 demo_tq)"
    by (intro queue_run.put [OF queue_run.start])
  then show ?thesis using tty_queue_fifo [OF demo_tq_ok(1)] demo_tq_ok(2) by force
qed

text \<open>
  The macros that look at a terminal queue say what it holds, also across the wrap-around
  of the ring: \<^verbatim>\<open>CHARS\<close> is the number of bytes, \<^verbatim>\<open>LEFT\<close> the room left of 1023, \<^verbatim>\<open>EMPTY\<close> and \<^verbatim>\<open>FULL\<close> the two
  ends, \<^verbatim>\<open>LAST\<close> the byte put in last, and decrementing the head takes exactly that byte
  back.
\<close>

theorem tty_queue_observers:
  assumes "queue_ok q"
  shows "CHARS q = length (queue_bytes q) \<and> LEFT q = 1023 - length (queue_bytes q) \<and>
    (EMPTY q \<longleftrightarrow> queue_bytes q = []) \<and> (FULL q \<longleftrightarrow> length (queue_bytes q) = 1023) \<and>
    (queue_bytes q \<noteq> [] \<longrightarrow> LAST q = last (queue_bytes q) \<and>
       queue_bytes (q\<lparr>head := DEC (head q)\<rparr>) = butlast (queue_bytes q))"
proof -
  have "queue_bytes q = [] \<longleftrightarrow> used q = 0" by (metis length_0_conv length_queue_bytes)
  moreover have "FULL q \<longleftrightarrow> used q = 1023" using LEFT_eq [OF assms] used_less [OF assms] by (auto simp: FULL_def)
  ultimately show ?thesis
    using CHARS_eq [OF assms] LEFT_eq [OF assms] used_0_iff [OF assms] LAST_DEC [OF assms] by auto
qed

theorem tty_queue_observers_witness:
  "CHARS (PUTCH 65 demo_tq) = 1 \<and> LAST (PUTCH 65 demo_tq) = 65"
  using tty_queue_observers [OF PUTCH_spec(1) [OF demo_tq_ok(1,3), of 65]]
    PUTCH_spec(2) [OF demo_tq_ok(1,3), of 65] demo_tq_ok(2) by simp

end
