(* ===== verification/Console.thy ===== *)
theory Console
  imports Tty_Queue
begin

text \<open>
  The console, \<^verbatim>\<open>kernel/chr_drv/console.c\<close>: the escape-sequence automaton, the cursor and the
  scrolling of the screen. \<open>vmem\<close> is physical memory by bytes, as the code reaches it through
  the addresses it computes; \<open>con_out\<close> collects what is written to the ports, latest first.
  \<^verbatim>\<open>copy_to_cooked\<close> and \<^verbatim>\<open>sysbeep\<close> are declared but not defined in the sources: they are arguments.
  A character is a byte; a \<^verbatim>\<open>char\<close> above 127 is negative in C and equal to no constant, and
  the comparison with the unsigned \<^verbatim>\<open>ERASE_CHAR\<close> is written out accordingly.
\<close>


subsection \<open>State\<close>

definition VIDEO_TYPE_MDA :: u8 where "VIDEO_TYPE_MDA = 0x10"
definition VIDEO_TYPE_CGA :: u8 where "VIDEO_TYPE_CGA = 0x11"
definition VIDEO_TYPE_EGAM :: u8 where "VIDEO_TYPE_EGAM = 0x20"
definition VIDEO_TYPE_EGAC :: u8 where "VIDEO_TYPE_EGAC = 0x21"
definition NPAR :: u32 where "NPAR = 16"

record console =
  vmem :: "u32 \<Rightarrow> u8"
  con_out :: "(u16 \<times> u8) list"
  con_in :: "u16 \<Rightarrow> u8"
  con_idt :: "nat \<Rightarrow> (nat \<times> nat \<times> string) option"
  con_tty :: tty_struct
  video_type :: u8
  video_num_columns :: u32
  video_size_row :: u32
  video_num_lines :: u32
  video_page :: u8
  video_mem_start :: u32
  video_mem_end :: u32
  video_port_reg :: u16
  video_port_val :: u16
  video_erase_char :: u16
  origin :: u32
  scr_end :: u32
  pos :: u32
  cx :: u32
  cy :: u32
  scr_top :: u32
  scr_bottom :: u32
  esc_state :: u32
  npar :: u32
  par :: "nat \<Rightarrow> u32"
  ques :: bool
  attr :: u8
  saved_x :: int
  saved_y :: int

record con_ext =
  sysbeep :: "console \<Rightarrow> console"
  copy_to_cooked :: "console \<Rightarrow> console"


subsection \<open>Memory\<close>

definition put8 :: "u32 \<Rightarrow> u8 \<Rightarrow> console \<Rightarrow> console" where
  "put8 a v c = c\<lparr>vmem := (vmem c)(a := v)\<rparr>"

definition put16 :: "u32 \<Rightarrow> u16 \<Rightarrow> console \<Rightarrow> console" where
  "put16 a v c = put8 (a + 1) (ucast (drop_bit 8 v)) (put8 a (ucast v) c)"

definition get16 :: "u32 \<Rightarrow> console \<Rightarrow> u16" where
  "get16 a c = ucast (vmem c a) OR push_bit 8 (ucast (vmem c (a + 1)))"

text \<open>\<^verbatim>\<open>rep stosw\<close> and \<^verbatim>\<open>rep movsl\<close>, upwards (\<^verbatim>\<open>cld\<close>) and downwards (\<^verbatim>\<open>std\<close>).\<close>

primrec stosw :: "nat \<Rightarrow> u32 \<Rightarrow> u16 \<Rightarrow> console \<Rightarrow> console" where
  "stosw 0 a v c = c"
| "stosw (Suc n) a v c = stosw n (a + 2) v (put16 a v c)"

primrec stosw_down :: "nat \<Rightarrow> u32 \<Rightarrow> u16 \<Rightarrow> console \<Rightarrow> console" where
  "stosw_down 0 a v c = c"
| "stosw_down (Suc n) a v c = stosw_down n (a - 2) v (put16 a v c)"

definition movl :: "u32 \<Rightarrow> u32 \<Rightarrow> console \<Rightarrow> console" where
  "movl src dst c = put16 (dst + 2) (get16 (src + 2) c) (put16 dst (get16 src c) c)"

primrec movsl :: "nat \<Rightarrow> u32 \<Rightarrow> u32 \<Rightarrow> console \<Rightarrow> console" where
  "movsl 0 src dst c = c"
| "movsl (Suc n) src dst c = movsl n (src + 4) (dst + 4) (movl src dst c)"

primrec movsl_down :: "nat \<Rightarrow> u32 \<Rightarrow> u32 \<Rightarrow> console \<Rightarrow> console" where
  "movsl_down 0 src dst c = c"
| "movsl_down (Suc n) src dst c = movsl_down n (src - 4) (dst - 4) (movl src dst c)"

definition outb_p :: "u8 \<Rightarrow> u16 \<Rightarrow> console \<Rightarrow> console" where
  "outb_p v port c = c\<lparr>con_out := (port, v) # con_out c\<rparr>"

definition set_trap_gate :: "nat \<Rightarrow> string \<Rightarrow> console \<Rightarrow> console" where
  "set_trap_gate n handler c = c\<lparr>con_idt := (con_idt c)(n := Some (15, 0, handler))\<rparr>"


subsection \<open>Cursor and scrolling\<close>

definition gotoxy :: "u32 \<Rightarrow> u32 \<Rightarrow> console \<Rightarrow> console" where
  "gotoxy new_x new_y c =
     (if video_num_columns c < new_x \<or> video_num_lines c \<le> new_y then c
      else c\<lparr>cx := new_x, cy := new_y, pos := origin c + new_y * video_size_row c + push_bit 1 new_x\<rparr>)"

definition set_origin :: "console \<Rightarrow> console" where
  "set_origin c =
     (let c = outb_p 12 (video_port_reg c) c;
          c = outb_p (ucast (drop_bit 9 (origin c - video_mem_start c))) (video_port_val c) c;
          c = outb_p 13 (video_port_reg c) c
      in outb_p (ucast (drop_bit 1 (origin c - video_mem_start c))) (video_port_val c) c)"

text \<open>Scrolling the region from \<^verbatim>\<open>top\<close> to \<^verbatim>\<open>bottom\<close> by moving memory.\<close>

definition region_longs :: "console \<Rightarrow> nat" where
  "region_longs c = unat (drop_bit 1 ((scr_bottom c - scr_top c - 1) * video_num_columns c))"

definition scrup_region :: "console \<Rightarrow> console" where
  "scrup_region c =
     (let n = region_longs c; dst = origin c + video_size_row c * scr_top c
      in stosw (unat (video_num_columns c)) (dst + 4 * of_nat n) (video_erase_char c)
           (movsl n (origin c + video_size_row c * (scr_top c + 1)) dst c))"

definition scrup :: "console \<Rightarrow> console" where
  "scrup c =
     (if video_type c = VIDEO_TYPE_EGAC \<or> video_type c = VIDEO_TYPE_EGAM then
        if scr_top c = 0 \<and> scr_bottom c = video_num_lines c then
          let c = c\<lparr>origin := origin c + video_size_row c, pos := pos c + video_size_row c,
                    scr_end := scr_end c + video_size_row c\<rparr>;
              c = (if video_mem_end c < scr_end c then
                     let n = unat (drop_bit 1 ((video_num_lines c - 1) * video_num_columns c));
                         c = stosw (unat (video_num_columns c)) (video_mem_start c + 4 * of_nat n)
                               (video_erase_char c) (movsl n (origin c) (video_mem_start c) c)
                     in c\<lparr>scr_end := scr_end c - (origin c - video_mem_start c),
                          pos := pos c - (origin c - video_mem_start c), origin := video_mem_start c\<rparr>
                   else stosw (unat (video_num_columns c)) (scr_end c - video_size_row c) (video_erase_char c) c)
          in set_origin c
        else scrup_region c
      else scrup_region c)"

definition scrdown :: "console \<Rightarrow> console" where
  "scrdown c =
     (let n = region_longs c; dst = origin c + video_size_row c * scr_bottom c - 4
      in stosw_down (unat (video_num_columns c)) (dst - 4 * of_nat n + 2) (video_erase_char c)
           (movsl_down n (origin c + video_size_row c * (scr_bottom c - 1) - 4) dst c))"

definition lf :: "console \<Rightarrow> console" where
  "lf c = (if cy c + 1 < scr_bottom c then c\<lparr>cy := cy c + 1, pos := pos c + video_size_row c\<rparr> else scrup c)"

definition ri :: "console \<Rightarrow> console" where
  "ri c = (if scr_top c < cy c then c\<lparr>cy := cy c - 1, pos := pos c - video_size_row c\<rparr> else scrdown c)"

definition cr :: "console \<Rightarrow> console" where
  "cr c = c\<lparr>pos := pos c - push_bit 1 (cx c), cx := 0\<rparr>"

definition del :: "console \<Rightarrow> console" where
  "del c = (if cx c \<noteq> 0
     then put16 (pos c - 2) (video_erase_char c) (c\<lparr>pos := pos c - 2, cx := cx c - 1\<rparr>) else c)"


subsection \<open>Control sequences\<close>

definition csi_J :: "u32 \<Rightarrow> console \<Rightarrow> console" where
  "csi_J p c =
     (if p = 0 then stosw (unat (drop_bit 1 (scr_end c - pos c))) (pos c) (video_erase_char c) c
      else if p = 1 then stosw (unat (drop_bit 1 (pos c - origin c))) (origin c) (video_erase_char c) c
      else if p = 2 then stosw (unat (video_num_columns c * video_num_lines c)) (origin c) (video_erase_char c) c
      else c)"

definition csi_K :: "u32 \<Rightarrow> console \<Rightarrow> console" where
  "csi_K p c =
     (if p = 0 then
        if video_num_columns c \<le> cx c then c
        else stosw (unat (video_num_columns c - cx c)) (pos c) (video_erase_char c) c
      else if p = 1 then
        stosw (unat (if cx c < video_num_columns c then cx c else video_num_columns c))
          (pos c - push_bit 1 (cx c)) (video_erase_char c) c
      else if p = 2 then
        stosw (unat (video_num_columns c)) (pos c - push_bit 1 (cx c)) (video_erase_char c) c
      else c)"

definition csi_m :: "console \<Rightarrow> console" where
  "csi_m c = fold (\<lambda>i c.
     if par c i = 0 then c\<lparr>attr := 0x07\<rparr>
     else if par c i = 1 then c\<lparr>attr := 0x0F\<rparr>
     else if par c i = 4 then c\<lparr>attr := 0x0F\<rparr>
     else if par c i = 7 then c\<lparr>attr := 0x70\<rparr>
     else if par c i = 27 then c\<lparr>attr := 0x07\<rparr>
     else c) [0..<unat (npar c) + 1] c"

definition set_cursor :: "console \<Rightarrow> console" where
  "set_cursor c =
     (let c = outb_p 14 (video_port_reg c) c;
          c = outb_p (ucast (drop_bit 9 (pos c - video_mem_start c))) (video_port_val c) c;
          c = outb_p 15 (video_port_reg c) c
      in outb_p (ucast (drop_bit 1 (pos c - video_mem_start c))) (video_port_val c) c)"

definition RESPONSE :: "u8 list" where
  "RESPONSE = [27, 91, 63, 49, 59, 50, 99]"

definition respond :: "con_ext \<Rightarrow> console \<Rightarrow> console" where
  "respond e c = copy_to_cooked e (c\<lparr>con_tty := (con_tty c)\<lparr>read_q := fold PUTCH RESPONSE (read_q (con_tty c))\<rparr>\<rparr>)"

text \<open>The loops of \<^verbatim>\<open>insert_char\<close> and \<^verbatim>\<open>delete_char\<close>, \<open>n\<close> cells from \<open>p\<close> on.\<close>

primrec insert_cells :: "nat \<Rightarrow> u32 \<Rightarrow> u16 \<Rightarrow> console \<Rightarrow> console" where
  "insert_cells 0 p old c = c"
| "insert_cells (Suc n) p old c = insert_cells n (p + 2) (get16 p c) (put16 p old c)"

definition insert_char :: "console \<Rightarrow> console" where
  "insert_char c = insert_cells (unat (video_num_columns c) - unat (cx c)) (pos c) (video_erase_char c) c"

primrec delete_cells :: "nat \<Rightarrow> u32 \<Rightarrow> console \<Rightarrow> console" where
  "delete_cells 0 p c = put16 p (video_erase_char c) c"
| "delete_cells (Suc n) p c = delete_cells n (p + 2) (put16 p (get16 (p + 2) c) c)"

definition delete_char :: "console \<Rightarrow> console" where
  "delete_char c =
     (if video_num_columns c \<le> cx c then c
      else delete_cells (unat (video_num_columns c) - unat (cx c) - 1) (pos c) c)"

definition insert_line :: "console \<Rightarrow> console" where
  "insert_line c =
     (scrdown (c\<lparr>scr_top := cy c, scr_bottom := video_num_lines c\<rparr>))\<lparr>scr_top := scr_top c, scr_bottom := scr_bottom c\<rparr>"

definition delete_line :: "console \<Rightarrow> console" where
  "delete_line c =
     (scrup (c\<lparr>scr_top := cy c, scr_bottom := video_num_lines c\<rparr>))\<lparr>scr_top := scr_top c, scr_bottom := scr_bottom c\<rparr>"

definition csi_at :: "u32 \<Rightarrow> console \<Rightarrow> console" where
  "csi_at nr c = (insert_char ^^ unat (if video_num_columns c < nr then video_num_columns c
     else if nr = 0 then 1 else nr)) c"

definition csi_L :: "u32 \<Rightarrow> console \<Rightarrow> console" where
  "csi_L nr c = (insert_line ^^ unat (if video_num_lines c < nr then video_num_lines c
     else if nr = 0 then 1 else nr)) c"

definition csi_P :: "u32 \<Rightarrow> console \<Rightarrow> console" where
  "csi_P nr c = (delete_char ^^ unat (if video_num_columns c < nr then video_num_columns c
     else if nr = 0 then 1 else nr)) c"

definition csi_M :: "u32 \<Rightarrow> console \<Rightarrow> console" where
  "csi_M nr c = (delete_line ^^ unat (if video_num_lines c < nr then video_num_lines c
     else if nr = 0 then 1 else nr)) c"

definition save_cur :: "console \<Rightarrow> console" where
  "save_cur c = c\<lparr>saved_x := sint (cx c), saved_y := sint (cy c)\<rparr>"

definition restore_cur :: "console \<Rightarrow> console" where
  "restore_cur c = gotoxy (of_int (saved_x c)) (of_int (saved_y c)) c"


subsection \<open>The automaton\<close>

text \<open>One more column than there is: continue on the next line.\<close>

definition wrap_line :: "console \<Rightarrow> console" where
  "wrap_line c = lf (c\<lparr>cx := cx c - video_num_columns c, pos := pos c - video_size_row c\<rparr>)"

definition put_glyph :: "u8 \<Rightarrow> console \<Rightarrow> console" where
  "put_glyph ch c =
     (let c = (if video_num_columns c \<le> cx c then wrap_line c else c);
          c = put16 (pos c) (ucast ch OR push_bit 8 (ucast (attr c))) c
      in c\<lparr>pos := pos c + 2, cx := cx c + 1\<rparr>)"

definition con_plain :: "con_ext \<Rightarrow> u8 \<Rightarrow> console \<Rightarrow> console" where
  "con_plain e ch c =
     (if 31 < ch \<and> ch < 127 then put_glyph ch c
      else if ch = 27 then c\<lparr>esc_state := 1\<rparr>
      else if ch = 10 \<or> ch = 11 \<or> ch = 12 then lf c
      else if ch = 13 then cr c
      else if ch = ERASE_CHAR (con_tty c) \<and> ch < 128 then del c
      else if ch = 8 then if cx c \<noteq> 0 then c\<lparr>cx := cx c - 1, pos := pos c - 2\<rparr> else c
      else if ch = 9 then
        let d = 8 - (cx c AND 7);
            c = c\<lparr>cx := cx c + d, pos := pos c + push_bit 1 d\<rparr>
        in if video_num_columns c < cx c then wrap_line c else c
      else if ch = 7 then sysbeep e c
      else c)"

text \<open>The state after ESC. The last two tests compare the column, as the code does.\<close>

definition con_escape :: "con_ext \<Rightarrow> u8 \<Rightarrow> console \<Rightarrow> console" where
  "con_escape e ch c =
     (let c = c\<lparr>esc_state := 0\<rparr>
      in if ch = 91 then c\<lparr>esc_state := 2\<rparr>
         else if ch = 69 then gotoxy 0 (cy c + 1) c
         else if ch = 77 then ri c
         else if ch = 68 then lf c
         else if ch = 90 then respond e c
         else if cx c = 55 then save_cur c
         else if cx c = 56 then restore_cur c
         else c)"

definition set_par :: "nat \<Rightarrow> u32 \<Rightarrow> console \<Rightarrow> console" where
  "set_par i v c = c\<lparr>par := (par c)(i := v)\<rparr>"

definition dec_par :: "nat \<Rightarrow> console \<Rightarrow> console" where
  "dec_par i c = (if par c i \<noteq> 0 then set_par i (par c i - 1) c else c)"

definition inc_par :: "nat \<Rightarrow> console \<Rightarrow> console" where
  "inc_par i c = (if par c i = 0 then set_par i (par c i + 1) c else c)"

definition set_region :: "console \<Rightarrow> console" where
  "set_region c =
     (let c = dec_par 0 c;
          c = (if par c 1 = 0 then set_par 1 (video_num_lines c) c else c)
      in if par c 0 < par c 1 \<and> par c 1 \<le> video_num_lines c
         then c\<lparr>scr_top := par c 0, scr_bottom := par c 1\<rparr> else c)"

definition csi_final :: "u8 \<Rightarrow> console \<Rightarrow> console" where
  "csi_final ch c =
     (let c = c\<lparr>esc_state := 0\<rparr>
      in if ch = 71 \<or> ch = 96 then let c = dec_par 0 c in gotoxy (par c 0) (cy c) c
         else if ch = 65 then let c = inc_par 0 c in gotoxy (cx c) (cy c - par c 0) c
         else if ch = 66 \<or> ch = 101 then let c = inc_par 0 c in gotoxy (cx c) (cy c + par c 0) c
         else if ch = 67 \<or> ch = 97 then let c = inc_par 0 c in gotoxy (cx c + par c 0) (cy c) c
         else if ch = 68 then let c = inc_par 0 c in gotoxy (cx c - par c 0) (cy c) c
         else if ch = 69 then let c = inc_par 0 c in gotoxy 0 (cy c + par c 0) c
         else if ch = 70 then let c = inc_par 0 c in gotoxy 0 (cy c - par c 0) c
         else if ch = 100 then let c = dec_par 0 c in gotoxy (cx c) (par c 0) c
         else if ch = 72 \<or> ch = 102 then let c = dec_par 1 (dec_par 0 c) in gotoxy (par c 1) (par c 0) c
         else if ch = 74 then csi_J (par c 0) c
         else if ch = 75 then csi_K (par c 0) c
         else if ch = 76 then csi_L (par c 0) c
         else if ch = 77 then csi_M (par c 0) c
         else if ch = 80 then csi_P (par c 0) c
         else if ch = 64 then csi_at (par c 0) c
         else if ch = 109 then csi_m c
         else if ch = 114 then set_region c
         else if ch = 115 then save_cur c
         else if ch = 117 then restore_cur c
         else c)"

definition csi_param :: "u8 \<Rightarrow> console \<Rightarrow> console" where
  "csi_param ch c =
     (if ch = 59 \<and> npar c < NPAR - 1 then c\<lparr>npar := npar c + 1\<rparr>
      else if 48 \<le> ch \<and> ch \<le> 57
      then set_par (unat (npar c)) (10 * par c (unat (npar c)) + ucast ch - 48) c
      else csi_final ch (c\<lparr>esc_state := 4\<rparr>))"

definition csi_start :: "u8 \<Rightarrow> console \<Rightarrow> console" where
  "csi_start ch c =
     (let c = c\<lparr>par := (\<lambda>i. if i < unat NPAR then 0 else par c i), npar := 0, esc_state := 3, ques := (ch = 63)\<rparr>
      in if ques c then c else csi_param ch c)"

definition con_char :: "con_ext \<Rightarrow> u8 \<Rightarrow> console \<Rightarrow> console" where
  "con_char e ch c =
     (if esc_state c = 0 then con_plain e ch c
      else if esc_state c = 1 then con_escape e ch c
      else if esc_state c = 2 then csi_start ch c
      else if esc_state c = 3 then csi_param ch c
      else if esc_state c = 4 then csi_final ch c
      else c)"

primrec con_write_loop :: "nat \<Rightarrow> con_ext \<Rightarrow> console \<Rightarrow> console" where
  "con_write_loop 0 e c = c"
| "con_write_loop (Suc nr) e c =
     (case GETCH (write_q (con_tty c)) of (ch, q) \<Rightarrow>
        con_write_loop nr e (con_char e ch (c\<lparr>con_tty := (con_tty c)\<lparr>write_q := q\<rparr>\<rparr>)))"

definition con_write :: "con_ext \<Rightarrow> console \<Rightarrow> console" where
  "con_write e c = set_cursor (con_write_loop (CHARS (write_q (con_tty c))) e c)"


subsection \<open>Initialization\<close>

definition get8 :: "u32 \<Rightarrow> console \<Rightarrow> u8" where
  "get8 a c = vmem c a"

definition ORIG_X :: "console \<Rightarrow> u8" where "ORIG_X c = get8 0x90000 c"
definition ORIG_Y :: "console \<Rightarrow> u8" where "ORIG_Y c = get8 0x90001 c"
definition ORIG_VIDEO_PAGE :: "console \<Rightarrow> u16" where "ORIG_VIDEO_PAGE c = get16 0x90004 c"
definition ORIG_VIDEO_MODE :: "console \<Rightarrow> u16" where "ORIG_VIDEO_MODE c = get16 0x90006 c AND 0xFF"
definition ORIG_VIDEO_COLS :: "console \<Rightarrow> u16" where
  "ORIG_VIDEO_COLS c = drop_bit 8 (get16 0x90006 c AND 0xFF00)"
definition ORIG_VIDEO_LINES :: u32 where "ORIG_VIDEO_LINES = 25"
definition ORIG_VIDEO_EGA_BX :: "console \<Rightarrow> u16" where "ORIG_VIDEO_EGA_BX c = get16 0x9000A c"

text \<open>The kind of display: memory, ports, type and the text that names it.\<close>

definition detect_display :: "console \<Rightarrow> u8 list \<times> console" where
  "detect_display c =
     (if ORIG_VIDEO_MODE c = 7 then
        let c = c\<lparr>video_mem_start := 0xB0000, video_port_reg := 0x3B4, video_port_val := 0x3B5\<rparr>
        in if ORIG_VIDEO_EGA_BX c AND 0xFF \<noteq> 0x10
           then ([69, 71, 65, 109], c\<lparr>video_type := VIDEO_TYPE_EGAM, video_mem_end := 0xB8000\<rparr>)
           else ([42, 77, 68, 65], c\<lparr>video_type := VIDEO_TYPE_MDA, video_mem_end := 0xB2000\<rparr>)
      else
        let c = c\<lparr>video_mem_start := 0xB8000, video_port_reg := 0x3D4, video_port_val := 0x3D5\<rparr>
        in if ORIG_VIDEO_EGA_BX c AND 0xFF \<noteq> 0x10
           then ([69, 71, 65, 99], c\<lparr>video_type := VIDEO_TYPE_EGAC, video_mem_end := 0xBC000\<rparr>)
           else ([42, 67, 71, 65], c\<lparr>video_type := VIDEO_TYPE_CGA, video_mem_end := 0xBA000\<rparr>))"

primrec put_desc :: "u8 list \<Rightarrow> u32 \<Rightarrow> console \<Rightarrow> console" where
  "put_desc [] p c = c"
| "put_desc (d # ds) p c = put_desc ds (p + 2) (put8 p d c)"

definition con_init :: "console \<Rightarrow> console" where
  "con_init c =
     (let cols = ucast (ORIG_VIDEO_COLS c);
          c = c\<lparr>video_num_columns := cols, video_size_row := cols * 2, video_num_lines := ORIG_VIDEO_LINES,
                video_page := ucast (ORIG_VIDEO_PAGE c), video_erase_char := 0x0720\<rparr>
      in case detect_display c of (desc, c) \<Rightarrow>
        let c = put_desc desc (video_mem_start c + video_size_row c - 8) c;
            c = c\<lparr>origin := video_mem_start c,
                  scr_end := video_mem_start c + video_num_lines c * video_size_row c,
                  scr_top := 0, scr_bottom := video_num_lines c\<rparr>;
            c = gotoxy (ucast (ORIG_X c)) (ucast (ORIG_Y c)) c;
            c = set_trap_gate 0x21 ''keyboard_interrupt'' c;
            c = outb_p (con_in c 0x21 AND 0xFD) 0x21 c;
            a = con_in c 0x61;
            c = outb_p (a OR 0x80) 0x61 c
        in outb_p a 0x61 c)"

end
