(* ===== verification/Serial.thy ===== *)
theory Serial
  imports Port_Io Console
begin

text \<open>
  The start of the serial lines and of the terminals, \<^verbatim>\<open>chr_drv/serial.c\<close> and \<^verbatim>\<open>tty_io.c\<close>. The terminal table, which no
  source file defines, is an argument; the port of a line is the \<open>data\<close> field of its read queue. The console
  has a state of its own.
\<close>


definition WAKEUP_CHARS :: nat where "WAKEUP_CHARS = TTY_BUF_SIZE div 4"

definition init :: "nat \<Rightarrow> 'a io_state_scheme \<Rightarrow> 'a io_state_scheme" where
  "init port s =
     (let s = outb 0x80 (port + 3) s;
          s = outb 0x30 port s;
          s = outb 0x00 (port + 1) s;
          s = outb 0x03 (port + 3) s;
          s = outb 0x0B (port + 4) s;
          s = outb 0x0D (port + 1) s
      in snd (inb port s))"

definition rs_init :: "(nat \<Rightarrow> tty_struct) \<Rightarrow> 'a io_state_scheme \<Rightarrow> 'a io_state_scheme" where
  "rs_init tty_table s =
     (let s = set_intr_gate 0x24 ''rs1_interrupt'' s;
          s = set_intr_gate 0x23 ''rs2_interrupt'' s;
          s = init (unat (q_data (read_q (tty_table 1)))) s;
          s = init (unat (q_data (read_q (tty_table 2)))) s
      in case inb 0x21 s of (v, s) \<Rightarrow> outb (v AND 0xE7) 0x21 s)"

text \<open>The interrupt table is one: the console gets it and hands it back.\<close>

definition tty_init :: "(nat \<Rightarrow> tty_struct) \<Rightarrow> 'a io_state_scheme \<times> console \<Rightarrow> 'a io_state_scheme \<times> console" where
  "tty_init tty_table = (\<lambda>(s, c).
     let s = rs_init tty_table s;
         c = con_init (c\<lparr>con_idt := idt s\<rparr>)
     in (s\<lparr>idt := con_idt c\<rparr>, c))"


text \<open>
  Both lines run at 115200 / 48 = 2400 bits per second with eight data bits: the divisor goes to the port while bit 7 of
  the line control register is set, and all interrupts but those of writing are enabled. Nothing else is changed
  but the mask of the lines 3 and 4 of the interrupt controller.
\<close>

definition line_setup :: "nat \<Rightarrow> (nat \<times> u8) list" where
  "line_setup port = [(port + 3, 0x80), (port, 48), (port + 1, 0), (port + 3, 3), (port + 4, 0x0B), (port + 1, 0x0D)]"

lemma rs_init_effect:
  assumes "q_data (read_q (tt 1)) = 0x3F8" "q_data (read_q (tt 2)) = 0x2F8"
  shows "rs_init tt s = s\<lparr>idt := (idt s)(0x24 := Some (14, 0, ''rs1_interrupt''), 0x23 := Some (14, 0, ''rs2_interrupt'')),
    io_clock := io_clock s + 3,
    out_ports := (0x21, ucast (io_in s (io_clock s + 2) 0x21) AND 0xE7) # rev (line_setup 0x3F8 @ line_setup 0x2F8) @ out_ports s\<rparr>"
  using assms by (simp add: rs_init_def init_def Let_def set_intr_gate_def outb_def inb_def line_setup_def)

end
