(* ===== verification/Startup.thy ===== *)
theory Startup
  imports Sched
begin

text \<open>
  What \<^verbatim>\<open>init/main.c\<close> computes before the first task runs: the division of memory, and the start-up
  time, from the clock chip through \<^verbatim>\<open>kernel/mktime.c\<close>. The seconds of \<^verbatim>\<open>kernel_mktime\<close> are compared
  with the Gregorian calendar.
\<close>


subsection \<open>The clock\<close>

definition MINUTE :: int where "MINUTE = 60"
definition HOUR :: int where "HOUR = 60 * MINUTE"
definition DAY :: int where "DAY = 24 * HOUR"
definition YEAR :: int where "YEAR = 365 * DAY"

definition month :: "int list" where
  "month = map (\<lambda>d. DAY * d)
     [0, 31, 31+29, 31+29+31, 31+29+31+30, 31+29+31+30+31, 31+29+31+30+31+30, 31+29+31+30+31+30+31,
      31+29+31+30+31+30+31+31, 31+29+31+30+31+30+31+31+30, 31+29+31+30+31+30+31+31+30+31,
      31+29+31+30+31+30+31+31+30+31+30]"

record tm =
  tm_sec :: int
  tm_min :: int
  tm_hour :: int
  tm_mday :: int
  tm_mon :: int
  tm_year :: int

definition cmod :: "int \<Rightarrow> int \<Rightarrow> int" where
  "cmod a b = a - cdiv a b * b"

text \<open>A month outside the table is read from memory the source does not determine.\<close>

definition kernel_mktime :: "tm \<Rightarrow> int option" where
  "kernel_mktime tm =
     (let year = (if 70 \<le> tm_year tm then tm_year tm - 70 else tm_year tm + 100 - 70)
      in if tm_mon tm < 0 \<or> 12 \<le> tm_mon tm then None
         else let res = wrap32 (YEAR * year + DAY * cdiv (year + 1) 4);
                  res = wrap32 (res + month ! nat (tm_mon tm));
                  res = (if 1 < tm_mon tm \<and> cmod (year + 2) 4 \<noteq> 0 then wrap32 (res - DAY) else res);
                  res = wrap32 (res + DAY * (tm_mday tm - 1));
                  res = wrap32 (res + HOUR * tm_hour tm);
                  res = wrap32 (res + MINUTE * tm_min tm)
              in Some (wrap32 (res + tm_sec tm)))"

text \<open>The registers of the clock chip hold packed decimals.\<close>

definition BCD_TO_BIN :: "int \<Rightarrow> int" where
  "BCD_TO_BIN val = (val AND 15) + drop_bit 4 val * 10"

text \<open>
  One round of the loop of \<^verbatim>\<open>time_init\<close> reads the six registers; \<open>cmos k r\<close> is what register \<open>r\<close>
  holds in round \<open>k\<close>, and \<open>cmos' k\<close> the seconds read again at its end. A clock that ticks once a
  second makes two readings differ at most once.
\<close>

primrec time_init :: "nat \<Rightarrow> (nat \<Rightarrow> nat \<Rightarrow> u8) \<Rightarrow> (nat \<Rightarrow> u8) \<Rightarrow> nat \<Rightarrow> tm option" where
  "time_init 0 cmos cmos' k = None"
| "time_init (Suc n) cmos cmos' k =
     (if cmos k 0 \<noteq> cmos' k then time_init n cmos cmos' (Suc k)
      else let r = (\<lambda>i. BCD_TO_BIN (uint (cmos k i)))
           in Some \<lparr>tm_sec = r 0, tm_min = r 2, tm_hour = r 4, tm_mday = r 7, tm_mon = r 8 - 1, tm_year = r 9\<rparr>)"

definition start_clock :: "nat \<Rightarrow> (nat \<Rightarrow> nat \<Rightarrow> u8) \<Rightarrow> (nat \<Rightarrow> u8) \<Rightarrow> 'a sched_state_scheme \<Rightarrow> 'a sched_state_scheme option" where
  "start_clock n cmos cmos' s =
     (case time_init n cmos cmos' 0 of
        None \<Rightarrow> None
      | Some t \<Rightarrow> (case kernel_mktime t of None \<Rightarrow> None | Some v \<Rightarrow> Some (s\<lparr>startup_time := v\<rparr>)))"


subsection \<open>The division of memory\<close>

text \<open>\<open>ext_mem_k\<close> is the memory above 1 MB in kilobytes, as the BIOS reported it.\<close>

definition memory_end :: "u16 \<Rightarrow> int" where
  "memory_end ext_mem_k =
     (let e = (push_bit 20 1 + push_bit 10 (uint ext_mem_k)) AND 0xFFFFF000
      in if 16 * 1024 * 1024 < e then 16 * 1024 * 1024 else e)"

definition buffer_memory_end :: "u16 \<Rightarrow> int" where
  "buffer_memory_end ext_mem_k =
     (if 12 * 1024 * 1024 < memory_end ext_mem_k then 4 * 1024 * 1024
      else if 6 * 1024 * 1024 < memory_end ext_mem_k then 2 * 1024 * 1024
      else 1 * 1024 * 1024)"

definition main_memory_start :: "u16 \<Rightarrow> int" where
  "main_memory_start ext_mem_k = buffer_memory_end ext_mem_k"


subsection \<open>The calendar\<close>

definition leap :: "int \<Rightarrow> bool" where
  "leap y \<longleftrightarrow> y mod 4 = 0 \<and> (y mod 100 \<noteq> 0 \<or> y mod 400 = 0)"

definition year_days :: "int \<Rightarrow> int" where
  "year_days y = (if leap y then 366 else 365)"

definition month_days :: "int \<Rightarrow> nat \<Rightarrow> int" where
  "month_days y m = (if m = 1 then if leap y then 29 else 28 else if m \<in> {3, 5, 8, 10} then 30 else 31)"

text \<open>Seconds from the beginning of 1970 to a date, counted year by year and month by month.\<close>

definition epoch_seconds :: "nat \<Rightarrow> nat \<Rightarrow> int \<Rightarrow> int \<Rightarrow> int \<Rightarrow> int \<Rightarrow> int" where
  "epoch_seconds y m d h mi s =
     86400 * ((\<Sum>k<y - 1970. year_days (1970 + int k)) + (\<Sum>k<m. month_days (int y) k) + (d - 1)) + 3600 * h + 60 * mi + s"

definition full_year :: "tm \<Rightarrow> nat" where
  "full_year t = nat (if 70 \<le> tm_year t then 1900 + tm_year t else 2000 + tm_year t)"

lemma leap_in_range: "n < 130 \<Longrightarrow> leap (1970 + int n) \<longleftrightarrow> (n + 2) mod 4 = 0"
proof -
  assume n: "n < 130"
  have "(1970 + int n) mod 4 = int ((n + 2) mod 4)" by presburger
  moreover have "(1970 + int n) mod 100 = 0 \<Longrightarrow> n = 30" using n by presburger
  ultimately show ?thesis by (auto simp: leap_def)
qed

lemma years_sum: "n \<le> 130 \<Longrightarrow> (\<Sum>k<n. year_days (1970 + int k)) = 365 * int n + (int n + 1) div 4"
proof (induction n)
  case (Suc n)
  then have "n < 130" by simp
  note l = leap_in_range [OF this]
  have "(int (Suc n) + 1) div 4 = (int n + 1) div 4 + (if (n + 2) mod 4 = 0 then 1 else 0)" by presburger
  then show ?case using Suc l by (simp add: year_days_def)
qed simp

lemma months_sum:
  assumes "m < 12"
  shows "DAY * (\<Sum>k<m. month_days y k) = month ! m - (if 1 < m \<and> \<not> leap y then DAY else 0)"
proof -
  have "m \<in> {0, 1, 2, 3, 4, 5, 6, 7, 8, 9, 10, 11}" using assms unfolding insert_iff empty_iff by presburger
  then show ?thesis
    by (elim insertE emptyE) (simp_all add: month_def month_days_def DAY_def HOUR_def MINUTE_def numeral_eq_Suc)
qed

lemma wrap32_add: "wrap32 (wrap32 a + b) = wrap32 (a + b)" "wrap32 (wrap32 a - b) = wrap32 (a - b)"
proof -
  have "(((a + 2 ^ 31) mod 2 ^ 32 - 2 ^ 31) + b + 2 ^ 31) mod 2 ^ 32 = ((a + 2 ^ 31) mod 2 ^ 32 + b) mod (2 ^ 32 :: int)"
    by (simp add: algebra_simps)
  also have "\<dots> = (a + 2 ^ 31 + b) mod 2 ^ 32" by (rule mod_add_left_eq)
  finally show "wrap32 (wrap32 a + b) = wrap32 (a + b)" by (simp add: wrap32_def algebra_simps)
  have "(((a + 2 ^ 31) mod 2 ^ 32 - 2 ^ 31) - b + 2 ^ 31) mod 2 ^ 32 = ((a + 2 ^ 31) mod 2 ^ 32 - b) mod (2 ^ 32 :: int)"
    by (simp add: algebra_simps)
  also have "\<dots> = (a + 2 ^ 31 - b) mod 2 ^ 32" by (rule mod_diff_left_eq)
  finally show "wrap32 (wrap32 a - b) = wrap32 (a - b)" by (simp add: wrap32_def algebra_simps)
qed

lemma wrap32_adds:
  "wrap32 (wrap32 a + b + c) = wrap32 (a + b + c)" "wrap32 (wrap32 a + b + c + d) = wrap32 (a + b + c + d)"
  "wrap32 (wrap32 a + b + c + d + e) = wrap32 (a + b + c + d + e)"
  by (simp_all only: add.assoc wrap32_add(1))

lemma cdiv_nonneg: "0 \<le> a \<Longrightarrow> 0 < b \<Longrightarrow> cdiv a b = a div b"
  by (simp add: cdiv_def)

text \<open>
  C35: for every date of the years 1970 to 2099, with the two-digit years below 70 taken as
  20xx, \<^verbatim>\<open>kernel_mktime\<close> is the number of seconds since the beginning of 1970 in the Gregorian
  calendar, as a 32-bit \<^verbatim>\<open>long\<close>: exact before 2038, wrapped around after.
\<close>

theorem kernel_mktime_calendar:
  assumes "0 \<le> tm_year t" and "tm_year t < 200" and "0 \<le> tm_mon t" and "tm_mon t < 12"
  shows "kernel_mktime t =
    Some (wrap32 (epoch_seconds (full_year t) (nat (tm_mon t)) (tm_mday t) (tm_hour t) (tm_min t) (tm_sec t)))"
proof -
  define year where "year = (if 70 \<le> tm_year t then tm_year t - 70 else tm_year t + 100 - 70)"
  define adj where "adj = (if 1 < tm_mon t \<and> (year + 2) mod 4 \<noteq> 0 then DAY else 0)"
  have y: "0 \<le> year" "year < 130" "int (full_year t) = 1970 + year"
    using assms(1,2) by (auto simp: year_def full_year_def)
  have leap: "leap (int (full_year t)) \<longleftrightarrow> (year + 2) mod 4 = 0"
  proof -
    have "(nat year + 2) mod 4 = 0 \<longleftrightarrow> (year + 2) mod 4 = 0" using y(1) by presburger
    then show ?thesis using leap_in_range [of "nat year"] y by simp
  qed
  have years: "(\<Sum>k<full_year t - 1970. year_days (1970 + int k)) = 365 * year + (year + 1) div 4"
    using years_sum [of "full_year t - 1970"] y by (simp add: of_nat_diff)
  have months: "DAY * (\<Sum>k<nat (tm_mon t). month_days (int (full_year t)) k) =
      month ! nat (tm_mon t) - adj"
    using months_sum [of "nat (tm_mon t)" "int (full_year t)"] assms(3,4) leap by (auto simp: adj_def)
  have "kernel_mktime t = Some (wrap32 (YEAR * year + DAY * ((year + 1) div 4) + month ! nat (tm_mon t) -
      adj + DAY * (tm_mday t - 1) + HOUR * tm_hour t +
      MINUTE * tm_min t + tm_sec t))"
    using assms(3,4) y(1) unfolding kernel_mktime_def Let_def year_def [symmetric]
    by (simp add: wrap32_add wrap32_adds cmod_def cdiv_nonneg minus_div_mult_eq_mod adj_def)
  moreover have "epoch_seconds (full_year t) (nat (tm_mon t)) (tm_mday t) (tm_hour t) (tm_min t) (tm_sec t) =
      YEAR * year + DAY * ((year + 1) div 4) + month ! nat (tm_mon t) -
      adj + DAY * (tm_mday t - 1) + HOUR * tm_hour t +
      MINUTE * tm_min t + tm_sec t"
    using months unfolding epoch_seconds_def years YEAR_def DAY_def HOUR_def MINUTE_def by (simp add: algebra_simps)
  ultimately show ?thesis by simp
qed

theorem kernel_mktime_calendar_witness:
  "kernel_mktime \<lparr>tm_sec = 7, tm_min = 14, tm_hour = 3, tm_mday = 29, tm_mon = 1, tm_year = 0\<rparr> = Some 951794047"
proof -
  let ?t = "\<lparr>tm_sec = 7, tm_min = 14, tm_hour = 3, tm_mday = 29, tm_mon = 1, tm_year = 0\<rparr>"
  have "(\<Sum>k<30. year_days (1970 + int k)) = 365 * 30 + (30 + 1) div 4" using years_sum [of 30] by simp
  then have "epoch_seconds 2000 1 29 3 14 7 = 951794047" by (simp add: epoch_seconds_def month_days_def)
  then show ?thesis using kernel_mktime_calendar [of ?t] by (simp add: full_year_def wrap32_def)
qed

lemma and_page_mask:
  assumes "0 \<le> n" "n < 2 ^ 32"
  shows "n AND 0xFFFFF000 = 4096 * (n div (4096 :: int))"
proof -
  have "n AND NOT (mask 12) = push_bit 12 (drop_bit 12 n)" by (rule bit_eqI) (auto simp: bit_simps)
  also have "\<dots> = 4096 * (n div 4096)" by (simp add: push_bit_eq_mult drop_bit_eq_div mult.commute)
  finally have "n AND NOT (mask 12) = 4096 * (n div 4096)" .
  moreover have "(0xFFFFF000 :: int) = take_bit 32 (NOT (mask 12))" by (simp add: take_bit_eq_mod mask_eq_exp_minus_1 not_int_def)
  then have "n AND 0xFFFFF000 = take_bit 32 n AND NOT (mask 12)"
    by (auto simp: bit_eq_iff bit_simps)
  moreover have "take_bit 32 n = n" using assms by (simp add: take_bit_int_eq_self)
  ultimately show ?thesis by simp
qed

text \<open>
  Memory is divided sensibly for every amount the BIOS can report: at most 16 MB are
  used, whole pages; the buffers end at a page boundary of at least 1 MB and at most 4 MB, never beyond the
  end of memory, so that the pages handed to \<^verbatim>\<open>mem_init\<close> are a range, empty only without extended
  memory.
\<close>

theorem memory_division:
  "memory_end k \<le> 0x1000000 \<and> memory_end k mod 4096 = 0 \<and> main_memory_start k mod 4096 = 0 \<and>
   0x100000 \<le> buffer_memory_end k \<and> buffer_memory_end k \<le> 0x400000 \<and> main_memory_start k \<le> memory_end k \<and>
   (main_memory_start k = memory_end k \<longleftrightarrow> unat k < 4)"
proof -
  let ?e = "(0x100000 + 1024 * uint k) AND 0xFFFFF000"
  have k: "0 \<le> uint k" "uint k < 0x10000" using uint_range_size [of k] by (simp_all add: word_size)
  have "?e = 4096 * ((0x100000 + 1024 * uint k) div 4096)" using k by (intro and_page_mask) simp_all
  moreover have "(0x100000 + 1024 * uint k) div 4096 = (1024 + uint k) div 4"
    using div_mult_mult1 [of 1024 "1024 + uint k" 4] by (simp add: algebra_simps)
  moreover have "(1024 + uint k) div 4 = 256 + uint k div 4" using div_mult_self3 [of 4 256 "uint k"] by simp
  ultimately have e: "?e = 0x100000 + 4096 * (uint k div 4)" by simp
  obtain n where n: "unat k = n" "uint k = int n" by simp
  have me: "memory_end k = (if 0x1000000 < ?e then 0x1000000 else ?e)"
    by (simp add: memory_end_def Let_def push_bit_eq_mult mult.commute)
  have "memory_end k = 0x1000000 \<or> memory_end k = 0x100000 + 4096 * int (n div 4) \<and> n div 4 \<le> 3840"
    using me unfolding e by (auto simp: n(2) zdiv_int split: if_splits)
  then show ?thesis
  proof (elim disjE conjE)
    assume m: "memory_end k = 0x1000000"
    then have "\<not> n < 4" using me e n(2) by (auto split: if_splits)
    then show ?thesis using m n(1) by (simp add: main_memory_start_def buffer_memory_end_def)
  next
    assume m: "memory_end k = 0x100000 + 4096 * int (n div 4)" "n div 4 \<le> 3840"
    have "n div 4 = 0 \<longleftrightarrow> n < 4" by auto
    then show ?thesis using m n(1) unfolding main_memory_start_def buffer_memory_end_def by (auto simp: mod_add_eq)
  qed
qed

end
