(* ===== verification/Hd.thy ===== *)
theory Hd
  imports Port_Io
begin

text \<open>
  The hard disk driver, \<^verbatim>\<open>kernel/blk_drv/hd.c\<close> with \<^verbatim>\<open>include/linux/hdreg.h\<close>, and \<^verbatim>\<open>rd_load\<close> of
  \<^verbatim>\<open>kernel/blk_drv/ramdisk.c\<close>, which \<^verbatim>\<open>sys_setup\<close> calls. The driver sends a command to the controller and
  returns; the rest of the transfer is done by the interrupt handler that \<^verbatim>\<open>do_hd\<close> points to.
\<close>


subsection \<open>Registers and state\<close>

definition HD_DATA :: nat where "HD_DATA = 0x1F0"
definition HD_ERROR :: nat where "HD_ERROR = 0x1F1"
definition HD_STATUS :: nat where "HD_STATUS = 0x1F7"
definition HD_CMD :: nat where "HD_CMD = 0x3F6"
definition ERR_STAT :: u8 where "ERR_STAT = 0x01"
definition DRQ_STAT :: u8 where "DRQ_STAT = 0x08"
definition SEEK_STAT :: u8 where "SEEK_STAT = 0x10"
definition WRERR_STAT :: u8 where "WRERR_STAT = 0x20"
definition READY_STAT :: u8 where "READY_STAT = 0x40"
definition BUSY_STAT :: u8 where "BUSY_STAT = 0x80"
definition WIN_RESTORE :: u8 where "WIN_RESTORE = 0x10"
definition WIN_READ :: u8 where "WIN_READ = 0x20"
definition WIN_WRITE :: u8 where "WIN_WRITE = 0x30"
definition WIN_SPECIFY :: u8 where "WIN_SPECIFY = 0x91"
definition MAX_ERRORS :: int where "MAX_ERRORS = 7"
definition MAX_HD :: nat where "MAX_HD = 2"

record hd_i_struct =
  hi_head :: u32
  hi_sect :: u32
  hi_cyl :: u32
  hi_wpcom :: u32
  hi_lzone :: u32
  hi_ctl :: u32

record hd_struct =
  start_sect :: u32
  nr_sects :: u32

datatype hd_handler = Read_Intr | Write_Intr | Recal_Intr

record hd_state = io_state +
  hd_info :: "nat \<Rightarrow> hd_i_struct"
  NR_HD :: nat
  hd :: "nat \<Rightarrow> hd_struct"
  hd_recalibrate :: bool
  hd_reset :: bool
  do_hd :: "hd_handler option"
  setup_callable :: bool


subsection \<open>The controller\<close>

primrec controller_wait :: "nat \<Rightarrow> 'a io_state_scheme \<Rightarrow> nat \<times> 'a io_state_scheme" where
  "controller_wait 0 s = (0, s)"
| "controller_wait (Suc n) s =
     (case inb HD_STATUS s of (v, s) \<Rightarrow> if v AND 0x80 \<noteq> 0 then controller_wait n s else (Suc n, s))"

definition controller_ready :: "'a io_state_scheme \<Rightarrow> nat \<times> 'a io_state_scheme" where
  "controller_ready s = controller_wait 99999 s"

definition win_result :: "'a io_state_scheme \<Rightarrow> bool \<times> 'a io_state_scheme" where
  "win_result s =
     (case inb HD_STATUS s of (i, s) \<Rightarrow>
        if i AND (BUSY_STAT OR READY_STAT OR WRERR_STAT OR SEEK_STAT OR ERR_STAT) = READY_STAT OR SEEK_STAT
        then (False, s)
        else if i AND 1 \<noteq> 0 then (True, snd (inb HD_ERROR s)) else (True, s))"

definition hd_out ::
  "u32 \<Rightarrow> u32 \<Rightarrow> u32 \<Rightarrow> u32 \<Rightarrow> u32 \<Rightarrow> u8 \<Rightarrow> hd_handler \<Rightarrow> 'a hd_state_scheme \<Rightarrow> (unit, 'a hd_state_scheme) outcome" where
  "hd_out drive nsect sect head cyl cmd intr_addr s =
     (if 1 < drive \<or> 15 < head then Stop (Panic ''Trying to write bad sector'') s
      else case controller_ready s of (r, s) \<Rightarrow>
        if r = 0 then Stop (Panic ''HD controller not ready'') s
        else let s = s\<lparr>do_hd := Some intr_addr\<rparr>;
                 info = hd_info s (unat drive);
                 s = outb (ucast (hi_ctl info)) HD_CMD s;
                 s = outb (ucast (drop_bit 2 (hi_wpcom info))) (HD_DATA + 1) s;
                 s = outb (ucast nsect) (HD_DATA + 2) s;
                 s = outb (ucast sect) (HD_DATA + 3) s;
                 s = outb (ucast cyl) (HD_DATA + 4) s;
                 s = outb (ucast (drop_bit 8 cyl)) (HD_DATA + 5) s;
                 s = outb (ucast (0xA0 OR push_bit 4 drive OR head)) (HD_DATA + 6) s
             in Done () (outb cmd (HD_DATA + 7) s))"

primrec busy_wait :: "nat \<Rightarrow> 'a io_state_scheme \<Rightarrow> 'a io_state_scheme" where
  "busy_wait 0 s = s"
| "busy_wait (Suc n) s =
     (case inb HD_STATUS s of (v, s) \<Rightarrow> if READY_STAT = v AND (BUSY_STAT OR READY_STAT) then s else busy_wait n s)"

definition drive_busy :: "'a io_state_scheme \<Rightarrow> bool \<times> 'a io_state_scheme" where
  "drive_busy s =
     (case inb HD_STATUS (busy_wait 10000 s) of (i, s) \<Rightarrow>
        if i AND (BUSY_STAT OR READY_STAT OR SEEK_STAT) = READY_STAT OR SEEK_STAT then (False, s)
        else (True, printk ''HD controller times out'' s))"

definition reset_controller :: "'a hd_state_scheme \<Rightarrow> 'a hd_state_scheme" where
  "reset_controller s =
     (let s = outb 4 HD_CMD s;
          s = outb (ucast (hi_ctl (hd_info s 0) AND 0x0F)) HD_CMD s
      in case drive_busy s of (busy, s) \<Rightarrow>
           let s = (if busy then printk ''HD-controller still busy'' s else s)
           in case inb HD_ERROR s of (i, s) \<Rightarrow>
                if i \<noteq> 1 then printk ''HD-controller reset failed: %02x'' s else s)"

definition reset_hd :: "nat \<Rightarrow> 'a hd_state_scheme \<Rightarrow> (unit, 'a hd_state_scheme) outcome" where
  "reset_hd nr s =
     (let s = reset_controller s; info = hd_info s nr
      in hd_out (of_nat nr) (hi_sect info) (hi_sect info) (hi_head info - 1) (hi_cyl info) WIN_SPECIFY Recal_Intr s)"

definition unexpected_hd_interrupt :: "'a mm_state_scheme \<Rightarrow> 'a mm_state_scheme" where
  "unexpected_hd_interrupt s = printk ''Unexpected HD interrupt'' s"


subsection \<open>Requests\<close>

text \<open>
  \<^verbatim>\<open>CURRENT->errors\<close>. After \<^verbatim>\<open>end_request\<close> there may be no current request; the code then reads the
  word at address 8, as the null pointer is mapped.
\<close>

definition current_errors :: "'a fs_state_scheme \<Rightarrow> int" where
  "current_errors s = (case current_request s 3 of None \<Rightarrow> sint (phys s 8) | Some r \<Rightarrow> r_errors (request_table s r))"

definition bad_rw_intr :: "'a hd_state_scheme \<Rightarrow> (unit, 'a hd_state_scheme) outcome" where
  "bad_rw_intr s =
     (case current_request s 3 of
        None \<Rightarrow> Stop Undefined s
      | Some r \<Rightarrow>
          let s = upd_req r (\<lambda>q. q\<lparr>r_errors := r_errors q + 1\<rparr>) s;
              s = (if MAX_ERRORS \<le> current_errors s then end_request 3 0 s else s)
          in Done () (if MAX_ERRORS div 2 < current_errors s then s\<lparr>hd_reset := True\<rparr> else s))"

primrec wait_drq :: "nat \<Rightarrow> 'a io_state_scheme \<Rightarrow> bool \<times> 'a io_state_scheme" where
  "wait_drq 0 s = (False, s)"
| "wait_drq (Suc n) s = (case inb HD_STATUS s of (v, s) \<Rightarrow> if v AND DRQ_STAT \<noteq> 0 then (True, s) else wait_drq n s)"

text \<open>
  Where a sector is: cylinder, head and the number of the sector in its track, from 1 on. A
  division by zero is a fault of the processor.
\<close>

definition hd_place :: "hd_i_struct \<Rightarrow> u32 \<Rightarrow> (u32 \<times> u32 \<times> u32) option" where
  "hd_place info block =
     (if hi_sect info = 0 \<or> hi_head info = 0 then None
      else let sec = block mod hi_sect info; block = block div hi_sect info
           in Some (block div hi_head info, block mod hi_head info, sec + 1))"

definition CURRENT_DEV :: "request \<Rightarrow> nat" where
  "CURRENT_DEV rq = nat (r_dev rq mod 256) div 5"

primrec hd_request_loop :: "nat \<Rightarrow> 'a hd_state_scheme \<Rightarrow> (unit, 'a hd_state_scheme) outcome" where
  "hd_request_loop 0 s = Stop Looping s"
| "hd_request_loop (Suc n) s =
     (case current_request s 3 of
        None \<Rightarrow> Done () s
      | Some r \<Rightarrow>
          let rq = request_table s r;
              minor = nat (r_dev rq mod 256);
              block = r_sector rq
          in if r_dev rq div 256 \<noteq> 3 then Stop (Panic ''harddisk: request list destroyed'') s
             else if (case r_bh rq of None \<Rightarrow> False | Some b \<Rightarrow> b_lock (buffers s b) = 0)
             then Stop (Panic ''harddisk: block not locked'') s
             else if 5 * NR_HD s \<le> minor \<or> nr_sects (hd s minor) < block + 2
             then hd_request_loop n (end_request 3 0 s)
             else let dev = minor div 5
                  in case hd_place (hd_info s dev) (block + start_sect (hd s minor)) of
                       None \<Rightarrow> Stop Undefined s
                     | Some (cyl, head, sec) \<Rightarrow>
                         if hd_reset s then reset_hd (CURRENT_DEV rq) (s\<lparr>hd_reset := False, hd_recalibrate := True\<rparr>)
                         else if hd_recalibrate s
                         then hd_out (of_nat dev) (hi_sect (hd_info s (CURRENT_DEV rq))) 0 0 0 WIN_RESTORE Recal_Intr
                                (s\<lparr>hd_recalibrate := False\<rparr>)
                         else if r_cmd rq = WRITE
                         then kbind (hd_out (of_nat dev) (r_nr_sectors rq) sec head cyl WIN_WRITE Write_Intr s) (\<lambda>_ s.
                              case wait_drq 3000 s of (r, s) \<Rightarrow>
                                if r then Done () (port_write HD_DATA (r_buffer rq) (r_off rq) 256 s)
                                else kbind (bad_rw_intr s) (\<lambda>_ s. hd_request_loop n s))
                         else if r_cmd rq = READ
                         then hd_out (of_nat dev) (r_nr_sectors rq) sec head cyl WIN_READ Read_Intr s
                         else Stop (Panic ''unknown hd-command'') s)"

text \<open>
  A request is given up or retried at most four times before a reset: six rounds for each request
  are more than enough.
\<close>

definition do_hd_request :: "'a hd_state_scheme \<Rightarrow> (unit, 'a hd_state_scheme) outcome" where
  "do_hd_request s = hd_request_loop (Suc (6 * NR_REQUEST)) s"


subsection \<open>Interrupts\<close>

definition read_intr :: "'a hd_state_scheme \<Rightarrow> (unit, 'a hd_state_scheme) outcome" where
  "read_intr s =
     (case win_result s of (bad, s) \<Rightarrow>
        if bad then kbind (bad_rw_intr s) (\<lambda>_ s. do_hd_request s)
        else case current_request s 3 of
               None \<Rightarrow> Stop Undefined s
             | Some r \<Rightarrow>
                 let rq = request_table s r;
                     s = port_read HD_DATA (r_buffer rq) (r_off rq) 256 s;
                     s = upd_req r (\<lambda>q. q\<lparr>r_errors := 0, r_off := r_off q + 512, r_sector := r_sector q + 1,
                                         r_nr_sectors := r_nr_sectors q - 1\<rparr>) s
                 in if r_nr_sectors (request_table s r) \<noteq> 0 then Done () (s\<lparr>do_hd := Some Read_Intr\<rparr>)
                    else do_hd_request (end_request 3 1 s))"

definition write_intr :: "'a hd_state_scheme \<Rightarrow> (unit, 'a hd_state_scheme) outcome" where
  "write_intr s =
     (case win_result s of (bad, s) \<Rightarrow>
        if bad then kbind (bad_rw_intr s) (\<lambda>_ s. do_hd_request s)
        else case current_request s 3 of
               None \<Rightarrow> Stop Undefined s
             | Some r \<Rightarrow>
                 let s = upd_req r (\<lambda>q. q\<lparr>r_nr_sectors := r_nr_sectors q - 1\<rparr>) s
                 in if r_nr_sectors (request_table s r) \<noteq> 0
                    then let s = upd_req r (\<lambda>q. q\<lparr>r_sector := r_sector q + 1, r_off := r_off q + 512\<rparr>) s;
                             rq = request_table s r;
                             s = s\<lparr>do_hd := Some Write_Intr\<rparr>
                         in Done () (port_write HD_DATA (r_buffer rq) (r_off rq) 256 s)
                    else do_hd_request (end_request 3 1 s))"

definition recal_intr :: "'a hd_state_scheme \<Rightarrow> (unit, 'a hd_state_scheme) outcome" where
  "recal_intr s =
     (case win_result s of (bad, s) \<Rightarrow>
        kbind (if bad then bad_rw_intr s else Done () s) (\<lambda>_ s. do_hd_request s))"

text \<open>The entry of the interrupt takes the handler and leaves none.\<close>

definition hd_interrupt :: "'a hd_state_scheme \<Rightarrow> (unit, 'a hd_state_scheme) outcome" where
  "hd_interrupt s =
     (let h = do_hd s; s = outb 0x20 0x20 ((outb 0x20 0xA0 s)\<lparr>do_hd := None\<rparr>)
      in case h of
           None \<Rightarrow> Done () (unexpected_hd_interrupt s)
         | Some Read_Intr \<Rightarrow> read_intr s
         | Some Write_Intr \<Rightarrow> write_intr s
         | Some Recal_Intr \<Rightarrow> recal_intr s)"


subsection \<open>Loading the RAM disk\<close>

primrec rd_load_blocks ::
  "nat \<Rightarrow> ('a fs_state_scheme) env \<Rightarrow> u32 \<Rightarrow> u32 \<Rightarrow> 'a fs_state_scheme \<Rightarrow> (unit, 'a fs_state_scheme) outcome" where
  "rd_load_blocks 0 e block cp s = Done () ((printk ''done'' s)\<lparr>ROOT_DEV := 0x0101\<rparr>)"
| "rd_load_blocks (Suc n) e block cp s =
     kbind (if 2 < Suc n then breada e (ROOT_DEV s) block [block + 1, block + 2] s else bread e (ROOT_DEV s) block s) (\<lambda>bh s.
     case bh of
       None \<Rightarrow> Done () (printk ''I/O error on block %d, aborting load'' s)
     | Some b \<Rightarrow>
         kbind (brelse e (Some b) (copy_to_rd 1024 b 0 cp s)) (\<lambda>_ s.
         rd_load_blocks n e (block + 1) (cp + 1024) (printk ''%4dk'' s)))"

definition rd_load :: "('a fs_state_scheme) env \<Rightarrow> 'a fs_state_scheme \<Rightarrow> (unit, 'a fs_state_scheme) outcome" where
  "rd_load e s =
     (if rd_length s = 0 then Done () s
      else let s = printk ''Ram disk: %d bytes, starting at 0x%x'' s
           in if MAJOR (ROOT_DEV s) \<noteq> 2 then Done () s
              else kbind (breada e (ROOT_DEV s) 257 [256, 258] s) (\<lambda>bh s.
                   case bh of
                     None \<Rightarrow> Done () (printk ''Disk error while looking for ramdisk!'' s)
                   | Some b \<Rightarrow>
                       let d = b_data s b
                       in kbind (brelse e (Some b) s) (\<lambda>_ s.
                          if u16_at d 16 \<noteq> SUPER_MAGIC then Done () s
                          else let nblocks = push_bit (unat (u16_at d 10) mod 32) (ucast (u16_at d 2)) :: u32
                               in if sint (rd_length s) div 1024 < sint nblocks
                                  then Done () (printk ''Ram disk image too big!  (%d blocks, %d avail)'' s)
                                  else rd_load_blocks (unat nblocks) e 256 (rd_start s)
                                         (printk ''Loading %d bytes into ram disk'' s))))"


subsection \<open>Initialization\<close>

text \<open>The parameters of a drive in the table of the BIOS.\<close>

definition bios_drive :: "u32 \<Rightarrow> 'a mm_state_scheme \<Rightarrow> hd_i_struct" where
  "bios_drive bios s =
     (let b8 = (\<lambda>k. ucast (phys_byte (bios + k) s) :: u32); b16 = (\<lambda>k. b8 k OR push_bit 8 (b8 (k + 1)))
      in \<lparr>hi_head = b8 2, hi_sect = b8 14, hi_cyl = b16 0, hi_wpcom = b16 5, hi_lzone = b16 12, hi_ctl = b8 8\<rparr>)"

definition whole_disk :: "hd_i_struct \<Rightarrow> hd_struct" where
  "whole_disk info = \<lparr>start_sect = 0, nr_sects = hi_head info * hi_sect info * hi_cyl info\<rparr>"

definition partition_at :: "(nat \<Rightarrow> u8) \<Rightarrow> nat \<Rightarrow> hd_struct" where
  "partition_at d i = \<lparr>start_sect = u32_at d (0x1BE + 16 * i + 8), nr_sects = u32_at d (0x1BE + 16 * i + 12)\<rparr>"

definition read_partitions ::
  "('a hd_state_scheme) env \<Rightarrow> nat \<Rightarrow> 'a hd_state_scheme \<Rightarrow> (unit, 'a hd_state_scheme) outcome" where
  "read_partitions e drive s =
     kbind (bread e (of_nat (0x300 + drive * 5)) 0 s) (\<lambda>bh s.
     case bh of
       None \<Rightarrow> Stop (Panic []) (printk ''Unable to read partition table of drive %d'' s)
     | Some b \<Rightarrow>
         let d = b_data s b
         in if d 510 \<noteq> 0x55 \<or> d 511 \<noteq> 0xAA then Stop (Panic []) (printk ''Bad partition table on drive %d'' s)
            else let s = s\<lparr>hd := (\<lambda>j. if 5 * drive < j \<and> j < 5 * drive + 5 then partition_at d (j - 5 * drive - 1) else hd s j)\<rparr>
                 in brelse e (Some b) s)"

text \<open>The disks that the CMOS memory knows about; the others get no sectors.\<close>

definition cmos_disks :: "'a hd_state_scheme \<Rightarrow> 'a hd_state_scheme" where
  "cmos_disks s =
     (case CMOS_READ 0x12 s of (disks, s) \<Rightarrow>
        let n = (if disks AND 0xF0 \<noteq> 0 then if disks AND 0x0F \<noteq> 0 then 2 else 1 else 0)
        in s\<lparr>NR_HD := n, hd := (\<lambda>j. if j mod 5 = 0 \<and> n \<le> j div 5 \<and> j div 5 < 2 then \<lparr>start_sect = 0, nr_sects = 0\<rparr> else hd s j)\<rparr>)"

definition sys_setup ::
  "('a hd_state_scheme \<Rightarrow> 'a hd_state_scheme) \<Rightarrow> ('a hd_state_scheme) env \<Rightarrow> u32 \<Rightarrow> 'a hd_state_scheme \<Rightarrow>
   (int, 'a hd_state_scheme) outcome" where
  "sys_setup wait_for_keypress e bios s =
     (if \<not> setup_callable s then Done (- 1) s
      else let s = s\<lparr>setup_callable := False\<rparr>;
               s = s\<lparr>hd_info := (hd_info s)(0 := bios_drive bios s, 1 := bios_drive (bios + 16) s)\<rparr>;
               n = (if hi_cyl (hd_info s 1) \<noteq> 0 then 2 else 1);
               s = s\<lparr>NR_HD := n, hd := (\<lambda>j. if j mod 5 = 0 \<and> j div 5 < n then whole_disk (hd_info s (j div 5)) else hd s j)\<rparr>;
               s = cmos_disks s
           in kbind (kfold (read_partitions e) [0..<NR_HD s] s) (\<lambda>_ s.
              let s = (if NR_HD s \<noteq> 0 then printk ''Partition table%s ok.'' s else s)
              in kbind (rd_load e s) (\<lambda>_ s.
                 kbind (mount_root wait_for_keypress e s) (\<lambda>_ s. Done 0 s))))"

definition hd_init :: "'a io_state_scheme \<Rightarrow> 'a io_state_scheme" where
  "hd_init s =
     (let s = s\<lparr>request_fn := (request_fn s)(3 := True)\<rparr>;
          s = set_intr_gate 0x2E ''hd_interrupt'' s
      in case inb 0x21 s of (v, s) \<Rightarrow>
           case inb 0xA1 (outb (v AND 0xFB) 0x21 s) of (v, s) \<Rightarrow> outb (v AND 0xBF) 0xA1 s)"

end
