(* ===== verification/Floppy.thy ===== *)
theory Floppy
  imports Port_Io
begin

text \<open>
  The floppy driver, \<^verbatim>\<open>kernel/blk_drv/floppy.c\<close> (the selection of a drive is in theory \<open>Super\<close>). A
  request runs through timers and interrupts: the motor is started, the drive selected, the head moved, the
  transfer set up, and \<^verbatim>\<open>do_floppy\<close> points to the handler of the next interrupt. The functions call
  \<^verbatim>\<open>do_fd_request\<close> again when something failed: it is the argument \<open>again\<close> of those that it calls itself.
\<close>


subsection \<open>Registers and state\<close>

definition FD_STATUS :: nat where "FD_STATUS = 0x3F4"
definition FD_DATA :: nat where "FD_DATA = 0x3F5"
definition FD_DCR :: nat where "FD_DCR = 0x3F7"
definition STATUS_BUSY :: u8 where "STATUS_BUSY = 0x10"
definition STATUS_DIR :: u8 where "STATUS_DIR = 0x40"
definition STATUS_READY :: u8 where "STATUS_READY = 0x80"
definition FD_RECALIBRATE :: u8 where "FD_RECALIBRATE = 0x07"
definition FD_SEEK :: u8 where "FD_SEEK = 0x0F"
definition FD_READ :: u8 where "FD_READ = 0xE6"
definition FD_WRITE :: u8 where "FD_WRITE = 0xC5"
definition FD_SENSEI :: u8 where "FD_SENSEI = 0x08"
definition FD_SPECIFY :: u8 where "FD_SPECIFY = 0x03"
definition DMA_READ :: u8 where "DMA_READ = 0x46"
definition DMA_WRITE :: u8 where "DMA_WRITE = 0x4A"
definition MAX_ERRORS :: int where "MAX_ERRORS = 8"
definition MAX_REPLIES :: nat where "MAX_REPLIES = 7"

record floppy_struct =
  f_size :: u32
  f_sect :: u32
  f_head :: u32
  f_track :: u32
  f_stretch :: u32
  f_gap :: u8
  f_rate :: u8
  f_spec1 :: u8

definition mk_floppy :: "u32 \<Rightarrow> u32 \<Rightarrow> u32 \<Rightarrow> u32 \<Rightarrow> u32 \<Rightarrow> u8 \<Rightarrow> u8 \<Rightarrow> u8 \<Rightarrow> floppy_struct" where
  "mk_floppy sz sect head track stretch gap rate spec1 =
     \<lparr>f_size = sz, f_sect = sect, f_head = head, f_track = track, f_stretch = stretch, f_gap = gap, f_rate = rate, f_spec1 = spec1\<rparr>"

definition floppy_type :: "floppy_struct list" where
  "floppy_type =
    [mk_floppy 0 0 0 0 0 0x00 0x00 0x00, mk_floppy 720 9 2 40 0 0x2A 0x02 0xDF, mk_floppy 2400 15 2 80 0 0x1B 0x00 0xDF,
     mk_floppy 720 9 2 40 1 0x2A 0x02 0xDF, mk_floppy 1440 9 2 80 0 0x2A 0x02 0xDF, mk_floppy 720 9 2 40 1 0x23 0x01 0xDF,
     mk_floppy 1440 9 2 80 0 0x23 0x01 0xDF, mk_floppy 2880 18 2 80 0 0x1B 0x00 0xCF]"

datatype fd_handler = Rw_Interrupt | Seek_Interrupt | Recal_Interrupt | Reset_Interrupt

datatype fd_timer = Transfer | Floppy_On_Interrupt

text \<open>
  \<open>fd_buf_addr\<close> is the address of the data of a buffer, and \<open>fd_fn\<close> that of the functions given to timers.
\<close>

record fd_state = io_state +
  fd_recalibrate :: bool
  fd_reset :: bool
  fd_seek :: bool
  reply_buffer :: "nat \<Rightarrow> u8"
  cur_spec1 :: int
  cur_rate :: int
  floppy :: floppy_struct
  current_drive :: u8
  fd_sector :: u8
  fd_head :: u8
  fd_track :: u8
  seek_track :: u8
  current_track :: u8
  fd_command :: u8
  do_floppy :: "fd_handler option"
  tmp_floppy_area :: "nat \<Rightarrow> u8"
  fd_buf_addr :: "nat \<Rightarrow> u32"
  tmp_area_addr :: u32
  fd_fn :: "fd_timer \<Rightarrow> u32"


subsection \<open>The controller\<close>

primrec output_wait :: "nat \<Rightarrow> u8 \<Rightarrow> 'a fd_state_scheme \<Rightarrow> 'a fd_state_scheme" where
  "output_wait 0 byte s = printk ''Unable to send byte to FDC'' (s\<lparr>fd_reset := True\<rparr>)"
| "output_wait (Suc n) byte s =
     (case inb FD_STATUS s of (v, s) \<Rightarrow>
        if v AND (STATUS_READY OR STATUS_DIR) = STATUS_READY then outb byte FD_DATA s else output_wait n byte s)"

definition output_byte :: "u8 \<Rightarrow> 'a fd_state_scheme \<Rightarrow> 'a fd_state_scheme" where
  "output_byte byte s = (if fd_reset s then s else output_wait 10000 byte s)"

primrec result_wait :: "nat \<Rightarrow> nat \<Rightarrow> 'a fd_state_scheme \<Rightarrow> int \<times> 'a fd_state_scheme" where
  "result_wait 0 i s = (- 1, printk ''Getstatus times out'' (s\<lparr>fd_reset := True\<rparr>))"
| "result_wait (Suc n) i s =
     (case inb FD_STATUS s of (v, s) \<Rightarrow>
        let status = v AND (STATUS_DIR OR STATUS_READY OR STATUS_BUSY)
        in if status = STATUS_READY then (int i, s)
           else if status = STATUS_DIR OR STATUS_READY OR STATUS_BUSY
           then if MAX_REPLIES \<le> i then (- 1, printk ''Getstatus times out'' (s\<lparr>fd_reset := True\<rparr>))
                else case inb FD_DATA s of (d, s) \<Rightarrow> result_wait n (i + 1) (s\<lparr>reply_buffer := (reply_buffer s)(i := d)\<rparr>)
           else result_wait n i s)"

definition result :: "'a fd_state_scheme \<Rightarrow> int \<times> 'a fd_state_scheme" where
  "result s = (if fd_reset s then (- 1, s) else result_wait 10000 0 s)"

definition ST0 :: "'a fd_state_scheme \<Rightarrow> u8" where "ST0 s = reply_buffer s 0"
definition ST1 :: "'a fd_state_scheme \<Rightarrow> u8" where "ST1 s = reply_buffer s 1"
definition ST2 :: "'a fd_state_scheme \<Rightarrow> u8" where "ST2 s = reply_buffer s 2"

text \<open>
  \<^verbatim>\<open>setup_DMA\<close>: a buffer above the first megabyte, which the DMA controller does not reach, goes through
  \<^verbatim>\<open>tmp_floppy_area\<close>. The address is a signed \<^verbatim>\<open>long\<close> here, and an unsigned one in
  \<^verbatim>\<open>rw_interrupt\<close>.
\<close>

definition copy_to_tmp :: "request \<Rightarrow> 'a fd_state_scheme \<Rightarrow> 'a fd_state_scheme" where
  "copy_to_tmp rq s = s\<lparr>tmp_floppy_area := (\<lambda>j. if j < 1024 then b_data s (r_buffer rq) (r_off rq + j) else tmp_floppy_area s j)\<rparr>"

definition copy_from_tmp :: "request \<Rightarrow> 'a fd_state_scheme \<Rightarrow> 'a fd_state_scheme" where
  "copy_from_tmp rq s =
     s\<lparr>b_data := (b_data s)(r_buffer rq := \<lambda>j. if r_off rq \<le> j \<and> j < r_off rq + 1024 then tmp_floppy_area s (j - r_off rq)
                                              else b_data s (r_buffer rq) j)\<rparr>"

definition buffer_addr :: "'a fd_state_scheme \<Rightarrow> request \<Rightarrow> u32" where
  "buffer_addr s rq = fd_buf_addr s (r_buffer rq) + of_nat (r_off rq)"

definition setup_DMA :: "'a fd_state_scheme \<Rightarrow> (unit, 'a fd_state_scheme) outcome" where
  "setup_DMA s =
     (case current_request s 2 of
        None \<Rightarrow> Stop Undefined s
      | Some r \<Rightarrow>
          let rq = request_table s r;
              addr = buffer_addr s rq;
              s = (if 0x100000 \<le> sint addr \<and> fd_command s = FD_WRITE then copy_to_tmp rq s else s);
              addr = (if 0x100000 \<le> sint addr then tmp_area_addr s else addr);
              s = outb 6 10 s;
              mode = (if fd_command s = FD_READ then DMA_READ else DMA_WRITE);
              s = outb mode 11 (outb mode 12 s);
              s = outb (ucast addr) 4 s;
              s = outb (ucast (drop_bit 8 addr)) 4 s;
              s = outb (ucast (drop_bit 16 addr)) 0x81 s;
              s = outb 3 5 (outb 0xFF 5 s)
          in Done () (outb 2 10 s))"


subsection \<open>Errors\<close>

text \<open>\<^verbatim>\<open>CURRENT->errors\<close>; without a current request the code reads the word at address 8.\<close>

definition fd_errors :: "'a fs_state_scheme \<Rightarrow> int" where
  "fd_errors s = (case current_request s 2 of None \<Rightarrow> sint (phys s 8) | Some r \<Rightarrow> r_errors (request_table s r))"

definition bad_flp_intr :: "'a fd_state_scheme \<Rightarrow> (unit, 'a fd_state_scheme) outcome" where
  "bad_flp_intr s =
     (case current_request s 2 of
        None \<Rightarrow> Stop Undefined s
      | Some r \<Rightarrow>
          let s = upd_req r (\<lambda>q. q\<lparr>r_errors := r_errors q + 1\<rparr>) s;
              s = (if MAX_ERRORS < fd_errors s then end_request 2 0 (floppy_deselect (ucast (current_drive s)) s) else s)
          in Done () (if MAX_ERRORS div 2 < fd_errors s then s\<lparr>fd_reset := True\<rparr> else s\<lparr>fd_recalibrate := True\<rparr>))"


subsection \<open>Setting up a transfer\<close>

definition drive_byte :: "'a fd_state_scheme \<Rightarrow> u8" where
  "drive_byte s = push_bit 2 (fd_head s) OR current_drive s"

definition setup_rw_floppy ::
  "('a fd_state_scheme \<Rightarrow> (unit, 'a fd_state_scheme) outcome) \<Rightarrow> 'a fd_state_scheme \<Rightarrow> (unit, 'a fd_state_scheme) outcome" where
  "setup_rw_floppy again s =
     kbind (setup_DMA s) (\<lambda>_ s.
     let s = s\<lparr>do_floppy := Some Rw_Interrupt\<rparr>;
         s = fold output_byte [fd_command s, drive_byte s, fd_track s, fd_head s, fd_sector s, 2,
                               ucast (f_sect (floppy s)), f_gap (floppy s), 0xFF] s
     in if fd_reset s then again s else Done () s)"

definition transfer ::
  "('a fd_state_scheme \<Rightarrow> (unit, 'a fd_state_scheme) outcome) \<Rightarrow> 'a fd_state_scheme \<Rightarrow> (unit, 'a fd_state_scheme) outcome" where
  "transfer again s =
     (let s = (if cur_spec1 s \<noteq> uint (f_spec1 (floppy s))
               then fold output_byte [FD_SPECIFY, f_spec1 (floppy s), 6] (s\<lparr>cur_spec1 := uint (f_spec1 (floppy s))\<rparr>) else s);
          s = (if cur_rate s \<noteq> uint (f_rate (floppy s))
               then outb (f_rate (floppy s)) FD_DCR (s\<lparr>cur_rate := uint (f_rate (floppy s))\<rparr>) else s)
      in if fd_reset s then again s
         else if \<not> fd_seek s then setup_rw_floppy again s
         else let s = s\<lparr>do_floppy := Some Seek_Interrupt\<rparr>;
                  s = (if seek_track s \<noteq> 0 then fold output_byte [FD_SEEK, drive_byte s, seek_track s] s
                       else fold output_byte [FD_RECALIBRATE, drive_byte s] s)
              in if fd_reset s then again s else Done () s)"

text \<open>\<^verbatim>\<open>add_timer\<close> calls the function at once when the time is not positive.\<close>

definition fd_timer ::
  "int \<Rightarrow> fd_timer \<Rightarrow> ('a fd_state_scheme \<Rightarrow> (unit, 'a fd_state_scheme) outcome) \<Rightarrow> 'a fd_state_scheme \<Rightarrow>
   (unit, 'a fd_state_scheme) outcome" where
  "fd_timer ticks fn run s = (if ticks \<le> 0 then run s else add_timer (\<lambda>_ s. s) ticks (fd_fn s fn) s)"

definition floppy_on_interrupt ::
  "('a fd_state_scheme \<Rightarrow> (unit, 'a fd_state_scheme) outcome) \<Rightarrow> 'a fd_state_scheme \<Rightarrow> (unit, 'a fd_state_scheme) outcome" where
  "floppy_on_interrupt again s =
     (let s = s\<lparr>selected := 1\<rparr>
      in if current_drive s \<noteq> current_DOR s AND 3
         then let s = s\<lparr>current_DOR := (current_DOR s AND 0xFC) OR current_drive s\<rparr>
              in fd_timer 2 Transfer (transfer again) (outb (current_DOR s) FD_DOR s)
         else transfer again s)"

definition recalibrate_floppy ::
  "('a fd_state_scheme \<Rightarrow> (unit, 'a fd_state_scheme) outcome) \<Rightarrow> 'a fd_state_scheme \<Rightarrow> (unit, 'a fd_state_scheme) outcome" where
  "recalibrate_floppy again s =
     (let s = s\<lparr>fd_recalibrate := False, current_track := 0, do_floppy := Some Recal_Interrupt\<rparr>;
          s = fold output_byte [FD_RECALIBRATE, drive_byte s] s
      in if fd_reset s then again s else Done () s)"

definition reset_floppy :: "'a fd_state_scheme \<Rightarrow> 'a fd_state_scheme" where
  "reset_floppy s =
     (let s = printk ''Reset-floppy called'' (s\<lparr>fd_reset := False, cur_spec1 := - 1, cur_rate := - 1, fd_recalibrate := True\<rparr>);
          s = s\<lparr>do_floppy := Some Reset_Interrupt\<rparr>
      in outb (current_DOR s) FD_DOR (outb (current_DOR s AND NOT 4) FD_DOR s))"


subsection \<open>Requests\<close>

text \<open>
  Where a block is on the disk. The number of sectors must not be zero; the kernel also trusts the minor
  number to be that of one of the eight types.
\<close>

definition fd_place :: "floppy_struct \<Rightarrow> u32 \<Rightarrow> (u8 \<times> u8 \<times> u8) option" where
  "fd_place ft block =
     (if f_sect ft = 0 \<or> f_head ft = 0 then None
      else let sec = ucast (block mod f_sect ft); block = block div f_sect ft
           in Some (ucast (block div f_head ft), ucast (block mod f_head ft), sec + 1))"

definition CURRENT_DEV :: "request \<Rightarrow> u8" where
  "CURRENT_DEV rq = of_int (r_dev rq mod 4)"

primrec fd_request_loop ::
  "nat \<Rightarrow> ('a fd_state_scheme \<Rightarrow> (unit, 'a fd_state_scheme) outcome) \<Rightarrow> 'a fd_state_scheme \<Rightarrow> (unit, 'a fd_state_scheme) outcome" where
  "fd_request_loop 0 again s = Stop Looping s"
| "fd_request_loop (Suc n) again s =
     (case current_request s 2 of
        None \<Rightarrow> Done () s
      | Some r \<Rightarrow>
          let rq = request_table s r; ty = nat (r_dev rq mod 256) div 4
          in if r_dev rq div 256 \<noteq> 2 then Stop (Panic ''floppy: request list destroyed'') s
             else if (case r_bh rq of None \<Rightarrow> False | Some b \<Rightarrow> b_lock (buffers s b) = 0)
             then Stop (Panic ''floppy: block not locked'') s
             else if length floppy_type \<le> ty then Stop Undefined s
             else let s = s\<lparr>floppy := floppy_type ! ty\<rparr>;
                      s = (if current_drive s \<noteq> CURRENT_DEV rq then s\<lparr>fd_seek := True\<rparr> else s);
                      s = s\<lparr>current_drive := CURRENT_DEV rq\<rparr>
                  in if f_size (floppy s) < r_sector rq + 2 then fd_request_loop n again (end_request 2 0 s)
                     else case fd_place (floppy s) (r_sector rq) of
                            None \<Rightarrow> Stop Undefined s
                          | Some (track, head, sec) \<Rightarrow>
                              let s = s\<lparr>fd_sector := sec, fd_head := head, fd_track := track,
                                        seek_track := push_bit (unat (f_stretch (floppy s))) track\<rparr>;
                                  s = (if seek_track s \<noteq> current_track s then s\<lparr>fd_seek := True\<rparr> else s)
                              in if r_cmd rq \<noteq> READ \<and> r_cmd rq \<noteq> WRITE
                                 then Stop (Panic ''do_fd_request: unknown command'') s
                                 else let s = s\<lparr>fd_command := (if r_cmd rq = READ then FD_READ else FD_WRITE)\<rparr>
                                      in kbind (ticks_to_floppy_on (unat (current_drive s)) s) (\<lambda>ticks s.
                                         fd_timer ticks Floppy_On_Interrupt (floppy_on_interrupt again) s))"

text \<open>
  \<^verbatim>\<open>do_fd_request\<close> is called again inside itself only after the controller did not answer; \<^verbatim>\<open>reset\<close> is set
  then, so the inner call resets the controller and returns.
\<close>

primrec fd_request :: "nat \<Rightarrow> 'a fd_state_scheme \<Rightarrow> (unit, 'a fd_state_scheme) outcome" where
  "fd_request 0 s = Stop Looping s"
| "fd_request (Suc n) s =
     (let s = s\<lparr>fd_seek := False\<rparr>
      in if fd_reset s then Done () (reset_floppy s)
         else if fd_recalibrate s then recalibrate_floppy (fd_request n) s
         else fd_request_loop (Suc NR_REQUEST) (fd_request n) s)"

definition do_fd_request :: "'a fd_state_scheme \<Rightarrow> (unit, 'a fd_state_scheme) outcome" where
  "do_fd_request s = fd_request 2 s"


subsection \<open>Interrupts\<close>

definition rw_interrupt :: "'a fd_state_scheme \<Rightarrow> (unit, 'a fd_state_scheme) outcome" where
  "rw_interrupt s =
     (case result s of (n, s) \<Rightarrow>
      case current_request s 2 of
        None \<Rightarrow> Stop Undefined s
      | Some r \<Rightarrow>
          let rq = request_table s r
          in if n \<noteq> 7 \<or> ST0 s AND 0xF8 \<noteq> 0 \<or> ST1 s AND 0xBF \<noteq> 0 \<or> ST2 s AND 0x73 \<noteq> 0
             then kbind (if ST1 s AND 2 \<noteq> 0
                         then let s = printk ''Drive %d is write protected'' s
                              in Done () (end_request 2 0 (floppy_deselect (ucast (current_drive s)) s))
                         else bad_flp_intr s) (\<lambda>_ s. do_fd_request s)
             else let s = (if fd_command s = FD_READ \<and> 0x100000 \<le> buffer_addr s rq then copy_from_tmp rq s else s)
                  in do_fd_request (end_request 2 1 (floppy_deselect (ucast (current_drive s)) s)))"

definition seek_interrupt :: "'a fd_state_scheme \<Rightarrow> (unit, 'a fd_state_scheme) outcome" where
  "seek_interrupt s =
     (case result (output_byte FD_SENSEI s) of (n, s) \<Rightarrow>
        if n \<noteq> 2 \<or> ST0 s AND 0xF8 \<noteq> 0x20 \<or> ST1 s \<noteq> seek_track s
        then kbind (bad_flp_intr s) (\<lambda>_ s. do_fd_request s)
        else setup_rw_floppy do_fd_request (s\<lparr>current_track := ST1 s\<rparr>))"

definition recal_interrupt :: "'a fd_state_scheme \<Rightarrow> (unit, 'a fd_state_scheme) outcome" where
  "recal_interrupt s =
     (case result (output_byte FD_SENSEI s) of (n, s) \<Rightarrow>
        do_fd_request (if n \<noteq> 2 \<or> ST0 s AND 0xE0 = 0x60 then s\<lparr>fd_reset := True\<rparr> else s\<lparr>fd_recalibrate := False\<rparr>))"

definition unexpected_floppy_interrupt :: "'a fd_state_scheme \<Rightarrow> 'a fd_state_scheme" where
  "unexpected_floppy_interrupt s =
     (case result (output_byte FD_SENSEI s) of (n, s) \<Rightarrow>
        if n \<noteq> 2 \<or> ST0 s AND 0xE0 = 0x60 then s\<lparr>fd_reset := True\<rparr> else s\<lparr>fd_recalibrate := True\<rparr>)"

definition reset_interrupt :: "'a fd_state_scheme \<Rightarrow> (unit, 'a fd_state_scheme) outcome" where
  "reset_interrupt s =
     (case result (output_byte FD_SENSEI s) of (_, s) \<Rightarrow>
        do_fd_request (fold output_byte [FD_SPECIFY, of_int (cur_spec1 s), 6] s))"

text \<open>The entry of the interrupt takes the handler and leaves none.\<close>

definition floppy_interrupt :: "'a fd_state_scheme \<Rightarrow> (unit, 'a fd_state_scheme) outcome" where
  "floppy_interrupt s =
     (let h = do_floppy s; s = (outb 0x20 0x20 s)\<lparr>do_floppy := None\<rparr>
      in case h of
           None \<Rightarrow> Done () (unexpected_floppy_interrupt s)
         | Some Rw_Interrupt \<Rightarrow> rw_interrupt s
         | Some Seek_Interrupt \<Rightarrow> seek_interrupt s
         | Some Recal_Interrupt \<Rightarrow> recal_interrupt s
         | Some Reset_Interrupt \<Rightarrow> reset_interrupt s)"

definition floppy_init :: "'a io_state_scheme \<Rightarrow> 'a io_state_scheme" where
  "floppy_init s =
     (let s = set_trap_gate 0x26 ''floppy_interrupt'' (s\<lparr>request_fn := (request_fn s)(2 := True)\<rparr>)
      in case inb 0x21 s of (v, s) \<Rightarrow> outb (v AND NOT 0x40) 0x21 s)"

end
