(* ===== verification/Console_Safe.thy ===== *)
theory Console_Safe
  imports Console
begin

text \<open>
  The console stays on its screen. The invariant \<open>con_ok\<close> ties the cursor, the scrolling
  region and the window into video memory together; every operation keeps it and writes
  to video memory only, whatever the bytes it is given.
\<close>


subsection \<open>Writes to a range of memory\<close>

definition writes :: "nat \<Rightarrow> nat \<Rightarrow> console \<Rightarrow> console \<Rightarrow> bool" where
  "writes lo hi c d \<longleftrightarrow> (\<exists>m. d = c\<lparr>vmem := m\<rparr> \<and> (\<forall>a. m a \<noteq> vmem c a \<longrightarrow> lo \<le> unat a \<and> unat a < hi))"

lemma writesI:
  "d = c\<lparr>vmem := m\<rparr> \<Longrightarrow> (\<And>a. m a \<noteq> vmem c a \<Longrightarrow> lo \<le> unat a \<and> unat a < hi) \<Longrightarrow> writes lo hi c d"
  by (auto simp: writes_def)

lemma writesE:
  assumes "writes lo hi c d"
  obtains m where "d = c\<lparr>vmem := m\<rparr>" "\<forall>a. m a \<noteq> vmem c a \<longrightarrow> lo \<le> unat a \<and> unat a < hi"
  using assms by (auto simp: writes_def)

lemma writes_refl [simp]: "writes lo hi c c"
  by (rule writesI [where m = "vmem c"]) simp_all

lemma writes_trans:
  assumes "writes lo hi c d" "writes lo hi d e"
  shows "writes lo hi c e"
proof -
  obtain m where m: "d = c\<lparr>vmem := m\<rparr>" "\<forall>a. m a \<noteq> vmem c a \<longrightarrow> lo \<le> unat a \<and> unat a < hi"
    using assms(1) by (rule writesE)
  obtain n where n: "e = d\<lparr>vmem := n\<rparr>" "\<forall>a. n a \<noteq> vmem d a \<longrightarrow> lo \<le> unat a \<and> unat a < hi"
    using assms(2) by (rule writesE)
  have "vmem d = m" using m(1) by simp
  then show ?thesis using m n(2) by (intro writesI [where m = n]) (simp add: n(1), metis)
qed

lemma writes_mono:
  assumes "writes lo hi c d" "lo' \<le> lo" "hi \<le> hi'"
  shows "writes lo' hi' c d"
proof -
  obtain m where m: "d = c\<lparr>vmem := m\<rparr>" "\<forall>a. m a \<noteq> vmem c a \<longrightarrow> lo \<le> unat a \<and> unat a < hi"
    using assms(1) by (rule writesE)
  then show ?thesis using assms(2,3) by (intro writesI [where m = m]) (simp, meson dual_order.trans less_le_trans)
qed

lemma writes_put16:
  assumes "lo \<le> unat a" "unat a + 2 \<le> hi" "hi < 4294967296"
  shows "writes lo hi c (put16 a v c)"
proof -
  have "unat (a + 1) = unat a + 1" using assms by (simp add: unat_word_ariths)
  then show ?thesis using assms unfolding put16_def put8_def
    by (intro writesI [where m = "(vmem c)(a := ucast v, a + 1 := ucast (drop_bit 8 v))"]) (auto split: if_splits)
qed

lemma unat_plus_lt: "unat (a :: u32) + k < 4294967296 \<Longrightarrow> unat (a + of_nat k) = unat a + k"
  by (simp add: unat_word_ariths unat_of_nat)

lemma writes_stosw:
  assumes "lo \<le> unat a" "unat a + 2 * n \<le> hi" "hi < 4294967296"
  shows "writes lo hi c (stosw n a v c)"
  using assms
proof (induction n arbitrary: a c)
  case (Suc n)
  have "unat (a + 2) = unat a + 2" using unat_plus_lt [of a 2] Suc.prems by simp
  then have "writes lo hi (put16 a v c) (stosw n (a + 2) v (put16 a v c))"
    using Suc.prems by (intro Suc.IH) auto
  moreover have "writes lo hi c (put16 a v c)" using Suc.prems by (intro writes_put16) auto
  ultimately show ?case using writes_trans by simp
qed simp

lemma unat_minus_le: "k \<le> unat (a :: u32) \<Longrightarrow> unat (a - of_nat k) = unat a - k"
proof -
  assume k: "k \<le> unat a"
  have "unat a < 2 ^ LENGTH(32)" by (rule unsigned_less)
  with k have "unat (of_nat k :: u32) = k" by (simp add: unat_of_nat)
  moreover from this k have "(of_nat k :: u32) \<le> a" by (simp add: word_le_nat_alt)
  ultimately show ?thesis by (simp add: unat_sub)
qed

lemma writes_stosw_down:
  assumes "n = 0 \<or> lo + 2 * (n - 1) \<le> unat a" "unat a + 2 \<le> hi" "hi < 4294967296"
  shows "writes lo hi c (stosw_down n a v c)"
  using assms
proof (induction n arbitrary: a c)
  case (Suc n)
  have "writes lo hi (put16 a v c) (stosw_down n (a - 2) v (put16 a v c))"
  proof (cases n)
    case (Suc m)
    then have "unat (a - 2) = unat a - 2" using unat_minus_le [of 2 a] Suc.prems by simp
    then show ?thesis using Suc.prems Suc by (intro Suc.IH) auto
  qed simp
  moreover have "writes lo hi c (put16 a v c)" using Suc.prems by (intro writes_put16) auto
  ultimately show ?case using writes_trans by simp
qed simp

lemma writes_movl:
  assumes "lo \<le> unat dst" "unat dst + 4 \<le> hi" "hi < 4294967296"
  shows "writes lo hi c (movl src dst c)"
proof -
  have "unat (dst + 2) = unat dst + 2" using unat_plus_lt [of dst 2] assms by simp
  then show ?thesis unfolding movl_def using assms
    by (intro writes_trans [OF writes_put16 writes_put16]) auto
qed

lemma writes_movsl:
  assumes "lo \<le> unat dst" "unat dst + 4 * n \<le> hi" "hi < 4294967296"
  shows "writes lo hi c (movsl n src dst c)"
  using assms
proof (induction n arbitrary: src dst c)
  case (Suc n)
  have "unat (dst + 4) = unat dst + 4" using unat_plus_lt [of dst 4] Suc.prems by simp
  then have "writes lo hi (movl src dst c) (movsl n (src + 4) (dst + 4) (movl src dst c))"
    using Suc.prems by (intro Suc.IH) auto
  moreover have "writes lo hi c (movl src dst c)" using Suc.prems by (intro writes_movl) auto
  ultimately show ?case using writes_trans by simp
qed simp

lemma writes_movsl_down:
  assumes "n = 0 \<or> lo + 4 * (n - 1) \<le> unat dst" "n = 0 \<or> unat dst + 4 \<le> hi" "hi < 4294967296"
  shows "writes lo hi c (movsl_down n src dst c)"
  using assms
proof (induction n arbitrary: src dst c)
  case (Suc n)
  have "writes lo hi (movl src dst c) (movsl_down n (src - 4) (dst - 4) (movl src dst c))"
  proof (cases n)
    case (Suc m)
    then have "unat (dst - 4) = unat dst - 4" using unat_minus_le [of 4 dst] Suc.prems by simp
    then show ?thesis using Suc.prems Suc by (intro Suc.IH) auto
  qed simp
  moreover have "writes lo hi c (movl src dst c)" using Suc.prems by (intro writes_movl) auto
  ultimately show ?case using writes_trans by simp
qed simp

lemma writes_insert_cells:
  assumes "lo \<le> unat p" "unat p + 2 * n \<le> hi" "hi < 4294967296"
  shows "writes lo hi c (insert_cells n p old c)"
  using assms
proof (induction n arbitrary: p old c)
  case (Suc n)
  have "unat (p + 2) = unat p + 2" using unat_plus_lt [of p 2] Suc.prems by simp
  then have "writes lo hi (put16 p old c) (insert_cells n (p + 2) (get16 p c) (put16 p old c))"
    using Suc.prems by (intro Suc.IH) auto
  moreover have "writes lo hi c (put16 p old c)" using Suc.prems by (intro writes_put16) auto
  ultimately show ?case using writes_trans by simp
qed simp

lemma writes_delete_cells:
  assumes "lo \<le> unat p" "unat p + 2 * n + 2 \<le> hi" "hi < 4294967296"
  shows "writes lo hi c (delete_cells n p c)"
  using assms
proof (induction n arbitrary: p c)
  case (Suc n)
  let ?d = "put16 p (get16 (p + 2) c) c"
  have "unat (p + 2) = unat p + 2" using unat_plus_lt [of p 2] Suc.prems by simp
  then have "writes lo hi ?d (delete_cells n (p + 2) ?d)" using Suc.prems by (intro Suc.IH) auto
  moreover have "writes lo hi c ?d" using Suc.prems by (intro writes_put16) auto
  ultimately show ?case using writes_trans by simp
qed (simp add: writes_put16)



subsection \<open>The invariant\<close>

text \<open>
  The screen is a window of \<^verbatim>\<open>video_num_lines\<close> rows into video memory; the cursor may stand one
  column past the end of its row.
\<close>

definition con_ok :: "console \<Rightarrow> bool" where
  "con_ok c \<longleftrightarrow>
     (let cols = unat (video_num_columns c); lines = unat (video_num_lines c); org = unat (origin c)
      in 8 \<le> cols \<and> cols \<le> 255 \<and> lines \<le> 255 \<and> unat (video_size_row c) = 2 * cols \<and>
         unat (video_mem_start c) \<le> org \<and> unat (video_mem_start c) + lines * (2 * cols) \<le> unat (video_mem_end c) \<and>
         unat (scr_end c) = org + lines * (2 * cols) \<and> org + lines * (2 * cols) \<le> unat (video_mem_end c) \<and>
         unat (video_mem_end c) < 16777216 \<and>
         unat (cx c) \<le> cols \<and> unat (cy c) < lines \<and>
         unat (pos c) = org + unat (cy c) * (2 * cols) + 2 * unat (cx c) \<and>
         unat (scr_top c) < unat (scr_bottom c) \<and> unat (scr_bottom c) \<le> lines \<and> npar c < NPAR)"

text \<open>What never changes after initialization, and the range of memory that may.\<close>

definition geometry :: "console \<Rightarrow> u8 \<times> u32 \<times> u32 \<times> u32 \<times> u32 \<times> u32" where
  "geometry c = (video_type c, video_num_columns c, video_num_lines c, video_size_row c, video_mem_start c, video_mem_end c)"

definition safe :: "console \<Rightarrow> console \<Rightarrow> bool" where
  "safe c d \<longleftrightarrow> con_ok d \<and> geometry d = geometry c \<and>
     (\<forall>a. vmem d a \<noteq> vmem c a \<longrightarrow> video_mem_start c \<le> a \<and> a < video_mem_end c)"

lemma safe_refl: "con_ok c \<Longrightarrow> safe c c"
  by (simp add: safe_def)

lemma safe_trans: "safe c d \<Longrightarrow> safe d e \<Longrightarrow> safe c e"
  unfolding safe_def geometry_def by simp metis

lemma safe_writes:
  assumes "con_ok c" "writes lo hi c d" "unat (video_mem_start c) \<le> lo" "hi \<le> unat (video_mem_end c)"
  shows "safe c d"
proof -
  obtain m where m: "d = c\<lparr>vmem := m\<rparr>" "\<forall>a. m a \<noteq> vmem c a \<longrightarrow> lo \<le> unat a \<and> unat a < hi"
    using assms(2) by (rule writesE)
  have "con_ok d" using assms(1) by (simp add: m(1) con_ok_def)
  moreover have "geometry d = geometry c" by (simp add: m(1) geometry_def)
  moreover have "video_mem_start c \<le> a \<and> a < video_mem_end c" if "m a \<noteq> vmem c a" for a
    using m(2) that assms(3,4) by (auto simp: word_le_nat_alt word_less_nat_alt)
  ultimately show ?thesis by (simp add: safe_def m(1))
qed

lemma safe_same: "con_ok d \<Longrightarrow> geometry d = geometry c \<Longrightarrow> vmem d = vmem c \<Longrightarrow> safe c d"
  by (simp add: safe_def)

lemma row_le: "y < l \<Longrightarrow> y * r + r \<le> l * (r :: nat)"
  using mult_le_mono1 [of "Suc y" l r] by simp

lemma con_okE:
  assumes "con_ok c"
  obtains cols lines org x y where
    "unat (video_num_columns c) = cols" "unat (video_num_lines c) = lines" "unat (origin c) = org"
    "unat (cx c) = x" "unat (cy c) = y" "8 \<le> cols" "cols \<le> 255" "lines \<le> 255" "x \<le> cols" "y < lines"
    "unat (video_size_row c) = 2 * cols" "unat (scr_end c) = org + lines * (2 * cols)"
    "unat (pos c) = org + y * (2 * cols) + 2 * x" "y * (2 * cols) + 2 * cols \<le> lines * (2 * cols)"
    "unat (video_mem_start c) \<le> org" "org + lines * (2 * cols) \<le> unat (video_mem_end c)"
    "unat (video_mem_end c) < 16777216"
  using assms row_le [of "unat (cy c)" "unat (video_num_lines c)" "2 * unat (video_num_columns c)"]
  unfolding con_ok_def Let_def by blast

lemma unat_add_small: "unat (a :: u32) + unat b < 4294967296 \<Longrightarrow> unat (a + b) = unat a + unat b"
  by (simp add: unat_word_ariths)

lemma unat_mul_small: "unat (a :: u32) * unat b < 4294967296 \<Longrightarrow> unat (a * b) = unat a * unat b"
  by (simp add: unat_word_ariths)

lemma unat_sub_small: "unat (b :: u32) \<le> unat a \<Longrightarrow> unat (a - b) = unat a - unat b"
  by (simp add: unat_sub word_le_nat_alt)

lemma unat_drop1: "unat (drop_bit 1 (w :: u32)) = unat w div 2"
  by (simp add: unat_drop_bit_div)

lemma unat_push1: "unat (w :: u32) < 2147483648 \<Longrightarrow> unat (push_bit 1 w) = 2 * unat w"
  by (simp add: push_bit_eq_mult unat_word_ariths)

lemma gotoxy_safe:
  assumes "con_ok c"
  shows "safe c (gotoxy nx ny c)"
proof (cases "video_num_columns c < nx \<or> video_num_lines c \<le> ny")
  case False
  obtain cols lines org x y where c: "unat (video_num_columns c) = cols" "unat (video_num_lines c) = lines" "unat (origin c) = org"
    "cols \<le> 255" "lines \<le> 255" "unat (video_size_row c) = 2 * cols"
    "org + lines * (2 * cols) \<le> unat (video_mem_end c)" "unat (video_mem_end c) < 16777216"
    using assms by (rule con_okE) blast
  have n: "unat nx \<le> cols" "unat ny < lines" using False c by (simp_all add: word_le_nat_alt word_less_nat_alt)
  have r: "unat ny * (2 * cols) + 2 * cols \<le> lines * (2 * cols)" using row_le n(2) by blast
  have l: "org + unat ny * (2 * cols) + 2 * cols < 16777216" using r c(7,8) by linarith
  have m: "unat (ny * video_size_row c) = unat ny * (2 * cols)"
  proof -
    have "unat ny * unat (video_size_row c) < 4294967296" unfolding c(6) using l by linarith
    then show ?thesis using unat_mul_small c(6) by metis
  qed
  have o: "unat (origin c + ny * video_size_row c) = org + unat ny * (2 * cols)"
    using m l c(3) by (subst unat_add_small) simp_all
  have "unat (origin c + ny * video_size_row c + push_bit 1 nx) = org + unat ny * (2 * cols) + 2 * unat nx"
  proof -
    have "unat (push_bit 1 nx) = 2 * unat nx" using n(1) c(4) by (intro unat_push1) linarith
    then show ?thesis using unat_add_small [of "origin c + ny * video_size_row c" "push_bit 1 nx"] o n(1) l by linarith
  qed
  then have "con_ok (gotoxy nx ny c)" using assms False n c(1,2,3) by (simp add: con_ok_def gotoxy_def Let_def)
  then show ?thesis using False by (intro safe_same) (simp_all add: gotoxy_def geometry_def)
qed (use assms in \<open>simp add: gotoxy_def safe_refl\<close>)

text \<open>The facts about a state that the rest uses.\<close>

lemma con_ok_facts:
  assumes "con_ok c"
  defines "cols \<equiv> unat (video_num_columns c)" and "lines \<equiv> unat (video_num_lines c)"
  shows "unat (origin c) + lines * (2 * cols) \<le> unat (video_mem_end c)" "unat (video_mem_end c) < 16777216"
    "unat (video_mem_start c) \<le> unat (origin c)" "unat (scr_end c) = unat (origin c) + lines * (2 * cols)"
    "unat (pos c) = unat (origin c) + unat (cy c) * (2 * cols) + 2 * unat (cx c)" "unat (cx c) \<le> cols"
    "unat (cy c) * (2 * cols) + 2 * cols \<le> lines * (2 * cols)" "8 \<le> cols" "cols \<le> 255" "lines \<le> 255"
    "unat (cy c) < lines" "unat (video_size_row c) = 2 * cols" "unat (scr_top c) < unat (scr_bottom c)"
    "unat (scr_bottom c) \<le> lines" "unat (scr_bottom c) * (2 * cols) \<le> lines * (2 * cols)"
  using assms row_le [of "unat (cy c)" lines "2 * cols"] mult_le_mono1 [of "unat (scr_bottom c)" lines "2 * cols"]
  unfolding con_ok_def Let_def by simp_all

lemma cr_safe:
  assumes "con_ok c"
  shows "safe c (cr c)"
proof -
  note f = con_ok_facts [OF assms]
  have "unat (push_bit 1 (cx c)) = 2 * unat (cx c)" using f(6,9) by (intro unat_push1) simp
  then have "unat (pos c - push_bit 1 (cx c)) = unat (origin c) + unat (cy c) * (2 * unat (video_num_columns c))"
    using f(5) by (subst unat_sub_small) simp_all
  then have "con_ok (cr c)" using assms by (simp add: con_ok_def cr_def Let_def)
  then show ?thesis by (intro safe_same) (simp_all add: cr_def geometry_def)
qed

lemma back_ok:
  assumes "con_ok c" "cx c \<noteq> 0"
  shows "con_ok (c\<lparr>cx := cx c - 1, pos := pos c - 2\<rparr>)" "unat (pos c - 2) = unat (pos c) - 2" "2 \<le> unat (pos c)"
    "unat (pos c) - 2 \<ge> unat (origin c)"
proof -
  note f = con_ok_facts [OF assms(1)]
  have x: "1 \<le> unat (cx c)" "unat (cx c - 1) = unat (cx c) - 1"
    using assms(2) unat_sub_small [of 1 "cx c"] by (simp_all add: Suc_le_eq unat_gt_0)
  show p: "unat (pos c - 2) = unat (pos c) - 2" using x f(5) unat_sub_small [of 2 "pos c"] by simp
  show "2 \<le> unat (pos c)" "unat (pos c) - 2 \<ge> unat (origin c)" using x f(5) by simp_all
  show "con_ok (c\<lparr>cx := cx c - 1, pos := pos c - 2\<rparr>)"
    using assms(1) x p f(5) by (simp add: con_ok_def Let_def) linarith
qed

lemma del_safe:
  assumes "con_ok c"
  shows "safe c (del c)"
proof (cases "cx c = 0")
  case False
  note f = con_ok_facts [OF assms] and b = back_ok [OF assms False]
  let ?d = "c\<lparr>pos := pos c - 2, cx := cx c - 1\<rparr>"
  have d: "con_ok ?d" using b(1) by (simp add: con_ok_def)
  have "safe c ?d" using d by (intro safe_same) (simp_all add: geometry_def)
  moreover have "writes (unat (video_mem_start c)) (unat (video_mem_end c)) ?d (put16 (pos c - 2) (video_erase_char c) ?d)"
    using b f by (intro writes_put16) linarith+
  then have "safe ?d (put16 (pos c - 2) (video_erase_char c) ?d)" by (rule safe_writes [OF d]) simp_all
  ultimately show ?thesis using False safe_trans by (simp add: del_def)
qed (use assms in \<open>simp add: del_def safe_refl\<close>)


subsection \<open>Scrolling\<close>

lemma region_facts:
  assumes "con_ok c"
  defines "cols \<equiv> unat (video_num_columns c)"
  shows "4 * region_longs c \<le> (unat (scr_bottom c) - unat (scr_top c) - 1) * (2 * cols)"
    "unat (origin c + video_size_row c * scr_top c) = unat (origin c) + unat (scr_top c) * (2 * cols)"
    "unat (origin c + video_size_row c * scr_bottom c) = unat (origin c) + unat (scr_bottom c) * (2 * cols)"
proof -
  note f = con_ok_facts [OF assms(1)]
  have k: "unat (scr_bottom c - scr_top c - 1) = unat (scr_bottom c) - unat (scr_top c) - 1"
    using f(13) by (subst unat_sub_small; (subst unat_sub_small)?) simp_all
  have le: "(unat (scr_bottom c) - unat (scr_top c) - 1) * (2 * cols) \<le> unat (scr_bottom c) * (2 * cols)"
    by (intro mult_le_mono1) simp
  have tb: "unat (scr_top c) * (2 * cols) + 2 * cols \<le> unat (scr_bottom c) * (2 * cols)" using row_le f(13) by blast
  have l: "unat (origin c) + unat (scr_bottom c) * (2 * cols) < 16777216"
    using f(1,2,15) unfolding cols_def by linarith
  have "unat ((scr_bottom c - scr_top c - 1) * video_num_columns c) = (unat (scr_bottom c) - unat (scr_top c) - 1) * cols"
  proof -
    have "(unat (scr_bottom c) - unat (scr_top c) - 1) * cols < 4294967296" using le l by linarith
    then show ?thesis using unat_mul_small k cols_def by metis
  qed
  then show "4 * region_longs c \<le> (unat (scr_bottom c) - unat (scr_top c) - 1) * (2 * cols)"
    unfolding region_longs_def unat_drop1 by linarith
  have at: "unat (origin c + video_size_row c * t) = unat (origin c) + unat t * (2 * cols)"
    if "unat (origin c) + unat t * (2 * cols) < 16777216" for t
  proof -
    have "unat t * (2 * cols) < 4294967296" using that by linarith
    then have "unat (video_size_row c) * unat t < 4294967296"
      unfolding f(12) cols_def by (simp only: mult.commute)
    then have "unat (video_size_row c * t) = unat t * (2 * cols)"
      using unat_mul_small f(12) cols_def by (metis mult.commute)
    then show ?thesis using that by (subst unat_add_small) simp_all
  qed
  show "unat (origin c + video_size_row c * scr_top c) = unat (origin c) + unat (scr_top c) * (2 * cols)"
    using l tb by (intro at) linarith
  show "unat (origin c + video_size_row c * scr_bottom c) = unat (origin c) + unat (scr_bottom c) * (2 * cols)"
    using l by (intro at)
qed

lemma rows_split: "t < b \<Longrightarrow> t * r + (b - t - 1) * r + r = b * (r :: nat)"
proof -
  assume "t < b"
  then obtain k where "b = Suc (t + k)" using less_imp_Suc_add by blast
  then show ?thesis by (simp add: algebra_simps)
qed

lemma unat_plus_longs: "unat (a :: u32) + 4 * n < 4294967296 \<Longrightarrow> unat (a + 4 * of_nat n) = unat a + 4 * n"
  using unat_plus_lt [of a "4 * n"] by simp

lemma scrup_region_writes:
  assumes "con_ok c"
  shows "writes (unat (origin c)) (unat (video_mem_end c)) c (scrup_region c)"
proof -
  note f = con_ok_facts [OF assms] and g = region_facts [OF assms]
  let ?R = "2 * unat (video_num_columns c)" and ?n = "region_longs c"
  let ?dst = "origin c + video_size_row c * scr_top c"
  have le: "unat ?dst + 4 * ?n + ?R \<le> unat (video_mem_end c)"
    using rows_split [OF f(13), of ?R] g(1,2) f(1,15) by linarith
  then have a: "unat (?dst + 4 * of_nat ?n) = unat ?dst + 4 * ?n" using f(2) by (intro unat_plus_longs) linarith
  have d: "unat (origin c) \<le> unat ?dst" using g(2) by linarith
  show ?thesis unfolding scrup_region_def Let_def
    by (rule writes_trans [OF writes_movsl writes_stosw]) (use le a d f(2) in linarith)+
qed

lemma scrdown_writes:
  assumes "con_ok c"
  shows "writes (unat (origin c)) (unat (video_mem_end c)) c (scrdown c)"
proof -
  note f = con_ok_facts [OF assms] and g = region_facts [OF assms]
  let ?R = "2 * unat (video_num_columns c)" and ?n = "region_longs c"
  let ?e = "origin c + video_size_row c * scr_bottom c"
  have le: "unat (origin c) + 4 * ?n + ?R \<le> unat ?e" "unat ?e \<le> unat (video_mem_end c)"
    using rows_split [OF f(13), of ?R] g(1,3) f(1,15) by linarith+
  have a: "unat (?e - 4) = unat ?e - 4" using le(1) f(8) unat_minus_le [of 4 ?e] by simp
  have "unat (?e - 4 - 4 * of_nat ?n) = unat ?e - 4 - 4 * ?n"
    using le(1) f(8) a unat_minus_le [of "4 * ?n" "?e - 4"] by simp
  then have b: "unat (?e - 4 - 4 * of_nat ?n + 2) = unat ?e - 2 - 4 * ?n"
    using le f(2,8) unat_plus_lt [of "?e - 4 - 4 * of_nat ?n" 2] by simp
  show ?thesis unfolding scrdown_def Let_def
    by (rule writes_trans [OF writes_movsl_down writes_stosw_down]) (use le a b f(2,8) in linarith)+
qed

lemma scrdown_safe: "con_ok c \<Longrightarrow> safe c (scrdown c)"
  using scrdown_writes con_ok_facts(3) by (intro safe_writes) auto

lemma scrup_region_safe: "con_ok c \<Longrightarrow> safe c (scrup_region c)"
  using scrup_region_writes con_ok_facts(3) by (intro safe_writes) auto

lemma con_ok_out [simp]: "con_ok (d\<lparr>con_out := x\<rparr>) = con_ok d" "con_ok (d\<lparr>esc_state := n\<rparr>) = con_ok d"
  "con_ok (d\<lparr>con_tty := q\<rparr>) = con_ok d" "con_ok (d\<lparr>par := f\<rparr>) = con_ok d" "con_ok (d\<lparr>attr := b\<rparr>) = con_ok d"
  "con_ok (d\<lparr>vmem := m\<rparr>) = con_ok d"
  by (simp_all add: con_ok_def)

lemma geometry_upd [simp]: "geometry (d\<lparr>con_out := x\<rparr>) = geometry d" "geometry (d\<lparr>esc_state := n\<rparr>) = geometry d"
  "geometry (d\<lparr>con_tty := q\<rparr>) = geometry d" "geometry (d\<lparr>par := f\<rparr>) = geometry d" "geometry (d\<lparr>attr := b\<rparr>) = geometry d"
  "geometry (d\<lparr>vmem := m\<rparr>) = geometry d" "geometry (d\<lparr>cx := u\<rparr>) = geometry d" "geometry (d\<lparr>cy := u\<rparr>) = geometry d"
  "geometry (d\<lparr>pos := u\<rparr>) = geometry d" "geometry (d\<lparr>origin := u\<rparr>) = geometry d" "geometry (d\<lparr>scr_end := u\<rparr>) = geometry d"
  "geometry (d\<lparr>scr_top := u\<rparr>) = geometry d" "geometry (d\<lparr>scr_bottom := u\<rparr>) = geometry d" "geometry (d\<lparr>npar := u\<rparr>) = geometry d"
  "geometry (d\<lparr>ques := q'\<rparr>) = geometry d" "geometry (d\<lparr>saved_x := i\<rparr>) = geometry d" "geometry (d\<lparr>saved_y := i\<rparr>) = geometry d"
  by (simp_all add: geometry_def)

lemma safe_out [simp]: "safe c (d\<lparr>con_out := x\<rparr>) = safe c d"
  by (simp add: safe_def)

lemma safe_set_origin [simp]: "safe c (set_origin d) = safe c d"
  by (simp add: set_origin_def outb_p_def Let_def)

lemma safe_set_cursor [simp]: "safe c (set_cursor d) = safe c d"
  by (simp add: set_cursor_def outb_p_def Let_def)

lemma scrup_safe:
  assumes "con_ok c"
  shows "safe c (scrup c)"
proof (cases "(video_type c = VIDEO_TYPE_EGAC \<or> video_type c = VIDEO_TYPE_EGAM) \<and> scr_top c = 0 \<and> scr_bottom c = video_num_lines c")
  case False
  then show ?thesis using scrup_region_safe [OF assms] by (auto simp: scrup_def)
next
  case True
  note f = con_ok_facts [OF assms]
  let ?cols = "unat (video_num_columns c)" and ?L = "unat (video_num_lines c)" and ?S = "video_mem_start c"
  let ?c = "c\<lparr>origin := origin c + video_size_row c, pos := pos c + video_size_row c, scr_end := scr_end c + video_size_row c\<rparr>"
  have u: "unat (origin c + video_size_row c) = unat (origin c) + 2 * ?cols"
    "unat (pos c + video_size_row c) = unat (pos c) + 2 * ?cols"
    "unat (scr_end c + video_size_row c) = unat (scr_end c) + 2 * ?cols"
    using f by (subst unat_add_small; simp)+
  show ?thesis
  proof (cases "video_mem_end c < scr_end c + video_size_row c")
    case wrap: True
    let ?n = "unat (drop_bit 1 ((video_num_lines c - 1) * video_num_columns c))"
    let ?d = "stosw ?cols (?S + 4 * of_nat ?n) (video_erase_char c) (movsl ?n (origin c + video_size_row c) ?S ?c)"
    let ?T = "video_mem_start ?d"
    let ?e = "?d\<lparr>scr_end := scr_end ?d - (origin ?d - ?T), pos := pos ?d - (origin ?d - ?T), origin := ?T\<rparr>"
    have room: "unat ?S + ?L * (2 * ?cols) \<le> unat (video_mem_end c)" using assms by (simp add: con_ok_def Let_def)
    have "unat (video_num_lines c - 1) = ?L - 1" using f(11) unat_sub_small [of 1 "video_num_lines c"] by simp
    moreover have rows: "(?L - 1) * (2 * ?cols) + 2 * ?cols = ?L * (2 * ?cols)" using rows_split [of 0 ?L "2 * ?cols"] f(11) by simp
    ultimately have "unat ((video_num_lines c - 1) * video_num_columns c) = (?L - 1) * ?cols"
      using room f(2) by (subst unat_mul_small) simp_all
    then have n: "4 * ?n + 2 * ?cols \<le> ?L * (2 * ?cols)" using rows unfolding unat_drop1 by linarith
    have a: "unat (?S + 4 * of_nat ?n) = unat ?S + 4 * ?n" using n room f(2) by (intro unat_plus_longs) linarith
    have "writes (unat ?S) (unat (video_mem_end c)) ?c ?d"
      by (rule writes_trans [OF writes_movsl writes_stosw]) (use n a room f(2) in linarith)+
    then obtain m where m: "?d = ?c\<lparr>vmem := m\<rparr>" "\<forall>a. m a \<noteq> vmem ?c a \<longrightarrow> unat ?S \<le> unat a \<and> unat a < unat (video_mem_end c)"
      by (rule writesE)
    have o: "unat (origin c + video_size_row c - ?S) = unat (origin c) + 2 * ?cols - unat ?S"
      using u(1) f(3) by (subst unat_sub_small) simp_all
    have "unat (scr_end c + video_size_row c - (origin c + video_size_row c - ?S)) = unat ?S + ?L * (2 * ?cols)"
      "unat (pos c + video_size_row c - (origin c + video_size_row c - ?S)) = unat ?S + unat (cy c) * (2 * ?cols) + 2 * unat (cx c)"
      using u o f(3,4,5) by (subst unat_sub_small; simp)+
    then have "con_ok ?e" using assms room unfolding m(1) by (simp add: con_ok_def Let_def)
    moreover have "geometry ?e = geometry c" unfolding m(1) by simp
    moreover have "\<forall>a. vmem ?e a \<noteq> vmem c a \<longrightarrow> ?S \<le> a \<and> a < video_mem_end c"
      using m(2) unfolding m(1) by (simp add: word_le_nat_alt word_less_nat_alt)
    ultimately have "safe c ?e" by (simp add: safe_def)
    moreover have "scrup c = set_origin ?e" using True wrap by (simp add: scrup_def Let_def)
    ultimately show ?thesis by simp
  next
    case False
    let ?d = "stosw ?cols (scr_end c + video_size_row c - video_size_row c) (video_erase_char c) ?c"
    have "unat (scr_end c) + 2 * ?cols \<le> unat (video_mem_end c)" using False u(3) by (simp add: word_less_nat_alt)
    then have ok: "con_ok ?c" using assms u f(3,4,5) by (simp add: con_ok_def Let_def)
    have "writes (unat ?S) (unat (video_mem_end c)) ?c ?d"
      using False u(3) f(2,3,4) by (intro writes_stosw) (simp_all add: word_less_nat_alt)
    then have "safe ?c ?d" by (rule safe_writes [OF ok]) simp_all
    moreover have "safe c ?c" using ok by (intro safe_same) simp_all
    moreover have "scrup c = set_origin ?d" using True False by (simp add: scrup_def Let_def)
    ultimately show ?thesis using safe_trans by simp
  qed
qed

lemma lf_safe:
  assumes "con_ok c"
  shows "safe c (lf c)"
proof (cases "cy c + 1 < scr_bottom c")
  case True
  note f = con_ok_facts [OF assms]
  have "unat (cy c + 1) = unat (cy c) + 1" using f(10,11) unat_add_small [of "cy c" 1] by simp
  moreover have "unat (pos c + video_size_row c) = unat (pos c) + 2 * unat (video_num_columns c)"
    using f by (subst unat_add_small) simp_all
  ultimately have "con_ok (c\<lparr>cy := cy c + 1, pos := pos c + video_size_row c\<rparr>)"
    using assms True f(5,14) by (simp add: con_ok_def Let_def word_less_nat_alt)
  then show ?thesis using True by (auto simp: lf_def intro: safe_same)
qed (use scrup_safe [OF assms] in \<open>simp add: lf_def\<close>)

lemma ri_safe:
  assumes "con_ok c"
  shows "safe c (ri c)"
proof (cases "scr_top c < cy c")
  case True
  note f = con_ok_facts [OF assms]
  have y: "1 \<le> unat (cy c)" using True by (simp add: word_less_nat_alt)
  then have 1: "unat (cy c - 1) = unat (cy c) - 1" using unat_sub_small [of 1 "cy c"] by simp
  obtain k where k: "unat (cy c) = Suc k" using y by (cases "unat (cy c)") auto
  have "unat (pos c - video_size_row c) = unat (pos c) - 2 * unat (video_num_columns c)"
    using f(5,12) k by (subst unat_sub_small) simp_all
  then have "con_ok (c\<lparr>cy := cy c - 1, pos := pos c - video_size_row c\<rparr>)"
    using assms 1 f(5) k by (simp add: con_ok_def Let_def)
  then show ?thesis using True by (auto simp: ri_def intro: safe_same)
qed (use scrdown_safe [OF assms] in \<open>simp add: ri_def\<close>)


subsection \<open>Erasing, inserting and deleting\<close>

lemma screen_safe:
  assumes "con_ok c" "writes (unat (origin c)) (unat (video_mem_end c)) c d"
  shows "safe c d"
  using safe_writes [OF assms] con_ok_facts(3) [OF assms(1)] by simp

lemma pos_bounds:
  assumes "con_ok c"
  shows "unat (origin c) \<le> unat (pos c)" "unat (pos c) \<le> unat (scr_end c)" "unat (scr_end c) \<le> unat (video_mem_end c)"
    "unat (pos c) + 2 * (unat (video_num_columns c) - unat (cx c)) \<le> unat (scr_end c)"
  using con_ok_facts [OF assms] by linarith+

lemma row_start:
  assumes "con_ok c"
  shows "unat (pos c - push_bit 1 (cx c)) = unat (pos c) - 2 * unat (cx c)"
    "unat (origin c) \<le> unat (pos c) - 2 * unat (cx c)"
    "unat (pos c) - 2 * unat (cx c) + 2 * unat (video_num_columns c) \<le> unat (scr_end c)"
proof -
  note f = con_ok_facts [OF assms]
  have x: "unat (push_bit 1 (cx c)) = 2 * unat (cx c)" using f(6,9) by (intro unat_push1) simp
  show "unat (pos c - push_bit 1 (cx c)) = unat (pos c) - 2 * unat (cx c)"
    using unat_sub_small [of "push_bit 1 (cx c)" "pos c"] x f(5) by simp
  show "unat (origin c) \<le> unat (pos c) - 2 * unat (cx c)"
    "unat (pos c) - 2 * unat (cx c) + 2 * unat (video_num_columns c) \<le> unat (scr_end c)"
    using f(4,5,7) by linarith+
qed

lemma csi_J_safe:
  assumes "con_ok c"
  shows "safe c (csi_J p c)"
proof -
  note f = con_ok_facts [OF assms] and b = pos_bounds [OF assms]
  have 0: "2 * unat (drop_bit 1 (scr_end c - pos c)) \<le> unat (scr_end c) - unat (pos c)"
    using b(2) unat_sub_small [of "pos c" "scr_end c"] unfolding unat_drop1 by simp
  have 1: "2 * unat (drop_bit 1 (pos c - origin c)) \<le> unat (pos c) - unat (origin c)"
    using b(1) unat_sub_small [of "origin c" "pos c"] unfolding unat_drop1 by simp
  have "unat (video_num_lines c) * unat (video_num_columns c) < 4294967296" using f(1,2) by linarith
  then have "unat (video_num_columns c) * unat (video_num_lines c) < 4294967296" by (simp only: mult.commute)
  then have 2: "2 * unat (video_num_columns c * video_num_lines c) = unat (video_num_lines c) * (2 * unat (video_num_columns c))"
    using unat_mul_small by (simp add: mult.commute)
  show ?thesis
  proof (rule screen_safe [OF assms])
    show "writes (unat (origin c)) (unat (video_mem_end c)) c (csi_J p c)"
      using 0 1 2 b f(1,2,4) by (auto simp: csi_J_def intro!: writes_stosw)
  qed
qed

lemma csi_K_safe:
  assumes "con_ok c"
  shows "safe c (csi_K p c)"
proof (rule screen_safe [OF assms])
  note f = con_ok_facts [OF assms] and b = pos_bounds [OF assms] and r = row_start [OF assms]
  have k: "unat (video_num_columns c - cx c) = unat (video_num_columns c) - unat (cx c)"
    using f(6) by (rule unat_sub_small)
  show "writes (unat (origin c)) (unat (video_mem_end c)) c (csi_K p c)"
    unfolding csi_K_def
    by (auto intro!: writes_stosw simp: k) (use f(2,6) b r in \<open>simp_all add: word_less_nat_alt\<close>)
qed

lemma insert_char_safe:
  assumes "con_ok c"
  shows "safe c (insert_char c)"
proof (rule screen_safe [OF assms])
  note f = con_ok_facts [OF assms] and b = pos_bounds [OF assms]
  show "writes (unat (origin c)) (unat (video_mem_end c)) c (insert_char c)"
    unfolding insert_char_def by (rule writes_insert_cells) (use b f(2) in linarith)+
qed

lemma delete_char_safe:
  assumes "con_ok c"
  shows "safe c (delete_char c)"
proof (rule screen_safe [OF assms])
  note f = con_ok_facts [OF assms] and b = pos_bounds [OF assms]
  show "writes (unat (origin c)) (unat (video_mem_end c)) c (delete_char c)"
  proof (cases "video_num_columns c \<le> cx c")
    case False
    then have "unat (cx c) < unat (video_num_columns c)" by (simp add: not_le word_less_nat_alt)
    then show ?thesis unfolding delete_char_def using False b f(2)
      by (simp del: delete_cells.simps) (rule writes_delete_cells; linarith)
  qed (simp add: delete_char_def)
qed

text \<open>The scrolling region of \<^verbatim>\<open>insert_line\<close> and \<^verbatim>\<open>delete_line\<close> is changed for the call and put back.\<close>

lemma con_ok_region:
  "con_ok c \<Longrightarrow> con_ok (c\<lparr>scr_top := t, scr_bottom := b\<rparr>) \<longleftrightarrow> t < b \<and> b \<le> video_num_lines c"
  by (auto simp: con_ok_def Let_def word_less_nat_alt word_le_nat_alt)

lemma safe_region:
  assumes "con_ok c" "\<And>d. con_ok d \<Longrightarrow> safe d (f d)"
  shows "safe c ((f (c\<lparr>scr_top := cy c, scr_bottom := video_num_lines c\<rparr>))\<lparr>scr_top := scr_top c, scr_bottom := scr_bottom c\<rparr>)"
proof -
  let ?c = "c\<lparr>scr_top := cy c, scr_bottom := video_num_lines c\<rparr>"
  note f = con_ok_facts [OF assms(1)]
  have "con_ok ?c" using assms(1) f(11) by (simp add: con_ok_region word_less_nat_alt)
  then have s: "safe ?c (f ?c)" by (rule assms(2))
  then have "geometry (f ?c) = geometry c" "con_ok (f ?c)" by (simp_all add: safe_def)
  moreover from this have "con_ok ((f ?c)\<lparr>scr_top := scr_top c, scr_bottom := scr_bottom c\<rparr>)"
    using f(13,14) by (simp add: con_ok_region geometry_def word_less_nat_alt word_le_nat_alt)
  ultimately show ?thesis using s by (simp add: safe_def)
qed

lemma insert_line_safe: "con_ok c \<Longrightarrow> safe c (insert_line c)"
  unfolding insert_line_def by (rule safe_region [OF _ scrdown_safe])

lemma delete_line_safe: "con_ok c \<Longrightarrow> safe c (delete_line c)"
  unfolding delete_line_def by (rule safe_region [OF _ scrup_safe])

lemma safe_con_ok: "safe c d \<Longrightarrow> con_ok d"
  by (simp add: safe_def)

lemma safe_power:
  assumes "con_ok c" "\<And>d. con_ok d \<Longrightarrow> safe d (f d)"
  shows "safe c ((f ^^ n) c)"
proof (induction n)
  case (Suc n)
  then show ?case using assms(2) [OF safe_con_ok [OF Suc]] safe_trans by simp
qed (simp add: assms(1) safe_refl)

lemma safe_upd [simp]: "safe c (d\<lparr>attr := b\<rparr>) = safe c d" "safe c (d\<lparr>esc_state := n\<rparr>) = safe c d"
  "safe c (d\<lparr>con_tty := q\<rparr>) = safe c d" "safe c (d\<lparr>par := p\<rparr>) = safe c d"
  by (simp_all add: safe_def)

lemma safe_fold: "safe c d \<Longrightarrow> (\<And>i d. safe c d \<Longrightarrow> safe c (f i d)) \<Longrightarrow> safe c (fold f xs d)"
  by (induction xs arbitrary: d) simp_all

lemma csi_m_safe: "con_ok c \<Longrightarrow> safe c (csi_m c)"
  unfolding csi_m_def by (rule safe_fold) (simp_all add: safe_refl)


subsection \<open>The automaton\<close>

lemma wrap_line_safe:
  assumes "con_ok (c\<lparr>cx := x, pos := p\<rparr>)" "x = cx c - video_num_columns c" "p = pos c - video_size_row c"
  shows "safe (c\<lparr>cx := x, pos := p\<rparr>) (wrap_line c)"
  using lf_safe [OF assms(1)] by (simp add: wrap_line_def assms(2,3))

text \<open>
  A column past the end of the row, up to eight: taking a row away gives a good cursor, which is
  what \<open>wrap_line\<close> starts from.
\<close>

lemma wrap_ok:
  assumes "con_ok c" "unat (video_num_columns c) \<le> unat u" "unat u \<le> unat (video_num_columns c) + 8"
    "unat p = unat (origin c) + unat (cy c) * (2 * unat (video_num_columns c)) + 2 * unat u"
  shows "con_ok (c\<lparr>cx := u - video_num_columns c, pos := p - video_size_row c\<rparr>)"
proof -
  note f = con_ok_facts [OF assms(1)]
  have "unat (u - video_num_columns c) = unat u - unat (video_num_columns c)" using assms(2) by (rule unat_sub_small)
  moreover have "unat (p - video_size_row c) = unat p - 2 * unat (video_num_columns c)"
    using assms(2,4) f(12) by (subst unat_sub_small) simp_all
  ultimately show ?thesis using assms f(8) by (simp add: con_ok_def Let_def) linarith
qed

lemma cx_put16 [simp]: "cx (put16 a v c) = cx c"
  by (simp add: put16_def put8_def)

lemma cx_stosw [simp]: "cx (stosw n a v c) = cx c"
  by (induction n arbitrary: a c) simp_all

lemma cx_movsl [simp]: "cx (movsl n src dst c) = cx c"
  by (induction n arbitrary: src dst c) (simp_all add: movl_def)

lemma cx_lf [simp]: "cx (lf c) = cx c"
  by (simp add: lf_def scrup_def scrup_region_def set_origin_def outb_p_def Let_def)

lemma forward_ok:
  assumes "con_ok c" "unat (cx c) + k \<le> unat (video_num_columns c)"
  shows "con_ok (c\<lparr>pos := pos c + of_nat (2 * k), cx := cx c + of_nat k\<rparr>)"
proof -
  note f = con_ok_facts [OF assms(1)]
  have "unat (pos c + of_nat (2 * k)) = unat (pos c) + 2 * k"
    by (rule unat_plus_lt) (use f assms(2) in linarith)
  moreover have "unat (cx c + of_nat k) = unat (cx c) + k"
    by (rule unat_plus_lt) (use f assms(2) in linarith)
  ultimately show ?thesis using assms by (simp add: con_ok_def Let_def)
qed

lemma put_glyph_safe:
  assumes "con_ok c"
  shows "safe c (put_glyph ch c)"
proof -
  let ?d = "if video_num_columns c \<le> cx c then wrap_line c else c"
  note f = con_ok_facts [OF assms]
  have d: "safe c ?d \<and> cx ?d < video_num_columns ?d"
  proof (cases "video_num_columns c \<le> cx c")
    case True
    then have x: "cx c = video_num_columns c" using f(6) by (simp add: word_le_nat_alt word_unat_eq_iff)
    let ?e = "c\<lparr>cx := cx c - video_num_columns c, pos := pos c - video_size_row c\<rparr>"
    have e: "con_ok ?e" using f(5) x by (intro wrap_ok [OF assms]) simp_all
    then have "safe c ?e" by (intro safe_same) simp_all
    moreover have "safe ?e (wrap_line c)" using e by (rule wrap_line_safe) simp_all
    ultimately have s: "safe c (wrap_line c)" by (rule safe_trans)
    have "cx (wrap_line c) = 0" using x by (simp add: wrap_line_def)
    then show ?thesis using s True f(8) by (simp add: safe_def geometry_def word_less_nat_alt)
  next
    case False
    then show ?thesis using assms by (simp add: safe_refl)
  qed
  let ?v = "ucast ch OR push_bit 8 (ucast (attr ?d))"
  let ?e = "put16 (pos ?d) ?v ?d"
  have ok: "con_ok ?d" using d safe_con_ok by blast
  note g = con_ok_facts [OF ok] and b = pos_bounds [OF ok]
  have x: "unat (cx ?d) + 1 \<le> unat (video_num_columns ?d)" using d by (simp add: word_less_nat_alt Suc_le_eq)
  have w: "writes (unat (origin ?d)) (unat (video_mem_end ?d)) ?d ?e"
    by (rule writes_put16) (use b g(2) x in linarith)+
  then have e: "safe ?d ?e" by (rule screen_safe [OF ok])
  obtain m where m: "?e = ?d\<lparr>vmem := m\<rparr>" using w by (rule writesE)
  have "con_ok (?e\<lparr>pos := pos ?e + 2, cx := cx ?e + 1\<rparr>)"
    using forward_ok [OF safe_con_ok [OF e], of 1] x unfolding m by simp
  then have "safe ?e (?e\<lparr>pos := pos ?e + 2, cx := cx ?e + 1\<rparr>)" by (intro safe_same) simp_all
  then show ?thesis using d e unfolding put_glyph_def Let_def by (blast intro: safe_trans)
qed

text \<open>The code outside the repository that the console calls keeps to the screen as well.\<close>

definition polite :: "con_ext \<Rightarrow> bool" where
  "polite e \<longleftrightarrow> (\<forall>c. con_ok c \<longrightarrow> safe c (sysbeep e c) \<and> safe c (copy_to_cooked e c))"

lemma tab_safe:
  assumes "con_ok c"
  defines "d \<equiv> 8 - (cx c AND 7)"
  defines "t \<equiv> c\<lparr>cx := cx c + d, pos := pos c + push_bit 1 d\<rparr>"
  shows "safe c (if video_num_columns t < cx t then wrap_line t else t)"
proof -
  note f = con_ok_facts [OF assms(1)]
  have "cx c AND 7 \<le> 7" by (rule word_and_le1)
  then have m: "unat (cx c AND 7) \<le> 7" by (simp add: word_le_nat_alt)
  have d: "unat d = 8 - unat (cx c AND 7)" unfolding d_def using m by (subst unat_sub_small) simp_all
  obtain k where k: "unat d = k" "k \<le> 8" using d by simp
  then have dk: "d = of_nat k" by (simp flip: k(1))
  have p: "pos c + push_bit 1 d = pos c + of_nat (2 * k)" by (simp add: dk push_bit_eq_mult)
  have up: "unat (pos c + of_nat (2 * k)) = unat (pos c) + 2 * k"
    by (rule unat_plus_lt) (use f k(2) in linarith)
  have ux: "unat (cx c + d) = unat (cx c) + k"
    unfolding dk by (rule unat_plus_lt) (use f k(2) in linarith)
  show ?thesis
  proof (cases "video_num_columns t < cx t")
    case True
    have cols: "unat (video_num_columns c) < unat (cx c) + k" using True ux by (simp add: t_def word_less_nat_alt)
    have "con_ok (c\<lparr>cx := (cx c + d) - video_num_columns c, pos := (pos c + push_bit 1 d) - video_size_row c\<rparr>)"
      by (rule wrap_ok [OF assms(1)]) (use cols k(2) f(5,6) ux up p in \<open>simp_all\<close>)
    moreover have "c\<lparr>cx := (cx c + d) - video_num_columns c, pos := (pos c + push_bit 1 d) - video_size_row c\<rparr> =
        t\<lparr>cx := cx t - video_num_columns t, pos := pos t - video_size_row t\<rparr>" by (simp add: t_def)
    ultimately have e: "con_ok (t\<lparr>cx := cx t - video_num_columns t, pos := pos t - video_size_row t\<rparr>)" by simp
    then have "safe c (t\<lparr>cx := cx t - video_num_columns t, pos := pos t - video_size_row t\<rparr>)"
      by (intro safe_same) (simp_all add: t_def)
    then show ?thesis using wrap_line_safe [OF e] True safe_trans by simp
  next
    case False
    then have "unat (cx c) + k \<le> unat (video_num_columns c)" using ux by (simp add: t_def not_less word_le_nat_alt)
    then have "con_ok (c\<lparr>pos := pos c + of_nat (2 * k), cx := cx c + of_nat k\<rparr>)" by (rule forward_ok [OF assms(1)])
    then have "con_ok t" unfolding t_def p by (simp add: con_ok_def dk)
    then show ?thesis using False by (simp, intro safe_same) (simp_all add: t_def)
  qed
qed

lemma con_plain_safe:
  assumes "con_ok c" "polite e"
  shows "safe c (con_plain e ch c)"
proof -
  have bs: "safe c (if cx c \<noteq> 0 then c\<lparr>cx := cx c - 1, pos := pos c - 2\<rparr> else c)"
    using back_ok(1) [OF assms(1)] safe_refl [OF assms(1)] by (auto intro: safe_same)
  have "safe c (sysbeep e c)" using assms by (simp add: polite_def)
  then show ?thesis unfolding con_plain_def Let_def
    using put_glyph_safe [OF assms(1)] lf_safe [OF assms(1)] cr_safe [OF assms(1)] del_safe [OF assms(1)]
      tab_safe [OF assms(1)] bs safe_refl [OF assms(1)]
    by (simp split del: if_split) (simp split: if_split)
qed

lemma con_escape_safe:
  assumes "con_ok c" "polite e"
  shows "safe c (con_escape e ch c)"
proof -
  let ?c = "c\<lparr>esc_state := 0\<rparr>"
  have c: "con_ok ?c" using assms(1) by simp
  then have r: "safe c ?c" by (intro safe_same) simp_all
  have t: "safe c d" if "safe ?c d" for d using safe_trans [OF r that] .
  have "safe ?c (respond e ?c)"
  proof -
    let ?d = "?c\<lparr>con_tty := (con_tty ?c)\<lparr>read_q := fold PUTCH RESPONSE (read_q (con_tty ?c))\<rparr>\<rparr>"
    have "safe ?c ?d" using c by (intro safe_same) simp_all
    moreover have "safe ?d (copy_to_cooked e ?d)" using assms(2) c by (simp add: polite_def)
    ultimately show ?thesis unfolding respond_def by (rule safe_trans)
  qed
  moreover have "safe ?c (save_cur ?c)" using c by (intro safe_same) (simp_all add: save_cur_def con_ok_def)
  moreover have "safe ?c (restore_cur ?c)" unfolding restore_cur_def using c by (rule gotoxy_safe)
  ultimately show ?thesis unfolding con_escape_def Let_def
    using gotoxy_safe [OF c] ri_safe [OF c] lf_safe [OF c] r t by (simp split: if_split)
qed

lemma par_safe:
  assumes "con_ok c"
  shows "safe c (set_par i v c)" "safe c (dec_par i c)" "safe c (inc_par i c)"
  using assms by (auto intro: safe_same simp: set_par_def dec_par_def inc_par_def safe_refl)

lemma set_region_safe:
  assumes "con_ok c"
  shows "safe c (set_region c)"
proof -
  let ?c = "dec_par 0 c" let ?d = "if par ?c 1 = 0 then set_par 1 (video_num_lines ?c) ?c else ?c"
  have c: "safe c ?c" using par_safe(2) [OF assms] .
  have d: "safe ?c ?d" using par_safe(1) [OF safe_con_ok [OF c]] safe_refl [OF safe_con_ok [OF c]] by simp
  have cd: "safe c ?d" using safe_trans [OF c d] .
  then have ok: "con_ok ?d" by (rule safe_con_ok)
  have "safe ?d (?d\<lparr>scr_top := par ?d 0, scr_bottom := par ?d 1\<rparr>)"
    if "par ?d 0 < par ?d 1 \<and> par ?d 1 \<le> video_num_lines ?d"
    using that con_ok_region [OF ok] by (intro safe_same) simp_all
  then show ?thesis unfolding set_region_def Let_def using cd safe_trans [OF cd] by (simp split: if_split)
qed

lemma csi_final_safe:
  assumes "con_ok c"
  shows "safe c (csi_final ch c)"
proof -
  let ?c = "c\<lparr>esc_state := 0\<rparr>"
  have c: "con_ok ?c" using assms(1) by simp
  then have r: "safe c ?c" by (intro safe_same) simp_all
  have t: "safe c d" if "safe ?c d" for d using safe_trans [OF r that] .
  have gd: "safe c (gotoxy x y (dec_par 0 ?c))" "safe c (gotoxy x y (inc_par 0 ?c))"
    "safe c (gotoxy x y (dec_par 1 (dec_par 0 ?c)))" for x y
    using par_safe(2,3) [OF c] safe_con_ok par_safe(2) gotoxy_safe safe_trans t by meson+
  have p: "safe c (csi_at n ?c)" "safe c (csi_L n ?c)" "safe c (csi_P n ?c)" "safe c (csi_M n ?c)" for n
    unfolding csi_at_def csi_L_def csi_P_def csi_M_def
    using t safe_power [OF c insert_char_safe] safe_power [OF c insert_line_safe] safe_power [OF c delete_char_safe]
      safe_power [OF c delete_line_safe] by simp_all
  have "safe c (save_cur ?c)" using c by (intro safe_same) (simp_all add: save_cur_def con_ok_def)
  moreover have "safe c (restore_cur ?c)" unfolding restore_cur_def using t gotoxy_safe [OF c] by blast
  moreover have "safe c (csi_m ?c)" "safe c (set_region ?c)" "safe c (csi_J n ?c)" "safe c (csi_K n ?c)" for n
    using t csi_m_safe [OF c] set_region_safe [OF c] csi_J_safe [OF c] csi_K_safe [OF c] by blast+
  ultimately show ?thesis unfolding csi_final_def Let_def using gd p r by (simp split del: if_split) (simp split: if_split)
qed

lemma csi_param_safe:
  assumes "con_ok c"
  shows "safe c (csi_param ch c)"
proof -
  have n: "safe c (c\<lparr>npar := npar c + 1\<rparr>)" if "npar c < NPAR - 1"
  proof -
    have "npar c + 1 < NPAR" using that unfolding NPAR_def by (simp add: word_less_nat_alt unat_word_ariths)
    then have "con_ok (c\<lparr>npar := npar c + 1\<rparr>)" using assms by (simp add: con_ok_def Let_def)
    then show ?thesis by (intro safe_same) simp_all
  qed
  have "safe c (csi_final ch (c\<lparr>esc_state := 4\<rparr>))"
    using csi_final_safe [of "c\<lparr>esc_state := 4\<rparr>" ch] assms by (simp add: safe_def)
  then show ?thesis unfolding csi_param_def using n par_safe(1) [OF assms] by (simp split: if_split)
qed

lemma csi_start_safe:
  assumes "con_ok c"
  shows "safe c (csi_start ch c)"
proof -
  let ?c = "c\<lparr>par := (\<lambda>i. if i < unat NPAR then 0 else par c i), npar := 0, esc_state := 3, ques := (ch = 63)\<rparr>"
  have "con_ok ?c" using assms by (simp add: con_ok_def NPAR_def Let_def)
  moreover from this have "safe c ?c" by (intro safe_same) simp_all
  ultimately have "safe c (csi_param ch ?c)" using csi_param_safe safe_trans by blast
  then show ?thesis unfolding csi_start_def Let_def using \<open>safe c ?c\<close> by (simp only: split: if_split) simp
qed

lemma con_char_safe: "con_ok c \<Longrightarrow> polite e \<Longrightarrow> safe c (con_char e ch c)"
  unfolding con_char_def
  using con_plain_safe con_escape_safe csi_start_safe csi_param_safe csi_final_safe safe_refl by (simp split: if_split)

lemma con_write_loop_safe:
  assumes "polite e"
  shows "con_ok c \<Longrightarrow> safe c (con_write_loop n e c)"
proof (induction n arbitrary: c)
  case (Suc n)
  obtain ch q where g: "GETCH (write_q (con_tty c)) = (ch, q)" by fastforce
  let ?c = "c\<lparr>con_tty := (con_tty c)\<lparr>write_q := q\<rparr>\<rparr>"
  have ok: "con_ok ?c" using Suc.prems by simp
  have "safe c ?c" using ok by (intro safe_same) simp_all
  moreover have s: "safe ?c (con_char e ch ?c)" using con_char_safe [OF ok assms] .
  moreover have "safe (con_char e ch ?c) (con_write_loop n e (con_char e ch ?c))"
    using Suc.IH [OF safe_con_ok [OF s]] .
  moreover have "con_write_loop (Suc n) e c = con_write_loop n e (con_char e ch ?c)" using g by simp
  ultimately show ?case using safe_trans by metis
qed (simp add: safe_refl)


subsection \<open>The properties\<close>

text \<open>
  C30: whatever bytes are written to the console, in whatever state of an escape sequence, the
  cursor stays on the screen, the screen stays inside video memory and the scrolling region
  stays a region of the screen (\<open>con_ok\<close>); and no byte outside the video memory of the
  display is changed.
\<close>

theorem con_write_on_screen:
  assumes "con_ok c" and "polite e"
  shows "con_ok (con_write e c) \<and>
    (\<forall>a. vmem (con_write e c) a \<noteq> vmem c a \<longrightarrow> video_mem_start c \<le> a \<and> a < video_mem_end c)"
proof -
  have "safe c (con_write e c)"
    unfolding con_write_def using con_write_loop_safe [OF assms(2,1)] by simp
  then show ?thesis by (simp add: safe_def)
qed

text \<open>The setup of \<^verbatim>\<open>con_init\<close> for the values the boot code leaves.\<close>

lemma put_desc_vmem:
  "\<exists>m. put_desc ds p c = c\<lparr>vmem := m\<rparr> \<and> (\<forall>a. unat p + 2 * length ds < 4294967296 \<longrightarrow> unat a < unat p \<longrightarrow> m a = vmem c a)"
proof (induction ds arbitrary: p c)
  case Nil
  show ?case by (rule exI [of _ "vmem c"]) simp
next
  case (Cons d ds)
  obtain m where m: "put_desc ds (p + 2) (put8 p d c) = (put8 p d c)\<lparr>vmem := m\<rparr>"
    "\<forall>a. unat (p + 2) + 2 * length ds < 4294967296 \<longrightarrow> unat a < unat (p + 2) \<longrightarrow> m a = vmem (put8 p d c) a"
    using Cons.IH by blast
  have "unat (p + 2) = unat p + 2" if "unat p + 2 * length (d # ds) < 4294967296"
    using that unat_plus_lt [of p 2] by simp
  then have "\<forall>a. unat p + 2 * length (d # ds) < 4294967296 \<longrightarrow> unat a < unat p \<longrightarrow> m a = vmem c a"
    using m(2) by (auto simp: put8_def)
  then show ?case using m(1) by (intro exI [of _ m]) (simp add: put8_def)
qed

lemma detect_display_eq:
  obtains desc st rg vl ty en where
    "detect_display c = (desc, c\<lparr>video_mem_start := st, video_port_reg := rg, video_port_val := vl,
       video_type := ty, video_mem_end := en\<rparr>)"
    "length desc = 4" "0xB0000 \<le> unat st" "unat st + 0x2000 \<le> unat en" "unat en \<le> 0xBC000"
proof -
  note give = that and defs = detect_display_def Let_def ORIG_VIDEO_EGA_BX_def get16_def
  consider "ORIG_VIDEO_MODE c = 7" "ORIG_VIDEO_EGA_BX c AND 0xFF = 0x10"
    | "ORIG_VIDEO_MODE c = 7" "ORIG_VIDEO_EGA_BX c AND 0xFF \<noteq> 0x10"
    | "ORIG_VIDEO_MODE c \<noteq> 7" "ORIG_VIDEO_EGA_BX c AND 0xFF = 0x10"
    | "ORIG_VIDEO_MODE c \<noteq> 7" "ORIG_VIDEO_EGA_BX c AND 0xFF \<noteq> 0x10" by blast
  then show thesis
  proof cases
    case 1
    then show thesis
      by (intro give [of "[42, 77, 68, 65]" "0xB2000" VIDEO_TYPE_MDA "0x3B5" "0x3B4" "0xB0000"]) (simp_all add: defs)
  next
    case 2
    then show thesis
      by (intro give [of "[69, 71, 65, 109]" "0xB8000" VIDEO_TYPE_EGAM "0x3B5" "0x3B4" "0xB0000"]) (simp_all add: defs)
  next
    case 3
    then show thesis
      by (intro give [of "[42, 67, 71, 65]" "0xBA000" VIDEO_TYPE_CGA "0x3D5" "0x3D4" "0xB8000"]) (simp_all add: defs)
  next
    case 4
    then show thesis
      by (intro give [of "[69, 71, 65, 99]" "0xBC000" VIDEO_TYPE_EGAC "0x3D5" "0x3D4" "0xB8000"]) (simp_all add: defs)
  qed
qed

text \<open>
  \<^verbatim>\<open>con_init\<close> puts the console into a state with these properties, for every kind of display, when
  the boot code has left a screen of 8 to 160 columns with the cursor on it.
\<close>

theorem con_init_on_screen:
  assumes "8 \<le> unat (ORIG_VIDEO_COLS c)" and "unat (ORIG_VIDEO_COLS c) \<le> 160"
    and "unat (ORIG_X c) \<le> unat (ORIG_VIDEO_COLS c)" and "unat (ORIG_Y c) < 25" and "npar c = 0"
  shows "con_ok (con_init c) \<and> unat (cx (con_init c)) = unat (ORIG_X c) \<and> unat (cy (con_init c)) = unat (ORIG_Y c)"
proof -
  let ?cols = "ucast (ORIG_VIDEO_COLS c) :: u32"
  let ?c0 = "c\<lparr>video_num_columns := ?cols, video_size_row := ?cols * 2, video_num_lines := ORIG_VIDEO_LINES,
     video_page := ucast (ORIG_VIDEO_PAGE c), video_erase_char := 0x0720\<rparr>"
  obtain desc st rg vl ty en where d: "detect_display ?c0 = (desc, ?c0\<lparr>video_mem_start := st, video_port_reg := rg,
       video_port_val := vl, video_type := ty, video_mem_end := en\<rparr>)"
    "length desc = 4" "0xB0000 \<le> unat st" "unat st + 0x2000 \<le> unat en" "unat en \<le> 0xBC000"
    by (rule detect_display_eq [of ?c0])
  let ?c1 = "?c0\<lparr>video_mem_start := st, video_port_reg := rg, video_port_val := vl, video_type := ty, video_mem_end := en\<rparr>"
  let ?p = "st + ?cols * 2 - 8"
  have u: "unat ?cols = unat (ORIG_VIDEO_COLS c)"
    using assms(2) by (simp add: unsigned_ucast_eq take_bit_nat_eq_self)
  have r: "unat (?cols * 2) = 2 * unat ?cols" using u assms(2) unat_mul_small [of ?cols 2] by simp
  have "unat (st + ?cols * 2) = unat st + 2 * unat ?cols" using r u assms(2) d(4,5) unat_add_small [of st "?cols * 2"] by simp
  then have p: "unat ?p = unat st + 2 * unat ?cols - 8"
    using u assms(1) unat_sub_small [of 8 "st + ?cols * 2"] by simp
  obtain m where m: "put_desc desc ?p ?c1 = ?c1\<lparr>vmem := m\<rparr>"
    "\<forall>a. unat ?p + 2 * length desc < 4294967296 \<longrightarrow> unat a < unat ?p \<longrightarrow> m a = vmem ?c1 a"
    using put_desc_vmem by blast
  have low: "m a = vmem c a" if "unat a < 0xB0000" for a
    using m(2) that p d(2-5) u assms(1,2) by simp
  let ?c3 = "?c1\<lparr>vmem := m, origin := st, scr_end := st + ORIG_VIDEO_LINES * (?cols * 2), scr_top := 0, scr_bottom := ORIG_VIDEO_LINES\<rparr>"
  let ?x = "ucast (ORIG_X c) :: u32" and ?y = "ucast (ORIG_Y c) :: u32"
  let ?g = "?c3\<lparr>cx := ?x, cy := ?y, pos := st + ?y * (?cols * 2) + push_bit 1 ?x\<rparr>"
  have xy: "unat ?x = unat (ORIG_X c)" "unat ?y = unat (ORIG_Y c)"
    using assms(2-4) by (simp_all add: unsigned_ucast_eq take_bit_nat_eq_self)
  have b: "\<not> ?cols < ?x" "\<not> ORIG_VIDEO_LINES \<le> ?y"
    using xy u assms(3,4) by (simp_all add: word_less_nat_alt word_le_nat_alt ORIG_VIDEO_LINES_def)
  have go: "gotoxy ?x ?y ?c3 = ?g" using b by (simp add: gotoxy_def)
  have orig: "ORIG_X ?c3 = ORIG_X c" "ORIG_Y ?c3 = ORIG_Y c" by (simp_all add: ORIG_X_def ORIG_Y_def get8_def low)
  have e: "\<exists>w i. con_init c = ?g\<lparr>con_idt := i, con_out := w\<rparr>"
    unfolding con_init_def Let_def d(1) by (simp add: m(1) orig go set_trap_gate_def outb_p_def) (intro exI, rule refl)
  have "unat (ORIG_VIDEO_LINES * (?cols * 2)) = 25 * (2 * unat ?cols)"
    using r u assms(2) unat_mul_small [of ORIG_VIDEO_LINES "?cols * 2"] by (simp add: ORIG_VIDEO_LINES_def)
  then have se: "unat (st + ORIG_VIDEO_LINES * (?cols * 2)) = unat st + 25 * (2 * unat ?cols)"
    using u assms(2) d(4,5) unat_add_small [of st "ORIG_VIDEO_LINES * (?cols * 2)"] by simp
  have row: "unat ?y * (2 * unat ?cols) \<le> 25 * (2 * unat ?cols)" using xy assms(4) by (intro mult_le_mono1) simp
  have "unat (?y * (?cols * 2)) = unat ?y * (2 * unat ?cols)"
  proof -
    have "unat ?y * unat (?cols * 2) < 4294967296" unfolding r using row u assms(2) by linarith
    then show ?thesis using unat_mul_small r by metis
  qed
  then have "unat (st + ?y * (?cols * 2)) = unat st + unat ?y * (2 * unat ?cols)"
    using row u assms(2) d(4,5) unat_add_small [of st "?y * (?cols * 2)"] by linarith
  moreover have "unat (push_bit 1 ?x) = 2 * unat ?x" using xy u assms(2,3) by (intro unat_push1) linarith
  ultimately have po: "unat (st + ?y * (?cols * 2) + push_bit 1 ?x) = unat st + unat ?y * (2 * unat ?cols) + 2 * unat ?x"
    using row u xy assms(2,3) d(4,5) unat_add_small [of "st + ?y * (?cols * 2)" "push_bit 1 ?x"] by linarith
  have "con_ok ?g" unfolding con_ok_def Let_def
    using po se xy u r assms d(3-5) by (simp add: ORIG_VIDEO_LINES_def NPAR_def)
  then show ?thesis using e xy by (auto simp: con_ok_def)
qed

definition demo_con :: console where
  "demo_con = \<lparr>vmem = (\<lambda>_. 0)(0x90000 := 79, 0x90001 := 24, 0x90006 := 3, 0x90007 := 80), con_out = [], con_in = (\<lambda>_. 0),
     con_idt = (\<lambda>_. None), con_tty = \<lparr>tty_termios = \<lparr>c_iflag = 0, c_oflag = 0, c_cflag = 0, c_lflag = 0, c_line = 0, c_cc = (\<lambda>_. 0)\<rparr>,
       tty_pgrp_id = 0, stopped = 0, read_q = demo_tq, write_q = demo_tq, secondary = demo_tq\<rparr>,
     video_type = 0, video_num_columns = 0, video_size_row = 0, video_num_lines = 0, video_page = 0, video_mem_start = 0,
     video_mem_end = 0, video_port_reg = 0, video_port_val = 0, video_erase_char = 0, origin = 0, scr_end = 0, pos = 0,
     cx = 0, cy = 0, scr_top = 0, scr_bottom = 0, esc_state = 0, npar = 0, par = (\<lambda>_. 0), ques = False, attr = 7,
     saved_x = 0, saved_y = 0\<rparr>"

lemma demo_con_orig: "ORIG_VIDEO_COLS demo_con = 80" "ORIG_X demo_con = 79" "ORIG_Y demo_con = 24" "npar demo_con = 0"
  by (simp_all add: ORIG_VIDEO_COLS_def ORIG_X_def ORIG_Y_def get8_def get16_def demo_con_def)

theorem con_init_on_screen_witness: "con_ok (con_init demo_con) \<and> unat (cx (con_init demo_con)) = 79"
  using con_init_on_screen [of demo_con] by (simp add: demo_con_orig)

definition demo_ext :: con_ext where
  "demo_ext = \<lparr>sysbeep = (\<lambda>c. c), copy_to_cooked = (\<lambda>c. c)\<rparr>"

definition demo_screen :: console where
  "demo_screen = demo_con\<lparr>con_tty := (con_tty demo_con)\<lparr>write_q := PUTCH 10 (PUTCH 65 demo_tq)\<rparr>, video_type := VIDEO_TYPE_CGA,
     video_num_columns := 80, video_size_row := 160, video_num_lines := 25, video_mem_start := 0xB8000, video_mem_end := 0xBA000,
     origin := 0xB8000, scr_end := 0xB8FA0, pos := 0xB8FA0, cx := 80, cy := 24, scr_top := 0, scr_bottom := 25\<rparr>"

theorem con_write_on_screen_witness:
  "con_ok (con_write demo_ext demo_screen) \<and> vmem (con_write demo_ext demo_screen) 0x90000 = 79"
proof -
  have "con_ok demo_screen" by (simp add: con_ok_def demo_screen_def demo_con_def NPAR_def)
  moreover have "polite demo_ext" by (simp add: polite_def demo_ext_def safe_refl)
  moreover have v: "vmem demo_screen 0x90000 = 79" "\<not> video_mem_start demo_screen \<le> 0x90000"
    by (simp_all add: demo_screen_def demo_con_def word_le_nat_alt)
  ultimately have "con_ok (con_write demo_ext demo_screen)"
    "vmem (con_write demo_ext demo_screen) 0x90000 = vmem demo_screen 0x90000"
    using con_write_on_screen [of demo_screen demo_ext] by blast+
  then show ?thesis using v(1) by simp
qed

end
