(* ===== verification/Main_Init.thy ===== *)
theory Main_Init
  imports Traps Serial Startup Buffer_Cache Hd Floppy Console_Safe
begin

text \<open>
  The start of the kernel: \<^verbatim>\<open>main()\<close> of \<^verbatim>\<open>init/main.c\<close> as the composition of the initializations of the components, up to
  \<^verbatim>\<open>sti()\<close>, and the theorem that it establishes the invariants that the components keep. The values the boot code
  leaves, \<^verbatim>\<open>ORIG_ROOT_DEV\<close> and \<^verbatim>\<open>EXT_MEM_K\<close>, are arguments; \<^verbatim>\<open>RAMDISK\<close> is not defined. The table \<^verbatim>\<open>drive_info\<close> is the
  argument of \<open>sys_setup\<close>.
\<close>


subsection \<open>The initialization\<close>

text \<open>The two gates of \<^verbatim>\<open>sched_init\<close>; \<open>chr_dev_init\<close> is empty in the sources.\<close>

definition sched_gates :: "'a io_state_scheme \<Rightarrow> 'a io_state_scheme" where
  "sched_gates s = set_system_gate 0x80 ''system_call'' (set_intr_gate 0x20 ''timer_interrupt'' s)"

definition chr_dev_init :: "'a io_state_scheme \<Rightarrow> 'a io_state_scheme" where
  "chr_dev_init s = s"

definition main_init ::
  "u16 \<Rightarrow> u16 \<Rightarrow> (nat \<Rightarrow> tty_struct) \<Rightarrow> nat \<Rightarrow> (nat \<Rightarrow> nat \<Rightarrow> u8) \<Rightarrow> (nat \<Rightarrow> u8) \<Rightarrow>
   'a io_state_scheme \<times> console \<Rightarrow> ('a io_state_scheme \<times> console) option" where
  "main_init orig_root_dev ext_mem_k tty_table n cmos cmos' = (\<lambda>(s, c).
     let s = s\<lparr>ROOT_DEV := orig_root_dev\<rparr>;
         s = mem_init (of_int (main_memory_start ext_mem_k)) (of_int (memory_end ext_mem_k)) s;
         s = trap_init s;
         s = blk_dev_init s;
         s = chr_dev_init s
     in case tty_init tty_table (s, c) of (s, c) \<Rightarrow>
        (case start_clock n cmos cmos' s of
           None \<Rightarrow> None
         | Some s \<Rightarrow>
             let s = sched_gates (sched_init s);
                 s = buffer_init (of_int (buffer_memory_end ext_mem_k)) s;
                 s = hd_init s
             in Some (floppy_init s, c)))"


subsection \<open>What the devices' initialization leaves alone\<close>

definition only_ports :: "'a io_state_scheme \<Rightarrow> 'a io_state_scheme \<Rightarrow> bool" where
  "only_ports s t \<longleftrightarrow> t = s\<lparr>idt := idt t, io_clock := io_clock t, out_ports := out_ports t\<rparr>"

lemma only_ports_refl: "only_ports s s"
  by (simp add: only_ports_def)

lemma only_ports_step:
  assumes "only_ports s t"
  shows "only_ports s (set_intr_gate n h t)" "only_ports s (Port_Io.set_trap_gate n h t)" "only_ports s (set_system_gate n h t)"
    "only_ports s (outb v p t)" "only_ports s (snd (inb p t))"
  using assms by (cases s, cases t, simp add: only_ports_def set_intr_gate_def Port_Io.set_trap_gate_def set_system_gate_def outb_def inb_def)+

lemma only_ports_idt: "only_ports s t \<Longrightarrow> only_ports s (t\<lparr>idt := i\<rparr>)"
  by (cases s, cases t) (simp add: only_ports_def)

lemma only_ports_fold: "only_ports s t \<Longrightarrow> only_ports s (fold (\<lambda>i. Port_Io.set_trap_gate i h) ns t)"
  by (induction ns arbitrary: t) (auto intro: only_ports_step)

lemmas only_ports_intros = only_ports_refl only_ports_step only_ports_fold

lemma only_ports_inits:
  "only_ports s (trap_init s)" "only_ports s (rs_init tt s)" "only_ports s (sched_gates s)"
  "only_ports (s\<lparr>request_fn := (request_fn s)(3 := True)\<rparr>) (hd_init s)"
  "only_ports (s\<lparr>request_fn := (request_fn s)(2 := True)\<rparr>) (floppy_init s)"
  unfolding trap_init_def rs_init_def Serial.init_def sched_gates_def hd_init_def floppy_init_def Let_def case_prod_beta
  by (intro only_ports_intros)+


lemma only_ports_fields:
  assumes "only_ports s t"
  shows "mem_map t = mem_map s" "HIGH_MEMORY t = HIGH_MEMORY s" "task t = task s" "tasks t = tasks s" "init_task t = init_task s"
    "current t = current s" "startup_time t = startup_time s" "request_table t = request_table s" "current_request t = current_request s"
    "request_fn t = request_fn s" "start_buffer t = start_buffer s" "nr_buffers t = nr_buffers s" "buffers t = buffers s"
    "hash_table t = hash_table s" "free_list t = free_list s" "ROOT_DEV t = ROOT_DEV s" "wait_head t = wait_head s"
  by (subst assms [unfolded only_ports_def], simp)+


lemma con_init_idt: "con_idt (con_init c) = (con_idt c)(0x21 := Some (15, 0, ''keyboard_interrupt''))"
proof -
  have p: "con_idt (put_desc ds a d) = con_idt d" for ds a d by (induction ds arbitrary: a d) (simp_all add: put8_def)
  have g: "con_idt (gotoxy x y d) = con_idt d" for x y d by (simp add: gotoxy_def)
  have d: "con_idt (snd (detect_display d)) = con_idt d" for d by (simp add: detect_display_def Let_def)
  show ?thesis
    unfolding con_init_def Let_def case_prod_beta by (simp add: p g d outb_p_def Console.set_trap_gate_def)
qed


subsection \<open>The map of pages\<close>

lemma clear_map_eq: "clear_map n i m = (\<lambda>k. if i \<le> k \<and> k < i + n then 0 else m k)"
  by (induction n arbitrary: i m) (auto simp: fun_eq_iff)

lemma mem_init_map:
  assumes "unat start = 0x100000 + 4096 * a" "unat finish = 0x100000 + 4096 * b" "a \<le> b" "b \<le> PAGING_PAGES" "k < PAGING_PAGES"
  shows "mem_map (mem_init start finish s) k = (if a \<le> k \<and> k < b then 0 else USED)"
proof -
  have b: "b \<le> 3840" using assms(4) by (simp add: PAGING_PAGES_eq)
  have le: "LOW_MEM \<le> start" "start \<le> finish" using assms(1-3) by (simp_all add: word_le_nat_alt unat_LOW_MEM)
  have "unat (start - LOW_MEM) = 4096 * a" using assms(1) le(1) by (simp add: unat_sub unat_LOW_MEM)
  then have i: "MAP_NR start = a" by (simp add: MAP_NR_def unat_drop_bit_eq) (simp add: drop_bit_eq_div)
  have "unat (finish - start) = 4096 * (b - a)" using assms(1,2) le(2) by (simp add: unat_sub diff_mult_distrib2)
  moreover from this have small: "uint (finish - start) < 2 ^ 31" using b by (simp add: uint_nat del: unat_of_nat)
  have "sint (finish - start) = uint (finish - start)"
    unfolding sint_uint by (rule signed_take_bit_int_eq_self, rule order_trans [OF _ uint_nonnegative]) (use small in simp_all)
  then have "sint (finish - start) = int (unat (finish - start))" by (simp only: uint_nat)
  ultimately have "sint (signed_drop_bit 12 (finish - start)) = int (b - a)"
    by (simp add: sint_signed_drop_bit_eq drop_bit_eq_div)
  moreover have "nat (int (b - a)) = b - a" by simp
  ultimately show ?thesis using i assms(3,5) unfolding mem_init_def Let_def clear_map_eq by (simp only: add_diff_inverse_nat not_less) simp
qed


subsection \<open>The buffer cache\<close>

lemma init_heads_pos: "unat start + 36 + 1024 \<le> b \<Longrightarrow> 0 < init_heads start b 0"
proof -
  have mono: "n \<le> init_heads start b n" for b n
    by (induction start b n rule: init_heads.induct) (subst init_heads.simps, auto)
  assume "unat start + 36 + 1024 \<le> b"
  then have "1024 \<le> b" "unat start + 36 * (0 + 1) \<le> b - 1024" by simp_all
  then have "init_heads start b 0 = init_heads start (if b - 1024 = 0x100000 then 0xA0000 else b - 1024) 1"
    by (subst init_heads.simps) simp
  also have "1 \<le> \<dots>" by (rule mono)
  finally show ?thesis by simp
qed

lemma buffer_init_ok:
  assumes "unat (start_buffer s) + 36 + 1024 \<le> 0xA0000" "0x100000 \<le> unat buffer_end"
  shows "cache_ok (buffer_init buffer_end s)"
proof -
  let ?t = "buffer_init buffer_end s"
  define n where "n = init_heads (start_buffer s) (if buffer_end = push_bit 20 1 then 640 * 1024 else unat buffer_end) 0"
  have n: "nr_buffers ?t = n" "0 < n" using assms by (auto simp: buffer_init_def Let_def n_def intro!: init_heads_pos)
  have head: "b_dev (buffers ?t b) = 0 \<and> b_next (buffers ?t b) = None \<and> b_prev (buffers ?t b) = None \<and>
      b_prev_free (buffers ?t b) = Some (if b = 0 then n - 1 else b - 1) \<and> b_next_free (buffers ?t b) = Some (if b = n - 1 then 0 else b + 1)"
    if "b < n" for b
    using that by (simp add: buffer_init_def Let_def n_def)
  have "hash_table ?t h = None" if "h < NR_HASH" for h using that by (simp add: buffer_init_def Let_def)
  then have "chains_ok (buffers ?t) (hash_table ?t) n (\<lambda>_. [])" using head by (auto simp: chains_ok_def)
  moreover have "free_ring ?t [0..<n]"
  proof -
    have "free_list ?t = 0" by (simp add: buffer_init_def Let_def)
    moreover have "ring (next_free ?t) (prev_free ?t) [0..<n]"
      unfolding ring_iff using n(2) head by (auto simp: linked_def successively_conv_nth)
    ultimately show ?thesis using n by (auto simp: free_ring_def)
  qed
  ultimately show ?thesis using n by (auto simp: cache_ok_def)
qed


subsection \<open>The task table\<close>

lemma fold_clear_slot: "task (fold clear_slot is s) = (\<lambda>i. if i \<in> set is then 0 else task s i)"
  by (induction "is" arbitrary: s) (auto simp: clear_slot_def fun_eq_iff)

definition only_table :: "'a sched_state_scheme \<Rightarrow> 'a sched_state_scheme \<Rightarrow> bool" where
  "only_table s t \<longleftrightarrow> t = s\<lparr>task := task t, gdt := gdt t, out_ports := out_ports t\<rparr>"

lemma only_table_intros:
  "only_table s s" "only_table s t \<Longrightarrow> only_table s (outb v p t)" "only_table s t \<Longrightarrow> only_table s (set_tssldt_desc n a ty t)"
  "only_table s t \<Longrightarrow> only_table s (clear_slot i t)"
  by (cases s, cases t, simp add: only_table_def outb_def set_tssldt_desc_def clear_slot_def)+

lemma only_table_fold: "only_table s t \<Longrightarrow> only_table s (fold clear_slot is t)"
  by (induction "is" arbitrary: t) (auto intro: only_table_intros)

lemma only_table_init: "only_table s (sched_init s)"
  unfolding sched_init_def Let_def by (intro only_table_intros only_table_fold)

lemma sched_init_fields:
  "mem_map (sched_init s) = mem_map s" "HIGH_MEMORY (sched_init s) = HIGH_MEMORY s" "request_table (sched_init s) = request_table s"
  "current_request (sched_init s) = current_request s" "start_buffer (sched_init s) = start_buffer s"
  "startup_time (sched_init s) = startup_time s"
  by (subst only_table_init [unfolded only_table_def], simp)+

lemma buffer_init_fields:
  "mem_map (buffer_init v s) = mem_map s" "HIGH_MEMORY (buffer_init v s) = HIGH_MEMORY s" "task (buffer_init v s) = task s"
  "request_table (buffer_init v s) = request_table s" "current_request (buffer_init v s) = current_request s"
  "startup_time (buffer_init v s) = startup_time s"
  by (simp_all add: buffer_init_def Let_def)

lemma blk_dev_init_fields:
  "mem_map (blk_dev_init s) = mem_map s" "HIGH_MEMORY (blk_dev_init s) = HIGH_MEMORY s" "task (blk_dev_init s) = task s"
  "current_request (blk_dev_init s) = current_request s" "start_buffer (blk_dev_init s) = start_buffer s"
  by (simp_all add: blk_dev_init_def)

lemma mem_init_fields:
  "HIGH_MEMORY (mem_init u v s) = v" "task (mem_init u v s) = task s" "current_request (mem_init u v s) = current_request s"
  "start_buffer (mem_init u v s) = start_buffer s"
  by (simp_all add: mem_init_def Let_def)

lemmas init_fields = sched_init_fields buffer_init_fields blk_dev_init_fields mem_init_fields

lemma sched_init_task: "task (sched_init s) i = (if 0 < i \<and> i < NR_TASKS then 0 else task s i)"
  by (simp add: sched_init_def Let_def outb_def fold_clear_slot set_tssldt_desc_def)


subsection \<open>The invariants hold when \<open>main\<close> is done\<close>

text \<open>
  What the boot code leaves: task 0 in its slot, the kernel well below 640 KB, no interrupt gate that user programs may
  use, no request for a device, and a screen of 8 to 160 columns with the cursor on it.
\<close>

definition booted :: "'a io_state_scheme \<Rightarrow> console \<Rightarrow> bool" where
  "booted s c \<longleftrightarrow> task s 0 \<noteq> 0 \<and> unat (start_buffer s) + 36 + 1024 \<le> 0xA0000 \<and> (\<forall>n ty h. idt s n \<noteq> Some (ty, 3, h)) \<and>
     (\<forall>m. current_request s m = None) \<and> 8 \<le> unat (ORIG_VIDEO_COLS c) \<and> unat (ORIG_VIDEO_COLS c) \<le> 160 \<and>
     unat (ORIG_X c) \<le> unat (ORIG_VIDEO_COLS c) \<and> unat (ORIG_Y c) < 25 \<and> npar c = 0"

lemma memory_numbers:
  obtains a b where "memory_end k = 0x100000 + 4096 * int b" "main_memory_start k = 0x100000 + 4096 * int a" "a \<le> b" "b \<le> PAGING_PAGES"
    "buffer_memory_end k = main_memory_start k" "0x100000 \<le> buffer_memory_end k" "buffer_memory_end k \<le> 0x400000"
proof -
  have m: "memory_end k \<le> 0x1000000" "memory_end k mod 4096 = 0" "main_memory_start k mod 4096 = 0"
    "0x100000 \<le> buffer_memory_end k" "buffer_memory_end k \<le> 0x400000" "main_memory_start k \<le> memory_end k"
    using memory_division [of k] by blast+
  have bs: "buffer_memory_end k = main_memory_start k" by (simp add: main_memory_start_def)
  have ex: "\<exists>n. v = 0x100000 + 4096 * int n" if "v mod 4096 = 0" "0x100000 \<le> v" for v :: int
  proof -
    obtain q where "v = 4096 * q" using \<open>v mod 4096 = 0\<close> by auto
    then show ?thesis using \<open>0x100000 \<le> v\<close> by (intro exI [of _ "nat (q - 256)"]) simp
  qed
  obtain a where a: "main_memory_start k = 0x100000 + 4096 * int a" using ex [of "main_memory_start k"] m(3,4) bs by auto
  obtain b where b: "memory_end k = 0x100000 + 4096 * int b" using ex [of "memory_end k"] m(2,4,6) bs by auto
  show thesis by (rule that [OF b a]) (use a b m bs in \<open>simp_all add: PAGING_PAGES_eq\<close>)
qed

lemma main_init_steps:
  assumes "main_init rd k tt n cmos cmos' (s, c) = Some (t, c')"
  obtains s1 v where "only_ports (blk_dev_init (trap_init (mem_init (of_int (main_memory_start k)) (of_int (memory_end k)) (s\<lparr>ROOT_DEV := rd\<rparr>)))) s1"
    "c' = con_init (c\<lparr>con_idt := idt (rs_init tt (blk_dev_init (trap_init (mem_init (of_int (main_memory_start k)) (of_int (memory_end k)) (s\<lparr>ROOT_DEV := rd\<rparr>)))))\<rparr>)"
    "start_clock n cmos cmos' s1 = Some (s1\<lparr>startup_time := v\<rparr>)"
    "t = floppy_init (hd_init (buffer_init (of_int (buffer_memory_end k)) (sched_gates (sched_init (s1\<lparr>startup_time := v\<rparr>)))))"
    "idt s1 = (idt (rs_init tt (blk_dev_init (trap_init (mem_init (of_int (main_memory_start k)) (of_int (memory_end k)) (s\<lparr>ROOT_DEV := rd\<rparr>))))))
      (0x21 := Some (15, 0, ''keyboard_interrupt''))"
proof -
  let ?r = "rs_init tt (blk_dev_init (trap_init (mem_init (of_int (main_memory_start k)) (of_int (memory_end k)) (s\<lparr>ROOT_DEV := rd\<rparr>))))"
  let ?s1 = "?r\<lparr>idt := (idt ?r)(0x21 := Some (15, 0, ''keyboard_interrupt''))\<rparr>"
  have "only_ports (blk_dev_init (trap_init (mem_init (of_int (main_memory_start k)) (of_int (memory_end k)) (s\<lparr>ROOT_DEV := rd\<rparr>)))) ?s1"
    by (rule only_ports_idt [OF only_ports_inits(2)])
  moreover have "idt ?s1 = (idt ?r)(0x21 := Some (15, 0, ''keyboard_interrupt''))" by simp
  ultimately show thesis using assms that [of ?s1]
    by (auto simp: main_init_def tty_init_def chr_dev_init_def Let_def start_clock_def con_init_idt split: option.splits)
qed

lemma main_init_idt:
  assumes "main_init rd k tt n cmos cmos' (s, c) = Some (t, c')"
  shows "idt t v = (if v = 0x80 then Some (15, 3, ''system_call'') else if v \<in> {0x20, 0x21, 0x23, 0x24, 0x26, 0x2E} then idt t v
    else if v < 48 then Some (15, if v \<in> {3, 4, 5} then 3 else 0, trap_label v) else idt s v)"
    "v \<in> {0x20, 0x21, 0x23, 0x24, 0x26, 0x2E} \<Longrightarrow> \<exists>ty h. idt t v = Some (ty, 0, h)"
proof -
  have g: "idt (set_intr_gate m h u) = (idt u)(m := Some (14, 0, h))" for m h and u :: "'a io_state_scheme"
    by (simp add: set_intr_gate_def)
  have keep: "idt (mem_init x y u) = idt u" "idt (blk_dev_init u) = idt u" "idt (sched_init u) = idt u" "idt (buffer_init x u) = idt u"
    "idt (u\<lparr>startup_time := w\<rparr>) = idt u" "idt (u\<lparr>ROOT_DEV := r\<rparr>) = idt u" "idt (u\<lparr>request_fn := f\<rparr>) = idt u"
    for x y w r f and u :: "'a io_state_scheme"
  proof -
    have "idt (fold clear_slot is u) = idt u" for "is" and u :: "'a io_state_scheme"
      by (induction "is" arbitrary: u) (simp_all add: clear_slot_def)
    then show "idt (sched_init u) = idt u" by (simp add: sched_init_def Let_def outb_def set_tssldt_desc_def)
  qed (simp_all add: mem_init_def blk_dev_init_def buffer_init_def Let_def)
  have "idt t = (idt (trap_init (mem_init (of_int (main_memory_start k)) (of_int (memory_end k)) (s\<lparr>ROOT_DEV := rd\<rparr>))))
      (0x24 := Some (14, 0, ''rs1_interrupt''), 0x23 := Some (14, 0, ''rs2_interrupt''), 0x21 := Some (15, 0, ''keyboard_interrupt''), 0x20 := Some (14, 0, ''timer_interrupt''),
       0x80 := Some (15, 3, ''system_call''), 0x2E := Some (14, 0, ''hd_interrupt''), 0x26 := Some (15, 0, ''floppy_interrupt''))"
    by (rule main_init_steps [OF assms])
      (simp add: floppy_init_def hd_init_def sched_gates_def rs_init_def Serial.init_def Let_def case_prod_beta gate_idt g keep)
  then show "idt t v = (if v = 0x80 then Some (15, 3, ''system_call'') else if v \<in> {0x20, 0x21, 0x23, 0x24, 0x26, 0x2E} then idt t v
    else if v < 48 then Some (15, if v \<in> {3, 4, 5} then 3 else 0, trap_label v) else idt s v)"
    "v \<in> {0x20, 0x21, 0x23, 0x24, 0x26, 0x2E} \<Longrightarrow> \<exists>ty h. idt t v = Some (ty, 0, h)"
    by (auto simp: trap_init_idt keep)
qed

lemma main_init_invariants:
  assumes "main_init rd k tt n cmos cmos' (s, c) = Some (t, c')" and "booted s c"
  shows "(\<forall>i<PAGING_PAGES. mem_map t i =
        (if main_memory_start k \<le> int (unat (page_of i)) \<and> int (unat (page_of i)) < memory_end k then 0 else USED)) \<and>
     map_ok t \<and> cache_ok t \<and> slots_distinct t \<and> slices_ok t \<and> (\<forall>i. \<not> live t i) \<and>
     (\<forall>r<NR_REQUEST. r_dev (request_table t r) = - 1) \<and> (\<forall>m. current_request t m = None) \<and> request_fn t 2 \<and> request_fn t 3 \<and>
     (\<forall>v. (\<exists>ty h. idt t v = Some (ty, 3, h)) \<longleftrightarrow> v \<in> {3, 4, 5, 0x80}) \<and> con_ok c'"
proof -
  let ?m = "mem_init (of_int (main_memory_start k)) (of_int (memory_end k)) (s\<lparr>ROOT_DEV := rd\<rparr>)"
  obtain s1 w where s1: "only_ports (blk_dev_init (trap_init ?m)) s1" "\<exists>i. c' = con_init (c\<lparr>con_idt := i\<rparr>)"
    "t = floppy_init (hd_init (buffer_init (of_int (buffer_memory_end k)) (sched_gates (sched_init (s1\<lparr>startup_time := w\<rparr>)))))"
    using main_init_steps [OF assms(1)] by metis
  note f1 = only_ports_fields [OF s1(1)] and f2 = only_ports_fields [OF only_ports_inits(1) [of ?m]]
  let ?u0 = "sched_init (s1\<lparr>startup_time := w\<rparr>)"
  let ?u1 = "sched_gates ?u0"
  let ?u2 = "buffer_init (of_int (buffer_memory_end k)) ?u1"
  let ?u3 = "hd_init ?u2"
  note g1 = only_ports_fields [OF only_ports_inits(3) [of ?u0]]
    and g3 = only_ports_fields [OF only_ports_inits(4) [of ?u2]] and g4 = only_ports_fields [OF only_ports_inits(5) [of ?u3]]
  obtain a b where ab: "memory_end k = 0x100000 + 4096 * int b" "main_memory_start k = 0x100000 + 4096 * int a" "a \<le> b" "b \<le> PAGING_PAGES"
    "buffer_memory_end k = main_memory_start k" "0x100000 \<le> buffer_memory_end k" "buffer_memory_end k \<le> 0x400000"
    by (rule memory_numbers)
  have word: "unat (of_int (0x100000 + 4096 * int m) :: u32) = 0x100000 + 4096 * m" if "m \<le> PAGING_PAGES" for m
  proof -
    have "(of_int (0x100000 + 4096 * int m) :: u32) = of_nat (0x100000 + 4096 * m)" by simp
    moreover have "unat (of_nat (0x100000 + 4096 * m) :: u32) = 0x100000 + 4096 * m"
      unfolding unat_of_nat by (rule mod_less) (use that in \<open>simp add: PAGING_PAGES_eq\<close>)
    ultimately show ?thesis by (simp only:)
  qed
  have "mem_map t = mem_map ?m" "HIGH_MEMORY t = of_int (memory_end k)"
    unfolding s1(3) by (simp_all add: g4 g3 g1 f1 f2 init_fields)
  then have map: "mem_map t i = (if a \<le> i \<and> i < b then 0 else USED)" "unat (HIGH_MEMORY t) = 0x100000 + 4096 * b" if "i < PAGING_PAGES" for i
    using mem_init_map [OF word [of a] word [OF ab(4)] ab(3,4) that, of "s\<lparr>ROOT_DEV := rd\<rparr>"] ab(3,4) word [OF ab(4)] by (simp_all add: ab(1,2))
  have pages: "\<forall>i<PAGING_PAGES. mem_map t i =
        (if main_memory_start k \<le> int (unat (page_of i)) \<and> int (unat (page_of i)) < memory_end k then 0 else USED)"
    using map(1) by (auto simp: unat_page_of ab(1,2))
  have "map_ok t"
    using map by (auto simp: map_ok_def word_less_nat_alt unat_page_of USED_def split: if_splits)
  moreover have "cache_ok t"
  proof -
    have "cache_ok ?u2"
    proof (rule buffer_init_ok)
      show "unat (start_buffer ?u1) + 36 + 1024 \<le> 0xA0000"
        using assms(2) by (simp add: booted_def g1 f1 f2 init_fields)
      show "0x100000 \<le> unat (of_int (buffer_memory_end k) :: u32)" using word [of a] ab by simp
    qed
    then show ?thesis unfolding s1(3) cache_ok_def free_ring_def by (simp add: g4 g3)
  qed
  moreover have "task t i = (if 0 < i \<and> i < NR_TASKS then 0 else task s i)" for i
    unfolding s1(3) by (simp add: g4 g3 g1 f1 f2 sched_init_task init_fields)
  then have "slots_distinct t" "slices_ok t" "\<forall>i. \<not> live t i"
    by (auto simp: slots_distinct_def slices_ok_def live_def inj_on_def)
  moreover have "request_table t = request_table (blk_dev_init (trap_init ?m))" "current_request t = current_request s"
    "request_fn t 2" "request_fn t 3"
    unfolding s1(3) by (simp_all add: g4 g3 g1 f1 f2 init_fields)
  then have "\<forall>r<NR_REQUEST. r_dev (request_table t r) = - 1" "\<forall>m. current_request t m = None" "request_fn t 2" "request_fn t 3"
    using assms(2) by (auto simp: blk_dev_init_def booted_def)
  moreover have "(\<exists>ty h. idt t v = Some (ty, 3, h)) \<longleftrightarrow> v \<in> {3, 4, 5, 0x80}" for v
    using main_init_idt [OF assms(1), of v] assms(2) by (auto simp: booted_def split: if_splits)
  moreover have "con_ok c'"
  proof -
    obtain i where i: "c' = con_init (c\<lparr>con_idt := i\<rparr>)" using s1(2) by blast
    have "ORIG_VIDEO_COLS (c\<lparr>con_idt := i\<rparr>) = ORIG_VIDEO_COLS c" "ORIG_X (c\<lparr>con_idt := i\<rparr>) = ORIG_X c" "ORIG_Y (c\<lparr>con_idt := i\<rparr>) = ORIG_Y c"
      "npar (c\<lparr>con_idt := i\<rparr>) = npar c"
      by (simp_all add: ORIG_VIDEO_COLS_def ORIG_X_def ORIG_Y_def get8_def get16_def)
    then show ?thesis using assms(2) con_init_on_screen [of "c\<lparr>con_idt := i\<rparr>"] unfolding i booted_def by simp
  qed
  ultimately show ?thesis using pages by blast
qed

lemma main_init_returns:
  assumes "time_init n cmos cmos' 0 = Some now" "kernel_mktime now = Some secs"
  shows "\<exists>t c'. main_init rd k tt n cmos cmos' (s, c) = Some (t, c') \<and> startup_time t = secs"
proof -
  have "start_clock n cmos cmos' u = Some (u\<lparr>startup_time := secs\<rparr>)" for u :: "'a io_state_scheme"
    by (simp add: start_clock_def assms)
  then show ?thesis
    by (simp add: main_init_def tty_init_def Let_def only_ports_fields [OF only_ports_inits(3)] only_ports_fields [OF only_ports_inits(4)]
        only_ports_fields [OF only_ports_inits(5)] init_fields)
qed

text \<open>
  C1: when \<^verbatim>\<open>main()\<close> has run its initializations, the components start in their invariants, for every amount of memory:
  the pages between the end of the buffers and the end of memory are free, all others taken; the buffer cache is
  consistent and not empty; no task but task 0 exists; all request slots are free and the two disk drivers are
  installed; user programs can raise the system call, the breakpoint, overflow and bounds, and no other interrupt;
  and the console is on its screen.
\<close>

theorem main_init_establishes:
  assumes "time_init n cmos cmos' 0 = Some now" "kernel_mktime now = Some secs" and "booted s c"
  shows "\<exists>t c'. main_init rd k tt n cmos cmos' (s, c) = Some (t, c') \<and> startup_time t = secs \<and>
     (\<forall>i<PAGING_PAGES. mem_map t i =
        (if main_memory_start k \<le> int (unat (page_of i)) \<and> int (unat (page_of i)) < memory_end k then 0 else USED)) \<and>
     map_ok t \<and> cache_ok t \<and> slots_distinct t \<and> slices_ok t \<and> (\<forall>i. \<not> live t i) \<and>
     (\<forall>r<NR_REQUEST. r_dev (request_table t r) = - 1) \<and> (\<forall>m. current_request t m = None) \<and> request_fn t 2 \<and> request_fn t 3 \<and>
     (\<forall>v. (\<exists>ty h. idt t v = Some (ty, 3, h)) \<longleftrightarrow> v \<in> {3, 4, 5, 0x80}) \<and> con_ok c'"
proof -
  obtain t c' where m: "main_init rd k tt n cmos cmos' (s, c) = Some (t, c')" "startup_time t = secs"
    using main_init_returns [OF assms(1,2)] by blast
  show ?thesis by (rule exI [of _ t], rule exI [of _ c'], rule conjI [OF m(1)], rule conjI [OF m(2)], rule main_init_invariants [OF m(1) assms(3)])
qed

text \<open>A machine with 8 MB and a clock that stands still.\<close>

definition demo_boot :: io_state where
  "demo_boot = demo_io\<lparr>task := (\<lambda>_. 0x2000)(0 := 0x1000), start_buffer := 0x28000, idt := (\<lambda>_. Some (14, 0, ''ignore_int'')),
     current_request := (\<lambda>_. None)\<rparr>"

lemma demo_clock:
  obtains now secs where "time_init 1 (\<lambda>_ _. 0x11) (\<lambda>_. 0x11) 0 = Some now" "kernel_mktime now = Some secs"
proof -
  obtain now where now: "time_init 1 (\<lambda>_ _. 0x11) (\<lambda>_. 0x11) 0 = Some now" "tm_mon now = 10"
    by (simp add: BCD_TO_BIN_def)
  then have "kernel_mktime now \<noteq> None" by (simp add: kernel_mktime_def Let_def)
  then show thesis using now that by blast
qed

theorem main_init_establishes_witness:
  "\<exists>t c. main_init 0x306 7168 (\<lambda>_. con_tty demo_con) 1 (\<lambda>_ _. 0x11) (\<lambda>_. 0x11) (demo_boot, demo_con) = Some (t, c) \<and>
     mem_map t 255 = USED \<and> mem_map t 256 = 0 \<and> cache_ok t \<and> con_ok c"
proof -
  have ok: "booted demo_boot demo_con" by (simp add: booted_def demo_boot_def demo_con_orig)
  obtain now secs where "time_init 1 (\<lambda>_ _. 0x11) (\<lambda>_. 0x11) 0 = Some now" "kernel_mktime now = Some secs" by (rule demo_clock)
  from main_init_establishes [OF this ok, where rd = "0x306" and k = 7168 and tt = "\<lambda>_. con_tty demo_con"]
  obtain t c where m: "main_init 0x306 7168 (\<lambda>_. con_tty demo_con) 1 (\<lambda>_ _. 0x11) (\<lambda>_. 0x11) (demo_boot, demo_con) = Some (t, c)"
    "\<forall>i<PAGING_PAGES. mem_map t i =
        (if main_memory_start 7168 \<le> int (unat (page_of i)) \<and> int (unat (page_of i)) < memory_end 7168 then 0 else USED)"
    "cache_ok t" "con_ok c"
    by blast
  have e: "memory_end 7168 = 0x800000" by (simp add: memory_end_def Let_def push_bit_eq_mult)
  then have "main_memory_start 7168 = 0x200000" by (simp add: main_memory_start_def buffer_memory_end_def)
  then show ?thesis using m e by (auto simp: unat_page_of PAGING_PAGES_eq)
qed

end
