(* ===== verification/Syscalls.thy ===== *)
theory Syscalls
  imports Kernel_Prelude
begin

text \<open>
  System calls from the side of the caller: the numbers of \<^verbatim>\<open>include/unistd.h\<close>, the table of \<^verbatim>\<open>include/linux/sys.h\<close>, the
  \<^verbatim>\<open>_syscall\<close> macros and the functions of \<^verbatim>\<open>lib/\<close> made with them. \<open>kern f args\<close> is what the kernel function of
  the name \<open>f\<close> returns and does to the state; the caller has \<^verbatim>\<open>errno\<close> beside it.
\<close>


subsection \<open>Numbers and table\<close>

definition syscall_numbers :: "(string \<times> nat) list" where
  "syscall_numbers = [
    (''setup'', 0), (''exit'', 1), (''fork'', 2), (''read'', 3), (''write'', 4), (''open'', 5), (''close'', 6),
    (''waitpid'', 7), (''creat'', 8), (''link'', 9), (''unlink'', 10), (''execve'', 11), (''chdir'', 12),
    (''time'', 13), (''mknod'', 14), (''chmod'', 15), (''chown'', 16), (''break'', 17), (''stat'', 18),
    (''lseek'', 19), (''getpid'', 20), (''mount'', 21), (''umount'', 22), (''setuid'', 23), (''getuid'', 24),
    (''stime'', 25), (''ptrace'', 26), (''alarm'', 27), (''fstat'', 28), (''pause'', 29), (''utime'', 30),
    (''stty'', 31), (''gtty'', 32), (''access'', 33), (''nice'', 34), (''ftime'', 35), (''sync'', 36), (''kill'', 37),
    (''rename'', 38), (''mkdir'', 39), (''rmdir'', 40), (''dup'', 41), (''pipe'', 42), (''times'', 43),
    (''prof'', 44), (''brk'', 45), (''setgid'', 46), (''getgid'', 47), (''signal'', 48), (''geteuid'', 49),
    (''getegid'', 50), (''acct'', 51), (''phys'', 52), (''lock'', 53), (''ioctl'', 54), (''fcntl'', 55),
    (''mpx'', 56), (''setpgid'', 57), (''ulimit'', 58), (''uname'', 59), (''umask'', 60), (''chroot'', 61),
    (''ustat'', 62), (''dup2'', 63), (''getppid'', 64), (''getpgrp'', 65), (''setsid'', 66), (''sigaction'', 67),
    (''sgetmask'', 68), (''ssetmask'', 69), (''setreuid'', 70), (''setregid'', 71), (''iam'', 72), (''whoami'', 73)]"

definition sys_call_table :: "string list" where
  "sys_call_table = [
    ''sys_setup'', ''sys_exit'', ''sys_fork'', ''sys_read'', ''sys_write'', ''sys_open'', ''sys_close'',
    ''sys_waitpid'', ''sys_creat'', ''sys_link'', ''sys_unlink'', ''sys_execve'', ''sys_chdir'', ''sys_time'',
    ''sys_mknod'', ''sys_chmod'', ''sys_chown'', ''sys_break'', ''sys_stat'', ''sys_lseek'', ''sys_getpid'',
    ''sys_mount'', ''sys_umount'', ''sys_setuid'', ''sys_getuid'', ''sys_stime'', ''sys_ptrace'', ''sys_alarm'',
    ''sys_fstat'', ''sys_pause'', ''sys_utime'', ''sys_stty'', ''sys_gtty'', ''sys_access'', ''sys_nice'',
    ''sys_ftime'', ''sys_sync'', ''sys_kill'', ''sys_rename'', ''sys_mkdir'', ''sys_rmdir'', ''sys_dup'',
    ''sys_pipe'', ''sys_times'', ''sys_prof'', ''sys_brk'', ''sys_setgid'', ''sys_getgid'', ''sys_signal'',
    ''sys_geteuid'', ''sys_getegid'', ''sys_acct'', ''sys_phys'', ''sys_lock'', ''sys_ioctl'', ''sys_fcntl'',
    ''sys_mpx'', ''sys_setpgid'', ''sys_ulimit'', ''sys_uname'', ''sys_umask'', ''sys_chroot'', ''sys_ustat'',
    ''sys_dup2'', ''sys_getppid'', ''sys_getpgrp'', ''sys_setsid'', ''sys_sigaction'', ''sys_sgetmask'',
    ''sys_ssetmask'', ''sys_setreuid'', ''sys_setregid'', ''sys_iam'', ''sys_whoami'']"

text \<open>\<^verbatim>\<open>system_call\<close> of \<^verbatim>\<open>kernel/system_call.s\<close>: the number is compared without a sign, so a negative one is refused too.\<close>

definition nr_system_calls :: nat where "nr_system_calls = 74"

definition system_call :: "(string \<Rightarrow> int list \<Rightarrow> 's \<Rightarrow> int \<times> 's) \<Rightarrow> nat \<Rightarrow> int list \<Rightarrow> 's \<Rightarrow> int \<times> 's" where
  "system_call kern nr args s = (if nr < nr_system_calls then kern (sys_call_table ! nr) args s else (- 1, s))"


subsection \<open>The caller\<close>

definition syscall_result :: "int \<Rightarrow> int \<Rightarrow> int \<times> int" where
  "syscall_result res errno = (if 0 \<le> res then (res, errno) else (- 1, - res))"

definition syscall :: "(string \<Rightarrow> int list \<Rightarrow> 's \<Rightarrow> int \<times> 's) \<Rightarrow> nat \<Rightarrow> int list \<Rightarrow> int \<times> 's \<Rightarrow> int \<times> int \<times> 's" where
  "syscall kern nr args = (\<lambda>(errno, s). case system_call kern nr args s of (res, s) \<Rightarrow>
     case syscall_result res errno of (r, errno) \<Rightarrow> (r, errno, s))"

type_synonym 's lib_call = "(string \<Rightarrow> int list \<Rightarrow> 's \<Rightarrow> int \<times> 's) \<Rightarrow> int \<times> 's \<Rightarrow> int \<times> int \<times> 's"

definition syscall0 :: "nat \<Rightarrow> 's lib_call" where
  "syscall0 nr kern = syscall kern nr []"

definition syscall1 :: "nat \<Rightarrow> int \<Rightarrow> 's lib_call" where
  "syscall1 nr a kern = syscall kern nr [a]"

definition syscall2 :: "nat \<Rightarrow> int \<Rightarrow> int \<Rightarrow> 's lib_call" where
  "syscall2 nr a b kern = syscall kern nr [a, b]"

definition syscall3 :: "nat \<Rightarrow> int \<Rightarrow> int \<Rightarrow> int \<Rightarrow> 's lib_call" where
  "syscall3 nr a b c kern = syscall kern nr [a, b, c]"

text \<open>\<^verbatim>\<open>open\<close> has the same end as the macros; its third argument is whatever the caller has passed.\<close>

definition lib_open :: "int \<Rightarrow> int \<Rightarrow> int \<Rightarrow> 's lib_call" where
  "lib_open filename flag mode kern = syscall kern 5 [filename, flag, mode]"

definition lib_write :: "int \<Rightarrow> int \<Rightarrow> int \<Rightarrow> 's lib_call" where
  "lib_write fd buf count = syscall3 4 fd buf count"

definition lib_execve :: "int \<Rightarrow> int \<Rightarrow> int \<Rightarrow> 's lib_call" where
  "lib_execve file argv envp = syscall3 11 file argv envp"

definition lib_close :: "int \<Rightarrow> 's lib_call" where
  "lib_close fd = syscall1 6 fd"

definition lib_dup :: "int \<Rightarrow> 's lib_call" where
  "lib_dup fd = syscall1 41 fd"

definition lib_setsid :: "'s lib_call" where
  "lib_setsid = syscall0 66"

definition lib_waitpid :: "int \<Rightarrow> int \<Rightarrow> int \<Rightarrow> 's lib_call" where
  "lib_waitpid pid wait_stat options = syscall3 7 pid wait_stat options"

definition lib_wait :: "int \<Rightarrow> 's lib_call" where
  "lib_wait wait_stat = lib_waitpid (- 1) wait_stat 0"

text \<open>\<^verbatim>\<open>_exit\<close> looks at no result.\<close>

definition lib_exit :: "int \<Rightarrow> (string \<Rightarrow> int list \<Rightarrow> 's \<Rightarrow> int \<times> 's) \<Rightarrow> 's \<Rightarrow> 's" where
  "lib_exit exit_code kern s = snd (system_call kern 1 [exit_code] s)"


subsection \<open>Where a call arrives\<close>

lemma numbers_match_table: "\<forall>(name, nr) \<in> set syscall_numbers. nr < nr_system_calls \<and> sys_call_table ! nr = ''sys_'' @ name"
  by code_simp

text \<open>
  C37: the number that the header gives for a call leads, through the table of the kernel, to the function of
  that name, for each of the 74 calls. What is not negative is the result and leaves \<^verbatim>\<open>errno\<close> alone; a negative one becomes
  \<open>- 1\<close>, and \<^verbatim>\<open>errno\<close> the number of the error.
\<close>

theorem syscall_reaches_function:
  assumes "(name, nr) \<in> set syscall_numbers"
  shows "syscall kern nr args (errno, s) = (case kern (''sys_'' @ name) args s of (res, s) \<Rightarrow>
    if 0 \<le> res then (res, errno, s) else (- 1, - res, s))"
  using bspec [OF numbers_match_table assms]
  by (auto simp: syscall_def system_call_def syscall_result_def split: prod.splits)

theorem syscall_reaches_function_witness:
  "lib_wait 8 (\<lambda>f args s. if f = ''sys_waitpid'' then (- 10, f # s) else (0, s)) (0, []) = (- 1, 10, [''sys_waitpid''])"
proof -
  have "(''waitpid'', 7) \<in> set syscall_numbers" by code_simp
  from syscall_reaches_function [OF this, of "\<lambda>f args s. if f = ''sys_waitpid'' then (- 10, f # s) else (0, s)" "[- 1, 8, 0]" 0 "[]"]
  show ?thesis by (simp add: lib_wait_def lib_waitpid_def syscall3_def)
qed

end
