(* ===== verification/Vsprintf.thy ===== *)
theory Vsprintf
  imports Kernel_Prelude
begin

text \<open>
  Formatted printing, \<^verbatim>\<open>kernel/vsprintf.c\<close>. The text is a \<open>string\<close>, and what the code stores through
  \<^verbatim>\<open>str++\<close> is appended to the result. An argument is a 32-bit word or a text; \<^verbatim>\<open>%n\<close> adds a pair of address
  and value to the list of stores. Reading an argument that is not there, or not of the kind the
  format asks for, is outside the language: the result is \<open>None\<close>.
\<close>


subsection \<open>Numbers\<close>

definition is_digit :: "char \<Rightarrow> bool" where
  "is_digit c \<longleftrightarrow> (of_char c :: nat) \<ge> 48 \<and> (of_char c :: nat) \<le> 57"

text \<open>\<^verbatim>\<open>skip_atoi\<close> returns the number and where it stopped; \<^verbatim>\<open>i\<close> is a 32-bit \<^verbatim>\<open>int\<close>.\<close>

fun skip_atoi_loop :: "int \<Rightarrow> string \<Rightarrow> int \<times> string" where
  "skip_atoi_loop i [] = (i, [])"
| "skip_atoi_loop i (c # cs) =
     (if is_digit c then skip_atoi_loop (wrap32 (i * 10 + of_char c - 48)) cs else (i, c # cs))"

definition skip_atoi :: "string \<Rightarrow> int \<times> string" where
  "skip_atoi s = skip_atoi_loop 0 s"

definition ZEROPAD :: nat where "ZEROPAD = 1"
definition SIGN :: nat where "SIGN = 2"
definition PLUS :: nat where "PLUS = 4"
definition SPACE :: nat where "SPACE = 8"
definition LJUST :: nat where "LJUST = 16"
definition SPECIAL :: nat where "SPECIAL = 32"
definition SMALL :: nat where "SMALL = 64"

definition flag :: "nat \<Rightarrow> nat \<Rightarrow> bool" where
  "flag type f \<longleftrightarrow> type AND f \<noteq> 0"

definition upper_digits :: string where "upper_digits = ''0123456789ABCDEFGHIJKLMNOPQRSTUVWXYZ''"
definition lower_digits :: string where "lower_digits = ''0123456789abcdefghijklmnopqrstuvwxyz''"

text \<open>\<^verbatim>\<open>do_div\<close> divides an unsigned number; \<open>tmp\<close> collects the remainders, lowest first.\<close>

definition do_div :: "nat \<Rightarrow> nat \<Rightarrow> nat \<times> nat" where
  "do_div n base = (n div base, n mod base)"

function digits_of :: "nat \<Rightarrow> nat \<Rightarrow> string \<Rightarrow> string" where
  "digits_of n base digits =
     (if n = 0 \<or> base < 2 then []
      else case do_div n base of (q, r) \<Rightarrow> (digits ! r) # digits_of q base digits)"
  by pat_completeness auto
termination by (relation "measure fst") (auto simp: do_div_def)

text \<open>\<^verbatim>\<open>while (size-->0) *str++ = c;\<close> with the value \<^verbatim>\<open>size\<close> is left with.\<close>

definition pad :: "char \<Rightarrow> int \<Rightarrow> string \<times> int" where
  "pad c width = (replicate (nat width) c, min width 0 - 1)"

definition number_sign :: "int \<Rightarrow> nat \<Rightarrow> string" where
  "number_sign num type =
     (if flag type SIGN \<and> num < 0 then ''-''
      else if flag type PLUS then ''+'' else if flag type SPACE then '' '' else [])"

definition number_prefix :: "int \<Rightarrow> string \<Rightarrow> nat \<Rightarrow> string" where
  "number_prefix base digits type =
     (if flag type SPECIAL then if base = 8 then ''0'' else if base = 16 then [CHR ''0'', digits ! 33] else [] else [])"

definition number :: "int \<Rightarrow> int \<Rightarrow> int \<Rightarrow> int \<Rightarrow> nat \<Rightarrow> string option" where
  "number num base width precision type =
     (if base < 2 \<or> 36 < base then None
      else
       let digits = (if flag type SMALL then lower_digits else upper_digits);
           type = (if flag type LJUST then type AND (64 + 32 + 16 + 8 + 4 + 2) else type);
           c = (if flag type ZEROPAD then CHR ''0'' else CHR '' '');
           sign = number_sign num type;
           num = (if flag type SIGN \<and> num < 0 then wrap32 (- num) else num);
           width = (if sign \<noteq> [] then width - 1 else width);
           width = (if flag type SPECIAL then if base = 16 then width - 2 else if base = 8 then width - 1 else width else width);
           tmp = (if num = 0 then ''0'' else digits_of (unat (of_int num :: u32)) (nat base) digits);
           i = int (length tmp);
           precision = (if precision < i then i else precision);
           width = width - precision;
           (lead, width) = (if \<not> flag type (ZEROPAD + LJUST) then pad CHR '' '' width else ([], width));
           (fill, width) = (if \<not> flag type LJUST then pad c width else ([], width));
           (trail, width) = pad CHR '' '' width
       in Some (lead @ sign @ number_prefix base digits type @ fill @
                replicate (nat (precision - i)) CHR ''0'' @ rev tmp @ trail))"


subsection \<open>The format\<close>

datatype varg = Word u32 | Text string

text \<open>The flags after the percent sign.\<close>

fun parse_flags :: "nat \<Rightarrow> string \<Rightarrow> nat \<times> string" where
  "parse_flags flags [] = (flags, [])"
| "parse_flags flags (c # cs) =
     (if c = CHR ''-'' then parse_flags (flags OR LJUST) cs
      else if c = CHR ''+'' then parse_flags (flags OR PLUS) cs
      else if c = CHR '' '' then parse_flags (flags OR SPACE) cs
      else if c = CHR ''#'' then parse_flags (flags OR SPECIAL) cs
      else if c = CHR ''0'' then parse_flags (flags OR ZEROPAD) cs
      else (flags, c # cs))"

definition next_word :: "varg list \<Rightarrow> (u32 \<times> varg list) option" where
  "next_word args = (case args of Word w # r \<Rightarrow> Some (w, r) | _ \<Rightarrow> None)"

definition next_text :: "varg list \<Rightarrow> (string \<times> varg list) option" where
  "next_text args = (case args of Text s # r \<Rightarrow> Some (s, r) | _ \<Rightarrow> None)"

definition head_is :: "char \<Rightarrow> string \<Rightarrow> bool" where
  "head_is c fmt \<longleftrightarrow> fmt \<noteq> [] \<and> hd fmt = c"

text \<open>The field width: width, flags, rest of the format, rest of the arguments. A star is not skipped.\<close>

definition parse_width :: "nat \<Rightarrow> string \<Rightarrow> varg list \<Rightarrow> (int \<times> nat \<times> string \<times> varg list) option" where
  "parse_width flags fmt args =
     (if fmt \<noteq> [] \<and> is_digit (hd fmt) then case skip_atoi fmt of (w, fmt) \<Rightarrow> Some (w, flags, fmt, args)
      else if head_is CHR ''*'' fmt then
        (case next_word args of
           None \<Rightarrow> None
         | Some (w, args) \<Rightarrow>
             if sint w < 0 then Some (wrap32 (- sint w), flags OR LJUST, fmt, args) else Some (sint w, flags, fmt, args))
      else Some (- 1, flags, fmt, args))"

definition parse_precision :: "string \<Rightarrow> varg list \<Rightarrow> (int \<times> string \<times> varg list) option" where
  "parse_precision fmt args =
     (if head_is CHR ''.'' fmt then
        let fmt = tl fmt
        in if fmt \<noteq> [] \<and> is_digit (hd fmt) then case skip_atoi fmt of (p, fmt) \<Rightarrow> Some (max p 0, fmt, args)
           else if head_is CHR ''*'' fmt then
             (case next_word args of None \<Rightarrow> None | Some (w, args) \<Rightarrow> Some (max (sint w) 0, fmt, args))
           else Some (0, fmt, args)
      else Some (- 1, fmt, args))"

definition skip_qualifier :: "string \<Rightarrow> string" where
  "skip_qualifier fmt =
     (if head_is CHR ''h'' fmt \<or> head_is CHR ''l'' fmt \<or> head_is CHR ''L'' fmt then tl fmt else fmt)"

text \<open>The conversions. The result is the text, the stores and the rest of the arguments.\<close>

definition conv_char :: "int \<Rightarrow> nat \<Rightarrow> varg list \<Rightarrow> (string \<times> varg list) option" where
  "conv_char width flags args =
     (case next_word args of
        None \<Rightarrow> None
      | Some (w, args) \<Rightarrow>
          let sp = replicate (nat (width - 1)) CHR '' ''; c = char_of (unat w mod 256)
          in Some (if flag flags LJUST then c # sp else sp @ [c], args))"

definition conv_text :: "int \<Rightarrow> int \<Rightarrow> nat \<Rightarrow> varg list \<Rightarrow> (string \<times> varg list) option" where
  "conv_text width precision flags args =
     (case next_text args of
        None \<Rightarrow> None
      | Some (s, args) \<Rightarrow>
          let len = (if precision < 0 then int (length s)
                     else if precision < int (length s) then precision else int (length s));
              sp = replicate (nat (width - len)) CHR '' ''
          in Some (if flag flags LJUST then take (nat len) s @ sp else sp @ take (nat len) s, args))"

definition conv_number :: "int \<Rightarrow> int \<Rightarrow> int \<Rightarrow> nat \<Rightarrow> varg list \<Rightarrow> (string \<times> varg list) option" where
  "conv_number base width precision flags args =
     (case next_word args of
        None \<Rightarrow> None
      | Some (w, args) \<Rightarrow> (case number (sint w) base width precision flags of None \<Rightarrow> None | Some t \<Rightarrow> Some (t, args)))"

text \<open>
  One conversion specification, after the percent sign: what is appended, the store of \<^verbatim>\<open>%n\<close>, the rest of
  the format and of the arguments. \<open>n\<close> is the number of characters so far.
\<close>

definition convert ::
  "nat \<Rightarrow> string \<Rightarrow> varg list \<Rightarrow> (string \<times> (u32 \<times> nat) list \<times> string \<times> varg list) option" where
  "convert n fmt args =
     (case parse_flags 0 fmt of (flags, fmt) \<Rightarrow>
      case parse_width flags fmt args of None \<Rightarrow> None | Some (width, flags, fmt, args) \<Rightarrow>
      case parse_precision fmt args of None \<Rightarrow> None | Some (precision, fmt, args) \<Rightarrow>
      let fmt = skip_qualifier fmt;
          text = (\<lambda>r. case r of None \<Rightarrow> None | Some (t, args) \<Rightarrow> Some (t, [], tl fmt, args))
      in if head_is CHR ''c'' fmt then text (conv_char width flags args)
         else if head_is CHR ''s'' fmt then text (conv_text width precision flags args)
         else if head_is CHR ''o'' fmt then text (conv_number 8 width precision flags args)
         else if head_is CHR ''p'' fmt then
           (if width = - 1 then text (conv_number 16 8 precision (flags OR ZEROPAD) args)
            else text (conv_number 16 width precision flags args))
         else if head_is CHR ''x'' fmt then text (conv_number 16 width precision (flags OR SMALL) args)
         else if head_is CHR ''X'' fmt then text (conv_number 16 width precision flags args)
         else if head_is CHR ''d'' fmt \<or> head_is CHR ''i'' fmt
           then text (conv_number 10 width precision (flags OR SIGN) args)
         else if head_is CHR ''u'' fmt then text (conv_number 10 width precision flags args)
         else if head_is CHR ''n'' fmt then
           (case next_word args of None \<Rightarrow> None | Some (w, args) \<Rightarrow> Some ([], [(w, n)], tl fmt, args))
         else if fmt = [] then Some (''%'', [], [], args)
         else if hd fmt = CHR ''%'' then Some (''%'', [], tl fmt, args)
         else Some ([CHR ''%'', hd fmt], [], tl fmt, args))"

lemma skip_atoi_loop_length: "length (snd (skip_atoi_loop i s)) \<le> length s"
  by (induction i s rule: skip_atoi_loop.induct) (simp_all add: le_SucI)

lemma skip_atoi_length: "skip_atoi s = (i, r) \<Longrightarrow> length r \<le> length s"
  using skip_atoi_loop_length [of 0 s] by (simp add: skip_atoi_def)

lemma parse_flags_length: "length (snd (parse_flags f s)) \<le> length s"
  by (induction f s rule: parse_flags.induct) (simp_all add: le_SucI)

lemma parse_width_length: "parse_width f s args = Some (w, f', r, args') \<Longrightarrow> length r \<le> length s"
  by (auto simp: parse_width_def split: if_splits option.splits prod.splits dest: skip_atoi_length)

lemma parse_precision_length: "parse_precision s args = Some (p, r, args') \<Longrightarrow> length r \<le> length s"
  by (auto simp: parse_precision_def Let_def split: if_splits option.splits prod.splits dest!: skip_atoi_length)

lemma convert_length:
  assumes "convert n s args = Some (t, st, r, args')"
  shows "length r \<le> length s"
proof -
  obtain f s1 where 1: "parse_flags 0 s = (f, s1)" by fastforce
  then have l1: "length s1 \<le> length s" using parse_flags_length [of 0 s] by simp
  obtain w f2 s2 a2 where 2: "parse_width f s1 args = Some (w, f2, s2, a2)"
    using assms 1 by (auto simp: convert_def split: option.splits prod.splits)
  obtain p s3 a3 where 3: "parse_precision s2 a2 = Some (p, s3, a3)"
    using assms 1 2 by (auto simp: convert_def split: option.splits prod.splits)
  have "r = tl (skip_qualifier s3) \<or> r = []"
    using assms by (auto simp: convert_def 1 2 3 Let_def split: if_splits option.splits)
  moreover have "length (skip_qualifier s3) \<le> length s3" by (simp add: skip_qualifier_def)
  ultimately show ?thesis using l1 parse_width_length [OF 2] parse_precision_length [OF 3] by auto
qed

function vsprintf_loop ::
  "string \<Rightarrow> string \<Rightarrow> varg list \<Rightarrow> (u32 \<times> nat) list \<Rightarrow> (string \<times> (u32 \<times> nat) list) option" where
  "vsprintf_loop str [] args stores = Some (str, stores)"
| "vsprintf_loop str (c # fmt) args stores =
     (if c \<noteq> CHR ''%'' then vsprintf_loop (str @ [c]) fmt args stores
      else case convert (length str) fmt args of
             None \<Rightarrow> None
           | Some (t, st, fmt, args) \<Rightarrow> vsprintf_loop (str @ t) fmt args (stores @ st))"
  by pat_completeness auto
termination
  by (relation "measure (\<lambda>(str, fmt, args, stores). length fmt)") (auto dest: convert_length)

text \<open>The text of the buffer up to the final zero byte, the result, and the stores.\<close>

definition vsprintf :: "string \<Rightarrow> varg list \<Rightarrow> (string \<times> int \<times> (u32 \<times> nat) list) option" where
  "vsprintf fmt args =
     (case vsprintf_loop [] fmt args [] of None \<Rightarrow> None | Some (str, stores) \<Rightarrow> Some (str, int (length str), stores))"

text \<open>
  \<^verbatim>\<open>printk\<close> gives the text to the console, and the \<^verbatim>\<open>printf\<close> of \<^verbatim>\<open>init/main.c\<close> to descriptor 1; \<open>tty_write\<close> and \<open>write\<close> are arguments.
\<close>

definition printk_text ::
  "(nat \<Rightarrow> string \<Rightarrow> int \<Rightarrow> 's \<Rightarrow> 's) \<Rightarrow> string \<Rightarrow> varg list \<Rightarrow> 's \<Rightarrow> (int \<times> (u32 \<times> nat) list \<times> 's) option" where
  "printk_text tty_write fmt args s =
     (case vsprintf fmt args of None \<Rightarrow> None | Some (text, i, stores) \<Rightarrow> Some (i, stores, tty_write 0 text i s))"

definition printf ::
  "(nat \<Rightarrow> string \<Rightarrow> int \<Rightarrow> 's \<Rightarrow> 's) \<Rightarrow> string \<Rightarrow> varg list \<Rightarrow> 's \<Rightarrow> (int \<times> (u32 \<times> nat) list \<times> 's) option" where
  "printf write fmt args s =
     (case vsprintf fmt args of None \<Rightarrow> None | Some (printbuf, i, stores) \<Rightarrow> Some (i, stores, write 1 printbuf i s))"



subsection \<open>What is printed\<close>

text \<open>The number a string of decimal digits denotes.\<close>

definition digit_val :: "char \<Rightarrow> nat" where
  "digit_val c = of_char c - 48"

definition decimal :: "string \<Rightarrow> nat" where
  "decimal s = foldl (\<lambda>n c. 10 * n + digit_val c) 0 s"

lemma upper_digit: "r < 10 \<Longrightarrow> is_digit (upper_digits ! r) \<and> digit_val (upper_digits ! r) = r"
proof -
  assume "r < 10"
  then have "r \<in> {0, 1, 2, 3, 4, 5, 6, 7, 8, 9}" unfolding insert_iff empty_iff by presburger
  then show ?thesis by (elim insertE emptyE) (simp_all add: upper_digits_def is_digit_def digit_val_def)
qed

lemma digits_of_decimal:
  "list_all is_digit (digits_of n 10 upper_digits) \<and> decimal (rev (digits_of n 10 upper_digits)) = n"
proof (induction n rule: less_induct)
  case (less n)
  show ?case
  proof (cases "n = 0")
    case False
    then have "n div 10 < n" by simp
    note ih = less [OF this]
    have "digits_of n 10 upper_digits = (upper_digits ! (n mod 10)) # digits_of (n div 10) 10 upper_digits"
      using False by (simp add: do_div_def)
    then show ?thesis using ih upper_digit [of "n mod 10"] by (simp add: decimal_def)
  qed (simp add: decimal_def)
qed

declare digits_of.simps [simp del]

lemma wrap32_sint: "wrap32 k = sint (of_int k :: u32)"
  by (simp add: wrap32_def int_word_sint)

lemma of_int_wrap32: "of_int (wrap32 k) = (of_int k :: u32)"
  by (simp add: wrap32_sint)

lemma skip_atoi_digits:
  assumes "list_all is_digit s" "r = [] \<or> \<not> is_digit (hd r)"
  shows "skip_atoi_loop (wrap32 i) (s @ r) = (wrap32 (foldl (\<lambda>n c. 10 * n + int (digit_val c)) i s), r)"
  using assms
proof (induction s arbitrary: i)
  case Nil
  then show ?case by (cases r) auto
next
  case (Cons c s)
  then have c: "is_digit c" by simp
  then have "int (digit_val c) = of_char c - 48" by (simp add: is_digit_def digit_val_def of_nat_diff of_nat_of_char)
  moreover have "wrap32 (wrap32 i * 10 + x) = wrap32 (10 * i + x)" for x
    by (simp add: wrap32_sint mult.commute)
  ultimately have "wrap32 (wrap32 i * 10 + of_char c - 48) = wrap32 (10 * i + int (digit_val c))"
    by (simp only: add_diff_eq [symmetric])
  then show ?case using Cons c by simp
qed

lemma unat_of_int_small: "0 \<le> k \<Longrightarrow> k < 2 ^ 32 \<Longrightarrow> unat (of_int k :: u32) = nat k"
  by (simp add: unat_eq_nat_uint uint_word_of_int)

lemma sint_nonneg_uint: "0 \<le> sint (w :: u32) \<Longrightarrow> sint w = uint w"
proof -
  assume s: "0 \<le> sint w"
  have w: "sint w = (uint w + 2 ^ 31) mod 2 ^ 32 - 2 ^ 31" using wrap32_sint [of "uint w"] by (simp add: wrap32_def)
  have u: "0 \<le> uint w" "uint w < 2 ^ 32" using uint_range_size [of w] by (simp_all add: word_size)
  show ?thesis
  proof (cases "uint w < 2 ^ 31")
    case False
    then have "(uint w + 2 ^ 31) mod 2 ^ 32 = uint w + 2 ^ 31 - 2 ^ 32"
      using u mod_add_self2 [of "uint w + 2 ^ 31 - 2 ^ 32" "2 ^ 32 :: int"] by (simp add: mod_pos_pos_trivial add.commute)
    then show ?thesis using w s u by simp
  qed (use w u in \<open>simp add: mod_pos_pos_trivial\<close>)
qed

lemma number_plain:
  fixes w :: u32
  shows "number (sint w) 10 (- 1) (- 1) 0 = Some (if w = 0 then ''0'' else rev (digits_of (unat w) 10 upper_digits))"
  "number (sint w) 10 (- 1) (- 1) 2 = Some (if w = 0 then ''0'' else if sint w < 0
     then CHR ''-'' # rev (digits_of (nat (- sint w)) 10 upper_digits)
     else rev (digits_of (unat w) 10 upper_digits))"
proof -
  note defs = number_def flag_def LJUST_def SMALL_def ZEROPAD_def SIGN_def PLUS_def SPACE_def SPECIAL_def
      number_sign_def number_prefix_def pad_def Let_def
  have "w = of_int (sint w)" by simp
  then have z: "sint w = 0 \<longleftrightarrow> w = 0" by (metis of_int_0 signed_0)
  then show "number (sint w) 10 (- 1) (- 1) 0 = Some (if w = 0 then ''0'' else rev (digits_of (unat w) 10 upper_digits))"
    by (auto simp: defs)
  have n: "wrap32 (- sint w) \<noteq> 0" if "sint w < 0"
  proof
    assume "wrap32 (- sint w) = 0"
    then have "(of_int (- sint w) :: u32) = 0" using of_int_wrap32 [of "- sint w"] by simp
    then have "w = 0" by simp
    then show False using that by simp
  qed
  have "unat (of_int (wrap32 (- sint w)) :: u32) = nat (- sint w)" if "sint w < 0"
    unfolding of_int_wrap32 using that sint_ge [of w] by (intro unat_of_int_small) simp_all
  then show "number (sint w) 10 (- 1) (- 1) 2 = Some (if w = 0 then ''0'' else if sint w < 0
     then CHR ''-'' # rev (digits_of (nat (- sint w)) 10 upper_digits)
     else rev (digits_of (unat w) 10 upper_digits))"
    using n z by (auto simp: defs)
qed

lemma decimal_int: "int (foldl (\<lambda>n c. 10 * n + digit_val c) m s) = foldl (\<lambda>n c. 10 * n + int (digit_val c)) (int m) s"
  by (induction s arbitrary: m) simp_all

lemma skip_atoi_decimal:
  assumes "list_all is_digit s" "r = [] \<or> \<not> is_digit (hd r)"
  shows "skip_atoi (s @ r) = (wrap32 (int (decimal s)), r)"
  using skip_atoi_digits [OF assms, of 0] decimal_int [of 0 s] by (simp add: skip_atoi_def decimal_def wrap32_def)

lemma rev_digits: "list_all is_digit (rev (digits_of n 10 upper_digits))" "decimal (rev (digits_of n 10 upper_digits)) = n"
  using digits_of_decimal [of n] by (simp_all add: list_all_iff)

lemma zero_digit: "list_all is_digit ''0''" "decimal ''0'' = 0"
  by (simp_all add: is_digit_def decimal_def digit_val_def)

lemma convert_ud:
  "convert n ''u'' [Word w] = Some (the (number (sint w) 10 (- 1) (- 1) 0), [], [], [])"
  "convert n ''d'' [Word w] = Some (the (number (sint w) 10 (- 1) (- 1) 2), [], [], [])"
  by (simp_all add: convert_def parse_width_def parse_precision_def skip_qualifier_def head_is_def is_digit_def
      conv_number_def next_word_def SIGN_def number_plain)

text \<open>
  C40: numbers are printed so that they can be read back. \<^verbatim>\<open>%u\<close> of a word prints a string of digits that
  denotes its unsigned value, \<^verbatim>\<open>%d\<close> prints its signed value, with a minus sign when it is negative
  (the most negative number included), and \<^verbatim>\<open>skip_atoi\<close> reads the digits back.
\<close>

theorem print_read_number:
  fixes w :: u32
  shows "(\<exists>ds. vsprintf ''%u'' [Word w] = Some (ds, int (length ds), []) \<and> list_all is_digit ds \<and> decimal ds = unat w \<and>
      skip_atoi ds = (sint w, [])) \<and>
    (\<exists>ds. vsprintf ''%d'' [Word w] = Some ((if sint w < 0 then [CHR ''-''] else []) @ ds,
        int (length ds) + (if sint w < 0 then 1 else 0), []) \<and>
      list_all is_digit ds \<and> int (decimal ds) = \<bar>sint w\<bar> \<and> skip_atoi ds = (wrap32 \<bar>sint w\<bar>, []))"
proof
  define us where "us = (if w = 0 then ''0'' else rev (digits_of (unat w) 10 upper_digits))"
  have u: "list_all is_digit us" "decimal us = unat w"
    using rev_digits [of "unat w"] zero_digit by (simp_all add: us_def)
  have "wrap32 (int (unat w)) = sint w" by (simp add: wrap32_sint)
  then have "skip_atoi us = (sint w, [])" using skip_atoi_decimal [OF u(1), of "[]"] u(2) by simp
  moreover have "vsprintf ''%u'' [Word w] = Some (us, int (length us), [])"
    by (simp add: vsprintf_def convert_ud number_plain us_def)
  ultimately show "\<exists>ds. vsprintf ''%u'' [Word w] = Some (ds, int (length ds), []) \<and> list_all is_digit ds \<and>
      decimal ds = unat w \<and> skip_atoi ds = (sint w, [])" using u by blast
  define ds where "ds = (if w = 0 then ''0'' else if sint w < 0 then rev (digits_of (nat (- sint w)) 10 upper_digits)
    else rev (digits_of (unat w) 10 upper_digits))"
  have "int (unat w) = sint w" if "\<not> sint w < 0" using sint_nonneg_uint [of w] that by simp
  then have d: "list_all is_digit ds" "int (decimal ds) = \<bar>sint w\<bar>"
    using rev_digits [of "unat w"] rev_digits [of "nat (- sint w)"] zero_digit by (auto simp: ds_def)
  then have "skip_atoi ds = (wrap32 \<bar>sint w\<bar>, [])" using skip_atoi_decimal [OF d(1), of "[]"] by simp
  moreover have "vsprintf ''%d'' [Word w] = Some ((if sint w < 0 then [CHR ''-''] else []) @ ds,
      int (length ds) + (if sint w < 0 then 1 else 0), [])"
    by (auto simp: vsprintf_def convert_ud number_plain ds_def)
  ultimately show "\<exists>ds. vsprintf ''%d'' [Word w] = Some ((if sint w < 0 then [CHR ''-''] else []) @ ds,
        int (length ds) + (if sint w < 0 then 1 else 0), []) \<and>
      list_all is_digit ds \<and> int (decimal ds) = \<bar>sint w\<bar> \<and> skip_atoi ds = (wrap32 \<bar>sint w\<bar>, [])"
    using d by blast
qed

text \<open>
  A star for the width or the precision takes its argument but is not skipped: the conversion ends
  there, the star is printed after a percent sign, and the letter that was meant is printed as
  text; the argument it was meant for is not used.
\<close>

theorem star_is_not_skipped:
  "vsprintf ''%*d'' [Word a, Word b] = Some (''%*d'', 3, []) \<and> vsprintf ''%.*d'' [Word a, Word b] = Some (''%*d'', 3, [])"
  by (simp add: vsprintf_def convert_def parse_width_def parse_precision_def skip_qualifier_def head_is_def is_digit_def next_word_def)

end
