(* ===== verification/Init_Process.thy ===== *)
theory Init_Process
  imports Syscalls Vsprintf File_Rw
begin

text \<open>
  The end of \<^verbatim>\<open>main()\<close> and the first user program, \<^verbatim>\<open>init()\<close> of \<^verbatim>\<open>init/main.c\<close>: task 0 forks and pauses for ever, its child opens
  the terminal, runs \<^verbatim>\<open>/etc/rc\<close> through a shell, and then starts one shell after the other. The functions follow one
  process through the system calls of \<open>Syscalls\<close>: where \<^verbatim>\<open>fork\<close> returns 0 it is the child. The state of a process is
  \<^verbatim>\<open>errno\<close> and the rest of the system.
\<close>


subsection \<open>The user's memory\<close>

text \<open>
  \<open>lit\<close> is the address of a string or array of the program, \<open>put_text\<close> stores a text at an address, and \<open>get_int\<close>
  reads a variable.
\<close>

record 's user_mem =
  lit :: "string \<Rightarrow> int"
  put_text :: "int \<Rightarrow> string \<Rightarrow> 's \<Rightarrow> 's"
  get_int :: "int \<Rightarrow> 's \<Rightarrow> u32"

type_synonym 's kernel = "string \<Rightarrow> int list \<Rightarrow> 's \<Rightarrow> int \<times> 's"

definition call :: "'s lib_call \<Rightarrow> 's kernel \<Rightarrow> int \<times> 's \<Rightarrow> (int, int \<times> 's) outcome" where
  "call f kern s = (case f kern s of (r, s) \<Rightarrow> Done r s)"

definition exit_with :: "int \<Rightarrow> 's kernel \<Rightarrow> int \<times> 's \<Rightarrow> ('a, int \<times> 's) outcome" where
  "exit_with code kern s = Stop (Do_Exit code) (fst s, lib_exit code kern (snd s))"

text \<open>The system calls that \<^verbatim>\<open>main.c\<close> has inline.\<close>

definition fork :: "'s lib_call" where "fork = syscall0 2"
definition pause :: "'s lib_call" where "pause = syscall0 29"
definition main_setup :: "int \<Rightarrow> 's lib_call" where "main_setup BIOS = syscall1 0 BIOS"
definition sync :: "'s lib_call" where "sync = syscall0 36"

text \<open>A format the arguments do not fit is undefined.\<close>

definition say :: "'s user_mem \<Rightarrow> string \<Rightarrow> varg list \<Rightarrow> 's kernel \<Rightarrow> int \<times> 's \<Rightarrow> (unit, int \<times> 's) outcome" where
  "say u fmt args kern s =
     (case printf (\<lambda>fd text n (e, s). snd (lib_write (int fd) (lit u ''printbuf'') n kern (e, put_text u (lit u ''printbuf'') text s))) fmt args s of
        None \<Rightarrow> Stop Undefined s
      | Some (_, _, s) \<Rightarrow> Done () s)"


subsection \<open>Shells\<close>

text \<open>\<^verbatim>\<open>while (pid != wait(&i))\<close>; \<open>n\<close> bounds the number of children that die first.\<close>

fun wait_for :: "nat \<Rightarrow> 's user_mem \<Rightarrow> int \<Rightarrow> 's kernel \<Rightarrow> int \<times> 's \<Rightarrow> (unit, int \<times> 's) outcome" where
  "wait_for 0 u pid kern s = Stop Looping s"
| "wait_for (Suc n) u pid kern s =
     kbind (call (lib_wait (lit u ''i'')) kern s) (\<lambda>r s. if r = pid then Done () s else wait_for n u pid kern s)"

definition open_terminal :: "'s user_mem \<Rightarrow> 's kernel \<Rightarrow> int \<times> 's \<Rightarrow> (int, int \<times> 's) outcome" where
  "open_terminal u kern s =
     kbind (call (lib_open (lit u ''/dev/tty0'') O_RDWR 0) kern s) (\<lambda>_ s.
     kbind (call (lib_dup 0) kern s) (\<lambda>_ s.
     call (lib_dup 0) kern s))"

definition rc_child :: "'s user_mem \<Rightarrow> 's kernel \<Rightarrow> int \<times> 's \<Rightarrow> (unit, int \<times> 's) outcome" where
  "rc_child u kern s =
     kbind (call (lib_close 0) kern s) (\<lambda>_ s.
     kbind (call (lib_open (lit u ''/etc/rc'') O_RDONLY 0) kern s) (\<lambda>r s.
     if r \<noteq> 0 then exit_with 1 kern s
     else kbind (call (lib_execve (lit u ''/bin/sh'') (lit u ''argv_rc'') (lit u ''envp_rc'')) kern s) (\<lambda>_ s.
          exit_with 2 kern s)))"

definition shell_child :: "'s user_mem \<Rightarrow> 's kernel \<Rightarrow> int \<times> 's \<Rightarrow> (unit, int \<times> 's) outcome" where
  "shell_child u kern s =
     kbind (call (lib_close 0) kern s) (\<lambda>_ s.
     kbind (call (lib_close 1) kern s) (\<lambda>_ s.
     kbind (call (lib_close 2) kern s) (\<lambda>_ s.
     kbind (call lib_setsid kern s) (\<lambda>_ s.
     kbind (open_terminal u kern s) (\<lambda>_ s.
     kbind (call (lib_execve (lit u ''/bin/sh'') (lit u ''argv'') (lit u ''envp'')) kern s) (\<lambda>r s.
     exit_with r kern s))))))"

text \<open>\<^verbatim>\<open>while (1)\<close>: a shell is started, awaited, and its end is reported; \<open>n\<close> bounds the rounds, \<open>m\<close> the waiting.\<close>

fun shells :: "nat \<Rightarrow> nat \<Rightarrow> 's user_mem \<Rightarrow> 's kernel \<Rightarrow> int \<times> 's \<Rightarrow> (unit, int \<times> 's) outcome" where
  "shells 0 m u kern s = Stop Looping s"
| "shells (Suc n) m u kern s =
     kbind (call fork kern s) (\<lambda>pid s.
     if pid < 0 then kbind (say u (''Fork failed in init'' @ [CHR 0x0D, CHR 0x0A]) [] kern s) (\<lambda>_ s. shells n m u kern s)
     else kbind (if pid = 0 then shell_child u kern s else Done () s) (\<lambda>_ s.
          kbind (wait_for m u pid kern s) (\<lambda>_ s.
          kbind (say u ([CHR 0x0A, CHR 0x0D] @ ''child %d died with code %04x'' @ [CHR 0x0A, CHR 0x0D])
                   [Word (of_int pid), Word (get_int u (lit u ''i'') (snd s))] kern s) (\<lambda>_ s.
          kbind (call sync kern s) (\<lambda>_ s. shells n m u kern s)))))"

definition init ::
  "nat \<Rightarrow> nat \<Rightarrow> u32 \<Rightarrow> u32 \<Rightarrow> 's user_mem \<Rightarrow> 's kernel \<Rightarrow> int \<times> 's \<Rightarrow> (unit, int \<times> 's) outcome" where
  "init n m NR_BUFFERS free_mem u kern s =
     kbind (call (main_setup (lit u ''drive_info'')) kern s) (\<lambda>_ s.
     kbind (open_terminal u kern s) (\<lambda>_ s.
     kbind (say u (''%d buffers = %d bytes buffer space'' @ [CHR 0x0A, CHR 0x0D]) [Word NR_BUFFERS, Word (NR_BUFFERS * 1024)] kern s) (\<lambda>_ s.
     kbind (say u (''Free mem: %d bytes'' @ [CHR 0x0A, CHR 0x0D]) [Word free_mem] kern s) (\<lambda>_ s.
     kbind (call fork kern s) (\<lambda>pid s.
     kbind (if pid = 0 then rc_child u kern s else Done () s) (\<lambda>_ s.
     kbind (if 0 < pid then wait_for m u pid kern s else Done () s) (\<lambda>_ s.
     kbind (say u (''the first shell is died!!!!'' @ [CHR 0x0A]) [] kern s) (\<lambda>_ s.
     shells n m u kern s))))))))"

text \<open>The end of \<^verbatim>\<open>main()\<close>; \<open>init\<close> does not come back, so that only task 0 gets to the loop.\<close>

fun idle :: "nat \<Rightarrow> 's kernel \<Rightarrow> int \<times> 's \<Rightarrow> (unit, int \<times> 's) outcome" where
  "idle 0 kern s = Stop Looping s"
| "idle (Suc n) kern s = kbind (call pause kern s) (\<lambda>_ s. idle n kern s)"

definition main_end ::
  "nat \<Rightarrow> nat \<Rightarrow> u32 \<Rightarrow> u32 \<Rightarrow> 's user_mem \<Rightarrow> 's kernel \<Rightarrow> int \<times> 's \<Rightarrow> (unit, int \<times> 's) outcome" where
  "main_end n m NR_BUFFERS free_mem u kern s =
     kbind (call fork kern s) (\<lambda>pid s.
     kbind (if pid = 0 then init n m NR_BUFFERS free_mem u kern s else Done () s) (\<lambda>_ s.
     idle n kern s))"


subsection \<open>What the processes do\<close>

text \<open>Neither \<open>init\<close> nor a child of it returns: the loop goes on, or the child ends.\<close>

lemma kbind_never: "(\<And>a s. \<not> returns (f a s) Q) \<Longrightarrow> \<not> returns (kbind x f) Q"
  by (cases x) simp_all

lemma shells_never_return: "\<not> returns (shells n m u kern s) Q"
proof (induction n arbitrary: s)
  case (Suc n)
  show ?case unfolding shells.simps by (rule kbind_never, split if_split, intro conjI impI kbind_never Suc)
qed simp

lemma init_never_returns: "\<not> returns (init n m b f u kern s) Q"
  unfolding init_def by (intro kbind_never shells_never_return)

lemma children_exit: "\<not> returns (rc_child u kern s) Q" "\<not> returns (shell_child u kern s) Q"
  unfolding rc_child_def shell_child_def
  by (intro kbind_never, simp add: exit_with_def kbind_never) (intro kbind_never, simp add: exit_with_def)

end
