(* ===== verification/Console_Csi.thy ===== *)
theory Console_Csi
  imports Console_Safe
begin

text \<open>
  What the escape-sequence automaton understands: decimal parameters and cursor addressing,
  and the two sequences it fails to recognise.
\<close>

fun dec :: "nat \<Rightarrow> u8 list" where
  "dec n = (if n < 10 then [of_nat (48 + n)] else dec (n div 10) @ [of_nat (48 + n mod 10)])"

declare dec.simps [simp del]

lemma digit_bounds:
  assumes "k < 10"
  shows "(48 :: u8) \<le> of_nat (48 + k)" "(of_nat (48 + k) :: u8) \<le> 57" "ucast (of_nat (48 + k) :: u8) = (of_nat (48 + k) :: u32)"
    "(of_nat (48 + k) :: u8) \<noteq> 59" "(of_nat (48 + k) :: u8) \<noteq> 63"
proof -
  have u: "unat (of_nat (48 + k) :: u8) = 48 + k" using assms by (simp add: unat_of_nat del: of_nat_add)
  show "(48 :: u8) \<le> of_nat (48 + k)" "(of_nat (48 + k) :: u8) \<le> 57" using u assms by (simp_all add: word_le_nat_alt)
  show "(of_nat (48 + k) :: u8) \<noteq> 59" "(of_nat (48 + k) :: u8) \<noteq> 63" using u assms by (auto simp: word_unat_eq_iff)
  show "ucast (of_nat (48 + k) :: u8) = (of_nat (48 + k) :: u32)"
    using assms u by (simp add: word_unat_eq_iff unat_of_nat unsigned_ucast_eq take_bit_nat_eq_self del: of_nat_add)
qed

lemma csi_digit:
  assumes "esc_state c = 3" "k < 10"
  shows "con_char e (of_nat (48 + k)) c = set_par (unat (npar c)) (10 * par c (unat (npar c)) + of_nat k) c"
  using assms digit_bounds [OF assms(2)]
  by (simp add: con_char_def csi_param_def del: of_nat_add) (simp add: algebra_simps)

lemma csi_number:
  assumes "esc_state c = 3" "par c (unat (npar c)) = 0"
  shows "fold (con_char e) (dec n) c = set_par (unat (npar c)) (of_nat n) c"
  using assms
proof (induction n arbitrary: c rule: dec.induct)
  case (1 n)
  show ?case
  proof (cases "n < 10")
    case True
    then show ?thesis using csi_digit [OF 1(2) True] 1(3) by (simp add: dec.simps [of n] del: of_nat_add)
  next
    case False
    let ?d = "set_par (unat (npar c)) (of_nat (n div 10)) c"
    have "fold (con_char e) (dec n) c = con_char e (of_nat (48 + n mod 10)) ?d"
      using False 1(1) [OF False 1(2,3)] by (simp add: dec.simps [of n] del: of_nat_add)
    also have "\<dots> = set_par (unat (npar c)) (10 * of_nat (n div 10) + of_nat (n mod 10)) ?d"
      using csi_digit [of ?d "n mod 10" e] 1(2) by (simp add: set_par_def del: of_nat_add)
    also have "(10 * of_nat (n div 10) + of_nat (n mod 10) :: u32) = of_nat n"
      by (metis mult_div_mod_eq of_nat_add of_nat_mult of_nat_numeral)
    finally show ?thesis by (simp add: set_par_def)
  qed
qed

lemma dec_Cons:
  obtains d ds where "dec n = d # ds" "d \<noteq> 63"
proof (induction n arbitrary: thesis rule: dec.induct)
  case (1 n)
  show ?case
  proof (cases "n < 10")
    case True
    then show ?thesis using digit_bounds(5) [of n] by (intro 1(2) [of "of_nat (48 + n)" "[]"]) (simp_all add: dec.simps [of n])
  next
    case False
    obtain d ds where "dec (n div 10) = d # ds" "d \<noteq> 63" using 1(1) [OF False] .
    then show ?thesis using False by (intro 1(2) [of d "ds @ [of_nat (48 + n mod 10)]"]) (simp_all add: dec.simps [of n])
  qed
qed

text \<open>After ESC and the bracket the parameters are cleared and the first one is read.\<close>

lemma csi_first_number:
  assumes "esc_state c = 2"
  shows "fold (con_char e) (dec n) c =
    c\<lparr>par := (\<lambda>i. if i < 16 then 0 else par c i)(0 := of_nat n), npar := 0, esc_state := 3, ques := False\<rparr>"
proof -
  let ?c = "c\<lparr>par := (\<lambda>i. if i < 16 then 0 else par c i), npar := 0, esc_state := 3, ques := False\<rparr>"
  obtain d ds where d: "dec n = d # ds" "d \<noteq> 63" by (rule dec_Cons)
  have "con_char e d c = con_char e d ?c" using assms d(2) by (simp add: con_char_def csi_start_def NPAR_def)
  then have "fold (con_char e) (dec n) c = fold (con_char e) (dec n) ?c" using d(1) by simp
  also have "\<dots> = set_par 0 (of_nat n) ?c" using csi_number [of ?c e n] by simp
  finally show ?thesis by (simp add: set_par_def)
qed

text \<open>
  The sequence ESC [ \<open>r\<close> ; \<open>k\<close> H, with the parameters in decimal, moves the cursor to row \<open>r\<close> and
  column \<open>k\<close>, counted from 1, for every position of the screen; it changes neither the screen
  nor anything else but the parser's variables.
\<close>

theorem cursor_address:
  fixes c :: console and e :: con_ext
  assumes "esc_state c = 0" and "1 \<le> r" and "r \<le> unat (video_num_lines c)" and "1 \<le> k" and "k \<le> unat (video_num_columns c)"
  defines "d \<equiv> fold (con_char e) ([27, 91] @ dec r @ [59] @ dec k @ [72]) c"
  shows "unat (cx d) = k - 1 \<and> unat (cy d) = r - 1 \<and> pos d = origin c + cy d * video_size_row c + 2 * cx d \<and>
    vmem d = vmem c \<and> esc_state d = 0 \<and> geometry d = geometry c \<and> scr_top d = scr_top c \<and> scr_bottom d = scr_bottom c"
proof -
  let ?p = "\<lambda>i. if i < 16 then 0 else par c i"
  let ?a = "c\<lparr>esc_state := 2\<rparr>" let ?b = "c\<lparr>par := ?p(0 := of_nat r), npar := 0, esc_state := 3, ques := False\<rparr>"
  let ?f = "c\<lparr>par := ?p(0 := of_nat r, 1 := of_nat k), npar := 1, esc_state := 3, ques := False\<rparr>"
  have "r < 2 ^ LENGTH(32)" "k < 2 ^ LENGTH(32)"
    using assms(3,5) unsigned_less [of "video_num_lines c", where 'a = nat] unsigned_less [of "video_num_columns c", where 'a = nat]
    by linarith+
  then have u: "unat (of_nat r :: u32) = r" "unat (of_nat k :: u32) = k" by (simp_all add: unat_of_nat)
  have "fold (con_char e) [27, 91] c = ?a" using assms(1) by (simp add: con_char_def con_plain_def con_escape_def)
  moreover have "fold (con_char e) (dec r) ?a = ?b" using csi_first_number [of ?a e r] by (simp cong: if_cong)
  moreover have "fold (con_char e) (dec k) (con_char e 59 ?b) = ?f"
    using csi_number [of "con_char e 59 ?b" e k] by (simp add: con_char_def csi_param_def NPAR_def set_par_def)
  ultimately have d: "d = con_char e 72 ?f" unfolding d_def by simp
  have n: "(of_nat r :: u32) \<noteq> 0" "(of_nat k :: u32) \<noteq> 0" using u assms(2,4) by (metis not_one_le_zero unat_0)+
  have v: "unat (of_nat r - 1 :: u32) = r - 1" "unat (of_nat k - 1 :: u32) = k - 1"
    using u assms(2,4) unat_sub_small [of 1 "of_nat r"] unat_sub_small [of 1 "of_nat k"] by simp_all
  then have "\<not> video_num_columns c < of_nat k - 1" "\<not> video_num_lines c \<le> of_nat r - 1"
    using assms(2-5) by (simp_all add: word_less_nat_alt word_le_nat_alt)
  then show ?thesis using n v unfolding d
    by (simp add: con_char_def csi_param_def csi_final_def Let_def dec_par_def set_par_def gotoxy_def geometry_def push_bit_eq_mult mult.commute)
qed

theorem cursor_address_witness:
  "unat (cx (fold (con_char demo_ext) ([27, 91] @ dec 25 @ [59] @ dec 80 @ [72]) demo_screen)) = 79"
  using cursor_address [of demo_screen 25 80 demo_ext] by (simp add: demo_screen_def demo_con_def)

text \<open>
  ESC 7 and ESC 8 neither save nor restore the cursor. The code compares the cursor's column,
  not the character: unless the cursor stands in column 55 or 56 both sequences are without
  effect, and in column 55 the final byte of any unknown sequence saves the cursor.
\<close>

theorem esc_save_restore_ignored:
  assumes "esc_state c = 0"
  shows "(cx c \<noteq> 55 \<and> cx c \<noteq> 56 \<longrightarrow> fold (con_char e) [27, 55] c = c \<and> fold (con_char e) [27, 56] c = c) \<and>
    (cx c = 55 \<and> ch \<notin> {91, 69, 77, 68, 90} \<longrightarrow> fold (con_char e) [27, ch] c = save_cur c)"
  using assms by (auto simp: con_char_def con_plain_def con_escape_def save_cur_def)

theorem esc_save_restore_ignored_witness: "fold (con_char demo_ext) [27, 55] demo_screen = demo_screen"
proof -
  have "esc_state demo_screen = 0" "cx demo_screen = 80" by (simp_all add: demo_screen_def demo_con_def)
  then show ?thesis using esc_save_restore_ignored [of demo_screen demo_ext] by simp
qed

end
