(* ===== verification/Exec_Args.thy ===== *)
theory Exec_Args
  imports Exec
begin

text \<open>
  The arguments of a new program. \<open>create_tables\<close> builds, below the strings, the stack a program
  expects: the number of arguments, pointers to the two tables, and in the tables the addresses of
  the strings. \<open>copy_strings\<close> lays the strings out one after another at the top of the pages.
\<close>


subsection \<open>Words in user memory\<close>

lemma fs_mem_put_long:
  "fs_mem (put_fs_long v a s) x = (if x = a then ucast v else if x = a + 1 then ucast (drop_bit 8 v)
     else if x = a + 2 then ucast (drop_bit 16 v) else if x = a + 3 then ucast (drop_bit 24 v) else fs_mem s x)"
  by (auto simp: put_fs_long_def put_fs_byte_def)

lemma long_bytes:
  fixes v :: u32
  shows "ucast (ucast v :: u8) OR push_bit 8 (ucast (ucast (drop_bit 8 v) :: u8)) OR
    push_bit 16 (ucast (ucast (drop_bit 16 v) :: u8)) OR push_bit 24 (ucast (ucast (drop_bit 24 v) :: u8)) = v"
  by (rule bit_word_eqI) (auto simp: bit_simps not_less less_diff_conv2 le_diff_conv2, metis le_add_diff_inverse not_less)

lemma get_put_long: "get_fs_long a (put_fs_long v a s) = v"
proof -
  have "a + 1 \<noteq> a" "a + 2 \<noteq> a" "a + 3 \<noteq> a" "a + 2 \<noteq> a + 1" "a + 3 \<noteq> a + 1" "a + 3 \<noteq> a + 2" by simp_all
  then show ?thesis unfolding get_fs_long_def fs_mem_put_long using long_bytes [of v] by simp
qed

lemma get_long_cong: "(\<And>k. k < 4 \<Longrightarrow> fs_mem t (a + of_nat k) = fs_mem s (a + of_nat k)) \<Longrightarrow> get_fs_long a t = get_fs_long a s"
proof -
  assume "\<And>k. k < 4 \<Longrightarrow> fs_mem t (a + of_nat k) = fs_mem s (a + of_nat k)"
  from this [of 0] this [of 1] this [of 2] this [of 3] show ?thesis by (simp add: get_fs_long_def)
qed

text \<open>A write to a word leaves everything outside its four bytes alone.\<close>

lemma unat_add_nat: "unat (a :: u32) + k < 2 ^ 32 \<Longrightarrow> unat (a + of_nat k) = unat a + k"
  by (simp add: unat_word_ariths unat_of_nat)

lemma put_long_frame:
  assumes "unat a + 4 \<le> 2 ^ 32 - 1" "unat x < unat a \<or> unat a + 4 \<le> unat x"
  shows "fs_mem (put_fs_long v a s) x = fs_mem s x"
proof -
  have "unat (a + 1) = unat a + 1" "unat (a + 2) = unat a + 2" "unat (a + 3) = unat a + 3"
    using unat_add_nat [of a 1] unat_add_nat [of a 2] unat_add_nat [of a 3] assms(1) by simp_all
  then show ?thesis using assms(2) by (auto simp: fs_mem_put_long)
qed


subsection \<open>Strings\<close>

definition packed :: "u8 list list \<Rightarrow> u8 list" where
  "packed ss = concat (map (\<lambda>str. str @ [0]) ss)"

definition mem_holds :: "(u32 \<Rightarrow> u8) \<Rightarrow> u32 \<Rightarrow> u8 list \<Rightarrow> bool" where
  "mem_holds mem a bs \<longleftrightarrow> (\<forall>k<length bs. mem (a + of_nat k) = bs ! k)"

lemma mem_holds_append: "mem_holds mem a (xs @ ys) \<longleftrightarrow> mem_holds mem a xs \<and> mem_holds mem (a + of_nat (length xs)) ys"
proof -
  have "(\<forall>k<length xs + length ys. mem (a + of_nat k) = (xs @ ys) ! k) \<longleftrightarrow>
      (\<forall>k<length xs. mem (a + of_nat k) = xs ! k) \<and> (\<forall>k<length ys. mem (a + of_nat (length xs) + of_nat k) = ys ! k)"
    (is "?A \<longleftrightarrow> ?B \<and> ?C")
  proof (intro iffI conjI)
    assume ?A
    then show ?B by (auto simp: nth_append)
    show ?C
    proof (intro allI impI)
      fix k assume "k < length ys"
      then show "mem (a + of_nat (length xs) + of_nat k) = ys ! k"
        using \<open>?A\<close> [rule_format, of "length xs + k"] by (simp add: add.assoc)
    qed
  next
    assume bc: "?B \<and> ?C"
    show ?A
    proof (intro allI impI)
      fix k assume k: "k < length xs + length ys"
      show "mem (a + of_nat k) = (xs @ ys) ! k"
      proof (cases "k < length xs")
        case False
        then obtain j where "k = length xs + j" by (metis le_iff_add not_less)
        then show ?thesis using bc k by (simp add: nth_append add.assoc)
      qed (use bc in \<open>simp add: nth_append\<close>)
    qed
  qed
  then show ?thesis by (simp add: mem_holds_def)
qed

lemma mem_holds_cong: "(\<And>k. k < length bs \<Longrightarrow> m (a + of_nat k) = n (a + of_nat k)) \<Longrightarrow> mem_holds m a bs \<longleftrightarrow> mem_holds n a bs"
  by (simp add: mem_holds_def)

lemma packed_simps [simp]: "packed [] = []" "packed (x # xs) = x @ 0 # packed xs" "packed (xs @ ys) = packed xs @ packed ys"
  by (simp_all add: packed_def)

lemma skip_string_holds:
  assumes "mem_holds (fs_mem s) p (str @ [0])" "0 \<notin> set str" "length str < fuel"
  shows "skip_string fuel p s = Some (p + of_nat (length str + 1))"
  using assms
proof (induction str arbitrary: p fuel)
  case Nil
  then show ?case by (cases fuel) (auto simp: mem_holds_def get_fs_byte_def)
next
  case (Cons c str)
  then obtain n where n: "fuel = Suc n" by (cases fuel) auto
  have h: "fs_mem s p = c" "mem_holds (fs_mem s) (p + 1) (str @ [0])"
    using Cons.prems(1) mem_holds_append [of "fs_mem s" p "[c]" "str @ [0]"] by (simp_all add: mem_holds_def [of _ _ "[c]"])
  then show ?case using Cons.IH [OF h(2), of n] Cons.prems n by (simp add: get_fs_byte_def add.assoc)
qed


subsection \<open>The tables\<close>

lemma put_pointers_spec:
  assumes "mem_holds (fs_mem s) p (packed ss)" "\<forall>str\<in>set ss. 0 \<notin> set str \<and> length str < fuel"
    "unat t + 4 * (length ss + 1) \<le> unat p" "unat p + length (packed ss) < 2 ^ 32"
  shows "\<exists>mem. put_pointers fuel (length ss) t p s = Done (p + of_nat (length (packed ss))) (s\<lparr>fs_mem := mem\<rparr>) \<and>
    (\<forall>x. unat x < unat t \<or> unat t + 4 * (length ss + 1) \<le> unat x \<longrightarrow> mem x = fs_mem s x) \<and>
    (\<forall>i<length ss. get_fs_long (t + 4 * of_nat i) (s\<lparr>fs_mem := mem\<rparr>) = p + of_nat (length (packed (take i ss)))) \<and>
    get_fs_long (t + 4 * of_nat (length ss)) (s\<lparr>fs_mem := mem\<rparr>) = 0"
  using assms
proof (induction ss arbitrary: t p s)
  case Nil
  have "put_fs_long 0 t s = s\<lparr>fs_mem := fs_mem (put_fs_long 0 t s)\<rparr>" by (simp add: put_fs_long_def put_fs_byte_def)
  moreover have "fs_mem (put_fs_long 0 t s) x = fs_mem s x" if "unat x < unat t \<or> unat t + 4 \<le> unat x" for x
    using Nil.prems that by (intro put_long_frame) simp_all
  ultimately show ?case using get_put_long [of t 0 s] by (intro exI [of _ "fs_mem (put_fs_long 0 t s)"]) simp
next
  case (Cons str ss)
  let ?s = "put_fs_long p t s" and ?q = "p + of_nat (length str + 1)"
  have frame: "fs_mem ?s x = fs_mem s x" if "unat x < unat t \<or> unat t + 4 \<le> unat x" for x
    using Cons.prems(3,4) that by (intro put_long_frame) simp_all
  have t4: "unat (t + 4) = unat t + 4" using unat_add_nat [of t 4] Cons.prems(3,4) by simp
  have q: "unat ?q = unat p + (length str + 1)" using Cons.prems(4) by (intro unat_add_nat) simp
  have "fs_mem ?s (p + of_nat k) = fs_mem s (p + of_nat k)" if "k < length (packed (str # ss))" for k
    using that Cons.prems(3,4) unat_add_nat [of p k] by (intro frame) simp
  then have "mem_holds (fs_mem ?s) p (packed (str # ss))" using mem_holds_cong Cons.prems(1) by blast
  then have h: "mem_holds (fs_mem ?s) p (str @ [0])" "mem_holds (fs_mem ?s) ?q (packed ss)"
    using mem_holds_append [of "fs_mem ?s" p "str @ [0]" "packed ss"] by simp_all
  have sk: "skip_string fuel p ?s = Some ?q" using h(1) Cons.prems(2) by (intro skip_string_holds) auto
  obtain mem where m: "put_pointers fuel (length ss) (t + 4) ?q ?s = Done (?q + of_nat (length (packed ss))) (?s\<lparr>fs_mem := mem\<rparr>)"
    "\<forall>x. unat x < unat (t + 4) \<or> unat (t + 4) + 4 * (length ss + 1) \<le> unat x \<longrightarrow> mem x = fs_mem ?s x"
    "\<forall>i<length ss. get_fs_long (t + 4 + 4 * of_nat i) (?s\<lparr>fs_mem := mem\<rparr>) = ?q + of_nat (length (packed (take i ss)))"
    "get_fs_long (t + 4 + 4 * of_nat (length ss)) (?s\<lparr>fs_mem := mem\<rparr>) = 0"
    using Cons.IH [OF h(2), of "t + 4"] Cons.prems t4 q by auto
  have su: "?s\<lparr>fs_mem := mem\<rparr> = s\<lparr>fs_mem := mem\<rparr>" by (simp add: put_fs_long_def put_fs_byte_def)
  have first: "get_fs_long t (s\<lparr>fs_mem := mem\<rparr>) = p"
  proof -
    have "fs_mem (s\<lparr>fs_mem := mem\<rparr>) (t + of_nat k) = fs_mem ?s (t + of_nat k)" if "k < 4" for k
      using m(2) that t4 unat_add_nat [of t k] Cons.prems(3,4) by simp
    then show ?thesis using get_long_cong [of "s\<lparr>fs_mem := mem\<rparr>" t ?s] get_put_long [of t p s] by simp
  qed
  have "get_fs_long (t + 4 * of_nat i) (s\<lparr>fs_mem := mem\<rparr>) = p + of_nat (length (packed (take i (str # ss))))"
    if "i < length (str # ss)" for i
    using first m(3) that by (cases i) (auto simp: su algebra_simps)
  moreover have "\<forall>x. unat x < unat t \<or> unat t + 4 * (length (str # ss) + 1) \<le> unat x \<longrightarrow> mem x = fs_mem s x"
    using m(2) frame t4 by auto
  ultimately show ?case using m(1,4) sk by (intro exI [of _ mem]) (simp add: su algebra_simps)
qed


text \<open>
  \<open>string_table s t ss\<close>: from address \<open>t\<close> on, one pointer to each of the strings \<open>ss\<close>, and a zero.
\<close>

definition string_table :: "'a sched_state_scheme \<Rightarrow> u32 \<Rightarrow> u8 list list \<Rightarrow> bool" where
  "string_table s t ss \<longleftrightarrow>
     (\<forall>i<length ss. mem_holds (fs_mem s) (get_fs_long (t + 4 * of_nat i) s) (ss ! i @ [0])) \<and>
     get_fs_long (t + 4 * of_nat (length ss)) s = 0"

lemma mem_holds_packed_nth:
  assumes "mem_holds mem p (packed ss)" "i < length ss"
  shows "mem_holds mem (p + of_nat (length (packed (take i ss)))) (ss ! i @ [0])"
proof -
  have "packed ss = packed (take i ss) @ (ss ! i @ [0]) @ packed (drop (Suc i) ss)"
    using assms(2) by (metis append.assoc append_Cons append_Nil id_take_nth_drop packed_simps(2,3))
  then show ?thesis using assms(1) by (metis mem_holds_append)
qed

lemma mem_holds_above:
  assumes "\<And>x. unat (p :: u32) \<le> unat x \<Longrightarrow> m x = n x" "unat p + length bs < 2 ^ 32" "mem_holds n p bs"
  shows "mem_holds m p bs"
  using assms(3) assms(1) unat_add_nat [of p] assms(2) by (auto simp: mem_holds_def)

lemma get_long_other:
  assumes "\<And>x. unat a \<le> unat x \<Longrightarrow> unat x < unat a + 4 \<Longrightarrow> fs_mem t x = fs_mem s x" "unat a + 4 < 2 ^ 32"
  shows "get_fs_long a t = get_fs_long a s"
  using assms unat_add_nat [of a] by (intro get_long_cong) simp

lemma string_table_pointers:
  assumes "\<forall>i<length ss. get_fs_long (t + 4 * of_nat i) s = p + of_nat (length (packed (take i ss)))"
    "get_fs_long (t + 4 * of_nat (length ss)) s = 0" "mem_holds (fs_mem s) p (packed ss)"
  shows "string_table s t ss"
  using assms by (simp add: string_table_def mem_holds_packed_nth)

text \<open>Where the tables go: below the aligned address, with room for the three words under them.\<close>

lemma unat_and_FFFFFFFC: "unat ((0xFFFFFFFC :: u32) AND p) = 4 * (unat p div 4)"
proof -
  have "(0xFFFFFFFC :: u32) = NOT (mask 2)" by (simp add: mask_eq_exp_minus_1)
  then show ?thesis using unat_and_not_mask [of p 2] by (simp add: and.commute)
qed

lemma unat_sub_nat: "k \<le> unat (a :: u32) \<Longrightarrow> unat (a - of_nat k) = unat a - k"
proof -
  assume k: "k \<le> unat a"
  moreover have "unat a < 2 ^ 32" using unsigned_less [of a] by simp
  ultimately have "unat (of_nat k :: u32) = k" by (simp add: unat_of_nat)
  then show ?thesis using k by (simp add: unat_sub word_le_nat_alt)
qed

lemma table_places:
  fixes p :: u32
  defines "envp \<equiv> \<lambda>E. (0xFFFFFFFC AND p) - 4 * of_nat (E + 1)"
  assumes "4 * (A + E) + 24 \<le> unat p"
  shows "unat (envp E) + 4 * (E + 1) = 4 * (unat p div 4)"
    "unat (envp E - 4 * of_nat (A + 1)) + 4 * (A + 1) = unat (envp E)"
    "unat (envp E - 4 * of_nat (A + 1) - 4) + 4 = unat (envp E - 4 * of_nat (A + 1))"
    "unat (envp E - 4 * of_nat (A + 1) - 8) + 8 = unat (envp E - 4 * of_nat (A + 1))"
    "unat (envp E - 4 * of_nat (A + 1) - 12) + 12 = unat (envp E - 4 * of_nat (A + 1))"
proof -
  let ?q = "0xFFFFFFFC AND p" and ?env = "envp E"
  let ?argv = "?env - 4 * of_nat (A + 1)"
  have q: "unat ?q = 4 * (unat p div 4)" by (rule unat_and_FFFFFFFC)
  have d: "unat p \<le> 4 * (unat p div 4) + 3" by presburger
  show e: "unat ?env + 4 * (E + 1) = 4 * (unat p div 4)"
    using unat_sub_nat [of "4 * (E + 1)" ?q] q d assms(2) by (simp add: envp_def)
  show a: "unat ?argv + 4 * (A + 1) = unat ?env"
    using unat_sub_nat [of "4 * (A + 1)" ?env] e d assms(2) by simp
  show "unat (?argv - 4) + 4 = unat ?argv" "unat (?argv - 8) + 8 = unat ?argv" "unat (?argv - 12) + 12 = unat ?argv"
    using unat_sub_nat [of 4 ?argv] unat_sub_nat [of 8 ?argv] unat_sub_nat [of 12 ?argv] a e d assms(2) by simp_all
qed

text \<open>The three words under the tables.\<close>

lemma put_three:
  fixes a x y z :: u32 and s :: "'a sched_state_scheme"
  assumes "12 \<le> unat a"
  defines "u \<equiv> put_fs_long z (a - 12) (put_fs_long y (a - 8) (put_fs_long x (a - 4) s))"
  shows "\<exists>mem. u = s\<lparr>fs_mem := mem\<rparr>" "get_fs_long (a - 12) u = z" "get_fs_long (a - 8) u = y" "get_fs_long (a - 4) u = x"
    "\<And>b. unat a \<le> unat b \<Longrightarrow> fs_mem u b = fs_mem s b"
proof -
  have w: "unat (a - 12) + 12 = unat a" "unat (a - 8) + 8 = unat a" "unat (a - 4) + 4 = unat a" "unat a < 2 ^ 32"
    using unat_sub_nat [of 4 a] unat_sub_nat [of 8 a] unat_sub_nat [of 12 a] assms(1) unsigned_less [of a] by simp_all
  show "\<exists>mem. u = s\<lparr>fs_mem := mem\<rparr>"
    by (intro exI [of _ "fs_mem u"]) (simp add: u_def put_fs_long_def put_fs_byte_def)
  show "get_fs_long (a - 12) u = z" by (simp add: u_def get_put_long)
  show "get_fs_long (a - 8) u = y"
    using get_long_other [of "a - 8" u "put_fs_long y (a - 8) (put_fs_long x (a - 4) s)"] w
    by (simp add: u_def put_long_frame get_put_long)
  have "get_fs_long (a - 4) u = get_fs_long (a - 4) (put_fs_long x (a - 4) s)"
    unfolding u_def using w by (intro get_long_other) (simp_all add: put_long_frame)
  then show "get_fs_long (a - 4) u = x" by (simp add: get_put_long)
  show "fs_mem u b = fs_mem s b" if "unat a \<le> unat b" for b
    using that w by (simp add: u_def put_long_frame)
qed


text \<open>The two tables, the one of the arguments right below the one of the environment.\<close>

lemma two_tables:
  assumes hu: "mem_holds (fs_mem u) p (packed (args @ envs))" and strs: "\<forall>str\<in>set (args @ envs). 0 \<notin> set str \<and> length str < fuel"
    and w: "unat argv + 4 * (length args + 1) = unat envp" "unat envp + 4 * (length envs + 1) \<le> unat p"
    and top: "unat p + length (packed (args @ envs)) < 2 ^ 32"
  shows "\<exists>m q. kbind (put_pointers fuel (length args) argv p u) (put_pointers fuel (length envs) envp) = Done q (u\<lparr>fs_mem := m\<rparr>) \<and>
    (\<forall>x. unat x < unat argv \<or> unat p \<le> unat x \<longrightarrow> m x = fs_mem u x) \<and>
    string_table (u\<lparr>fs_mem := m\<rparr>) argv args \<and> string_table (u\<lparr>fs_mem := m\<rparr>) envp envs"
proof -
  let ?A = "length args" and ?E = "length envs" and ?q = "p + of_nat (length (packed args))"
  have hp: "mem_holds (fs_mem u) p (packed args)" "mem_holds (fs_mem u) ?q (packed envs)" using hu by (simp_all add: mem_holds_append)
  have q: "unat ?q = unat p + length (packed args)" using top by (intro unat_add_nat) simp
  obtain m1 where m1: "put_pointers fuel ?A argv p u = Done ?q (u\<lparr>fs_mem := m1\<rparr>)"
      "\<forall>x. unat x < unat argv \<or> unat argv + 4 * (?A + 1) \<le> unat x \<longrightarrow> m1 x = fs_mem u x"
      "\<forall>i<?A. get_fs_long (argv + 4 * of_nat i) (u\<lparr>fs_mem := m1\<rparr>) = p + of_nat (length (packed (take i args)))"
      "get_fs_long (argv + 4 * of_nat ?A) (u\<lparr>fs_mem := m1\<rparr>) = 0"
    using put_pointers_spec [OF hp(1), of fuel argv] strs top w by auto
  have h1: "mem_holds m1 ?q (packed envs)"
  proof (rule mem_holds_above [OF _ _ hp(2)])
    show "m1 x = fs_mem u x" if "unat ?q \<le> unat x" for x using that m1(2) q w by simp
  qed (use q top in simp)
  obtain m2 where m2: "put_pointers fuel ?E envp ?q (u\<lparr>fs_mem := m1\<rparr>) = Done (?q + of_nat (length (packed envs))) (u\<lparr>fs_mem := m2\<rparr>)"
      "\<forall>x. unat x < unat envp \<or> unat envp + 4 * (?E + 1) \<le> unat x \<longrightarrow> m2 x = m1 x"
      "\<forall>i<?E. get_fs_long (envp + 4 * of_nat i) (u\<lparr>fs_mem := m2\<rparr>) = ?q + of_nat (length (packed (take i envs)))"
      "get_fs_long (envp + 4 * of_nat ?E) (u\<lparr>fs_mem := m2\<rparr>) = 0"
    using put_pointers_spec [of "u\<lparr>fs_mem := m1\<rparr>" ?q envs fuel envp] h1 strs top w(2) q by auto
  have frame: "m2 x = fs_mem u x" if "unat x < unat argv \<or> unat p \<le> unat x" for x using m1(2) m2(2) w that by auto
  have hold: "mem_holds m2 p (packed (args @ envs))" using frame by (intro mem_holds_above [OF _ top hu]) blast
  have "get_fs_long (argv + 4 * of_nat i) (u\<lparr>fs_mem := m2\<rparr>) = get_fs_long (argv + 4 * of_nat i) (u\<lparr>fs_mem := m1\<rparr>)" if "i \<le> ?A" for i
    using m2(2) unat_add_nat [of argv "4 * i"] that w top by (intro get_long_other) simp_all
  then have "string_table (u\<lparr>fs_mem := m2\<rparr>) argv args" "string_table (u\<lparr>fs_mem := m2\<rparr>) envp envs"
    using string_table_pointers [of args argv "u\<lparr>fs_mem := m2\<rparr>" p]
      string_table_pointers [of envs envp "u\<lparr>fs_mem := m2\<rparr>" ?q] m1(3,4) m2(3,4) hold
    by (simp_all add: mem_holds_append)
  then show ?thesis using m1(1) m2(1) frame by auto
qed

text \<open>
  C29: \<open>create_tables\<close> builds the stack of a new program. When memory holds the strings of the arguments and
  of the environment one after another from \<open>p\<close> on, and there is room below, the result \<open>sp\<close> is where
  the number of arguments is, the two words above it point to the tables, each entry of a table is the address
  of the right string and each table ends with a zero; everything from \<open>p\<close> up is as before.
\<close>

theorem create_tables_layout:
  assumes "mem_holds (fs_mem s) p (packed (args @ envs))" "\<forall>str\<in>set (args @ envs). 0 \<notin> set str \<and> length str < fuel"
    "4 * (length args + length envs) + 24 \<le> unat p" "unat p + length (packed (args @ envs)) < 2 ^ 32"
  shows "\<exists>sp t. create_tables fuel p (length args) (length envs) s = Done sp t \<and>
    (\<exists>mem. t = s\<lparr>fs_mem := mem\<rparr>) \<and> (\<forall>x. p \<le> x \<longrightarrow> fs_mem t x = fs_mem s x) \<and> get_fs_long sp t = of_nat (length args) \<and>
    string_table t (get_fs_long (sp + 4) t) args \<and> string_table t (get_fs_long (sp + 8) t) envs"
proof -
  let ?A = "length args" and ?E = "length envs"
  define envp where "envp = (0xFFFFFFFC AND p) - 4 * of_nat (?E + 1)"
  define argv where "argv = envp - 4 * of_nat (?A + 1)"
  define u where "u = put_fs_long (of_nat ?A) (argv - 12) (put_fs_long argv (argv - 8) (put_fs_long envp (argv - 4) s))"
  have w: "unat envp + 4 * (?E + 1) = 4 * (unat p div 4)" "unat argv + 4 * (?A + 1) = unat envp"
      "unat (argv - 4) + 4 = unat argv" "unat (argv - 8) + 8 = unat argv" "unat (argv - 12) + 12 = unat argv"
    using table_places [OF assms(3)] by (simp_all add: envp_def argv_def)
  have le: "unat envp + 4 * (?E + 1) \<le> unat p" "unat p < 2 ^ 32" "12 \<le> unat argv"
    using w(1,5) assms(4) by (presburger, simp, linarith)
  note three = put_three [OF le(3), where z = "of_nat ?A" and y = argv and x = envp and s = s, folded u_def]
  have above: "fs_mem u x = fs_mem s x" if "unat p \<le> unat x" for x using that w(2) le(1) by (intro three(5)) linarith
  obtain m q where m: "kbind (put_pointers fuel ?A argv p u) (put_pointers fuel ?E envp) = Done q (u\<lparr>fs_mem := m\<rparr>)"
      "\<forall>x. unat x < unat argv \<or> unat p \<le> unat x \<longrightarrow> m x = fs_mem u x"
      "string_table (u\<lparr>fs_mem := m\<rparr>) argv args" "string_table (u\<lparr>fs_mem := m\<rparr>) envp envs"
    using two_tables [OF mem_holds_above [OF above assms(4,1)] assms(2) w(2) le(1) assms(4)] by blast
  let ?t = "u\<lparr>fs_mem := m\<rparr>"
  have words: "get_fs_long (argv - 12) ?t = of_nat ?A" "get_fs_long (argv - 8) ?t = argv" "get_fs_long (argv - 4) ?t = envp"
    using three(2-4) get_long_other [of "argv - 12" ?t u] get_long_other [of "argv - 8" ?t u]
      get_long_other [of "argv - 4" ?t u] m(2) w le by simp_all
  have "create_tables fuel p ?A ?E s =
      kbind (kbind (put_pointers fuel ?A argv p u) (put_pointers fuel ?E envp)) (\<lambda>_ s. Done (argv - 12) s)"
    unfolding create_tables_def Let_def envp_def [symmetric] argv_def [symmetric] u_def [symmetric] by (simp add: kbind_assoc)
  then have "create_tables fuel p ?A ?E s = Done (argv - 12) ?t" by (simp add: m(1))
  moreover have "argv - 12 + 4 = argv - 8" "argv - 12 + 8 = argv - 4" by simp_all
  moreover have "fs_mem ?t x = fs_mem s x" if "p \<le> x" for x
    using m(2) above that by (simp add: word_le_nat_alt)
  ultimately show ?thesis using words m(3,4) three(1) by (intro exI [of _ "argv - 12"] exI [of _ ?t]) auto
qed


definition demo_strings :: sched_state where
  "demo_strings = demo_sched\<lparr>fs_mem := \<lambda>a. if a = 4096 then 108 else if a = 4097 then 115 else if a = 4099 then 47
     else if a = 4101 then 88 else if a = 4102 then 61 else 0\<rparr>"

theorem create_tables_layout_witness:
  "\<exists>sp t. create_tables 8 4096 (length [[108, 115], [47 :: u8]]) (length [[88, 61 :: u8]]) demo_strings = Done sp t \<and>
    (\<exists>mem. t = demo_strings\<lparr>fs_mem := mem\<rparr>) \<and> (\<forall>x\<ge>4096. fs_mem t x = fs_mem demo_strings x) \<and> get_fs_long sp t = 2 \<and>
    string_table t (get_fs_long (sp + 4) t) [[108, 115], [47]] \<and> string_table t (get_fs_long (sp + 8) t) [[88, 61]]"
proof -
  have "mem_holds (fs_mem demo_strings) 4096 (packed ([[108, 115], [47]] @ [[88, 61]]))"
    by (simp add: mem_holds_def demo_strings_def less_Suc_eq)
  then show ?thesis using create_tables_layout [of demo_strings 4096 "[[108, 115], [47]]" "[[88, 61]]" 8] by simp
qed

end
