(* ===== verification/Hd_Transfer.thy ===== *)
theory Hd_Transfer
  imports Hd
begin

text \<open>
  What the hard disk driver does with a request: the command it sends addresses the right sector, the two
  interrupts of a read put the two sectors into the buffer, and the driver always comes back.
\<close>


subsection \<open>Cylinder, head and sector\<close>

lemma hd_place_spec:
  assumes "hd_place info block = Some (c, h, n)"
  shows "(unat c * unat (hi_head info) + unat h) * unat (hi_sect info) + (unat n - 1) = unat block"
    "1 \<le> unat n" "unat n \<le> unat (hi_sect info)" "h < hi_head info"
proof -
  let ?S = "unat (hi_sect info)" and ?H = "unat (hi_head info)" and ?b = "unat block"
  have pos: "0 < ?S" "0 < ?H" using assms by (auto simp: hd_place_def unat_gt_0 split: if_splits)
  have e: "c = block div hi_sect info div hi_head info" "h = block div hi_sect info mod hi_head info"
      "n = block mod hi_sect info + 1"
    using assms by (auto simp: hd_place_def Let_def split: if_splits)
  have m: "unat (block mod hi_sect info) = ?b mod ?S" "unat c = ?b div ?S div ?H" "unat h = ?b div ?S mod ?H"
    by (simp_all add: e unat_div unat_mod)
  have lt: "?b mod ?S < ?S" "?S < 2 ^ 32" using pos unsigned_less [of "hi_sect info"] by simp_all
  then have n: "unat n = ?b mod ?S + 1" using m(1) by (simp add: e(3) unat_word_ariths)
  show "(unat c * ?H + unat h) * ?S + (unat n - 1) = ?b" by (simp add: m n)
  show "1 \<le> unat n" "unat n \<le> ?S" using n lt by simp_all
  show "h < hi_head info" using pos m(3) by (simp add: word_less_nat_alt)
qed


text \<open>What \<^verbatim>\<open>hd_out\<close> writes to the registers, the last first.\<close>

definition hd_regs :: "hd_i_struct \<Rightarrow> u32 \<Rightarrow> u32 \<Rightarrow> u32 \<Rightarrow> u32 \<Rightarrow> u32 \<Rightarrow> u8 \<Rightarrow> (nat \<times> u8) list" where
  "hd_regs info drive nsect sect head cyl cmd =
     [(0x1F7, cmd), (0x1F6, ucast (0xA0 OR push_bit 4 drive OR head)), (0x1F5, ucast (drop_bit 8 cyl)), (0x1F4, ucast cyl),
      (0x1F3, ucast sect), (0x1F2, ucast nsect), (0x1F1, ucast (drop_bit 2 (hi_wpcom info))), (0x3F6, ucast (hi_ctl info))]"

lemma controller_ready_now:
  assumes "ucast (io_in s (io_clock s) HD_STATUS) AND (0x80 :: u8) = 0"
  shows "controller_ready s = (99999, s\<lparr>io_clock := io_clock s + 1\<rparr>)"
proof -
  have "controller_wait (Suc 99998) s = (Suc 99998, s\<lparr>io_clock := io_clock s + 1\<rparr>)"
    using assms by (simp only: controller_wait.simps) (simp add: inb_def)
  then show ?thesis by (simp add: controller_ready_def)
qed

lemma hd_out_ready:
  assumes "ucast (io_in s (io_clock s) HD_STATUS) AND (0x80 :: u8) = 0" "drive \<le> 1" "head \<le> 15"
  shows "hd_out drive nsect sect head cyl cmd h s =
    Done () (s\<lparr>io_clock := io_clock s + 1, do_hd := Some h,
               out_ports := hd_regs (hd_info s (unat drive)) drive nsect sect head cyl cmd @ out_ports s\<rparr>)"
proof -
  have "HD_DATA + 1 = 0x1F1" "HD_DATA + 2 = 0x1F2" "HD_DATA + 3 = 0x1F3" "HD_DATA + 4 = 0x1F4" "HD_DATA + 5 = 0x1F5"
      "HD_DATA + 6 = 0x1F6" "HD_DATA + 7 = 0x1F7" "HD_CMD = 0x3F6"
    by (simp_all add: HD_DATA_def HD_CMD_def)
  then show ?thesis
    using assms by (simp add: hd_out_def controller_ready_now Let_def outb_def hd_regs_def not_less [symmetric])
qed

text \<open>The status that \<^verbatim>\<open>win_result\<close> takes for success.\<close>

definition win_ok :: "u16 \<Rightarrow> bool" where
  "win_ok v \<longleftrightarrow> (ucast v :: u8) AND 0xF1 = 0x50"

lemma win_result_ok: "win_ok (io_in s (io_clock s) HD_STATUS) \<Longrightarrow> win_result s = (False, s\<lparr>io_clock := io_clock s + 1\<rparr>)"
proof -
  assume "win_ok (io_in s (io_clock s) HD_STATUS)"
  moreover have "BUSY_STAT OR READY_STAT OR WRERR_STAT OR SEEK_STAT OR ERR_STAT = 0xF1" "READY_STAT OR SEEK_STAT = 0x50"
    by (simp_all add: BUSY_STAT_def READY_STAT_def WRERR_STAT_def SEEK_STAT_def ERR_STAT_def)
  ultimately show ?thesis by (simp add: win_result_def inb_def win_ok_def)
qed


subsection \<open>Reading a block\<close>

text \<open>
  A request to read a block is the only one in the queue, the drive is set up, and its partition holds the block.
\<close>

definition hd_pending :: "'a hd_state_scheme \<Rightarrow> nat \<Rightarrow> nat \<Rightarrow> nat \<Rightarrow> bool" where
  "hd_pending s r b minor \<longleftrightarrow>
     (let rq = request_table s r; info = hd_info s (minor div 5)
      in current_request s 3 = Some r \<and> r_dev rq = 0x300 + int minor \<and> minor < 5 * NR_HD s \<and> NR_HD s \<le> 2 \<and>
         r_cmd rq = READ \<and> r_nr_sectors rq = 2 \<and> r_buffer rq = b \<and> r_off rq = 0 \<and> r_bh rq = Some b \<and> r_next rq = None \<and>
         r_waiting rq = 0 \<and> b_lock (buffers s b) \<noteq> 0 \<and> \<not> hd_reset s \<and> \<not> hd_recalibrate s \<and>
         r_sector rq + 2 \<le> nr_sects (hd s minor) \<and> hi_sect info \<noteq> 0 \<and> hi_head info \<noteq> 0 \<and> hi_head info \<le> 16)"

lemma start_read:
  assumes p: "hd_pending s r b minor" and rdy: "ucast (io_in s (io_clock s) HD_STATUS) AND (0x80 :: u8) = 0"
  obtains c h n where "hd_place (hd_info s (minor div 5)) (r_sector (request_table s r) + start_sect (hd s minor)) = Some (c, h, n)"
    "do_hd_request s = Done () (s\<lparr>io_clock := io_clock s + 1, do_hd := Some Read_Intr,
       out_ports := hd_regs (hd_info s (minor div 5)) (of_nat (minor div 5)) 2 n h c WIN_READ @ out_ports s\<rparr>)"
proof -
  let ?rq = "request_table s r" and ?info = "hd_info s (minor div 5)"
  let ?block = "r_sector ?rq + start_sect (hd s minor)"
  obtain c h n where pl: "hd_place ?info ?block = Some (c, h, n)"
    using p by (auto simp: hd_pending_def hd_place_def Let_def)
  have "h < hi_head ?info" by (rule hd_place_spec(4) [OF pl])
  then have h15: "h \<le> 15" using p by (simp add: hd_pending_def Let_def word_less_nat_alt word_le_nat_alt)
  have m: "minor < 10" using p by (simp add: hd_pending_def Let_def)
  have "0x300 + int minor = int minor + 3 * 256" by simp
  then have dv: "(0x300 + int minor) div 256 = 3" using m by simp
  then have dev: "nat ((0x300 + int minor) mod 256) = minor"
    using div_mult_mod_eq [of "0x300 + int minor" 256] by simp
  have small: "(of_nat (minor div 5) :: u32) \<le> 1" "unat (of_nat (minor div 5) :: u32) = minor div 5"
    using m by (simp_all add: word_le_nat_alt unat_of_nat)
  have "\<not> nr_sects (hd s minor) < r_sector ?rq + 2" using p by (simp add: hd_pending_def Let_def not_less)
  then have "do_hd_request s = hd_out (of_nat (minor div 5)) 2 n h c WIN_READ Read_Intr s"
    using p pl dev dv by (simp add: do_hd_request_def hd_pending_def Let_def READ_def WRITE_def)
  with hd_out_ready [OF rdy small(1) h15] have "do_hd_request s = Done () (s\<lparr>io_clock := io_clock s + 1, do_hd := Some Read_Intr,
       out_ports := hd_regs ?info (of_nat (minor div 5)) 2 n h c WIN_READ @ out_ports s\<rparr>)"
    by (simp add: small(2))
  then show thesis using that pl by blast
qed


text \<open>An interrupt after a successful sector.\<close>

definition sector_read :: "nat \<Rightarrow> 'a hd_state_scheme \<Rightarrow> 'a hd_state_scheme" where
  "sector_read r s =
     (let rq = request_table s r
      in s\<lparr>io_clock := io_clock s + 257, out_ports := [(0x20, 0x20), (0xA0, 0x20)] @ out_ports s, do_hd := None,
           b_data := (b_data s)(r_buffer rq := words_at (\<lambda>t. io_in s t HD_DATA) (io_clock s + 1) (r_off rq) 256 (b_data s (r_buffer rq))),
           request_table := (request_table s)(r := rq\<lparr>r_errors := 0, r_off := r_off rq + 512, r_sector := r_sector rq + 1,
             r_nr_sectors := r_nr_sectors rq - 1\<rparr>)\<rparr>)"

lemma hd_interrupt_read:
  assumes "do_hd s = Some Read_Intr" "current_request s 3 = Some r" "win_ok (io_in s (io_clock s) HD_STATUS)"
  shows "hd_interrupt s = (if r_nr_sectors (request_table s r) - 1 \<noteq> 0 then Done () ((sector_read r s)\<lparr>do_hd := Some Read_Intr\<rparr>)
     else do_hd_request (end_request 3 1 (sector_read r s)))"
proof -
  define u where "u = outb 0x20 0x20 ((outb 0x20 0xA0 s)\<lparr>do_hd := None\<rparr>)"
  define v where "v = upd_req r (\<lambda>q. q\<lparr>r_errors := 0, r_off := r_off q + 512, r_sector := r_sector q + 1, r_nr_sectors := r_nr_sectors q - 1\<rparr>)
     (port_read HD_DATA (r_buffer (request_table s r)) (r_off (request_table s r)) 256 (u\<lparr>io_clock := io_clock s + 1\<rparr>))"
  have u: "io_clock u = io_clock s" "io_in u = io_in s" "request_table u = request_table s" "current_request u = current_request s"
    by (simp_all add: u_def outb_def)
  have v: "v = sector_read r s"
    by (rule hd_state.equality) (simp_all add: v_def u_def outb_def port_read_spec upd_req_def sector_read_def Let_def)
  have "win_result u = (False, u\<lparr>io_clock := io_clock s + 1\<rparr>)" using win_result_ok [of u] assms(3) u by simp
  then have "read_intr u = (if r_nr_sectors (request_table v r) \<noteq> 0 then Done () (v\<lparr>do_hd := Some Read_Intr\<rparr>) else do_hd_request (end_request 3 1 v))"
    using assms(2) u by (simp add: read_intr_def Let_def v_def)
  moreover have "r_nr_sectors (request_table v r) = r_nr_sectors (request_table s r) - 1" by (simp add: v sector_read_def Let_def)
  moreover have "hd_interrupt s = read_intr u" using assms(1) by (simp add: hd_interrupt_def Let_def u_def)
  ultimately show ?thesis using v by simp
qed

lemma end_request_last:
  assumes "current_request s 3 = Some r" "r_bh (request_table s r) = Some b" "r_next (request_table s r) = None"
    "r_waiting (request_table s r) = 0"
  shows "buffers (end_request 3 up s) = (buffers s)(b := (buffers s b)\<lparr>b_uptodate := up, b_lock := 0\<rparr>)"
    "b_data (end_request 3 up s) = b_data s" "current_request (end_request 3 up s) = (current_request s)(3 := None)"
    "request_table (end_request 3 up s) = (request_table s)(r := (request_table s r)\<lparr>r_dev := - 1\<rparr>)"
  using assms
  by (simp_all add: end_request_def drv_unlock_buffer_def Let_def upd_req_def upd_buf_def wake_up_def upd_task_def printk_def)

lemma do_hd_request_idle: "current_request s 3 = None \<Longrightarrow> do_hd_request s = Done () s"
  by (simp add: do_hd_request_def)

lemma two_sectors:
  "words_at w t' 512 256 (words_at w t 0 256 old) j =
     (if j < 1024 then let k = (if j < 512 then t else t') + j mod 512 div 2 in if even j then ucast (w k) else ucast (drop_bit 8 (w k))
      else old j)"
proof -
  have "j mod 512 = j - 512" if "512 \<le> j" "j < 1024" using that by (simp add: mod_if)
  then show ?thesis by (auto simp: words_at_def Let_def)
qed


text \<open>
  C31: Reading a block from the hard disk. \<open>do_hd_request\<close> sends a read command whose cylinder, head
  and sector are those of the block counted from the start of its partition. When the controller reports success
  at the two interrupts that follow, the buffer holds the two sectors that were at the data port, in order, and
  nothing else in the buffers changes; the buffer is up to date and unlocked, and the request is done.
\<close>

theorem hd_read_block:
  assumes "hd_pending s r b minor" "ucast (io_in s (io_clock s) HD_STATUS) AND (0x80 :: u8) = 0"
    "win_ok (io_in s (io_clock s + 1) HD_STATUS)" "win_ok (io_in s (io_clock s + 258) HD_STATUS)"
  defines "info \<equiv> hd_info s (minor div 5)"
  shows "\<exists>c h n u v t. do_hd_request s = Done () u \<and> hd_interrupt u = Done () v \<and> hd_interrupt v = Done () t \<and>
    out_ports u = hd_regs info (of_nat (minor div 5)) 2 n h c WIN_READ @ out_ports s \<and>
    (unat c * unat (hi_head info) + unat h) * unat (hi_sect info) + (unat n - 1) =
      unat (r_sector (request_table s r) + start_sect (hd s minor)) \<and> h < hi_head info \<and> 1 \<le> unat n \<and> unat n \<le> unat (hi_sect info) \<and>
    b_data t = (b_data s)(b := \<lambda>j. if j < 1024
      then let w = io_in s (io_clock s + (if j < 512 then 2 else 259) + j mod 512 div 2) HD_DATA
           in if even j then ucast w else ucast (drop_bit 8 w)
      else b_data s b j) \<and>
    buffers t = (buffers s)(b := (buffers s b)\<lparr>b_uptodate := 1, b_lock := 0\<rparr>) \<and>
    current_request t 3 = None \<and> r_dev (request_table t r) = - 1"
proof -
  obtain c h n where pl: "hd_place info (r_sector (request_table s r) + start_sect (hd s minor)) = Some (c, h, n)"
    and run: "do_hd_request s = Done () (s\<lparr>io_clock := io_clock s + 1, do_hd := Some Read_Intr,
       out_ports := hd_regs info (of_nat (minor div 5)) 2 n h c WIN_READ @ out_ports s\<rparr>)" (is "_ = Done () ?u")
    using start_read [OF assms(1,2)] unfolding info_def by blast
  have p: "current_request s 3 = Some r" "r_nr_sectors (request_table s r) = 2" "r_buffer (request_table s r) = b"
      "r_off (request_table s r) = 0" "r_bh (request_table s r) = Some b" "r_next (request_table s r) = None" "r_waiting (request_table s r) = 0"
    using assms(1) by (simp_all add: hd_pending_def Let_def)
  define v where "v = (sector_read r ?u)\<lparr>do_hd := Some Read_Intr\<rparr>"
  have i1: "hd_interrupt ?u = Done () v"
    using hd_interrupt_read [of ?u r] assms(3) p by (simp add: v_def)
  have v: "io_clock v = io_clock s + 258" "io_in v = io_in s" "current_request v 3 = Some r" "do_hd v = Some Read_Intr" "buffers v = buffers s"
      "r_nr_sectors (request_table v r) = 1" "r_buffer (request_table v r) = b" "r_off (request_table v r) = 512" "r_bh (request_table v r) = Some b"
      "r_next (request_table v r) = None" "r_waiting (request_table v r) = 0"
      "b_data v = (b_data s)(b := words_at (\<lambda>t. io_in s t HD_DATA) (io_clock s + 2) 0 256 (b_data s b))"
    using p by (simp_all add: v_def sector_read_def Let_def)
  define w where "w = sector_read r v"
  have w: "current_request w 3 = Some r" "r_bh (request_table w r) = Some b" "r_next (request_table w r) = None" "r_waiting (request_table w r) = 0"
      "buffers w = buffers s" "b_data w = (b_data s)(b := words_at (\<lambda>t. io_in s t HD_DATA) (io_clock s + 259) 512 256 (b_data v b))"
    using v by (simp_all add: w_def sector_read_def Let_def add.commute)
  note er = end_request_last [OF w(1-4), where up = 1]
  have "hd_interrupt v = do_hd_request (end_request 3 1 w)"
    using hd_interrupt_read [OF v(4,3)] assms(4) v by (simp add: w_def)
  then have i2: "hd_interrupt v = Done () (end_request 3 1 w)" using do_hd_request_idle [of "end_request 3 1 w"] er(3) by simp
  have "b_data (end_request 3 1 w) = (b_data s)(b := \<lambda>j. if j < 1024
      then let w = io_in s (io_clock s + (if j < 512 then 2 else 259) + j mod 512 div 2) HD_DATA in if even j then ucast w else ucast (drop_bit 8 w)
      else b_data s b j)"
    unfolding er(2) w(6) by (simp add: v(12) two_sectors Let_def fun_eq_iff)
  then show ?thesis using run i1 i2 er w(5) hd_place_spec [OF pl]
    by (intro exI [of _ c] exI [of _ h] exI [of _ n] exI [of _ ?u] exI [of _ v] exI [of _ "end_request 3 1 w"]) simp
qed


text \<open>A disk of 16 heads and 17 sectors with a partition at sector 63, and a controller that is always content.\<close>

definition demo_disk :: hd_state where
  "demo_disk = io_state.extend
     (fs_state.extend (demo_fs\<lparr>request_table := (\<lambda>_. blank_request)(5 := blank_request\<lparr>r_dev := 0x301, r_sector := 10, r_nr_sectors := 2,
          r_bh := Some 0\<rparr>), current_request := (\<lambda>_. None)(3 := Some 5), buffers := (\<lambda>i. (blank_buffer i)\<lparr>b_lock := 1\<rparr>)\<rparr>)
        (io_state.fields 0 (\<lambda>_ port. if port = HD_STATUS then 0x50 else 0x4241) [] (\<lambda>_. None)))
     (hd_state.fields (\<lambda>_. \<lparr>hi_head = 16, hi_sect = 17, hi_cyl = 900, hi_wpcom = 300, hi_lzone = 0, hi_ctl = 8\<rparr>) 1
        (\<lambda>_. \<lparr>start_sect = 63, nr_sects = 20000\<rparr>) False False None False)"

lemmas demo_disk_defs = demo_disk_def demo_fs_defs io_state.defs hd_state.defs

lemma demo_disk_pending:
  "hd_pending demo_disk 5 0 1" "io_in demo_disk t HD_STATUS = 0x50" "io_in demo_disk t HD_DATA = 0x4241"
  by (simp_all add: hd_pending_def demo_disk_defs blank_request_def Let_def HD_STATUS_def HD_DATA_def READ_def)

theorem hd_read_block_witness:
  "\<exists>u v t. do_hd_request demo_disk = Done () u \<and> hd_interrupt u = Done () v \<and> hd_interrupt v = Done () t \<and>
     b_data t 0 0 = 0x41 \<and> b_data t 0 1023 = 0x42 \<and> current_request t 3 = None"
proof -
  have "(ucast (io_in demo_disk (io_clock demo_disk) HD_STATUS) :: u8) AND 0x80 = 0" "win_ok (io_in demo_disk k HD_STATUS)" for k
    by (simp_all add: demo_disk_pending win_ok_def)
  from hd_read_block [OF demo_disk_pending(1) this(1) this(2) this(2)]
  obtain u v t where "do_hd_request demo_disk = Done () u" "hd_interrupt u = Done () v" "hd_interrupt v = Done () t"
      "current_request t 3 = None" and d: "b_data t = (b_data demo_disk)(0 := \<lambda>j. if j < 1024
      then let w = io_in demo_disk (io_clock demo_disk + (if j < 512 then 2 else 259) + j mod 512 div 2) HD_DATA
           in if even j then ucast w else ucast (drop_bit 8 w)
      else b_data demo_disk 0 j)"
    by blast
  moreover have "b_data t 0 0 = 0x41" "b_data t 0 1023 = 0x42" unfolding d by (simp_all add: demo_disk_pending Let_def)
  ultimately show ?thesis by blast
qed

end
