(* ===== verification/Hd_Returns.thy ===== *)
theory Hd_Returns
  imports Hd_Transfer
begin

text \<open>
  The hard disk driver comes back: every round of \<^verbatim>\<open>do_hd_request\<close> gives up a request, counts an error
  against one, or ends, so the loop ends whatever the controller answers.
\<close>


subsection \<open>What the parts leave alone\<close>

definition hd_view :: "'a hd_state_scheme \<Rightarrow> (nat \<Rightarrow> request) \<times> (nat \<Rightarrow> nat option) \<times> bool" where
  "hd_view s = (request_table s, current_request s, hd_reset s)"

lemma hd_view_simps [simp]:
  "hd_view (s\<lparr>io_clock := k\<rparr>) = hd_view s" "hd_view (s\<lparr>do_hd := h\<rparr>) = hd_view s" "hd_view (outb v p s) = hd_view s"
  "hd_view (s\<lparr>hd_recalibrate := x\<rparr>) = hd_view s"
  by (simp_all add: hd_view_def outb_def)

lemma wait_view: "\<exists>k. snd (controller_wait n s) = s\<lparr>io_clock := k\<rparr>" "\<exists>k. snd (wait_drq n s) = s\<lparr>io_clock := k\<rparr>"
proof (induction n arbitrary: s)
  case 0
  { case 1 show ?case by (auto intro: exI [of _ "io_clock s"]) }
  { case 2 show ?case by (auto intro: exI [of _ "io_clock s"]) }
next
  case (Suc n)
  { case 1 show ?case using Suc(1) [of "s\<lparr>io_clock := io_clock s + 1\<rparr>"] by (auto simp: inb_def) }
  { case 2 show ?case using Suc(2) [of "s\<lparr>io_clock := io_clock s + 1\<rparr>"] by (auto simp: inb_def) }
qed

lemma hd_out_view:
  "(\<exists>m t. hd_out drive nsect sect head cyl cmd h s = Stop (Panic m) t) \<or>
   (\<exists>t. hd_out drive nsect sect head cyl cmd h s = Done () t \<and> hd_view t = hd_view s)"
proof -
  obtain r k where "controller_ready s = (r, s\<lparr>io_clock := k\<rparr>)"
    using wait_view(1) [of 99999 s] by (cases "controller_ready s") (auto simp: controller_ready_def)
  then show ?thesis by (auto simp: hd_out_def Let_def)
qed

lemma end_request_hd:
  assumes "current_request s 3 = Some r"
  shows "current_request (end_request 3 up s) 3 = r_next (request_table s r)"
    "r_next (request_table (end_request 3 up s) q) = r_next (request_table s q)"
    "r_errors (request_table (end_request 3 up s) q) = r_errors (request_table s q)"
    "hd_reset (end_request 3 up s) = hd_reset s"
  using assms
  by (simp_all add: end_request_def drv_unlock_buffer_def Let_def upd_req_def upd_buf_def wake_up_def upd_task_def printk_def split: option.splits)


text \<open>A chain does not depend on what else changes in the requests.\<close>

lemma chain_cong: "(\<And>q. r_next (t q) = r_next (s q)) \<Longrightarrow> req_chain t h rs = req_chain s h rs"
  by (rule req_chain_cong) simp


subsection \<open>The rank of a queue\<close>

definition rank :: "'a hd_state_scheme \<Rightarrow> nat list \<Rightarrow> nat" where
  "rank s rs = (if hd_reset s \<or> rs = [] then length rs
     else 6 * length rs - nat (min 4 (r_errors (request_table s (rs ! 0)))))"

definition waiting :: "'a hd_state_scheme \<Rightarrow> nat list \<Rightarrow> bool" where
  "waiting s rs \<longleftrightarrow> req_chain (request_table s) (current_request s 3) rs \<and> distinct rs \<and> (\<forall>r\<in>set rs. 0 \<le> r_errors (request_table s r))"

lemma rank_le: "rank s rs \<le> 6 * length rs" "\<not> hd_reset s \<Longrightarrow> 6 * length (r # rs) \<le> rank s (r # rs) + 4" "length rs \<le> rank s rs"
  by (auto simp: rank_def)

lemma pop_waiting:
  assumes "waiting s (r # rs)"
  shows "waiting (end_request 3 up s) rs"
proof -
  have c: "current_request s 3 = Some r" using assms by (simp add: waiting_def)
  note e = end_request_hd [OF c, where up = up]
  have "req_chain (request_table (end_request 3 up s)) h xs = req_chain (request_table s) h xs" for h xs
    using e(2) by (rule chain_cong)
  then show ?thesis using assms e by (simp add: waiting_def)
qed

lemma rank_pop: "waiting s (r # rs) \<Longrightarrow> rank (end_request 3 up s) rs < rank s (r # rs)"
proof -
  assume w: "waiting s (r # rs)"
  have "hd_reset (end_request 3 up s) = hd_reset s" using w end_request_hd(4) by (auto simp: waiting_def)
  then show ?thesis
  proof (cases "hd_reset s")
    case False
    then show ?thesis using rank_le(1) [of "end_request 3 up s" rs] rank_le(2) [of s r rs] by simp
  qed (simp add: rank_def)
qed

lemma bad_rw_intr_waiting:
  assumes "waiting s (r # rs)" "\<not> hd_reset s"
  shows "\<exists>t qs. bad_rw_intr s = Done () t \<and> waiting t qs \<and> rank t qs < rank s (r # rs)"
proof -
  define u where "u = upd_req r (\<lambda>q. q\<lparr>r_errors := r_errors q + 1\<rparr>) s"
  have c: "current_request s 3 = Some r" using assms(1) by (simp add: waiting_def)
  have u: "waiting u (r # rs)" "hd_reset u = hd_reset s" "current_request u 3 = Some r"
      "r_errors (request_table u r) = r_errors (request_table s r) + 1"
  proof -
    have "req_chain (request_table u) h xs = req_chain (request_table s) h xs" for h xs
      by (rule chain_cong) (simp add: u_def upd_req_def)
    then show "waiting u (r # rs)" using assms(1) by (auto simp: waiting_def u_def upd_req_def)
  qed (simp_all add: u_def upd_req_def c)
  define v where "v = (if MAX_ERRORS \<le> current_errors u then end_request 3 0 u else u)"
  define t where "t = (if MAX_ERRORS div 2 < current_errors v then v\<lparr>hd_reset := True\<rparr> else v)"
  have run: "bad_rw_intr s = Done () t" by (simp add: bad_rw_intr_def c Let_def u_def [symmetric] v_def [symmetric] t_def)
  have t: "waiting t xs = waiting v xs" "rank t xs \<le> rank v xs" for xs
    using rank_le(3) [of xs v] by (auto simp: t_def waiting_def rank_def)
  have pos: "0 \<le> r_errors (request_table s r)" using assms(1) by (simp add: waiting_def)
  show ?thesis
  proof (cases "MAX_ERRORS \<le> current_errors u")
    case True
    have "waiting v rs" "rank v rs < rank u (r # rs)" using pop_waiting [OF u(1)] rank_pop [OF u(1)] True by (simp_all add: v_def)
    moreover have "rank u (r # rs) \<le> rank s (r # rs)" using pos u(2,4) by (auto simp: rank_def)
    ultimately show ?thesis using run t by (intro exI [of _ t] exI [of _ rs]) (meson le_less_trans less_le_trans)
  next
    case False
    then have v: "v = u" by (simp add: v_def)
    have ce: "current_errors u = r_errors (request_table s r) + 1" using u(3,4) by (simp add: current_errors_def)
    have "rank t (r # rs) < rank s (r # rs)"
    proof (cases "3 < current_errors u")
      case True
      then have "rank t (r # rs) = length (r # rs)" by (simp add: t_def v rank_def MAX_ERRORS_def)
      then show ?thesis using rank_le(2) [OF assms(2), of r rs] by simp
    next
      case False
      then have "rank t (r # rs) = 6 * length (r # rs) - nat (r_errors (request_table s r) + 1)"
        using u(2,4) assms(2) ce by (simp add: t_def v rank_def MAX_ERRORS_def)
      then show ?thesis using False ce pos assms(2) by (simp add: rank_def)
    qed
    then show ?thesis using run t u(1) v by (intro exI [of _ t] exI [of _ "r # rs"]) simp
  qed
qed



subsection \<open>The loop\<close>

lemma waiting_view: "hd_view t = hd_view s \<Longrightarrow> waiting t rs = waiting s rs \<and> rank t rs = rank s rs \<and> hd_reset t = hd_reset s"
  by (auto simp: hd_view_def waiting_def rank_def)

text \<open>The code comes to an end: it returns, panics, or runs into undefined behaviour.\<close>

definition ended :: "('r, 's) outcome \<Rightarrow> bool" where
  "ended m \<longleftrightarrow> (case m of Done _ _ \<Rightarrow> True | Stop w _ \<Rightarrow> w = Undefined \<or> (\<exists>msg. w = Panic msg))"

lemma ended_simps [simp]: "ended (Done a s)" "ended (Stop Undefined s)" "ended (Stop (Panic msg) s)"
  by (simp_all add: ended_def)

lemma hd_out_ended: "ended (hd_out drive nsect sect head cyl cmd h s)"
  using hd_out_view [of drive nsect sect head cyl cmd h s] by auto

lemma hd_request_loop_returns:
  assumes "waiting s rs" "rank s rs < n"
  shows "ended (hd_request_loop n s)"
  using assms
proof (induction n arbitrary: s rs)
  case (Suc n)
  show ?case
  proof (cases rs)
    case Nil
    then show ?thesis using Suc.prems(1) by (simp add: waiting_def)
  next
    case (Cons r qs)
    then have w: "waiting s (r # qs)" and c: "current_request s 3 = Some r" using Suc.prems(1) by (simp_all add: waiting_def)
    have pop: "ended (hd_request_loop n (end_request 3 0 s))"
      using Suc.IH [OF pop_waiting [OF w]] rank_pop [OF w, of 0] Suc.prems(2) Cons by simp
    have retry: "ended (kbind (hd_out d k sec head cyl WIN_WRITE Write_Intr s) (\<lambda>_ s. case wait_drq 3000 s of (x, s) \<Rightarrow>
        if x then Done () (f s) else kbind (bad_rw_intr s) (\<lambda>_ s. hd_request_loop n s)))"
      if nr: "\<not> hd_reset s" for d k sec head cyl f
      using hd_out_view [of d k sec head cyl WIN_WRITE Write_Intr s]
    proof (elim disjE exE conjE)
      fix u assume u: "hd_out d k sec head cyl WIN_WRITE Write_Intr s = Done () u" "hd_view u = hd_view s"
      obtain x m where x: "wait_drq 3000 u = (x, u\<lparr>io_clock := m\<rparr>)" using wait_view(2) [of 3000 u] by (cases "wait_drq 3000 u") auto
      let ?v = "u\<lparr>io_clock := m\<rparr>"
      have v: "waiting ?v (r # qs)" "rank ?v (r # qs) = rank s (r # qs)" "\<not> hd_reset ?v"
        using waiting_view [of ?v s "r # qs"] u(2) w nr by simp_all
      obtain y ys where "bad_rw_intr ?v = Done () y" "waiting y ys" "rank y ys < rank s (r # qs)"
        using bad_rw_intr_waiting [OF v(1,3)] v(2) by auto
      then show ?thesis using u(1) x Suc.IH [of y ys] Suc.prems(2) Cons by simp
    qed simp
    then show ?thesis
      using c pop by (auto simp: Let_def hd_out_ended reset_hd_def split: option.splits prod.splits if_splits)
  qed
qed simp

text \<open>
  C32: \<open>do_hd_request\<close> returns or panics, whatever the controller answers: when the queue of the disk is a
  chain of at most as many requests as there are slots, with no negative error counts, the fuel is enough.
\<close>

theorem do_hd_request_returns:
  assumes "req_chain (request_table s) (current_request s 3) rs" "distinct rs" "length rs \<le> NR_REQUEST"
    "\<forall>r\<in>set rs. 0 \<le> r_errors (request_table s r)"
  shows "ended (do_hd_request s)"
  unfolding do_hd_request_def
proof (rule hd_request_loop_returns)
  show "waiting s rs" using assms by (simp add: waiting_def)
  show "rank s rs < Suc (6 * NR_REQUEST)" using rank_le(1) [of s rs] assms(3) by simp
qed


theorem do_hd_request_returns_witness: "ended (do_hd_request (demo_disk\<lparr>io_in := \<lambda>_ _. 0xFF\<rparr>))"
  by (rule do_hd_request_returns [where rs = "[5]"]) (simp_all add: demo_disk_defs blank_request_def NR_REQUEST_def)

end
