(* ===== verification/Floppy_Transfer.thy ===== *)
theory Floppy_Transfer
  imports Floppy
begin

text \<open>
  The floppy driver addresses sectors that exist, and a read that the controller reports as done fills
  the buffer.
\<close>


subsection \<open>Track, head and sector\<close>

lemma unat_plus2: "unat (a :: u32) + 2 < 2 ^ 32 \<Longrightarrow> unat (a + 2) = unat a + 2"
  by (simp add: unat_word_ariths)

lemma unat_byte: "unat (w :: u32) < 256 \<Longrightarrow> unat (ucast w :: u8) = unat w"
  by (simp add: unsigned_ucast_eq unsigned_take_bit_eq take_bit_nat_eq_self)

lemma floppy_geometry:
  "\<forall>ft\<in>set floppy_type. f_size ft \<noteq> 0 \<longrightarrow> (unat (f_sect ft), unat (f_head ft), unat (f_track ft), unat (f_size ft)) \<in>
     {(9, 2, 40, 720), (15, 2, 80, 2400), (9, 2, 80, 1440), (18, 2, 80, 2880)}"
  by (simp add: floppy_type_def mk_floppy_def)

lemma fd_place_spec:
  assumes "ft \<in> set floppy_type" "block + 2 \<le> f_size ft" "unat block + 2 < 2 ^ 32" "f_size ft \<noteq> 0"
    "fd_place ft block = Some (t, h, n)"
  shows "unat t < unat (f_track ft)" "unat h < unat (f_head ft)" "1 \<le> unat n" "unat n \<le> unat (f_sect ft)"
    "(unat t * unat (f_head ft) + unat h) * unat (f_sect ft) + (unat n - 1) = unat block"
proof -
  define b S H T where "b = unat block" "S = unat (f_sect ft)" "H = unat (f_head ft)" "T = unat (f_track ft)"
  have ft: "(S, H, T, unat (f_size ft)) \<in> {(9, 2, 40, 720), (15, 2, 80, 2400), (9, 2, 80, 1440), (18, 2, 80, 2880)}"
    unfolding b_S_H_T_def by (rule floppy_geometry [rule_format, OF assms(1,4)])
  have "unat (block + 2) = b + 2" unfolding b_S_H_T_def by (rule unat_plus2 [OF assms(3)])
  then have b: "b + 2 \<le> unat (f_size ft)" using assms(2) unfolding word_le_nat_alt by linarith
  have e: "t = ucast (block div f_sect ft div f_head ft)" "h = ucast (block div f_sect ft mod f_head ft)" "n = ucast (block mod f_sect ft) + 1"
    using assms(5) by (auto simp: fd_place_def Let_def split: if_splits)
  have small: "b div S div H < T" "T \<le> 80" "H = 2" "S \<le> 18" "0 < S"
    using ft b by (auto simp: div_mult2_eq [symmetric] less_mult_imp_div_less)
  have r: "unat (block div f_sect ft div f_head ft) = b div S div H" "unat (block div f_sect ft mod f_head ft) = b div S mod H"
      "unat (block mod f_sect ft) = b mod S"
    by (simp_all add: b_S_H_T_def unat_div unat_mod)
  have lt: "b mod S < S" using small by simp
  then have "b div S div H < 256" "b div S mod H < 256" "b mod S < 256" using small by (linarith, simp, linarith)
  then have m: "unat t = b div S div H" "unat h = b div S mod H" and k: "unat (ucast (block mod f_sect ft) :: u8) = b mod S"
    using small unat_byte [of "block div f_sect ft div f_head ft"] unat_byte [of "block div f_sect ft mod f_head ft"]
      unat_byte [of "block mod f_sect ft"] unfolding e r by simp_all
  have "Suc (b mod S) < 256" using lt small by linarith
  then have n: "unat n = b mod S + 1" using k by (simp add: e(3) unat_word_ariths)
  show "unat t < unat (f_track ft)" "unat h < unat (f_head ft)" "1 \<le> unat n" "unat n \<le> unat (f_sect ft)"
    using small m n Suc_leI [OF lt] by (simp_all add: b_S_H_T_def [symmetric])
  show "(unat t * unat (f_head ft) + unat h) * unat (f_sect ft) + (unat n - 1) = unat block"
    using m n by (simp add: b_S_H_T_def [symmetric])
qed



subsection \<open>Talking to the controller\<close>

text \<open>The controller is ready for each of the next \<open>k\<close> bytes; it has the answer \<open>ds\<close> ready.\<close>

definition fd_accepts :: "'a io_state_scheme \<Rightarrow> nat \<Rightarrow> nat \<Rightarrow> bool" where
  "fd_accepts s t k \<longleftrightarrow> (\<forall>i<k. (ucast (io_in s (t + i) FD_STATUS) :: u8) AND 0xC0 = 0x80)"

primrec fd_answers :: "'a io_state_scheme \<Rightarrow> nat \<Rightarrow> u8 list \<Rightarrow> bool" where
  "fd_answers s t [] \<longleftrightarrow> (ucast (io_in s t FD_STATUS) :: u8) AND 0xD0 = 0x80"
| "fd_answers s t (d # ds) \<longleftrightarrow> (ucast (io_in s t FD_STATUS) :: u8) AND 0xD0 = 0xD0 \<and>
     ucast (io_in s (t + 1) FD_DATA) = d \<and> fd_answers s (t + 2) ds"

lemma status_masks:
  "v AND (STATUS_READY OR STATUS_DIR) = STATUS_READY \<longleftrightarrow> v AND 0xC0 = 0x80"
  "v AND (STATUS_DIR OR STATUS_READY OR STATUS_BUSY) = STATUS_READY \<longleftrightarrow> v AND 0xD0 = 0x80"
  "v AND (STATUS_DIR OR STATUS_READY OR STATUS_BUSY) = STATUS_DIR OR STATUS_READY OR STATUS_BUSY \<longleftrightarrow> v AND 0xD0 = 0xD0"
  by (simp_all add: STATUS_READY_def STATUS_DIR_def STATUS_BUSY_def)

lemma output_bytes:
  assumes "\<not> fd_reset s" "fd_accepts s (io_clock s) (length bs)"
  shows "fold output_byte bs s = s\<lparr>out_ports := map (\<lambda>b. (FD_DATA, b)) (rev bs) @ out_ports s, io_clock := io_clock s + length bs\<rparr>"
  using assms
proof (induction bs arbitrary: s)
  case (Cons b bs)
  have now: "(ucast (io_in s (io_clock s) FD_STATUS) :: u8) AND 0xC0 = 0x80"
    using Cons.prems(2) by (force simp: fd_accepts_def dest: spec [of _ 0])
  let ?s = "s\<lparr>out_ports := (FD_DATA, b) # out_ports s, io_clock := io_clock s + 1\<rparr>"
  have "output_wait (Suc 9999) b s = ?s"
    by (simp only: output_wait.simps inb_def status_masks prod.case now if_True simp_thms) (simp add: outb_def)
  then have o: "output_byte b s = ?s" using Cons.prems(1) by (simp add: output_byte_def)
  have "fd_accepts ?s (io_clock ?s) (length bs)"
    using Cons.prems(2) by (auto simp: fd_accepts_def dest: spec [of _ "Suc _"])
  then show ?case using Cons.IH [of ?s] Cons.prems(1) by (simp add: o)
qed simp

text \<open>The replies are in the buffer from position \<open>i\<close> on.\<close>

lemma result_answers:
  assumes "fd_answers s (io_clock s) ds" "i + length ds \<le> 7" "length ds < n"
  shows "result_wait n i s = (int (i + length ds), s\<lparr>io_clock := io_clock s + 2 * length ds + 1,
     reply_buffer := \<lambda>j. if i \<le> j \<and> j < i + length ds then ds ! (j - i) else reply_buffer s j\<rparr>)"
  using assms
proof (induction ds arbitrary: s i n)
  case Nil
  obtain k where "n = Suc k" using Nil.prems(3) by (cases n) auto
  moreover have "(\<lambda>j. if i \<le> j \<and> j < i then x j else reply_buffer s j) = reply_buffer s" for x
    by (auto simp: fun_eq_iff)
  ultimately show ?case using Nil.prems(1) by (simp add: inb_def status_masks Let_def)
next
  case (Cons d ds)
  obtain k where n: "n = Suc k" using Cons.prems(3) by (cases n) auto
  let ?s = "s\<lparr>io_clock := io_clock s + 2, reply_buffer := (reply_buffer s)(i := d)\<rparr>"
  have cong: "fd_answers ?s t es = fd_answers s t es" for t es by (induction es arbitrary: t) simp_all
  have "result_wait n i s = result_wait k (i + 1) ?s"
    using Cons.prems by (simp add: n inb_def status_masks Let_def MAX_REPLIES_def)
  also have "\<dots> = (int (i + 1 + length ds), ?s\<lparr>io_clock := io_clock ?s + 2 * length ds + 1,
     reply_buffer := \<lambda>j. if i + 1 \<le> j \<and> j < i + 1 + length ds then ds ! (j - (i + 1)) else reply_buffer ?s j\<rparr>)"
    using Cons.prems n cong by (intro Cons.IH) simp_all
  also have "(\<lambda>j. if i + 1 \<le> j \<and> j < i + 1 + length ds then ds ! (j - (i + 1)) else reply_buffer ?s j) =
      (\<lambda>j. if i \<le> j \<and> j < i + length (d # ds) then (d # ds) ! (j - i) else reply_buffer s j)"
    by (auto simp: fun_eq_iff nth_Cons')
  finally show ?case by simp
qed



subsection \<open>Reading a block\<close>

lemma sint_le_uint:
  assumes "0x100000 \<le> sint a"
  shows "0x100000 \<le> (a :: u32)"
proof -
  have "take_bit 32 (uint a) = uint a" using unsigned_less [of a, where 'a = int] by (simp add: take_bit_int_eq_self)
  then have "sint a \<le> uint a" by (simp add: sint_uint signed_take_bit_eq_take_bit_minus)
  then show ?thesis using assms by (simp add: word_le_def)
qed

text \<open>
  A read request, the only one, for a buffer that the DMA controller does not reach, from the second megabyte on and
  below 2 GB; the head is in place.
\<close>

definition fd_pending :: "'a fd_state_scheme \<Rightarrow> nat \<Rightarrow> nat \<Rightarrow> bool" where
  "fd_pending s r b \<longleftrightarrow>
     (let rq = request_table s r
      in current_request s 2 = Some r \<and> r_buffer rq = b \<and> r_off rq = 0 \<and> r_bh rq = Some b \<and> r_next rq = None \<and> r_waiting rq = 0 \<and>
         0x100000 \<le> sint (fd_buf_addr s b) \<and> fd_command s = FD_READ \<and> \<not> fd_reset s \<and> \<not> fd_recalibrate s)"

text \<open>What the DMA controller is told, and the command, each as a list of port and byte.\<close>

definition dma_program :: "u32 \<Rightarrow> (nat \<times> u8) list" where
  "dma_program addr = [(10, 6), (12, DMA_READ), (11, DMA_READ), (4, ucast addr), (4, ucast (drop_bit 8 addr)),
     (0x81, ucast (drop_bit 16 addr)), (5, 0xFF), (5, 3), (10, 2)]"

definition read_command :: "'a fd_state_scheme \<Rightarrow> u8 list" where
  "read_command s = [FD_READ, drive_byte s, fd_track s, fd_head s, fd_sector s, 2, ucast (f_sect (floppy s)), f_gap (floppy s), 0xFF]"

lemma setup_read:
  assumes "fd_pending s r b" "fd_accepts s (io_clock s) 9"
  shows "\<exists>u. setup_rw_floppy again s = Done () u \<and> io_clock u = io_clock s + 9 \<and> do_floppy u = Some Rw_Interrupt \<and>
    out_ports u = map (\<lambda>c. (FD_DATA, c)) (rev (read_command s)) @ rev (dma_program (tmp_area_addr s)) @ out_ports s \<and>
    fd_pending u r b \<and> b_data u = b_data s \<and> buffers u = buffers s \<and> io_in u = io_in s"
proof -
  define v where "v = s\<lparr>out_ports := rev (dma_program (tmp_area_addr s)) @ out_ports s\<rparr>"
  define w where "w = v\<lparr>do_floppy := Some Rw_Interrupt\<rparr>"
  have "setup_DMA s = Done () v"
    using assms(1) by (simp add: setup_DMA_def fd_pending_def Let_def buffer_addr_def FD_READ_def FD_WRITE_def outb_def v_def dma_program_def)
  moreover have "fold output_byte (read_command s) w =
      w\<lparr>out_ports := map (\<lambda>c. (FD_DATA, c)) (rev (read_command s)) @ out_ports w, io_clock := io_clock w + length (read_command s)\<rparr>"
    using assms by (intro output_bytes) (simp_all add: w_def v_def fd_pending_def Let_def fd_accepts_def read_command_def)
  moreover have "read_command s = [fd_command w, drive_byte w, fd_track w, fd_head w, fd_sector w, 2, ucast (f_sect (floppy w)), f_gap (floppy w), 0xFF]"
    using assms(1) by (simp add: read_command_def w_def v_def drive_byte_def fd_pending_def Let_def)
  ultimately have "setup_rw_floppy again s = Done () (w\<lparr>out_ports := map (\<lambda>c. (FD_DATA, c)) (rev (read_command s)) @ out_ports w,
      io_clock := io_clock w + length (read_command s)\<rparr>)"
    using assms(1) by (simp add: setup_rw_floppy_def Let_def w_def [symmetric]) (simp add: w_def v_def fd_pending_def Let_def)
  then show ?thesis
    using assms(1) by (intro exI) (auto simp: w_def v_def fd_pending_def Let_def read_command_def)
qed

lemma end_request_fd:
  assumes "current_request s 2 = Some r" "r_bh (request_table s r) = Some b" "r_next (request_table s r) = None"
    "r_waiting (request_table s r) = 0"
  shows "buffers (end_request 2 up s) = (buffers s)(b := (buffers s b)\<lparr>b_uptodate := up, b_lock := 0\<rparr>)"
    "b_data (end_request 2 up s) = b_data s" "current_request (end_request 2 up s) = (current_request s)(2 := None)"
    "selected (end_request 2 up s) = selected s" "do_floppy (end_request 2 up s) = do_floppy s"
    "fd_reset (end_request 2 up s) = fd_reset s" "fd_recalibrate (end_request 2 up s) = fd_recalibrate s"
  using assms
  by (simp_all add: end_request_def drv_unlock_buffer_def Let_def upd_req_def upd_buf_def wake_up_def upd_task_def printk_def floppy_off_def)


lemma do_fd_request_idle:
  "current_request s 2 = None \<Longrightarrow> \<not> fd_reset s \<Longrightarrow> \<not> fd_recalibrate s \<Longrightarrow> do_fd_request s = Done () (s\<lparr>fd_seek := False\<rparr>)"
  by (simp add: do_fd_request_def numeral_2_eq_2 Let_def)

text \<open>The seven bytes of a good result.\<close>

definition good_result :: "u8 list \<Rightarrow> bool" where
  "good_result ds \<longleftrightarrow> length ds = 7 \<and> ds ! 0 AND 0xF8 = 0 \<and> ds ! 1 AND 0xBF = 0 \<and> ds ! 2 AND 0x73 = 0"

lemma rw_interrupt_done:
  assumes "fd_pending s r b" "do_floppy s = Some Rw_Interrupt" "fd_answers s (io_clock s) ds" "good_result ds"
  shows "\<exists>t. floppy_interrupt s = Done () t \<and>
    b_data t = (b_data s)(b := \<lambda>j. if j < 1024 then tmp_floppy_area s j else b_data s b j) \<and>
    buffers t = (buffers s)(b := (buffers s b)\<lparr>b_uptodate := 1, b_lock := 0\<rparr>) \<and> current_request t 2 = None \<and>
    selected t = 0 \<and> do_floppy t = None"
proof -
  define u where "u = (outb 0x20 0x20 s)\<lparr>do_floppy := None\<rparr>"
  define v where "v = u\<lparr>io_clock := io_clock u + 2 * 7 + 1, reply_buffer := \<lambda>j. if j < 7 then ds ! j else reply_buffer u j\<rparr>"
  define w where "w = floppy_deselect (ucast (current_drive v)) (copy_from_tmp (request_table v r) v)"
  have p: "current_request s 2 = Some r" "r_buffer (request_table s r) = b" "r_off (request_table s r) = 0" "r_bh (request_table s r) = Some b"
      "r_next (request_table s r) = None" "r_waiting (request_table s r) = 0" "0x100000 \<le> fd_buf_addr s b" "fd_command s = FD_READ"
      "\<not> fd_reset s" "\<not> fd_recalibrate s"
    using assms(1) by (simp_all add: fd_pending_def Let_def sint_le_uint)
  have cong: "fd_answers u t es = fd_answers s t es" for t es by (induction es arbitrary: t) (simp_all add: u_def outb_def)
  have "result u = result_wait 10000 0 u" using p(9) by (simp add: result_def u_def outb_def)
  then have res: "result u = (7, v)"
    using result_answers [of u ds 0 10000] assms(3,4) cong by (simp add: good_result_def v_def u_def outb_def cong: if_cong)
  have v: "current_request v 2 = Some r" "request_table v = request_table s" "buffers v = buffers s" "b_data v = b_data s"
      "tmp_floppy_area v = tmp_floppy_area s" "fd_command v = FD_READ" "buffer_addr v (request_table s r) = fd_buf_addr s b"
      "ST0 v AND 0xF8 = 0" "ST1 v AND 0xBF = 0" "ST2 v AND 0x73 = 0" "\<not> fd_reset v" "\<not> fd_recalibrate v" "do_floppy v = None"
    using p assms(4) by (simp_all add: v_def u_def outb_def buffer_addr_def ST0_def ST1_def ST2_def good_result_def)
  have w: "current_request w 2 = Some r" "request_table w = request_table s" "buffers w = buffers s"
      "b_data w = (b_data s)(b := \<lambda>j. if j < 1024 then tmp_floppy_area s j else b_data s b j)" "selected w = 0"
      "\<not> fd_reset w" "\<not> fd_recalibrate w" "do_floppy w = None"
    using v p by (simp_all add: w_def floppy_deselect_def copy_from_tmp_def Let_def wake_up_def upd_task_def printk_def cong: if_cong)
  have er: "buffers (end_request 2 1 w) = (buffers w)(b := (buffers w b)\<lparr>b_uptodate := 1, b_lock := 0\<rparr>)"
      "b_data (end_request 2 1 w) = b_data w" "current_request (end_request 2 1 w) 2 = None" "selected (end_request 2 1 w) = 0"
      "do_floppy (end_request 2 1 w) = None" "\<not> fd_reset (end_request 2 1 w)" "\<not> fd_recalibrate (end_request 2 1 w)"
    using end_request_fd [of w r b 1] w p by simp_all
  have "floppy_interrupt s = rw_interrupt u" using assms(2) by (simp add: floppy_interrupt_def Let_def u_def)
  also have "\<dots> = do_fd_request (end_request 2 1 w)" using res v p by (simp add: rw_interrupt_def Let_def w_def copy_from_tmp_def)
  also have "\<dots> = Done () ((end_request 2 1 w)\<lparr>fd_seek := False\<rparr>)" using er by (intro do_fd_request_idle) simp_all
  finally show ?thesis using er w(3,4) by (intro exI [of _ "(end_request 2 1 w)\<lparr>fd_seek := False\<rparr>"]) simp
qed

text \<open>
  C33: Reading a block from a floppy into a buffer between the first megabyte and 2 GB. When the controller takes
  the bytes of the command, the transfer is set up: the DMA controller gets the address of \<^verbatim>\<open>tmp_floppy_area\<close> and
  a count of 1024 bytes, the floppy controller drive, track, head and sector, and the next interrupt will end the
  transfer. Whatever the DMA controller then stores in that area is, after an interrupt with a good result, in the
  buffer, which is up to date and unlocked; the drive is released and the request is done.
\<close>

theorem floppy_read_block:
  assumes "fd_pending s r b" "fd_accepts s (io_clock s) 9" "fd_answers s (io_clock s + 9) ds" "good_result ds"
  shows "\<exists>u t. setup_rw_floppy again s = Done () u \<and>
    out_ports u = map (\<lambda>c. (FD_DATA, c)) (rev (read_command s)) @ rev (dma_program (tmp_area_addr s)) @ out_ports s \<and>
    floppy_interrupt (u\<lparr>tmp_floppy_area := dma\<rparr>) = Done () t \<and>
    b_data t = (b_data s)(b := \<lambda>j. if j < 1024 then dma j else b_data s b j) \<and>
    buffers t = (buffers s)(b := (buffers s b)\<lparr>b_uptodate := 1, b_lock := 0\<rparr>) \<and>
    current_request t 2 = None \<and> selected t = 0 \<and> do_floppy t = None"
proof -
  obtain u where u: "setup_rw_floppy again s = Done () u" "io_clock u = io_clock s + 9" "do_floppy u = Some Rw_Interrupt"
      "out_ports u = map (\<lambda>c. (FD_DATA, c)) (rev (read_command s)) @ rev (dma_program (tmp_area_addr s)) @ out_ports s"
      "fd_pending u r b" "b_data u = b_data s" "buffers u = buffers s" "io_in u = io_in s"
    using setup_read [OF assms(1,2)] by blast
  let ?u = "u\<lparr>tmp_floppy_area := dma\<rparr>"
  have cong: "fd_answers ?u t es = fd_answers s t es" for t es using u(8) by (induction es arbitrary: t) simp_all
  have "fd_pending ?u r b" "do_floppy ?u = Some Rw_Interrupt" "fd_answers ?u (io_clock ?u) ds"
    using u assms(3) cong by (simp_all add: fd_pending_def Let_def)
  from rw_interrupt_done [OF this assms(4)] obtain t where t: "floppy_interrupt ?u = Done () t"
      "b_data t = (b_data ?u)(b := \<lambda>j. if j < 1024 then tmp_floppy_area ?u j else b_data ?u b j)"
      "buffers t = (buffers ?u)(b := (buffers ?u b)\<lparr>b_uptodate := 1, b_lock := 0\<rparr>)"
      "current_request t 2 = None" "selected t = 0" "do_floppy t = None"
    by blast
  have "b_data t = (b_data s)(b := \<lambda>j. if j < 1024 then dma j else b_data s b j)" using t(2) u(6) by (simp cong: if_cong)
  then show ?thesis using u(1,4,7) t by (intro exI [of _ u] exI [of _ t]) simp
qed


text \<open>A 1.44 MB floppy whose controller takes nine bytes and then has seven zero bytes to report.\<close>

definition demo_floppy :: fd_state where
  "demo_floppy = io_state.extend
     (fs_state.extend (demo_fs\<lparr>request_table := (\<lambda>_. blank_request)(5 := blank_request\<lparr>r_dev := 0x21C, r_nr_sectors := 2, r_bh := Some 0\<rparr>),
          current_request := (\<lambda>_. None)(2 := Some 5), buffers := (\<lambda>i. (blank_buffer i)\<lparr>b_lock := 1\<rparr>)\<rparr>)
        (io_state.fields 0 (\<lambda>t port. if port = FD_DATA then 0 else if t < 9 \<or> t = 23 then 0x80 else 0xD0) [] (\<lambda>_. None)))
     (fd_state.fields False False False (\<lambda>_. 0) 0 0 (floppy_type ! 7) 0 1 0 0 0 0 FD_READ None (\<lambda>_. 0) (\<lambda>_. 0x3FFC00) 0x8000 (\<lambda>_. 1))"

lemmas demo_floppy_defs = demo_floppy_def demo_fs_defs io_state.defs fd_state.defs

lemma demo_floppy_ready:
  "fd_pending demo_floppy 5 0" "fd_accepts demo_floppy (io_clock demo_floppy) 9"
  "fd_answers demo_floppy (io_clock demo_floppy + 9) [0, 0, 0, 0, 0, 0, 0]"
  by (simp_all add: demo_floppy_defs fd_pending_def blank_request_def Let_def fd_accepts_def FD_STATUS_def FD_DATA_def)

theorem floppy_read_block_witness:
  "\<exists>u t. setup_rw_floppy do_fd_request demo_floppy = Done () u \<and> floppy_interrupt (u\<lparr>tmp_floppy_area := \<lambda>j. of_nat j\<rparr>) = Done () t \<and>
     b_data t 0 65 = 65 \<and> current_request t 2 = None"
proof -
  have "good_result [0, 0, 0, 0, 0, 0, 0]" by (simp add: good_result_def)
  from floppy_read_block [OF demo_floppy_ready this, where again = do_fd_request and dma = "\<lambda>j. of_nat j"]
  obtain u t where "setup_rw_floppy do_fd_request demo_floppy = Done () u"
      "floppy_interrupt (u\<lparr>tmp_floppy_area := \<lambda>j. of_nat j\<rparr>) = Done () t" "current_request t 2 = None"
      "b_data t = (b_data demo_floppy)(0 := \<lambda>j. if j < 1024 then of_nat j else b_data demo_floppy 0 j)" by blast
  then show ?thesis by (intro exI [of _ u] exI [of _ t]) simp
qed

end
