(* ===== verification/Malloc.thy ===== *)
theory Malloc
  imports Mm_Memory
begin

text \<open>
  The allocator of the kernel, \<^verbatim>\<open>lib/malloc.c\<close>. A page holds objects of one size, a power of two; its
  descriptor has the list of the free objects, linked through their first words, and counts the others. The
  descriptors of one size form a chain. \<open>descs\<close> are the descriptors by address, a typed view of the pages
  that hold them; \<open>chain k\<close> is \<^verbatim>\<open>bucket_dir[k].chain\<close>; a null pointer is 0.
\<close>


subsection \<open>Data\<close>

record bucket_desc =
  bd_page :: u32
  bd_next :: u32
  bd_freeptr :: u32
  bd_refcnt :: u16
  bd_size :: u16

definition blank_desc :: bucket_desc where
  "blank_desc = \<lparr>bd_page = 0, bd_next = 0, bd_freeptr = 0, bd_refcnt = 0, bd_size = 0\<rparr>"

definition NR_BUCKETS :: nat where "NR_BUCKETS = 9"

definition bucket_size :: "nat \<Rightarrow> u32" where
  "bucket_size k = [16, 32, 64, 128, 256, 512, 1024, 2048, 4096] ! k"

record malloc_state = mm_state +
  descs :: "u32 \<Rightarrow> bucket_desc"
  chain :: "nat \<Rightarrow> u32"
  free_bucket_desc :: u32

definition upd_desc :: "u32 \<Rightarrow> (bucket_desc \<Rightarrow> bucket_desc) \<Rightarrow> 'a malloc_state_scheme \<Rightarrow> 'a malloc_state_scheme" where
  "upd_desc d f s = s\<lparr>descs := (descs s)(d := f (descs s d))\<rparr>"

text \<open>Every descriptor has a page of its own, so a chain is not longer than there are pages.\<close>

definition CHAIN_FUEL :: nat where "CHAIN_FUEL = Suc PAGING_PAGES"


subsection \<open>Descriptors\<close>

text \<open>The descriptors of a fresh page, which is filled with zeros: each points to the next, the last to \<open>nxt\<close>.\<close>

primrec link_descs :: "nat \<Rightarrow> u32 \<Rightarrow> u32 \<Rightarrow> (u32 \<Rightarrow> bucket_desc) \<Rightarrow> u32 \<Rightarrow> bucket_desc" where
  "link_descs 0 d nxt ds = ds(d := blank_desc\<lparr>bd_next := nxt\<rparr>)"
| "link_descs (Suc n) d nxt ds = link_descs n (d + 16) nxt (ds(d := blank_desc\<lparr>bd_next := d + 16\<rparr>))"

definition init_bucket_desc :: "'a malloc_state_scheme \<Rightarrow> (unit, 'a malloc_state_scheme) outcome" where
  "init_bucket_desc s =
     (case get_free_page s of (first, s) \<Rightarrow>
        if first = 0 then Stop (Panic ''Out of memory in init_bucket_desc()'') s
        else Done () (s\<lparr>descs := link_descs 255 first (free_bucket_desc s) (descs s), free_bucket_desc := first\<rparr>))"

text \<open>The first descriptor with a free object, or 0 at the end of the chain.\<close>

primrec find_free :: "nat \<Rightarrow> (u32 \<Rightarrow> bucket_desc) \<Rightarrow> u32 \<Rightarrow> u32 option" where
  "find_free 0 ds d = None"
| "find_free (Suc n) ds d = (if d = 0 \<or> bd_freeptr (ds d) \<noteq> 0 then Some d else find_free n ds (bd_next (ds d)))"


subsection \<open>Allocation\<close>

text \<open>The chain of free objects in a page: \<open>n\<close> links and the end.\<close>

primrec carve :: "nat \<Rightarrow> u32 \<Rightarrow> u32 \<Rightarrow> 'a mm_state_scheme \<Rightarrow> 'a mm_state_scheme" where
  "carve 0 cp sz s = poke cp 0 s"
| "carve (Suc n) cp sz s = carve n (cp + sz) sz (poke cp (cp + sz) s)"

definition new_bucket :: "nat \<Rightarrow> 'a malloc_state_scheme \<Rightarrow> (u32, 'a malloc_state_scheme) outcome" where
  "new_bucket k s =
     kbind (if free_bucket_desc s = 0 then init_bucket_desc s else Done () s) (\<lambda>_ s.
     let d = free_bucket_desc s;
         s = s\<lparr>free_bucket_desc := bd_next (descs s d)\<rparr>;
         s = upd_desc d (\<lambda>b. b\<lparr>bd_refcnt := 0, bd_size := ucast (bucket_size k)\<rparr>) s
     in case get_free_page s of (cp, s) \<Rightarrow>
          let s = upd_desc d (\<lambda>b. b\<lparr>bd_page := cp, bd_freeptr := cp\<rparr>) s
          in if cp = 0 then Stop (Panic ''Out of memory in kernel malloc()'') s
             else let s = carve (4096 div unat (bucket_size k) - 1) cp (bucket_size k) s;
                      s = upd_desc d (\<lambda>b. b\<lparr>bd_next := chain s k\<rparr>) s
                  in Done d (s\<lparr>chain := (chain s)(k := d)\<rparr>))"

definition take_object :: "u32 \<Rightarrow> 'a malloc_state_scheme \<Rightarrow> u32 \<times> 'a malloc_state_scheme" where
  "take_object d s =
     (let retval = bd_freeptr (descs s d)
      in (retval, upd_desc d (\<lambda>b. b\<lparr>bd_freeptr := phys s retval, bd_refcnt := bd_refcnt b + 1\<rparr>) s))"

definition malloc :: "u32 \<Rightarrow> 'a malloc_state_scheme \<Rightarrow> (u32, 'a malloc_state_scheme) outcome" where
  "malloc len s =
     (case find (\<lambda>k. len \<le> bucket_size k) [0..<NR_BUCKETS] of
        None \<Rightarrow> Stop (Panic ''malloc: bad arg'') (printk ''malloc called with impossibly large argument (%d)'' s)
      | Some k \<Rightarrow>
          (case find_free CHAIN_FUEL (descs s) (chain s k) of
             None \<Rightarrow> Stop Looping s
           | Some d \<Rightarrow>
               kbind (if d = 0 then new_bucket k s else Done d s) (\<lambda>d s.
               case take_object d s of (p, s) \<Rightarrow> Done p s)))"


subsection \<open>Release\<close>

text \<open>
  The descriptor of a page in a chain, with the one before it (0 for the first), if there is one.
\<close>

primrec find_page :: "nat \<Rightarrow> (u32 \<Rightarrow> bucket_desc) \<Rightarrow> u32 \<Rightarrow> u32 \<Rightarrow> u32 \<Rightarrow> (u32 \<times> u32) option option" where
  "find_page 0 ds page prev d = None"
| "find_page (Suc n) ds page prev d =
     (if d = 0 then Some None
      else if bd_page (ds d) = page then Some (Some (prev, d))
      else find_page n ds page d (bd_next (ds d)))"

primrec find_object ::
  "nat list \<Rightarrow> u32 \<Rightarrow> int \<Rightarrow> 'a malloc_state_scheme \<Rightarrow> (nat \<times> u32 \<times> u32, 'a malloc_state_scheme) outcome" where
  "find_object [] page sz s = Stop (Panic ''Bad address passed to kernel free_s()'') s"
| "find_object (k # ks) page sz s =
     (if uint (bucket_size k) < sz then find_object ks page sz s
      else case find_page CHAIN_FUEL (descs s) page 0 (chain s k) of
             None \<Rightarrow> Stop Looping s
           | Some None \<Rightarrow> find_object ks page sz s
           | Some (Some (prev, d)) \<Rightarrow> Done (k, prev, d) s)"

text \<open>The search for the one before it once more, when the chain has changed.\<close>

primrec find_prev :: "nat \<Rightarrow> (u32 \<Rightarrow> bucket_desc) \<Rightarrow> u32 \<Rightarrow> u32 \<Rightarrow> u32 option" where
  "find_prev 0 ds d p = None"
| "find_prev (Suc n) ds d p = (if p = 0 \<or> bd_next (ds p) = d then Some p else find_prev n ds d (bd_next (ds p)))"

definition unlink_desc :: "nat \<Rightarrow> u32 \<Rightarrow> u32 \<Rightarrow> 'a malloc_state_scheme \<Rightarrow> (unit, 'a malloc_state_scheme) outcome" where
  "unlink_desc k prev d s =
     (let stale = (prev \<noteq> 0 \<and> bd_next (descs s prev) \<noteq> d \<or> prev = 0 \<and> chain s k \<noteq> d)
      in case (if stale then find_prev CHAIN_FUEL (descs s) d (chain s k) else Some prev) of
           None \<Rightarrow> Stop Looping s
         | Some prev \<Rightarrow>
             if prev \<noteq> 0 then Done () (upd_desc prev (\<lambda>b. b\<lparr>bd_next := bd_next (descs s d)\<rparr>) s)
             else if chain s k \<noteq> d then Stop (Panic ''malloc bucket chains corrupted'') s
             else Done () (s\<lparr>chain := (chain s)(k := bd_next (descs s d))\<rparr>))"

definition free_s :: "u32 \<Rightarrow> int \<Rightarrow> 'a malloc_state_scheme \<Rightarrow> (unit, 'a malloc_state_scheme) outcome" where
  "free_s obj sz s =
     kbind (find_object [0..<NR_BUCKETS] (obj AND 0xFFFFF000) sz s) (\<lambda>(k, prev, d) s.
     let s = poke obj (bd_freeptr (descs s d)) s;
         s = upd_desc d (\<lambda>b. b\<lparr>bd_freeptr := obj, bd_refcnt := bd_refcnt b - 1\<rparr>) s
     in if bd_refcnt (descs s d) \<noteq> 0 then Done () s
        else kbind (unlink_desc k prev d s) (\<lambda>_ s.
             kbind (free_page (bd_page (descs s d)) s) (\<lambda>_ s.
             Done () ((upd_desc d (\<lambda>b. b\<lparr>bd_next := free_bucket_desc s\<rparr>) s)\<lparr>free_bucket_desc := d\<rparr>))))"

end
