(* ===== verification/Malloc_Safe.thy ===== *)
theory Malloc_Safe
  imports Malloc
begin

text \<open>
  The kernel allocator implements a set of objects: \<open>malloc\<close> adds an object that overlaps no other, \<open>free_s\<close>
  takes one away, and neither changes what the others hold.
\<close>


subsection \<open>Lists linked through a function\<close>

primrec linked :: "(u32 \<Rightarrow> u32) \<Rightarrow> u32 \<Rightarrow> u32 list \<Rightarrow> bool" where
  "linked nx a [] \<longleftrightarrow> a = 0"
| "linked nx a (x # xs) \<longleftrightarrow> a = x \<and> x \<noteq> 0 \<and> linked nx (nx x) xs"

lemma linked_cong: "(\<And>x. x \<in> set xs \<Longrightarrow> m x = n x) \<Longrightarrow> linked m a xs = linked n a xs"
  by (induction xs arbitrary: a) auto

lemma linked_0 [simp]: "linked nx 0 xs \<longleftrightarrow> xs = []"
  by (cases xs) auto

lemma linked_unique: "linked nx a xs \<Longrightarrow> linked nx a ys \<Longrightarrow> xs = ys"
  by (induction xs arbitrary: a ys) (case_tac ys; auto)+

lemma linked_Cons: "linked nx a xs \<Longrightarrow> a \<noteq> 0 \<Longrightarrow> \<exists>ys. xs = a # ys \<and> linked nx (nx a) ys"
  by (cases xs) auto

lemma linked_suffix: "linked nx a (xs @ y # ys) \<Longrightarrow> linked nx y (y # ys)"
  by (induction xs arbitrary: a) auto

lemma linked_distinct: "linked nx a xs \<Longrightarrow> distinct xs"
proof (induction xs arbitrary: a)
  case (Cons x xs)
  have "x \<notin> set xs"
  proof
    assume "x \<in> set xs"
    then obtain ys zs where "xs = ys @ x # zs" by (meson split_list)
    moreover have "linked nx x (x # zs)" using Cons.prems linked_suffix calculation by (metis append_Cons)
    moreover have "linked nx x (x # xs)" using Cons.prems by simp
    ultimately show False using linked_unique by fastforce
  qed
  then show ?case using Cons by auto
qed simp

lemma linked_nonzero: "linked nx a xs \<Longrightarrow> 0 \<notin> set xs"
  by (induction xs arbitrary: a) auto


subsection \<open>The objects in a page\<close>

abbreviation objs :: "nat \<Rightarrow> nat" where "objs k \<equiv> 2 ^ (8 - k)"
abbreviation osize :: "nat \<Rightarrow> nat" where "osize k \<equiv> 2 ^ (4 + k)"

definition obj :: "u32 \<Rightarrow> nat \<Rightarrow> nat \<Rightarrow> u32" where
  "obj p k i = p + of_nat (i * osize k)"

definition slots :: "u32 \<Rightarrow> nat \<Rightarrow> u32 set" where
  "slots p k = obj p k ` {..<objs k}"

lemma bucket_cases: "k < NR_BUCKETS \<Longrightarrow> k \<in> {0, 1, 2, 3, 4, 5, 6, 7, 8}"
  by (auto simp: NR_BUCKETS_def)

lemma bucket_sizes: "bucket_size 0 = 16" "bucket_size (Suc 0) = 32" "bucket_size 2 = 64" "bucket_size 3 = 128" "bucket_size 4 = 256"
  "bucket_size 5 = 512" "bucket_size 6 = 1024" "bucket_size 7 = 2048" "bucket_size 8 = 4096"
  by (simp_all add: bucket_size_def)

lemma bucket_size_eq: "k < NR_BUCKETS \<Longrightarrow> unat (bucket_size k) = osize k" "k < NR_BUCKETS \<Longrightarrow> bucket_size k = of_nat (osize k)"
  by (auto dest!: bucket_cases simp: bucket_sizes)

lemma objs_osize: "k < NR_BUCKETS \<Longrightarrow> objs k * osize k = 4096" "k < NR_BUCKETS \<Longrightarrow> 4096 div osize k = objs k"
  by (auto dest!: bucket_cases)


lemma obj_below: "k < NR_BUCKETS \<Longrightarrow> j < objs k \<Longrightarrow> j * osize k + osize k \<le> 4096"
proof -
  assume k: "k < NR_BUCKETS" and "j < objs k"
  then have "Suc j * osize k \<le> objs k * osize k" by (intro mult_le_mono1) simp
  then show ?thesis using objs_osize(1) [OF k] by simp
qed

lemma unat_obj:
  assumes "i < PAGING_PAGES" "k < NR_BUCKETS" "j < objs k"
  shows "unat (obj (page_of i) k j) = unat (page_of i) + j * osize k"
proof -
  have "0 < osize k" by simp
  then have "j * osize k < 4096" using obj_below [OF assms(2,3)] by linarith
  moreover have "unat (page_of i) + 4096 < 2 ^ 32" using unat_page_of [OF assms(1)] assms(1) by (simp add: PAGING_PAGES_eq)
  ultimately show ?thesis by (simp add: obj_def unat_word_ariths unat_of_nat del: of_nat_mult)
qed

lemma obj_in_page:
  assumes "i < PAGING_PAGES" "k < NR_BUCKETS" "a \<in> slots (page_of i) k"
  shows "\<exists>j<objs k. unat a = unat (page_of i) + j * osize k" "unat (page_of i) \<le> unat a" "unat a + osize k \<le> unat (page_of i) + 4096"
proof -
  obtain j where j: "j < objs k" "a = obj (page_of i) k j" using assms(3) by (auto simp: slots_def)
  then have u: "unat a = unat (page_of i) + j * osize k" using unat_obj [OF assms(1,2)] by simp
  then show "\<exists>j<objs k. unat a = unat (page_of i) + j * osize k" using j by blast
  show "unat (page_of i) \<le> unat a" "unat a + osize k \<le> unat (page_of i) + 4096" using u obj_below [OF assms(2) j(1)] by simp_all
qed

lemma slots_card: "i < PAGING_PAGES \<Longrightarrow> k < NR_BUCKETS \<Longrightarrow> inj_on (obj (page_of i) k) {..<objs k}"
proof (rule inj_onI)
  fix x y assume "i < PAGING_PAGES" "k < NR_BUCKETS" "x \<in> {..<objs k}" "y \<in> {..<objs k}" "obj (page_of i) k x = obj (page_of i) k y"
  then have "unat (page_of i) + x * osize k = unat (page_of i) + y * osize k" by (metis lessThan_iff unat_obj)
  then show "x = y" by simp
qed

text \<open>Two objects of one page are the same or apart.\<close>

lemma same_page_apart:
  assumes "i < PAGING_PAGES" "k < NR_BUCKETS" "a \<in> slots (page_of i) k" "b \<in> slots (page_of i) k" "a \<noteq> b"
  shows "unat a + osize k \<le> unat b \<or> unat b + osize k \<le> unat a"
proof -
  obtain x y where u: "unat a = unat (page_of i) + x * osize k" "unat b = unat (page_of i) + y * osize k"
    using obj_in_page(1) [OF assms(1,2)] assms(3,4) by metis
  have "x \<noteq> y" using u assms(5) by (metis word_unat_eq_iff)
  then have "Suc x \<le> y \<or> Suc y \<le> x" by linarith
  then have "Suc x * osize k \<le> y * osize k \<or> Suc y * osize k \<le> x * osize k" by (metis mult_le_mono1)
  then show ?thesis using u by auto
qed

lemma other_page_apart:
  assumes "i < PAGING_PAGES" "j < PAGING_PAGES" "i \<noteq> j" "k < NR_BUCKETS" "l < NR_BUCKETS"
    "a \<in> slots (page_of i) k" "b \<in> slots (page_of j) l"
  shows "unat a + osize k \<le> unat b \<or> unat b + osize l \<le> unat a"
proof -
  have "unat (page_of i) + 4096 \<le> unat (page_of j) \<or> unat (page_of j) + 4096 \<le> unat (page_of i)"
    using assms(3) unat_page_of [OF assms(1)] unat_page_of [OF assms(2)] by linarith
  then show ?thesis using obj_in_page(2,3) [OF assms(1,4,6)] obj_in_page(2,3) [OF assms(2,5,7)] by linarith
qed

lemma obj_frame:
  assumes "i < PAGING_PAGES" "k < NR_BUCKETS" "a \<in> slots (page_of i) k"
  shows "a AND 0xFFFFF000 = page_of i" "in_page (page_of i) a" "a \<noteq> 0"
proof -
  have u: "unat (page_of i) = 4096 * (i + 256)" using unat_page_of [OF assms(1)] by simp
  note b = obj_in_page(2,3) [OF assms]
  have "0 < osize k" by simp
  then have "unat a < unat (page_of i) + 4096" using b(2) by linarith
  then have "unat a div 4096 = i + 256" using b(1) u by (simp add: div_nat_eqI)
  then show "a AND 0xFFFFF000 = page_of i" "in_page (page_of i) a"
    using u page_of_props(1) [OF assms(1)] by (simp_all add: word_unat_eq_iff unat_and_page in_page_iff)
  show "a \<noteq> 0" using b(1) u by auto
qed



subsection \<open>The invariant\<close>

text \<open>
  \<open>ch k\<close> are the descriptors in chain \<open>k\<close>, \<open>fd\<close> the free descriptors and \<open>fl d\<close> the free objects of a
  descriptor; \<open>active\<close> are the descriptors in use with the number of their chain. Each has a page of its own, in
  use once, and the descriptors themselves are in other pages that are in use.
\<close>

definition nx :: "'a malloc_state_scheme \<Rightarrow> u32 \<Rightarrow> u32" where
  "nx s d = bd_next (descs s d)"

definition pg :: "'a malloc_state_scheme \<Rightarrow> u32 \<Rightarrow> u32" where
  "pg s d = bd_page (descs s d)"

definition active :: "(nat \<Rightarrow> u32 list) \<Rightarrow> (nat \<times> u32) set" where
  "active ch = {(k, d). k < NR_BUCKETS \<and> d \<in> set (ch k)}"

definition desc_ok :: "'a malloc_state_scheme \<Rightarrow> nat \<Rightarrow> u32 \<Rightarrow> u32 list \<Rightarrow> bool" where
  "desc_ok s k d xs \<longleftrightarrow> (\<exists>i<PAGING_PAGES. pg s d = page_of i \<and> mem_map s i = 1 \<and> page_of i < HIGH_MEMORY s) \<and>
     linked (phys s) (bd_freeptr (descs s d)) xs \<and> set xs \<subseteq> slots (pg s d) k \<and> unat (bd_refcnt (descs s d)) + length xs = objs k"

definition desc_home :: "'a malloc_state_scheme \<Rightarrow> (nat \<Rightarrow> u32 list) \<Rightarrow> u32 \<Rightarrow> bool" where
  "desc_home s ch d \<longleftrightarrow> (\<exists>i<PAGING_PAGES. mem_map s i \<noteq> 0 \<and> in_page (page_of i) d \<and> (\<forall>(l, e)\<in>active ch. pg s e \<noteq> page_of i))"

definition malloc_inv ::
  "'a malloc_state_scheme \<Rightarrow> (nat \<Rightarrow> u32 list) \<Rightarrow> u32 list \<Rightarrow> (u32 \<Rightarrow> u32 list) \<Rightarrow> bool" where
  "malloc_inv s ch fd fl \<longleftrightarrow> map_ok s \<and> (\<forall>k<NR_BUCKETS. linked (nx s) (chain s k) (ch k)) \<and> linked (nx s) (free_bucket_desc s) fd \<and>
     (\<forall>k d. (k, d) \<in> active ch \<longrightarrow> desc_ok s k d (fl d) \<and> d \<notin> set fd \<and> desc_home s ch d) \<and>
     (\<forall>k d l e. (k, d) \<in> active ch \<longrightarrow> (l, e) \<in> active ch \<longrightarrow> d = e \<or> pg s d = pg s e \<longrightarrow> k = l \<and> d = e) \<and>
     (\<forall>d\<in>set fd. desc_home s ch d)"

definition live :: "'a malloc_state_scheme \<Rightarrow> (nat \<Rightarrow> u32 list) \<Rightarrow> (u32 \<Rightarrow> u32 list) \<Rightarrow> (u32 \<times> nat) set" where
  "live s ch fl = {(a, k). \<exists>d. (k, d) \<in> active ch \<and> a \<in> slots (pg s d) k - set (fl d)}"

text \<open>The allocator holds the objects \<open>L\<close>, each with the number of its size.\<close>

definition malloc_ok :: "'a malloc_state_scheme \<Rightarrow> (u32 \<times> nat) set \<Rightarrow> bool" where
  "malloc_ok s L \<longleftrightarrow> (\<exists>ch fd fl. malloc_inv s ch fd fl \<and> L = live s ch fl)"

lemma inv_parts:
  assumes "malloc_inv s ch fd fl"
  shows "map_ok s" "k < NR_BUCKETS \<Longrightarrow> linked (nx s) (chain s k) (ch k)" "linked (nx s) (free_bucket_desc s) fd"
    "(k, d) \<in> active ch \<Longrightarrow> desc_ok s k d (fl d)" "(k, d) \<in> active ch \<Longrightarrow> d \<notin> set fd"
    "(k, d) \<in> active ch \<Longrightarrow> (l, e) \<in> active ch \<Longrightarrow> d = e \<or> pg s d = pg s e \<Longrightarrow> k = l \<and> d = e"
    "(k, d) \<in> active ch \<Longrightarrow> desc_home s ch d" "d \<in> set fd \<Longrightarrow> desc_home s ch d"
  using assms unfolding malloc_inv_def by simp_all blast

lemma active_k: "(k, d) \<in> active ch \<Longrightarrow> k < NR_BUCKETS"
  by (simp add: active_def)

lemma desc_pageE:
  assumes "desc_ok s k d xs"
  obtains i where "i < PAGING_PAGES" "pg s d = page_of i" "mem_map s i = 1" "page_of i < HIGH_MEMORY s"
  using assms by (auto simp: desc_ok_def)

text \<open>An object belongs to one descriptor.\<close>

lemma slot_owner:
  assumes "malloc_inv s ch fd fl" "(k, d) \<in> active ch" "(l, e) \<in> active ch" "a \<in> slots (pg s d) k" "a \<in> slots (pg s e) l"
  shows "k = l \<and> d = e"
proof -
  obtain i j where "i < PAGING_PAGES" "pg s d = page_of i" "j < PAGING_PAGES" "pg s e = page_of j"
    using inv_parts(4) [OF assms(1)] assms(2,3) by (meson desc_pageE)
  then have "pg s d = pg s e" using obj_frame(1) active_k assms(2-5) by metis
  then show ?thesis using inv_parts(6) [OF assms(1-3)] by simp
qed


lemma inv_cong:
  assumes "malloc_inv s ch fd fl" "nx t = nx s" "pg t = pg s" "chain t = chain s" "free_bucket_desc t = free_bucket_desc s"
    "mem_map t = mem_map s" "HIGH_MEMORY t = HIGH_MEMORY s" "\<And>k d. (k, d) \<in> active ch \<Longrightarrow> desc_ok t k d (fl' d)"
  shows "malloc_inv t ch fd fl'"
  using assms(1,8) unfolding malloc_inv_def map_ok_def desc_home_def assms(2-7) by blast

lemma desc_ok_cong:
  assumes "desc_ok s k d xs" "pg t d = pg s d" "mem_map t = mem_map s" "HIGH_MEMORY t = HIGH_MEMORY s" "descs t d = descs s d"
    "\<And>x. x \<in> set xs \<Longrightarrow> phys t x = phys s x"
  shows "desc_ok t k d xs"
  using assms linked_cong [of xs "phys t" "phys s"] by (simp add: desc_ok_def)


text \<open>The objects of one descriptor change, and no other object does.\<close>

lemma live_upd:
  assumes inv: "malloc_inv s ch fd fl" and d: "(k, d) \<in> active ch" and pg: "pg t = pg s"
  shows "live t ch (fl(d := xs)) = live s ch fl - slots (pg s d) k \<times> {k} \<union> (slots (pg s d) k - set xs) \<times> {k}" (is "?l = ?r")
proof
  have own: "l = k" if "(l, d) \<in> active ch" for l using inv_parts(6) [OF inv that d] by simp
  show "?l \<subseteq> ?r"
  proof (rule subrelI)
    fix a l assume "(a, l) \<in> ?l"
    then obtain e where e: "(l, e) \<in> active ch" "a \<in> slots (pg s e) l" "a \<notin> set ((fl(d := xs)) e)" by (auto simp: live_def pg)
    show "(a, l) \<in> ?r"
    proof (cases "e = d")
      case True then show ?thesis using e own by auto
    next
      case False
      then have "(a, l) \<in> live s ch fl" using e by (auto simp: live_def)
      moreover have "(a, l) \<notin> slots (pg s d) k \<times> {k}" using slot_owner [OF inv e(1) d e(2)] False by auto
      ultimately show ?thesis by simp
    qed
  qed
  show "?r \<subseteq> ?l"
  proof (rule subrelI)
    fix a l assume "(a, l) \<in> ?r"
    then consider "l = k" "a \<in> slots (pg s d) k - set xs" | "(a, l) \<in> live s ch fl" "(a, l) \<notin> slots (pg s d) k \<times> {k}" by blast
    then show "(a, l) \<in> ?l"
    proof cases
      case 1
      then have "\<exists>e. (l, e) \<in> active ch \<and> a \<in> slots (pg t e) l - set ((fl(d := xs)) e)" using d pg by (intro exI [of _ d]) simp
      then show ?thesis by (simp add: live_def)
    next
      case 2
      then obtain e where e: "(l, e) \<in> active ch" "a \<in> slots (pg s e) l - set (fl e)" by (auto simp: live_def)
      moreover have "e \<noteq> d" using 2(2) e own by auto
      ultimately have "\<exists>e. (l, e) \<in> active ch \<and> a \<in> slots (pg t e) l - set ((fl(d := xs)) e)" using pg by (intro exI [of _ e]) simp
      then show ?thesis by (simp add: live_def)
    qed
  qed
qed

lemma live_not_free: "malloc_inv s ch fd fl \<Longrightarrow> (k, d) \<in> active ch \<Longrightarrow> a \<in> set (fl d) \<Longrightarrow> a \<in> slots (pg s d) k \<Longrightarrow> (a, k) \<notin> live s ch fl"
  using slot_owner by (fastforce simp: live_def)


text \<open>What the objects hold is kept.\<close>

definition kept :: "'a mm_state_scheme \<Rightarrow> 'a mm_state_scheme \<Rightarrow> (u32 \<times> nat) set \<Rightarrow> bool" where
  "kept s t L \<longleftrightarrow> (\<forall>(a, k)\<in>L. \<forall>x. unat a \<le> unat x \<and> unat x < unat a + osize k \<longrightarrow> phys t x = phys s x)"

lemma kept_phys: "phys t = phys s \<Longrightarrow> kept s t L"
  by (simp add: kept_def)

lemma kept_trans: "kept s t L \<Longrightarrow> kept t u L \<Longrightarrow> kept s u L"
  by (force simp: kept_def)

lemma kept_subset: "kept s t L \<Longrightarrow> M \<subseteq> L \<Longrightarrow> kept s t M"
  by (force simp: kept_def)

lemma in_page_not:
  assumes "i < PAGING_PAGES" "j < PAGING_PAGES" "i \<noteq> j" "unat (page_of i) \<le> unat x" "unat x < unat (page_of i) + 4096"
  shows "\<not> in_page (page_of j) x"
proof -
  have u: "unat (page_of i) = 4096 * (i + 256)" "unat (page_of j) = 4096 * (j + 256)" using unat_page_of assms(1,2) by simp_all
  then have "unat x div 4096 = i + 256" using assms(4,5) by (simp add: div_nat_eqI)
  then show ?thesis using u assms(3) page_of_props(1) [OF assms(2)] by (simp add: in_page_iff)
qed

lemma live_page:
  assumes "malloc_inv s ch fd fl" "(a, k) \<in> live s ch fl"
  obtains i d where "(k, d) \<in> active ch" "a \<in> slots (pg s d) k" "i < PAGING_PAGES" "pg s d = page_of i" "mem_map s i = 1"
proof -
  from assms(2) obtain d where d: "(k, d) \<in> active ch" "a \<in> slots (pg s d) k" by (auto simp: live_def)
  then show ?thesis using desc_pageE [OF inv_parts(4) [OF assms(1) d(1)]] that by metis
qed

lemma kept_page:
  assumes inv: "malloc_inv s ch fd fl" and i: "i < PAGING_PAGES" "mem_map s i = 0"
    and x: "\<And>x. \<not> in_page (page_of i) x \<Longrightarrow> phys t x = phys s x"
  shows "kept s t (live s ch fl)"
  unfolding kept_def
proof (intro ballI, clarify)
  fix a :: u32 and k and x :: u32 assume l: "(a, k) \<in> live s ch fl" and b: "unat a \<le> unat x" "unat x < unat a + osize k"
  obtain j d where d: "(k, d) \<in> active ch" "a \<in> slots (page_of j) k" "j < PAGING_PAGES" "mem_map s j = 1" by (metis live_page [OF inv l])
  have "unat (page_of j) \<le> unat x" "unat x < unat (page_of j) + 4096"
    using obj_in_page(2,3) [OF d(3) active_k [OF d(1)] d(2)] b by linarith+
  then show "phys t x = phys s x" using in_page_not [OF d(3) i(1)] i(2) d(4) x by fastforce
qed

text \<open>Objects are apart.\<close>

abbreviation apart :: "u32 \<Rightarrow> nat \<Rightarrow> u32 \<Rightarrow> nat \<Rightarrow> bool" where
  "apart a k b l \<equiv> unat a + osize k \<le> unat b \<or> unat b + osize l \<le> unat a"

lemma slots_apart:
  assumes inv: "malloc_inv s ch fd fl" and d: "(k, d) \<in> active ch" "(l, e) \<in> active ch"
    and a: "a \<in> slots (pg s d) k" "b \<in> slots (pg s e) l" "(a, k) \<noteq> (b, l)"
  shows "apart a k b l"
proof -
  obtain i j where ij: "i < PAGING_PAGES" "pg s d = page_of i" "j < PAGING_PAGES" "pg s e = page_of j"
    using inv_parts(4) [OF inv] d by (meson desc_pageE)
  show ?thesis
  proof (cases "i = j")
    case True
    then have "k = l \<and> d = e" using inv_parts(6) [OF inv d] ij by simp
    then show ?thesis using same_page_apart [OF ij(1) active_k [OF d(1)]] a ij by simp
  next
    case False
    then show ?thesis using other_page_apart [OF ij(1,3) _ active_k [OF d(1)] active_k [OF d(2)]] a ij by simp
  qed
qed


subsection \<open>Taking an object\<close>

lemma take_inv:
  assumes inv: "malloc_inv s ch fd fl" and d: "(k, d) \<in> active ch" "bd_freeptr (descs s d) \<noteq> 0" and t: "take_object d s = (p, t)"
  shows "\<exists>rest. fl d = p # rest \<and> malloc_inv t ch fd (fl(d := rest)) \<and> phys t = phys s \<and> pg t = pg s \<and> mem_map t = mem_map s \<and>
    live t ch (fl(d := rest)) = insert (p, k) (live s ch fl) \<and> (p, k) \<notin> live s ch fl \<and> p \<in> slots (pg s d) k"
proof -
  have ok: "desc_ok s k d (fl d)" by (rule inv_parts(4) [OF inv d(1)])
  then have "linked (phys s) (bd_freeptr (descs s d)) (fl d)" by (simp add: desc_ok_def)
  from linked_Cons [OF this d(2)] obtain rest where fl: "fl d = p # rest" and rest: "linked (phys s) (phys s p) rest"
    using t by (auto simp: take_object_def Let_def)
  have td: "t = upd_desc d (\<lambda>b. b\<lparr>bd_freeptr := phys s p, bd_refcnt := bd_refcnt b + 1\<rparr>) s"
    using t by (auto simp: take_object_def Let_def)
  then have eq: "nx t = nx s" "pg t = pg s" "chain t = chain s" "free_bucket_desc t = free_bucket_desc s" "mem_map t = mem_map s"
      "HIGH_MEMORY t = HIGH_MEMORY s" "phys t = phys s" "\<And>e. e \<noteq> d \<Longrightarrow> descs t e = descs s e"
    by (simp_all add: upd_desc_def nx_def pg_def fun_eq_iff)
  have k: "objs k \<le> 256" using active_k [OF d(1)] by (auto dest!: bucket_cases)
  have "distinct (fl d)" using ok linked_distinct by (auto simp: desc_ok_def)
  have cnt: "unat (bd_refcnt (descs s d)) + Suc (length rest) = objs k" using ok fl by (simp add: desc_ok_def)
  then have "unat (bd_refcnt (descs t d)) = Suc (unat (bd_refcnt (descs s d)))"
    using k by (simp add: td upd_desc_def unat_word_ariths)
  then have okd: "desc_ok t k d rest"
    using ok fl rest cnt eq by (simp add: desc_ok_def) (simp add: td upd_desc_def)
  have "desc_ok t l e ((fl(d := rest)) e)" if "(l, e) \<in> active ch" for l e
  proof (cases "e = d")
    case True
    then show ?thesis using okd inv_parts(6) [OF inv that d(1)] by simp
  next
    case False
    have "desc_ok t l e (fl e)" by (rule desc_ok_cong [OF inv_parts(4) [OF inv that]]) (simp_all add: eq False)
    then show ?thesis using False by simp
  qed
  then have "malloc_inv t ch fd (fl(d := rest))" using eq by (intro inv_cong [OF inv]) simp_all
  moreover have sl: "p \<in> slots (pg s d) k" "set rest \<subseteq> slots (pg s d) k" using ok fl by (simp_all add: desc_ok_def)
  moreover have "(p, k) \<notin> live s ch fl"
    using live_not_free [OF inv d(1)] sl(1) fl by simp
  moreover have "live t ch (fl(d := rest)) = insert (p, k) (live s ch fl)"
  proof -
    have "live t ch (fl(d := rest)) = live s ch fl - slots (pg s d) k \<times> {k} \<union> (slots (pg s d) k - set rest) \<times> {k}"
      by (rule live_upd [OF inv d(1) eq(2)])
    moreover have "live s ch fl = live s ch fl - slots (pg s d) k \<times> {k} \<union> (slots (pg s d) k - set (fl d)) \<times> {k}"
      using live_upd [OF inv d(1), of s "fl d"] by simp
    moreover have "slots (pg s d) k - set rest = insert p (slots (pg s d) k - set (fl d))"
      using \<open>distinct (fl d)\<close> fl sl(1) by auto
    ultimately show ?thesis by blast
  qed
  ultimately show ?thesis using fl eq by auto
qed

end
