(* ===== verification/Malloc_Objects.thy ===== *)
theory Malloc_Objects
  imports Malloc_Safe
begin

text \<open>
  What \<open>malloc\<close> and \<open>free_s\<close> do to the set of objects: a page carved into objects, a page of descriptors, an
  object given back, a page given back.
\<close>


subsection \<open>Links at equal distances\<close>

primrec steps :: "u32 \<Rightarrow> u32 \<Rightarrow> nat \<Rightarrow> u32 list" where
  "steps d z 0 = []"
| "steps d z (Suc n) = d # steps (d + z) z n"

lemma steps_length [simp]: "length (steps d z n) = n"
  by (induction n arbitrary: d) auto

lemma steps_set: "set (steps d z n) = (\<lambda>j. d + of_nat j * z) ` {..<n}"
proof (induction n arbitrary: d)
  case (Suc n)
  have "(\<lambda>j. d + of_nat j * z) ` {..<Suc n} = insert d ((\<lambda>j. d + z + of_nat j * z) ` {..<n})"
    by (simp add: lessThan_Suc_eq_insert_0 image_image algebra_simps)
  then show ?case using Suc by simp
qed simp

lemma unat_step:
  assumes "x \<in> set (steps d z n)" "unat d + n * unat z \<le> 2 ^ 32" "0 < unat z"
  shows "\<exists>j<n. unat x = unat d + j * unat z"
proof -
  obtain j where j: "j < n" "x = d + of_nat j * z" using assms(1) by (auto simp: steps_set)
  have "Suc j * unat z \<le> n * unat z" using j(1) by (intro mult_le_mono1) simp
  then have b: "unat d + j * unat z < 2 ^ 32" using assms(2,3) by simp
  then have "j * unat z < 2 ^ 32" by linarith
  moreover have "j < 2 ^ 32"
  proof -
    have "j * 1 \<le> j * unat z" using assms(3) by (intro mult_le_mono2) simp
    then show ?thesis using \<open>j * unat z < 2 ^ 32\<close> by linarith
  qed
  ultimately have "unat (of_nat j * z) = j * unat z" by (simp add: unat_word_ariths unat_of_nat)
  then show ?thesis using j b by (auto simp: unat_word_ariths)
qed

lemma steps_fresh:
  assumes "unat d + Suc n * unat z < 2 ^ 32" "0 < unat z"
  shows "d \<notin> set (steps (d + z) z n)"
proof
  assume a: "d \<in> set (steps (d + z) z n)"
  have u: "unat (d + z) = unat d + unat z" using assms(1) by (simp add: unat_word_ariths)
  obtain j where "unat d = unat (d + z) + j * unat z" using unat_step [OF a] u assms by auto
  then show False using u assms(2) by simp
qed

lemma carve_links:
  "unat cp + Suc n * unat sz < 2 ^ 32 \<Longrightarrow> 0 < unat sz \<Longrightarrow> cp \<noteq> 0 \<Longrightarrow>
     linked (phys (carve n cp sz s)) cp (steps cp sz (Suc n)) \<and>
     (\<forall>x. x \<notin> set (steps cp sz (Suc n)) \<longrightarrow> phys (carve n cp sz s) x = phys s x)"
proof (induction n arbitrary: cp s)
  case (Suc n)
  have u: "unat (cp + sz) = unat cp + unat sz" using Suc.prems(1) by (simp add: unat_word_ariths)
  then have "cp + sz \<noteq> 0" using Suc.prems(2) by (metis add_is_0 less_nat_zero_code unat_0)
  have b: "unat (cp + sz) + Suc n * unat sz < 2 ^ 32" using Suc.prems(1) u by simp
  note ih = Suc.IH [OF b Suc.prems(2) \<open>cp + sz \<noteq> 0\<close>, of "poke cp (cp + sz) s", folded carve.simps(2)]
  have l: "linked (phys (carve (Suc n) cp sz s)) (cp + sz) (steps (cp + sz) sz (Suc n))"
    and o: "\<And>x. x \<notin> set (steps (cp + sz) sz (Suc n)) \<Longrightarrow> phys (carve (Suc n) cp sz s) x = phys (poke cp (cp + sz) s) x"
    using ih by blast+
  have c: "cp \<notin> set (steps (cp + sz) sz (Suc n))" using steps_fresh [OF Suc.prems(1,2)] .
  then have "phys (carve (Suc n) cp sz s) cp = cp + sz" using o by simp
  then have "linked (phys (carve (Suc n) cp sz s)) cp (cp # steps (cp + sz) sz (Suc n))" using l Suc.prems(3) by simp
  moreover have "phys (carve (Suc n) cp sz s) x = phys s x" if "x \<notin> set (cp # steps (cp + sz) sz (Suc n))" for x
    using o that by simp
  ultimately show ?case unfolding steps.simps(2) [of cp sz "Suc n"] by blast
qed simp

lemma link_descs_links:
  "unat d + Suc n * 16 < 2 ^ 32 \<Longrightarrow> d \<noteq> 0 \<Longrightarrow>
     linked (\<lambda>x. bd_next (link_descs n d 0 ds x)) d (steps d 16 (Suc n)) \<and>
     (\<forall>x. x \<notin> set (steps d 16 (Suc n)) \<longrightarrow> link_descs n d 0 ds x = ds x)"
proof (induction n arbitrary: d ds)
  case (Suc n)
  let ?t = "link_descs (Suc n) d 0 ds"
  have u: "unat (d + 16) = unat d + 16" using Suc.prems(1) by (simp add: unat_word_ariths)
  then have "d + 16 \<noteq> 0" by (metis add_is_0 unat_0 zero_neq_numeral)
  have b: "unat (d + 16) + Suc n * 16 < 2 ^ 32" using Suc.prems(1) u by simp
  note ih = Suc.IH [OF b \<open>d + 16 \<noteq> 0\<close>, of "ds(d := blank_desc\<lparr>bd_next := d + 16\<rparr>)", folded link_descs.simps(2)]
  have l: "linked (\<lambda>x. bd_next (?t x)) (d + 16) (steps (d + 16) 16 (Suc n))"
    and o: "\<And>x. x \<notin> set (steps (d + 16) 16 (Suc n)) \<Longrightarrow> ?t x = (ds(d := blank_desc\<lparr>bd_next := d + 16\<rparr>)) x"
    using ih by blast+
  have c: "d \<notin> set (steps (d + 16) 16 (Suc n))" using steps_fresh [of d "Suc n" 16] Suc.prems(1) by simp
  then have "bd_next (?t d) = d + 16" using o by simp
  then have "linked (\<lambda>x. bd_next (?t x)) d (d # steps (d + 16) 16 (Suc n))" using l Suc.prems(2) by simp
  moreover have "?t x = ds x" if "x \<notin> set (d # steps (d + 16) 16 (Suc n))" for x using o that by simp
  ultimately show ?case unfolding steps.simps(2) [of d 16 "Suc n"] by blast
qed simp

lemma slots_steps:
  assumes "k < NR_BUCKETS"
  shows "set (steps p (bucket_size k) (objs k)) = slots p k"
  by (simp add: steps_set slots_def obj_def bucket_size_eq(2) [OF assms])

lemma carve_page:
  assumes "i < PAGING_PAGES" "k < NR_BUCKETS"
  defines "xs \<equiv> steps (page_of i) (bucket_size k) (objs k)"
  shows "linked (phys (carve (objs k - 1) (page_of i) (bucket_size k) s)) (page_of i) xs"
    "x \<notin> slots (page_of i) k \<Longrightarrow> phys (carve (objs k - 1) (page_of i) (bucket_size k) s) x = phys s x"
proof -
  have o: "Suc (objs k - 1) = objs k" by simp
  have "unat (page_of i) + objs k * unat (bucket_size k) < 2 ^ 32"
    using unat_page_of [OF assms(1)] assms(1) objs_osize(1) [OF assms(2)] bucket_size_eq(1) [OF assms(2)] by (simp add: PAGING_PAGES_eq)
  note c = carve_links [of "page_of i" "objs k - 1" "bucket_size k" s, unfolded o, OF this]
  have "0 < unat (bucket_size k)" using bucket_size_eq(1) [OF assms(2)] by simp
  note c = c [OF this page_of_props(3) [OF assms(1)]]
  show "linked (phys (carve (objs k - 1) (page_of i) (bucket_size k) s)) (page_of i) xs" using c by (simp add: xs_def)
  show "x \<notin> slots (page_of i) k \<Longrightarrow> phys (carve (objs k - 1) (page_of i) (bucket_size k) s) x = phys s x"
    using c slots_steps [OF assms(2)] by simp
qed


subsection \<open>A new page of objects\<close>

lemma active_page:
  assumes "malloc_inv s ch fd fl" "(l, e) \<in> active ch" "mem_map s i = 0" "i < PAGING_PAGES"
  shows "pg s e \<noteq> page_of i"
  using desc_pageE [OF inv_parts(4) [OF assms(1,2)]] assms(3,4) page_of_eq_iff by (metis zero_neq_one)

lemma active_phys:
  assumes inv: "malloc_inv s ch fd fl" and e: "(l, e) \<in> active ch" and i: "i < PAGING_PAGES" "mem_map s i = 0"
    and x: "x \<in> set (fl e)"
  shows "\<not> in_page (page_of i) x"
proof -
  have ok: "desc_ok s l e (fl e)" by (rule inv_parts(4) [OF inv e])
  then obtain j where j: "j < PAGING_PAGES" "pg s e = page_of j" "mem_map s j = 1" by (auto elim: desc_pageE)
  have "x \<in> slots (page_of j) l" using ok x j by (auto simp: desc_ok_def)
  note b = obj_in_page(2,3) [OF j(1) active_k [OF e] this]
  have "0 < osize l" by simp
  then have "unat x < unat (page_of j) + 4096" using b(2) by linarith
  then show ?thesis using in_page_not [OF j(1) i(1) _ b(1)] j(3) i(2) by (metis zero_neq_one)
qed

lemma in_pages_eq:
  assumes "i < PAGING_PAGES" "j < PAGING_PAGES" "in_page (page_of i) x" "in_page (page_of j) x"
  shows "i = j"
proof -
  have u: "unat (page_of i) = 4096 * (i + 256)" "unat (page_of j) = 4096 * (j + 256)" using unat_page_of assms(1,2) by simp_all
  have "unat x div 4096 = unat (page_of i) div 4096" "unat x div 4096 = unat (page_of j) div 4096"
    using assms in_page_iff page_of_props(1) by blast+
  then show ?thesis using u by simp
qed

lemma home_page:
  assumes "desc_home s ch d" "mem_map s i = 0" "i < PAGING_PAGES"
  shows "\<not> in_page (page_of i) d"
proof -
  obtain j where j: "j < PAGING_PAGES" "mem_map s j \<noteq> 0" "in_page (page_of j) d" using assms(1) by (auto simp: desc_home_def)
  have "i \<noteq> j" using j(2) assms(2) by auto
  then show ?thesis using in_pages_eq [OF assms(3) j(1)] j(3) by blast
qed


text \<open>A step that leaves the pages of objects alone.\<close>

lemma inv_change:
  assumes inv: "malloc_inv s ch fd fl"
    and e: "\<And>l e. (l, e) \<in> active ch \<Longrightarrow> descs t e = descs s e" "chain t = chain s" "HIGH_MEMORY t = HIGH_MEMORY s"
    and m: "\<And>j. j < PAGING_PAGES \<Longrightarrow> mem_map s j \<noteq> 0 \<Longrightarrow> mem_map t j = mem_map s j"
    and x: "\<And>l e x. (l, e) \<in> active ch \<Longrightarrow> x \<in> set (fl e) \<Longrightarrow> phys t x = phys s x"
    and f: "linked (nx t) (free_bucket_desc t) fd'" "\<And>d. d \<in> set fd' \<Longrightarrow> desc_home t ch d"
      "\<And>l d. (l, d) \<in> active ch \<Longrightarrow> d \<notin> set fd'"
  shows "malloc_inv t ch fd' fl \<and> live t ch fl = live s ch fl"
proof -
  have p: "pg t d = pg s d" "nx t d = nx s d" if "(l, d) \<in> active ch" for l d using e(1) [OF that] by (simp_all add: pg_def nx_def)
  have "map_ok t" using inv_parts(1) [OF inv] m e(3) by (auto simp: map_ok_def)
  moreover have "linked (nx t) (chain t k) (ch k)" if "k < NR_BUCKETS" for k
  proof -
    have "linked (nx s) (chain s k) (ch k)" by (rule inv_parts(2) [OF inv that])
    moreover have "linked (nx t) (chain s k) (ch k) = linked (nx s) (chain s k) (ch k)"
      by (rule linked_cong) (use p(2) that in \<open>auto simp: active_def\<close>)
    ultimately show ?thesis by (simp add: e(2))
  qed
  moreover have "desc_ok t l d (fl d)" if a: "(l, d) \<in> active ch" for l d
  proof -
    have ok: "desc_ok s l d (fl d)" by (rule inv_parts(4) [OF inv a])
    then obtain i where i: "i < PAGING_PAGES" "pg s d = page_of i" "mem_map s i = 1" "page_of i < HIGH_MEMORY s"
      by (rule desc_pageE)
    then have "mem_map t i = 1" using m by (metis one_neq_zero)
    moreover have "linked (phys t) (bd_freeptr (descs s d)) (fl d)"
      using ok linked_cong [of "fl d" "phys t" "phys s"] x [OF a] by (simp add: desc_ok_def)
    ultimately show ?thesis using ok i e(1) [OF a] p [OF a] e(3) by (auto simp: desc_ok_def)
  qed
  moreover have "desc_home t ch d" if "(l, d) \<in> active ch" for l d
  proof -
    from inv_parts(7) [OF inv that] obtain i where i: "i < PAGING_PAGES" "mem_map s i \<noteq> 0" "in_page (page_of i) d"
      "\<forall>(l, e)\<in>active ch. pg s e \<noteq> page_of i" unfolding desc_home_def by blast
    then have "\<forall>(l, e)\<in>active ch. pg t e \<noteq> page_of i" using p(1) by fastforce
    then show ?thesis using i m unfolding desc_home_def by metis
  qed
  moreover have "k = l \<and> d = e'" if "(k, d) \<in> active ch" "(l, e') \<in> active ch" "d = e' \<or> pg t d = pg t e'" for k d l e'
    using inv_parts(6) [OF inv that(1,2)] that(3) p(1) that(1,2) by metis
  ultimately have "malloc_inv t ch fd' fl" unfolding malloc_inv_def using f by blast
  moreover have "live t ch fl = live s ch fl" using p(1) by (fastforce simp: live_def)
  ultimately show ?thesis by blast
qed


lemma init_inv:
  assumes inv: "malloc_inv s ch [] fl" and r: "init_bucket_desc s = Done u t"
  shows "\<exists>fd. fd \<noteq> [] \<and> malloc_inv t ch fd fl \<and> live t ch fl = live s ch fl \<and> kept s t (live s ch fl)"
proof -
  from inv_parts(3) [OF inv] have z: "free_bucket_desc s = 0" by simp
  obtain p v where g: "get_free_page s = (p, v)" by force
  then have "p \<noteq> 0" using r by (auto simp: init_bucket_desc_def)
  from get_free_page_succeeds [OF g this] obtain i where i: "i < PAGING_PAGES" "mem_map s i = 0" "p = page_of i"
    "v = zero_page p (set_map i 1 s)" by metis
  let ?fd = "steps p 16 256"
  have v: "descs v = descs s" "chain v = chain s" using i(4) by (simp_all add: zero_page_def set_map_def)
  have t: "t = v\<lparr>descs := link_descs 255 p 0 (descs s), free_bucket_desc := p\<rparr>"
    using r g \<open>p \<noteq> 0\<close> v i(4) z by (simp add: init_bucket_desc_def zero_page_def set_map_def)
  have u: "unat p = 4096 * (i + 256)" "unat p + Suc 255 * 16 < 2 ^ 32" using unat_page_of [OF i(1)] i(1,3) by (simp_all add: PAGING_PAGES_eq)
  have links: "linked (\<lambda>x. bd_next (link_descs 255 p 0 (descs s) x)) p ?fd"
    and out: "\<And>x. x \<notin> set ?fd \<Longrightarrow> link_descs 255 p 0 (descs s) x = descs s x"
    using link_descs_links [OF u(2) \<open>p \<noteq> 0\<close>, of "descs s"] by simp_all
  have page: "in_page (page_of i) d" if d: "d \<in> set ?fd" for d
  proof -
    obtain j where "j < 256" "unat d = unat p + j * 16" using unat_step [OF d] u by auto
    then have "unat d div 4096 = i + 256" using u by (simp add: div_nat_eqI)
    then show ?thesis using u i(1,3) by (simp add: in_page_iff page_of_props(1))
  qed
  have apart: "d \<notin> set ?fd" if "(l, d) \<in> active ch" for l d
    using home_page [OF inv_parts(7) [OF inv that] i(2,1)] page by blast
  have "malloc_inv t ch ?fd fl \<and> live t ch fl = live s ch fl"
  proof (rule inv_change [OF inv])
    show "descs t e = descs s e" if "(l, e) \<in> active ch" for l e using out apart [OF that] t by simp
    show "chain t = chain s" "HIGH_MEMORY t = HIGH_MEMORY s" using t v i(4) by simp_all
    show "mem_map t j = mem_map s j" if "mem_map s j \<noteq> 0" for j using t i(2,4) that by auto
    show "phys t x = phys s x" if "(l, e) \<in> active ch" "x \<in> set (fl e)" for l e x
      using active_phys [OF inv that(1) i(1,2) that(2)] t i(3,4) by simp
    show "linked (nx t) (free_bucket_desc t) ?fd" using links t by (simp add: nx_def [abs_def])
    show "d \<notin> set ?fd" if "(l, d) \<in> active ch" for l d using apart [OF that] .
    fix d assume d: "d \<in> set ?fd"
    have "pg t e \<noteq> page_of i" if "(l, e) \<in> active ch" for l e
      using active_page [OF inv that i(2,1)] out apart [OF that] t by (simp add: pg_def)
    moreover have "mem_map t i \<noteq> 0" using t i(4) by simp
    ultimately show "desc_home t ch d" using i(1) page [OF d] unfolding desc_home_def by blast
  qed
  moreover have "kept s t (live s ch fl)" by (rule kept_page [OF inv i(1,2)]) (use t i(3,4) in simp)
  moreover have "?fd \<noteq> []" by (metis steps_length list.size(3) zero_neq_numeral)
  ultimately show ?thesis by blast
qed


text \<open>The first free descriptor gets a page of free objects and comes first in its chain.\<close>

lemma bucket_inv:
  assumes inv: "malloc_inv s ch (d # fd) fl" and i: "i < PAGING_PAGES" "mem_map s i = 0" and k: "k < NR_BUCKETS"
    and t: "\<And>e. e \<noteq> d \<Longrightarrow> descs t e = descs s e" "pg t d = page_of i" "nx t d = chain s k" "bd_freeptr (descs t d) = page_of i"
      "bd_refcnt (descs t d) = 0" "chain t = (chain s)(k := d)" "free_bucket_desc t = nx s d" "mem_map t = (mem_map s)(i := 1)"
      "HIGH_MEMORY t = HIGH_MEMORY s" "\<And>x. \<not> in_page (page_of i) x \<Longrightarrow> phys t x = phys s x"
    and xs: "linked (phys t) (page_of i) xs" "set xs = slots (page_of i) k" "length xs = objs k"
  defines "ch' \<equiv> ch(k := d # ch k)"
  shows "malloc_inv t ch' fd (fl(d := xs))" "live t ch' (fl(d := xs)) = live s ch fl" "(k, d) \<in> active ch'"
proof -
  have fdl: "linked (nx s) (free_bucket_desc s) (d # fd)" by (rule inv_parts(3) [OF inv])
  then have d0: "d \<noteq> 0" and dfd: "d \<notin> set fd" and fd: "linked (nx s) (nx s d) fd" using linked_distinct [OF fdl] by auto
  have dact: "(l, d) \<notin> active ch" for l using inv_parts(5) [OF inv] by force
  have act: "active ch' = insert (k, d) (active ch)" using k by (auto simp: active_def ch'_def split: if_splits)
  have same: "descs t e = descs s e" "pg t e = pg s e" "nx t e = nx s e" if "(l, e) \<in> active ch" for l e
    using that dact t(1) by (metis (full_types) nx_def pg_def)+
  have pgd: "pg t e \<noteq> page_of i" if "(l, e) \<in> active ch" for l e
    using active_page [OF inv that i(2,1)] same(2) [OF that] by simp
  have home: "desc_home t ch' e" if h: "desc_home s ch e" for e
  proof -
    obtain j where j: "j < PAGING_PAGES" "mem_map s j \<noteq> 0" "in_page (page_of j) e" "\<forall>(l, e)\<in>active ch. pg s e \<noteq> page_of j"
      using h unfolding desc_home_def by blast
    have "page_of i \<noteq> page_of j" using j(1,2) i page_of_eq_iff by metis
    then have "\<forall>(l, e)\<in>active ch'. pg t e \<noteq> page_of j" using j(4) same(2) t(2) unfolding act by fastforce
    moreover have "mem_map t j \<noteq> 0" using j(2) t(8) by simp
    ultimately show ?thesis using j(1,3) unfolding desc_home_def by blast
  qed
  have nxs: "linked (nx t) a ys = linked (nx s) a ys" if "d \<notin> set ys" for a ys
    by (rule linked_cong) (use t(1) that in \<open>metis nx_def\<close>)
  have ok: "desc_ok t l e ((fl(d := xs)) e)" if a: "(l, e) \<in> active ch'" for l e
  proof (cases "e = d")
    case True
    then have "l = k" using a dact act by auto
    have "page_of i < HIGH_MEMORY t" using inv_parts(1) [OF inv] i t(9) by (simp add: map_ok_def)
    then show ?thesis unfolding desc_ok_def using True \<open>l = k\<close> t(2,4,5,8) xs i(1) by auto
  next
    case False
    then have a: "(l, e) \<in> active ch" using a act by auto
    have ok: "desc_ok s l e (fl e)" by (rule inv_parts(4) [OF inv a])
    then obtain j where j: "j < PAGING_PAGES" "pg s e = page_of j" "mem_map s j = 1" "page_of j < HIGH_MEMORY s" by (rule desc_pageE)
    have "phys t x = phys s x" if "x \<in> set (fl e)" for x using active_phys [OF inv a i that] t(10) by blast
    then have "linked (phys t) (bd_freeptr (descs s e)) (fl e)"
      using ok linked_cong [of "fl e" "phys t" "phys s"] by (simp add: desc_ok_def)
    moreover have "mem_map t j = 1" using j t(8) by simp
    ultimately show ?thesis using ok j same [OF a] t(9) False by (auto simp: desc_ok_def)
  qed
  have uniq: "l = m \<and> e = f" if "(l, e) \<in> active ch'" "(m, f) \<in> active ch'" "e = f \<or> pg t e = pg t f" for l e m f
  proof (cases "e = d \<or> f = d")
    case True
    then show ?thesis using that pgd dact t(2) unfolding act by (metis Pair_inject insertE)
  next
    case False
    then have "(l, e) \<in> active ch" "(m, f) \<in> active ch" using that unfolding act by auto
    then show ?thesis using inv_parts(6) [OF inv] that(3) same(2) by metis
  qed
  show "malloc_inv t ch' fd (fl(d := xs))"
    unfolding malloc_inv_def
  proof (intro conjI allI impI ballI)
    show "map_ok t" using inv_parts(1) [OF inv] t(8,9) by (auto simp: map_ok_def)
    show "linked (nx t) (chain t l) (ch' l)" if "l < NR_BUCKETS" for l
    proof -
      have "d \<notin> set (ch l)" using dact [of l] that by (simp add: active_def)
      then have "linked (nx t) (chain s l) (ch l)" using inv_parts(2) [OF inv that] nxs by simp
      then show ?thesis using d0 t(3,6) by (cases "l = k") (simp_all add: ch'_def)
    qed
    show "linked (nx t) (free_bucket_desc t) fd" using fd nxs [OF dfd] t(7) by simp
    show "desc_ok t l e ((fl(d := xs)) e)" if "(l, e) \<in> active ch'" for l e by (rule ok [OF that])
    show "e \<notin> set fd" if "(l, e) \<in> active ch'" for l e using that act inv_parts(5) [OF inv] dfd by auto
    show "desc_home t ch' e" if "(l, e) \<in> active ch'" for l e
      using that act inv_parts(7,8) [OF inv] home by (metis Pair_inject insertE list.set_intros(1))
    show "desc_home t ch' e" if "e \<in> set fd" for e using inv_parts(8) [OF inv] home that by simp
    show "l = m" "e = f" if "(l, e) \<in> active ch'" "(m, f) \<in> active ch'" "e = f \<or> pg t e = pg t f" for l e m f
      using uniq [OF that] by simp_all
  qed
  show "live t ch' (fl(d := xs)) = live s ch fl"
  proof -
    have "(\<exists>e. (l, e) \<in> active ch' \<and> a \<in> slots (pg t e) l - set ((fl(d := xs)) e)) \<longleftrightarrow>
       (\<exists>e. (l, e) \<in> active ch \<and> a \<in> slots (pg s e) l - set (fl e))" for a l
    proof
      assume "\<exists>e. (l, e) \<in> active ch' \<and> a \<in> slots (pg t e) l - set ((fl(d := xs)) e)"
      then obtain e where e: "(l, e) \<in> active ch'" "a \<in> slots (pg t e) l - set ((fl(d := xs)) e)" by blast
      then have "e \<noteq> d" using act dact xs(2) t(2) by auto
      then show "\<exists>e. (l, e) \<in> active ch \<and> a \<in> slots (pg s e) l - set (fl e)" using e act same(2) by auto
    next
      assume "\<exists>e. (l, e) \<in> active ch \<and> a \<in> slots (pg s e) l - set (fl e)"
      then obtain e where e: "(l, e) \<in> active ch" "a \<in> slots (pg s e) l - set (fl e)" by blast
      then have "e \<noteq> d" using dact by auto
      then show "\<exists>e. (l, e) \<in> active ch' \<and> a \<in> slots (pg t e) l - set ((fl(d := xs)) e)"
        using e act same(2) [OF e(1)] by (intro exI [of _ e]) simp
    qed
    then show ?thesis by (simp add: live_def)
  qed
  show "(k, d) \<in> active ch'" by (simp add: act)
qed

end
