(* ===== verification/Malloc_Contract.thy ===== *)
theory Malloc_Contract
  imports Malloc_Objects
begin

text \<open>The contract of \<open>malloc\<close> and \<open>free_s\<close>.\<close>


subsection \<open>Chains\<close>

text \<open>The descriptors of a chain have pages of their own, so it is shorter than the fuel.\<close>

lemma chain_length:
  assumes inv: "malloc_inv s ch fd fl" and k: "k < NR_BUCKETS"
  shows "length (ch k) < CHAIN_FUEL"
proof -
  have a: "(k, d) \<in> active ch" if "d \<in> set (ch k)" for d using that k by (simp add: active_def)
  have "inj_on (pg s) (set (ch k))" using inv_parts(6) [OF inv] a by (metis inj_onI)
  moreover have "pg s ` set (ch k) \<subseteq> page_of ` {..<PAGING_PAGES}"
    using inv_parts(4) [OF inv] a desc_pageE by (metis image_subsetI image_eqI lessThan_iff)
  moreover have "card (pg s ` set (ch k)) \<le> PAGING_PAGES" if "pg s ` set (ch k) \<subseteq> page_of ` {..<PAGING_PAGES}"
    using surj_card_le [OF _ that] by simp
  ultimately have "card (set (ch k)) \<le> PAGING_PAGES" by (simp add: card_image)
  then show ?thesis using linked_distinct [OF inv_parts(2) [OF inv k]] by (simp add: CHAIN_FUEL_def distinct_card)
qed

lemma find_free_chain:
  "linked (nx s) a xs \<Longrightarrow> length xs < n \<Longrightarrow>
     \<exists>d. find_free n (descs s) a = Some d \<and> (d = 0 \<or> d \<in> set xs \<and> bd_freeptr (descs s d) \<noteq> 0)"
proof (induction xs arbitrary: a n)
  case Nil
  then show ?case by (cases n) auto
next
  case (Cons x xs)
  then obtain m where "n = Suc m" by (cases n) auto
  then show ?case using Cons.IH [of "nx s x" m] Cons.prems by (auto simp: nx_def)
qed

lemma find_page_none:
  "linked (nx s) a xs \<Longrightarrow> length xs < n \<Longrightarrow> (\<And>e. e \<in> set xs \<Longrightarrow> pg s e \<noteq> page) \<Longrightarrow> find_page n (descs s) page prev a = Some None"
proof (induction xs arbitrary: a n prev)
  case Nil
  then show ?case by (cases n) auto
next
  case (Cons x xs)
  then obtain m where "n = Suc m" by (cases n) auto
  then show ?case using Cons.IH [of "nx s x" m] Cons.prems by (auto simp: nx_def pg_def)
qed

abbreviation before :: "u32 list \<Rightarrow> u32 \<Rightarrow> u32" where
  "before xs prev \<equiv> (if xs = [] then prev else last xs)"

lemma find_page_at:
  "linked (nx s) a (xs @ d # ys) \<Longrightarrow> length xs < n \<Longrightarrow> (\<And>e. e \<in> set xs \<Longrightarrow> pg s e \<noteq> page) \<Longrightarrow> pg s d = page \<Longrightarrow>
     find_page n (descs s) page prev a = Some (Some (before xs prev, d))"
proof (induction xs arbitrary: a n prev)
  case Nil
  then show ?case by (cases n) (auto simp: pg_def)
next
  case (Cons x xs)
  then obtain m where "n = Suc m" by (cases n) auto
  then show ?case using Cons.IH [of "nx s x" m] Cons.prems by (auto simp: nx_def pg_def)
qed


subsection \<open>Allocation\<close>

lemma poke_frame [simp]:
  "descs (poke a v s) = descs s" "chain (poke a v s) = chain s" "free_bucket_desc (poke a v s) = free_bucket_desc s"
  by (simp_all add: poke_def)

lemma carve_frame [simp]:
  "descs (carve n cp sz s) = descs s \<and> chain (carve n cp sz s) = chain s \<and> free_bucket_desc (carve n cp sz s) = free_bucket_desc s \<and>
   mem_map (carve n cp sz s) = mem_map s \<and> HIGH_MEMORY (carve n cp sz s) = HIGH_MEMORY s"
  by (induction n arbitrary: cp s) simp_all

lemma page_frame [simp]:
  "descs (zero_page p s) = descs s" "chain (zero_page p s) = chain s" "free_bucket_desc (zero_page p s) = free_bucket_desc s"
  "descs (set_map i v s) = descs s" "chain (set_map i v s) = chain s" "free_bucket_desc (set_map i v s) = free_bucket_desc s"
  by (simp_all add: zero_page_def set_map_def)

lemma upd_desc_frame [simp]:
  "descs (upd_desc d f s) = (descs s)(d := f (descs s d))" "chain (upd_desc d f s) = chain s" "phys (upd_desc d f s) = phys s"
  "free_bucket_desc (upd_desc d f s) = free_bucket_desc s" "mem_map (upd_desc d f s) = mem_map s"
  "HIGH_MEMORY (upd_desc d f s) = HIGH_MEMORY s"
  by (simp_all add: upd_desc_def)

lemma new_bucket_inv:
  assumes inv: "malloc_inv s ch fd fl" and k: "k < NR_BUCKETS" and r: "new_bucket k s = Done d t"
  shows "\<exists>ch' fd' fl'. malloc_inv t ch' fd' fl' \<and> (k, d) \<in> active ch' \<and> bd_freeptr (descs t d) \<noteq> 0 \<and>
    live t ch' fl' = live s ch fl \<and> kept s t (live s ch fl)"
proof -
  obtain u s1 where s1: "(if free_bucket_desc s = 0 then init_bucket_desc s else Done () s) = Done u s1"
    using r by (auto simp: new_bucket_def outcome_simps)
  obtain fd1 where fd1: "fd1 \<noteq> []" "malloc_inv s1 ch fd1 fl" "live s1 ch fl = live s ch fl" "kept s s1 (live s ch fl)"
  proof (cases "free_bucket_desc s = 0")
    case True
    then have "fd = []" using inv_parts(3) [OF inv] by simp
    then show ?thesis using init_inv [of s ch fl u s1] inv s1 True that by auto
  next
    case False
    then have "fd \<noteq> []" using inv_parts(3) [OF inv] by auto
    then show ?thesis using that inv s1 False by (auto simp: kept_phys)
  qed
  have d: "d = free_bucket_desc s1" using r s1 by (auto simp: new_bucket_def Let_def split: prod.splits if_splits)
  obtain fd' where fd': "fd1 = d # fd'" using fd1(1) inv_parts(3) [OF fd1(2)] d by (cases fd1) auto
  define s2 where "s2 = upd_desc d (\<lambda>b. b\<lparr>bd_refcnt := 0, bd_size := ucast (bucket_size k)\<rparr>) (s1\<lparr>free_bucket_desc := nx s1 d\<rparr>)"
  obtain cp s3 where g: "get_free_page s2 = (cp, s3)" by force
  have cp: "cp \<noteq> 0" using r s1 g d by (auto simp: new_bucket_def Let_def s2_def nx_def split: if_splits)
  from get_free_page_succeeds [OF g this] obtain i where i: "i < PAGING_PAGES" "mem_map s2 i = 0" "cp = page_of i"
    "s3 = zero_page cp (set_map i 1 s2)" by metis
  define s4 where "s4 = upd_desc d (\<lambda>b. b\<lparr>bd_page := cp, bd_freeptr := cp\<rparr>) s3"
  define s5 where "s5 = carve (objs k - 1) cp (bucket_size k) s4"
  have t: "t = (upd_desc d (\<lambda>b. b\<lparr>bd_next := chain s5 k\<rparr>) s5)\<lparr>chain := (chain s5)(k := d)\<rparr>"
    using r s1 g d cp by (simp add: new_bucket_def Let_def s2_def nx_def s4_def s5_def bucket_size_eq(1) [OF k] objs_osize(2) [OF k] upd_desc_def)
  have in_slots: "in_page (page_of i) x" if "x \<in> slots (page_of i) k" for x using obj_frame(2) [OF i(1) k that] .
  let ?xs = "steps (page_of i) (bucket_size k) (objs k)" and ?c = "ch(k := d # ch k)"
  have phys: "phys t = phys s5" using t by simp
  have out: "phys t x = phys s1 x" if "\<not> in_page (page_of i) x" for x
  proof -
    have "x \<notin> slots (page_of i) k" using in_slots that by blast
    then have "phys s5 x = phys s4 x" using carve_page(2) [OF i(1) k] i(3) by (simp add: s5_def)
    then show ?thesis using that i(3,4) phys by (simp add: s4_def s2_def)
  qed
  have links: "linked (phys t) (page_of i) ?xs" using carve_page(1) [OF i(1) k, of s4] i(3) phys by (simp add: s5_def)
  have i1: "mem_map s1 i = 0" using i(2) by (simp add: s2_def)
  note step = bucket_inv [OF fd1(2) [unfolded fd'] i(1) i1 k, of t, OF _ _ _ _ _ _ _ _ _ out links slots_steps [OF k] steps_length]
  have s5: "\<And>e. e \<noteq> d \<Longrightarrow> descs s5 e = descs s1 e" "chain s5 = chain s1" "free_bucket_desc s5 = nx s1 d"
    "mem_map s5 = (mem_map s1)(i := 1)" "HIGH_MEMORY s5 = HIGH_MEMORY s1"
    "bd_page (descs s5 d) = cp" "bd_freeptr (descs s5 d) = cp" "bd_refcnt (descs s5 d) = 0"
    using i(4) by (auto simp: s5_def s4_def s2_def)
  have eq: "\<And>e. e \<noteq> d \<Longrightarrow> descs t e = descs s1 e" "pg t d = page_of i" "nx t d = chain s1 k" "bd_freeptr (descs t d) = page_of i"
      "bd_refcnt (descs t d) = 0" "chain t = (chain s1)(k := d)" "free_bucket_desc t = nx s1 d" "mem_map t = (mem_map s1)(i := 1)"
      "HIGH_MEMORY t = HIGH_MEMORY s1"
    using s5 i(3) by (auto simp: t pg_def nx_def)
  note step = step [OF eq]
  have "kept s1 t (live s1 ch fl)" by (rule kept_page [OF fd1(2) i(1) i1 out])
  then have "kept s t (live s ch fl)" using kept_trans fd1(3,4) by metis
  moreover have "bd_freeptr (descs t d) \<noteq> 0" using eq(4) i(3) cp by simp
  ultimately show ?thesis using step fd1(3) by metis
qed


abbreviation no_memory :: "stop \<Rightarrow> bool" where
  "no_memory e \<equiv> e \<in> {Panic ''Out of memory in init_bucket_desc()'', Panic ''Out of memory in kernel malloc()''}"

lemma new_bucket_stops:
  assumes "new_bucket k s = Stop e t"
  shows "no_memory e \<and> (\<forall>j<PAGING_PAGES. mem_map t j \<noteq> 0)"
proof (cases "\<exists>u s1. (if free_bucket_desc s = 0 then init_bucket_desc s else Done () s) = Done u s1")
  case False
  then have "free_bucket_desc s = 0" by (auto split: if_splits)
  moreover obtain c v where g: "get_free_page s = (c, v)" by force
  ultimately have "c = 0" "t = v" "e = Panic ''Out of memory in init_bucket_desc()''"
    using assms False by (auto simp: new_bucket_def init_bucket_desc_def split: if_splits)
  then show ?thesis using get_free_page_fails [of s v] g by simp
next
  case True
  then obtain u s1 where s1: "(if free_bucket_desc s = 0 then init_bucket_desc s else Done () s) = Done u s1" by blast
  define d where "d = free_bucket_desc s1"
  define s2 where "s2 = upd_desc d (\<lambda>b. b\<lparr>bd_refcnt := 0, bd_size := ucast (bucket_size k)\<rparr>) (s1\<lparr>free_bucket_desc := bd_next (descs s1 d)\<rparr>)"
  obtain cp s3 where g: "get_free_page s2 = (cp, s3)" by force
  have st: "cp = 0" "e = Panic ''Out of memory in kernel malloc()''" "mem_map t = mem_map s3"
    using assms s1 g by (auto simp: new_bucket_def Let_def s2_def d_def split: if_splits)
  then show ?thesis using get_free_page_fails [of s2 s3] g by simp
qed

lemma find_bucket:
  "find (\<lambda>k. len \<le> bucket_size k) [0..<NR_BUCKETS] = Some k \<Longrightarrow>
     k < NR_BUCKETS \<and> len \<le> bucket_size k \<and> (\<forall>j<k. bucket_size j < len)"
  by (auto simp: find_Some_iff not_le)

lemma find_no_bucket: "find (\<lambda>k. len \<le> bucket_size k) [0..<NR_BUCKETS] = None \<Longrightarrow> 4096 < len"
  by (auto simp: find_None_iff NR_BUCKETS_def not_le bucket_sizes dest: spec [of _ 8])

lemma take_new:
  assumes inv: "malloc_inv s ch fd fl" and d: "(k, d) \<in> active ch" "bd_freeptr (descs s d) \<noteq> 0" and t: "take_object d s = (p, t)"
  shows "p \<noteq> 0 \<and> (\<forall>(a, l)\<in>live s ch fl. apart p k a l) \<and> malloc_ok t (insert (p, k) (live s ch fl)) \<and> phys t = phys s"
proof -
  obtain rest where r: "fl d = p # rest" "malloc_inv t ch fd (fl(d := rest))" "phys t = phys s"
    "live t ch (fl(d := rest)) = insert (p, k) (live s ch fl)" "(p, k) \<notin> live s ch fl" "p \<in> slots (pg s d) k"
    using take_inv [OF inv d t] by blast
  have "apart p k a l" if a: "(a, l) \<in> live s ch fl" for a l
  proof -
    obtain e where "(l, e) \<in> active ch" "a \<in> slots (pg s e) l" by (metis live_page [OF inv a])
    then show ?thesis using slots_apart [OF inv d(1)] r(5,6) a by blast
  qed
  moreover have "p \<noteq> 0" using d(2) t by (auto simp: take_object_def Let_def)
  moreover have "malloc_ok t (insert (p, k) (live s ch fl))" using r(2,4) unfolding malloc_ok_def by metis
  ultimately show ?thesis using r(3) by auto
qed

lemma malloc_gives:
  assumes "malloc_ok s L"
  shows "case malloc len s of
      Done p t \<Rightarrow> \<exists>k<NR_BUCKETS. len \<le> bucket_size k \<and> (\<forall>j<k. bucket_size j < len) \<and> p \<noteq> 0 \<and>
        (\<forall>(a, l)\<in>L. apart p k a l) \<and> malloc_ok t (insert (p, k) L) \<and> kept s t L
    | Stop e t \<Rightarrow> e = Panic ''malloc: bad arg'' \<and> 4096 < len \<or> no_memory e \<and> (\<forall>j<PAGING_PAGES. mem_map t j \<noteq> 0)"
proof (cases "find (\<lambda>k. len \<le> bucket_size k) [0..<NR_BUCKETS]")
  case None
  then show ?thesis using find_no_bucket [OF None] by (simp add: malloc_def)
next
  case (Some k)
  note k = find_bucket [OF Some]
  obtain ch fd fl where inv: "malloc_inv s ch fd fl" and L: "L = live s ch fl" using assms by (auto simp: malloc_ok_def)
  obtain d where d: "find_free CHAIN_FUEL (descs s) (chain s k) = Some d" "d = 0 \<or> d \<in> set (ch k) \<and> bd_freeptr (descs s d) \<noteq> 0"
    using find_free_chain [OF inv_parts(2) [OF inv] chain_length [OF inv]] k by blast
  have m: "malloc len s = kbind (if d = 0 then new_bucket k s else Done d s) (\<lambda>d s. case take_object d s of (p, s) \<Rightarrow> Done p s)"
    using Some d(1) by (simp add: malloc_def)
  show ?thesis
  proof (cases "if d = 0 then new_bucket k s else Done d s")
    case (Done e u)
    have "\<exists>ch' fd' fl'. malloc_inv u ch' fd' fl' \<and> (k, e) \<in> active ch' \<and> bd_freeptr (descs u e) \<noteq> 0 \<and> live u ch' fl' = L \<and> kept s u L"
    proof (cases "d = 0")
      case True
      then show ?thesis using new_bucket_inv [OF inv] k Done L by simp
    next
      case False
      then show ?thesis using Done inv d(2) k L by (auto simp: active_def kept_phys)
    qed
    then obtain ch' fd' fl' where u: "malloc_inv u ch' fd' fl'" "(k, e) \<in> active ch'" "bd_freeptr (descs u e) \<noteq> 0" "live u ch' fl' = L" "kept s u L"
      by blast
    obtain p t where t: "take_object e u = (p, t)" by force
    note n = take_new [OF u(1,2,3) t]
    have "kept s t L" using kept_trans [OF u(5) kept_phys] n by blast
    then show ?thesis using m Done t n k u(4) by auto
  next
    case (Stop e t)
    then have "new_bucket k s = Stop e t" by (auto split: if_splits)
    then show ?thesis using new_bucket_stops m Stop by auto
  qed
qed


subsection \<open>Release\<close>

definition give_object :: "u32 \<Rightarrow> u32 \<Rightarrow> 'a malloc_state_scheme \<Rightarrow> 'a malloc_state_scheme" where
  "give_object a d s = upd_desc d (\<lambda>b. b\<lparr>bd_freeptr := a, bd_refcnt := bd_refcnt b - 1\<rparr>) (poke a (bd_freeptr (descs s d)) s)"

lemma give_frame:
  "nx (give_object a d s) = nx s" "pg (give_object a d s) = pg s" "chain (give_object a d s) = chain s"
  "free_bucket_desc (give_object a d s) = free_bucket_desc s" "mem_map (give_object a d s) = mem_map s"
  "HIGH_MEMORY (give_object a d s) = HIGH_MEMORY s" "phys (give_object a d s) = (phys s)(a := bd_freeptr (descs s d))"
  "e \<noteq> d \<Longrightarrow> descs (give_object a d s) e = descs s e" "bd_freeptr (descs (give_object a d s) d) = a"
  "bd_refcnt (descs (give_object a d s) d) = bd_refcnt (descs s d) - 1"
  by (auto simp: give_object_def nx_def pg_def fun_eq_iff)

lemma slots_size:
  assumes "desc_ok s k d xs" "k < NR_BUCKETS"
  shows "card (slots (pg s d) k) = objs k"
proof -
  obtain i where "i < PAGING_PAGES" "pg s d = page_of i" using assms(1) by (rule desc_pageE)
  then show ?thesis using card_image [OF slots_card [OF _ assms(2)]] by (simp add: slots_def)
qed

lemma give_inv:
  assumes inv: "malloc_inv s ch fd fl" and d: "(k, d) \<in> active ch" and a: "a \<in> slots (pg s d) k" "a \<notin> set (fl d)"
  defines "t \<equiv> give_object a d s"
  shows "malloc_inv t ch fd (fl(d := a # fl d))" "live t ch (fl(d := a # fl d)) = live s ch fl - {(a, k)}"
    "kept s t (live s ch fl - {(a, k)})"
proof -
  note eq = give_frame [where a = a and d = d and s = s, folded t_def]
  have ok: "desc_ok s k d (fl d)" by (rule inv_parts(4) [OF inv d])
  have dist: "distinct (fl d)" using ok linked_distinct by (auto simp: desc_ok_def)
  have "a \<noteq> 0" using desc_pageE [OF ok] obj_frame(3) a(1) active_k [OF d] by metis
  have "card (set (a # fl d)) \<le> card (slots (pg s d) k)"
    using ok a(1) by (intro card_mono) (auto simp: desc_ok_def slots_def)
  then have "Suc (length (fl d)) \<le> objs k" using slots_size [OF ok active_k [OF d]] dist a(2) by (simp add: distinct_card)
  moreover have cnt: "unat (bd_refcnt (descs s d)) + length (fl d) = objs k" using ok by (simp add: desc_ok_def)
  ultimately have "bd_refcnt (descs s d) \<noteq> 0" by auto
  then have "unat (bd_refcnt (descs t d)) + length (a # fl d) = objs k"
    using cnt eq(10) by (simp add: unat_minus_one)  (metis Suc_pred add_Suc unat_gt_0 word_gt_0)
  moreover have "linked (phys t) a (a # fl d)"
  proof -
    have "linked (phys t) (bd_freeptr (descs s d)) (fl d) = linked (phys s) (bd_freeptr (descs s d)) (fl d)"
      by (rule linked_cong) (use eq(7) a(2) in auto)
    then show ?thesis using ok \<open>a \<noteq> 0\<close> eq(7) by (simp add: desc_ok_def)
  qed
  ultimately have okd: "desc_ok t k d (a # fl d)" using ok eq a(1) by (simp add: desc_ok_def)
  have "desc_ok t l e ((fl(d := a # fl d)) e)" if e: "(l, e) \<in> active ch" for l e
  proof (cases "e = d")
    case True
    then show ?thesis using okd inv_parts(6) [OF inv e d] by simp
  next
    case False
    have oke: "desc_ok s l e (fl e)" by (rule inv_parts(4) [OF inv e])
    have "a \<notin> set (fl e)" using slot_owner [OF inv d e a(1)] oke False by (auto simp: desc_ok_def)
    then have "desc_ok t l e (fl e)" by (intro desc_ok_cong [OF oke]) (auto simp: eq False)
    then show ?thesis using False by simp
  qed
  then show "malloc_inv t ch fd (fl(d := a # fl d))" by (intro inv_cong [OF inv]) (simp_all add: eq)
  have "live t ch (fl(d := a # fl d)) = live s ch fl - slots (pg s d) k \<times> {k} \<union> (slots (pg s d) k - set (a # fl d)) \<times> {k}"
    by (rule live_upd [OF inv d eq(2)])
  moreover have "live s ch fl = live s ch fl - slots (pg s d) k \<times> {k} \<union> (slots (pg s d) k - set (fl d)) \<times> {k}"
    using live_upd [OF inv d, of s "fl d"] by simp
  ultimately show "live t ch (fl(d := a # fl d)) = live s ch fl - {(a, k)}" using a(1) by (auto 0 3)
  show "kept s t (live s ch fl - {(a, k)})"
    unfolding kept_def
  proof (intro ballI case_prodI2 allI impI)
    fix c and b :: u32 and l and x :: u32
    assume c: "c \<in> live s ch fl - {(a, k)}" "c = (b, l)" "unat b \<le> unat x \<and> unat x < unat b + osize l"
    then have b: "(b, l) \<in> live s ch fl" "(b, l) \<noteq> (a, k)" "unat b \<le> unat x" "unat x < unat b + osize l" by auto
    obtain e where e: "(l, e) \<in> active ch" "b \<in> slots (pg s e) l" by (metis live_page [OF inv b(1)])
    have "apart a k b l" using slots_apart [OF inv d e(1) a(1) e(2)] b(2) by auto
    moreover have "0 < osize k" by simp
    ultimately have "unat x \<noteq> unat a" using b(3,4) by linarith
    then have "x \<noteq> a" by blast
    then show "phys t x = phys s x" using eq(7) by simp
  qed
qed


text \<open>The chain without a descriptor.\<close>

lemma linked_remove:
  "linked f a (pre @ d # post) \<Longrightarrow> pre \<noteq> [] \<Longrightarrow> linked (f(last pre := f d, d := z)) a (pre @ post)"
proof (induction pre arbitrary: a)
  case (Cons x pre)
  note dist = linked_distinct [OF Cons.prems(1)]
  show ?case
  proof (cases "pre = []")
    case True
    then have l: "a = x" "x \<noteq> 0" "f x = d" "linked f (f d) post" using Cons.prems(1) by simp_all
    have "linked (f(x := f d, d := z)) (f d) post = linked f (f d) post"
      by (rule linked_cong) (use dist True in auto)
    moreover have "x \<noteq> d" using dist by auto
    ultimately show ?thesis using l True by (simp del: fun_upd_apply add: fun_upd_same fun_upd_other)
  next
    case False
    have "linked (f(last pre := f d, d := z)) (f x) (pre @ post)" 
      by (rule Cons.IH) (use Cons.prems(1) False in simp_all)
    moreover have "x \<noteq> last pre" "x \<noteq> d" using dist False by auto
    ultimately show ?thesis using Cons.prems(1) False by (simp del: fun_upd_apply add: fun_upd_same fun_upd_other)
  qed
qed simp

lemma unlink_inv:
  assumes inv: "malloc_inv s ch fd fl" and d: "(k, d) \<in> active ch" and c: "ch k = pre @ d # post"
    and i: "i < PAGING_PAGES" "pg s d = page_of i" and full: "slots (pg s d) k \<subseteq> set (fl d)"
    and t: "\<And>e. pg t e = pg s e" "\<And>e. bd_freeptr (descs t e) = bd_freeptr (descs s e)" "\<And>e. bd_refcnt (descs t e) = bd_refcnt (descs s e)"
      "nx t = (if pre = [] then (nx s)(d := free_bucket_desc s) else (nx s)(last pre := nx s d, d := free_bucket_desc s))"
      "chain t = (if pre = [] then (chain s)(k := nx s d) else chain s)" "free_bucket_desc t = d" "mem_map t = (mem_map s)(i := 0)"
      "HIGH_MEMORY t = HIGH_MEMORY s" "phys t = phys s"
  shows "malloc_ok t (live s ch fl)"
proof -
  define ch' where "ch' = ch(k := pre @ post)"
  have k: "k < NR_BUCKETS" by (rule active_k [OF d])
  have dc: "distinct (ch k)" by (rule linked_distinct [OF inv_parts(2) [OF inv k]])
  have uniq: "l = m \<and> e = f" if "(l, e) \<in> active ch" "(m, f) \<in> active ch" "e = f \<or> pg s e = pg s f" for l e m f
    using inv_parts(6) [OF inv that(1,2)] that(3) by simp
  have act: "active ch' = active ch - {(k, d)}" using k c dc by (auto simp: active_def ch'_def split: if_splits)
  have dact: "(l, d) \<notin> active ch'" for l using uniq [OF _ d] act by auto
  have pre: "(k, e) \<in> active ch" if "e \<in> set pre" for e using that c k by (simp add: active_def)
  have pgi: "pg s e \<noteq> page_of i" if "(l, e) \<in> active ch'" for l e
    using uniq [OF _ d, of l e] that i(2) unfolding act by auto
  have homes: "desc_home t ch' e" if h: "desc_home s ch e" for e
  proof -
    obtain j where j: "j < PAGING_PAGES" "mem_map s j \<noteq> 0" "in_page (page_of j) e" "\<forall>(l, e)\<in>active ch. pg s e \<noteq> page_of j"
      using h unfolding desc_home_def by blast
    have "i \<noteq> j" using j(4) d i(2) by auto
    then have "mem_map t j \<noteq> 0" using j(2) t(7) by simp
    moreover have "\<forall>(l, e)\<in>active ch'. pg t e \<noteq> page_of j" using j(4) t(1) unfolding act by auto
    ultimately show ?thesis using j(1,3) unfolding desc_home_def by blast
  qed
  have other: "linked (nx t) a xs = linked (nx s) a xs" if "d \<notin> set xs" "pre \<noteq> [] \<Longrightarrow> last pre \<notin> set xs" for a xs
    by (rule linked_cong) (use that t(4) in auto)
  have free: "linked (nx t) (free_bucket_desc t) (d # fd)"
  proof -
    have "e \<notin> set fd" if "(l, e) \<in> active ch" for l e using inv_parts(5) [OF inv that] .
    then have "linked (nx t) (free_bucket_desc s) fd" using other [of fd] inv_parts(3) [OF inv] d pre last_in_set by metis
    moreover have "d \<noteq> 0" using inv_parts(2) [OF inv k] linked_nonzero c by force
    moreover have "nx t d = free_bucket_desc s" using t(4) by simp
    ultimately show ?thesis using t(6) by simp
  qed
  have chains: "linked (nx t) (chain t l) (ch' l)" if l: "l < NR_BUCKETS" for l
  proof (cases "l = k")
    case True
    have lk: "linked (nx s) (chain s k) (pre @ d # post)" using inv_parts(2) [OF inv k] c by simp
    show ?thesis
    proof (cases "pre = []")
      case True
      then have "linked (nx t) (nx s d) post" using lk other [of post] dc c by simp
      then show ?thesis using True \<open>l = k\<close> t(5) by (simp add: ch'_def)
    next
      case False
      then show ?thesis using linked_remove [OF lk False] t(4,5) \<open>l = k\<close> by (simp add: ch'_def)
    qed
  next
    case False
    have "e \<notin> set (ch l)" if "(k, e) \<in> active ch" for e using uniq [OF that, of l e] False l by (auto simp: active_def)
    then have "linked (nx t) (chain s l) (ch l)" using other [of "ch l"] inv_parts(2) [OF inv l] d pre last_in_set by metis
    then show ?thesis using False t(5) by (simp add: ch'_def)
  qed
  have ok: "desc_ok t l e (fl e)" if e: "(l, e) \<in> active ch'" for l e
  proof -
    have ok: "desc_ok s l e (fl e)" using inv_parts(4) [OF inv] e act by simp
    then obtain j where j: "j < PAGING_PAGES" "pg s e = page_of j" "mem_map s j = 1" "page_of j < HIGH_MEMORY s" by (rule desc_pageE)
    then have "mem_map t j = 1" using pgi [OF e] t(7) by auto
    then show ?thesis using ok j t(1,2,3,8,9) by (auto simp: desc_ok_def)
  qed
  have "malloc_inv t ch' (d # fd) fl"
    unfolding malloc_inv_def
  proof (intro conjI allI impI ballI)
    show "map_ok t"
    proof -
      have "page_of i < HIGH_MEMORY s" using desc_pageE [OF inv_parts(4) [OF inv d]] i(2) by metis
      then show ?thesis using inv_parts(1) [OF inv] t(7,8) by (auto simp: map_ok_def)
    qed
    show "linked (nx t) (chain t l) (ch' l)" if "l < NR_BUCKETS" for l by (rule chains [OF that])
    show "linked (nx t) (free_bucket_desc t) (d # fd)" by (rule free)
    show "desc_ok t l e (fl e)" if "(l, e) \<in> active ch'" for l e by (rule ok [OF that])
    show "e \<notin> set (d # fd)" if "(l, e) \<in> active ch'" for l e using that dact inv_parts(5) [OF inv] act by auto
    show "desc_home t ch' e" if "(l, e) \<in> active ch'" for l e using that act inv_parts(7) [OF inv] homes by blast
    show "desc_home t ch' e" if "e \<in> set (d # fd)" for e
      using that inv_parts(7) [OF inv d] inv_parts(8) [OF inv] homes by auto
    show "l = m" "e = f" if "(l, e) \<in> active ch'" "(m, f) \<in> active ch'" "e = f \<or> pg t e = pg t f" for l e m f
      using uniq [of l e m f] that t(1) act by simp_all
  qed
  moreover have "live t ch' fl = live s ch fl"
  proof -
    have "(\<exists>e. (l, e) \<in> active ch' \<and> a \<in> slots (pg t e) l - set (fl e)) \<longleftrightarrow> (\<exists>e. (l, e) \<in> active ch \<and> a \<in> slots (pg s e) l - set (fl e))" for a l
      using full t(1) act by auto
    then show ?thesis by (simp add: live_def)
  qed
  ultimately show ?thesis unfolding malloc_ok_def by metis
qed


lemma find_object_at:
  assumes inv: "malloc_inv s ch fd fl" and d: "(k, d) \<in> active ch" and c: "ch k = pre @ d # post" and sz: "sz \<le> uint (bucket_size k)"
  shows "set ks \<subseteq> {..<NR_BUCKETS} \<Longrightarrow> k \<in> set ks \<Longrightarrow> find_object ks (pg s d) sz s = Done (k, before pre 0, d) s"
proof (induction ks)
  case (Cons l ks)
  have l: "l < NR_BUCKETS" using Cons.prems(1) by simp
  note len = chain_length [OF inv l] and links = inv_parts(2) [OF inv l]
  show ?case
  proof (cases "l = k")
    case True
    have "pg s e \<noteq> pg s d" if "e \<in> set pre" for e
    proof -
      have "(k, e) \<in> active ch" using that c l True by (simp add: active_def)
      moreover have "e \<noteq> d" using linked_distinct [OF links] that c True by auto
      ultimately show ?thesis using inv_parts(6) [OF inv _ d] by metis
    qed
    then have "find_page CHAIN_FUEL (descs s) (pg s d) 0 (chain s k) = Some (Some (before pre 0, d))"
      using links len c True by (intro find_page_at) simp_all
    then show ?thesis using sz True by simp
  next
    case False
    have "pg s e \<noteq> pg s d" if "e \<in> set (ch l)" for e
      using inv_parts(6) [OF inv _ d, of l e] that l False by (auto simp: active_def)
    then have "find_page CHAIN_FUEL (descs s) (pg s d) 0 (chain s l) = Some None" by (intro find_page_none [OF links len])
    then show ?thesis using Cons False by simp
  qed
qed simp

lemma unlink_at:
  assumes inv: "malloc_inv s ch fd fl" and k: "k < NR_BUCKETS" and c: "ch k = pre @ d # post"
  shows "unlink_desc k (before pre 0) d s =
    Done () (if pre = [] then s\<lparr>chain := (chain s)(k := nx s d)\<rparr> else upd_desc (last pre) (\<lambda>b. b\<lparr>bd_next := nx s d\<rparr>) s)"
proof -
  have l: "linked (nx s) (chain s k) (pre @ d # post)" using inv_parts(2) [OF inv k] c by simp
  show ?thesis
  proof (cases pre rule: rev_cases)
    case Nil
    then show ?thesis using l by (simp add: unlink_desc_def nx_def)
  next
    case (snoc xs x)
    then have "linked (nx s) x (x # d # post)" using l linked_suffix [of "nx s" "chain s k" xs x "d # post"] by simp
    then show ?thesis using snoc by (simp add: unlink_desc_def nx_def)
  qed
qed

lemma free_s_takes:
  assumes "malloc_ok s L" "(a, k) \<in> L" "sz \<le> uint (bucket_size k)"
  shows "\<exists>t. free_s a sz s = Done () t \<and> malloc_ok t (L - {(a, k)}) \<and> kept s t (L - {(a, k)})"
proof -
  obtain ch fd fl where inv: "malloc_inv s ch fd fl" and L: "L = live s ch fl" using assms(1) by (auto simp: malloc_ok_def)
  obtain d where d: "(k, d) \<in> active ch" "a \<in> slots (pg s d) k" "a \<notin> set (fl d)" using assms(2) by (auto simp: live_def L)
  note k = active_k [OF d(1)]
  obtain i where i: "i < PAGING_PAGES" "pg s d = page_of i" "mem_map s i = 1" "page_of i < HIGH_MEMORY s"
    by (rule desc_pageE [OF inv_parts(4) [OF inv d(1)]])
  obtain pre post where c: "ch k = pre @ d # post" using d(1) by (auto simp: active_def dest: split_list)
  have page: "a AND 0xFFFFF000 = pg s d" using obj_frame(1) [OF i(1) k] d(2) i(2) by simp
  have found: "find_object [0..<NR_BUCKETS] (pg s d) sz s = Done (k, before pre 0, d) s"
    by (rule find_object_at [OF inv d(1) c assms(3)]) (use k in auto)
  define u where "u = give_object a d s"
  note eq = give_frame [where a = a and d = d and s = s, folded u_def]
  note inv' = give_inv [OF inv d, folded u_def L]
  have f: "free_s a sz s = (if bd_refcnt (descs u d) \<noteq> 0 then Done () u else kbind (unlink_desc k (before pre 0) d u) (\<lambda>_ s.
      kbind (free_page (bd_page (descs s d)) s) (\<lambda>_ s. Done () ((upd_desc d (\<lambda>b. b\<lparr>bd_next := free_bucket_desc s\<rparr>) s)\<lparr>free_bucket_desc := d\<rparr>))))"
    unfolding free_s_def page found u_def give_object_def by simp
  show ?thesis
  proof (cases "bd_refcnt (descs u d) = 0")
    case False
    then show ?thesis using f inv' unfolding malloc_ok_def by metis
  next
    case True
    define v where "v = (if pre = [] then u\<lparr>chain := (chain u)(k := nx u d)\<rparr> else upd_desc (last pre) (\<lambda>b. b\<lparr>bd_next := nx u d\<rparr>) u)"
    have v: "bd_page (descs v d) = page_of i" "mem_map v = mem_map s" "HIGH_MEMORY v = HIGH_MEMORY s"
      using eq i(2) by (auto simp: v_def pg_def fun_eq_iff)
    define t where "t = (upd_desc d (\<lambda>b. b\<lparr>bd_next := free_bucket_desc u\<rparr>) (set_map i 0 v))\<lparr>free_bucket_desc := d\<rparr>"
    have "free_bucket_desc v = free_bucket_desc u" by (simp add: v_def)
    then have "free_s a sz s = Done () t"
      using f True unlink_at [OF inv'(1) k c, folded v_def] free_page_of [OF i(1), of v] v i(3,4) by (simp add: t_def)
    moreover have "malloc_ok t (live u ch (fl(d := a # fl d)))"
    proof (rule unlink_inv [OF inv'(1) d(1) c i(1)])
      show "pg u d = page_of i" using eq(2) i(2) by simp
      show "slots (pg u d) k \<subseteq> set ((fl(d := a # fl d)) d)"
      proof -
        have ok: "desc_ok u k d (a # fl d)" using inv_parts(4) [OF inv'(1) d(1)] by simp
        then have "card (set (a # fl d)) = card (slots (pg u d) k)"
          using True slots_size [OF ok k] linked_distinct distinct_card by (metis desc_ok_def add_0 unat_0)
        moreover have "set (a # fl d) \<subseteq> slots (pg u d) k" "finite (slots (pg u d) k)" using ok by (auto simp: desc_ok_def slots_def)
        ultimately show ?thesis using card_subset_eq by (metis fun_upd_same order_refl)
      qed
    qed (auto simp: t_def v_def pg_def nx_def fun_eq_iff)
    moreover have "kept s t (L - {(a, k)})" using inv'(3) by (simp add: kept_def t_def v_def)
    ultimately show ?thesis using inv'(2) by metis
  qed
qed


subsection \<open>The allocator of objects as an interface\<close>

text \<open>
  What a user of the allocator relies on: an object that is given is not among the objects in use and can be
  given back, and the others keep what they hold.
\<close>

locale object_heap =
  fixes alloc :: "u32 \<Rightarrow> 's \<Rightarrow> (u32, 's) outcome" and release :: "u32 \<Rightarrow> 's \<Rightarrow> (unit, 's) outcome"
    and ok :: "'s \<Rightarrow> (u32 \<times> nat) set \<Rightarrow> bool" and same :: "'s \<Rightarrow> 's \<Rightarrow> (u32 \<times> nat) set \<Rightarrow> bool"
  assumes alloc: "ok s L \<Longrightarrow> alloc len s = Done p t \<Longrightarrow> \<exists>k. (p, k) \<notin> L \<and> ok t (insert (p, k) L) \<and> same s t L"
    and release: "ok s L \<Longrightarrow> (p, k) \<in> L \<Longrightarrow> \<exists>t. release p s = Done () t \<and> ok t (L - {(p, k)}) \<and> same s t (L - {(p, k)})"
    and same_trans: "same s t L \<Longrightarrow> same t u L \<Longrightarrow> same s u L"
begin

lemma alloc_release:
  assumes "ok s L" "alloc len s = Done p t"
  shows "\<exists>u. release p t = Done () u \<and> ok u L \<and> same s u L"
proof -
  obtain k where k: "(p, k) \<notin> L" "ok t (insert (p, k) L)" "same s t L" using alloc assms by blast
  moreover have "insert (p, k) L - {(p, k)} = L" using k(1) by blast
  ultimately show ?thesis using release [OF k(2), of p k] same_trans by auto
qed

lemma alloc_twice:
  assumes "ok s L" "alloc len s = Done p t" "alloc len' t = Done q u"
  shows "\<exists>k l. (p, k) \<noteq> (q, l) \<and> ok u (insert (q, l) (insert (p, k) L)) \<and> (p, k) \<notin> L \<and> (q, l) \<notin> L"
  using alloc [OF assms(1,2)] alloc [OF _ assms(3)] by (metis insert_iff)

end

interpretation heap: object_heap malloc "\<lambda>p. free_s p 0" malloc_ok kept
proof
  fix s :: "'a malloc_state_scheme" and L len p t
  assume "malloc_ok s L" "malloc len s = Done p t"
  then obtain k where "\<forall>(a, l)\<in>L. apart p k a l" "malloc_ok t (insert (p, k) L)" "kept s t L"
    using malloc_gives [of s L len] by auto
  moreover have "(p, k) \<notin> L" using calculation(1) by auto
  ultimately show "\<exists>k. (p, k) \<notin> L \<and> malloc_ok t (insert (p, k) L) \<and> kept s t L" by blast
qed (auto intro: free_s_takes kept_trans)

text \<open>What is given and given back at once leaves the objects as they were.\<close>

lemma malloc_free_s:
  "malloc_ok s L \<Longrightarrow> malloc len s = Done p t \<Longrightarrow> \<exists>u. free_s p 0 t = Done () u \<and> malloc_ok u L \<and> kept s u L"
  by (rule heap.alloc_release)


subsection \<open>The contract\<close>

text \<open>
  C8: an object that \<open>malloc\<close> gives is of the first size that holds the length asked for, lies apart from every
  object given before, is one object more, and what the others hold is as it was. It gives none only when
  the length is above a page, or when no page of memory is free; its search of a chain always ends.
\<close>

theorem malloc_object:
  assumes "malloc_ok s L"
  shows "case malloc len s of
      Done p t \<Rightarrow> \<exists>k<NR_BUCKETS. len \<le> bucket_size k \<and> (\<forall>j<k. bucket_size j < len) \<and> p \<noteq> 0 \<and>
        (\<forall>(a, l)\<in>L. apart p k a l) \<and> malloc_ok t (insert (p, k) L) \<and> kept s t L
    | Stop e t \<Rightarrow> e = Panic ''malloc: bad arg'' \<and> 4096 < len \<or> no_memory e \<and> (\<forall>j<PAGING_PAGES. mem_map t j \<noteq> 0)"
  by (rule malloc_gives [OF assms])

text \<open>
  C9: an object that was given goes back: \<open>free_s\<close> returns, with the size or with any size not above that of
  the object's bucket, the others remain as they were and the allocator holds one object less, whether or not
  its page goes back to the memory manager.
\<close>

theorem free_s_object:
  assumes "malloc_ok s L" "(a, k) \<in> L" "sz \<le> uint (bucket_size k)"
  shows "\<exists>t. free_s a sz s = Done () t \<and> malloc_ok t (L - {(a, k)}) \<and> kept s t (L - {(a, k)})"
  by (rule free_s_takes [OF assms])


subsection \<open>A state to evaluate in\<close>

text \<open>One descriptor, at the start of the first page of memory, with the second page as one object of 4096 bytes.\<close>

definition demo_heap :: malloc_state where
  "demo_heap = \<lparr>mem_map = (\<lambda>k. if k < 2 then 1 else 0), HIGH_MEMORY = 0x1000000, phys = (\<lambda>_. 0), klog = [],
     descs = (\<lambda>_. \<lparr>bd_page = 0x101000, bd_next = 0, bd_freeptr = 0, bd_refcnt = 1, bd_size = 4096\<rparr>),
     chain = (\<lambda>k. if k = 8 then 0x100000 else 0), free_bucket_desc = 0\<rparr>"

lemma demo_heap_ok: "malloc_ok demo_heap {(0x101000, 8)}"
proof -
  let ?ch = "\<lambda>k :: nat. if k = 8 then [0x100000 :: u32] else []"
  have act: "active ?ch = {(8, 0x100000)}" by (auto simp: active_def NR_BUCKETS_def split: if_splits)
  have p: "page_of 0 = 0x100000" "page_of 1 = 0x101000" by (simp_all add: page_of_def LOW_MEM_def push_bit_eq_mult)
  have s: "slots 0x101000 8 = {0x101000}" by (simp add: slots_def obj_def lessThan_Suc)
  have "page_of j < HIGH_MEMORY demo_heap" if "j < PAGING_PAGES" for j
    using unat_page_of [OF that] that by (simp add: demo_heap_def word_less_nat_alt PAGING_PAGES_eq)
  then have "map_ok demo_heap" by (simp add: map_ok_def)
  moreover have "desc_ok demo_heap 8 0x100000 []"
    unfolding desc_ok_def using p(2) by (auto simp: demo_heap_def pg_def PAGING_PAGES_eq intro!: exI [of _ 1])
  moreover have "desc_home demo_heap ?ch 0x100000"
    unfolding desc_home_def act using p by (auto simp: demo_heap_def pg_def PAGING_PAGES_eq in_page_def intro!: exI [of _ 0])
  ultimately have "malloc_inv demo_heap ?ch [] (\<lambda>_. [])"
    unfolding malloc_inv_def act by (auto simp: demo_heap_def nx_def)
  moreover have "live demo_heap ?ch (\<lambda>_. []) = {(0x101000, 8)}"
    unfolding live_def act by (auto simp: demo_heap_def pg_def s)
  ultimately show ?thesis unfolding malloc_ok_def by metis
qed

theorem malloc_object_witness:
  "case malloc 20 demo_heap of
      Done p t \<Rightarrow> \<exists>k<NR_BUCKETS. 20 \<le> bucket_size k \<and> (\<forall>j<k. bucket_size j < 20) \<and> p \<noteq> 0 \<and>
        (\<forall>(a, l)\<in>{(0x101000, 8)}. apart p k a l) \<and> malloc_ok t (insert (p, k) {(0x101000, 8)}) \<and> kept demo_heap t {(0x101000, 8)}
    | Stop e t \<Rightarrow> e = Panic ''malloc: bad arg'' \<and> 4096 < (20 :: u32) \<or> no_memory e \<and> (\<forall>j<PAGING_PAGES. mem_map t j \<noteq> 0)"
  by (rule malloc_object [OF demo_heap_ok])

theorem free_s_object_witness:
  "\<exists>t. free_s 0x101000 0 demo_heap = Done () t \<and> malloc_ok t {} \<and> kept demo_heap t {}"
  using free_s_object [OF demo_heap_ok, of "0x101000" 8 0] by (simp add: bucket_sizes)

end
