(* ===== verification/Bytes.thy ===== *)
theory Bytes
  imports Kernel_Prelude
begin

text \<open>
  Byte memory: what a list of bytes at an address is, and what storing one leaves behind. The strings of the user and
  the string functions are stated with it.
\<close>

text \<open>The bytes of a list at an address.\<close>

definition bytes_at :: "(u32 \<Rightarrow> u8) \<Rightarrow> u32 \<Rightarrow> u8 list \<Rightarrow> bool" where
  "bytes_at m a w \<longleftrightarrow> (\<forall>i<length w. m (a + of_nat i) = w ! i)"

lemma bytes_at_Cons: "bytes_at m a (x # w) \<longleftrightarrow> m a = x \<and> bytes_at m (a + 1) w"
proof
  assume b: "bytes_at m a (x # w)"
  have "m (a + 1 + of_nat i) = w ! i" if "i < length w" for i
    using b [unfolded bytes_at_def, rule_format, of "Suc i"] that by (simp add: algebra_simps)
  moreover have "m a = x" using b [unfolded bytes_at_def, rule_format, of 0] by simp
  ultimately show "m a = x \<and> bytes_at m (a + 1) w" by (simp add: bytes_at_def)
next
  assume b: "m a = x \<and> bytes_at m (a + 1) w"
  then have "m (a + of_nat (Suc i)) = w ! i" if "i < length w" for i
    using that by (simp add: bytes_at_def algebra_simps)
  then have "m (a + of_nat i) = (x # w) ! i" if "i < length (x # w)" for i
    using b that by (cases i) simp_all
  then show "bytes_at m a (x # w)" by (simp add: bytes_at_def)
qed

text \<open>Bytes stored one after the other.\<close>

primrec put_bytes :: "(u32 \<Rightarrow> u8) \<Rightarrow> u32 \<Rightarrow> u8 list \<Rightarrow> u32 \<Rightarrow> u8" where
  "put_bytes m a [] = m"
| "put_bytes m a (x # w) = put_bytes (m(a := x)) (a + 1) w"

lemma put_bytes_outside: "(\<And>i. i < length w \<Longrightarrow> x \<noteq> a + of_nat i) \<Longrightarrow> put_bytes m a w x = m x"
proof (induction w arbitrary: m a)
  case (Cons y w)
  have "x \<noteq> a + 1 + of_nat i" if "i < length w" for i using Cons.prems [of "Suc i"] that by (simp add: algebra_simps)
  moreover have "x \<noteq> a" using Cons.prems [of 0] by simp
  ultimately show ?case using Cons.IH [of "a + 1"] by simp
qed simp

lemma put_bytes_at: "length w \<le> 2 ^ 32 \<Longrightarrow> bytes_at (put_bytes m a w) a w"
proof (induction w arbitrary: m a)
  case (Cons x w)
  have "a \<noteq> a + 1 + of_nat i" if "i < length w" for i
  proof
    assume "a = a + 1 + of_nat i"
    then have "(of_nat (Suc i) :: u32) = 0" by (simp add: algebra_simps)
    then have "unat (of_nat (Suc i) :: u32) = 0" by (simp only: unat_0)
    then show False using that Cons.prems by (simp add: unat_of_nat take_bit_nat_eq_self del: of_nat_Suc)
  qed
  then have "put_bytes (m(a := x)) (a + 1) w a = x" using put_bytes_outside [of w a "a + 1"] by simp
  then show ?case using Cons by (simp add: bytes_at_Cons)
qed (simp add: bytes_at_def)

lemma bytes_at_Nil [simp]: "bytes_at m a []"
  by (simp add: bytes_at_def)

lemma bytes_at_append: "bytes_at m a (v @ w) \<longleftrightarrow> bytes_at m a v \<and> bytes_at m (a + of_nat (length v)) w"
  by (induction v arbitrary: a) (simp_all add: bytes_at_Cons algebra_simps)

lemma bytes_at_cong: "(\<And>i. i < length w \<Longrightarrow> m (a + of_nat i) = n (a + of_nat i)) \<Longrightarrow> bytes_at m a w = bytes_at n a w"
  by (simp add: bytes_at_def)

lemma put_bytes_append: "put_bytes m a (v @ w) = put_bytes (put_bytes m a v) (a + of_nat (length v)) w"
  by (induction v arbitrary: m a) (simp_all add: algebra_simps)

end
