(* ===== verification/Strings.thy ===== *)
theory Strings
  imports Bytes
begin

text \<open>
  The string functions of \<^verbatim>\<open>lib/string.c\<close>. They are written in machine instructions; a definition here does what its
  instructions do, a byte at a time, on a memory of bytes. A loop that runs until it meets a zero is a
  partial function, with \<open>None\<close> when it meets none. \<^verbatim>\<open>repne scasb\<close> counts from \<open>0xFFFFFFFF\<close> down.
\<close>


subsection \<open>Copying\<close>

partial_function (option) strcpy_loop :: "u32 \<Rightarrow> u32 \<Rightarrow> (u32 \<Rightarrow> u8) \<Rightarrow> (u32 \<Rightarrow> u8) option" where
  "strcpy_loop dest src m = (if m src = 0 then Some (m(dest := 0)) else strcpy_loop (dest + 1) (src + 1) (m(dest := m src)))"

definition strcpy :: "u32 \<Rightarrow> u32 \<Rightarrow> (u32 \<Rightarrow> u8) \<Rightarrow> (u32 \<times> (u32 \<Rightarrow> u8)) option" where
  "strcpy dest src m = map_option (Pair dest) (strcpy_loop dest src m)"

text \<open>\<^verbatim>\<open>rep stosb\<close>: \<open>n\<close> bytes.\<close>

primrec stosb :: "nat \<Rightarrow> u32 \<Rightarrow> u8 \<Rightarrow> (u32 \<Rightarrow> u8) \<Rightarrow> u32 \<Rightarrow> u8" where
  "stosb 0 d c m = m"
| "stosb (Suc n) d c m = stosb n (d + 1) c (m(d := c))"

definition memset :: "u32 \<Rightarrow> u8 \<Rightarrow> u32 \<Rightarrow> (u32 \<Rightarrow> u8) \<Rightarrow> u32 \<times> (u32 \<Rightarrow> u8)" where
  "memset s c count m = (s, stosb (unat count) s c m)"

text \<open>The count goes down by one before each byte, and the loop ends when it is negative.\<close>

function strncpy_loop :: "u32 \<Rightarrow> u32 \<Rightarrow> u32 \<Rightarrow> (u32 \<Rightarrow> u8) \<Rightarrow> u32 \<Rightarrow> u8" where
  "strncpy_loop dest src count m =
     (if sint (count - 1) < 0 then m
      else if m src = 0 then stosb (unat (count - 1)) (dest + 1) 0 (m(dest := 0))
      else strncpy_loop (dest + 1) (src + 1) (count - 1) (m(dest := m src)))"
  by pat_completeness auto

lemma count_down: "\<not> sint (count - 1 :: u32) < 0 \<Longrightarrow> unat (count - 1) < unat count"
  by (cases "count = 0") (simp_all add: unat_minus_one unat_gt_0)

termination strncpy_loop
  by (relation "measure (\<lambda>(_, _, count, _). unat count)") (simp_all add: count_down)

declare strncpy_loop.simps [simp del]

definition strncpy :: "u32 \<Rightarrow> u32 \<Rightarrow> u32 \<Rightarrow> (u32 \<Rightarrow> u8) \<Rightarrow> u32 \<times> (u32 \<Rightarrow> u8)" where
  "strncpy dest src count m = (dest, strncpy_loop dest src count m)"


subsection \<open>Appending\<close>

text \<open>The place of the first zero; after \<open>n\<close> bytes without one, the last place looked at.\<close>

primrec scasb_end :: "nat \<Rightarrow> u32 \<Rightarrow> (u32 \<Rightarrow> u8) \<Rightarrow> u32" where
  "scasb_end 0 d m = d - 1"
| "scasb_end (Suc n) d m = (if m d = 0 then d else scasb_end n (d + 1) m)"

definition strcat :: "u32 \<Rightarrow> u32 \<Rightarrow> (u32 \<Rightarrow> u8) \<Rightarrow> (u32 \<times> (u32 \<Rightarrow> u8)) option" where
  "strcat dest src m = map_option (Pair dest) (strcpy_loop (scasb_end 0xFFFFFFFF dest m) src m)"

text \<open>The loop leaves with the end of the bytes it has stored, the zero of \<open>src\<close> among them, and one more zero follows.\<close>

function strncat_loop :: "u32 \<Rightarrow> u32 \<Rightarrow> u32 \<Rightarrow> (u32 \<Rightarrow> u8) \<Rightarrow> u32 \<Rightarrow> u8" where
  "strncat_loop dest src count m =
     (if sint (count - 1) < 0 then m(dest := 0)
      else if m src = 0 then m(dest := 0, dest + 1 := 0)
      else strncat_loop (dest + 1) (src + 1) (count - 1) (m(dest := m src)))"
  by pat_completeness auto

termination strncat_loop
  by (relation "measure (\<lambda>(_, _, count, _). unat count)") (simp_all add: count_down)

declare strncat_loop.simps [simp del]

definition strncat :: "u32 \<Rightarrow> u32 \<Rightarrow> u32 \<Rightarrow> (u32 \<Rightarrow> u8) \<Rightarrow> u32 \<times> (u32 \<Rightarrow> u8)" where
  "strncat dest src count m = (dest, strncat_loop (scasb_end 0xFFFFFFFF dest m) src count m)"


subsection \<open>Comparing and searching\<close>

text \<open>\<^verbatim>\<open>scasb\<close> compares the byte of \<open>ct\<close> with that of \<open>cs\<close>, as signed numbers for \<^verbatim>\<open>jl\<close>.\<close>

partial_function (option) strcmp :: "u32 \<Rightarrow> u32 \<Rightarrow> (u32 \<Rightarrow> u8) \<Rightarrow> int option" where
  "strcmp cs ct m =
     (if m ct \<noteq> m cs then Some (if sint (m ct) < sint (m cs) then 1 else - 1)
      else if m ct = 0 then Some 0 else strcmp (cs + 1) (ct + 1) m)"

function strncmp :: "u32 \<Rightarrow> u32 \<Rightarrow> u32 \<Rightarrow> (u32 \<Rightarrow> u8) \<Rightarrow> int" where
  "strncmp cs ct count m =
     (if sint (count - 1) < 0 then 0
      else if m ct \<noteq> m cs then (if sint (m ct) < sint (m cs) then 1 else - 1)
      else if m ct = 0 then 0 else strncmp (cs + 1) (ct + 1) (count - 1) m)"
  by pat_completeness auto

termination strncmp
  by (relation "measure (\<lambda>(_, _, count, _). unat count)") (simp_all add: count_down)

declare strncmp.simps [simp del]

partial_function (option) strchr :: "u32 \<Rightarrow> u8 \<Rightarrow> (u32 \<Rightarrow> u8) \<Rightarrow> u32 option" where
  "strchr s c m = (if m s = c then Some s else if m s = 0 then Some 0 else strchr (s + 1) c m)"


subsection \<open>What they do to strings\<close>

definition str_at :: "(u32 \<Rightarrow> u8) \<Rightarrow> u32 \<Rightarrow> u8 list \<Rightarrow> bool" where
  "str_at m a w \<longleftrightarrow> bytes_at m a (w @ [0]) \<and> 0 \<notin> set w"

lemma str_at_Nil: "str_at m a [] \<longleftrightarrow> m a = 0"
  by (simp add: str_at_def bytes_at_Cons)

lemma str_at_Cons: "str_at m a (x # w) \<longleftrightarrow> m a = x \<and> x \<noteq> 0 \<and> str_at m (a + 1) w"
  by (auto simp: str_at_def bytes_at_Cons)

text \<open>A byte that is stored does not hit what is still to be read.\<close>

definition ahead :: "u32 \<Rightarrow> u32 \<Rightarrow> nat \<Rightarrow> bool" where
  "ahead d s n \<longleftrightarrow> (\<forall>i j. i < j \<longrightarrow> j \<le> n \<longrightarrow> d + of_nat i \<noteq> s + of_nat j)"

lemma ahead_Suc: "ahead d s (Suc n) \<Longrightarrow> ahead (d + 1) (s + 1) n"
proof -
  assume a: "ahead d s (Suc n)"
  have "d + 1 + of_nat i \<noteq> s + 1 + of_nat j" if "i < j" "j \<le> n" for i j
    using a [unfolded ahead_def, rule_format, of "Suc i" "Suc j"] that by (simp add: algebra_simps)
  then show ?thesis by (simp add: ahead_def)
qed

lemma str_at_store:
  assumes "ahead d s (Suc (length w))" "str_at m (s + 1) w"
  shows "str_at (m(d := x)) (s + 1) w"
proof -
  have "d \<noteq> s + 1 + of_nat i" if "i < length (w @ [0])" for i
    using assms(1) [unfolded ahead_def, rule_format, of 0 "Suc i"] that by (simp add: algebra_simps)
  then have "bytes_at (m(d := x)) (s + 1) (w @ [0]) = bytes_at m (s + 1) (w @ [0])" by (intro bytes_at_cong) auto
  then show ?thesis using assms(2) by (simp add: str_at_def)
qed

lemma strcpy_loop_copies: "str_at m s w \<Longrightarrow> ahead d s (length w) \<Longrightarrow> strcpy_loop d s m = Some (put_bytes m d (w @ [0]))"
proof (induction w arbitrary: d s m)
  case Nil
  then show ?case by (subst strcpy_loop.simps) (simp add: str_at_Nil)
next
  case (Cons x w)
  then have "str_at (m(d := x)) (s + 1) w" using str_at_store by (simp add: str_at_Cons)
  then have "strcpy_loop (d + 1) (s + 1) (m(d := x)) = Some (put_bytes (m(d := x)) (d + 1) (w @ [0]))"
    by (rule Cons.IH) (use Cons.prems ahead_Suc in simp)
  then show ?case using Cons.prems(1) by (subst strcpy_loop.simps) (simp add: str_at_Cons)
qed

lemma scasb_end_text: "str_at m d v \<Longrightarrow> length v < n \<Longrightarrow> scasb_end n d m = d + of_nat (length v)"
proof (induction v arbitrary: d n)
  case Nil
  then show ?case by (cases n) (simp_all add: str_at_Nil)
next
  case (Cons x v)
  then show ?case by (cases n) (simp_all add: str_at_Cons algebra_simps)
qed

text \<open>With room for it, \<^verbatim>\<open>strcat\<close> leaves the two strings one behind the other.\<close>

lemma strcat_appends:
  assumes "str_at m d v" "str_at m s w" "length v + length w < 0xFFFFFFFF" "ahead (d + of_nat (length v)) s (length w)"
  shows "\<exists>t. strcat d s m = Some (d, t) \<and> t = put_bytes m (d + of_nat (length v)) (w @ [0]) \<and> str_at t d (v @ w)"
proof -
  let ?e = "d + of_nat (length v)" and ?t = "put_bytes m (d + of_nat (length v)) (w @ [0])"
  have "strcat d s m = Some (d, ?t)"
    using strcpy_loop_copies [OF assms(2,4)] scasb_end_text [OF assms(1), where n = "0xFFFFFFFF"] assms(3) by (simp add: strcat_def)
  moreover have "bytes_at ?t ?e (w @ [0])" using assms(3) by (intro put_bytes_at) simp
  moreover have "bytes_at ?t d v"
  proof -
    have "?t (d + of_nat i) = m (d + of_nat i)" if "i < length v" for i
    proof (rule put_bytes_outside)
      fix j assume "j < length (w @ [0])"
      then have "i < length v + j" "length v + j < 2 ^ 32" using that assms(3) by simp_all
      then have "unat (of_nat i :: u32) \<noteq> unat (of_nat (length v + j) :: u32)" 
        by (simp add: unat_of_nat take_bit_nat_eq_self del: of_nat_add)
      then show "d + of_nat i \<noteq> ?e + of_nat j" by (auto simp: add.assoc)
    qed
    then have "bytes_at ?t d v = bytes_at m d v" by (rule bytes_at_cong)
    then show ?thesis using assms(1) by (simp add: str_at_def bytes_at_append)
  qed
  ultimately show ?thesis using assms(1,2) by (auto simp: str_at_def bytes_at_append)
qed

text \<open>The first difference decides, and the zero at the end counts.\<close>

lemma strcmp_lexord:
  "str_at m cs v \<Longrightarrow> str_at m ct w \<Longrightarrow> \<exists>r. strcmp cs ct m = Some r \<and>
     (r = 0 \<and> v = w \<or> r = 1 \<and> (w @ [0], v @ [0]) \<in> lexord {(x, y). sint x < sint y} \<or>
      r = - 1 \<and> (v @ [0], w @ [0]) \<in> lexord {(x, y). sint x < sint y})"
proof (induction v arbitrary: cs ct w)
  case Nil
  show ?case
  proof (cases w)
    case Nil
    then show ?thesis using \<open>str_at m cs []\<close> \<open>str_at m ct w\<close> by (subst strcmp.simps) (simp add: str_at_Nil)
  next
    case (Cons y ys)
    then have "m ct = y" "y \<noteq> 0" "m cs = 0" using \<open>str_at m cs []\<close> \<open>str_at m ct w\<close> by (simp_all add: str_at_Nil str_at_Cons)
    moreover have "sint y \<noteq> 0" using \<open>y \<noteq> 0\<close> by (metis signed_eq_0_iff)
    ultimately show ?thesis using Cons by (subst strcmp.simps) auto
  qed
next
  case (Cons x xs)
  have x: "m cs = x" "x \<noteq> 0" "str_at m (cs + 1) xs" using Cons.prems(1) by (simp_all add: str_at_Cons)
  show ?case
  proof (cases w)
    case Nil
    then have "m ct = 0" using Cons.prems(2) by (simp add: str_at_Nil)
    moreover have "sint x \<noteq> 0" using x(2) by (metis signed_eq_0_iff)
    ultimately show ?thesis using Nil x by (subst strcmp.simps) auto
  next
    case w: (Cons y ys)
    have y: "m ct = y" "str_at m (ct + 1) ys" using Cons.prems(2) w by (simp_all add: str_at_Cons)
    show ?thesis
    proof (cases "x = y")
      case True
      then show ?thesis using Cons.IH [OF x(3) y(2)] x y w by (subst strcmp.simps) auto
    next
      case False
      then have "sint x \<noteq> sint y" using signed_word_eqI [where 'a = int] by blast
      then show ?thesis using False x y w by (subst strcmp.simps) auto
    qed
  qed
qed

lemma strchr_finds:
  "str_at m a w \<Longrightarrow> c \<in> set w \<Longrightarrow> \<exists>i<length w. strchr a c m = Some (a + of_nat i) \<and> w ! i = c \<and> (\<forall>j<i. w ! j \<noteq> c)"
proof (induction w arbitrary: a)
  case (Cons x w)
  show ?case
  proof (cases "x = c")
    case True
    then show ?thesis using Cons.prems by (subst strchr.simps) (auto simp: str_at_Cons)
  next
    case False
    then obtain i where i: "i < length w" "strchr (a + 1) c m = Some (a + 1 + of_nat i)" "w ! i = c" "\<forall>j<i. w ! j \<noteq> c"
      using Cons by (auto simp: str_at_Cons)
    have "strchr a c m = Some (a + of_nat (Suc i))" using False Cons.prems i(2) by (subst strchr.simps) (simp add: str_at_Cons algebra_simps)
    moreover have "\<forall>j<Suc i. (x # w) ! j \<noteq> c" using i(4) False by (auto simp: less_Suc_eq_0_disj)
    ultimately show ?thesis using i(1,3) by (intro exI [of _ "Suc i"]) simp
  qed
qed simp

lemma count_positive: "unat (c :: u32) < 2 ^ 31 \<Longrightarrow> \<not> sint c < 0"
proof -
  assume "unat c < 2 ^ 31"
  then have "\<not> bit (unat c) 31" by (simp add: bit_iff_odd)
  then have "\<not> bit c 31" by (simp add: bit_unsigned_iff)
  then show ?thesis by (simp add: bit_last_iff [symmetric])
qed

text \<open>A string that ends before the count gets two zeros.\<close>

lemma strncat_loop_text:
  "str_at m s w \<Longrightarrow> ahead d s (length w) \<Longrightarrow> length w < unat n \<Longrightarrow> unat n < 2 ^ 31 \<Longrightarrow> strncat_loop d s n m = put_bytes m d (w @ [0, 0])"
proof (induction w arbitrary: d s n m)
  case Nil
  then have "unat (n - 1) = unat n - 1" by (intro unat_minus_one) auto
  then show ?case using Nil count_positive [of "n - 1"] by (subst strncat_loop.simps) (simp add: str_at_Nil)
next
  case (Cons x w)
  have n: "unat (n - 1) = unat n - 1" using Cons.prems(3) by (intro unat_minus_one) auto
  then have "\<not> sint (n - 1) < 0" using Cons.prems(4) count_positive by simp
  moreover have "str_at (m(d := x)) (s + 1) w" using Cons.prems str_at_store by (simp add: str_at_Cons)
  then have "strncat_loop (d + 1) (s + 1) (n - 1) (m(d := x)) = put_bytes (m(d := x)) (d + 1) (w @ [0, 0])"
    by (rule Cons.IH) (use Cons.prems n ahead_Suc in simp_all)
  ultimately show ?case using Cons.prems by (subst strncat_loop.simps) (simp add: str_at_Cons)
qed


text \<open>
  \<^verbatim>\<open>strncat\<close> of a string shorter than the count writes one zero more than the string needs: a buffer that the result
  just fits is written behind its end.
\<close>

theorem strncat_writes_too_far:
  assumes "str_at m d v" "str_at m s w" "length w < unat n" "unat n < 2 ^ 31" "length v + length w < 0xFFFFFFFE"
    "ahead (d + of_nat (length v)) s (length w)"
  shows "\<exists>t. strncat d s n m = (d, t) \<and> bytes_at t (d + of_nat (length v)) (w @ [0, 0])"
proof -
  have "strncat d s n m = (d, put_bytes m (d + of_nat (length v)) (w @ [0, 0]))"
    using strncat_loop_text [OF assms(2,6,3,4)] scasb_end_text [OF assms(1), where n = "0xFFFFFFFF"] assms(5) by (simp add: strncat_def)
  moreover have "bytes_at (put_bytes m (d + of_nat (length v)) (w @ [0, 0])) (d + of_nat (length v)) (w @ [0, 0])"
    using assms(5) by (intro put_bytes_at) simp
  ultimately show ?thesis by blast
qed

text \<open>
  C39: \<^verbatim>\<open>strcmp\<close> of two strings returns, with 0 when they are equal, 1 when the first is the greater one and \<open>- 1\<close>
  otherwise, in the lexical order of signed bytes in which the zero at the end counts.
\<close>

theorem strcmp_orders:
  assumes "str_at m cs v" "str_at m ct w"
  shows "\<exists>r. strcmp cs ct m = Some r \<and> (r = 0 \<longleftrightarrow> v = w) \<and>
     (r = 1 \<longleftrightarrow> (w @ [0], v @ [0]) \<in> lexord {(x, y). sint x < sint y}) \<and>
     (r = - 1 \<longleftrightarrow> (v @ [0], w @ [0]) \<in> lexord {(x, y). sint x < sint y})"
proof -
  let ?L = "lexord {(x, y :: u8). sint x < sint y}"
  have asym: "asym {(x, y :: u8). sint x < sint y}" by (auto intro: asymI)
  have irr: "(u, u) \<notin> ?L" for u by (intro lexord_irreflexive) simp
  have one: "(w @ [0], v @ [0]) \<in> ?L \<Longrightarrow> (v @ [0], w @ [0]) \<notin> ?L" using lexord_asymmetric [OF asym] by blast
  obtain r where "strcmp cs ct m = Some r"
    "r = 0 \<and> v = w \<or> r = 1 \<and> (w @ [0], v @ [0]) \<in> ?L \<or> r = - 1 \<and> (v @ [0], w @ [0]) \<in> ?L"
    using strcmp_lexord [OF assms] by blast
  then show ?thesis using irr one by (elim disjE) (auto intro!: exI [of _ r])
qed

theorem strcmp_orders_witness:
  "strcmp 100 200 ((\<lambda>_. 0)(100 := 65, 101 := 66, 200 := 65, 201 := 200)) = Some 1"
proof -
  let ?m = "(\<lambda>_. 0)(100 := 65, 101 := 66, 200 := 65, 201 := 200) :: u32 \<Rightarrow> u8"
  have "str_at ?m 100 [65, 66]" "str_at ?m 200 [65, 200]" by (simp_all add: str_at_Cons str_at_Nil)
  from strcmp_orders [OF this] show ?thesis by (auto simp: word_eq_iff_signed)
qed

end
