(* ===== verification/Ctype.thy ===== *)
theory Ctype
  imports Kernel_Prelude
begin

text \<open>
  The classes of characters, \<^verbatim>\<open>include/ctype.h\<close> and \<^verbatim>\<open>lib/ctype.c\<close>. Entry \<open>c + 1\<close> of the table is that of the character \<open>c\<close>, the
  first that of \<open>EOF\<close>; a macro that is given anything else reads outside the table, which is \<open>None\<close>.
\<close>


unbundle bit_operations_syntax

definition C_U :: u8 where "C_U = 0x01"
definition C_L :: u8 where "C_L = 0x02"
definition C_D :: u8 where "C_D = 0x04"
definition C_C :: u8 where "C_C = 0x08"
definition C_P :: u8 where "C_P = 0x10"
definition C_S :: u8 where "C_S = 0x20"
definition C_X :: u8 where "C_X = 0x40"
definition C_SP :: u8 where "C_SP = 0x80"

lemmas class_bits = C_U_def C_L_def C_D_def C_C_def C_P_def C_S_def C_X_def C_SP_def

definition ctype :: "u8 list" where
  "ctype = [
     0,
     C_C, C_C, C_C, C_C, C_C, C_C, C_C, C_C,
     C_C, C_C OR C_S, C_C OR C_S, C_C OR C_S, C_C OR C_S, C_C OR C_S, C_C, C_C,
     C_C, C_C, C_C, C_C, C_C, C_C, C_C, C_C,
     C_C, C_C, C_C, C_C, C_C, C_C, C_C, C_C,
     C_S OR C_SP, C_P, C_P, C_P, C_P, C_P, C_P, C_P,
     C_P, C_P, C_P, C_P, C_P, C_P, C_P, C_P,
     C_D, C_D, C_D, C_D, C_D, C_D, C_D, C_D,
     C_D, C_D, C_P, C_P, C_P, C_P, C_P, C_P,
     C_P, C_U OR C_X, C_U OR C_X, C_U OR C_X, C_U OR C_X, C_U OR C_X, C_U OR C_X, C_U,
     C_U, C_U, C_U, C_U, C_U, C_U, C_U, C_U,
     C_U, C_U, C_U, C_U, C_U, C_U, C_U, C_U,
     C_U, C_U, C_U, C_P, C_P, C_P, C_P, C_P,
     C_P, C_L OR C_X, C_L OR C_X, C_L OR C_X, C_L OR C_X, C_L OR C_X, C_L OR C_X, C_L,
     C_L, C_L, C_L, C_L, C_L, C_L, C_L, C_L,
     C_L, C_L, C_L, C_L, C_L, C_L, C_L, C_L,
     C_L, C_L, C_L, C_P, C_P, C_P, C_P, C_C] @ replicate 128 0"

definition ctype_of :: "int \<Rightarrow> u8 option" where
  "ctype_of c = (if - 1 \<le> c \<and> c \<le> 255 then Some (ctype ! nat (c + 1)) else None)"

definition in_class :: "u8 \<Rightarrow> int \<Rightarrow> bool option" where
  "in_class cls c = map_option (\<lambda>b. b AND cls \<noteq> 0) (ctype_of c)"

definition isalnum :: "int \<Rightarrow> bool option" where "isalnum = in_class (C_U OR C_L OR C_D)"
definition isalpha :: "int \<Rightarrow> bool option" where "isalpha = in_class (C_U OR C_L)"
definition iscntrl :: "int \<Rightarrow> bool option" where "iscntrl = in_class C_C"
definition isdigit :: "int \<Rightarrow> bool option" where "isdigit = in_class C_D"
definition isgraph :: "int \<Rightarrow> bool option" where "isgraph = in_class (C_P OR C_U OR C_L OR C_D)"
definition islower :: "int \<Rightarrow> bool option" where "islower = in_class C_L"
definition isprint :: "int \<Rightarrow> bool option" where "isprint = in_class (C_P OR C_U OR C_L OR C_D OR C_SP)"
definition ispunct :: "int \<Rightarrow> bool option" where "ispunct = in_class C_P"
definition isspace :: "int \<Rightarrow> bool option" where "isspace = in_class C_S"
definition isupper :: "int \<Rightarrow> bool option" where "isupper = in_class C_U"
definition isxdigit :: "int \<Rightarrow> bool option" where "isxdigit = in_class (C_D OR C_X)"

definition isascii :: "u32 \<Rightarrow> bool" where "isascii c \<longleftrightarrow> c \<le> 0x7F"
definition toascii :: "u32 \<Rightarrow> u32" where "toascii c = c AND 0x7F"

text \<open>The argument goes through \<open>_ctmp\<close>, a signed character.\<close>

definition ctmp :: "int \<Rightarrow> int" where
  "ctmp c = (c + 128) mod 256 - 128"

definition tolower :: "int \<Rightarrow> int option" where
  "tolower c = map_option (\<lambda>b. if b then ctmp c - (65 - 97) else ctmp c) (isupper (ctmp c))"

definition toupper :: "int \<Rightarrow> int option" where
  "toupper c = map_option (\<lambda>b. if b then ctmp c - (97 - 65) else ctmp c) (islower (ctmp c))"

lemmas class_defs = isalnum_def isalpha_def iscntrl_def isdigit_def isgraph_def islower_def isprint_def ispunct_def
  isspace_def isupper_def isxdigit_def


subsection \<open>The table\<close>

text \<open>The classes of the 128 characters, written out with the ranges of ASCII.\<close>

definition ascii_class :: "int \<Rightarrow> u8" where
  "ascii_class c =
     (if 48 \<le> c \<and> c \<le> 57 then C_D
      else if 65 \<le> c \<and> c \<le> 90 then (if c \<le> 70 then C_U OR C_X else C_U)
      else if 97 \<le> c \<and> c \<le> 122 then (if c \<le> 102 then C_L OR C_X else C_L)
      else if c = 32 then C_S OR C_SP
      else if 9 \<le> c \<and> c \<le> 13 then C_C OR C_S
      else if 0 \<le> c \<and> c < 32 \<or> c = 127 then C_C
      else if 32 < c \<and> c < 127 then C_P
      else 0)"

lemma table_is_ascii: "list_all (\<lambda>c. ctype_of c = Some (ascii_class c)) [-1..255]"
  by code_simp

lemma ctype_ascii: "- 1 \<le> c \<Longrightarrow> c \<le> 255 \<Longrightarrow> ctype_of c = Some (ascii_class c)"
  using table_is_ascii by (simp add: list_all_iff)


text \<open>The macros are the ranges of characters they are named for.\<close>

lemma in_class_ascii: "- 1 \<le> c \<Longrightarrow> c \<le> 255 \<Longrightarrow> in_class cls c = Some (ascii_class c AND cls \<noteq> 0)"
  by (simp add: in_class_def ctype_ascii)

text \<open>Each class is a union of ranges; the 257 characters are tried one by one.\<close>

lemma class_tables:
  "list_all (\<lambda>c. (ascii_class c AND C_U \<noteq> 0) = (65 \<le> c \<and> c \<le> 90)) [-1..255]"
  "list_all (\<lambda>c. (ascii_class c AND C_L \<noteq> 0) = (97 \<le> c \<and> c \<le> 122)) [-1..255]"
  "list_all (\<lambda>c. (ascii_class c AND C_D \<noteq> 0) = (48 \<le> c \<and> c \<le> 57)) [-1..255]"
  "list_all (\<lambda>c. (ascii_class c AND (C_U OR C_L) \<noteq> 0) = (65 \<le> c \<and> c \<le> 90 \<or> 97 \<le> c \<and> c \<le> 122)) [-1..255]"
  "list_all (\<lambda>c. (ascii_class c AND (C_U OR C_L OR C_D) \<noteq> 0) = (65 \<le> c \<and> c \<le> 90 \<or> 97 \<le> c \<and> c \<le> 122 \<or> 48 \<le> c \<and> c \<le> 57)) [-1..255]"
  "list_all (\<lambda>c. (ascii_class c AND (C_D OR C_X) \<noteq> 0) = (48 \<le> c \<and> c \<le> 57 \<or> 65 \<le> c \<and> c \<le> 70 \<or> 97 \<le> c \<and> c \<le> 102)) [-1..255]"
  "list_all (\<lambda>c. (ascii_class c AND C_S \<noteq> 0) = (c = 32 \<or> 9 \<le> c \<and> c \<le> 13)) [-1..255]"
  "list_all (\<lambda>c. (ascii_class c AND C_C \<noteq> 0) = (0 \<le> c \<and> c < 32 \<or> c = 127)) [-1..255]"
  "list_all (\<lambda>c. (ascii_class c AND (C_P OR C_U OR C_L OR C_D OR C_SP) \<noteq> 0) = (32 \<le> c \<and> c < 127)) [-1..255]"
  "list_all (\<lambda>c. (ascii_class c AND (C_P OR C_U OR C_L OR C_D) \<noteq> 0) = (32 < c \<and> c < 127)) [-1..255]"
  by code_simp+

lemmas class_table = class_tables [unfolded list_all_iff set_upto, THEN bspec, unfolded atLeastAtMost_iff]

lemma class_ranges:
  assumes "- 1 \<le> c" "c \<le> 255"
  shows "isupper c = Some (65 \<le> c \<and> c \<le> 90)" "islower c = Some (97 \<le> c \<and> c \<le> 122)" "isdigit c = Some (48 \<le> c \<and> c \<le> 57)"
    "isalpha c = Some (65 \<le> c \<and> c \<le> 90 \<or> 97 \<le> c \<and> c \<le> 122)"
    "isalnum c = Some (65 \<le> c \<and> c \<le> 90 \<or> 97 \<le> c \<and> c \<le> 122 \<or> 48 \<le> c \<and> c \<le> 57)"
    "isxdigit c = Some (48 \<le> c \<and> c \<le> 57 \<or> 65 \<le> c \<and> c \<le> 70 \<or> 97 \<le> c \<and> c \<le> 102)"
    "isspace c = Some (c = 32 \<or> 9 \<le> c \<and> c \<le> 13)" "iscntrl c = Some (0 \<le> c \<and> c < 32 \<or> c = 127)"
    "isprint c = Some (32 \<le> c \<and> c < 127)" "isgraph c = Some (32 < c \<and> c < 127)"
  using in_class_ascii [OF assms] class_table [of c] assms by (simp_all add: class_defs)

text \<open>
  For the characters of ASCII \<^verbatim>\<open>tolower\<close> and \<^verbatim>\<open>toupper\<close> change the letters of the other case and nothing else; a character
  from 128 to 254 becomes negative on the way and is looked up in front of the table.
\<close>

lemma ctmp_ascii: "0 \<le> c \<Longrightarrow> c < 128 \<Longrightarrow> ctmp c = c"
  by (simp add: ctmp_def)

lemma ctmp_high: "128 \<le> c \<Longrightarrow> c < 255 \<Longrightarrow> ctmp c < - 1"
proof -
  assume c: "128 \<le> c" "c < 255"
  have "(c + 128) mod 256 = (c - 128 + 256) mod 256" by (simp add: add.commute)
  also have "\<dots> = (c - 128) mod 256" by (rule mod_add_self2)
  also have "\<dots> = c - 128" using c by simp
  finally show ?thesis using c by (simp add: ctmp_def)
qed

theorem case_conversion:
  assumes "0 \<le> c" "c < 255"
  shows "tolower c = (if c < 128 then Some (if 65 \<le> c \<and> c \<le> 90 then c + 32 else c) else None) \<and>
    toupper c = (if c < 128 then Some (if 97 \<le> c \<and> c \<le> 122 then c - 32 else c) else None)"
proof (cases "c < 128")
  case True
  then show ?thesis using assms class_ranges(1,2) [of c] by (simp add: tolower_def toupper_def ctmp_ascii)
next
  case False
  then show ?thesis using ctmp_high [of c] assms(2) by (simp add: tolower_def toupper_def class_defs in_class_def ctype_of_def)
qed

end
