(* ===== verification/Who.thy ===== *)
theory Who
  imports Sched Bytes
begin

text \<open>
  The two calls of \<^verbatim>\<open>kernel/who.c\<close>: \<open>sys_iam\<close> stores a name in the kernel and \<open>sys_whoami\<close> gives it back. \<open>msg\<close> is the
  array of 24 bytes; to read behind it is undefined.
\<close>

record who_state = sched_state +
  msg :: "nat \<Rightarrow> u8"


subsection \<open>The calls\<close>

text \<open>The bytes before the first zero or line feed, 30 at most.\<close>

primrec iam_len :: "nat \<Rightarrow> u32 \<Rightarrow> 'a sched_state_scheme \<Rightarrow> nat" where
  "iam_len 0 name s = 0"
| "iam_len (Suc n) name s = (if get_fs_byte name s = 0 \<or> get_fs_byte name s = 10 then 0 else Suc (iam_len n (name + 1) s))"

definition sys_iam :: "u32 \<Rightarrow> 'a who_state_scheme \<Rightarrow> int \<times> 'a who_state_scheme" where
  "sys_iam name s =
     (let len = iam_len 30 name s
      in if 24 \<le> len then (- EINVAL, s)
         else (int len, s\<lparr>msg := (\<lambda>i. if i \<le> len then get_fs_byte (name + of_nat i) s else msg s i)\<rparr>))"

primrec msg_len :: "nat \<Rightarrow> (nat \<Rightarrow> u8) \<Rightarrow> nat \<Rightarrow> nat option" where
  "msg_len 0 m i = None"
| "msg_len (Suc n) m i = (if m i = 0 then Some i else msg_len n m (Suc i))"

primrec msg_copy :: "nat \<Rightarrow> nat \<Rightarrow> u32 \<Rightarrow> 'a who_state_scheme \<Rightarrow> nat \<times> 'a who_state_scheme" where
  "msg_copy 0 i name s = (i, s)"
| "msg_copy (Suc n) i name s =
     (let s = put_fs_byte (msg s i) (name + of_nat i) s
      in if msg s i = 0 then (i, s) else msg_copy n (Suc i) name s)"

definition sys_whoami :: "u32 \<Rightarrow> u32 \<Rightarrow> 'a who_state_scheme \<Rightarrow> (int, 'a who_state_scheme) outcome" where
  "sys_whoami name sz s =
     (case msg_len 24 (msg s) 0 of
        None \<Rightarrow> Stop Undefined s
      | Some len \<Rightarrow>
          if unat sz < len then Done (- EINVAL) s
          else case msg_copy (unat sz) 0 name s of (i, s) \<Rightarrow> Done (int i) s)"


subsection \<open>What they store and give back\<close>

text \<open>The length that \<open>sys_iam\<close> finds, when the text of no zero and no line feed is followed by one of them.\<close>

lemma iam_len_text:
  "bytes_at (fs_mem s) a (w @ [z]) \<Longrightarrow> 0 \<notin> set w \<Longrightarrow> 10 \<notin> set w \<Longrightarrow> z = 0 \<or> z = 10 \<Longrightarrow> length w < n \<Longrightarrow> iam_len n a s = length w"
proof (induction w arbitrary: a n)
  case Nil
  then show ?case by (cases n) (auto simp: get_fs_byte_def bytes_at_Cons)
next
  case (Cons x w)
  then show ?case by (cases n) (auto simp: get_fs_byte_def bytes_at_Cons)
qed

lemma sys_iam_stores:
  assumes "bytes_at (fs_mem s) a (w @ [z])" "0 \<notin> set w" "10 \<notin> set w" "z = 0 \<or> z = 10" "length w < 24"
  shows "sys_iam a s = (int (length w), s\<lparr>msg := (\<lambda>i. if i \<le> length w then (w @ [z]) ! i else msg s i)\<rparr>)"
proof -
  have l: "iam_len 30 a s = length w" by (rule iam_len_text [OF assms(1-4)]) (use assms(5) in simp)
  have "get_fs_byte (a + of_nat i) s = (w @ [z]) ! i" if "i \<le> length w" for i
    using assms(1) that by (simp add: bytes_at_def get_fs_byte_def)
  then show ?thesis using assms(5) l by (simp add: sys_iam_def Let_def cong: if_cong)
qed

lemma sys_iam_long:
  assumes "bytes_at (fs_mem s) a w" "0 \<notin> set w" "10 \<notin> set w" "24 \<le> length w"
  shows "sys_iam a s = (- EINVAL, s)"
proof -
  have "bytes_at m b v \<Longrightarrow> 0 \<notin> set v \<Longrightarrow> 10 \<notin> set v \<Longrightarrow> fs_mem s = m \<Longrightarrow> min n (length v) \<le> iam_len n b s" for m b v n
    by (induction n arbitrary: b v; case_tac v) (auto simp: bytes_at_Cons get_fs_byte_def)
  from this [OF assms(1-3) refl, of 30] have "24 \<le> iam_len 30 a s" using assms(4) by simp
  then show ?thesis by (simp add: sys_iam_def Let_def)
qed


lemma msg_len_text:
  "(\<forall>j<length w. m (i + j) = w ! j) \<Longrightarrow> m (i + length w) = 0 \<Longrightarrow> 0 \<notin> set w \<Longrightarrow> length w < n \<Longrightarrow> msg_len n m i = Some (i + length w)"
proof (induction w arbitrary: i n)
  case Nil
  then show ?case by (cases n) auto
next
  case (Cons x w)
  then obtain k where n: "n = Suc k" by (cases n) auto
  have "m i = x" using Cons.prems(1) [rule_format, of 0] by simp
  moreover have "\<forall>j<length w. m (Suc i + j) = w ! j" using Cons.prems(1) by force
  moreover have "m (Suc i + length w) = 0" "0 \<notin> set w" "length w < k" "x \<noteq> 0" using Cons.prems(2-4) n by auto
  ultimately show ?case using Cons.IH [of "Suc i" k] n by simp
qed

lemma msg_copy_text:
  "(\<forall>j<length w. msg s (i + j) = w ! j) \<Longrightarrow> msg s (i + length w) = 0 \<Longrightarrow> 0 \<notin> set w \<Longrightarrow>
     msg_copy n i b s = (i + min n (length w), s\<lparr>fs_mem := put_bytes (fs_mem s) (b + of_nat i) (take n (w @ [0]))\<rparr>)"
proof (induction w arbitrary: i n s)
  case Nil
  then have "msg s i = 0" by simp
  then show ?case by (cases n) (simp_all add: put_fs_byte_def Let_def fun_upd_def)
next
  case (Cons x w)
  show ?case
  proof (cases n)
    case (Suc k)
    let ?s = "put_fs_byte x (b + of_nat i) s"
    have x: "msg s i = x" "x \<noteq> 0" using Cons.prems(1) [rule_format, of 0] Cons.prems(3) by auto
    have "\<forall>j<length w. msg ?s (Suc i + j) = w ! j" "msg ?s (Suc i + length w) = 0"
      using Cons.prems(1,2) by (force simp: put_fs_byte_def)+
    from Cons.IH [OF this, of k] show ?thesis using x Suc Cons.prems(3) by (simp add: put_fs_byte_def algebra_simps fun_upd_def)
  qed simp
qed

lemma sys_whoami_text:
  assumes "\<forall>j<length w. msg s j = w ! j" "msg s (length w) = 0" "0 \<notin> set w" "length w < 24"
  shows "sys_whoami b sz s = (if unat sz < length w then Done (- EINVAL) s
    else Done (int (length w)) (s\<lparr>fs_mem := put_bytes (fs_mem s) b (take (unat sz) (w @ [0]))\<rparr>))"
proof -
  have l: "msg_len 24 (msg s) 0 = Some (length w)" using msg_len_text [of w "msg s" 0 24] assms by simp
  show ?thesis using msg_copy_text [of w s 0 "unat sz" b] assms(1-3) by (simp add: sys_whoami_def l)
qed

text \<open>
  C38: a name of less than 24 bytes that \<open>sys_iam\<close> is given comes back from \<open>sys_whoami\<close>, at any address and whatever
  user memory holds by then, when the buffer has room for it; the zero behind it is stored only when the
  buffer is longer than the name. A shorter buffer is refused and not touched.
\<close>

theorem whoami_after_iam:
  assumes "bytes_at (fs_mem s) a (w @ [0])" "0 \<notin> set w" "10 \<notin> set w" "length w < 24"
  shows "\<exists>t. sys_iam a s = (int (length w), t) \<and> fs_mem t = fs_mem s \<and>
    (\<forall>b sz m. sys_whoami b sz (t\<lparr>fs_mem := m\<rparr>) = (if unat sz < length w then Done (- EINVAL) (t\<lparr>fs_mem := m\<rparr>)
      else Done (int (length w)) (t\<lparr>fs_mem := put_bytes m b (if length w < unat sz then w @ [0] else w)\<rparr>)))"
proof -
  let ?t = "s\<lparr>msg := (\<lambda>i. if i \<le> length w then (w @ [0]) ! i else msg s i)\<rparr>"
  have "sys_whoami b sz (?t\<lparr>fs_mem := m\<rparr>) = (if unat sz < length w then Done (- EINVAL) (?t\<lparr>fs_mem := m\<rparr>)
      else Done (int (length w)) (?t\<lparr>fs_mem := put_bytes m b (if length w < unat sz then w @ [0] else w)\<rparr>))" for b sz m
  proof -
    have "take (unat sz) (w @ [0]) = (if length w < unat sz then w @ [0] else w)" if "\<not> unat sz < length w" using that by simp
    moreover have "\<forall>j<length w. msg (?t\<lparr>fs_mem := m\<rparr>) j = w ! j" "msg (?t\<lparr>fs_mem := m\<rparr>) (length w) = 0"
      by (simp_all add: nth_append)
    ultimately show ?thesis using sys_whoami_text [of w "?t\<lparr>fs_mem := m\<rparr>" b sz] assms(2,4) by (simp cong: if_cong)
  qed
  then show ?thesis using sys_iam_stores [OF assms(1-3) _ assms(4)] by (intro exI [of _ ?t]) simp
qed

text \<open>A task whose memory holds the text \<open>Li\<close> at address 100.\<close>

definition demo_who :: who_state where
  "demo_who = sched_state.extend (demo_sched\<lparr>fs_mem := (\<lambda>_. 0)(100 := 76, 101 := 105)\<rparr>) (who_state.fields (\<lambda>_. 0))"

lemma demo_who_text: "bytes_at (fs_mem demo_who) 100 ([76, 105] @ [0])"
proof -
  have "bytes_at m a []" for m a by (simp add: bytes_at_def)
  then show ?thesis by (simp add: bytes_at_Cons demo_who_def sched_state.defs)
qed

theorem whoami_after_iam_witness:
  "\<exists>t. sys_iam 100 demo_who = (2, t) \<and> sys_whoami 200 1 t = Done (- EINVAL) t \<and>
     sys_whoami 200 8 t = Done 2 (t\<lparr>fs_mem := (fs_mem demo_who)(200 := 76, 201 := 105, 202 := 0)\<rparr>)"
proof -
  obtain t where t: "sys_iam 100 demo_who = (2, t)" "fs_mem t = fs_mem demo_who"
    and w: "\<And>b sz m. sys_whoami b sz (t\<lparr>fs_mem := m\<rparr>) = (if unat sz < 2 then Done (- EINVAL) (t\<lparr>fs_mem := m\<rparr>)
      else Done 2 (t\<lparr>fs_mem := put_bytes m b (if 2 < unat sz then [76, 105, 0] else [76, 105])\<rparr>))"
    using whoami_after_iam [OF demo_who_text] by auto
  have record_same: "t\<lparr>fs_mem := fs_mem t\<rparr> = t" by simp
  have "sys_whoami 200 1 t = Done (- EINVAL) t" using w [of 200 1 "fs_mem t"] by simp
  moreover have "sys_whoami 200 8 t = Done 2 (t\<lparr>fs_mem := (fs_mem demo_who)(200 := 76, 201 := 105, 202 := 0)\<rparr>)"
    using w [of 200 8 "fs_mem t"] unfolding record_same by (simp add: t(2))
  ultimately show ?thesis using t(1) by blast
qed

text \<open>
  A name that ends with a line feed keeps it, and no zero is stored: what an earlier name left behind
  still follows.
\<close>

theorem iam_line_feed_keeps_tail:
  assumes "bytes_at (fs_mem s) a (w @ [10])" "0 \<notin> set w" "10 \<notin> set w"
    "\<forall>j<length v. msg s j = v ! j" "msg s (length v) = 0" "0 \<notin> set v" "length w < length v" "length v < 24" "unat sz = 24"
  shows "\<exists>t. sys_iam a s = (int (length w), t) \<and>
    sys_whoami b sz t = Done (int (length v)) (t\<lparr>fs_mem := put_bytes (fs_mem s) b (w @ [10] @ drop (Suc (length w)) v @ [0])\<rparr>)"
proof -
  let ?t = "s\<lparr>msg := (\<lambda>i. if i \<le> length w then (w @ [10]) ! i else msg s i)\<rparr>" and ?v = "w @ [10] @ drop (Suc (length w)) v"
  have l: "length ?v = length v" using assms(7) by simp
  have "\<forall>j<length ?v. msg ?t j = ?v ! j"
  proof (intro allI impI)
    fix j assume "j < length ?v"
    then show "msg ?t j = ?v ! j"
    proof (cases "j \<le> length w")
      case True
      then show ?thesis by (auto simp: nth_append le_less)
    next
      case False
      then have "Suc (length w) \<le> j" by simp
      then obtain k where "j = Suc (length w) + k" using le_Suc_ex by blast
      then show ?thesis using assms(4) l \<open>j < length ?v\<close> by (simp add: nth_append)
    qed
  qed
  moreover have "msg ?t (length ?v) = 0" using assms(5,7) by (subst l) simp
  moreover have "0 \<notin> set ?v" using assms(2,6) by (auto dest: in_set_dropD)
  ultimately have "sys_whoami b sz ?t = Done (int (length v)) (?t\<lparr>fs_mem := put_bytes (fs_mem s) b (?v @ [0])\<rparr>)"
    using sys_whoami_text [of ?v ?t b sz] assms(8,9) l by simp
  then show ?thesis using sys_iam_stores [OF assms(1-3)] assms(7,8) by (intro exI [of _ ?t]) simp
qed

end
