(* ===== verification/Spec2Isabelle.thy ===== *)
theory Spec2Isabelle
  imports Sched_Fair File_Contents Directory_Add Segments Gates Exit_Status Main_Init Init_Process Fd_Counts Console_Csi Startup Vsprintf Exec_Args Hd_Returns
    Floppy_Transfer Malloc_Contract Traps Serial Syscalls Strings Ctype Who
begin

text \<open>
  A verification development for the Linux 0.11 kernel in \<^verbatim>\<open>src/\<close>.

  \<^bold>\<open>The program.\<close> The kernel manages physical pages and page tables (\<^verbatim>\<open>mm/\<close>), tasks, signals and timers
  (\<^verbatim>\<open>kernel/\<close>), a buffer cache over block devices (\<^verbatim>\<open>fs/buffer.c\<close>, \<^verbatim>\<open>kernel/blk_drv/\<close>), a Minix file system
  with its bitmaps, inodes, super blocks, directories, pipes and system calls (\<^verbatim>\<open>fs/\<close>), a
  console (\<^verbatim>\<open>kernel/chr_drv/\<close>), the traps, and the library that user programs call it through (\<^verbatim>\<open>lib/\<close>). \<^verbatim>\<open>main\<close> initializes
  the parts and starts the first process. A system call runs on the state of the whole kernel; the components
  share the current task, the cache and the tables of inodes, files and super blocks.

  \<^bold>\<open>The state.\<close> It is one record that grows from theory to theory: \<open>mm_state\<close> (physical memory as words, the
  map of page counts, the messages of \<^verbatim>\<open>printk\<close>), \<open>sched_state\<close> (tasks by slot, the current slot, jiffies, timers,
  floppy motors, the memory that \<^verbatim>\<open>fs\<close> selects) and \<open>fs_state\<close> (buffers, their data, hash table and free
  list, requests, inodes, files, super blocks). An operation is a function from a state to an \<open>outcome\<close>:
  \<open>Done r s\<close>, or \<open>Stop w s\<close> where \<open>w\<close> says why the code goes no further (a panic, undefined
  behaviour such as a null pointer, a loop that the given fuel does not end). Operations that cannot stop are
  plain functions. Words are \<open>32 word\<close>, so addresses and counters wrap as in C; C integers that only
  serve as results and sizes are \<open>int\<close>, with the wrap-around written out where the code can reach it.

  \<^bold>\<open>Sleeping.\<close> Where the code sleeps, other tasks and interrupts run. The operations take an environment \<open>env\<close>
  which gives the state in which they resume (\<open>others\<close>) and a bound on how often a loop that waits for
  other tasks is tried again (\<open>patience\<close>); the theorems hold for every environment, or
  say what they need of it. Other fuel is a number of iterations that the code cannot exceed (the
  entries of a table, the bytes of a string), and the theorems say that it is enough.

  \<^bold>\<open>Devices.\<close> What comes in through a port is a parameter of the state: \<open>io_in\<close> gives the value that a read of a port
    returns from the number of reads so far and the port, and \<open>io_sent\<close> lists what was written. What the DMA
    controller stores and what the BIOS tables hold are arguments too, so the theorems hold for every
    controller, or name the answers they need.

  \<^bold>\<open>Theories.\<close>
  \<^item> \<open>Kernel_Prelude\<close>: outcomes, words and pages, error numbers, shared lemmas.
  \<^item> \<open>Mm_Memory\<close>, \<open>Mm_Fork\<close> (\<^verbatim>\<open>mm/memory.c\<close>): the page allocator hands out zeroed pages that are in nobody's
    use; mapping a page changes one translation; a write fault makes a private copy; \<^verbatim>\<open>copy_page_tables\<close> shares
    pages read-only and counts the references.
  \<^item> \<open>Sched_State\<close>, \<open>Sched\<close> (\<^verbatim>\<open>kernel/sched.c\<close>): \<^verbatim>\<open>schedule\<close> ends and picks a task with the largest counter;
    timers and what \<^verbatim>\<open>add_timer\<close> does to them.
  \<^item> \<open>Sched_Fair\<close>: a task that stays runnable gets the processor again and again, whatever the others do between the calls of
    \<^verbatim>\<open>schedule\<close>, as long as no tasks are made (a new one comes with a full time slice) and the clock goes on.
  \<^item> \<open>Proc_Calls\<close> (\<^verbatim>\<open>kernel/signal.c\<close>, \<^verbatim>\<open>sys.c\<close>, \<^verbatim>\<open>sys_kill\<close>): who is signalled and with which result, user ids, \<^verbatim>\<open>SIGKILL\<close>.
  \<^item> \<open>Segments\<close>: the segment descriptors of a task stay of their type and within its 64 megabytes, through \<^verbatim>\<open>fork\<close> always, and
    through \<^verbatim>\<open>exec\<close> exactly when the text has between 1 byte and 64 megabytes; which texts the check of the header lets pass.
  \<^item> \<open>Traps\<close>, \<open>Gates\<close> (\<^verbatim>\<open>kernel/traps.c\<close>, \<^verbatim>\<open>asm.s\<close>, \<^verbatim>\<open>math_emulate.c\<close>, \<^verbatim>\<open>asm/system.h\<close>): the gates of all vectors and which of them user programs can raise, what the
    handlers of exceptions do, and the two words of a gate as the processor reads them.
  \<^item> \<open>Exit_Status\<close> (\<^verbatim>\<open>sys/wait.h\<close>, \<^verbatim>\<open>kernel/panic.c\<close>): what a parent makes of the status of a child; \<^verbatim>\<open>panic\<close>.
  \<^item> \<open>Fs_State\<close>, \<open>Blk_Dev\<close> (\<^verbatim>\<open>ll_rw_blk.c\<close>, \<^verbatim>\<open>ramdisk.c\<close>): the elevator keeps its order; blocks written to the RAM disk
    are read back.
  \<^item> \<open>Port_Io\<close>, \<open>Hd\<close>, \<open>Hd_Transfer\<close>, \<open>Hd_Returns\<close> (\<^verbatim>\<open>include/asm/io.h\<close>, \<^verbatim>\<open>hd.c\<close>): a request of the hard disk addresses the sector of
    the partition and after its interrupts the block is in the buffer; \<^verbatim>\<open>do_hd_request\<close> returns whatever the
    controller says.
  \<^item> \<open>Floppy\<close>, \<open>Floppy_Transfer\<close> (\<^verbatim>\<open>floppy.c\<close>): the state machine of seek, recalibrate, transfer and reset; a read
    programs the DMA controller and the drive for the block, and a good result ends the request.
  \<^item> \<open>Malloc\<close>, \<open>Malloc_Safe\<close>, \<open>Malloc_Objects\<close>, \<open>Malloc_Contract\<close> (\<^verbatim>\<open>lib/malloc.c\<close>): the allocator is a set of objects, of a size from
    16 to 4096 bytes, that do not overlap; \<^verbatim>\<open>malloc\<close> adds one and \<^verbatim>\<open>free_s\<close> takes one away (the locale
    \<open>object_heap\<close> and its interpretation).
  \<^item> \<open>Free_Ring\<close>, \<open>Buffer\<close>, \<open>Buffer_Cache\<close> (\<^verbatim>\<open>fs/buffer.c\<close>): the hash chains are a partial map from blocks to buffers, the free
    list is a ring of all buffers, and \<^verbatim>\<open>getblk\<close> keeps both; it reuses no buffer that is in use, locked or to be written.
  \<^item> \<open>Bitmap\<close>, \<open>Inode\<close>, \<open>Super\<close> (\<^verbatim>\<open>fs/bitmap.c\<close>, \<^verbatim>\<open>inode.c\<close>, \<^verbatim>\<open>truncate.c\<close>, \<^verbatim>\<open>super.c\<close>): the search for a free bit, the block
    map of a file, inodes on disk and in memory, mounting.
  \<^item> \<open>Byte_Queue\<close>: the contract of a bounded queue of bytes, a locale; it is interpreted by the pipe
    (\<open>Pipe\<close>, \<^verbatim>\<open>fs/pipe.c\<close>) and by the queues of a terminal (\<open>Tty_Queue\<close>, \<^verbatim>\<open>include/linux/tty.h\<close>).
  \<^item> \<open>File_Rw\<close>, \<open>Open\<close>, \<open>Namei\<close>, \<open>Dir_Calls\<close> (\<^verbatim>\<open>fs/read_write.c\<close>, \<^verbatim>\<open>file_dev.c\<close>, \<^verbatim>\<open>block_dev.c\<close>, \<^verbatim>\<open>char_dev.c\<close>, \<^verbatim>\<open>fcntl.c\<close>,
    \<^verbatim>\<open>open.c\<close>, \<^verbatim>\<open>stat.c\<close>, \<^verbatim>\<open>namei.c\<close>): the file system calls.
  \<^item> \<open>File_Contents\<close>: a file with its blocks in the cache is a sequence of bytes; \<^verbatim>\<open>file_read\<close> returns what \<^verbatim>\<open>file_write\<close> put in.
  \<^item> \<open>Directory\<close>, \<open>Directory_Add\<close>: a directory in the cache is a list of names; \<^verbatim>\<open>find_entry\<close> searches the list and finds what
    \<^verbatim>\<open>add_entry\<close> entered.
  \<^item> \<open>Process\<close>, \<open>Fd_Counts\<close> (\<^verbatim>\<open>kernel/fork.c\<close>, \<^verbatim>\<open>exit.c\<close>): fork, exit and wait; the count of a file is the number of
    its descriptors, across \<^verbatim>\<open>dup\<close>, \<^verbatim>\<open>close\<close> and \<^verbatim>\<open>fork\<close>.
  \<^item> \<open>Exec\<close>, \<open>Exec_Args\<close> (\<^verbatim>\<open>fs/exec.c\<close>): execution of programs and scripts, and the stack a program starts with.
  \<^item> \<open>Console\<close>, \<open>Console_Safe\<close>, \<open>Console_Csi\<close> (\<^verbatim>\<open>chr_drv/console.c\<close>): no sequence of bytes makes the console write
    outside video memory; cursor addressing.
  \<^item> \<open>Serial\<close> (\<^verbatim>\<open>serial.c\<close>, \<^verbatim>\<open>tty_io.c\<close>): the set-up of the serial lines and the start of a transmission.
  \<^item> \<open>Vsprintf\<close> (\<^verbatim>\<open>kernel/vsprintf.c\<close>, \<^verbatim>\<open>printk.c\<close>, \<^verbatim>\<open>printf\<close> of \<^verbatim>\<open>init/main.c\<close>): numbers printed are read back; what \<^verbatim>\<open>printk\<close> gives to
    the terminal.
  \<^item> \<open>Syscalls\<close> (\<^verbatim>\<open>unistd.h\<close>, \<^verbatim>\<open>linux/sys.h\<close>, \<^verbatim>\<open>lib/\<close>): each number of the library reaches the kernel function of its name. \<open>Who\<close>
    (\<^verbatim>\<open>kernel/who.c\<close>): \<^verbatim>\<open>whoami\<close> returns what \<^verbatim>\<open>iam\<close> was given, over the bytes in user memory (\<open>Bytes\<close>).
  \<^item> \<open>Strings\<close>, \<open>Ctype\<close> (\<^verbatim>\<open>lib/string.c\<close>, \<^verbatim>\<open>lib/ctype.c\<close>): the string functions, instruction by instruction, and the classes of
    characters.
  \<^item> \<open>Startup\<close> (\<^verbatim>\<open>kernel/mktime.c\<close>, \<^verbatim>\<open>init/main.c\<close>): the clock follows the calendar; the division of memory.
  \<^item> \<open>Main_Init\<close>, \<open>Init_Process\<close> (\<^verbatim>\<open>init/main.c\<close>): after the initializations of \<^verbatim>\<open>main\<close> each component is in its invariant; what the
    first process does, and that it starts a shell for ever.

  \<^bold>\<open>Not modelled.\<close> Assembly (boot, the page fault entry, the keyboard and serial interrupts, \<^verbatim>\<open>move_to_user_mode\<close>; the entry
  of system calls and exceptions is modelled as far as the table it goes through and the checks it makes); the TLB; the debugging output
  of \<^verbatim>\<open>show_task\<close> and \<^verbatim>\<open>show_stat\<close>; page faults within \<^verbatim>\<open>get_fs_byte\<close>, \<^verbatim>\<open>put_fs_byte\<close> and their like, which are single steps
  on the memory that \<^verbatim>\<open>fs\<close> selects, so that a call that copies to or from a user does not sleep while it copies; the contents of messages with arguments where they are only logged; constants and macros of the headers
  that no code uses (the relocation records of \<^verbatim>\<open>a.out.h\<close>, most flags of \<^verbatim>\<open>termios.h\<close>). The functions the sources call and do
  not define (\<^verbatim>\<open>tty_read\<close>, \<^verbatim>\<open>tty_write\<close>, \<^verbatim>\<open>copy_to_cooked\<close>, \<^verbatim>\<open>sysbeep\<close>) are arguments.
\<close>

end
